(* ===== verification/Prelude.thy ===== *)
theory Prelude
  imports Main "HOL-Library.Word"
begin

text \<open>
  Shared vocabulary of the development: machine types, the outcome of a kernel routine that may
  stop the machine, the 32-bit arithmetic of the C code written out on natural numbers, the errno
  values of include/errno.h, and the generic lemmas the components share.
\<close>

unbundle bit_operations_syntax

section \<open>Machine types\<close>

type_synonym u8 = "8 word"
type_synonym u16 = "16 word"
type_synonym u32 = "32 word"

text \<open>
  Addresses, sizes and unsigned values are natural numbers below \<open>W32\<close>; every C operation on
  them that can wrap is written with \<open>add32\<close>, \<open>sub32\<close> or \<open>mul32\<close>. Signed C integers
  (return codes, indices that may be negative) are \<open>int\<close>.
\<close>

abbreviation W32 :: nat where
  "W32 \<equiv> 4294967296"

definition add32 :: "nat \<Rightarrow> nat \<Rightarrow> nat" where
  "add32 a b = (a + b) mod W32"

definition sub32 :: "nat \<Rightarrow> nat \<Rightarrow> nat" where
  "sub32 a b = (a + (W32 - b mod W32)) mod W32"

definition mul32 :: "nat \<Rightarrow> nat \<Rightarrow> nat" where
  "mul32 a b = (a * b) mod W32"

text \<open>The 64-bit counters of the heap, and the reading of a 32-bit value as a signed integer.\<close>

definition add64 :: "nat \<Rightarrow> nat \<Rightarrow> nat" where
  "add64 a b = (a + b) mod 18446744073709551616"

definition sub64 :: "nat \<Rightarrow> nat \<Rightarrow> nat" where
  "sub64 a b = (a + (18446744073709551616 - b mod 18446744073709551616)) mod 18446744073709551616"

definition sint32 :: "nat \<Rightarrow> int" where
  "sint32 x = (if x < 2147483648 then int x else int x - 4294967296)"

named_theorems arith32 \<open>32-bit operations that do not wrap\<close>

lemma add32_small [arith32]: "a + b < W32 \<Longrightarrow> add32 a b = a + b"
  by (simp add: add32_def)

lemma sub32_small [arith32]: "b \<le> a \<Longrightarrow> a < W32 \<Longrightarrow> sub32 a b = a - b"
proof -
  assume ba: "b \<le> a" and aW: "a < W32"
  then have "a + (W32 - b mod W32) = W32 + (a - b)" by simp
  then show ?thesis using aW by (simp add: sub32_def)
qed

lemma mul32_small [arith32]: "a * b < W32 \<Longrightarrow> mul32 a b = a * b"
  by (simp add: mul32_def)

lemma add32_bound [simp]: "add32 a b < W32"
  by (simp add: add32_def)

lemma sub32_bound [simp]: "sub32 a b < W32"
  by (simp add: sub32_def)

lemma mul32_bound [simp]: "mul32 a b < W32"
  by (simp add: mul32_def)

lemma sub32_self [simp]: "sub32 a a = 0"
proof -
  have "(a + (W32 - a mod W32)) mod W32 = (a mod W32 + (W32 - a mod W32)) mod W32"
    by (rule mod_add_left_eq [symmetric])
  also have "a mod W32 + (W32 - a mod W32) = W32"
    using mod_less_divisor [of W32 a] by linarith
  finally show ?thesis unfolding sub32_def by (simp only: mod_self)
qed

lemma sub32_eq_0: "a < W32 \<Longrightarrow> b < W32 \<Longrightarrow> sub32 a b = 0 \<longleftrightarrow> a = b"
proof
  assume a: "a < W32" and b: "b < W32" and z: "sub32 a b = 0"
  show "a = b"
  proof (cases "b \<le> a")
    case True
    with z a show ?thesis by (simp add: sub32_small)
  next
    case False
    with a b have "sub32 a b = a + (W32 - b)" by (simp add: sub32_def)
    with z b show ?thesis by simp
  qed
qed simp

section \<open>Outcomes\<close>

text \<open>
  A kernel routine returns, or the machine stops: \<open>panic()\<close> with its message (it disables
  interrupts and spins, so it never returns), a CPU exception (every handler installed by
  \<open>exceptions_init\<close> panics), or a loop the code never leaves. \<open>Fuel\<close> marks the fuel of a
  bounded loop running out; the enough-fuel lemmas rule it out. \<open>Undefined\<close> is an access that C leaves
  undefined, such as one beyond a static array.
\<close>

datatype halt = Panic string | Trap string | Hang | Fuel | Undefined string

type_synonym 'a outcome = "halt + 'a"

definition bindR :: "'a outcome \<Rightarrow> ('a \<Rightarrow> 'b outcome) \<Rightarrow> 'b outcome" where
  "bindR x f = (case x of Inl h \<Rightarrow> Inl h | Inr a \<Rightarrow> f a)"

lemma bindR_simps [simp]:
  "bindR (Inl h) f = Inl h"
  "bindR (Inr a) f = f a"
  by (simp_all add: bindR_def)

lemma bindR_Inr_iff: "bindR x f = Inr b \<longleftrightarrow> (\<exists>a. x = Inr a \<and> f a = Inr b)"
  by (cases x) simp_all

lemma bindR_InrE [elim!]:
  assumes "bindR x f = Inr b"
  obtains a where "x = Inr a" and "f a = Inr b"
  using assms by (auto simp: bindR_Inr_iff)

lemma bindR_assoc: "bindR (bindR x f) g = bindR x (\<lambda>a. bindR (f a) g)"
  by (cases x) simp_all

text \<open>
  \<open>runs E P x\<close>: \<open>x\<close> returns a value with \<open>P\<close> or stops in a way that \<open>E\<close> allows. Its rules follow the
  structure of a routine, so a proof about one is a walk through its calls.
\<close>

definition runs :: "(halt \<Rightarrow> bool) \<Rightarrow> ('a \<Rightarrow> bool) \<Rightarrow> 'a outcome \<Rightarrow> bool" where
  "runs E P x = (case x of Inl h \<Rightarrow> E h | Inr a \<Rightarrow> P a)"

lemma runs_simps [simp]:
  "runs E P (Inl h) = E h"
  "runs E P (Inr a) = P a"
  "runs E P (bindR x f) = runs E (\<lambda>a. runs E P (f a)) x"
  by (cases x; simp add: runs_def)+

lemma runs_mono: "runs E P x \<Longrightarrow> (\<And>a. x = Inr a \<Longrightarrow> P a \<Longrightarrow> P' a) \<Longrightarrow> (\<And>h. E h \<Longrightarrow> E' h) \<Longrightarrow> runs E' P' x"
  by (cases x) simp_all

lemma runs_total: "runs (\<lambda>_. False) P x \<longleftrightarrow> (\<exists>a. x = Inr a \<and> P a)"
  by (cases x) simp_all

section \<open>errno.h\<close>

abbreviation ENOENT :: int where "ENOENT \<equiv> 2"
abbreviation ESRCH :: int where "ESRCH \<equiv> 3"
abbreviation ENXIO :: int where "ENXIO \<equiv> 6"
abbreviation ENOEXEC :: int where "ENOEXEC \<equiv> 8"
abbreviation EBADF :: int where "EBADF \<equiv> 9"
abbreviation EAGAIN :: int where "EAGAIN \<equiv> 11"
abbreviation ENOMEM :: int where "ENOMEM \<equiv> 12"
abbreviation ENODEV :: int where "ENODEV \<equiv> 19"
abbreviation ENOTDIR :: int where "ENOTDIR \<equiv> 20"
abbreviation EINVAL :: int where "EINVAL \<equiv> 22"
abbreviation EMFILE :: int where "EMFILE \<equiv> 24"
abbreviation ENOSPC :: int where "ENOSPC \<equiv> 28"
abbreviation EROFS :: int where "EROFS \<equiv> 30"
abbreviation ENOSYS :: int where "ENOSYS \<equiv> 35"

section \<open>Loops\<close>

text \<open>\<open>scan p lo hi\<close> is the loop \<open>for (i = lo; i < hi; i++) if (p(i)) return i;\<close>.\<close>

function scan :: "(nat \<Rightarrow> bool) \<Rightarrow> nat \<Rightarrow> nat \<Rightarrow> nat option" where
  "scan p lo hi = (if lo < hi then if p lo then Some lo else scan p (Suc lo) hi else None)"
  by pat_completeness auto
termination
  by (relation "measure (\<lambda>(p, lo, hi). hi - lo)") auto

declare scan.simps [simp del]

lemma scan_Some_iff:
  "scan p lo hi = Some i \<longleftrightarrow> lo \<le> i \<and> i < hi \<and> p i \<and> (\<forall>k. lo \<le> k \<and> k < i \<longrightarrow> \<not> p k)"
proof (induction p lo hi rule: scan.induct)
  case (1 p lo hi)
  show ?case
  proof (cases "lo < hi \<and> \<not> p lo")
    case True
    then have "(lo \<le> i \<and> i < hi \<and> p i \<and> (\<forall>k. lo \<le> k \<and> k < i \<longrightarrow> \<not> p k)) \<longleftrightarrow>
        (Suc lo \<le> i \<and> i < hi \<and> p i \<and> (\<forall>k. Suc lo \<le> k \<and> k < i \<longrightarrow> \<not> p k))"
      by (metis Suc_leD Suc_leI le_neq_implies_less)
    with True "1.IH" show ?thesis by (simp add: scan.simps [of p lo hi])
  next
    case False
    then show ?thesis by (auto simp: scan.simps [of p lo hi] not_less)
  qed
qed

lemma scan_None_iff: "scan p lo hi = None \<longleftrightarrow> (\<forall>k. lo \<le> k \<and> k < hi \<longrightarrow> \<not> p k)"
proof (induction p lo hi rule: scan.induct)
  case (1 p lo hi)
  show ?case
  proof (cases "lo < hi \<and> \<not> p lo")
    case True
    then have "(\<forall>k. lo \<le> k \<and> k < hi \<longrightarrow> \<not> p k) \<longleftrightarrow> (\<forall>k. Suc lo \<le> k \<and> k < hi \<longrightarrow> \<not> p k)"
      by (metis Suc_leD Suc_leI le_neq_implies_less)
    with True "1.IH" show ?thesis by (simp add: scan.simps [of p lo hi])
  next
    case False
    then show ?thesis by (auto simp: scan.simps [of p lo hi])
  qed
qed

lemma scan_cong: "(\<And>k. lo \<le> k \<Longrightarrow> k < hi \<Longrightarrow> p k = q k) \<Longrightarrow> scan p lo hi = scan q lo hi"
proof (induction p lo hi rule: scan.induct)
  case (1 p lo hi)
  have "scan p (Suc lo) hi = scan q (Suc lo) hi" if "lo < hi" "\<not> p lo"
    using that "1.prems" by (intro "1.IH") auto
  then show ?case using "1.prems" [of lo] by (simp add: scan.simps [of p lo hi] scan.simps [of q lo hi])
qed

text \<open>
  \<open>addr_loop bound step body i s\<close> is the loop
  \<open>for (; i < bound; i += step) body(i);\<close> over 32-bit addresses, whose bound is read again in every
  turn. The model does not follow an index that wraps: it then ends in \<open>Fuel\<close>.
\<close>

function addr_loop :: "('s \<Rightarrow> nat) \<Rightarrow> nat \<Rightarrow> (nat \<Rightarrow> 's \<Rightarrow> 's outcome) \<Rightarrow> nat \<Rightarrow> 's \<Rightarrow> 's outcome" where
  "addr_loop bound step body i s =
     (if i < bound s
      then bindR (body i s)
        (\<lambda>s'. if 0 < step \<and> i + step < W32 then addr_loop bound step body (i + step) s' else Inl Fuel)
      else Inr s)"
  by pat_completeness auto
termination
  by (relation "measure (\<lambda>(bound, step, body, i, s). W32 - i)") auto

declare addr_loop.simps [simp del]

text \<open>The rule for total correctness: the loop ends, with its bound reached.\<close>

lemma runs_addr_loop:
  assumes "P i s"
    and "\<And>i s. P i s \<Longrightarrow> i < bound s \<Longrightarrow> runs E (\<lambda>s1. 0 < step \<and> i + step < W32 \<and> P (i + step) s1) (body i s)"
  shows "runs E (\<lambda>s'. \<exists>j. i \<le> j \<and> P j s' \<and> bound s' \<le> j) (addr_loop bound step body i s)"
  using assms
proof (induction bound step body i s rule: addr_loop.induct)
  case (1 bound stp body i s)
  show ?case
  proof (cases "i < bound s")
    case True
    let ?Q = "\<lambda>i s'. \<exists>j\<ge>i. P j s' \<and> bound s' \<le> j"
    have "runs E (\<lambda>s1. 0 < stp \<and> i + stp < W32 \<and> P (i + stp) s1) (body i s)"
      by (rule "1.prems"(2) [OF "1.prems"(1) True])
    then have "runs E (\<lambda>s1. runs E (?Q i) (if 0 < stp \<and> i + stp < W32
        then addr_loop bound stp body (i + stp) s1 else Inl Fuel)) (body i s)"
    proof (rule runs_mono)
      fix s1 assume b: "body i s = Inr s1" and s1: "0 < stp \<and> i + stp < W32 \<and> P (i + stp) s1"
      then have "runs E (?Q (i + stp)) (addr_loop bound stp body (i + stp) s1)"
        using True by (intro "1.IH" "1.prems"(2)) auto
      then have "runs E (?Q i) (addr_loop bound stp body (i + stp) s1)"
        by (rule runs_mono) (auto dest: add_leD1)
      with s1 show "runs E (?Q i) (if 0 < stp \<and> i + stp < W32
        then addr_loop bound stp body (i + stp) s1 else Inl Fuel)" by simp
    qed
    then show ?thesis using True by (simp add: addr_loop.simps [of bound stp body i s])
  next
    case False
    then show ?thesis using "1.prems"(1) by (auto simp: addr_loop.simps [of bound stp body i s])
  qed
qed

section \<open>Bits of natural numbers\<close>

lemma set_bit_less: "x < W32 \<Longrightarrow> n < 32 \<Longrightarrow> set_bit n (x::nat) < W32"
proof -
  assume x: "x < W32" and n: "n < 32"
  have "take_bit 32 x = x" using x by (simp add: take_bit_eq_mod)
  then have "take_bit 32 (set_bit n x) = set_bit n x" using n by (simp add: take_bit_set_bit_eq)
  then show ?thesis using take_bit_nat_less_exp [of 32 "set_bit n x"] by simp
qed

lemma unset_bit_less: "x < W32 \<Longrightarrow> unset_bit n (x::nat) < W32"
proof -
  assume x: "x < W32"
  have "take_bit 32 x = x" using x by (simp add: take_bit_eq_mod)
  have "bit (take_bit 32 (unset_bit n x)) k = bit (unset_bit n x) k" for k
    using arg_cong [OF \<open>take_bit 32 x = x\<close>, of "\<lambda>y. bit y k"]
    by (auto simp: bit_take_bit_iff bit_unset_bit_iff)
  then have "take_bit 32 (unset_bit n x) = unset_bit n x" by (rule bit_eqI)
  then show ?thesis using take_bit_nat_less_exp [of 32 "unset_bit n x"] by simp
qed

lemma ones32_iff: "x < W32 \<Longrightarrow> x = W32 - 1 \<longleftrightarrow> (\<forall>n<32. bit (x::nat) n)"
proof -
  assume x: "x < W32"
  have "x = W32 - 1 \<longleftrightarrow> take_bit 32 x = mask 32"
    using x by (simp add: take_bit_eq_mod mask_eq_exp_minus_1)
  also have "\<dots> \<longleftrightarrow> (\<forall>n<32. bit x n)"
    by (auto simp: bit_eq_iff bit_take_bit_iff bit_mask_iff)
  finally show ?thesis .
qed

section \<open>Lists\<close>

lemma nth_update_split:
  "i < length xs \<Longrightarrow> xs[i := v] ! j = (if i = j then v else xs ! j)"
  by (simp add: nth_list_update)

lemma take_Suc_nth: "i < length xs \<Longrightarrow> take (Suc i) xs = take i xs @ [xs ! i]"
  by (simp add: take_Suc_conv_app_nth)

end
