(* ===== verification/Memory.thy ===== *)
theory Memory
  imports Prelude
begin

text \<open>
  The flat byte memory that the C code addresses, with little-endian loads and stores of 8, 16
  and 32 bits, and the frame lemmas every component proof rests on.
\<close>

type_synonym mem = "nat \<Rightarrow> u8"

section \<open>Loads and stores\<close>

definition ld8 :: "mem \<Rightarrow> nat \<Rightarrow> nat" where
  "ld8 m a = unat (m a)"

definition st8 :: "mem \<Rightarrow> nat \<Rightarrow> nat \<Rightarrow> mem" where
  "st8 m a v = m(a := of_nat v)"

definition ld16 :: "mem \<Rightarrow> nat \<Rightarrow> nat" where
  "ld16 m a = ld8 m a + 256 * ld8 m (a + 1)"

definition st16 :: "mem \<Rightarrow> nat \<Rightarrow> nat \<Rightarrow> mem" where
  "st16 m a v = st8 (st8 m a v) (a + 1) (v div 256)"

definition ld32 :: "mem \<Rightarrow> nat \<Rightarrow> nat" where
  "ld32 m a = ld8 m a + 256 * ld8 m (a + 1) + 65536 * ld8 m (a + 2) + 16777216 * ld8 m (a + 3)"

definition st32 :: "mem \<Rightarrow> nat \<Rightarrow> nat \<Rightarrow> mem" where
  "st32 m a v =
     st8 (st8 (st8 (st8 m a v) (a + 1) (v div 256)) (a + 2) (v div 65536)) (a + 3) (v div 16777216)"

named_theorems mem_simps \<open>loads after stores\<close>

lemma ld8_bound [simp]: "ld8 m a < 256"
  using unsigned_less [of "m a", where 'a = nat] by (simp add: ld8_def)

lemma ld8_st8 [mem_simps]: "ld8 (st8 m a v) b = (if a = b then v mod 256 else ld8 m b)"
  by (simp add: ld8_def st8_def unat_of_nat)

lemma ld16_bound [simp]: "ld16 m a < 65536"
  using ld8_bound [of m a] ld8_bound [of m "a + 1"] unfolding ld16_def by linarith

lemma ld32_bound [simp]: "ld32 m a < W32"
  using ld8_bound [of m a] ld8_bound [of m "a + 1"] ld8_bound [of m "a + 2"] ld8_bound [of m "a + 3"]
  unfolding ld32_def by linarith

lemma bytes4: "(v::nat) mod 256 + 256 * (v div 256 mod 256) + 65536 * (v div 65536 mod 256)
    + 16777216 * (v div 16777216 mod 256) = v mod W32"
proof -
  have a: "v mod 256 + 256 * (v div 256 mod 256) = v mod 65536"
    using mod_mult2_eq [of v 256 256] by simp
  have b: "v mod 65536 + 65536 * (v div 65536 mod 256) = v mod 16777216"
    using mod_mult2_eq [of v 65536 256] by simp
  have c: "v mod 16777216 + 16777216 * (v div 16777216 mod 256) = v mod W32"
    using mod_mult2_eq [of v 16777216 256] by simp
  show ?thesis using a b c by linarith
qed

lemma ld32_st32_same [mem_simps]: "ld32 (st32 m a v) a = v mod W32"
  by (simp add: ld32_def st32_def ld8_st8 bytes4)

lemma ld16_st16_same [mem_simps]: "ld16 (st16 m a v) a = v mod 65536"
  using mod_mult2_eq [of v 256 256] by (simp add: ld16_def st16_def ld8_st8)

lemma low_digit: "(lo::nat) < k \<Longrightarrow> (lo + k * hi) mod k = lo" "(lo::nat) < k \<Longrightarrow> (lo + k * hi) div k = hi"
  by simp_all

lemma next_digit:
  assumes "(w::nat) div a = lo + k * hi" "lo < k" "a * k = b"
  shows "w div a mod k = lo" "w div b = hi"
  using assms by (simp_all add: div_mult2_eq flip: assms(3))

lemma ld32_byte:
  "ld32 m a mod 256 = ld8 m a"
  "ld32 m a div 256 mod 256 = ld8 m (a + 1)"
  "ld32 m a div 65536 mod 256 = ld8 m (a + 2)"
  "ld32 m a div 16777216 mod 256 = ld8 m (a + 3)"
proof -
  let ?b = "\<lambda>i. ld8 m (a + i)" and ?w = "ld32 m a"
  have w: "?w = ld8 m a + 256 * (?b 1 + 256 * (?b 2 + 256 * ?b 3))" by (simp add: ld32_def)
  have d1: "?w div 256 = ?b 1 + 256 * (?b 2 + 256 * ?b 3)"
    unfolding w by (rule low_digit) simp
  have d2: "?w div 65536 = ?b 2 + 256 * ?b 3"
    using div_mult2_eq [of ?w 256 256] low_digit(2) [of "?b 1" 256 "?b 2 + 256 * ?b 3"]
    by (simp only: d1) simp
  have d3: "?w div 16777216 = ?b 3"
    using div_mult2_eq [of ?w 65536 256] low_digit(2) [of "?b 2" 256 "?b 3"]
    by (simp only: d2) simp
  show "?w mod 256 = ld8 m a" unfolding w by (rule low_digit) simp
  show "?w div 256 mod 256 = ?b 1" unfolding d1 by (rule low_digit) simp
  show "?w div 65536 mod 256 = ?b 2" unfolding d2 by (rule low_digit) simp
  show "?w div 16777216 mod 256 = ?b 3" unfolding d3 by simp
qed

text \<open>Bit \<open>k\<close> of a word is bit \<open>k mod 8\<close> of its byte \<open>k div 8\<close>.\<close>

lemma bit_ld32:
  assumes "k < 32"
  shows "bit (ld32 m a) k = bit (ld8 m (a + k div 8)) (k mod 8)"
proof -
  have digit: "bit (x div 2 ^ (8 * i) mod 256) r = bit x (8 * i + r)" if "r < 8" for x i r :: nat
  proof -
    have "x div 2 ^ (8 * i) mod 256 = take_bit 8 (drop_bit (8 * i) x)"
      by (simp add: take_bit_eq_mod drop_bit_eq_div)
    then show ?thesis using that by (simp add: bit_take_bit_iff bit_drop_bit_eq)
  qed
  let ?i = "k div 8"
  have "ld32 m a div 2 ^ (8 * i) mod 256 = ld8 m (a + i)" if "i < 4" for i
  proof -
    have "i = 0 \<or> i = 1 \<or> i = 2 \<or> i = 3" using that by linarith
    then show ?thesis using ld32_byte [of m a] by (elim disjE) simp_all
  qed
  from this [of ?i] have "ld32 m a div 2 ^ (8 * ?i) mod 256 = ld8 m (a + ?i)"
    using assms by (simp add: div_less_iff_less_mult)
  with digit [of "k mod 8" "ld32 m a" ?i] show ?thesis by simp
qed

section \<open>Frames\<close>

definition same_on :: "nat set \<Rightarrow> mem \<Rightarrow> mem \<Rightarrow> bool" where
  "same_on A m m' \<longleftrightarrow> (\<forall>x\<in>A. m' x = m x)"

lemma same_on_refl [simp]: "same_on A m m"
  by (simp add: same_on_def)

lemma same_on_trans: "same_on A m m' \<Longrightarrow> same_on A m' m'' \<Longrightarrow> same_on A m m''"
  by (simp add: same_on_def)

lemma same_on_mono: "same_on B m m' \<Longrightarrow> A \<subseteq> B \<Longrightarrow> same_on A m m'"
  by (auto simp: same_on_def)

lemma same_on_sym: "same_on A m m' \<Longrightarrow> same_on A m' m"
  by (simp add: same_on_def)

lemma same_on_Un [simp]: "same_on (A \<union> B) m m' \<longleftrightarrow> same_on A m m' \<and> same_on B m m'"
  by (auto simp: same_on_def)

lemma same_on_upd: "a \<notin> A \<Longrightarrow> same_on A m (m(a := v))"
  by (auto simp: same_on_def)

lemma same_on_st8: "a \<notin> A \<Longrightarrow> same_on A m (st8 m a v)"
  by (auto simp: same_on_def st8_def)

lemma same_on_st32: "A \<inter> {a..<a + 4} = {} \<Longrightarrow> same_on A m (st32 m a v)"
  by (auto simp: same_on_def st32_def st8_def fun_upd_def)

lemma ld8_frame: "same_on {a..<a + 1} m m' \<Longrightarrow> ld8 m' a = ld8 m a"
  by (simp add: same_on_def ld8_def)

lemma ld32_frame: "same_on {a..<a + 4} m m' \<Longrightarrow> ld32 m' a = ld32 m a"
  by (simp add: same_on_def ld32_def ld8_def)

lemma ld32_st32_other [mem_simps]: "a + 4 \<le> b \<or> b + 4 \<le> a \<Longrightarrow> ld32 (st32 m a v) b = ld32 m b"
  by (rule ld32_frame [OF same_on_st32]) auto

lemma ld32_st8_other [mem_simps]: "a < b \<or> b + 4 \<le> a \<Longrightarrow> ld32 (st8 m a v) b = ld32 m b"
  by (rule ld32_frame [OF same_on_st8]) auto

lemma ld8_st32_other [mem_simps]: "a + 4 \<le> b \<or> b < a \<Longrightarrow> ld8 (st32 m a v) b = ld8 m b"
  by (rule ld8_frame [OF same_on_st32]) auto

text \<open>Two address ranges, each given by its start and its size, that do not overlap.\<close>

definition apart :: "nat \<Rightarrow> nat \<Rightarrow> nat \<Rightarrow> nat \<Rightarrow> bool" where
  "apart a n b k \<longleftrightarrow> a + n \<le> b \<or> b + k \<le> a"

lemma apart_sym: "apart a n b k \<Longrightarrow> apart b k a n"
  by (auto simp: apart_def)

lemma apart_sub: "apart a n b k \<Longrightarrow> a \<le> a' \<Longrightarrow> a' + n' \<le> a + n \<Longrightarrow> b \<le> b' \<Longrightarrow> b' + k' \<le> b + k \<Longrightarrow>
    apart a' n' b' k'"
  by (auto simp: apart_def)

lemma apart_words: "i \<noteq> j \<Longrightarrow> apart (p + 4 * i) 4 (p + 4 * j) 4"
  by (auto simp: apart_def)

lemma ld32_st32_apart [mem_simps]: "apart a 4 b 4 \<Longrightarrow> ld32 (st32 m a v) b = ld32 m b"
  by (auto simp: apart_def ld32_st32_other)

lemma ld16_frame: "same_on {a..<a + 2} m m' \<Longrightarrow> ld16 m' a = ld16 m a"
  by (simp add: same_on_def ld16_def ld8_def)

lemma same_on_st16: "A \<inter> {a..<a + 2} = {} \<Longrightarrow> same_on A m (st16 m a v)"
  by (auto simp: same_on_def st16_def st8_def)

lemma ld_st_apart:
  "apart a 2 b 2 \<Longrightarrow> ld16 (st16 m a v) b = ld16 m b" "apart a 4 b 2 \<Longrightarrow> ld16 (st32 m a v) b = ld16 m b"
  "apart a 2 b 4 \<Longrightarrow> ld32 (st16 m a v) b = ld32 m b" "apart a 4 b 4 \<Longrightarrow> ld32 (st32 m a v) b = ld32 m b"
  by (auto simp: apart_def intro!: ld16_frame ld32_frame same_on_st16 same_on_st32)

lemma same_on_st32_apart: "apart a 4 b k \<Longrightarrow> same_on {b..<b + k} m (st32 m a v)"
  by (rule same_on_st32) (auto simp: apart_def)

lemma ld32_sub_frame: "same_on {b..<b + k} m m' \<Longrightarrow> b \<le> a \<Longrightarrow> a + 4 \<le> b + k \<Longrightarrow> ld32 m' a = ld32 m a"
  by (rule ld32_frame) (auto simp: same_on_def)

section \<open>Byte strings in memory\<close>

definition bytes_at :: "mem \<Rightarrow> nat \<Rightarrow> nat \<Rightarrow> u8 list" where
  "bytes_at m a n = map m [a..<a + n]"

lemma length_bytes_at [simp]: "length (bytes_at m a n) = n"
  by (simp add: bytes_at_def)

lemma nth_bytes_at [simp]: "i < n \<Longrightarrow> bytes_at m a n ! i = m (a + i)"
  by (simp add: bytes_at_def)

lemma bytes_at_frame: "same_on {a..<a + n} m m' \<Longrightarrow> bytes_at m' a n = bytes_at m a n"
  by (auto simp: bytes_at_def same_on_def)

text \<open>\<open>cstr m p s\<close>: the bytes \<open>s\<close>, none of them zero, and a terminating zero lie at \<open>p\<close>.\<close>

fun cstr :: "mem \<Rightarrow> nat \<Rightarrow> u8 list \<Rightarrow> bool" where
  "cstr m p [] = (m p = 0)"
| "cstr m p (c # cs) = (m p = c \<and> c \<noteq> 0 \<and> cstr m (p + 1) cs)"

lemma cstr_frame: "cstr m p s \<Longrightarrow> same_on {p..p + length s} m m' \<Longrightarrow> cstr m' p s"
proof (induction s arbitrary: p)
  case Nil
  then show ?case by (simp add: same_on_def)
next
  case (Cons c cs)
  from Cons.prems(2) have "same_on {p + 1..p + 1 + length cs} m m'" and "m' p = m p"
    by (auto simp: same_on_def)
  with Cons show ?case by simp
qed

lemma cstr_nth: "cstr m p s \<Longrightarrow> i < length s \<Longrightarrow> m (p + i) = s ! i \<and> s ! i \<noteq> 0"
proof (induction s arbitrary: p i)
  case (Cons c cs)
  then show ?case using Cons.IH [of "Suc p"] by (cases i) auto
qed simp

lemma cstr_end: "cstr m p s \<Longrightarrow> m (p + length s) = 0"
proof (induction s arbitrary: p)
  case (Cons c cs)
  then show ?case using Cons.IH [of "Suc p"] by simp
qed simp

lemma cstr_iff: "cstr m p s \<longleftrightarrow> bytes_at m p (length s) = s \<and> 0 \<notin> set s \<and> m (p + length s) = 0"
proof (induction s arbitrary: p)
  case Nil
  then show ?case by (simp add: bytes_at_def)
next
  case (Cons c cs)
  have "[p..<p + Suc (length cs)] = p # [Suc p..<Suc p + length cs]"
    using upt_conv_Cons [of p "p + Suc (length cs)"] by (simp only: add_Suc add_Suc_right)
  then have "bytes_at m p (length (c # cs)) = m p # bytes_at m (p + 1) (length cs)"
    by (simp add: bytes_at_def)
  then show ?case using Cons.IH [of "p + 1"] by auto
qed

lemma cstr_append: "cstr m p (s @ t) \<Longrightarrow> cstr m (p + length s) t"
proof (induction s arbitrary: p)
  case (Cons c cs)
  then show ?case using Cons.IH [of "Suc p"] by simp
qed simp

lemma cstr_unique: "cstr m p s \<Longrightarrow> cstr m p t \<Longrightarrow> s = t"
proof (induction s arbitrary: p t)
  case Nil
  then show ?case by (cases t) auto
next
  case (Cons c cs)
  then show ?case by (cases t) auto
qed

section \<open>Byte strings in memory\<close>

text \<open>\<open>put p ds m\<close> writes the bytes \<open>ds\<close> from \<open>p\<close> on, \<open>get\<close> reads them back.\<close>

primrec put :: "nat \<Rightarrow> u8 list \<Rightarrow> mem \<Rightarrow> mem" where
  "put p [] m = m"
| "put p (d # ds) m = put (Suc p) ds (m(p := d))"

definition get :: "nat \<Rightarrow> nat \<Rightarrow> mem \<Rightarrow> u8 list" where
  "get p n m = map m [p..<p + n]"

lemma put_out: "x < p \<or> p + length ds \<le> x \<Longrightarrow> put p ds m x = m x"
  by (induction ds arbitrary: p m) auto

lemma get_put: "get p (length ds) (put p ds m) = ds"
proof (induction ds arbitrary: p m)
  case (Cons d ds)
  have u: "[p..<p + length (d # ds)] = p # [Suc p..<Suc p + length ds]" by (simp add: upt_conv_Cons del: upt_Suc)
  have "get p (length (d # ds)) (put p (d # ds) m) = put p (d # ds) m p # get (Suc p) (length ds) (put (Suc p) ds (m(p := d)))"
    unfolding get_def u by simp
  then show ?case using Cons [of "Suc p" "m(p := d)"] by (simp add: put_out)
qed (simp add: get_def)

lemma get_same: "same_on {p..<p + n} m m' \<Longrightarrow> get p n m' = get p n m"
  by (auto simp: get_def same_on_def)

end
