(* ===== verification/CString.thy ===== *)
theory CString
  imports Memory "HOL-Library.Monad_Syntax"
begin

text \<open>
  lib/string.c: \<open>strlen\<close>, \<open>strcmp\<close>, \<open>strncmp\<close> and \<open>strtok\<close> over byte memory. The scanning loops
  stop only at a zero byte, so they are partial functions and \<open>None\<close> means that the code never
  returns; the lemmas show that they return on every C string. \<open>strtok\<close> keeps its static
  cursor \<open>sp\<close>, which is passed explicitly.
\<close>

section \<open>The code\<close>

partial_function (option) strlen_loop :: "mem \<Rightarrow> nat \<Rightarrow> nat \<Rightarrow> nat option" where
  "strlen_loop m str i = (if m (str + i) \<noteq> 0 then strlen_loop m str (Suc i) else Some i)"

definition strlen :: "mem \<Rightarrow> nat \<Rightarrow> nat option" where
  "strlen m str = strlen_loop m str 0"

text \<open>The result is a \<open>size_t\<close>: the difference of two bytes, wrapped.\<close>

partial_function (option) strcmp :: "mem \<Rightarrow> nat \<Rightarrow> nat \<Rightarrow> nat option" where
  "strcmp m str1 str2 =
     (let res = sub32 (ld8 m str1) (ld8 m str2)
      in if res = 0 \<and> m str2 \<noteq> 0 then strcmp m (Suc str1) (Suc str2) else Some res)"

primrec strncmp :: "mem \<Rightarrow> nat \<Rightarrow> nat \<Rightarrow> nat \<Rightarrow> nat" where
  "strncmp m str1 str2 0 = 0"
| "strncmp m str1 str2 (Suc n) =
     (if m str1 \<noteq> m str2 then sub32 (ld8 m str1) (ld8 m str2)
      else strncmp m (Suc str1) (Suc str2) n)"

text \<open>The \<open>for\<close> loop over the delimiters: the index of the first one equal to \<open>c\<close>, or \<open>len\<close>.\<close>

function delim_scan :: "mem \<Rightarrow> u8 \<Rightarrow> nat \<Rightarrow> nat \<Rightarrow> nat \<Rightarrow> nat" where
  "delim_scan m c delim len i =
     (if i < len then if c = m (delim + i) then i else delim_scan m c delim len (Suc i) else i)"
  by pat_completeness auto
termination
  by (relation "measure (\<lambda>(m, c, delim, len, i). len - i)") auto

declare delim_scan.simps [simp del]

partial_function (option) skip_delims :: "mem \<Rightarrow> nat \<Rightarrow> nat \<Rightarrow> nat \<Rightarrow> nat option" where
  "skip_delims m p_start delim len =
     (if delim_scan m (m p_start) delim len 0 < len
      then skip_delims m (Suc p_start) delim len else Some p_start)"

partial_function (option) token_end :: "mem \<Rightarrow> nat \<Rightarrow> nat \<Rightarrow> nat \<Rightarrow> (mem \<times> nat) option" where
  "token_end m sp delim len =
     (if m sp \<noteq> 0
      then if delim_scan m (m sp) delim len 0 < len
           then Some (m(sp := 0), Suc sp)
           else token_end m (Suc sp) delim len
      else Some (m, sp))"

text \<open>\<open>strtok m sp str delim\<close> is the returned pointer, the new cursor and the new memory.\<close>

definition strtok :: "mem \<Rightarrow> nat \<Rightarrow> nat \<Rightarrow> nat \<Rightarrow> (nat \<times> nat \<times> mem) option" where
  "strtok m sp str delim = do {
     len \<leftarrow> strlen m delim;
     if len = 0 then Some (0, sp, m)
     else if str = 0 \<and> sp = 0 then Some (0, sp, m)
     else do {
       let sp1 = (if str \<noteq> 0 \<and> sp = 0 then str else sp);
       p_start \<leftarrow> skip_delims m sp1 delim len;
       if m p_start = 0 then Some (0, 0, m)
       else do {
         (m', sp') \<leftarrow> token_end m p_start delim len;
         Some (p_start, sp', m')
       }
     }
   }"

text \<open>
  The calling pattern of the kernel (\<open>ext2_find_file_inode\<close>): one call on the string, then calls
  on the null pointer until a null pointer comes back. The result holds the token pointers.
\<close>

partial_function (option) strtok_rest :: "mem \<Rightarrow> nat \<Rightarrow> nat \<Rightarrow> nat \<Rightarrow> (nat list \<times> nat \<times> mem) option" where
  "strtok_rest m sp pch delim =
     (if pch = 0 then Some ([], sp, m)
      else do {
        (pch', sp', m') \<leftarrow> strtok m sp 0 delim;
        (pchs, sp'', m'') \<leftarrow> strtok_rest m' sp' pch' delim;
        Some (pch # pchs, sp'', m'')
      })"

definition strtok_all :: "mem \<Rightarrow> nat \<Rightarrow> nat \<Rightarrow> nat \<Rightarrow> (nat list \<times> nat \<times> mem) option" where
  "strtok_all m sp str delim = do {
     (pch, sp', m') \<leftarrow> strtok m sp str delim;
     strtok_rest m' sp' pch delim
   }"

section \<open>Length and comparison\<close>

lemma strlen_loop_cstr: "cstr m (p + i) s \<Longrightarrow> strlen_loop m p i = Some (i + length s)"
proof (induction s arbitrary: i)
  case Nil
  then show ?case by (simp add: strlen_loop.simps)
next
  case (Cons c cs)
  then have "strlen_loop m p (Suc i) = Some (Suc i + length cs)"
    by (intro Cons.IH) simp
  with Cons.prems show ?case by (simp add: strlen_loop.simps [of m p i])
qed

lemma strlen_cstr: "cstr m p s \<Longrightarrow> strlen m p = Some (length s)"
  using strlen_loop_cstr [of m p 0 s] by (simp add: strlen_def)

lemma strlen_loop_result:
  assumes "strlen_loop m p i = Some n"
  shows "i \<le> n \<and> (\<forall>k. i \<le> k \<and> k < n \<longrightarrow> m (p + k) \<noteq> 0) \<and> m (p + n) = 0"
proof (rule strlen_loop.raw_induct
    [where P = "\<lambda>m p i n. i \<le> n \<and> (\<forall>k. i \<le> k \<and> k < n \<longrightarrow> m (p + k) \<noteq> 0) \<and> m (p + n) = 0",
     OF _ assms])
  fix f :: "mem \<Rightarrow> nat \<Rightarrow> nat \<Rightarrow> nat option" and m :: mem and p i n
  assume IH: "\<And>m p i n. f m p i = Some n \<Longrightarrow>
      i \<le> n \<and> (\<forall>k. i \<le> k \<and> k < n \<longrightarrow> m (p + k) \<noteq> 0) \<and> m (p + n) = 0"
    and eq: "(if m (p + i) \<noteq> 0 then f m p (Suc i) else Some i) = Some n"
  show "i \<le> n \<and> (\<forall>k. i \<le> k \<and> k < n \<longrightarrow> m (p + k) \<noteq> 0) \<and> m (p + n) = 0"
  proof (cases "m (p + i) = 0")
    case True
    with eq show ?thesis by auto
  next
    case False
    with eq have "f m p (Suc i) = Some n" by simp
    from IH [OF this] False show ?thesis by (metis Suc_leD le_neq_implies_less Suc_leI)
  qed
qed

lemma strlen_Some_iff: "strlen m p = Some n \<longleftrightarrow> cstr m p (bytes_at m p n)"
proof
  assume "strlen m p = Some n"
  then have "(\<forall>k<n. m (p + k) \<noteq> 0) \<and> m (p + n) = 0"
    using strlen_loop_result [of m p 0 n] by (simp add: strlen_def)
  then show "cstr m p (bytes_at m p n)" by (auto simp: cstr_iff in_set_conv_nth)
next
  assume "cstr m p (bytes_at m p n)"
  then show "strlen m p = Some n" by (simp add: strlen_cstr)
qed

text \<open>The value that a comparison of two byte strings yields: the first difference, wrapped.\<close>

fun cmp_spec :: "u8 list \<Rightarrow> u8 list \<Rightarrow> nat" where
  "cmp_spec (a # as) (b # bs) = (if a = b then cmp_spec as bs else sub32 (unat a) (unat b))"
| "cmp_spec [] (b # bs) = sub32 0 (unat b)"
| "cmp_spec (a # as) [] = unat a"
| "cmp_spec [] [] = 0"

lemma sub32_bytes: "sub32 (unat (a :: u8)) (unat (b :: u8)) = 0 \<longleftrightarrow> a = b"
proof -
  have "unat a < W32" "unat b < W32"
    using unsigned_less [of a, where 'a = nat] unsigned_less [of b, where 'a = nat] by simp_all
  then show ?thesis by (simp add: sub32_eq_0 word_unat_eq_iff)
qed

lemma cmp_spec_eq_0: "0 \<notin> set a \<Longrightarrow> 0 \<notin> set b \<Longrightarrow> cmp_spec a b = 0 \<longleftrightarrow> a = b"
  using sub32_bytes [of 0]
  by (induction a b rule: cmp_spec.induct) (auto simp: sub32_bytes unat_eq_zero)

lemma strcmp_cstr: "cstr m p a \<Longrightarrow> cstr m q b \<Longrightarrow> strcmp m p q = Some (cmp_spec a b)"
proof (induction a b arbitrary: p q rule: cmp_spec.induct)
  case (1 a as b bs)
  then have "a = b \<Longrightarrow> strcmp m (Suc p) (Suc q) = Some (cmp_spec as bs)" by simp
  with 1 show ?case by (subst strcmp.simps) (auto simp: Let_def sub32_bytes ld8_def)
next
  case (2 b bs)
  then show ?case
    using sub32_bytes [of 0 b] by (subst strcmp.simps) (simp add: Let_def ld8_def)
next
  case (3 a as)
  then have "sub32 (unat a) 0 = unat a"
    using unsigned_less [of a, where 'a = nat] by (simp add: sub32_small)
  with 3 show ?case by (subst strcmp.simps) (auto simp: Let_def ld8_def)
next
  case 4
  then show ?case by (subst strcmp.simps) (simp add: Let_def ld8_def)
qed

text \<open>
  \<open>strncmp\<close> compares \<open>n\<close> bytes and, unlike the C library's function, does not stop at a
  terminating zero: it is zero exactly when all \<open>n\<close> bytes agree.
\<close>

lemma strncmp_eq_0: "strncmp m p q n = 0 \<longleftrightarrow> bytes_at m p n = bytes_at m q n"
proof (induction n arbitrary: p q)
  case 0
  then show ?case by (simp add: bytes_at_def)
next
  case (Suc n)
  have cons: "bytes_at m r (Suc n) = m r # bytes_at m (Suc r) n" for r
    using upt_conv_Cons [of r "r + Suc n"] by (simp add: bytes_at_def)
  show ?case by (simp add: Suc.IH cons sub32_bytes ld8_def)
qed

text \<open>On two C strings, \<open>strncmp\<close> with the length of the first one is a prefix test.\<close>

lemma strncmp_prefix:
  assumes "cstr m p a" and "cstr m q b"
  shows "strncmp m p q (length a) = 0 \<longleftrightarrow> take (length a) b = a"
proof -
  have a: "bytes_at m p (length a) = a" using assms(1) by (simp add: cstr_iff)
  show ?thesis
  proof (cases "length a \<le> length b")
    case True
    then have "bytes_at m q (length a) = take (length a) b"
      by (intro nth_equalityI) (auto simp: cstr_nth [OF assms(2), THEN conjunct1])
    then show ?thesis by (auto simp: strncmp_eq_0 a)
  next
    case False
    then have "m (q + length b) = 0" "length b < length a" using cstr_end [OF assms(2)] by auto
    then have "bytes_at m q (length a) ! length b = 0" by simp
    moreover have "a ! length b \<noteq> 0" using False cstr_nth [OF assms(1)] by simp
    ultimately have "bytes_at m q (length a) \<noteq> a" by auto
    moreover have "length (take (length a) b) < length a" using False by simp
    then have "take (length a) b \<noteq> a" by (metis less_irrefl)
    ultimately show ?thesis by (auto simp: strncmp_eq_0 a)
  qed
qed

section \<open>Tokens\<close>

text \<open>The tokens of a byte string: its maximal runs of bytes that are not delimiters.\<close>

function tokens :: "u8 list \<Rightarrow> u8 list \<Rightarrow> u8 list list" where
  "tokens ds s =
     (let t = dropWhile (\<lambda>c. c \<in> set ds) s
      in if t = [] then []
         else takeWhile (\<lambda>c. c \<notin> set ds) t # tokens ds (dropWhile (\<lambda>c. c \<notin> set ds) t))"
  by pat_completeness auto
termination
proof (relation "measure (\<lambda>(ds, s). length s)")
  fix ds s t :: "u8 list"
  assume t: "t = dropWhile (\<lambda>c. c \<in> set ds) s" and ne: "t \<noteq> []"
  then have "hd t \<notin> set ds" using hd_dropWhile [of "\<lambda>c. c \<in> set ds" s] by simp
  with ne obtain c r where "t = c # r" and "c \<notin> set ds" by (cases t) auto
  then have "length (dropWhile (\<lambda>c. c \<notin> set ds) t) < length t"
    using length_dropWhile_le [of "\<lambda>c. c \<notin> set ds" r] by simp
  also have "length t \<le> length s" unfolding t by (rule length_dropWhile_le)
  finally show "((ds, dropWhile (\<lambda>c. c \<notin> set ds) t), (ds, s)) \<in> measure (\<lambda>(ds, s). length s)"
    by simp
qed simp

declare tokens.simps [simp del]

lemma tokens_Nil [simp]: "tokens ds [] = []"
  by (simp add: tokens.simps)

lemma tokens_delim: "c \<in> set ds \<Longrightarrow> tokens ds (c # s) = tokens ds s"
  by (subst (1 2) tokens.simps) simp

lemma tokens_skip: "tokens ds (dropWhile (\<lambda>c. c \<in> set ds) s) = tokens ds s"
  by (induction s) (auto simp: tokens_delim)

lemma tokens_token:
  assumes "c \<notin> set ds"
  shows "tokens ds (c # s) = takeWhile (\<lambda>c. c \<notin> set ds) (c # s)
    # tokens ds (dropWhile (\<lambda>c. c \<notin> set ds) (c # s))"
  by (subst tokens.simps) (simp add: assms)

lemma token_nonempty: "t \<in> set (tokens ds s) \<Longrightarrow> t \<noteq> []"
proof (induction ds s rule: tokens.induct)
  case (1 ds s)
  let ?t = "dropWhile (\<lambda>c. c \<in> set ds) s"
  show ?case
  proof (cases ?t)
    case Nil
    with "1.prems" show ?thesis by (simp add: tokens.simps [of ds s])
  next
    case (Cons c r)
    then have "c \<notin> set ds" using hd_dropWhile [of "\<lambda>c. c \<in> set ds" s] by simp
    with "1" Cons show ?thesis by (auto simp: tokens.simps [of ds s] Let_def)
  qed
qed

section \<open>strtok\<close>

lemma delim_scan_less_iff:
  "i \<le> len \<Longrightarrow> delim_scan m c delim len i < len \<longleftrightarrow> (\<exists>k. i \<le> k \<and> k < len \<and> c = m (delim + k))"
proof (induction m c delim len i rule: delim_scan.induct)
  case (1 m c delim len i)
  show ?case
  proof (cases "i < len \<and> c \<noteq> m (delim + i)")
    case True
    have "(\<exists>k. Suc i \<le> k \<and> k < len \<and> c = m (delim + k)) \<longleftrightarrow> (\<exists>k. i \<le> k \<and> k < len \<and> c = m (delim + k))"
      using True by (metis Suc_leD Suc_leI le_neq_implies_less)
    with True "1.IH" show ?thesis by (simp add: delim_scan.simps [of m c delim len i])
  next
    case False
    with "1.prems" show ?thesis by (auto simp: delim_scan.simps [of m c delim len i])
  qed
qed

lemma delim_scan_delims:
  assumes "cstr m delim ds"
  shows "delim_scan m c delim (length ds) 0 < length ds \<longleftrightarrow> c \<in> set ds"
proof -
  have "\<And>k. k < length ds \<Longrightarrow> m (delim + k) = ds ! k" using cstr_nth [OF assms] by blast
  then show ?thesis by (auto simp: delim_scan_less_iff in_set_conv_nth)
qed

lemma skip_delims_cstr:
  assumes "cstr m delim ds" and "cstr m p s"
  shows "skip_delims m p delim (length ds) =
    Some (p + length (takeWhile (\<lambda>c. c \<in> set ds) s))"
  using assms(2)
proof (induction s arbitrary: p)
  case Nil
  have "0 \<notin> set ds" using assms(1) by (simp add: cstr_iff)
  with Nil show ?case
    by (subst skip_delims.simps) (simp add: delim_scan_delims [OF assms(1)])
next
  case (Cons c cs)
  then show ?case
    using Cons.IH [of "Suc p"]
    by (subst skip_delims.simps) (simp add: delim_scan_delims [OF assms(1)])
qed

lemma token_end_cstr:
  assumes "cstr m delim ds" and "cstr m p s"
  shows "token_end m p delim (length ds) =
    (let n = length (takeWhile (\<lambda>c. c \<notin> set ds) s)
     in if n < length s then Some (m(p + n := 0), Suc (p + n)) else Some (m, p + n))"
  using assms(2)
proof (induction s arbitrary: p)
  case Nil
  then show ?case by (subst token_end.simps) simp
next
  case (Cons c cs)
  then show ?case
    using Cons.IH [of "Suc p"]
    by (subst token_end.simps) (simp add: delim_scan_delims [OF assms(1)] Let_def)
qed

text \<open>
  \<open>disjoint_strs\<close>: the delimiter string lies outside the bytes of the string being cut.
\<close>

definition disjoint_strs :: "nat \<Rightarrow> u8 list \<Rightarrow> nat \<Rightarrow> u8 list \<Rightarrow> bool" where
  "disjoint_strs delim ds p s \<longleftrightarrow> {delim..delim + length ds} \<inter> {p..<p + length s} = {}"

lemma cstr_nul_cut:
  assumes "cstr m p s" and "n < length s"
  shows "cstr (m(p + n := 0)) p (take n s)" and "cstr (m(p + n := 0)) (Suc (p + n)) (drop (Suc n) s)"
proof -
  have bs: "bytes_at m p (length s) = s" and z: "0 \<notin> set s" and e: "m (p + length s) = 0"
    using assms(1) by (simp_all add: cstr_iff)
  have i: "m (p + i) = s ! i" if "i < length s" for i using cstr_nth [OF assms(1) that] by simp
  have "bytes_at (m(p + n := 0)) p n = take n s"
    using assms(2) i by (intro nth_equalityI) auto
  moreover have "0 \<notin> set (take n s)" using z by (meson in_set_takeD)
  ultimately show "cstr (m(p + n := 0)) p (take n s)" using assms(2) by (simp add: cstr_iff min_def)
  have "bytes_at (m(p + n := 0)) (Suc (p + n)) (length s - Suc n) = drop (Suc n) s"
    using assms(2) i [of "Suc n + _"] by (intro nth_equalityI) (auto simp: add.assoc)
  moreover have "0 \<notin> set (drop (Suc n) s)" using z by (meson in_set_dropD)
  moreover have "Suc (p + n) + (length s - Suc n) = p + length s" using assms(2) by simp
  ultimately show "cstr (m(p + n := 0)) (Suc (p + n)) (drop (Suc n) s)"
    using e assms(2) by (simp add: cstr_iff del: add_Suc add_Suc_right)
qed

lemma strtok_cursor:
  assumes "cstr m delim ds" "ds \<noteq> []" and p: "(if str \<noteq> 0 \<and> sp = 0 then str else sp) = p" and "p \<noteq> 0"
  shows "strtok m sp str delim =
    (case skip_delims m p delim (length ds) of None \<Rightarrow> None
     | Some q \<Rightarrow> if m q = 0 then Some (0, 0, m)
        else map_option (\<lambda>(m', sp'). (q, sp', m')) (token_end m q delim (length ds)))"
proof -
  have "\<not> (str = 0 \<and> sp = 0)" using assms(3,4) by (auto split: if_splits)
  then show ?thesis
    unfolding strtok_def Let_def p using assms(2)
    by (cases "skip_delims m p delim (length ds)";
        cases "token_end m (the (skip_delims m p delim (length ds))) delim (length ds)")
      (auto simp: strlen_cstr [OF assms(1)])
qed

lemma strtok_none:
  assumes "cstr m delim ds" "ds \<noteq> []" "(if str \<noteq> 0 \<and> sp = 0 then str else sp) = p" "p \<noteq> 0"
    and "cstr m p s" "tokens ds s = []"
  shows "strtok m sp str delim = Some (0, 0, m)"
proof -
  let ?k = "length (takeWhile (\<lambda>c. c \<in> set ds) s)"
  have "dropWhile (\<lambda>c. c \<in> set ds) s = []"
    using assms(6) by (auto simp: tokens.simps [of ds s] Let_def split: if_splits)
  then have "?k = length s" by (metis append_Nil2 takeWhile_dropWhile_id)
  then have "m (p + ?k) = 0" using cstr_end [OF assms(5)] by simp
  then show ?thesis
    unfolding strtok_cursor [OF assms(1-4)] skip_delims_cstr [OF assms(1,5)] by simp
qed

lemma strtok_token:
  assumes "cstr m delim ds" "ds \<noteq> []" "(if str \<noteq> 0 \<and> sp = 0 then str else sp) = p" "p \<noteq> 0"
    and "cstr m p s" "tokens ds s = t # ts"
  obtains q sp' s' m' where "strtok m sp str delim = Some (q, sp', m')" "q \<noteq> 0" "sp' \<noteq> 0"
    "cstr m' q t" "cstr m' sp' s'" "tokens ds s' = ts"
    "p \<le> sp'" "sp' + length s' = p + length s"
    "{q..q + length t} \<inter> {sp'..<sp' + length s'} = {}"
    "same_on (- {p..<p + length s}) m m'" "p \<le> q" "q + length t \<le> p + length s"
proof -
  define k where "k = length (takeWhile (\<lambda>c. c \<in> set ds) s)"
  define r where "r = dropWhile (\<lambda>c. c \<in> set ds) s"
  define n where "n = length (takeWhile (\<lambda>c. c \<notin> set ds) r)"
  have s: "s = takeWhile (\<lambda>c. c \<in> set ds) s @ r" by (simp add: r_def)
  have ls: "length s = k + length r" by (subst s) (simp add: k_def)
  have t: "t = takeWhile (\<lambda>c. c \<notin> set ds) r" and ts: "ts = tokens ds (dropWhile (\<lambda>c. c \<notin> set ds) r)"
    and rne: "r \<noteq> []"
    using assms(6) by (auto simp: tokens.simps [of ds s] Let_def r_def split: if_splits)
  have nt: "take n r = t" and nd: "drop n r = dropWhile (\<lambda>c. c \<notin> set ds) r"
    by (simp_all add: n_def t flip: takeWhile_eq_take dropWhile_eq_drop)
  have nl: "length t = n" by (simp add: n_def t)
  have cr: "cstr m (p + k) r" using cstr_append [of m p _ r] assms(5) s by (metis k_def)
  then have "m (p + k) \<noteq> 0" using rne by (cases r) auto
  then have step: "strtok m sp str delim =
      (if n < length r then Some (p + k, Suc (p + k + n), m(p + k + n := 0)) else Some (p + k, p + k + n, m))"
    unfolding strtok_cursor [OF assms(1-4)] skip_delims_cstr [OF assms(1,5)] k_def [symmetric]
    by (simp add: token_end_cstr [OF assms(1) cr] Let_def n_def)
  show thesis
  proof (cases "n < length r")
    case True
    have "r ! n \<in> set ds" using nth_length_takeWhile [of "\<lambda>c. c \<notin> set ds" r] True by (simp add: n_def)
    moreover have "drop n r = r ! n # drop (Suc n) r" using True by (simp add: Cons_nth_drop_Suc)
    ultimately have "tokens ds (drop (Suc n) r) = ts" by (simp add: ts flip: nd) (simp add: tokens_delim)
    with True cstr_nul_cut [OF cr True] show thesis
      by (intro that [of "p + k" "Suc (p + k + n)" "m(p + k + n := 0)" "drop (Suc n) r"])
        (use assms(4) ls nl in \<open>auto simp: step nt same_on_def\<close>)
  next
    case False
    then have "n = length r" using n_def length_takeWhile_le [of "\<lambda>c. c \<notin> set ds" r] by simp
    then have "ts = []" "t = r" using nt nd by (simp_all add: ts flip: nd)
    with False cr \<open>n = length r\<close> show thesis
      by (intro that [of "p + k" "p + k + n" m "[]"])
        (use assms(4) ls cstr_end [OF cr] in \<open>auto simp: step\<close>)
  qed
qed

lemma strtok_rest_tokens:
  assumes "cstr m delim ds" "ds \<noteq> []" "sp \<noteq> 0" "pch \<noteq> 0" "cstr m sp s" "disjoint_strs delim ds sp s"
  shows "\<exists>qs m'. strtok_rest m sp pch delim = Some (pch # qs, 0, m') \<and>
    list_all2 (cstr m') qs (tokens ds s) \<and> same_on (- {sp..<sp + length s}) m m'"
  using assms
proof (induction "tokens ds s" arbitrary: m sp pch s)
  case Nil
  then have "strtok m sp 0 delim = Some (0, 0, m)"
    by (intro strtok_none [where p = sp and s = s and ds = ds]) auto
  with Nil show ?case by (simp add: strtok_rest.simps [of m sp] strtok_rest.simps [of _ _ 0])
next
  case (Cons t ts)
  note tk = Cons.hyps(2) [symmetric]
  obtain q sp' s' m1 where
    st: "strtok m sp 0 delim = Some (q, sp', m1)" and nz: "q \<noteq> 0" "sp' \<noteq> 0"
    and ct: "cstr m1 q t" and cs: "cstr m1 sp' s'" and ts: "tokens ds s' = ts"
    and pos: "sp \<le> sp'" "sp' + length s' = sp + length s"
    and dis: "{q..q + length t} \<inter> {sp'..<sp' + length s'} = {}"
    and fr: "same_on (- {sp..<sp + length s}) m m1"
  proof (rule strtok_token [OF Cons.prems(1,2) _ Cons.prems(3,5) tk])
    show "(if (0::nat) \<noteq> 0 \<and> sp = 0 then 0 else sp) = sp" by simp
  qed (rule that)
  have cd: "cstr m1 delim ds"
    using Cons.prems(1) by (rule cstr_frame)
      (use Cons.prems(6) in \<open>auto intro!: same_on_mono [OF fr] simp: disjoint_strs_def\<close>)
  have dd: "disjoint_strs delim ds sp' s'" using Cons.prems(6) pos by (auto simp: disjoint_strs_def)
  from Cons.hyps(1) [OF ts [symmetric] cd Cons.prems(2) nz(2,1) cs dd] obtain qs m' where
    rec: "strtok_rest m1 sp' q delim = Some (q # qs, 0, m')" and
    all: "list_all2 (cstr m') qs (tokens ds s')" and fr': "same_on (- {sp'..<sp' + length s'}) m1 m'"
    by blast
  have "cstr m' q t" using ct by (rule cstr_frame) (use dis in \<open>auto intro!: same_on_mono [OF fr']\<close>)
  moreover have "same_on (- {sp..<sp + length s}) m m'"
    by (rule same_on_trans [OF fr same_on_mono [OF fr']]) (use pos in auto)
  ultimately show ?case
    using rec all st Cons.prems(4) by (simp add: strtok_rest.simps [of m sp] ts flip: Cons.hyps(2))
qed

text \<open>
  C23. The calling pattern of the path walk (\<open>strtok\<close> on a string, then on the null pointer until
  it returns null), started with a clear cursor, returns, yields pointers to exactly the maximal
  runs of non-delimiters in order, leaves each of them a C string in memory, writes only inside
  the string that was cut, and clears the cursor again.
\<close>

theorem strtok_all_tokens:
  assumes "cstr m delim ds" and "ds \<noteq> []" and "p \<noteq> 0" and "cstr m p s"
    and "disjoint_strs delim ds p s"
  shows "\<exists>qs m'. strtok_all m 0 p delim = Some (qs, 0, m') \<and>
    list_all2 (cstr m') qs (tokens ds s) \<and> same_on (- {p..<p + length s}) m m'"
proof (cases "tokens ds s")
  case Nil
  have "strtok m 0 p delim = Some (0, 0, m)"
    using assms Nil by (intro strtok_none [where p = p and s = s and ds = ds]) auto
  then show ?thesis using Nil by (simp add: strtok_all_def strtok_rest.simps [of _ _ 0])
next
  case (Cons t ts)
  have cursor: "strtok m 0 p delim = strtok m p 0 delim"
    using assms(1-3) by (simp add: strtok_cursor [where p = p and ds = ds])
  obtain qs m' where rest: "strtok_rest m p 1 delim = Some (1 # qs, 0, m')"
    and all: "list_all2 (cstr m') qs (tokens ds s)" and fr: "same_on (- {p..<p + length s}) m m'"
    using strtok_rest_tokens [OF assms(1,2,3) _ assms(4,5), of 1] by auto
  have "strtok_rest m p 1 delim = map_option (\<lambda>(qs, r). (1 # qs, r)) (strtok_all m 0 p delim)"
    unfolding strtok_rest.simps [of m p 1] strtok_all_def cursor
    by (cases "strtok m p 0 delim") (auto split: prod.splits bind_splits)
  with rest have "strtok_all m 0 p delim = Some (qs, 0, m')"
    by (cases "strtok_all m 0 p delim") auto
  with all fr show ?thesis by blast
qed

text \<open>The path "/ab" at address 100, the delimiter "/" at address 10.\<close>

definition path_mem :: mem where
  "path_mem = (\<lambda>_. 0)(10 := 47, 100 := 47, 101 := 97, 102 := 98)"

theorem strtok_all_tokens_witness:
  "\<exists>qs m'. strtok_all path_mem 0 100 10 = Some (qs, 0, m') \<and> list_all2 (cstr m') qs [[97, 98]]"
proof -
  have "cstr path_mem 10 [47]" "cstr path_mem 100 [47, 97, 98]" by (simp_all add: path_mem_def)
  moreover have "tokens [47] [47, 97, 98 :: u8] = [[97, 98]]" by (simp add: tokens.simps)
  moreover have "disjoint_strs 10 [47] 100 [47, 97, 98]" by (auto simp: disjoint_strs_def)
  ultimately show ?thesis using strtok_all_tokens [of path_mem 10 "[47]" 100 "[47, 97, 98]"] by auto
qed

text \<open>
  The cursor is not reset by a new string: while it is not null, the string argument is ignored.
\<close>

lemma strtok_ignores_string: "sp \<noteq> 0 \<Longrightarrow> strtok m sp str delim = strtok m sp 0 delim"
  by (cases "strlen m delim") (simp_all add: strtok_def Let_def)

end
