(* ===== verification/Itoa.thy ===== *)
theory Itoa
  imports Memory
begin

text \<open>
  lib/itoa.c: unsigned numbers as digits in a base. The digit loop divides by the base without
  checking it, so base 0 traps and base 1 never ends; for the bases 2 to 16 the digits read back
  as the number.
\<close>

section \<open>The code\<close>

text \<open>\<open>bchars\<close>: the characters 0 to 9 and A to F.\<close>

definition bchars :: "u8 list" where
  "bchars = [48, 49, 50, 51, 52, 53, 54, 55, 56, 57, 65, 66, 67, 68, 69, 70]"

text \<open>The \<open>while (i != 0)\<close> loop; the list is the part of \<open>tbuf\<close> written so far.\<close>

partial_function (option) itoa_loop :: "nat \<Rightarrow> nat \<Rightarrow> u8 list \<Rightarrow> u8 list option" where
  "itoa_loop i base tbuf =
     (if i \<noteq> 0 then itoa_loop (i div base) base (tbuf @ [bchars ! (i mod base)]) else Some tbuf)"

text \<open>The \<open>for\<close> loop that writes \<open>tbuf\<close> backwards, after its first \<open>opos\<close> turns.\<close>

primrec itoa_rev :: "u8 list \<Rightarrow> nat \<Rightarrow> nat \<Rightarrow> mem \<Rightarrow> mem" where
  "itoa_rev tbuf buf 0 m = m"
| "itoa_rev tbuf buf (Suc opos) m =
     (itoa_rev tbuf buf opos m)(buf + opos := tbuf ! (length tbuf - 1 - opos))"

definition itoa :: "nat \<Rightarrow> nat \<Rightarrow> nat \<Rightarrow> mem \<Rightarrow> mem outcome" where
  "itoa i base buf m =
     (if i = 0 \<or> base > 16 then Inr (m(buf := 48, Suc buf := 0))
      else if base = 0 then Inl (Trap ''divide by zero'')
      else case itoa_loop i base [] of
             None \<Rightarrow> Inl Hang
           | Some tbuf \<Rightarrow> Inr ((itoa_rev tbuf buf (length tbuf) m)(buf + length tbuf := 0)))"

section \<open>Reading digits back\<close>

definition digit_val :: "u8 \<Rightarrow> nat" where
  "digit_val c = (if unat c < 65 then unat c - 48 else unat c - 55)"

definition parse_digits :: "nat \<Rightarrow> u8 list \<Rightarrow> nat" where
  "parse_digits base s = foldl (\<lambda>v c. v * base + digit_val c) 0 s"

lemma bchars_table: "list_all (\<lambda>d. digit_val (bchars ! d) = d \<and> bchars ! d \<noteq> 0) [0..<16]"
  by code_simp

lemma bchars_digit: "d < 16 \<Longrightarrow> digit_val (bchars ! d) = d \<and> bchars ! d \<noteq> 0"
  using bchars_table by (simp only: list_all_iff set_upt) simp

text \<open>The digits of a number, least significant first.\<close>

fun digits_rev :: "nat \<Rightarrow> nat \<Rightarrow> u8 list" where
  "digits_rev i base =
     (if i = 0 \<or> base < 2 then [] else bchars ! (i mod base) # digits_rev (i div base) base)"

declare digits_rev.simps [simp del]

lemma itoa_loop_digits: "2 \<le> base \<Longrightarrow> itoa_loop i base tbuf = Some (tbuf @ digits_rev i base)"
proof (induction i base arbitrary: tbuf rule: digits_rev.induct)
  case (1 i base)
  show ?case
  proof (cases "i = 0")
    case True
    then show ?thesis by (simp add: itoa_loop.simps digits_rev.simps)
  next
    case False
    with 1 show ?thesis
      by (subst itoa_loop.simps) (simp add: digits_rev.simps [of i])
  qed
qed

lemma itoa_loop_base1:
  assumes "itoa_loop i 1 tbuf = Some r"
  shows "i = 0"
proof -
  have "base = 1 \<longrightarrow> i = 0" if "itoa_loop i base tbuf = Some r" for i base tbuf r
  proof (rule itoa_loop.raw_induct [where P = "\<lambda>i base tbuf r. base = 1 \<longrightarrow> i = 0", OF _ that])
    fix f :: "nat \<Rightarrow> nat \<Rightarrow> u8 list \<Rightarrow> u8 list option" and i base tbuf r
    assume "\<And>i base tbuf r. f i base tbuf = Some r \<Longrightarrow> base = 1 \<longrightarrow> i = 0"
      and "(if i \<noteq> 0 then f (i div base) base (tbuf @ [bchars ! (i mod base)]) else Some tbuf) = Some r"
    then show "base = 1 \<longrightarrow> i = 0" by (metis div_by_1)
  qed
  then show ?thesis using assms by blast
qed

lemma parse_digits_rev: "2 \<le> base \<Longrightarrow> base \<le> 16 \<Longrightarrow> parse_digits base (rev (digits_rev i base)) = i"
proof (induction i base rule: digits_rev.induct)
  case (1 i base)
  show ?case
  proof (cases "i = 0")
    case True
    then show ?thesis by (simp add: digits_rev.simps parse_digits_def)
  next
    case False
    with 1 have "parse_digits base (rev (digits_rev (i div base) base)) = i div base" by simp
    moreover have "digit_val (bchars ! (i mod base)) = i mod base"
      using 1(3) 1(2) bchars_digit [of "i mod base"] mod_less_divisor [of base i] by fastforce
    ultimately show ?thesis using False 1(2)
      by (simp add: digits_rev.simps [of i] parse_digits_def)
  qed
qed

lemma digits_rev_nonzero: "base \<le> 16 \<Longrightarrow> c \<in> set (digits_rev i base) \<Longrightarrow> c \<noteq> 0"
proof (induction i base rule: digits_rev.induct)
  case (1 i base)
  show ?case
  proof (cases "i = 0 \<or> base < 2")
    case True
    with 1 show ?thesis by (simp add: digits_rev.simps)
  next
    case False
    then have "i mod base < 16" using 1(2) mod_less_divisor [of base i] by linarith
    from bchars_digit [OF this] show ?thesis using False 1 by (auto simp: digits_rev.simps [of i])
  qed
qed

lemma digits_rev_length: "2 \<le> base \<Longrightarrow> i \<noteq> 0 \<Longrightarrow>
  digits_rev i base \<noteq> [] \<and> base ^ (length (digits_rev i base) - 1) \<le> i"
proof (induction i base rule: digits_rev.induct)
  case (1 i base)
  show ?case
  proof (cases "i div base = 0")
    case True
    with 1 show ?thesis by (simp add: digits_rev.simps [of i] digits_rev.simps [of 0])
  next
    case False
    let ?d = "digits_rev (i div base) base"
    from 1 False have d: "?d \<noteq> [] \<and> base ^ (length ?d - 1) \<le> i div base" by simp
    then have "base ^ length ?d = base * base ^ (length ?d - 1)" by (cases ?d) simp_all
    also have "\<dots> \<le> base * (i div base)" using d by simp
    also have "\<dots> \<le> i" by simp
    finally show ?thesis using 1 by (simp add: digits_rev.simps [of i])
  qed
qed

lemma itoa_rev_apply:
  "n \<le> length tbuf \<Longrightarrow> itoa_rev tbuf buf n m x =
     (if buf \<le> x \<and> x < buf + n then rev tbuf ! (x - buf) else m x)"
  by (induction n) (auto simp: rev_nth less_Suc_eq)

text \<open>The string that is printed.\<close>

definition num_str :: "nat \<Rightarrow> nat \<Rightarrow> u8 list" where
  "num_str i base = (if i = 0 then [48] else rev (digits_rev i base))"

lemma itoa_prints:
  assumes "2 \<le> base" and "base \<le> 16"
  shows "\<exists>m'. itoa i base buf m = Inr m' \<and> cstr m' buf (num_str i base) \<and>
    same_on (- {buf..buf + length (num_str i base)}) m m'"
proof (cases "i = 0")
  case True
  then have "itoa i base buf m = Inr (m(buf := 48, Suc buf := 0))" by (simp add: itoa_def)
  moreover have "cstr (m(buf := 48, Suc buf := 0)) buf [48]" by simp
  ultimately show ?thesis using True by (auto simp: same_on_def num_str_def)
next
  case False
  let ?ds = "digits_rev i base"
  let ?m = "(itoa_rev ?ds buf (length ?ds) m)(buf + length ?ds := 0)"
  have "itoa i base buf m = Inr ?m"
    using assms False by (simp add: itoa_def itoa_loop_digits)
  moreover have "bytes_at ?m buf (length ?ds) = rev ?ds"
    by (intro nth_equalityI) (simp_all add: itoa_rev_apply)
  then have "cstr ?m buf (rev ?ds)" using digits_rev_nonzero [OF assms(2)] by (auto simp: cstr_iff)
  moreover have "same_on (- {buf..buf + length (rev ?ds)}) m ?m"
    by (auto simp: same_on_def itoa_rev_apply)
  ultimately show ?thesis using False by (auto simp: num_str_def)
qed

lemma parse_num_str: "2 \<le> base \<Longrightarrow> base \<le> 16 \<Longrightarrow> parse_digits base (num_str i base) = i"
  using parse_digits_rev [of base i] by (simp add: num_str_def) (simp add: parse_digits_def digit_val_def)

lemma length_num_str: "2 \<le> base \<Longrightarrow>
    i = 0 \<and> length (num_str i base) = 1 \<or> num_str i base \<noteq> [] \<and> base ^ (length (num_str i base) - 1) \<le> i"
  using digits_rev_length [of base i] by (auto simp: num_str_def)

lemma num_str_nonzero: "base \<le> 16 \<Longrightarrow> 0 \<notin> set (num_str i base)"
  using digits_rev_nonzero [of base 0 i] by (auto simp: num_str_def)

text \<open>
  C24. For every base from 2 to 16, \<open>itoa\<close> returns and leaves a C string that reads back, in that
  base, as the number; a number other than 0 has no more digits than its size needs
  (\<open>base ^ (length - 1) \<le> i\<close>), and only the bytes of the string and its terminator are written.
\<close>

theorem itoa_parse:
  assumes "2 \<le> base" and "base \<le> 16"
  shows "\<exists>m' s. itoa i base buf m = Inr m' \<and> cstr m' buf s \<and> parse_digits base s = i \<and>
    (i = 0 \<and> length s = 1 \<or> s \<noteq> [] \<and> base ^ (length s - 1) \<le> i) \<and>
    same_on (- {buf..buf + length s}) m m'"
  using itoa_prints [OF assms, of i buf m] parse_num_str [OF assms, of i] length_num_str [OF assms(1), of i] by blast

theorem itoa_parse_witness:
  "\<exists>m' s. itoa 255 16 100 (\<lambda>_. 0) = Inr m' \<and> cstr m' 100 s \<and> parse_digits 16 s = 255"
  using itoa_parse [of 16 255 100 "\<lambda>_. 0"] by auto

text \<open>The two bases the loop does not survive.\<close>

lemma itoa_base0: "i \<noteq> 0 \<Longrightarrow> itoa i 0 buf m = Inl (Trap ''divide by zero'')"
  by (simp add: itoa_def)

lemma itoa_base1: "i \<noteq> 0 \<Longrightarrow> itoa i 1 buf m = Inl Hang"
  using itoa_loop_base1 [of i "[]"]
  by (cases "itoa_loop i 1 []") (auto simp: itoa_def split: option.splits)

end
