(* ===== verification/CMem.thy ===== *)
theory CMem
  imports Memory
begin

text \<open>
  lib/memset.c: the kernel's \<open>memcpy\<close>, \<open>memset\<close>, \<open>memset16\<close> and \<open>memcpy32\<close>. The copy loops
  keep the shape of the code (an odd byte first, then pairs of bytes) and are proved equal to a
  bytewise reference copy; the frame lemmas say which bytes they write.
\<close>

section \<open>The code\<close>

text \<open>The \<open>while (count --)\<close> loop of \<open>memcpy\<close>: two bytes a turn, each read before it is written.\<close>

primrec memcpy_pairs :: "nat \<Rightarrow> nat \<Rightarrow> nat \<Rightarrow> mem \<Rightarrow> mem" where
  "memcpy_pairs dst8 src8 0 m = m"
| "memcpy_pairs dst8 src8 (Suc count) m =
     (let m1 = m(dst8 := m src8);
          m2 = m1(Suc dst8 := m1 (Suc src8))
      in memcpy_pairs (dst8 + 2) (src8 + 2) count m2)"

definition memcpy :: "nat \<Rightarrow> nat \<Rightarrow> nat \<Rightarrow> mem \<Rightarrow> mem" where
  "memcpy dest src count m =
     (if odd count
      then memcpy_pairs (dest + 1) (src + 1) (count div 2) (m(dest := m src))
      else memcpy_pairs dest src (count div 2) m)"

primrec memset :: "nat \<Rightarrow> u8 \<Rightarrow> nat \<Rightarrow> mem \<Rightarrow> mem" where
  "memset p v 0 m = m"
| "memset p v (Suc num) m = memset (Suc p) v num (m(p := v))"

primrec memset16 :: "nat \<Rightarrow> nat \<Rightarrow> nat \<Rightarrow> mem \<Rightarrow> mem" where
  "memset16 p v 0 m = m"
| "memset16 p v (Suc num) m = memset16 (p + 2) v num (st16 m p v)"

primrec memcpy32 :: "nat \<Rightarrow> nat \<Rightarrow> nat \<Rightarrow> mem \<Rightarrow> mem" where
  "memcpy32 dst32 src32 0 m = m"
| "memcpy32 dst32 src32 (Suc count) m =
     memcpy32 (dst32 + 4) (src32 + 4) count (st32 m dst32 (ld32 m src32))"

section \<open>The reference copy\<close>

primrec fwd_copy :: "nat \<Rightarrow> nat \<Rightarrow> nat \<Rightarrow> mem \<Rightarrow> mem" where
  "fwd_copy d s 0 m = m"
| "fwd_copy d s (Suc n) m = fwd_copy (Suc d) (Suc s) n (m(d := m s))"

lemma memcpy_pairs_fwd: "memcpy_pairs d s n m = fwd_copy d s (2 * n) m"
  by (induction n arbitrary: d s m) (simp_all add: Let_def)

lemma memcpy_fwd: "memcpy d s n m = fwd_copy d s n m"
proof (cases "odd n")
  case True
  then have n: "n = Suc (2 * (n div 2))" by presburger
  have "fwd_copy d s n m = fwd_copy (Suc d) (Suc s) (2 * (n div 2)) (m(d := m s))"
    by (subst n) simp
  with True show ?thesis by (simp add: memcpy_def memcpy_pairs_fwd)
next
  case False
  then show ?thesis by (simp add: memcpy_def memcpy_pairs_fwd)
qed

text \<open>What a forward copy computes when the destination does not lie inside the source's tail.\<close>

lemma fwd_copy_apply:
  assumes "d \<le> s \<or> s + n \<le> d"
  shows "fwd_copy d s n m x = (if d \<le> x \<and> x < d + n then m (s + (x - d)) else m x)"
  using assms
proof (induction n arbitrary: d s m)
  case (Suc n)
  have "Suc d \<le> Suc s \<or> Suc s + n \<le> Suc d" using Suc.prems by linarith
  note IH = Suc.IH [OF this, of "m(d := m s)"]
  consider "x = d" | "d < x" "x < d + Suc n" | "x < d \<or> d + Suc n \<le> x" by linarith
  then show ?case
  proof cases
    case 2
    have "fwd_copy d s (Suc n) m x = (m(d := m s)) (Suc s + (x - Suc d))"
      using 2 by (simp only: fwd_copy.simps IH) simp
    also have "Suc s + (x - Suc d) = s + (x - d)" using 2 by linarith
    also have "(m(d := m s)) (s + (x - d)) = m (s + (x - d))"
      using 2 Suc.prems by (intro fun_upd_other) linarith
    finally show ?thesis using 2 by simp
  next
    case 1
    show ?thesis unfolding fwd_copy.simps IH using 1 by simp
  next
    case 3
    then show ?thesis by (simp only: fwd_copy.simps IH) auto
  qed
qed auto

lemma memcpy_apply:
  "d \<le> s \<or> s + n \<le> d \<Longrightarrow> memcpy d s n m x = (if d \<le> x \<and> x < d + n then m (s + (x - d)) else m x)"
  by (simp add: memcpy_fwd fwd_copy_apply)

lemma memset_apply: "memset p v n m x = (if p \<le> x \<and> x < p + n then v else m x)"
  by (induction n arbitrary: p m) auto

lemma memset_frame: "A \<inter> {p..<p + n} = {} \<Longrightarrow> same_on A m (memset p v n m)"
  by (auto simp: same_on_def memset_apply)

lemma memcpy_frame:
  "d \<le> s \<or> s + n \<le> d \<Longrightarrow> A \<inter> {d..<d + n} = {} \<Longrightarrow> same_on A m (memcpy d s n m)"
  by (auto simp: same_on_def memcpy_apply)

lemma memcpy_bytes_at:
  assumes "d \<le> s \<or> s + n \<le> d"
  shows "bytes_at (memcpy d s n m) d n = bytes_at m s n"
  using assms by (intro nth_equalityI) (simp_all add: memcpy_apply)

lemma memcpy_cstr:
  assumes "cstr m s t" and "d \<le> s \<or> s + length t + 1 \<le> d"
  shows "cstr (memcpy d s (length t + 1) m) d t"
proof -
  have "bytes_at (memcpy d s (length t + 1) m) d (length t) = bytes_at m s (length t)"
    using assms(2) by (intro nth_equalityI) (auto simp: memcpy_apply)
  moreover have "memcpy d s (length t + 1) m (d + length t) = m (s + length t)"
    using assms(2) by (simp add: memcpy_apply)
  ultimately show ?thesis using assms(1) by (simp add: cstr_iff)
qed

text \<open>
  An overlapping forward copy to the right repeats the first \<open>d - s\<close> bytes: it is not the
  \<open>memmove\<close> of the C library.
\<close>

lemma fwd_copy_snoc:
  "fwd_copy d s (Suc n) m = (fwd_copy d s n m)(d + n := fwd_copy d s n m (s + n))"
proof (induction n arbitrary: d s m)
  case (Suc n)
  have "fwd_copy d s (Suc (Suc n)) m = fwd_copy (Suc d) (Suc s) (Suc n) (m(d := m s))"
    by simp
  also have "\<dots> = (fwd_copy (Suc d) (Suc s) n (m(d := m s)))
      (Suc d + n := fwd_copy (Suc d) (Suc s) n (m(d := m s)) (Suc s + n))"
    by (rule Suc.IH)
  finally show ?case by simp
qed simp

lemma fwd_copy_repeats:
  "fwd_copy (s + k) s n m x =
     (if 0 < k \<and> s + k \<le> x \<and> x < s + k + n then m (s + (x - s) mod k) else m x)"
proof (induction n arbitrary: x)
  case 0
  then show ?case by auto
next
  case (Suc n)
  show ?case
  proof (cases "x = s + k + n")
    case True
    have "0 < k \<Longrightarrow> k \<le> n \<Longrightarrow> n mod k = (k + n) mod k" by simp
    with True show ?thesis unfolding fwd_copy_snoc by (auto simp: Suc.IH)
  next
    case False
    then show ?thesis unfolding fwd_copy_snoc by (auto simp: Suc.IH)
  qed
qed

text \<open>\<open>memcpy32\<close> copies words, so a copy of disjoint arrays moves \<open>4 * count\<close> bytes.\<close>

lemma st32_ld32_apply:
  "st32 m d (ld32 m s) y = (if d \<le> y \<and> y < d + 4 then m (s + (y - d)) else m y)"
proof -
  have byte: "(of_nat v :: u8) = m a" if "v mod 256 = ld8 m a" for v a
    using that by (simp add: ld8_def word_unat_eq_iff unat_of_nat)
  note bs = ld32_byte [THEN byte]
  have y: "y = d \<or> y = d + 1 \<or> y = d + 2 \<or> y = d + 3 \<or> \<not> (d \<le> y \<and> y < d + 4)" by linarith
  show ?thesis using y bs unfolding st32_def st8_def by auto
qed

lemma memcpy32_apply:
  assumes "s + 4 * n \<le> d \<or> d + 4 * n \<le> s"
  shows "memcpy32 d s n m x = (if d \<le> x \<and> x < d + 4 * n then m (s + (x - d)) else m x)"
  using assms
proof (induction n arbitrary: d s m)
  case (Suc n)
  have "s + 4 + 4 * n \<le> d + 4 \<or> d + 4 + 4 * n \<le> s + 4" using Suc.prems by auto
  note IH = Suc.IH [OF this, of "st32 m d (ld32 m s)"]
  consider "d \<le> x" "x < d + 4" | "d + 4 \<le> x" "x < d + 4 * Suc n" | "x < d \<or> d + 4 * Suc n \<le> x"
    by linarith
  then show ?case
  proof cases
    case 2
    then have eq: "s + 4 + (x - (d + 4)) = s + (x - d)" by linarith
    have "\<not> (d \<le> s + (x - d) \<and> s + (x - d) < d + 4)" using 2 Suc.prems by linarith
    then have "st32 m d (ld32 m s) (s + (x - d)) = m (s + (x - d))"
      unfolding st32_ld32_apply by (rule if_not_P)
    with 2 show ?thesis by (simp only: memcpy32.simps IH eq) simp
  qed (auto simp: IH st32_ld32_apply)
qed auto

end
