(* ===== verification/PageTable.thy ===== *)
theory PageTable
  imports CMem
begin

text \<open>
  The state of the memory manager (mm/) and the two-level page tables of include/levos/page.h as
  they lie in memory: the bit fields of a page entry, the arrays of a page directory, and the
  table walk \<open>virtual_to_physical\<close> of mm/page.c.
\<close>

section \<open>State\<close>

text \<open>
  The variables of mm/alloc.c (\<open>plp\<close>, \<open>heap_online\<close>), mm/frame.c (\<open>nframes\<close>, \<open>frames\<close>,
  \<open>kernel_dir\<close>) and mm/page.c (\<open>current_directory\<close>); pointers are addresses into \<open>mem\<close>.
\<close>

record mm_state =
  mem :: mem
  plp :: nat
  heap_online :: bool
  nframes :: nat
  frames :: nat
  kernel_dir :: nat
  current_directory :: nat

section \<open>Page entries\<close>

text \<open>\<open>page_t\<close>: a 32-bit word of bit fields, the first field in the lowest bits.\<close>

record page_t =
  present :: nat
  rw :: nat
  user :: nat
  accessed :: nat
  dirty :: nat
  unused :: nat
  frame :: nat

definition page_decode :: "nat \<Rightarrow> page_t" where
  "page_decode w = \<lparr>present = w mod 2, rw = w div 2 mod 2, user = w div 4 mod 2,
     accessed = w div 8 mod 2, dirty = w div 16 mod 2, unused = w div 32 mod 128,
     frame = w div 4096 mod 1048576\<rparr>"

definition page_encode :: "page_t \<Rightarrow> nat" where
  "page_encode p = present p mod 2 + 2 * (rw p mod 2) + 4 * (user p mod 2) + 8 * (accessed p mod 2)
     + 16 * (dirty p mod 2) + 32 * (unused p mod 128) + 4096 * (frame p mod 1048576)"

definition page_at :: "mem \<Rightarrow> nat \<Rightarrow> page_t" where
  "page_at m p = page_decode (ld32 m p)"

definition page_store :: "mem \<Rightarrow> nat \<Rightarrow> page_t \<Rightarrow> mem" where
  "page_store m p e = st32 m p (page_encode e)"

definition page_wf :: "page_t \<Rightarrow> bool" where
  "page_wf p \<longleftrightarrow> present p < 2 \<and> rw p < 2 \<and> user p < 2 \<and> accessed p < 2 \<and> dirty p < 2
     \<and> unused p < 128 \<and> frame p < 1048576"

lemma page_encode_bound: "page_encode p < W32"
proof -
  have "present p mod 2 \<le> 1" "rw p mod 2 \<le> 1" "user p mod 2 \<le> 1" "accessed p mod 2 \<le> 1"
      "dirty p mod 2 \<le> 1" "unused p mod 128 \<le> 127" "frame p mod 1048576 \<le> 1048575"
    by (auto simp: less_Suc_eq_le [symmetric])
  then show ?thesis unfolding page_encode_def by linarith
qed

lemma page_decode_encode:
  assumes "page_wf p"
  shows "page_decode (page_encode p) = p"
proof -
  obtain a b c d e f g where p: "p = \<lparr>present = a, rw = b, user = c, accessed = d, dirty = e, unused = f, frame = g\<rparr>"
    by (cases p) auto
  from assms have lt: "a < 2" "b < 2" "c < 2" "d < 2" "e < 2" "f < 128" "g < 1048576"
    by (simp_all add: page_wf_def p)
  define w where "w = page_encode p"
  have w: "w = a + 2 * (b + 2 * (c + 2 * (d + 2 * (e + 2 * (f + 128 * g)))))"
    using lt by (simp add: w_def page_encode_def p)
  have w1: "w div 1 = a + 2 * (b + 2 * (c + 2 * (d + 2 * (e + 2 * (f + 128 * g)))))"
    unfolding w by (rule div_by_1)
  have m: "(2::nat) * 2 = 4" "(4::nat) * 2 = 8" "(8::nat) * 2 = 16" "(16::nat) * 2 = 32" "(32::nat) * 128 = 4096"
    by simp_all
  note d1 = next_digit [OF w1 lt(1), of 2, unfolded div_by_1, OF mult_1]
  note d2 = next_digit [OF d1(2) lt(2) m(1)]
  note d3 = next_digit [OF d2(2) lt(3) m(2)]
  note d4 = next_digit [OF d3(2) lt(4) m(3)]
  note d5 = next_digit [OF d4(2) lt(5) m(4)]
  note d6 = next_digit [OF d5(2) lt(6) m(5)]
  have "page_decode w = p"
    using lt(7) unfolding page_decode_def d1(1) d2(1) d3(1) d4(1) d5(1) d6 p by simp
  then show ?thesis by (simp only: w_def)
qed

lemma page_wf_decode: "page_wf (page_decode w)"
  by (simp add: page_wf_def page_decode_def)

lemma page_at_store [simp]: "page_wf e \<Longrightarrow> page_at (page_store m p e) p = e"
  using page_encode_bound [of e]
  by (simp add: page_at_def page_store_def mem_simps page_decode_encode)

lemma page_wf_at [simp]: "page_wf (page_at m p)"
  by (simp add: page_at_def page_wf_decode)

section \<open>Page directories\<close>

text \<open>
  \<open>page_dir_t\<close>: 1024 physical table addresses, then 1024 table pointers, then \<open>phy_addr\<close>.
\<close>

abbreviation (input) sizeof_page_table :: nat where "sizeof_page_table \<equiv> 4096"
abbreviation (input) sizeof_page_dir :: nat where "sizeof_page_dir \<equiv> 8196"

definition dir_phy_table :: "mem \<Rightarrow> nat \<Rightarrow> nat \<Rightarrow> nat" where
  "dir_phy_table m dir t = ld32 m (dir + 4 * t)"

definition dir_table :: "mem \<Rightarrow> nat \<Rightarrow> nat \<Rightarrow> nat" where
  "dir_table m dir t = ld32 m (dir + 4096 + 4 * t)"

text \<open>\<open>virtual_to_physical\<close>: the walk of the current directory, 0 where no table is present.\<close>

definition virtual_to_physical :: "nat \<Rightarrow> 'a mm_state_scheme \<Rightarrow> nat" where
  "virtual_to_physical a st =
     (let rem = a mod 0x1000;
          f = a div 0x1000;
          t = f div 1024;
          i = f mod 1024;
          table = dir_table (mem st) (current_directory st) t
      in if table \<noteq> 0
         then add32 (mul32 (frame (page_at (mem st) (table + 4 * i))) 0x1000) rem
         else 0)"

end
