(* ===== verification/Alloc.thy ===== *)
theory Alloc
  imports PageTable
begin

text \<open>
  mm/alloc.c: the kernel's allocation entry points. Before the heap is online \<open>__kmalloc\<close> bumps
  the placement pointer \<open>plp\<close>; afterwards it forwards to liballoc (\<open>new_malloc\<close>, an argument here
  because mm/heap.c is built on this file) and panics on aligned requests.
\<close>

section \<open>The code\<close>

text \<open>\<open>x & 0xFFFFF000\<close>.\<close>

definition page_mask :: "nat \<Rightarrow> nat" where
  "page_mask x = x AND 0xFFFFF000"

type_synonym 's malloc = "nat \<Rightarrow> 's \<Rightarrow> (nat \<times> 's) outcome"

text \<open>
  \<open>kmalloc_core new_malloc s a\<close> is \<open>__kmalloc(s, a, &p)\<close>: it yields the address, the value stored
  through \<open>p\<close> and the new state. \<open>p\<close> tells whether the caller passed a pointer at all.
\<close>

definition kmalloc_core ::
  "'a mm_state_scheme malloc \<Rightarrow> nat \<Rightarrow> bool \<Rightarrow> bool \<Rightarrow> 'a mm_state_scheme
    \<Rightarrow> (nat \<times> nat option \<times> 'a mm_state_scheme) outcome" where
  "kmalloc_core new_malloc s a p st =
     (if heap_online st
      then if \<not> a
           then bindR (new_malloc s st) (\<lambda>(addr, st').
                  Inr (addr, if p then Some (virtual_to_physical addr st') else None, st'))
           else Inl (Panic ''liballoc does not support align yet'')
      else let plp1 = (if a \<and> page_mask (plp st) \<noteq> 0
                       then add32 (page_mask (plp st)) 0x1000 else plp st)
           in Inr (plp1, if p then Some plp1 else None, st\<lparr>plp := add32 plp1 s\<rparr>))"

definition kmalloc :: "'a mm_state_scheme malloc \<Rightarrow> nat \<Rightarrow> 'a mm_state_scheme \<Rightarrow> (nat \<times> 'a mm_state_scheme) outcome" where
  "kmalloc new_malloc s st = bindR (kmalloc_core new_malloc s False False st) (\<lambda>(a, _, st'). Inr (a, st'))"

definition kmalloc_p :: "'a mm_state_scheme malloc \<Rightarrow> nat \<Rightarrow> 'a mm_state_scheme
    \<Rightarrow> (nat \<times> nat option \<times> 'a mm_state_scheme) outcome" where
  "kmalloc_p new_malloc s st = kmalloc_core new_malloc s False True st"

text \<open>
  The aligned entry points never reach liballoc, so they take no \<open>new_malloc\<close>: the argument passed
  on is irrelevant (\<open>kmalloc_core_aligned\<close> below).
\<close>

definition kvmalloc :: "nat \<Rightarrow> 'a mm_state_scheme \<Rightarrow> (nat \<times> 'a mm_state_scheme) outcome" where
  "kvmalloc s st = bindR (kmalloc_core (\<lambda>_ _. Inl Hang) s True False st) (\<lambda>(a, _, st'). Inr (a, st'))"

definition kvmalloc_p :: "nat \<Rightarrow> 'a mm_state_scheme \<Rightarrow> (nat \<times> nat \<times> 'a mm_state_scheme) outcome" where
  "kvmalloc_p s st =
     bindR (kmalloc_core (\<lambda>_ _. Inl Hang) s True True st) (\<lambda>(a, p, st'). Inr (a, the p, st'))"

definition prealloc_start :: "nat \<Rightarrow> 'a mm_state_scheme \<Rightarrow> 'a mm_state_scheme" where
  "prealloc_start addr st = st\<lparr>plp := addr\<rparr>"

section \<open>Placement allocation\<close>

lemma kmalloc_core_aligned: "kmalloc_core nm s True p st = kmalloc_core nm' s True p st"
  by (simp add: kmalloc_core_def)

lemma page_mask_eq:
  assumes "x < W32"
  shows "page_mask x = x - x mod 4096"
proof (rule bit_eqI)
  fix n
  have c: "(0xFFFFF000 :: nat) = push_bit 12 (mask 20)" by (simp add: mask_eq_exp_minus_1 push_bit_eq_mult)
  have q: "x - x mod 4096 = push_bit 12 (drop_bit 12 x)"
    by (simp add: push_bit_eq_mult drop_bit_eq_div minus_mod_eq_div_mult)
  have "bit x n \<Longrightarrow> n < 32"
  proof -
    assume "bit x n"
    moreover have "take_bit 32 x = x" using assms by (simp add: take_bit_eq_mod)
    ultimately show "n < 32" by (metis bit_take_bit_iff)
  qed
  then show "bit (page_mask x) n = bit (x - x mod 4096) n"
    unfolding page_mask_def c q
    by (auto simp: bit_and_iff bit_push_bit_iff bit_mask_iff bit_drop_bit_eq)
qed

lemma page_mask_0: "x < W32 \<Longrightarrow> page_mask x = 0 \<longleftrightarrow> x < 4096"
proof -
  assume "x < W32"
  moreover have "x - x mod 4096 = 0 \<longleftrightarrow> x < 4096"
    by (metis diff_is_0_eq mod_less mod_less_divisor mod_less_eq_dividend not_le order.antisym zero_less_numeral less_or_eq_imp_le)
  ultimately show ?thesis by (simp add: page_mask_eq)
qed

text \<open>
  An aligned request is rounded past the current page even when \<open>plp\<close> is aligned already (the code
  tests the page bits of \<open>plp\<close> where it means its offset bits), so a page is lost; the result is
  aligned and lies above everything handed out before.
\<close>

lemma kvmalloc_p_online: "heap_online st \<Longrightarrow> kvmalloc_p s st = Inl (Panic ''liballoc does not support align yet'')"
  by (simp add: kvmalloc_p_def kmalloc_core_def)

lemma kvmalloc_p_placement:
  assumes "\<not> heap_online st" "4096 \<le> plp st" "plp st + 4096 + s < W32"
  shows "kvmalloc_p s st = Inr (plp st - plp st mod 4096 + 4096,
    plp st - plp st mod 4096 + 4096, st\<lparr>plp := plp st - plp st mod 4096 + 4096 + s\<rparr>)"
proof -
  have p: "plp st < W32" using assms(3) by linarith
  have "plp st - plp st mod 4096 + 4096 + s < W32" using assms(3) by linarith
  then show ?thesis
    using assms(1,2) page_mask_0 [OF p] by (simp add: kvmalloc_p_def kmalloc_core_def page_mask_eq [OF p] Let_def arith32)
qed

lemma kmalloc_offline:
  assumes "\<not> heap_online st" "plp st + s < W32"
  shows "kmalloc nm s st = Inr (plp st, st\<lparr>plp := plp st + s\<rparr>)"
  using assms by (simp add: kmalloc_def kmalloc_core_def Let_def arith32)

end
