(* ===== verification/Frame.thy ===== *)
theory Frame
  imports Alloc
begin

text \<open>
  mm/frame.c: the bitmap of physical frames. Its words lie in memory at \<open>frames\<close>; one bit stands
  for one 4 KiB frame. The bit operations are proved to implement a set of frames (locale
  \<open>frame_set\<close>), and the two searches to return the least fitting index.
\<close>

section \<open>The code\<close>

definition frame_word :: "'a mm_state_scheme \<Rightarrow> nat \<Rightarrow> nat" where
  "frame_word st i = ld32 (mem st) (frames st + 4 * i)"

text \<open>
  \<open>set_nframes\<close>: the macro \<open>INDEX_BIT(x)\<close> is \<open>(x / 32)\<close>. The bitmap gets \<open>nframes * 8 / 32\<close> bytes,
  of which \<open>nframes / 32\<close> are cleared.
\<close>

definition set_nframes :: "'a mm_state_scheme malloc \<Rightarrow> nat \<Rightarrow> 'a mm_state_scheme \<Rightarrow> 'a mm_state_scheme outcome" where
  "set_nframes new_malloc n st =
     (if frames (st\<lparr>nframes := n\<rparr>) \<noteq> 0 then Inl (Panic ''reallocing frames'')
      else bindR (kmalloc new_malloc (mul32 n 8 div 32) (st\<lparr>nframes := n\<rparr>)) (\<lambda>(fr, st1).
           let st2 = st1\<lparr>frames := fr, mem := memset fr 0 (n div 32) (mem st1)\<rparr>
           in bindR (kvmalloc_p sizeof_page_dir st2) (\<lambda>(kd, _, st3).
              Inr (st3\<lparr>kernel_dir := kd, mem := memset kd 0 sizeof_page_dir (mem st3)\<rparr>))))"

definition set_frame :: "nat \<Rightarrow> 'a mm_state_scheme \<Rightarrow> 'a mm_state_scheme" where
  "set_frame a st =
     (let f = a div 0x1000; i = f div 32; off = f mod 32
      in st\<lparr>mem := st32 (mem st) (frames st + 4 * i) (frame_word st i OR push_bit off 1)\<rparr>)"

text \<open>\<open>frames[i] &= ~(1 << o)\<close> clears one bit.\<close>

definition clear_frame :: "nat \<Rightarrow> 'a mm_state_scheme \<Rightarrow> 'a mm_state_scheme" where
  "clear_frame a st =
     (let f = a div 0x1000; i = f div 32; off = f mod 32
      in st\<lparr>mem := st32 (mem st) (frames st + 4 * i) (unset_bit off (frame_word st i))\<rparr>)"

definition test_frame :: "nat \<Rightarrow> 'a mm_state_scheme \<Rightarrow> nat" where
  "test_frame a st =
     (let f = a div 0x1000; i = f div 32; off = f mod 32
      in frame_word st i AND push_bit off 1)"

text \<open>The inner loop of \<open>first_n_frames\<close>: its \<open>b\<close> after \<open>n\<close> turns.\<close>

primrec run_busy :: "nat \<Rightarrow> nat \<Rightarrow> 'a mm_state_scheme \<Rightarrow> nat" where
  "run_busy i 0 st = 0"
| "run_busy i (Suc j) st = (if test_frame (add32 i (mul32 0x1000 j)) st \<noteq> 0 then j + 1 else run_busy i j st)"

text \<open>
  The outer loop runs over the addresses \<open>0, 0x1000, \<dots>\<close> below \<open>nframes * 0x1000\<close>; the loop index
  here is the frame number \<open>i / 0x1000\<close>, which is what the code returns.
\<close>

definition first_n_frames :: "nat \<Rightarrow> 'a mm_state_scheme \<Rightarrow> nat" where
  "first_n_frames n st =
     (case scan (\<lambda>k. run_busy (0x1000 * k) n st = 0) 0 (mul32 (nframes st) 0x1000 div 0x1000) of
        Some k \<Rightarrow> k
      | None \<Rightarrow> 0xFFFFFFFF)"

text \<open>\<open>first_frame\<close>: the first clear bit of the first word that is not all ones.\<close>

definition first_frame :: "'a mm_state_scheme \<Rightarrow> nat outcome" where
  "first_frame st =
     (case scan (\<lambda>i. frame_word st i \<noteq> 0xFFFFFFFF \<and>
               scan (\<lambda>j. frame_word st i AND push_bit j 1 = 0) 0 32 \<noteq> None) 0 (nframes st div 32) of
        Some i \<Rightarrow> (case scan (\<lambda>j. frame_word st i AND push_bit j 1 = 0) 0 32 of
                     Some j \<Rightarrow> Inr (i * 0x20 + j)
                   | None \<Rightarrow> Inl Hang)
      | None \<Rightarrow> Inl (Panic ''first_frame: Out of memory''))"

text \<open>\<open>mem_used\<close>: the set bits of the whole words, in KiB.\<close>

definition mem_used :: "'a mm_state_scheme \<Rightarrow> nat" where
  "mem_used st =
     mul32 (sum_list (map (\<lambda>i. length (filter (\<lambda>j. frame_word st i AND push_bit j 1 \<noteq> 0) [0..<32]))
        [0..<nframes st div 32])) 4"

section \<open>The set of used frames\<close>

definition used :: "'a mm_state_scheme \<Rightarrow> nat \<Rightarrow> bool" where
  "used st f \<longleftrightarrow> bit (frame_word st (f div 32)) (f mod 32)"

lemma and_push_bit:
  "x AND push_bit n (1::nat) = 0 \<longleftrightarrow> \<not> bit x n"
  "x AND 2 ^ n = 0 \<longleftrightarrow> \<not> bit x n"
  "0 < x AND push_bit n (1::nat) \<longleftrightarrow> bit x n"
  "0 < x AND 2 ^ n \<longleftrightarrow> bit x n"
  by (simp_all add: and_exp_eq_0_iff_not_bit flip: neq0_conv)

lemma test_frame_used: "test_frame a st \<noteq> 0 \<longleftrightarrow> used st (a div 0x1000)"
  by (simp add: test_frame_def used_def Let_def and_push_bit)

lemma word_slots: "i \<noteq> j \<Longrightarrow> p + 4 * j + 4 \<le> p + 4 * i \<or> p + 4 * i + 4 \<le> p + 4 * (j::nat)"
  by linarith

lemma frame_word_set:
  "frame_word (set_frame a st) i =
     (if i = a div 0x1000 div 32 then set_bit (a div 0x1000 mod 32) (frame_word st i)
      else frame_word st i)"
proof -
  have "set_bit (a div 0x1000 mod 32) (frame_word st i) < W32"
    by (rule set_bit_less) (simp_all add: frame_word_def)
  then show ?thesis
    using word_slots [of i "a div 0x1000 div 32" "frames st"]
    by (auto simp: frame_word_def set_frame_def Let_def mem_simps set_bit_eq_or)
qed

lemma frame_word_clear:
  "frame_word (clear_frame a st) i =
     (if i = a div 0x1000 div 32 then unset_bit (a div 0x1000 mod 32) (frame_word st i)
      else frame_word st i)"
proof -
  have "unset_bit (a div 0x1000 mod 32) (frame_word st i) < W32"
    by (rule unset_bit_less) (simp add: frame_word_def)
  then show ?thesis
    using word_slots [of i "a div 0x1000 div 32" "frames st"]
    by (auto simp: frame_word_def clear_frame_def Let_def mem_simps)
qed

lemma div_mod_eq_iff: "(a::nat) div k = b div k \<and> a mod k = b mod k \<longleftrightarrow> a = b"
  by (metis div_mult_mod_eq)

lemma used_set_frame: "used (set_frame a st) f \<longleftrightarrow> f = a div 0x1000 \<or> used st f"
  using div_mod_eq_iff [of f 32 "a div 0x1000"]
  by (auto simp: used_def frame_word_set bit_set_bit_iff possible_bit_def)

lemma used_clear_frame: "used (clear_frame a st) f \<longleftrightarrow> f \<noteq> a div 0x1000 \<and> used st f"
  using div_mod_eq_iff [of f 32 "a div 0x1000"]
  by (auto simp: used_def frame_word_clear bit_unset_bit_iff)

text \<open>
  The interface: a store of marked frames. Its client lemmas are about runs of consecutive
  operations, whatever the representation.
\<close>

locale frame_set =
  fixes marked :: "'s \<Rightarrow> nat \<Rightarrow> bool"
    and mark :: "nat \<Rightarrow> 's \<Rightarrow> 's"
    and unmark :: "nat \<Rightarrow> 's \<Rightarrow> 's"
  assumes marked_mark: "marked (mark f s) g \<longleftrightarrow> g = f \<or> marked s g"
    and marked_unmark: "marked (unmark f s) g \<longleftrightarrow> g \<noteq> f \<and> marked s g"
begin

lemma marked_fold_mark: "marked (fold mark fs s) g \<longleftrightarrow> g \<in> set fs \<or> marked s g"
  by (induction fs arbitrary: s) (auto simp: marked_mark)

lemma marked_fold_unmark: "marked (fold unmark fs s) g \<longleftrightarrow> g \<notin> set fs \<and> marked s g"
  by (induction fs arbitrary: s) (auto simp: marked_unmark)

lemma unmark_mark_run:
  assumes "\<And>f. f \<in> set fs \<Longrightarrow> \<not> marked s f"
  shows "marked (fold unmark fs (fold mark fs s)) g \<longleftrightarrow> marked s g"
  using assms by (auto simp: marked_fold_mark marked_fold_unmark)

end

interpretation frame_bits: frame_set used "\<lambda>f. set_frame (f * 0x1000)" "\<lambda>f. clear_frame (f * 0x1000)"
  by unfold_locales (simp_all add: used_set_frame used_clear_frame)

section \<open>The searches\<close>

lemma run_busy_0:
  "k + n \<le> 1048576 \<Longrightarrow> run_busy (0x1000 * k) n st = 0 \<longleftrightarrow> (\<forall>j<n. \<not> used st (k + j))"
proof (induction n)
  case (Suc n)
  have "add32 (0x1000 * k) (mul32 0x1000 n) div 0x1000 = k + n"
    using Suc.prems by (simp add: arith32)
  then have "test_frame (add32 (0x1000 * k) (mul32 0x1000 n)) st \<noteq> 0 \<longleftrightarrow> used st (k + n)"
    by (simp only: test_frame_used)
  then show ?case using Suc by (auto simp: less_Suc_eq)
qed simp

lemma first_n_frames_scan:
  assumes "nframes st + n \<le> 1048576" "0 < n"
  shows "first_n_frames n st =
    (case scan (\<lambda>k. \<forall>j<n. \<not> used st (k + j)) 0 (nframes st) of Some k \<Rightarrow> k | None \<Rightarrow> 0xFFFFFFFF)"
proof -
  have "mul32 (nframes st) 0x1000 div 0x1000 = nframes st" using assms by (simp add: arith32)
  moreover have "scan (\<lambda>k. run_busy (0x1000 * k) n st = 0) 0 (nframes st) =
      scan (\<lambda>k. \<forall>j<n. \<not> used st (k + j)) 0 (nframes st)"
    using assms(1) by (intro scan_cong run_busy_0) simp
  ultimately show ?thesis by (simp add: first_n_frames_def)
qed

lemma first_frame_word:
  "scan (\<lambda>j. frame_word st i AND push_bit j 1 = 0) 0 32 = None \<longleftrightarrow> frame_word st i = 0xFFFFFFFF"
proof -
  have "frame_word st i < W32" by (simp add: frame_word_def)
  from ones32_iff [OF this] show ?thesis by (simp add: scan_None_iff and_push_bit)
qed

lemma first_frame_scan:
  "(\<lambda>i. frame_word st i \<noteq> 0xFFFFFFFF \<and>
     scan (\<lambda>j. frame_word st i AND push_bit j 1 = 0) 0 32 \<noteq> None) = (\<lambda>i. frame_word st i \<noteq> 0xFFFFFFFF)"
  unfolding first_frame_word by simp

text \<open>
  \<open>first_n_frames\<close> returns the least frame number below the number of frames at which \<open>n\<close>
  consecutive frames are free, and 0xFFFFFFFF exactly when there is none (as long as the runs
  examined stay inside the 32-bit address space of 2^20 frames).
\<close>

theorem first_n_frames_least:
  assumes "nframes st + n \<le> 1048576" "0 < n"
  shows "(\<exists>k<nframes st. \<forall>j<n. \<not> used st (k + j)) \<and>
      first_n_frames n st = (LEAST k. \<forall>j<n. \<not> used st (k + j)) \<or>
    \<not> (\<exists>k<nframes st. \<forall>j<n. \<not> used st (k + j)) \<and> first_n_frames n st = 0xFFFFFFFF"
proof -
  let ?p = "\<lambda>k. \<forall>j<n. \<not> used st (k + j)"
  show ?thesis
  proof (cases "scan ?p 0 (nframes st)")
    case None
    then have "\<not> (\<exists>k<nframes st. ?p k)" by (simp add: scan_None_iff)
    with None show ?thesis unfolding first_n_frames_scan [OF assms] by simp
  next
    case (Some k)
    then have k: "k < nframes st" "?p k" "\<And>i. i < k \<Longrightarrow> \<not> ?p i" by (simp_all add: scan_Some_iff)
    then have "(LEAST k. ?p k) = k" by (intro Least_equality) (auto simp: not_less [symmetric])
    with Some k(1,2) show ?thesis unfolding first_n_frames_scan [OF assms] by auto
  qed
qed

lemma first_n_frames_SomeD:
  assumes "first_n_frames n st \<noteq> 0xFFFFFFFF" and "nframes st + n \<le> 1048576" "0 < n"
  shows "first_n_frames n st < nframes st \<and> (\<forall>j<n. \<not> used st (first_n_frames n st + j))"
proof (cases "scan (\<lambda>k. \<forall>j<n. \<not> used st (k + j)) 0 (nframes st)")
  case None
  then show ?thesis using assms(1) unfolding first_n_frames_scan [OF assms(2,3)] by simp
next
  case (Some k)
  then have "k < nframes st \<and> (\<forall>j<n. \<not> used st (k + j))" by (simp add: scan_Some_iff)
  then show ?thesis unfolding first_n_frames_scan [OF assms(2,3)] Some option.case .
qed

lemma full_word: "frame_word st i = 0xFFFFFFFF \<longleftrightarrow> (\<forall>j<32. used st (32 * i + j))"
  unfolding first_frame_word [symmetric] scan_None_iff by (simp add: and_push_bit used_def)

lemma word_and_bit: "(g::nat) < 32 * n \<Longrightarrow> \<exists>i<n. \<exists>j<32. g = 32 * i + j"
  by (intro exI [of _ "g div 32"] conjI exI [of _ "g mod 32"])
    (simp_all add: less_mult_imp_div_less mult.commute)

lemma first_frame_full:
  assumes "\<forall>g<32 * (nframes st div 32). used st g"
  shows "first_frame st = Inl (Panic ''first_frame: Out of memory'')"
proof -
  have "used st (32 * i + j)" if "i < nframes st div 32" "j < 32" for i j
    using assms that by (intro assms [rule_format]) linarith
  then have "scan (\<lambda>i. frame_word st i \<noteq> 0xFFFFFFFF) 0 (nframes st div 32) = None"
    unfolding scan_None_iff full_word by simp
  then show ?thesis unfolding first_frame_def first_frame_scan by simp
qed

lemma first_frame_free:
  assumes "g < 32 * (nframes st div 32)" "\<not> used st g"
  shows "\<exists>f. first_frame st = Inr f \<and> f < 32 * (nframes st div 32) \<and> \<not> used st f \<and> (\<forall>h<f. used st h)"
proof -
  let ?p = "\<lambda>i. frame_word st i \<noteq> 0xFFFFFFFF"
  have "scan ?p 0 (nframes st div 32) \<noteq> None"
    using word_and_bit [OF assms(1)] assms(2) unfolding scan_None_iff full_word by auto
  then obtain i where Some: "scan ?p 0 (nframes st div 32) = Some i" by blast
  then have i: "i < nframes st div 32" "frame_word st i \<noteq> 0xFFFFFFFF"
    and below: "\<And>k. k < i \<Longrightarrow> frame_word st k = 0xFFFFFFFF" by (simp_all add: scan_Some_iff)
  then obtain j where j: "scan (\<lambda>j. frame_word st i AND push_bit j 1 = 0) 0 32 = Some j"
    using first_frame_word by blast
  then have j': "j < 32" "\<not> used st (32 * i + j)" "\<And>k. k < j \<Longrightarrow> used st (32 * i + k)"
    by (auto simp: scan_Some_iff and_push_bit used_def)
  have "used st h" if "h < 32 * i + j" for h
  proof (cases "h < 32 * i")
    case True
    then show ?thesis using word_and_bit [OF True] below unfolding full_word by blast
  next
    case False
    then show ?thesis using j'(3) [of "h - 32 * i"] that by simp
  qed
  moreover have "32 * i + j < 32 * (nframes st div 32)" using i(1) j'(1) by linarith
  ultimately show ?thesis
    using j'(2) unfolding first_frame_def first_frame_scan Some option.case j by (simp add: mult.commute)
qed

text \<open>
  \<open>first_frame\<close> returns the least free frame of the whole bitmap words, and panics exactly when
  every one of those frames is used; the trailing \<open>nframes mod 32\<close> frames are never considered.
\<close>

theorem first_frame_least:
  "case first_frame st of
     Inr f \<Rightarrow> f < 32 * (nframes st div 32) \<and> \<not> used st f \<and> (\<forall>g<f. used st g)
   | Inl h \<Rightarrow> h = Panic ''first_frame: Out of memory'' \<and> (\<forall>g<32 * (nframes st div 32). used st g)"
proof (cases "\<forall>g<32 * (nframes st div 32). used st g")
  case True
  with first_frame_full [OF True] show ?thesis by simp
next
  case False
  then obtain g where "g < 32 * (nframes st div 32)" "\<not> used st g" by blast
  from first_frame_free [OF this] show ?thesis by auto
qed

text \<open>
  \<open>mem_used\<close> is four times the number of used frames among the whole bitmap words, as long as
  that fits 32 bits.
\<close>

theorem mem_used_card:
  assumes "nframes st < 1073741824"
  shows "mem_used st = 4 * card {f. f < 32 * (nframes st div 32) \<and> used st f}"
proof -
  let ?c = "\<lambda>i. length (filter (\<lambda>j. frame_word st i AND push_bit j 1 \<noteq> 0) [0..<32])"
  have word: "?c i = card {f. 32 * i \<le> f \<and> f < 32 * Suc i \<and> used st f}" for i
  proof -
    have "?c i = card (set (filter (\<lambda>j. frame_word st i AND push_bit j 1 \<noteq> 0) [0..<32]))"
      by (rule distinct_card [symmetric]) simp
    also have "\<dots> = card ((+) (32 * i) ` {j. j < 32 \<and> used st (32 * i + j)})"
      by (subst card_image) (auto simp: and_push_bit used_def intro!: arg_cong [where f = card])
    also have "(+) (32 * i) ` {j. j < 32 \<and> used st (32 * i + j)} =
        {f. 32 * i \<le> f \<and> f < 32 * Suc i \<and> used st f}"
    proof (rule set_eqI)
      fix x
      show "x \<in> (+) (32 * i) ` {j. j < 32 \<and> used st (32 * i + j)} \<longleftrightarrow>
          x \<in> {f. 32 * i \<le> f \<and> f < 32 * Suc i \<and> used st f}"
        by (cases "32 * i \<le> x") (auto intro!: image_eqI [where x = "x - 32 * i"])
    qed
    finally show ?thesis .
  qed
  have "sum_list (map ?c [0..<n]) = card {f. f < 32 * n \<and> used st f}" for n
  proof (induction n)
    case (Suc n)
    have "card {f. f < 32 * Suc n \<and> used st f} = card ({f. f < 32 * n \<and> used st f} \<union>
        {f. 32 * n \<le> f \<and> f < 32 * Suc n \<and> used st f})" by (intro arg_cong [where f = card]) auto
    also have "\<dots> = card {f. f < 32 * n \<and> used st f} +
        card {f. 32 * n \<le> f \<and> f < 32 * Suc n \<and> used st f}"
      by (rule card_Un_disjoint) auto
    also have "card {f. 32 * n \<le> f \<and> f < 32 * Suc n \<and> used st f} = ?c n"
      by (rule word [symmetric])
    finally show ?case using Suc.IH by simp
  qed simp
  note total = this [of "nframes st div 32"]
  have "card {f. f < 32 * (nframes st div 32) \<and> used st f} \<le> card {..<32 * (nframes st div 32)}"
    by (rule card_mono) auto
  then have "card {f. f < 32 * (nframes st div 32) \<and> used st f} \<le> nframes st" by simp
  then show ?thesis using assms unfolding mem_used_def total by (simp add: arith32)
qed

section \<open>A concrete machine\<close>

text \<open>
  256 KiB of frames, the bitmap at 0x50000, the directory at 0x60000 with one table, for the first
  4 MiB, at 0x70000.
\<close>

definition small_mm :: mm_state where
  "small_mm = \<lparr>mem = st32 (\<lambda>_. 0) (0x60000 + 4096) 0x70000, plp = 0x100000, heap_online = False,
     nframes = 64, frames = 0x50000, kernel_dir = 0x60000, current_directory = 0x60000\<rparr>"

lemma small_mm_sel [simp]:
  "nframes small_mm = 64" "kernel_dir small_mm = 0x60000" "frames small_mm = 0x50000" "plp small_mm = 0x100000"
  "current_directory small_mm = 0x60000" "heap_online small_mm = False"
  by (simp_all add: small_mm_def)

lemma ld32_zero [simp]: "ld32 (\<lambda>_. 0) a = 0"
  by (simp add: ld32_def ld8_def)

lemma small_mm_used [simp]: "g < 1024 \<Longrightarrow> \<not> used small_mm g"
proof -
  assume "g < 1024"
  then have "g div 32 < 32" by (simp add: div_less_iff_less_mult)
  then show ?thesis by (simp add: used_def frame_word_def small_mm_def ld32_st32_other)
qed

lemma small_mm_run: "first_n_frames 2 small_mm = 0"
proof -
  have "scan (\<lambda>k. \<forall>j<2. \<not> used small_mm (k + j)) 0 64 = Some 0"
    unfolding scan_Some_iff by simp
  then show ?thesis by (subst first_n_frames_scan) simp_all
qed

theorem first_n_frames_least_witness:
  "first_n_frames 2 small_mm = (LEAST k. \<forall>j<2. \<not> used small_mm (k + j)) \<or> first_n_frames 2 small_mm = 0xFFFFFFFF"
  using first_n_frames_least [of small_mm 2] by auto

theorem first_frame_least_witness: "first_frame small_mm = Inr 0"
proof (cases "first_frame small_mm")
  case (Inl h)
  with first_frame_least [of small_mm] have "used small_mm 0" by (simp del: small_mm_used)
  then show ?thesis by simp
next
  case (Inr f)
  with first_frame_least [of small_mm] have "0 < f \<Longrightarrow> used small_mm 0" by (simp del: small_mm_used)
  with Inr show ?thesis by auto
qed

theorem mem_used_card_witness: "mem_used small_mm = 4 * card {f. f < 64 \<and> used small_mm f}"
  using mem_used_card [of small_mm] by simp

end
