(* ===== verification/Page.thy ===== *)
theory Page
  imports Frame
begin

text \<open>
  mm/page.c and the page allocator at the end of the bitmap code in mm/frame.c: building the kernel's
  page directory, giving frames to pages, and handing runs of identity-mapped pages to the heap.
  The invariant \<open>mm_layout\<close> keeps the bitmap, the directory and its tables apart, and under it the
  operations act on two abstract values: the page map \<open>pte\<close> and the set \<open>used\<close> of frames.
\<close>

section \<open>The code\<close>

text \<open>
  \<open>copy_page_dir\<close> takes no care of the tables: the copy shares them with the source.
\<close>

definition copy_page_dir ::
  "'a mm_state_scheme malloc \<Rightarrow> nat \<Rightarrow> 'a mm_state_scheme \<Rightarrow> (nat \<times> 'a mm_state_scheme) outcome" where
  "copy_page_dir new_malloc src st =
     bindR (kmalloc new_malloc sizeof_page_dir st) (\<lambda>(dst, st1).
       if dst = 0 then Inr (0, st1)
       else Inr (dst, st1\<lparr>mem := memcpy dst src sizeof_page_dir (mem st1)\<rparr>))"

definition init_paging :: "'a mm_state_scheme malloc \<Rightarrow> nat \<Rightarrow> 'a mm_state_scheme \<Rightarrow> 'a mm_state_scheme outcome" where
  "init_paging new_malloc kb st = set_nframes new_malloc (kb div 4) st"

definition mem_total :: "'a mm_state_scheme \<Rightarrow> nat" where
  "mem_total st = mul32 (nframes st) 4"

text \<open>
  \<open>alloc_frame\<close> calls itself once it has a frame, and once more when the frame it got is number 0,
  which it cannot tell from no frame. The fuel 3 is enough (\<open>alloc_frame_ok\<close>).
\<close>

primrec alloc_frame_rec :: "nat \<Rightarrow> nat \<Rightarrow> bool \<Rightarrow> bool \<Rightarrow> 'a mm_state_scheme \<Rightarrow> 'a mm_state_scheme outcome" where
  "alloc_frame_rec 0 p k w st = Inl Fuel"
| "alloc_frame_rec (Suc n) p k w st =
     (let e = page_at (mem st) p
      in if frame e \<noteq> 0
         then Inr (st\<lparr>mem := page_store (mem st) p
                (e\<lparr>present := 1, rw := (if w then 1 else 0), user := (if k then 0 else 1)\<rparr>)\<rparr>)
         else bindR (first_frame st) (\<lambda>index.
                let st1 = set_frame (mul32 index 0x1000) st
                in alloc_frame_rec n p k w
                     (st1\<lparr>mem := page_store (mem st1) p ((page_at (mem st1) p)\<lparr>frame := index mod 1048576\<rparr>)\<rparr>)))"

definition alloc_frame :: "nat \<Rightarrow> bool \<Rightarrow> bool \<Rightarrow> 'a mm_state_scheme \<Rightarrow> 'a mm_state_scheme outcome" where
  "alloc_frame = alloc_frame_rec 3"

definition alloc_dma_frame :: "nat \<Rightarrow> bool \<Rightarrow> bool \<Rightarrow> nat \<Rightarrow> 'a mm_state_scheme \<Rightarrow> 'a mm_state_scheme" where
  "alloc_dma_frame p k w a st =
     (let st1 = st\<lparr>mem := page_store (mem st) p ((page_at (mem st) p)
            \<lparr>present := 1, rw := (if w then 1 else 0), user := (if k then 0 else 1), frame := a div 0x1000\<rparr>)\<rparr>
      in if a < mul32 (mul32 (nframes st1) 4) 0x400 then set_frame a st1 else st1)"

definition free_frame :: "nat \<Rightarrow> 'a mm_state_scheme \<Rightarrow> 'a mm_state_scheme outcome" where
  "free_frame p st =
     (if frame (page_at (mem st) p) = 0 then Inl (Panic ''Page at 0x%x attempted to free frame 0x%x'')
      else let st1 = clear_frame (mul32 (frame (page_at (mem st) p)) 0x1000) st
           in Inr (st1\<lparr>mem := page_store (mem st1) p ((page_at (mem st1) p)\<lparr>frame := 0\<rparr>)\<rparr>))"

definition get_page :: "nat \<Rightarrow> bool \<Rightarrow> nat \<Rightarrow> 'a mm_state_scheme \<Rightarrow> (nat \<times> 'a mm_state_scheme) outcome" where
  "get_page addr mk dir st =
     (let pg = addr div 0x1000; tindex = pg div 1024
      in if dir_table (mem st) dir tindex \<noteq> 0
         then Inr (dir_table (mem st) dir tindex + 4 * (pg mod 1024), st)
         else if mk
         then bindR (kvmalloc_p sizeof_page_table st) (\<lambda>(table, tmp, st1).
                let m1 = st32 (mem st1) (dir + 4096 + 4 * tindex) table;
                    m2 = memset (dir_table m1 dir tindex) 0 sizeof_page_table m1;
                    m3 = st32 m2 (dir + 4 * tindex) (tmp OR 7)
                in Inr (dir_table m3 dir tindex + 4 * (pg mod 1024), st1\<lparr>mem := m3\<rparr>))
         else Inr (0, st))"

text \<open>The step that every mapping loop of the file repeats: \<open>alloc_dma_frame(get_page(i, mk, kernel_dir), k, w, i)\<close>.\<close>

definition map_identity :: "bool \<Rightarrow> bool \<Rightarrow> bool \<Rightarrow> nat \<Rightarrow> 'a mm_state_scheme \<Rightarrow> 'a mm_state_scheme outcome" where
  "map_identity mk k w i st =
     bindR (get_page i mk (kernel_dir st) st) (\<lambda>(p, st1). Inr (alloc_dma_frame p k w i st1))"





definition mark_region :: "nat \<Rightarrow> 'a mm_state_scheme \<Rightarrow> 'a mm_state_scheme" where
  "mark_region addr st = set_frame (addr mod W32) st"

text \<open>The body of the loop of \<open>mm_alloc_pages\<close>.\<close>

definition take_page :: "nat \<Rightarrow> 'a mm_state_scheme \<Rightarrow> 'a mm_state_scheme outcome" where
  "take_page i st =
     (if test_frame i st \<noteq> 0 then Inl (Panic ''first_n_frames is broken'')
      else map_identity True True False i st)"

definition mm_alloc_pages :: "nat \<Rightarrow> 'a mm_state_scheme \<Rightarrow> (nat \<times> 'a mm_state_scheme) outcome" where
  "mm_alloc_pages n st =
     (let addr = mul32 (first_n_frames n st) 0x1000
      in bindR (addr_loop (\<lambda>_. add32 addr (mul32 n 0x1000)) 0x1000 take_page addr st) (\<lambda>st'. Inr (addr, st')))"

text \<open>\<open>while (n--) free_frame(p -= 0x1000)\<close>: the data pointer itself goes in as a \<open>page_t *\<close>.\<close>

primrec mm_free_pages :: "nat \<Rightarrow> nat \<Rightarrow> 'a mm_state_scheme \<Rightarrow> 'a mm_state_scheme outcome" where
  "mm_free_pages p 0 st = Inr st"
| "mm_free_pages p (Suc n) st =
     bindR (free_frame (sub32 p 0x1000) st) (\<lambda>st1. mm_free_pages (sub32 p 0x1000) n st1)"

section \<open>The page map and the layout\<close>

abbreviation tab :: "'a mm_state_scheme \<Rightarrow> nat \<Rightarrow> nat" where
  "tab st t \<equiv> dir_table (mem st) (kernel_dir st) t"

text \<open>The entry word of page number \<open>f\<close> in the kernel directory; 0 where it has no table.\<close>

definition pte :: "'a mm_state_scheme \<Rightarrow> nat \<Rightarrow> nat" where
  "pte st f = (if tab st (f div 1024) = 0 then 0
     else ld32 (mem st) (tab st (f div 1024) + 4 * (f mod 1024)))"

definition bitmap_size :: "'a mm_state_scheme \<Rightarrow> nat" where
  "bitmap_size st = 4 * ((nframes st + 31) div 32)"

definition mm_layout :: "'a mm_state_scheme \<Rightarrow> bool" where
  "mm_layout st \<longleftrightarrow>
     nframes st < 1048576 \<and> kernel_dir st + 8196 < W32 \<and>
     apart (frames st) (bitmap_size st) (kernel_dir st) 8196 \<and>
     (\<forall>t<1024. tab st t \<noteq> 0 \<longrightarrow>
        apart (tab st t) 4096 (kernel_dir st) 8196 \<and>
        apart (tab st t) 4096 (frames st) (bitmap_size st) \<and>
        (\<forall>u<1024. u \<noteq> t \<longrightarrow> tab st u \<noteq> 0 \<longrightarrow> apart (tab st t) 4096 (tab st u) 4096)) \<and>
     (\<not> heap_online st \<longrightarrow> 4096 \<le> plp st \<and> frames st + bitmap_size st \<le> plp st \<and>
        kernel_dir st + 8196 \<le> plp st \<and> (\<forall>t<1024. tab st t \<noteq> 0 \<longrightarrow> tab st t + 4096 \<le> plp st))"

lemma mm_layoutD:
  assumes "mm_layout st"
  shows "nframes st < 1048576" "apart (frames st) (bitmap_size st) (kernel_dir st) 8196"
    and "t < 1024 \<Longrightarrow> tab st t \<noteq> 0 \<Longrightarrow> apart (tab st t) 4096 (kernel_dir st) 8196"
    and "t < 1024 \<Longrightarrow> tab st t \<noteq> 0 \<Longrightarrow> apart (tab st t) 4096 (frames st) (bitmap_size st)"
    and "t < 1024 \<Longrightarrow> u < 1024 \<Longrightarrow> u \<noteq> t \<Longrightarrow> tab st t \<noteq> 0 \<Longrightarrow> tab st u \<noteq> 0 \<Longrightarrow>
      apart (tab st t) 4096 (tab st u) 4096"
  using assms by (auto simp: mm_layout_def)

lemma dir_table_frame:
  "same_on {d..<d + 8196} m m' \<Longrightarrow> t < 1024 \<Longrightarrow> dir_table m' d t = dir_table m d t"
  unfolding dir_table_def by (rule ld32_sub_frame [where b = d and k = 8196]) auto

lemma bitmap_slot: "f < nframes st \<Longrightarrow> 4 * (f div 32) + 4 \<le> bitmap_size st"
proof -
  assume "f < nframes st"
  then have "(f + 32) div 32 \<le> (nframes st + 31) div 32" by (intro div_le_mono) simp
  moreover have "(f + 32) div 32 = f div 32 + 1" by simp
  ultimately show ?thesis unfolding bitmap_size_def by linarith
qed

lemma frame_word_frame:
  assumes "same_on {frames st..<frames st + bitmap_size st} (mem st) (mem st')"
    and "frames st' = frames st" and "f < nframes st"
  shows "frame_word st' (f div 32) = frame_word st (f div 32)"
proof -
  have "4 * (f div 32) + 4 \<le> bitmap_size st" by (rule bitmap_slot [OF assms(3)])
  then show ?thesis unfolding frame_word_def assms(2)
    by (intro ld32_sub_frame [OF assms(1)]) auto
qed

lemma used_frame:
  assumes "same_on {frames st..<frames st + bitmap_size st} (mem st) (mem st')"
    and "frames st' = frames st" and "f < nframes st"
  shows "used st' f = used st f"
  using frame_word_frame [OF assms] by (simp add: used_def)

text \<open>A change of memory that leaves the directory alone keeps the layout.\<close>

lemma mm_layout_frame:
  assumes "mm_layout st" "same_on {kernel_dir st..<kernel_dir st + 8196} (mem st) m"
  shows "mm_layout (st\<lparr>mem := m\<rparr>)"
proof -
  have "dir_table m (kernel_dir st) t = tab st t" if "t < 1024" for t
    using dir_table_frame [OF assms(2) that] .
  with assms(1) show ?thesis by (simp add: mm_layout_def bitmap_size_def)
qed

text \<open>
  The two memory writes of the page allocator, one page entry and one bitmap word, act on the page
  map and on the set of used frames only.
\<close>

lemma write_pte:
  assumes st: "mm_layout st" and f: "f < 1048576" and t: "tab st (f div 1024) \<noteq> 0" and w: "w < W32"
  defines "st' \<equiv> st\<lparr>mem := st32 (mem st) (tab st (f div 1024) + 4 * (f mod 1024)) w\<rparr>"
  shows "mm_layout st'" and "u < 1024 \<Longrightarrow> tab st' u = tab st u"
    and "g < 1048576 \<Longrightarrow> pte st' g = (if g = f then w else pte st g)"
    and "g < nframes st \<Longrightarrow> used st' g = used st g"
proof -
  let ?T = "tab st (f div 1024)" and ?a = "tab st (f div 1024) + 4 * (f mod 1024)"
  have fd: "f div 1024 < 1024" using f by (simp add: less_mult_imp_div_less)
  have in_tab: "apart ?T 4096 b k \<Longrightarrow> apart ?a 4 b k" for b k
    by (erule apart_sub) auto
  have dir: "same_on {kernel_dir st..<kernel_dir st + 8196} (mem st) (mem st')"
    unfolding st'_def using in_tab [OF mm_layoutD(3) [OF st fd t]] by (simp add: same_on_st32_apart)
  show "mm_layout st'" using mm_layout_frame [OF st] dir by (simp add: st'_def)
  show tab: "tab st' u = tab st u" if "u < 1024" for u
    using dir_table_frame [OF dir that] by (simp add: st'_def)
  show "used st' g = used st g" if "g < nframes st" for g
  proof (rule used_frame [OF _ _ that])
    show "same_on {frames st..<frames st + bitmap_size st} (mem st) (mem st')"
      unfolding st'_def using in_tab [OF mm_layoutD(4) [OF st fd t]] by (simp add: same_on_st32_apart)
  qed (simp add: st'_def)
  show "pte st' g = (if g = f then w else pte st g)" if g: "g < 1048576"
  proof -
    have gd: "g div 1024 < 1024" using g by (simp add: less_mult_imp_div_less)
    have "apart ?a 4 (tab st (g div 1024) + 4 * (g mod 1024)) 4" if "g \<noteq> f" "tab st (g div 1024) \<noteq> 0"
    proof (cases "g div 1024 = f div 1024")
      case True
      with that have "f mod 1024 \<noteq> g mod 1024" using div_mod_eq_iff [of g 1024 f] by auto
      with True show ?thesis by (simp only: apart_words not_False_eq_True)
    next
      case False
      have "apart ?T 4096 (tab st (g div 1024)) 4096" by (rule mm_layoutD(5) [OF st fd gd False t that(2)])
      then show ?thesis by (rule apart_sub) auto
    qed
    moreover have "pte st' g = (if tab st (g div 1024) = 0 then 0
        else ld32 (st32 (mem st) ?a w) (tab st (g div 1024) + 4 * (g mod 1024)))"
      by (simp only: pte_def tab [OF gd]) (simp add: st'_def)
    ultimately show ?thesis using w t by (auto simp: pte_def mem_simps)
  qed
qed

lemma write_bitmap:
  fixes w :: nat
  assumes st: "mm_layout st" and f: "f < nframes st"
  defines "st' \<equiv> st\<lparr>mem := st32 (mem st) (frames st + 4 * (f div 32)) w\<rparr>"
  shows "mm_layout st'" and "u < 1024 \<Longrightarrow> tab st' u = tab st u"
    and "g < 1048576 \<Longrightarrow> pte st' g = pte st g"
proof -
  let ?a = "frames st + 4 * (f div 32)"
  have "4 * (f div 32) + 4 \<le> bitmap_size st" by (rule bitmap_slot [OF f])
  then have in_map: "apart b k (frames st) (bitmap_size st) \<Longrightarrow> apart ?a 4 b k" for b k
    by (auto intro: apart_sub dest: apart_sym)
  have dir: "same_on {kernel_dir st..<kernel_dir st + 8196} (mem st) (mem st')"
    unfolding st'_def using in_map [OF mm_layoutD(2) [OF st, THEN apart_sym]] by (simp add: same_on_st32_apart)
  show "mm_layout st'" using mm_layout_frame [OF st] dir by (simp add: st'_def)
  show tab: "tab st' u = tab st u" if "u < 1024" for u
    using dir_table_frame [OF dir that] by (simp add: st'_def)
  show "pte st' g = pte st g" if g: "g < 1048576"
  proof -
    have gd: "g div 1024 < 1024" using g by (simp add: less_mult_imp_div_less)
    have "apart ?a 4 (tab st (g div 1024) + 4 * (g mod 1024)) 4" if "tab st (g div 1024) \<noteq> 0"
      using in_map [OF mm_layoutD(4) [OF st gd that]] by (rule apart_sub) auto
    moreover have "pte st' g = (if tab st (g div 1024) = 0 then 0
        else ld32 (st32 (mem st) ?a w) (tab st (g div 1024) + 4 * (g mod 1024)))"
      by (simp only: pte_def tab [OF gd]) (simp add: st'_def)
    ultimately show ?thesis by (auto simp: pte_def mem_simps)
  qed
qed

text \<open>A new table: its slot in the directory, its zeroed entries, its physical slot.\<close>

lemma install_table:
  fixes w :: nat
  assumes st: "mm_layout st" and t: "t < 1024" "tab st t = 0"
    and T: "T \<noteq> 0" "T + 4096 < W32" "apart T 4096 (kernel_dir st) 8196"
      "apart T 4096 (frames st) (bitmap_size st)"
      "\<And>u. u < 1024 \<Longrightarrow> tab st u \<noteq> 0 \<Longrightarrow> apart T 4096 (tab st u) 4096"
    and p: "\<not> heap_online st \<Longrightarrow> T + 4096 \<le> q \<and> plp st \<le> q"
  defines "m1 \<equiv> st32 (mem st) (kernel_dir st + 4096 + 4 * t) T"
  defines "st' \<equiv> st\<lparr>plp := q, mem := st32 (memset T 0 4096 m1) (kernel_dir st + 4 * t) w\<rparr>"
  shows "mm_layout st'" and "u < 1024 \<Longrightarrow> tab st' u = (if u = t then T else tab st u)"
    and "g < 1048576 \<Longrightarrow> pte st' g = pte st g"
    and "g < nframes st \<Longrightarrow> used st' g = used st g"
    and "dir_table m1 (kernel_dir st) t = T"
proof -
  let ?d = "kernel_dir st" and ?m2 = "memset T 0 4096 m1"
  have m': "mem st' = st32 ?m2 (?d + 4 * t) w" by (simp add: st'_def)
  have other: "same_on {b..<b + k} (mem st) (mem st')" if "apart b k ?d 8196" "apart T 4096 b k" for b k
  proof -
    have "apart ?d 8196 b k" using that(1) by (rule apart_sym)
    then have "apart (?d + 4096 + 4 * t) 4 b k" "apart (?d + 4 * t) 4 b k"
      using t(1) by (auto intro: apart_sub)
    then have "same_on {b..<b + k} (mem st) m1" "same_on {b..<b + k} ?m2 (mem st')"
      unfolding m1_def m' by (auto intro: same_on_st32_apart)
    moreover have "same_on {b..<b + k} m1 ?m2"
      using that(2) by (intro memset_frame) (auto simp: apart_def)
    ultimately show ?thesis by (blast intro: same_on_trans)
  qed
  have m1_dir: "dir_table m1 ?d u = (if u = t then T else tab st u)" for u
    using T(2) apart_words [of t u "?d + 4096"]
    by (auto simp: m1_def dir_table_def mem_simps)
  show "dir_table m1 ?d t = T" by (simp add: m1_dir)
  have "same_on {?d..<?d + 8196} m1 ?m2" using T(3) by (intro memset_frame) (auto simp: apart_def)
  then have m2_dir: "dir_table ?m2 ?d u = dir_table m1 ?d u" if "u < 1024" for u
    by (rule dir_table_frame [OF _ that])
  have kd: "kernel_dir st' = ?d" by (simp add: st'_def)
  show tab: "tab st' u = (if u = t then T else tab st u)" if "u < 1024" for u
  proof -
    have "apart (?d + 4 * t) 4 (?d + 4096 + 4 * u) 4" using t(1) by (simp add: apart_def)
    then have "tab st' u = dir_table ?m2 ?d u"
      unfolding kd unfolding m' dir_table_def by (rule ld32_st32_apart)
    then show ?thesis by (simp only: m2_dir [OF that] m1_dir)
  qed
  have keep: "nframes st' = nframes st" "frames st' = frames st" "heap_online st' = heap_online st"
      "plp st' = q" "bitmap_size st' = bitmap_size st"
    by (simp_all add: st'_def bitmap_size_def)
  have sep: "apart (tab st' u) 4096 (tab st' v) 4096"
    if "u < 1024" "v < 1024" "v \<noteq> u" "tab st' u \<noteq> 0" "tab st' v \<noteq> 0" for u v
    using that T(5) mm_layoutD(5) [OF st that(1,2,3)] by (auto simp: tab dest: apart_sym split: if_splits)
  have off: "4096 \<le> q \<and> frames st + bitmap_size st \<le> q \<and> ?d + 8196 \<le> q \<and>
      (\<forall>u<1024. tab st' u \<noteq> 0 \<longrightarrow> tab st' u + 4096 \<le> q)" if "\<not> heap_online st"
    using st p [OF that] that by (auto simp: mm_layout_def tab)
  have tabs: "apart (tab st' u) 4096 ?d 8196" "apart (tab st' u) 4096 (frames st) (bitmap_size st)"
    if "u < 1024" "tab st' u \<noteq> 0" for u
    using that T(3,4) mm_layoutD(3,4) [OF st that(1)] by (auto simp: tab split: if_splits)
  have "nframes st < 1048576 \<and> ?d + 8196 < W32 \<and> apart (frames st) (bitmap_size st) ?d 8196"
    using st unfolding mm_layout_def by blast
  then show "mm_layout st'"
    unfolding mm_layout_def keep using sep off tabs by (simp only: kd) blast
  show "used st' g = used st g" if "g < nframes st" for g
    by (rule used_frame [OF _ keep(2) that]) (rule other [OF mm_layoutD(2) [OF st] T(4)])
  show "pte st' g = pte st g" if g: "g < 1048576"
  proof -
    have gd: "g div 1024 < 1024" using g by (simp add: less_mult_imp_div_less)
    show ?thesis
    proof (cases "g div 1024 = t")
      case True
      have "apart (?d + 4 * t) 4 (T + 4 * (g mod 1024)) 4"
        by (rule apart_sub [OF apart_sym [OF T(3)]]) (use t(1) in auto)
      then have "ld32 (mem st') (T + 4 * (g mod 1024)) = ld32 ?m2 (T + 4 * (g mod 1024))"
        unfolding m' by (rule ld32_st32_apart)
      also have "\<dots> = 0"
        by (auto simp: ld32_def ld8_def memset_apply)
      finally show ?thesis using True t T(1) by (simp add: pte_def tab)
    next
      case False
      show ?thesis
      proof (cases "tab st (g div 1024) = 0")
        case nz: False
        have "ld32 (mem st') (tab st (g div 1024) + 4 * (g mod 1024)) =
            ld32 (mem st) (tab st (g div 1024) + 4 * (g mod 1024))"
          by (rule ld32_sub_frame [OF other [OF mm_layoutD(3) [OF st gd nz] T(5) [OF gd nz]]]) auto
        with False show ?thesis by (simp add: pte_def tab [OF gd])
      qed (simp add: pte_def tab [OF gd] False)
    qed
  qed
qed

section \<open>The operations on the page map\<close>

definition pg :: "'a mm_state_scheme \<Rightarrow> nat \<Rightarrow> page_t" where
  "pg st f = page_decode (pte st f)"

text \<open>
  \<open>mm_step st P U st'\<close>: the state goes from \<open>st\<close> to \<open>st'\<close> by page-table and bitmap writes only, its
  page map is then \<open>P\<close> and its set of used frames \<open>U\<close>. Tables are never moved, and \<open>plp\<close> advances by
  at most 8 KiB for each table made.
\<close>

definition ntabs :: "'a mm_state_scheme \<Rightarrow> nat" where
  "ntabs st = card {t. t < 1024 \<and> tab st t \<noteq> 0}"


lemma ntabs_cong: "(\<And>t. t < 1024 \<Longrightarrow> tab st' t = tab st t) \<Longrightarrow> ntabs st' = ntabs st"
  unfolding ntabs_def by (rule arg_cong [where f = card]) auto

lemma ntabs_Suc:
  assumes "\<And>u. u < 1024 \<Longrightarrow> tab st' u = (if u = t then T else tab st u)" "t < 1024" "T \<noteq> 0" "tab st t = 0"
  shows "ntabs st' = Suc (ntabs st)"
proof -
  have "{u. u < 1024 \<and> tab st' u \<noteq> 0} = insert t {u. u < 1024 \<and> tab st u \<noteq> 0}"
    using assms by auto
  then show ?thesis unfolding ntabs_def using assms(4) by simp
qed

definition mm_keeps :: "'a mm_state_scheme \<Rightarrow> 'a mm_state_scheme \<Rightarrow> bool" where
  "mm_keeps st st' \<longleftrightarrow> kernel_dir st' = kernel_dir st \<and> frames st' = frames st \<and> nframes st' = nframes st
     \<and> heap_online st' = heap_online st \<and> current_directory st' = current_directory st
     \<and> mm_state.more st' = mm_state.more st"

text \<open>The addresses of the memory manager's own data.\<close>

definition mm_meta :: "'a mm_state_scheme \<Rightarrow> nat \<Rightarrow> bool" where
  "mm_meta st x \<longleftrightarrow> frames st \<le> x \<and> x < frames st + bitmap_size st \<or>
     kernel_dir st \<le> x \<and> x < kernel_dir st + 8196 \<or>
     (\<exists>t<1024. tab st t \<noteq> 0 \<and> tab st t \<le> x \<and> x < tab st t + 4096)"

definition mm_step :: "'a mm_state_scheme \<Rightarrow> (nat \<Rightarrow> page_t) \<Rightarrow> (nat \<Rightarrow> bool) \<Rightarrow> 'a mm_state_scheme \<Rightarrow> bool" where
  "mm_step st P U st' \<longleftrightarrow> mm_layout st' \<and> mm_keeps st st' \<and>
     (\<forall>g<1048576. pg st' g = P g) \<and> (\<forall>g<nframes st. used st' g \<longleftrightarrow> U g) \<and>
     (\<forall>t<1024. tab st t \<noteq> 0 \<longrightarrow> tab st' t = tab st t) \<and>
     plp st \<le> plp st' \<and> plp st' + 8192 * ntabs st \<le> plp st + 8192 * ntabs st' \<and>
     (\<forall>x. \<not> mm_meta st' x \<longrightarrow> mem st' x = mem st x) \<and>
     (heap_online st \<longrightarrow> (\<forall>t<1024. tab st' t = tab st t))"

lemma mm_step_refl: "mm_layout st \<Longrightarrow> mm_step st (pg st) (used st) st"
  by (simp add: mm_step_def mm_keeps_def)

lemma mm_step_cong:
  "mm_step st P U st' \<Longrightarrow> (\<And>g. g < 1048576 \<Longrightarrow> P g = P' g) \<Longrightarrow> (\<And>g. g < nframes st \<Longrightarrow> U g = U' g) \<Longrightarrow>
    mm_step st P' U' st'"
  by (auto simp: mm_step_def)

lemma mm_step_trans: "mm_step st P U st1 \<Longrightarrow> mm_step st1 P' U' st2 \<Longrightarrow> mm_step st P' U' st2"
proof -
  assume a: "mm_step st P U st1" and b: "mm_step st1 P' U' st2"
  have "mm_meta st2 x" if "mm_meta st1 x" for x
  proof -
    have "kernel_dir st2 = kernel_dir st1" "frames st2 = frames st1" "bitmap_size st2 = bitmap_size st1"
      using b by (simp_all add: mm_step_def mm_keeps_def bitmap_size_def)
    moreover have "\<forall>t<1024. tab st1 t \<noteq> 0 \<longrightarrow> tab st2 t = tab st1 t" using b by (simp add: mm_step_def)
    ultimately show ?thesis using that unfolding mm_meta_def by metis
  qed
  moreover have "\<not> mm_meta st2 x \<Longrightarrow> mem st2 x = mem st1 x" "\<not> mm_meta st1 x \<Longrightarrow> mem st1 x = mem st x" for x
    using a b by (auto simp: mm_step_def)
  ultimately have "\<not> mm_meta st2 x \<Longrightarrow> mem st2 x = mem st x" for x by metis
  with a b show ?thesis by (auto simp: mm_step_def mm_keeps_def)
qed

lemma st32_meta:
  assumes "\<And>i. i < 4 \<Longrightarrow> mm_meta (st\<lparr>mem := st32 (mem st) a w\<rparr>) (a + i)"
    and "\<not> mm_meta (st\<lparr>mem := st32 (mem st) a w\<rparr>) x"
  shows "st32 (mem st) a w x = mem st x"
proof -
  have False if "a \<le> x" "x < a + 4"
  proof -
    have "x - a < 4" using that by linarith
    then show False using assms(1) [of "x - a"] assms(2) that by simp
  qed
  then have "same_on {x} (mem st) (st32 (mem st) a w)" by (intro same_on_st32) auto
  then show ?thesis by (simp add: same_on_def)
qed

lemma get_page_step:
  assumes st: "mm_layout st" and a: "a < W32"
    and room: "tab st (a div 0x1000 div 1024) \<noteq> 0 \<or> \<not> heap_online st \<and> plp st + 8192 < W32"
  shows "\<exists>p st'. get_page a True (kernel_dir st) st = Inr (p, st') \<and>
    p = tab st' (a div 0x1000 div 1024) + 4 * (a div 0x1000 mod 1024) \<and>
    tab st' (a div 0x1000 div 1024) \<noteq> 0 \<and> mm_step st (pg st) (used st) st'"
proof (cases "tab st (a div 0x1000 div 1024) = 0")
  case False
  then show ?thesis using st by (auto simp: get_page_def Let_def intro: mm_step_refl)
next
  case True
  let ?t = "a div 0x1000 div 1024"
  define T where "T = plp st - plp st mod 4096 + 4096"
  have off: "\<not> heap_online st" and w: "plp st + 8192 < W32" using room True by auto
  have plp: "4096 \<le> plp st" "frames st + bitmap_size st \<le> plp st" "kernel_dir st + 8196 \<le> plp st"
      "\<And>t. t < 1024 \<Longrightarrow> tab st t \<noteq> 0 \<Longrightarrow> tab st t + 4096 \<le> plp st"
    using st off by (auto simp: mm_layout_def)
  have td: "?t < 1024" using a by (simp add: less_mult_imp_div_less)
  have T: "plp st < T" "T \<le> plp st + 4096"
    unfolding T_def using mod_less_divisor [of 4096 "plp st"] by linarith+
  have apart_T: "apart T 4096 b k" if "b + k \<le> plp st" for b k
    using that T(1) by (simp add: apart_def)
  define m1 where "m1 = st32 (mem st) (kernel_dir st + 4096 + 4 * ?t) T"
  define st' where "st' = st\<lparr>plp := T + 4096, mem := st32 (memset T 0 4096 m1) (kernel_dir st + 4 * ?t) (T OR 7)\<rparr>"
  have "T \<noteq> 0" "T + 4096 < W32" using T w by linarith+
  note new = install_table [where T = T and q = "T + 4096", OF st td True this
      apart_T [OF plp(3)] apart_T [OF plp(2)] apart_T [OF plp(4)], folded m1_def]
  note new = new(1-4) [where w = "T OR 7", folded st'_def] new(5)
  have q: "\<not> heap_online st \<Longrightarrow> T + 4096 \<le> T + 4096 \<and> plp st \<le> T + 4096" using T(1) by linarith
  have tab: "tab st' u = (if u = ?t then T else tab st u)" if "u < 1024" for u
    by (rule new(2)) (use that q in auto)
  have m1t: "dir_table m1 (kernel_dir st) ?t = T" by (rule new(5)) (use q in auto)
  have kd: "kernel_dir st' = kernel_dir st" by (simp add: st'_def)
  have "kvmalloc_p 4096 st = Inr (T, T, st\<lparr>plp := T + 4096\<rparr>)"
    using kvmalloc_p_placement [OF off plp(1), of 4096, folded T_def] w by simp
  then have "get_page a True (kernel_dir st) st = Inr (dir_table (mem st') (kernel_dir st) ?t + 4 * (a div 0x1000 mod 1024), st')"
    using True m1t by (simp add: get_page_def Let_def m1_def st'_def)
  moreover have "mm_step st (pg st) (used st) st'"
    unfolding mm_step_def
  proof (intro conjI allI impI)
    show "mm_layout st'" by (rule new(1)) (use q in auto)
    show "mm_keeps st st'" by (simp add: mm_keeps_def st'_def)
    show "pg st' g = pg st g" if "g < 1048576" for g
      unfolding pg_def by (rule arg_cong [OF new(3)]) (use q that in auto)
    show "used st' g = used st g" if "g < nframes st" for g
      by (rule new(4)) (use q that in auto)
    show "tab st' t = tab st t" if "t < 1024" "tab st t \<noteq> 0" for t
      using tab [OF that(1)] that True by auto
    have "ntabs st' = Suc (ntabs st)"
      by (rule ntabs_Suc [OF tab td _ True]) (use T in auto)
    moreover have "plp st' = T + 4096" by (simp add: st'_def)
    ultimately show "plp st \<le> plp st'" "plp st' + 8192 * ntabs st \<le> plp st + 8192 * ntabs st'"
      using T by linarith+
    show "mem st' x = mem st x" if "\<not> mm_meta st' x" for x
    proof -
      have out: "x \<notin> {T..<T + 4096}" "x \<notin> {kernel_dir st..<kernel_dir st + 8196}"
        using that td T(1) tab [OF td] by (auto simp: mm_meta_def kd)
      then have "same_on {x} (mem st) m1" "same_on {x} (memset T 0 4096 m1) (mem st')"
        using td by (auto simp: m1_def st'_def intro!: same_on_st32)
      moreover have "same_on {x} m1 (memset T 0 4096 m1)" using out(1) by (intro memset_frame) auto
      ultimately show ?thesis by (simp add: same_on_def)
    qed
    show "tab st' t = tab st t" if "heap_online st" for t using that off by blast
  qed
  ultimately show ?thesis
    using T tab [OF td] by (intro exI conjI) (auto simp: kd)
qed

lemma write_page_step:
  assumes st: "mm_layout st" and f: "f < 1048576" and t: "tab st (f div 1024) \<noteq> 0" and e: "page_wf e"
  shows "mm_step st ((pg st)(f := e)) (used st)
    (st\<lparr>mem := page_store (mem st) (tab st (f div 1024) + 4 * (f mod 1024)) e\<rparr>)" (is "mm_step _ _ _ ?st'")
proof -
  note new = write_pte [OF st f t page_encode_bound [of e], folded page_store_def]
  have "ntabs ?st' = ntabs st" using new(2) by (rule ntabs_cong)
  moreover have "mem ?st' x = mem st x" if "\<not> mm_meta ?st' x" for x
  proof -
    have fd: "f div 1024 < 1024" using f by (simp add: less_mult_imp_div_less)
    have "mm_meta ?st' (tab st (f div 1024) + 4 * (f mod 1024) + i)" if "i < 4" for i
      unfolding mm_meta_def using that t new(2) [OF fd] fd by (intro disjI2 exI [of _ "f div 1024"]) auto
    with that show ?thesis unfolding page_store_def by (simp add: st32_meta)
  qed
  ultimately show ?thesis
    unfolding mm_step_def using new page_decode_encode [OF e] by (auto simp: pg_def mm_keeps_def)
qed

lemma write_bitmap_step:
  assumes st: "mm_layout st" and f: "f < nframes st"
  shows "mm_step st (pg st) (used (st\<lparr>mem := st32 (mem st) (frames st + 4 * (f div 32)) w\<rparr>))
    (st\<lparr>mem := st32 (mem st) (frames st + 4 * (f div 32)) w\<rparr>)" (is "mm_step _ _ _ ?st'")
proof -
  note new = write_bitmap [where w = w, OF st f]
  have "ntabs ?st' = ntabs st" using new(2) by (rule ntabs_cong)
  moreover have "mem ?st' x = mem st x" if "\<not> mm_meta ?st' x" for x
  proof -
    have "mm_meta ?st' (frames st + 4 * (f div 32) + i)" if "i < 4" for i
      unfolding mm_meta_def using that bitmap_slot [OF f] by (intro disjI1) (simp add: bitmap_size_def)
    with that show ?thesis by (simp add: st32_meta)
  qed
  ultimately show ?thesis unfolding mm_step_def using new by (auto simp: pg_def mm_keeps_def)
qed

lemma set_frame_step:
  assumes "mm_layout st" and "a div 0x1000 < nframes st"
  shows "mm_step st (pg st) (\<lambda>g. g = a div 0x1000 \<or> used st g) (set_frame a st)"
proof -
  obtain w where w: "set_frame a st = st\<lparr>mem := st32 (mem st) (frames st + 4 * (a div 0x1000 div 32)) w\<rparr>"
    by (simp add: set_frame_def Let_def)
  show ?thesis
    by (rule mm_step_cong [OF write_bitmap_step [OF assms, of w, folded w]]) (simp_all add: used_set_frame)
qed

lemma clear_frame_step:
  assumes "mm_layout st" and "a div 0x1000 < nframes st"
  shows "mm_step st (pg st) (\<lambda>g. g \<noteq> a div 0x1000 \<and> used st g) (clear_frame a st)"
proof -
  obtain w where w: "clear_frame a st = st\<lparr>mem := st32 (mem st) (frames st + 4 * (a div 0x1000 div 32)) w\<rparr>"
    by (simp add: clear_frame_def Let_def)
  show ?thesis
    by (rule mm_step_cong [OF write_bitmap_step [OF assms, of w, folded w]]) (simp_all add: used_clear_frame)
qed

lemma page_at_pte:
  "tab st (f div 1024) \<noteq> 0 \<Longrightarrow> page_at (mem st) (tab st (f div 1024) + 4 * (f mod 1024)) = pg st f"
  by (simp add: page_at_def pg_def pte_def)

lemma page_wf_pg [simp]: "page_wf (pg st f)"
  by (simp add: pg_def page_wf_decode)

lemma page_wf_update:
  "page_wf e \<Longrightarrow> page_wf (e\<lparr>present := 1, rw := (if w then 1 else 0), user := (if k then 0 else 1)\<rparr>)"
  "page_wf e \<Longrightarrow> g < 1048576 \<Longrightarrow> page_wf (e\<lparr>frame := g\<rparr>)"
  by (auto simp: page_wf_def)

lemma mm_stepD:
  assumes "mm_step st P U st'"
  shows "mm_layout st'" "kernel_dir st' = kernel_dir st" "nframes st' = nframes st" "heap_online st' = heap_online st"
    "frames st' = frames st" "current_directory st' = current_directory st"
    "mm_state.more st' = mm_state.more st"
    "g < 1048576 \<Longrightarrow> pg st' g = P g" "g < nframes st \<Longrightarrow> used st' g \<longleftrightarrow> U g"
    "t < 1024 \<Longrightarrow> tab st t \<noteq> 0 \<Longrightarrow> tab st' t = tab st t"
    "\<not> mm_meta st' x \<Longrightarrow> mem st' x = mem st x"
    "plp st' + 8192 * ntabs st \<le> plp st + 8192 * ntabs st'"
    "heap_online st \<Longrightarrow> t < 1024 \<Longrightarrow> tab st' t = tab st t"
  using assms by (auto simp: mm_step_def mm_keeps_def)

text \<open>What \<open>alloc_dma_frame\<close> makes of a page entry.\<close>

definition dma_entry :: "bool \<Rightarrow> bool \<Rightarrow> nat \<Rightarrow> page_t \<Rightarrow> page_t" where
  "dma_entry k w a e =
     e\<lparr>present := 1, rw := (if w then 1 else 0), user := (if k then 0 else 1), frame := a div 0x1000\<rparr>"

lemma alloc_dma_frame_step:
  assumes st: "mm_layout st" and f: "f < 1048576" and t: "tab st (f div 1024) \<noteq> 0" and a: "a < W32"
  shows "mm_step st ((pg st)(f := dma_entry k w a (pg st f))) (\<lambda>g. g = a div 0x1000 \<or> used st g)
    (alloc_dma_frame (tab st (f div 1024) + 4 * (f mod 1024)) k w a st)"
proof -
  let ?e = "dma_entry k w a (pg st f)" and ?p = "tab st (f div 1024) + 4 * (f mod 1024)"
  let ?st1 = "st\<lparr>mem := page_store (mem st) ?p ?e\<rparr>"
  have n: "nframes st < 1048576" using st by (rule mm_layoutD)
  then have bound: "a < mul32 (mul32 (nframes st) 4) 0x400 \<longleftrightarrow> a div 0x1000 < nframes st"
    by (simp add: arith32 div_less_iff_less_mult mult.commute)
  have eq: "alloc_dma_frame ?p k w a st = (if a div 0x1000 < nframes st then set_frame a ?st1 else ?st1)"
    by (simp add: alloc_dma_frame_def Let_def bound page_at_pte [OF t] dma_entry_def)
  have "a div 0x1000 < 1048576" using a by (simp add: div_less_iff_less_mult)
  then have wf: "page_wf ?e" unfolding dma_entry_def by (simp add: page_wf_def flip: page_wf_pg)
      (use page_wf_pg [of st f] in \<open>simp add: page_wf_def\<close>)
  note one = write_page_step [OF st f t wf]
  show ?thesis
  proof (cases "a div 0x1000 < nframes st")
    case True
    have "mm_step ?st1 (pg ?st1) (\<lambda>g. g = a div 0x1000 \<or> used ?st1 g) (set_frame a ?st1)"
      using mm_stepD(1) [OF one] True by (intro set_frame_step) auto
    from mm_step_trans [OF one this] show ?thesis
      unfolding eq if_P [OF True] by (rule mm_step_cong) (simp_all add: mm_stepD(8,9) [OF one] del: fun_upd_apply)
  next
    case False
    show ?thesis unfolding eq if_not_P [OF False] by (rule mm_step_cong [OF one]) (use False in auto)
  qed
qed

text \<open>Whether \<open>get_page\<close> can find or make the table of an address.\<close>

definition table_room :: "'a mm_state_scheme \<Rightarrow> nat \<Rightarrow> bool" where
  "table_room st a \<longleftrightarrow> tab st (a div 0x1000 div 1024) \<noteq> 0 \<or> \<not> heap_online st \<and> plp st + 8192 < W32"

lemma map_identity_step:
  assumes st: "mm_layout st" and a: "a < W32" and room: "table_room st a"
  shows "\<exists>st'. map_identity True k w a st = Inr st' \<and>
    mm_step st ((pg st)(a div 0x1000 := dma_entry k w a (pg st (a div 0x1000))))
      (\<lambda>g. g = a div 0x1000 \<or> used st g) st' \<and> tab st' (a div 0x1000 div 1024) \<noteq> 0"
proof -
  let ?f = "a div 0x1000"
  obtain p st1 where g: "get_page a True (kernel_dir st) st = Inr (p, st1)"
    and p: "p = tab st1 (?f div 1024) + 4 * (?f mod 1024)" "tab st1 (?f div 1024) \<noteq> 0"
    and s1: "mm_step st (pg st) (used st) st1"
    using get_page_step [OF st a room [unfolded table_room_def]] by blast
  have f: "?f < 1048576" using a by (simp add: div_less_iff_less_mult)
  note s2 = alloc_dma_frame_step [OF mm_stepD(1) [OF s1] f p(2) a, of k w]
  have "mm_step st ((pg st)(?f := dma_entry k w a (pg st ?f))) (\<lambda>g. g = ?f \<or> used st g)
      (alloc_dma_frame p k w a st1)"
    unfolding p(1) by (rule mm_step_cong [OF mm_step_trans [OF s1 s2]])
      (use f in \<open>auto simp: mm_stepD(8,9) [OF s1]\<close>)
  moreover have "tab (alloc_dma_frame p k w a st1) (?f div 1024) \<noteq> 0"
    using mm_stepD(10) [OF s2 _ p(2)] p(2) f unfolding p(1) by (simp add: less_mult_imp_div_less)
  ultimately show ?thesis using g by (simp add: map_identity_def)
qed

section \<open>Runs of pages for the heap\<close>

text \<open>The page map and the used frames after \<open>mm_alloc_pages\<close> took the frames \<open>k, \<dots>, k + n - 1\<close>.\<close>

definition run_map :: "nat \<Rightarrow> nat \<Rightarrow> 'a mm_state_scheme \<Rightarrow> nat \<Rightarrow> page_t" where
  "run_map k n st g = (if k \<le> g \<and> g < k + n then dma_entry True False (0x1000 * g) (pg st g) else pg st g)"

definition run_used :: "nat \<Rightarrow> nat \<Rightarrow> 'a mm_state_scheme \<Rightarrow> nat \<Rightarrow> bool" where
  "run_used k n st g \<longleftrightarrow> k \<le> g \<and> g < k + n \<or> used st g"

lemma run_0: "run_map k 0 st = pg st" "run_used k 0 st = used st"
  by (auto simp: run_map_def run_used_def fun_eq_iff)

lemma take_page_loop:
  assumes st: "mm_layout st" and k: "k + n \<le> nframes st"
    and free: "\<And>g. k \<le> g \<Longrightarrow> g < k + n \<Longrightarrow> \<not> used st g"
    and tabs: "\<And>g. k \<le> g \<Longrightarrow> g < k + n \<Longrightarrow> tab st (g div 1024) \<noteq> 0"
  shows "runs (\<lambda>_. False) (mm_step st (run_map k n st) (run_used k n st))
    (addr_loop (\<lambda>_. 0x1000 * (k + n)) 0x1000 take_page (0x1000 * k) st)"
proof -
  let ?P = "\<lambda>i s. \<exists>j\<le>n. i = 0x1000 * (k + j) \<and> mm_step st (run_map k j st) (run_used k j st) s"
  have n: "nframes st < 1048576" using st by (rule mm_layoutD)
  have "runs (\<lambda>_. False) (\<lambda>s'. \<exists>j. 0x1000 * k \<le> j \<and> ?P j s' \<and> 0x1000 * (k + n) \<le> j)
    (addr_loop (\<lambda>_. 0x1000 * (k + n)) 0x1000 take_page (0x1000 * k) st)"
  proof (rule runs_addr_loop)
    show "?P (0x1000 * k) st"
      using mm_step_refl [OF st]
      by (intro exI [of _ 0]) (simp add: run_0)
  next
    fix i s assume "?P i s" and lt: "i < 0x1000 * (k + n)"
    then obtain j where j: "j \<le> n" "i = 0x1000 * (k + j)" and s: "mm_step st (run_map k j st) (run_used k j st) s"
      by blast
    with lt have jn: "j < n" by simp
    have f: "i div 0x1000 = k + j" unfolding j(2) by simp
    have kj: "k + j < nframes st" using jn k by linarith
    have "k + j + 1 < 1048576" using kj n by linarith
    then have i: "i + 0x1000 < W32" by (simp add: j(2))
    have td: "(k + j) div 1024 < 1024" using kj n by (simp add: less_mult_imp_div_less)
    have "tab s ((k + j) div 1024) = tab st ((k + j) div 1024)"
      by (rule mm_stepD(10) [OF s td]) (use jn tabs in auto)
    then have "table_room s i" using tabs [of "k + j"] jn by (simp add: table_room_def f)
    then obtain s1 where s1: "map_identity True True False i s = Inr s1"
      "mm_step s ((pg s)(k + j := dma_entry True False i (pg s (k + j)))) (\<lambda>g. g = k + j \<or> used s g) s1"
      using map_identity_step [OF mm_stepD(1) [OF s], of i True False] i by (auto simp: f)
    have "mm_step st (run_map k (Suc j) st) (run_used k (Suc j) st) s1"
      by (rule mm_step_cong [OF mm_step_trans [OF s s1(2)]])
        (use kj n in \<open>auto simp: mm_stepD(8,9) [OF s] run_map_def run_used_def j(2)\<close>)
    moreover have "test_frame i s = 0"
    proof -
      have "\<not> used s (k + j)" using free [of "k + j"] jn mm_stepD(9) [OF s kj] by (simp add: run_used_def)
      then show ?thesis using test_frame_used [of i s] by (simp add: f)
    qed
    ultimately show "runs (\<lambda>_. False) (\<lambda>s1. 0 < (0x1000::nat) \<and> i + 0x1000 < W32 \<and> ?P (i + 0x1000) s1) (take_page i s)"
      using i jn s1(1) by (simp add: take_page_def) (intro exI [of _ "Suc j"], simp add: j(2))
  qed
  then show ?thesis
  proof (rule runs_mono)
    fix s' assume "\<exists>j. 0x1000 * k \<le> j \<and> ?P j s' \<and> 0x1000 * (k + n) \<le> j"
    then obtain j where "j \<le> n" "0x1000 * (k + n) \<le> 0x1000 * (k + j)" "mm_step st (run_map k j st) (run_used k j st) s'"
      by blast
    moreover from this have "j = n" by simp
    ultimately show "mm_step st (run_map k n st) (run_used k n st) s'" by simp
  qed simp
qed

text \<open>What \<open>mm_alloc_pages\<close> promises to its client, the heap, when a run of free frames exists.\<close>

lemma mm_alloc_pages_step:
  assumes st: "mm_layout st" and n: "0 < n" "nframes st + n \<le> 1048576"
    and k: "first_n_frames n st = k" "k + n \<le> nframes st"
    and tabs: "\<And>g. k \<le> g \<Longrightarrow> g < k + n \<Longrightarrow> tab st (g div 1024) \<noteq> 0"
  shows "\<exists>st'. mm_alloc_pages n st = Inr (0x1000 * k, st') \<and> mm_step st (run_map k n st) (run_used k n st) st'"
    and "k \<le> g \<Longrightarrow> g < k + n \<Longrightarrow> \<not> used st g"
proof -
  have nf: "nframes st < 1048576" using st by (rule mm_layoutD)
  have "first_n_frames n st \<noteq> 0xFFFFFFFF" using k nf by linarith
  then have "\<not> used st (k + j)" if "j < n" for j
    using first_n_frames_SomeD [OF _ n(2,1)] that k(1) by blast
  then show free: "\<not> used st g" if "k \<le> g" "g < k + n" for g using that by (metis le_Suc_ex nat_add_left_cancel_less)
  have a: "mul32 k 0x1000 = 0x1000 * k" "add32 (0x1000 * k) (mul32 n 0x1000) = 0x1000 * (k + n)"
    using k(2) nf by (simp_all add: arith32)
  show "\<exists>st'. mm_alloc_pages n st = Inr (0x1000 * k, st') \<and> mm_step st (run_map k n st) (run_used k n st) st'"
    using take_page_loop [OF st k(2) free tabs] unfolding runs_total
    by (auto simp: mm_alloc_pages_def k(1) a Let_def)
qed

lemma mm_alloc_pages_fail:
  assumes "first_n_frames n st = 0xFFFFFFFF" "0 < n" "n < 1048576"
  shows "mm_alloc_pages n st = Inr (0xFFFFF000, st)"
proof -
  have "mul32 0xFFFFFFFF 0x1000 = 0xFFFFF000" by (simp add: mul32_def)
  moreover have "(0xFFFFF000 + n * 4096) mod W32 = n * 4096 - 4096"
  proof -
    have "0xFFFFF000 + n * 4096 = n * 4096 - 4096 + W32" using assms(2) by simp
    then show ?thesis using assms(3) by (simp only: mod_add_self2) simp
  qed
  then have "add32 0xFFFFF000 (mul32 n 0x1000) \<le> 0xFFFFF000"
    using assms(3) unfolding add32_def by (simp add: arith32)
  ultimately show ?thesis using assms(1) by (simp add: mm_alloc_pages_def addr_loop.simps)
qed

text \<open>
  C20. Under the layout, \<open>mm_alloc_pages\<close> returns the address of the first run of \<open>n\<close> free frames
  whenever a run that lies inside the bitmap comes first: if at \<open>k\<close> there are \<open>n\<close> free frames and before
  \<open>k\<close> no \<open>n\<close> consecutive free ones, it does not panic, returns the address of frame \<open>k\<close>, maps exactly
  the pages \<open>k, \<dots>, k + n - 1\<close> to themselves (present, kernel, read-only, as the code asks for), marks
  exactly these frames, and writes nothing but page tables and bitmap.
\<close>

theorem mm_alloc_pages_run:
  assumes "mm_layout st" "0 < n" "k + n \<le> nframes st" "nframes st + n \<le> 1048576"
    and free: "\<forall>j<n. \<not> used st (k + j)"
    and first: "\<forall>i<k. \<exists>j<n. used st (i + j)"
    and "\<forall>g<nframes st. tab st (g div 1024) \<noteq> 0"
  shows "\<exists>st'. mm_alloc_pages n st = Inr (0x1000 * k, st') \<and> mm_layout st' \<and>
    (\<forall>g<1048576. pg st' g = (if k \<le> g \<and> g < k + n
       then (pg st g)\<lparr>present := 1, rw := 0, user := 0, frame := g\<rparr> else pg st g)) \<and>
    (\<forall>g<nframes st. used st' g \<longleftrightarrow> k \<le> g \<and> g < k + n \<or> used st g) \<and>
    (\<forall>x. \<not> mm_meta st' x \<longrightarrow> mem st' x = mem st x)"
proof -
  have "scan (\<lambda>k. \<forall>j<n. \<not> used st (k + j)) 0 (nframes st) = Some k"
    using assms(2,3) free first by (auto simp: scan_Some_iff)
  then have k: "first_n_frames n st = k" unfolding first_n_frames_scan [OF assms(4,2)] by simp
  have "tab st (g div 1024) \<noteq> 0" if "k \<le> g" "g < k + n" for g using assms that by auto
  note run = mm_alloc_pages_step [OF assms(1,2,4) k assms(3) this]
  obtain st' where "mm_alloc_pages n st = Inr (0x1000 * k, st')"
    and s: "mm_step st (run_map k n st) (run_used k n st) st'" using run(1) by blast
  then show ?thesis
    using mm_stepD(1,8,9,11) [OF s] by (auto simp: run_map_def run_used_def dma_entry_def)
qed

text \<open>
  Without such a run \<open>mm_alloc_pages\<close> does not return NULL, which its callers test for: it
  returns the address 0xFFFFF000, maps nothing and marks nothing.
\<close>

theorem mm_alloc_pages_exhausted:
  assumes "0 < n" "nframes st + n \<le> 1048576"
    and "\<forall>k<nframes st. \<exists>j<n. used st (k + j)"
  shows "mm_alloc_pages n st = Inr (0xFFFFF000, st)"
proof -
  have "scan (\<lambda>k. \<forall>j<n. \<not> used st (k + j)) 0 (nframes st) = None"
    using assms(3) by (auto simp: scan_None_iff)
  then have "first_n_frames n st = 0xFFFFFFFF" unfolding first_n_frames_scan [OF assms(2,1)] by simp
  moreover have "n < 1048576 \<or> nframes st = 0 \<and> n = 1048576" using assms(1,2) by linarith
  ultimately show ?thesis
    using assms(1) mm_alloc_pages_fail [of n st]
    by (auto simp: mm_alloc_pages_def addr_loop.simps mul32_def add32_def)
qed

section \<open>Single frames\<close>

lemma page_wf_dma: "page_wf e \<Longrightarrow> h < 1048576 \<Longrightarrow> page_wf
    (e\<lparr>present := 1, rw := (if w then 1 else 0), user := (if k then 0 else 1), frame := h\<rparr>)"
  by (simp add: page_wf_def)

text \<open>A page that has its frame only gets its flags.\<close>

lemma alloc_frame_rec_has:
  assumes "mm_layout st" "f < 1048576" "tab st (f div 1024) \<noteq> 0" "frame (pg st f) \<noteq> 0"
  shows "\<exists>st'. alloc_frame_rec (Suc n) (tab st (f div 1024) + 4 * (f mod 1024)) k w st = Inr st' \<and>
    mm_step st ((pg st)(f := dma_entry k w (0x1000 * frame (pg st f)) (pg st f))) (used st) st'"
proof -
  have "page_wf (dma_entry k w (0x1000 * frame (pg st f)) (pg st f))"
    unfolding dma_entry_def using page_wf_pg [of st f] by (simp add: page_wf_def)
  from write_page_step [OF assms(1-3) this] show ?thesis
    using assms(4) by (simp add: page_at_pte [OF assms(3)] Let_def dma_entry_def)
qed

text \<open>One round: mark the first free frame and store its number in the entry.\<close>

definition take_first :: "nat \<Rightarrow> nat \<Rightarrow> 'a mm_state_scheme \<Rightarrow> 'a mm_state_scheme" where
  "take_first p index st =
     (let st1 = set_frame (mul32 index 0x1000) st
      in st1\<lparr>mem := page_store (mem st1) p ((page_at (mem st1) p)\<lparr>frame := index mod 1048576\<rparr>)\<rparr>)"

lemma take_first_step:
  assumes st: "mm_layout st" and f: "f < 1048576" and t: "tab st (f div 1024) \<noteq> 0" and i: "i < nframes st"
  shows "mm_step st ((pg st)(f := (pg st f)\<lparr>frame := i\<rparr>)) (\<lambda>g. g = i \<or> used st g)
    (take_first (tab st (f div 1024) + 4 * (f mod 1024)) i st)"
proof -
  have n: "nframes st < 1048576" using st by (rule mm_layoutD)
  have i': "mul32 i 0x1000 = i * 0x1000" "mul32 i 0x1000 div 0x1000 < nframes st" "i mod 1048576 = i"
    using i n by (simp_all add: arith32)
  have td: "f div 1024 < 1024" using f by (simp add: less_mult_imp_div_less)
  let ?st1 = "set_frame (mul32 i 0x1000) st"
  note s1 = set_frame_step [OF st i'(2)]
  have t1: "tab ?st1 (f div 1024) = tab st (f div 1024)" by (rule mm_stepD(10) [OF s1 td t])
  have e1: "page_at (mem ?st1) (tab st (f div 1024) + 4 * (f mod 1024)) = pg st f"
    using page_at_pte [of ?st1 f] t t1 mm_stepD(8) [OF s1 f] by simp
  have "page_wf ((pg st f)\<lparr>frame := i\<rparr>)" by (rule page_wf_update) (use i n in auto)
  note s2 = write_page_step [OF mm_stepD(1) [OF s1] f, unfolded t1, OF t this]
  have i2: "i * 0x1000 div 0x1000 = i" by simp
  show ?thesis
    unfolding take_first_def Let_def i'(3) e1
    by (rule mm_step_cong [OF mm_step_trans [OF s1 s2]])
      (use f in \<open>auto simp: mm_stepD(8,9) [OF s1, unfolded i'(1) i2] i'(1) i2\<close>)
qed

lemma alloc_frame_rec_none:
  assumes "tab st (f div 1024) \<noteq> 0" "frame (pg st f) = 0"
  defines "p \<equiv> tab st (f div 1024) + 4 * (f mod 1024)"
  shows "alloc_frame_rec (Suc n) p k w st =
    bindR (first_frame st) (\<lambda>i. alloc_frame_rec n p k w (take_first p i st))"
  using assms(2) unfolding p_def by (simp add: page_at_pte [OF assms(1)] Let_def take_first_def)

lemma whole_words: "g < 32 * (n div 32) \<Longrightarrow> g < (n::nat)"
  by (meson div_times_less_eq_dividend leD le_less_linear less_le_trans mult.commute times_div_less_eq_dividend)

lemma alloc_frame_rec_nonzero:
  assumes st: "mm_layout st" and f: "f < 1048576" and t: "tab st (f div 1024) \<noteq> 0" and e: "frame (pg st f) = 0"
    and u: "used st 0" and free: "g < 32 * (nframes st div 32)" "\<not> used st g"
  defines "p \<equiv> tab st (f div 1024) + 4 * (f mod 1024)"
  shows "\<exists>h st'. alloc_frame_rec (Suc (Suc n)) p k w st = Inr st' \<and> 0 < h \<and> h < nframes st \<and> \<not> used st h \<and>
    mm_step st ((pg st)(f := dma_entry k w (0x1000 * h) (pg st f))) (\<lambda>g. g = h \<or> used st g) st'"
proof -
  obtain h where h: "first_frame st = Inr h" "h < 32 * (nframes st div 32)" "\<not> used st h"
    using first_frame_free [OF free] by blast
  have hn: "h < nframes st" using whole_words h(2) by blast
  have h0: "0 < h" using u h(3) by (cases h) auto
  note s1 = take_first_step [OF st f t hn, folded p_def]
  have td: "f div 1024 < 1024" using f by (simp add: less_mult_imp_div_less)
  have t1: "tab (take_first p h st) (f div 1024) = tab st (f div 1024)" by (rule mm_stepD(10) [OF s1 td t])
  have e1: "pg (take_first p h st) f = (pg st f)\<lparr>frame := h\<rparr>" using mm_stepD(8) [OF s1 f] by simp
  obtain st' where st': "alloc_frame_rec (Suc n) p k w (take_first p h st) = Inr st'"
    and s2: "mm_step (take_first p h st) ((pg (take_first p h st))(f := dma_entry k w (0x1000 * h)
      ((pg st f)\<lparr>frame := h\<rparr>))) (used (take_first p h st)) st'"
    using alloc_frame_rec_has [OF mm_stepD(1) [OF s1] f, unfolded t1, OF t, of n k w, folded p_def] h0
    unfolding e1 by auto
  have "alloc_frame_rec (Suc (Suc n)) p k w st = Inr st'"
    using alloc_frame_rec_none [OF t e, of "Suc n" k w, folded p_def] h(1) st' by simp
  moreover have "mm_step st ((pg st)(f := dma_entry k w (0x1000 * h) (pg st f))) (\<lambda>g. g = h \<or> used st g) st'"
    by (rule mm_step_cong [OF mm_step_trans [OF s1 s2]])
      (auto simp: mm_stepD(8,9) [OF s1] dma_entry_def)
  ultimately show ?thesis using h0 hn h(3) by blast
qed

text \<open>Three rounds are enough: the first may take the unusable frame 0.\<close>

lemma alloc_frame_ok:
  assumes st: "mm_layout st" and f: "f < 1048576" and t: "tab st (f div 1024) \<noteq> 0" and e: "frame (pg st f) = 0"
    and free: "0 < g" "g < 32 * (nframes st div 32)" "\<not> used st g"
  defines "p \<equiv> tab st (f div 1024) + 4 * (f mod 1024)"
  shows "\<exists>h st'. alloc_frame p k w st = Inr st' \<and> 0 < h \<and> h < nframes st \<and> \<not> used st h \<and>
    mm_step st ((pg st)(f := dma_entry k w (0x1000 * h) (pg st f))) (\<lambda>g. g = h \<or> g = 0 \<or> used st g) st'"
proof -
  have three: "alloc_frame p k w st = alloc_frame_rec (Suc (Suc (Suc 0))) p k w st"
    by (simp add: alloc_frame_def numeral_3_eq_3)
  show ?thesis
  proof (cases "used st 0")
    case True
    obtain h st' where "alloc_frame p k w st = Inr st'" "0 < h" "h < nframes st" "\<not> used st h"
      and s: "mm_step st ((pg st)(f := dma_entry k w (0x1000 * h) (pg st f))) (\<lambda>g. g = h \<or> used st g) st'"
      using alloc_frame_rec_nonzero [OF st f t e True free(2,3), folded p_def] unfolding three by blast
    moreover have "mm_step st ((pg st)(f := dma_entry k w (0x1000 * h) (pg st f))) (\<lambda>g. g = h \<or> g = 0 \<or> used st g) st'"
      by (rule mm_step_cong [OF s]) (use True in auto)
    ultimately show ?thesis by blast
  next
    case False
    have n0: "0 < nframes st" using whole_words [OF free(2)] by linarith
    have "0 < 32 * (nframes st div 32)" using free(2) by linarith
    from first_frame_free [OF this False] have ff: "first_frame st = Inr 0" using False by (auto simp: neq0_conv)
    let ?s1 = "take_first p 0 st"
    note s1 = take_first_step [OF st f t n0, folded p_def]
    have td: "f div 1024 < 1024" using f by (simp add: less_mult_imp_div_less)
    have t1: "tab ?s1 (f div 1024) = tab st (f div 1024)" by (rule mm_stepD(10) [OF s1 td t])
    have e1: "pg ?s1 f = pg st f" using mm_stepD(8) [OF s1 f] e by simp
    have gn: "g < nframes st" by (rule whole_words [OF free(2)])
    have n1: "nframes ?s1 = nframes st" by (rule mm_stepD(3) [OF s1])
    have u: "used ?s1 0" "\<not> used ?s1 g" using mm_stepD(9) [OF s1] n0 gn free by auto
    have e': "frame (pg ?s1 f) = 0" and g': "g < 32 * (nframes ?s1 div 32)" using e e1 free(2) n1 by simp_all
    have "\<exists>h st'. alloc_frame_rec (Suc (Suc 0)) p k w ?s1 = Inr st' \<and> 0 < h \<and> h < nframes ?s1 \<and> \<not> used ?s1 h \<and>
        mm_step ?s1 ((pg ?s1)(f := dma_entry k w (0x1000 * h) (pg ?s1 f))) (\<lambda>g. g = h \<or> used ?s1 g) st'"
      by (rule alloc_frame_rec_nonzero [OF mm_stepD(1) [OF s1] f, unfolded t1, OF t e' u(1) g' u(2), folded p_def])
    then obtain h st' where st': "alloc_frame_rec (Suc (Suc 0)) p k w ?s1 = Inr st'" "0 < h" "h < nframes ?s1" "\<not> used ?s1 h"
      and s2: "mm_step ?s1 ((pg ?s1)(f := dma_entry k w (0x1000 * h) (pg ?s1 f))) (\<lambda>g. g = h \<or> used ?s1 g) st'"
      by blast
    have "alloc_frame p k w st = Inr st'"
      unfolding three using alloc_frame_rec_none [OF t e, of "Suc (Suc 0)" k w, folded p_def] ff st'(1) by simp
    moreover have "mm_step st ((pg st)(f := dma_entry k w (0x1000 * h) (pg st f))) (\<lambda>g. g = h \<or> g = 0 \<or> used st g) st'"
      by (rule mm_step_cong [OF mm_step_trans [OF s1 s2]]) (use e1 e in \<open>auto simp: mm_stepD(8,9) [OF s1]\<close>)
    moreover have "\<not> used st h" using st'(4) mm_stepD(9) [OF s1, of h] st'(3) n1 by auto
    ultimately show ?thesis using st'(2,3) n1 by auto
  qed
qed

lemma free_frame_step:
  assumes st: "mm_layout st" and f: "f < 1048576" and t: "tab st (f div 1024) \<noteq> 0"
    and e: "frame (pg st f) \<noteq> 0" "frame (pg st f) < nframes st"
  shows "\<exists>st'. free_frame (tab st (f div 1024) + 4 * (f mod 1024)) st = Inr st' \<and>
    mm_step st ((pg st)(f := (pg st f)\<lparr>frame := 0\<rparr>)) (\<lambda>g. g \<noteq> frame (pg st f) \<and> used st g) st'"
proof -
  let ?h = "frame (pg st f)" and ?p = "tab st (f div 1024) + 4 * (f mod 1024)"
  have n: "nframes st < 1048576" using st by (rule mm_layoutD)
  have i: "mul32 ?h 0x1000 = ?h * 0x1000" using e n by (simp add: arith32)
  have i2: "?h * 0x1000 div 0x1000 = ?h" by simp
  have td: "f div 1024 < 1024" using f by (simp add: less_mult_imp_div_less)
  let ?s1 = "clear_frame (mul32 ?h 0x1000) st"
  have s1: "mm_step st (pg st) (\<lambda>g. g \<noteq> ?h \<and> used st g) ?s1"
    using clear_frame_step [OF st, of "mul32 ?h 0x1000", unfolded i i2] e by (simp only: i)
  have t1: "tab ?s1 (f div 1024) = tab st (f div 1024)" by (rule mm_stepD(10) [OF s1 td t])
  have e1: "page_at (mem ?s1) ?p = pg st f"
    using page_at_pte [of ?s1 f] t t1 mm_stepD(8) [OF s1 f] by simp
  have "page_wf ((pg st f)\<lparr>frame := 0\<rparr>)" by (rule page_wf_update) auto
  note s2 = write_page_step [OF mm_stepD(1) [OF s1] f, unfolded t1, OF t this]
  have "free_frame ?p st = Inr (?s1\<lparr>mem := page_store (mem ?s1) ?p ((pg st f)\<lparr>frame := 0\<rparr>)\<rparr>)"
    using e(1) e1 by (simp add: free_frame_def page_at_pte [OF t] Let_def)
  moreover have "mm_step st ((pg st)(f := (pg st f)\<lparr>frame := 0\<rparr>)) (\<lambda>g. g \<noteq> ?h \<and> used st g)
      (?s1\<lparr>mem := page_store (mem ?s1) ?p ((pg st f)\<lparr>frame := 0\<rparr>)\<rparr>)"
    by (rule mm_step_cong [OF mm_step_trans [OF s1 s2]]) (use f in \<open>auto simp: mm_stepD(8,9) [OF s1]\<close>)
  ultimately show ?thesis by blast
qed


text \<open>
  C32. Allocating a frame for an unmapped page and freeing it again restores the set of used frames
  (frame 0, which the allocator discards, becomes used) and every other page; the freed entry loses its
  frame number and keeps its present bit.
\<close>

theorem alloc_free_frame_roundtrip:
  assumes "mm_layout st" "f < 1048576" "tab st (f div 1024) \<noteq> 0" "frame (pg st f) = 0"
    and "0 < g" "g < 32 * (nframes st div 32)" "\<not> used st g"
  defines "p \<equiv> tab st (f div 1024) + 4 * (f mod 1024)"
  shows "\<exists>st1 st2. alloc_frame p k w st = Inr st1 \<and> present (pg st1 f) = 1 \<and>
    frame (pg st1 f) \<noteq> 0 \<and> \<not> used st (frame (pg st1 f)) \<and> used st1 (frame (pg st1 f)) \<and>
    free_frame p st1 = Inr st2 \<and> mm_layout st2 \<and>
    (\<forall>g<nframes st. used st2 g \<longleftrightarrow> g = 0 \<or> used st g) \<and>
    (\<forall>q<1048576. q \<noteq> f \<longrightarrow> pg st2 q = pg st q) \<and> frame (pg st2 f) = 0 \<and> present (pg st2 f) = 1"
proof -
  obtain h st1 where st1: "alloc_frame p k w st = Inr st1" "0 < h" "h < nframes st" "\<not> used st h"
    and s1: "mm_step st ((pg st)(f := dma_entry k w (0x1000 * h) (pg st f))) (\<lambda>g. g = h \<or> g = 0 \<or> used st g) st1"
    using alloc_frame_ok [OF assms(1-7), folded p_def] by blast
  have td: "f div 1024 < 1024" using assms(2) by (simp add: less_mult_imp_div_less)
  have t1: "tab st1 (f div 1024) = tab st (f div 1024)" by (rule mm_stepD(10) [OF s1 td assms(3)])
  have f1: "frame (pg st1 f) = h" "present (pg st1 f) = 1" using mm_stepD(8) [OF s1 assms(2)] by (simp_all add: dma_entry_def)
  have "frame (pg st1 f) \<noteq> 0" "frame (pg st1 f) < nframes st1" using st1(2,3) mm_stepD(3) [OF s1] f1 by simp_all
  from free_frame_step [OF mm_stepD(1) [OF s1] assms(2), unfolded t1, OF assms(3) this, folded p_def]
  obtain st2 where st2: "free_frame p st1 = Inr st2"
    and s2: "mm_step st1 ((pg st1)(f := (pg st1 f)\<lparr>frame := 0\<rparr>)) (\<lambda>g. g \<noteq> h \<and> used st1 g) st2"
    unfolding f1(1) by blast
  have u2: "used st2 g \<longleftrightarrow> g = 0 \<or> used st g" if "g < nframes st" for g
    using mm_stepD(9) [OF mm_step_trans [OF s1 s2] that] mm_stepD(9) [OF s1 that] st1(2,4) by auto
  have p2: "pg st2 q = (if q = f then (pg st1 f)\<lparr>frame := 0\<rparr> else pg st q)" if "q < 1048576" for q
    using mm_stepD(8) [OF mm_step_trans [OF s1 s2] that] mm_stepD(8) [OF s1 that] by auto
  show ?thesis
    using st1 st2 f1 u2 p2 assms(2) mm_stepD(1) [OF s2] mm_stepD(9) [OF s1 st1(3)] by auto
qed

text \<open>
  After \<open>alloc_dma_frame(get_page(a, 1, kernel_dir), k, w, a)\<close> the table walk maps every address of
  the page of \<open>a\<close> to itself and every address of another page that had a table as before.
\<close>

theorem map_identity_walk:
  assumes "mm_layout st" "a < W32" "table_room st a" "current_directory st = kernel_dir st"
  shows "\<exists>st'. map_identity True k w a st = Inr st' \<and> mm_layout st' \<and>
    (\<forall>b<W32. b div 0x1000 = a div 0x1000 \<longrightarrow> virtual_to_physical b st' = b) \<and>
    (\<forall>b<W32. b div 0x1000 \<noteq> a div 0x1000 \<and> tab st (b div 0x1000 div 1024) \<noteq> 0 \<longrightarrow>
       virtual_to_physical b st' = virtual_to_physical b st)"
proof -
  obtain st' where st': "map_identity True k w a st = Inr st'"
    and s: "mm_step st ((pg st)(a div 0x1000 := dma_entry k w a (pg st (a div 0x1000))))
      (\<lambda>g. g = a div 0x1000 \<or> used st g) st'" and t: "tab st' (a div 0x1000 div 1024) \<noteq> 0"
    using map_identity_step [OF assms(1-3)] by blast
  have walk: "virtual_to_physical b s = add32 (mul32 (frame (pg s (b div 0x1000))) 0x1000) (b mod 0x1000)"
    if "tab s (b div 0x1000 div 1024) \<noteq> 0" "current_directory s = kernel_dir s" for b and s :: "'a mm_state_scheme"
    using page_at_pte [OF that(1)] that by (simp add: virtual_to_physical_def Let_def)
  have cd: "current_directory st' = kernel_dir st'" using mm_stepD(2,6) [OF s] assms(4) by simp
  have small: "b div 0x1000 < 1048576" "b div 0x1000 div 1024 < 1024" if "b < W32" for b
    using that by (simp_all add: div_less_iff_less_mult)
  have "virtual_to_physical b st' = b" if b: "b < W32" "b div 0x1000 = a div 0x1000" for b
  proof -
    have "frame (pg st' (b div 0x1000)) = b div 0x1000"
      using mm_stepD(8) [OF s small(1) [OF b(1)]] b(2) by (simp add: dma_entry_def)
    moreover have "b div 0x1000 * 0x1000 + b mod 0x1000 = b" by (rule div_mult_mod_eq)
    moreover have "b div 0x1000 * 0x1000 < W32" using b(1) div_times_less_eq_dividend [of b "0x1000"] by linarith
    ultimately show ?thesis using walk [OF _ cd, of b] t b by (simp add: arith32)
  qed
  moreover have "virtual_to_physical b st' = virtual_to_physical b st"
    if b: "b < W32" "b div 0x1000 \<noteq> a div 0x1000" "tab st (b div 0x1000 div 1024) \<noteq> 0" for b
  proof -
    have "tab st' (b div 0x1000 div 1024) \<noteq> 0"
      using mm_stepD(10) [OF s small(2) [OF b(1)] b(3)] b(3) by simp
    moreover have "pg st' (b div 0x1000) = pg st (b div 0x1000)" using mm_stepD(8) [OF s small(1) [OF b(1)]] b(2) by simp
    ultimately show ?thesis using walk [OF _ cd] walk [OF b(3) assms(4)] by simp
  qed
  ultimately show ?thesis using st' mm_stepD(1) [OF s] by blast
qed

section \<open>Setting up paging\<close>




























section \<open>The bitmap and the directory at boot\<close>

lemma used_byte: "used s g \<longleftrightarrow> bit (ld8 (mem s) (frames s + g div 8)) (g mod 8)"
proof -
  have "4 * (g div 32) + g mod 32 div 8 = g div 8" "g mod 32 mod 8 = g mod 8"
    using div_mult2_eq [of g 8 4] mod_mult2_eq [of g 8 4] by (simp_all add: mod_mod_cancel)
  then show ?thesis
    unfolding used_def frame_word_def by (simp add: bit_ld32 add.assoc)
qed

lemma init_paging_run:
  assumes "frames st = 0" "\<not> heap_online st" "4096 \<le> plp st" "plp st + kb + 16384 < W32"
    and "128 \<le> kb" "kb < 4194304"
  shows "\<exists>st'. init_paging nm kb st = Inr st' \<and> mm_layout st' \<and> nframes st' = kb div 4 \<and>
    frames st' = plp st \<and> same_on (- {plp st..<plp st + kb + 16384}) (mem st) (mem st') \<and>
    (\<forall>t<1024. tab st' t = 0) \<and>
    (\<forall>g<kb div 4. used st' g \<longleftrightarrow>
       8 * (kb div 4 div 32) \<le> g \<and> bit (ld8 (mem st) (plp st + g div 8)) (g mod 8))"
proof -
  define n where "n = kb div 4"
  have n: "32 \<le> n" "n < 1048576" "n \<le> kb" using assms(5,6) by (simp_all add: n_def div_less_iff_less_mult)
  define q where "q = plp st + n div 4"
  define kd where "kd = q - q mod 4096 + 4096"
  have q: "plp st + n div 4 \<le> q" "4096 \<le> q" "q + 4096 + 8196 < W32" using assms(3,4) n by (simp_all add: q_def)
  have kd: "q < kd" "kd \<le> q + 4096" unfolding kd_def using mod_less_divisor [of 4096 q] by linarith+
  have n4: "mul32 n 8 div 32 = n div 4" using n(2) by (simp add: arith32)
  let ?st1 = "st\<lparr>nframes := n, plp := q\<rparr>"
  let ?m1 = "memset (plp st) 0 (n div 32) (mem st)"
  let ?m2 = "memset kd 0 8196 ?m1"
  let ?st' = "st\<lparr>nframes := n, plp := kd + 8196, frames := plp st, kernel_dir := kd, mem := ?m2\<rparr>"
  have "plp st + n div 4 < W32" using assms(4) n by linarith
  then have k1: "kmalloc nm (mul32 n 8 div 32) (st\<lparr>nframes := n\<rparr>) = Inr (plp st, ?st1)"
    unfolding n4 using kmalloc_offline [of "st\<lparr>nframes := n\<rparr>" "n div 4" nm] assms(2) by (simp add: q_def)
  have k2: "kvmalloc_p 8196 (?st1\<lparr>frames := plp st, mem := ?m1\<rparr>) =
      Inr (kd, kd, ?st1\<lparr>frames := plp st, mem := ?m1, plp := kd + 8196\<rparr>)"
    using kvmalloc_p_placement [of "?st1\<lparr>frames := plp st, mem := ?m1\<rparr>" 8196] assms(2) q by (simp add: kd_def)
  have run: "init_paging nm kb st = Inr ?st'"
    using assms(1) unfolding init_paging_def set_nframes_def n_def [symmetric] k1 by (simp add: k2 Let_def)
  have tab: "tab ?st' t = 0" if "t < 1024" for t
    using that by (simp add: dir_table_def ld32_def ld8_def memset_apply)
  have size: "bitmap_size ?st' \<le> n div 4"
  proof -
    have "(n + 31) div 32 \<le> n div 32 + 1" "1 \<le> n div 32" using n(1) by (simp_all add: less_eq_div_iff_mult_less_eq div_le_mono)
    moreover have "8 * (n div 32) \<le> n div 4" by (simp add: less_eq_div_iff_mult_less_eq)
    ultimately show ?thesis unfolding bitmap_size_def by simp
  qed
  have "mm_layout ?st'"
    unfolding mm_layout_def using size q kd n tab assms(3) by (simp add: apart_def bitmap_size_def)
  moreover have "used ?st' g \<longleftrightarrow> 8 * (n div 32) \<le> g \<and> bit (ld8 (mem st) (plp st + g div 8)) (g mod 8)" if "g < n" for g
  proof -
    have "g div 8 \<le> n div 4" using that div_le_mono [of g n 8] div_le_mono2 [of 4 8 n] by simp
    then have "plp st + g div 8 < kd" using kd q by linarith
    moreover have "g div 8 < n div 32 \<longleftrightarrow> g < 8 * (n div 32)" by (simp add: div_less_iff_less_mult mult.commute)
    ultimately have "ld8 ?m2 (plp st + g div 8) = (if g < 8 * (n div 32) then 0 else ld8 (mem st) (plp st + g div 8))"
      by (simp add: ld8_def memset_apply)
    then show ?thesis by (simp add: used_byte not_less)
  qed
  moreover have "same_on (- {plp st..<plp st + kb + 16384}) (mem st) ?m2"
  proof -
    have "kd + 8196 \<le> plp st + kb + 16384" "plp st + n div 32 \<le> plp st + kb + 16384" using kd(2) n(3) by (simp_all add: q_def)
    then show ?thesis using q(1) kd(1) by (auto simp: same_on_def memset_apply)
  qed
  ultimately show ?thesis using run tab by (auto simp: n_def)
qed

text \<open>
  \<open>init_paging\<close> sets up the layout that the rest of the memory manager relies on, with an empty
  directory. It clears only the first quarter of the bitmap it allocated and uses: the frames from
  \<open>8 * (n div 32)\<close> on start as used or free according to what lay in memory.
\<close>

theorem init_paging_layout:
  assumes "frames st = 0" "\<not> heap_online st" "4096 \<le> plp st" "plp st + kb + 16384 < W32"
    and "128 \<le> kb" "kb < 4194304"
  shows "\<exists>st'. init_paging nm kb st = Inr st' \<and> mm_layout st' \<and> nframes st' = kb div 4 \<and>
    (\<forall>t<1024. tab st' t = 0) \<and>
    (\<forall>g<kb div 4. used st' g \<longleftrightarrow>
       8 * (kb div 4 div 32) \<le> g \<and> bit (ld8 (mem st) (plp st + g div 8)) (g mod 8))"
  using init_paging_run [OF assms, of nm] by blast

section \<open>A concrete machine\<close>

lemma small_mm_tab [simp]: "dir_table (mem small_mm) 0x60000 t = (if t = 0 then 0x70000 else 0)"
  using apart_words [of 0 t "0x61000"] by (simp add: small_mm_def dir_table_def mem_simps)

lemma small_mm_layout [simp]: "mm_layout small_mm"
  by (simp add: mm_layout_def bitmap_size_def apart_def)

lemma small_mm_pg [simp]: "g < 1024 \<Longrightarrow> pg small_mm g = page_decode 0"
  by (simp add: pg_def pte_def) (simp add: small_mm_def ld32_st32_other)

text \<open>The small machine once frames 0 and 2 are taken: the first run of two free frames is 3, 4.\<close>

definition holed_mm :: mm_state where
  "holed_mm = set_frame 0x2000 (set_frame 0 small_mm)"

lemma holed_mm_facts:
  "mm_layout holed_mm" "nframes holed_mm = 64" "t < 1024 \<Longrightarrow> tab holed_mm t = tab small_mm t"
  "g < 64 \<Longrightarrow> used holed_mm g \<longleftrightarrow> g = 0 \<or> g = 2"
proof -
  note s1 = set_frame_step [OF small_mm_layout, of 0, simplified]
  have "mm_step (set_frame 0 small_mm) (pg (set_frame 0 small_mm))
      (\<lambda>g. g = 2 \<or> used (set_frame 0 small_mm) g) holed_mm"
    using set_frame_step [OF mm_stepD(1) [OF s1], of "0x2000"] mm_stepD(3) [OF s1] by (simp add: holed_mm_def)
  note s2 = mm_step_trans [OF s1 this]
  show "mm_layout holed_mm" "nframes holed_mm = 64" using mm_stepD(1,3) [OF s2] by simp_all
  show "tab holed_mm t = tab small_mm t" if "t < 1024"
    using that by (simp add: holed_mm_def set_frame_def Let_def small_mm_def dir_table_def mem_simps)
  show "used holed_mm g \<longleftrightarrow> g = 0 \<or> g = 2" if "g < 64"
    using that by (auto simp: holed_mm_def used_set_frame)
qed

theorem mm_alloc_pages_run_witness:
  "\<exists>st'. mm_alloc_pages 2 holed_mm = Inr (0x3000, st') \<and> mm_layout st' \<and> used st' 4 \<and> \<not> used st' 5 \<and> frame (pg st' 4) = 4"
proof -
  have "\<forall>i<3. \<exists>j<2. used holed_mm (i + j)" "\<forall>j<2. \<not> used holed_mm (3 + j)"
    by (auto simp: holed_mm_facts numeral_3_eq_3 less_Suc_eq intro: exI [of _ 0] exI [of _ "Suc 0"])
  moreover have "\<forall>g<64. tab holed_mm (g div 1024) \<noteq> 0" by (auto simp: holed_mm_facts)
  ultimately show ?thesis
    using mm_alloc_pages_run [of holed_mm 2 3] by (auto simp: holed_mm_facts)
qed

theorem mm_alloc_pages_exhausted_witness:
  "mm_alloc_pages 1 (small_mm\<lparr>nframes := 0\<rparr>) = Inr (0xFFFFF000, small_mm\<lparr>nframes := 0\<rparr>)"
  by (rule mm_alloc_pages_exhausted) simp_all

theorem alloc_free_frame_roundtrip_witness:
  "\<exists>st1 st2. alloc_frame (0x70000 + 4 * 5) True False small_mm = Inr st1 \<and>
     free_frame (0x70000 + 4 * 5) st1 = Inr st2 \<and> (\<forall>g<64. used st2 g \<longleftrightarrow> g = 0)"
  using alloc_free_frame_roundtrip [of small_mm 5 1 True False] by (auto simp: page_decode_def)

theorem map_identity_walk_witness:
  "\<exists>st'. map_identity True True False 0x5000 small_mm = Inr st' \<and> virtual_to_physical 0x5123 st' = 0x5123"
  using map_identity_walk [of small_mm "0x5000" True False] by (auto simp: table_room_def)




theorem init_paging_layout_witness:
  "\<exists>st'. init_paging (\<lambda>_ _. Inl Hang) 256 (small_mm\<lparr>frames := 0\<rparr>) = Inr st' \<and> mm_layout st' \<and> nframes st' = 64"
  using init_paging_layout [of "small_mm\<lparr>frames := 0\<rparr>" 256 "\<lambda>_ _. Inl Hang"] by auto

end
