(* ===== verification/Heap.thy ===== *)
theory Heap
  imports Page
begin

text \<open>
  mm/heap.c: the liballoc heap behind \<open>kmalloc\<close>. Its block and chunk headers lie in the byte memory
  and are linked by addresses, as in the code; the variables of the file extend the state of the
  memory manager. This theory holds the code, its invariant and proofs are in the theories after it.
\<close>

section \<open>State and headers\<close>

record heap_state = mm_state +
  heap_lock :: nat
  l_memRoot :: nat
  l_bestBet :: nat
  l_allocated :: nat
  l_inuse :: nat
  l_warningCount :: nat
  l_errorCount :: nat
  l_possibleOverruns :: nat

abbreviation (input) ALIGNMENT :: nat where "ALIGNMENT \<equiv> 16"
abbreviation (input) ALIGN_INFO :: nat where "ALIGN_INFO \<equiv> 16"
abbreviation (input) LIBALLOC_MAGIC :: nat where "LIBALLOC_MAGIC \<equiv> 0xc001c0de"
abbreviation (input) LIBALLOC_DEAD :: nat where "LIBALLOC_DEAD \<equiv> 0xdeaddead"
abbreviation (input) l_pageSize :: nat where "l_pageSize \<equiv> 4096"
abbreviation (input) l_pageCount :: nat where "l_pageCount \<equiv> 16"

text \<open>
  The offsets of the fields of \<open>struct liballoc_major\<close> (\<open>prev\<close>, \<open>next\<close>, \<open>pages\<close>, \<open>size\<close>, \<open>usage\<close>,
  \<open>first\<close>) and of \<open>struct liballoc_minor\<close> (\<open>prev\<close>, \<open>next\<close>, \<open>block\<close>, \<open>magic\<close>, \<open>size\<close>, \<open>req_size\<close>);
  both take 24 bytes.
\<close>

abbreviation (input) of_prev :: nat where "of_prev \<equiv> 0"
abbreviation (input) of_next :: nat where "of_next \<equiv> 4"
abbreviation (input) maj_pages :: nat where "maj_pages \<equiv> 8"
abbreviation (input) maj_size :: nat where "maj_size \<equiv> 12"
abbreviation (input) maj_usage :: nat where "maj_usage \<equiv> 16"
abbreviation (input) maj_first :: nat where "maj_first \<equiv> 20"
abbreviation (input) min_block :: nat where "min_block \<equiv> 8"
abbreviation (input) min_magic :: nat where "min_magic \<equiv> 12"
abbreviation (input) min_size :: nat where "min_size \<equiv> 16"
abbreviation (input) min_req_size :: nat where "min_req_size \<equiv> 20"
abbreviation (input) sizeof_major :: nat where "sizeof_major \<equiv> 24"
abbreviation (input) sizeof_minor :: nat where "sizeof_minor \<equiv> 24"

text \<open>\<open>rd st a\<close> is the word at \<open>a\<close>, \<open>wr a v st\<close> stores \<open>v\<close> there.\<close>

definition rd :: "'a mm_state_scheme \<Rightarrow> nat \<Rightarrow> nat" where
  "rd st a = ld32 (mem st) a"

definition wr :: "nat \<Rightarrow> nat \<Rightarrow> 'a mm_state_scheme \<Rightarrow> 'a mm_state_scheme" where
  "wr a v st = st\<lparr>mem := st32 (mem st) a v\<rparr>"

section \<open>Lock, alignment and copying\<close>

definition liballoc_lock :: "heap_state \<Rightarrow> heap_state outcome" where
  "liballoc_lock st =
     (if heap_lock st = 1 then Inl (Panic ''liballoc lock is acquired!!!!!!'') else Inr (st\<lparr>heap_lock := 1\<rparr>))"

definition liballoc_unlock :: "heap_state \<Rightarrow> heap_state outcome" where
  "liballoc_unlock st =
     (if heap_lock st \<noteq> 1 then Inl (Panic ''liballoc locking inconsistency!'') else Inr (st\<lparr>heap_lock := 0\<rparr>))"

definition liballoc_alloc :: "nat \<Rightarrow> heap_state \<Rightarrow> (nat \<times> heap_state) outcome" where
  "liballoc_alloc pages st = mm_alloc_pages pages st"

definition liballoc_free :: "nat \<Rightarrow> nat \<Rightarrow> heap_state \<Rightarrow> heap_state outcome" where
  "liballoc_free ptr pages st = mm_free_pages ptr pages st"

text \<open>
  The macro \<open>ALIGN\<close> moves the pointer past 16 bytes of alignment information, then up to a multiple
  of 16, and records the distance in the byte 16 below.
\<close>

definition ALIGN :: "nat \<Rightarrow> heap_state \<Rightarrow> nat \<times> heap_state" where
  "ALIGN ptr st =
     (let p1 = add32 ptr ALIGN_INFO;
          diff = p1 AND (ALIGNMENT - 1);
          diff' = (if diff \<noteq> 0 then ALIGNMENT - diff else diff);
          p2 = (if diff \<noteq> 0 then add32 p1 diff' else p1)
      in (p2, st\<lparr>mem := st8 (mem st) (sub32 p2 ALIGN_INFO) (diff' + ALIGN_INFO)\<rparr>))"

text \<open>\<open>UNALIGN\<close> reads that byte as a (signed) \<open>char\<close>, widened to \<open>uintptr_t\<close>.\<close>

definition UNALIGN :: "nat \<Rightarrow> mem \<Rightarrow> nat" where
  "UNALIGN ptr m =
     (let c = ld8 m (sub32 ptr ALIGN_INFO);
          diff = (if c < 128 then c else W32 - 256 + c)
      in if diff < ALIGNMENT + ALIGN_INFO then sub32 ptr diff else ptr)"

primrec liballoc_memset :: "nat \<Rightarrow> u8 \<Rightarrow> nat \<Rightarrow> mem \<Rightarrow> mem" where
  "liballoc_memset s c 0 m = m"
| "liballoc_memset s c (Suc n) m = (liballoc_memset s c n m)(s + n := c)"

text \<open>The word loop of \<open>liballoc_memcpy\<close>, then its byte loop.\<close>

primrec liballoc_words :: "nat \<Rightarrow> nat \<Rightarrow> nat \<Rightarrow> mem \<Rightarrow> mem" where
  "liballoc_words d s 0 m = m"
| "liballoc_words d s (Suc n) m = liballoc_words (d + 4) (s + 4) n (st32 m d (ld32 m s))"

primrec liballoc_bytes :: "nat \<Rightarrow> nat \<Rightarrow> nat \<Rightarrow> mem \<Rightarrow> mem" where
  "liballoc_bytes d s 0 m = m"
| "liballoc_bytes d s (Suc n) m = liballoc_bytes (Suc d) (Suc s) n (m(d := m s))"

definition liballoc_memcpy :: "nat \<Rightarrow> nat \<Rightarrow> nat \<Rightarrow> mem \<Rightarrow> mem" where
  "liballoc_memcpy s1 s2 n m =
     liballoc_bytes (s1 + 4 * (n div 4)) (s2 + 4 * (n div 4)) (n mod 4) (liballoc_words s1 s2 (n div 4) m)"

section \<open>Blocks from the system\<close>

definition heap_install :: "heap_state \<Rightarrow> heap_state" where
  "heap_install st = st\<lparr>heap_online := True\<rparr>"

text \<open>The number of pages of a new block.\<close>

definition block_pages :: "nat \<Rightarrow> nat" where
  "block_pages sz =
     (let st = add32 (add32 sz sizeof_major) sizeof_minor;
          st = (if st mod l_pageSize = 0 then st div l_pageSize else st div l_pageSize + 1)
      in if st < l_pageCount then l_pageCount else st)"

definition allocate_new_page :: "nat \<Rightarrow> heap_state \<Rightarrow> (nat \<times> heap_state) outcome" where
  "allocate_new_page sz st0 =
     (let st = block_pages sz
      in bindR (liballoc_alloc st st0) (\<lambda>(maj, st1).
         if maj = 0 then Inr (0, st1\<lparr>l_warningCount := l_warningCount st1 + 1\<rparr>)
         else let st2 = wr (maj + of_prev) 0 st1;
                  st3 = wr (maj + of_next) 0 st2;
                  st4 = wr (maj + maj_pages) st st3;
                  st5 = wr (maj + maj_size) (mul32 st l_pageSize) st4;
                  st6 = wr (maj + maj_usage) sizeof_major st5;
                  st7 = wr (maj + maj_first) 0 st6
              in Inr (maj, st7\<lparr>l_allocated := add64 (l_allocated st7) (rd st7 (maj + maj_size))\<rparr>)))"

section \<open>malloc\<close>

text \<open>The statements all cases share: charge the chunk to its block and to \<open>l_inuse\<close>.\<close>

definition charge :: "nat \<Rightarrow> nat \<Rightarrow> heap_state \<Rightarrow> heap_state" where
  "charge maj sz st =
     (let st1 = wr (maj + maj_usage) (add32 (rd st (maj + maj_usage)) (add32 sz sizeof_minor)) st
      in st1\<lparr>l_inuse := add64 (l_inuse st1) sz\<rparr>)"

text \<open>CASE 2: a brand new block.\<close>

definition malloc_case2 :: "nat \<Rightarrow> nat \<Rightarrow> nat \<Rightarrow> heap_state \<Rightarrow> (nat \<times> heap_state) outcome" where
  "malloc_case2 sz req_size maj st =
     (let first = add32 maj sizeof_major;
          st1 = wr (maj + maj_first) first st;
          st2 = wr (first + min_magic) LIBALLOC_MAGIC st1;
          st3 = wr (first + of_prev) 0 st2;
          st4 = wr (first + of_next) 0 st3;
          st5 = wr (first + min_block) maj st4;
          st6 = wr (first + min_size) sz st5;
          st7 = wr (first + min_req_size) req_size st6;
          st8 = charge maj sz st7;
          (p, st9) = ALIGN (add32 first sizeof_minor) st8;
          st10 = st9\<lparr>mem := memset p 0 req_size (mem st9)\<rparr>
      in bindR (liballoc_unlock st10) (\<lambda>st11. Inr (p, st11)))"

text \<open>CASE 3: room before the first chunk.\<close>

definition malloc_case3 :: "nat \<Rightarrow> nat \<Rightarrow> nat \<Rightarrow> heap_state \<Rightarrow> (nat \<times> heap_state) outcome" where
  "malloc_case3 sz req_size maj st =
     (let old = rd st (maj + maj_first);
          st1 = wr (old + of_prev) (add32 maj sizeof_major) st;
          new = rd st1 (old + of_prev);
          st2 = wr (new + of_next) old st1;
          st3 = wr (maj + maj_first) new st2;
          st4 = wr (new + min_magic) LIBALLOC_MAGIC st3;
          st5 = wr (new + of_prev) 0 st4;
          st6 = wr (new + min_block) maj st5;
          st7 = wr (new + min_size) sz st6;
          st8 = wr (new + min_req_size) req_size st7;
          st9 = charge maj sz st8;
          (p, st10) = ALIGN (add32 new sizeof_minor) st9;
          st11 = st10\<lparr>mem := memset p 0 req_size (mem st10)\<rparr>
      in bindR (liballoc_unlock st11) (\<lambda>st12. Inr (p, st12)))"

text \<open>CASE 4.1: room after the last chunk. The memory is not cleared here.\<close>

definition malloc_case41 :: "nat \<Rightarrow> nat \<Rightarrow> nat \<Rightarrow> nat \<Rightarrow> heap_state \<Rightarrow> (nat \<times> heap_state) outcome" where
  "malloc_case41 sz req_size maj mi st =
     (let new = add32 (add32 mi sizeof_minor) (rd st (mi + min_size));
          st1 = wr (mi + of_next) new st;
          st2 = wr (new + of_prev) mi st1;
          st3 = wr (new + of_next) 0 st2;
          st4 = wr (new + min_magic) LIBALLOC_MAGIC st3;
          st5 = wr (new + min_block) maj st4;
          st6 = wr (new + min_size) sz st5;
          st7 = wr (new + min_req_size) req_size st6;
          st8 = charge maj sz st7;
          (p, st9) = ALIGN (add32 new sizeof_minor) st8
      in bindR (liballoc_unlock st9) (\<lambda>st10. Inr (p, st10)))"

text \<open>CASE 4.2: room between two chunks. The memory is cleared after the lock is released.\<close>

definition malloc_case42 :: "nat \<Rightarrow> nat \<Rightarrow> nat \<Rightarrow> nat \<Rightarrow> heap_state \<Rightarrow> (nat \<times> heap_state) outcome" where
  "malloc_case42 sz req_size maj mi st =
     (let new = add32 (add32 mi sizeof_minor) (rd st (mi + min_size));
          st1 = wr (new + min_magic) LIBALLOC_MAGIC st;
          st2 = wr (new + of_next) (rd st1 (mi + of_next)) st1;
          st3 = wr (new + of_prev) mi st2;
          st4 = wr (new + min_size) sz st3;
          st5 = wr (new + min_req_size) req_size st4;
          st6 = wr (new + min_block) maj st5;
          st7 = wr (rd st6 (mi + of_next) + of_prev) new st6;
          st8 = wr (mi + of_next) new st7;
          st9 = charge maj sz st8;
          (p, st10) = ALIGN (add32 new sizeof_minor) st9
      in bindR (liballoc_unlock st10) (\<lambda>st11. Inr (p, st11\<lparr>mem := memset p 0 req_size (mem st11)\<rparr>)))"

text \<open>
  CASE 4: the walk over the chunks of a block. The first argument is fuel; a well-formed chunk list
  is shorter (\<open>malloc_walk_ok\<close>).
\<close>

primrec malloc_walk ::
  "nat \<Rightarrow> nat \<Rightarrow> nat \<Rightarrow> nat \<Rightarrow> nat \<Rightarrow> heap_state \<Rightarrow> (nat option \<times> heap_state) outcome" where
  "malloc_walk 0 sz req_size maj mi st = Inl Fuel"
| "malloc_walk (Suc n) sz req_size maj mi st =
     (if mi = 0 then Inr (None, st)
      else if rd st (mi + of_next) = 0
      then let diff = sub32 (sub32 (sub32 (add32 maj (rd st (maj + maj_size))) mi) sizeof_minor) (rd st (mi + min_size))
           in if diff \<ge> add32 sz sizeof_minor
              then bindR (malloc_case41 sz req_size maj mi st) (\<lambda>(p, st'). Inr (Some p, st'))
              else malloc_walk n sz req_size maj (rd st (mi + of_next)) st
      else let diff = sub32 (sub32 (sub32 (rd st (mi + of_next)) mi) sizeof_minor) (rd st (mi + min_size))
           in if diff \<ge> add32 sz sizeof_minor
              then bindR (malloc_case42 sz req_size maj mi st) (\<lambda>(p, st'). Inr (Some p, st'))
              else malloc_walk n sz req_size maj (rd st (mi + of_next)) st)"

text \<open>CASES 2 to 4 on one block.\<close>

definition malloc_in_block ::
  "nat \<Rightarrow> nat \<Rightarrow> nat \<Rightarrow> heap_state \<Rightarrow> (nat option \<times> heap_state) outcome" where
  "malloc_in_block sz req_size maj st =
     (if rd st (maj + maj_first) = 0
      then bindR (malloc_case2 sz req_size maj st) (\<lambda>(p, st'). Inr (Some p, st'))
      else let diff = sub32 (sub32 (rd st (maj + maj_first)) maj) sizeof_major
           in if diff \<ge> add32 sz sizeof_minor
              then bindR (malloc_case3 sz req_size maj st) (\<lambda>(p, st'). Inr (Some p, st'))
              else malloc_walk W32 sz req_size maj (rd st (maj + maj_first)) st)"

text \<open>How one turn of the loop over the blocks ends: return, break, or go on with a block.\<close>

datatype malloc_ctl = Return nat | Break | Continue nat bool nat

text \<open>CASE 5: the block is full; ensure a next one and loop.\<close>

definition malloc_case5 ::
  "nat \<Rightarrow> nat \<Rightarrow> bool \<Rightarrow> nat \<Rightarrow> heap_state \<Rightarrow> (malloc_ctl \<times> heap_state) outcome" where
  "malloc_case5 sz maj startedBet bestSize st =
     (if rd st (maj + of_next) \<noteq> 0 then Inr (Continue (rd st (maj + of_next)) startedBet bestSize, st)
      else if startedBet then Inr (Continue (l_memRoot st) False bestSize, st)
      else bindR (allocate_new_page sz st) (\<lambda>(new, st1).
             let st2 = wr (maj + of_next) new st1
             in if new = 0 then Inr (Break, st2)
                else let st3 = wr (new + of_prev) maj st2
                     in Inr (Continue (rd st3 (maj + of_next)) startedBet bestSize, st3)))"

definition malloc_cases2to5 ::
  "nat \<Rightarrow> nat \<Rightarrow> nat \<Rightarrow> bool \<Rightarrow> nat \<Rightarrow> heap_state \<Rightarrow> (malloc_ctl \<times> heap_state) outcome" where
  "malloc_cases2to5 sz req_size maj startedBet bestSize st =
     bindR (malloc_in_block sz req_size maj st) (\<lambda>(r, st1).
       case r of Some p \<Rightarrow> Inr (Return p, st1)
       | None \<Rightarrow> malloc_case5 sz maj startedBet bestSize st1)"

text \<open>One turn: remember the best block, CASE 1 (not enough space in this block), then the others.\<close>

definition malloc_turn ::
  "nat \<Rightarrow> nat \<Rightarrow> nat \<Rightarrow> bool \<Rightarrow> nat \<Rightarrow> heap_state \<Rightarrow> (malloc_ctl \<times> heap_state) outcome" where
  "malloc_turn sz req_size maj startedBet bestSize0 st0 =
     (let diff = sub32 (rd st0 (maj + maj_size)) (rd st0 (maj + maj_usage));
          st = (if bestSize0 < diff then st0\<lparr>l_bestBet := maj\<rparr> else st0);
          bestSize = (if bestSize0 < diff then diff else bestSize0)
      in if diff < add32 sz sizeof_minor
         then if rd st (maj + of_next) \<noteq> 0 then Inr (Continue (rd st (maj + of_next)) startedBet bestSize, st)
              else if startedBet then Inr (Continue (l_memRoot st) False bestSize, st)
              else bindR (allocate_new_page sz st) (\<lambda>(new, st1).
                     let st2 = wr (maj + of_next) new st1
                     in if new = 0 then Inr (Break, st2)
                        else let st3 = wr (new + of_prev) maj st2
                             in malloc_cases2to5 sz req_size (rd st3 (maj + of_next)) startedBet bestSize st3)
         else malloc_cases2to5 sz req_size maj startedBet bestSize st)"

primrec malloc_loop ::
  "nat \<Rightarrow> nat \<Rightarrow> nat \<Rightarrow> nat \<Rightarrow> bool \<Rightarrow> nat \<Rightarrow> heap_state \<Rightarrow> (nat \<times> heap_state) outcome" where
  "malloc_loop 0 sz req_size maj startedBet bestSize st = Inl Fuel"
| "malloc_loop (Suc n) sz req_size maj startedBet bestSize st =
     (if maj = 0 then bindR (liballoc_unlock st) (\<lambda>st1. Inr (0, st1))
      else bindR (malloc_turn sz req_size maj startedBet bestSize st) (\<lambda>(ctl, st1).
        case ctl of
          Return p \<Rightarrow> Inr (p, st1)
        | Break \<Rightarrow> bindR (liballoc_unlock st1) (\<lambda>st2. Inr (0, st2))
        | Continue maj' startedBet' bestSize' \<Rightarrow> malloc_loop n sz req_size maj' startedBet' bestSize' st1))"

text \<open>The search, from the best bet when that has room.\<close>

definition malloc_search :: "nat \<Rightarrow> nat \<Rightarrow> heap_state \<Rightarrow> (nat \<times> heap_state) outcome" where
  "malloc_search sz req_size st =
     (let bestSize = (if l_bestBet st \<noteq> 0
                      then sub32 (rd st (l_bestBet st + maj_size)) (rd st (l_bestBet st + maj_usage)) else 0)
      in if l_bestBet st \<noteq> 0 \<and> bestSize > add32 sz sizeof_minor
         then malloc_loop W32 sz req_size (l_bestBet st) True bestSize st
         else malloc_loop W32 sz req_size (l_memRoot st) False bestSize st)"

text \<open>\<open>malloc\<close> for a size that is not 0 after the adjustment for alignment.\<close>

definition malloc_nonzero :: "nat \<Rightarrow> heap_state \<Rightarrow> (nat \<times> heap_state) outcome" where
  "malloc_nonzero req_size st0 =
     (let sz = add32 req_size (ALIGNMENT + ALIGN_INFO)
      in bindR (liballoc_lock st0) (\<lambda>st.
         if l_memRoot st = 0
         then bindR (allocate_new_page sz st) (\<lambda>(root, st1).
                let st2 = st1\<lparr>l_memRoot := root\<rparr>
                in if root = 0 then bindR (liballoc_unlock st2) (\<lambda>st3. Inr (0, st3))
                   else malloc_search sz req_size st2)
         else malloc_search sz req_size st))"

definition new_malloc :: "nat \<Rightarrow> heap_state \<Rightarrow> (nat \<times> heap_state) outcome" where
  "new_malloc req_size st0 =
     (if add32 req_size (ALIGNMENT + ALIGN_INFO) = 0
      then bindR (liballoc_lock st0) (\<lambda>st1.
           bindR (liballoc_unlock (st1\<lparr>l_warningCount := l_warningCount st1 + 1\<rparr>)) (\<lambda>st2.
           malloc_nonzero 1 st2))
      else malloc_nonzero req_size st0)"

section \<open>free, calloc and realloc\<close>

text \<open>The bookkeeping of a bad magic number, shared by \<open>free\<close> and \<open>realloc\<close>.\<close>

definition bad_magic :: "nat \<Rightarrow> heap_state \<Rightarrow> heap_state" where
  "bad_magic magic st =
     (let st1 = st\<lparr>l_errorCount := l_errorCount st + 1\<rparr>
      in if magic AND 0xFFFFFF = LIBALLOC_MAGIC AND 0xFFFFFF \<or> magic AND 0xFFFF = LIBALLOC_MAGIC AND 0xFFFF
            \<or> magic AND 0xFF = LIBALLOC_MAGIC AND 0xFF
         then st1\<lparr>l_possibleOverruns := l_possibleOverruns st1 + 1\<rparr> else st1)"

text \<open>Taking a chunk out of its block.\<close>

definition unlink_minor :: "nat \<Rightarrow> nat \<Rightarrow> heap_state \<Rightarrow> heap_state" where
  "unlink_minor maj mi st =
     (let st1 = st\<lparr>l_inuse := sub64 (l_inuse st) (rd st (mi + min_size))\<rparr>;
          st2 = wr (maj + maj_usage) (sub32 (rd st1 (maj + maj_usage)) (add32 (rd st1 (mi + min_size)) sizeof_minor)) st1;
          st3 = wr (mi + min_magic) LIBALLOC_DEAD st2;
          st4 = (if rd st3 (mi + of_next) \<noteq> 0
                 then wr (rd st3 (mi + of_next) + of_prev) (rd st3 (mi + of_prev)) st3 else st3);
          st5 = (if rd st4 (mi + of_prev) \<noteq> 0
                 then wr (rd st4 (mi + of_prev) + of_next) (rd st4 (mi + of_next)) st4 else st4)
      in if rd st5 (mi + of_prev) = 0 then wr (maj + maj_first) (rd st5 (mi + of_next)) st5 else st5)"

text \<open>Giving an empty block back.\<close>

definition release_major :: "nat \<Rightarrow> heap_state \<Rightarrow> heap_state outcome" where
  "release_major maj st =
     (let st1 = (if l_memRoot st = maj then st\<lparr>l_memRoot := rd st (maj + of_next)\<rparr> else st);
          st2 = (if l_bestBet st1 = maj then st1\<lparr>l_bestBet := 0\<rparr> else st1);
          st3 = (if rd st2 (maj + of_prev) \<noteq> 0
                 then wr (rd st2 (maj + of_prev) + of_next) (rd st2 (maj + of_next)) st2 else st2);
          st4 = (if rd st3 (maj + of_next) \<noteq> 0
                 then wr (rd st3 (maj + of_next) + of_prev) (rd st3 (maj + of_prev)) st3 else st3);
          st5 = st4\<lparr>l_allocated := sub64 (l_allocated st4) (rd st4 (maj + maj_size))\<rparr>
      in liballoc_free maj (rd st5 (maj + maj_pages)) st5)"

definition update_best_bet :: "nat \<Rightarrow> heap_state \<Rightarrow> heap_state" where
  "update_best_bet maj st =
     (if l_bestBet st \<noteq> 0
      then let bestSize = sint32 (sub32 (rd st (l_bestBet st + maj_size)) (rd st (l_bestBet st + maj_usage)));
               majSize = sint32 (sub32 (rd st (maj + maj_size)) (rd st (maj + maj_usage)))
           in if majSize > bestSize then st\<lparr>l_bestBet := maj\<rparr> else st
      else st)"

definition new_free :: "nat \<Rightarrow> heap_state \<Rightarrow> heap_state outcome" where
  "new_free ptr st0 =
     (if ptr = 0 then Inr (st0\<lparr>l_warningCount := l_warningCount st0 + 1\<rparr>)
      else let ptr' = UNALIGN ptr (mem st0)
           in bindR (liballoc_lock st0) (\<lambda>st.
              let mi = sub32 ptr' sizeof_minor
              in if rd st (mi + min_magic) \<noteq> LIBALLOC_MAGIC
                 then liballoc_unlock (bad_magic (rd st (mi + min_magic)) st)
                 else let maj = rd st (mi + min_block);
                          st1 = unlink_minor maj mi st
                      in bindR (if rd st1 (maj + maj_first) = 0 then release_major maj st1
                                else Inr (update_best_bet maj st1)) liballoc_unlock))"

definition new_calloc :: "nat \<Rightarrow> nat \<Rightarrow> heap_state \<Rightarrow> (nat \<times> heap_state) outcome" where
  "new_calloc nobj sz st =
     (let real_size = mul32 nobj sz
      in bindR (new_malloc real_size st) (\<lambda>(p, st1).
         Inr (p, st1\<lparr>mem := liballoc_memset p 0 real_size (mem st1)\<rparr>)))"

definition new_realloc :: "nat \<Rightarrow> nat \<Rightarrow> heap_state \<Rightarrow> (nat \<times> heap_state) outcome" where
  "new_realloc p sz st0 =
     (if sz = 0 then bindR (new_free p st0) (\<lambda>st1. Inr (0, st1))
      else if p = 0 then new_malloc sz st0
      else let ptr = UNALIGN p (mem st0)
           in bindR (liballoc_lock st0) (\<lambda>st.
              let mi = sub32 ptr sizeof_minor
              in if rd st (mi + min_magic) \<noteq> LIBALLOC_MAGIC
                 then bindR (liballoc_unlock (bad_magic (rd st (mi + min_magic)) st)) (\<lambda>st1. Inr (0, st1))
                 else let real_size = rd st (mi + min_req_size)
                      in if real_size \<ge> sz
                         then bindR (liballoc_unlock (wr (mi + min_req_size) sz st)) (\<lambda>st1. Inr (p, st1))
                         else bindR (liballoc_unlock st) (\<lambda>st1.
                              bindR (new_malloc sz st1) (\<lambda>(ptr', st2).
                              bindR (new_free p (st2\<lparr>mem := liballoc_memcpy ptr' p real_size (mem st2)\<rparr>)) (\<lambda>st3.
                              Inr (ptr', st3))))))"

end
