(* ===== verification/DList.thy ===== *)
theory DList
  imports Memory
begin

text \<open>
  Doubly linked lists in memory, as the heap keeps them twice: a node starts with its \<open>prev\<close> word and
  its \<open>next\<close> word. What else a node owns is the parameter of the locale \<open>dlist\<close>, which mm/heap.c's
  lists of blocks and of chunks interpret.
\<close>

text \<open>
  \<open>dlseg addr own m p prev xs l n\<close>: from the pointer \<open>p\<close>, with \<open>prev\<close> before it, run the nodes \<open>xs\<close>;
  \<open>l\<close> is the last of them (\<open>prev\<close> when there is none) and \<open>n\<close> the pointer after it.
\<close>

fun dlseg :: "('x \<Rightarrow> nat) \<Rightarrow> (mem \<Rightarrow> 'x \<Rightarrow> bool) \<Rightarrow> mem \<Rightarrow> nat \<Rightarrow> nat \<Rightarrow> 'x list \<Rightarrow> nat \<Rightarrow> nat \<Rightarrow> bool" where
  "dlseg addr own m p prev [] l n \<longleftrightarrow> p = n \<and> l = prev"
| "dlseg addr own m p prev (x # xs) l n \<longleftrightarrow>
     p = addr x \<and> p \<noteq> 0 \<and> ld32 m p = prev \<and> own m x \<and> dlseg addr own m (ld32 m (p + 4)) p xs l n"

lemma dlseg_append:
  "dlseg addr own m p prev (xs @ ys) l n \<longleftrightarrow>
     (\<exists>q k. dlseg addr own m p prev xs k q \<and> dlseg addr own m q k ys l n)"
  by (induction xs arbitrary: p prev) auto

lemma dlseg_last:
  "dlseg addr own m p prev xs l n \<Longrightarrow> l = (if xs = [] then prev else addr (last xs))"
  by (induction xs arbitrary: p prev) (auto split: if_splits)

lemma dlseg_head:
  "dlseg addr own m p prev xs l n \<Longrightarrow> p = (if xs = [] then n else addr (hd xs))"
  by (cases xs) auto

lemma dlseg_nonzero: "dlseg addr own m p prev xs l n \<Longrightarrow> x \<in> set xs \<Longrightarrow> addr x \<noteq> 0"
  by (induction xs arbitrary: p prev) auto

lemma dlseg_own: "dlseg addr own m p prev xs l n \<Longrightarrow> x \<in> set xs \<Longrightarrow> own m x"
  by (induction xs arbitrary: p prev) auto

text \<open>The memory determines the list.\<close>

lemma dlseg_unique:
  assumes "dlseg addr own m p prev xs l 0" "dlseg addr own m p prev ys l' 0"
    and "\<And>x y. own m x \<Longrightarrow> own m y \<Longrightarrow> addr x = addr y \<Longrightarrow> x = y"
  shows "xs = ys"
  using assms(1,2)
proof (induction xs arbitrary: p prev ys)
  case Nil
  then show ?case by (cases ys) auto
next
  case (Cons x xs)
  show ?case
  proof (cases ys)
    case Nil
    then show ?thesis using Cons.prems by simp
  next
    case ys: (Cons y zs)
    have x: "p = addr x" "own m x" "dlseg addr own m (ld32 m (p + 4)) p xs l 0"
      using Cons.prems(1) unfolding dlseg.simps by blast+
    have y: "p = addr y" "own m y" "dlseg addr own m (ld32 m (p + 4)) p zs l' 0"
      using Cons.prems(2) unfolding ys dlseg.simps by blast+
    have "x = y" using assms(3) [OF x(2) y(2)] x(1) y(1) by simp
    moreover have "xs = zs" by (rule Cons.IH [OF x(3) y(3)])
    ultimately show ?thesis by (simp add: ys)
  qed
qed

locale dlist =
  fixes addr :: "'x \<Rightarrow> nat" and own :: "mem \<Rightarrow> 'x \<Rightarrow> bool" and foot :: "'x \<Rightarrow> nat set"
  assumes own_frame: "same_on (foot x) m m' \<Longrightarrow> own m x \<Longrightarrow> own m' x"
begin

definition node :: "'x \<Rightarrow> nat set" where
  "node x = {addr x..<addr x + 8} \<union> foot x"

lemma node_links: "{addr x..<addr x + 4} \<subseteq> node x" "{addr x + 4..<addr x + 8} \<subseteq> node x" "foot x \<subseteq> node x"
  by (auto simp: node_def)

lemma seg_frame:
  assumes "dlseg addr own m p prev xs l n" "\<And>x. x \<in> set xs \<Longrightarrow> same_on (node x) m m'"
  shows "dlseg addr own m' p prev xs l n"
  using assms
proof (induction xs arbitrary: p prev)
  case (Cons x xs)
  have s: "same_on (node x) m m'" using Cons.prems(2) by simp
  have "ld32 m' (addr x) = ld32 m (addr x)" "ld32 m' (addr x + 4) = ld32 m (addr x + 4)"
    using same_on_mono [OF s node_links(1)] same_on_mono [OF s node_links(2)]
    by (auto intro!: ld32_frame simp: add.commute)
  moreover have "own m' x" using Cons.prems(1) own_frame [OF same_on_mono [OF s node_links(3)]] by simp
  ultimately show ?case using Cons by auto
qed simp

text \<open>The last node's \<open>next\<close> and the first node's \<open>prev\<close> may be changed.\<close>

lemma seg_next:
  assumes "dlseg addr own m p prev (xs @ [z]) l n"
    and "\<And>x. x \<in> set xs \<Longrightarrow> same_on (node x) m m'"
    and "same_on ({addr z..<addr z + 4} \<union> foot z) m m'" and "ld32 m' (addr z + 4) = n'"
  shows "dlseg addr own m' p prev (xs @ [z]) l n'"
proof -
  obtain q k where "dlseg addr own m p prev xs k q" and z: "dlseg addr own m q k [z] l n"
    using assms(1) by (auto simp: dlseg_append)
  then have "dlseg addr own m' p prev xs k q" using seg_frame assms(2) by blast
  moreover have "ld32 m' (addr z) = ld32 m (addr z)" using assms(3) by (intro ld32_frame) simp
  moreover have "own m z \<Longrightarrow> own m' z" using assms(3) own_frame [of z m m'] by simp
  ultimately show ?thesis using z assms(4) by (auto simp: dlseg_append)
qed

lemma seg_prev:
  assumes "dlseg addr own m p prev (y # ys) l n"
    and "\<And>x. x \<in> set ys \<Longrightarrow> same_on (node x) m m'"
    and "same_on ({addr y + 4..<addr y + 8} \<union> foot y) m m'" and "ld32 m' (addr y) = prev'"
  shows "dlseg addr own m' p prev' (y # ys) l n"
proof -
  have "ld32 m' (addr y + 4) = ld32 m (addr y + 4)" using assms(3) by (intro ld32_frame) (simp add: add.commute)
  moreover have "own m y \<Longrightarrow> own m' y" using assms(3) own_frame [of y m m'] by simp
  ultimately show ?thesis using assms(1,4) seg_frame [OF _ assms(2)] by auto
qed

text \<open>Nodes that do not overlap.\<close>

definition separated :: "'x list \<Rightarrow> bool" where
  "separated xs \<longleftrightarrow> sorted_wrt (\<lambda>x y. node x \<inter> node y = {}) xs"

lemma separated_append:
  "separated (xs @ ys) \<longleftrightarrow> separated xs \<and> separated ys \<and> (\<forall>x\<in>set xs. \<forall>y\<in>set ys. node x \<inter> node y = {})"
  by (simp add: separated_def sorted_wrt_append)

lemma separated_Cons: "separated (x # xs) \<longleftrightarrow> separated xs \<and> (\<forall>y\<in>set xs. node x \<inter> node y = {})"
  by (auto simp: separated_def)

text \<open>
  Both ends of a cut may be relinked at once: the memory outside the two link words is as before.
\<close>

definition relink :: "'x list \<Rightarrow> 'x list \<Rightarrow> nat set" where
  "relink xs ys = (if xs = [] then {} else {addr (last xs) + 4..<addr (last xs) + 8}) \<union>
     (if ys = [] then {} else {addr (hd ys)..<addr (hd ys) + 4})"

lemma foot_disjoint: "node x \<inter> node y = {} \<Longrightarrow> A \<subseteq> node y \<Longrightarrow> node x \<inter> A = {}"
  by blast

lemma same_on_minus: "same_on (A - B) m m' \<Longrightarrow> A \<inter> B = {} \<Longrightarrow> same_on A m m'"
  by (simp add: Diff_triv)

lemma avoid: "A \<union> B \<subseteq> N \<Longrightarrow> B \<inter> C = {} \<Longrightarrow> A \<inter> C = {} \<Longrightarrow> N \<inter> D = {} \<Longrightarrow> A \<union> B \<subseteq> N - (C \<union> D)"
  by blast

lemma seg_cut:
  assumes xs: "dlseg addr own m p prev xs k q" and ys: "dlseg addr own m q' k' ys l n"
    and sep: "separated (xs @ ys)" and foot: "\<And>x. x \<in> set (xs @ ys) \<Longrightarrow> foot x \<inter> {addr x..<addr x + 8} = {}"
    and same: "\<And>x. x \<in> set (xs @ ys) \<Longrightarrow> same_on (node x - relink xs ys) m m'"
    and nx: "xs \<noteq> [] \<Longrightarrow> ld32 m' (k + 4) = a" and pv: "ys \<noteq> [] \<Longrightarrow> ld32 m' q' = b"
  shows "dlseg addr own m' (if xs = [] then a else p) prev xs k a"
    and "dlseg addr own m' q' (if ys = [] then k' else b) ys l n"
proof -
  show "dlseg addr own m' (if xs = [] then a else p) prev xs k a"
  proof (cases xs rule: rev_cases)
    case Nil
    with xs show ?thesis by simp
  next
    case (snoc us z)
    have k: "k = addr z" using dlseg_last [OF xs] snoc by simp
    have R: "relink xs ys = {addr z + 4..<addr z + 8} \<union> (if ys = [] then {} else {addr (hd ys)..<addr (hd ys) + 4})"
      by (simp add: relink_def snoc)
    have zs: "node z \<inter> (if ys = [] then {} else {addr (hd ys)..<addr (hd ys) + 4}) = {}"
      using sep snoc node_links(1) [of "hd ys"] by (cases ys) (auto simp: separated_append separated_Cons)
    have us: "same_on (node x) m m'" if "x \<in> set us" for x
    proof (rule same_on_minus [OF same])
      have "node x \<inter> node z = {}" using sep that by (auto simp: snoc separated_append)
      moreover have "node x \<inter> (if ys = [] then {} else {addr (hd ys)..<addr (hd ys) + 4}) = {}"
      proof (cases ys)
        case (Cons y vs)
        then have "node x \<inter> node y = {}" using sep that by (simp add: snoc separated_append)
        with Cons show ?thesis using node_links(1) [of y] by auto
      qed simp
      ultimately show "node x \<inter> relink xs ys = {}" using node_links(2) [of z] unfolding R by blast
    qed (use that snoc in simp)
    have "same_on (node z - relink xs ys) m m'" by (rule same) (simp add: snoc)
    moreover have "{addr z..<addr z + 4} \<union> foot z \<subseteq> node z - relink xs ys"
      unfolding R
    proof (rule avoid [OF _ _ _ zs])
      show "foot z \<inter> {addr z + 4..<addr z + 8} = {}" using foot [of z] snoc by auto
    qed (use node_links [of z] in auto)
    ultimately have "same_on ({addr z..<addr z + 4} \<union> foot z) m m'" by (rule same_on_mono)
    from seg_next [OF xs [unfolded snoc] us this] have "dlseg addr own m' p prev (us @ [z]) k a"
      using nx snoc k by simp
    with snoc show ?thesis by simp
  qed
  show "dlseg addr own m' q' (if ys = [] then k' else b) ys l n"
  proof (cases ys)
    case Nil
    with ys show ?thesis by simp
  next
    case (Cons y vs)
    have q: "q' = addr y" using ys Cons by simp
    have R: "relink xs ys = {addr y..<addr y + 4} \<union> (if xs = [] then {} else {addr (last xs) + 4..<addr (last xs) + 8})"
      by (auto simp: relink_def Cons)
    have la: "node x \<inter> (if xs = [] then {} else {addr (last xs) + 4..<addr (last xs) + 8}) = {}" if "x \<in> set ys" for x
    proof (cases "xs = []")
      case False
      then have "node (last xs) \<inter> node x = {}" using sep that by (simp add: separated_append)
      then show ?thesis using node_links(2) [of "last xs"] False by auto
    qed simp
    have vs: "same_on (node x) m m'" if "x \<in> set vs" for x
    proof (rule same_on_minus [OF same])
      have "node y \<inter> node x = {}" using sep that by (auto simp: Cons separated_append separated_Cons)
      with la [of x] that show "node x \<inter> relink xs ys = {}"
        using node_links(1) [of y] Cons unfolding R by auto
    qed (use that Cons in simp)
    have "same_on (node y - relink xs ys) m m'" by (rule same) (simp add: Cons)
    moreover have "{addr y + 4..<addr y + 8} \<union> foot y \<subseteq> node y - relink xs ys"
      unfolding R
    proof (rule avoid [OF _ _ _ la])
      show "foot y \<inter> {addr y..<addr y + 4} = {}" using foot [of y] Cons by auto
    qed (use node_links [of y] Cons in auto)
    ultimately have "same_on ({addr y + 4..<addr y + 8} \<union> foot y) m m'" by (rule same_on_mono)
    from seg_prev [OF ys [unfolded Cons] vs this] have "dlseg addr own m' q' b (y # vs) l n"
      using pv Cons q by simp
    then show ?thesis by (simp only: Cons list.distinct if_False)
  qed
qed

lemma seg_insert:
  assumes xs: "dlseg addr own m p prev xs k q" and ys: "dlseg addr own m q k ys l n"
    and sep: "separated (xs @ ys)" and foot: "\<And>x. x \<in> set (xs @ ys) \<Longrightarrow> foot x \<inter> {addr x..<addr x + 8} = {}"
    and same: "\<And>x. x \<in> set (xs @ ys) \<Longrightarrow> same_on (node x - relink xs ys) m m'"
    and nx: "xs \<noteq> [] \<Longrightarrow> ld32 m' (k + 4) = addr z" and pv: "ys \<noteq> [] \<Longrightarrow> ld32 m' q = addr z"
    and z: "addr z \<noteq> 0" "own m' z" "ld32 m' (addr z) = k" "ld32 m' (addr z + 4) = q"
  shows "dlseg addr own m' (if xs = [] then addr z else p) prev (xs @ z # ys) (if ys = [] then addr z else l) n"
proof -
  note cut = seg_cut [OF xs ys sep foot same nx pv]
  have "dlseg addr own m' q (addr z) ys (if ys = [] then addr z else l) n"
    using cut(2) ys by (cases ys) auto
  moreover have "dlseg addr own m' (if xs = [] then addr z else p) prev xs k (addr z)" using cut(1) by simp
  ultimately show ?thesis unfolding dlseg_append using z by auto
qed

lemma seg_remove:
  assumes seg: "dlseg addr own m p prev (xs @ z # ys) l n"
    and sep: "separated (xs @ ys)" and foot: "\<And>x. x \<in> set (xs @ ys) \<Longrightarrow> foot x \<inter> {addr x..<addr x + 8} = {}"
    and same: "\<And>x. x \<in> set (xs @ ys) \<Longrightarrow> same_on (node x - relink xs ys) m m'"
    and nx: "xs \<noteq> [] \<Longrightarrow> ld32 m' (ld32 m (addr z) + 4) = ld32 m (addr z + 4)"
    and pv: "ys \<noteq> [] \<Longrightarrow> ld32 m' (ld32 m (addr z + 4)) = ld32 m (addr z)"
  shows "dlseg addr own m' (if xs = [] then ld32 m (addr z + 4) else p) prev (xs @ ys)
    (if ys = [] then ld32 m (addr z) else l) n"
proof -
  let ?k = "ld32 m (addr z)" and ?q = "ld32 m (addr z + 4)"
  have xs: "dlseg addr own m p prev xs ?k (addr z)" and ys: "dlseg addr own m ?q (addr z) ys l n"
    using seg by (auto simp: dlseg_append)
  note cut = seg_cut [OF xs ys sep foot same nx pv]
  have "dlseg addr own m' ?q ?k ys (if ys = [] then ?k else l) n"
    using cut(2) ys by (cases ys) auto
  with cut(1) show ?thesis unfolding dlseg_append by blast
qed

lemma seg_update:
  assumes seg: "dlseg addr own m p prev (xs @ z # ys) l n"
    and "addr z' = addr z" "own m' z'" "same_on {addr z..<addr z + 8} m m'"
    and "\<And>x. x \<in> set (xs @ ys) \<Longrightarrow> same_on (node x) m m'"
  shows "dlseg addr own m' p prev (xs @ z' # ys) l n"
proof -
  obtain q k where xs: "dlseg addr own m p prev xs k q" and z: "dlseg addr own m q k (z # ys) l n"
    using seg by (auto simp: dlseg_append)
  have "ld32 m' (addr z) = ld32 m (addr z)" "ld32 m' (addr z + 4) = ld32 m (addr z + 4)"
    by (rule ld32_sub_frame [OF assms(4)]; simp)+
  moreover have "dlseg addr own m' p prev xs k q" using seg_frame [OF xs] assms(5) by simp
  moreover have "dlseg addr own m' (ld32 m (addr z + 4)) (addr z) ys l n"
    using z seg_frame [of m "ld32 m (addr z + 4)"] assms(5) by auto
  ultimately show ?thesis unfolding dlseg_append using z assms(2,3) by auto
qed

end

end
