(* ===== verification/HeapInv.thy ===== *)
theory HeapInv
  imports Heap DList
begin

text \<open>
  The invariant of the liballoc heap: the blocks and their chunks as two levels of doubly linked
  lists in memory, chunks sorted and disjoint inside their block, blocks disjoint from each other and
  from the memory manager's own data. The central lemma \<open>placed_own\<close> says that linking a chunk into a
  gap keeps a block well formed; the cases of \<open>malloc\<close> all reduce to it.
\<close>

section \<open>Chunks and blocks\<close>

datatype chunk = Chunk (c_addr: nat) (c_size: nat) (c_req: nat)

datatype block = Block (b_addr: nat) (b_pages: nat) (b_chunks: "chunk list")

definition c_end :: "chunk \<Rightarrow> nat" where
  "c_end x = c_addr x + 24 + c_size x"

definition b_end :: "block \<Rightarrow> nat" where
  "b_end B = b_addr B + 4096 * b_pages B"

text \<open>
  The pointer handed out for a chunk: aligned to 16 bytes, and far enough from the header for the byte
  of alignment information 16 below it.
\<close>

definition c_ptr :: "chunk \<Rightarrow> nat" where
  "c_ptr x = (c_addr x + 55) div 16 * 16"

lemma c_ptr_bounds: "c_addr x + 40 \<le> c_ptr x" "c_ptr x \<le> c_addr x + 55" "c_ptr x mod 16 = 0"
proof -
  have "(c_addr x + 55) div 16 * 16 + (c_addr x + 55) mod 16 = c_addr x + 55" by (rule div_mult_mod_eq)
  moreover have "(c_addr x + 55) mod 16 < 16" by simp
  ultimately show "c_addr x + 40 \<le> c_ptr x" "c_ptr x \<le> c_addr x + 55" unfolding c_ptr_def by linarith+
qed (simp add: c_ptr_def)

definition chunk_own :: "nat \<Rightarrow> mem \<Rightarrow> chunk \<Rightarrow> bool" where
  "chunk_own b m x \<longleftrightarrow> ld32 m (c_addr x + 8) = b \<and> ld32 m (c_addr x + 12) = LIBALLOC_MAGIC \<and>
     ld32 m (c_addr x + 16) = c_size x \<and> ld32 m (c_addr x + 20) = c_req x \<and>
     ld8 m (c_ptr x - 16) = c_ptr x - (c_addr x + 24)"

definition chunk_foot :: "chunk \<Rightarrow> nat set" where
  "chunk_foot x = {c_addr x + 8..<c_ptr x}"

abbreviation chunk_seg :: "nat \<Rightarrow> mem \<Rightarrow> nat \<Rightarrow> nat \<Rightarrow> chunk list \<Rightarrow> nat \<Rightarrow> nat \<Rightarrow> bool" where
  "chunk_seg b \<equiv> dlseg c_addr (chunk_own b)"

interpretation chunks: dlist c_addr "chunk_own b" chunk_foot for b
proof unfold_locales
  fix x m m' assume s: "same_on (chunk_foot x) m m'" and own: "chunk_own b m x"
  have w: "ld32 m' (c_addr x + i) = ld32 m (c_addr x + i)" if "8 \<le> i" "i \<le> 20" for i
    by (rule ld32_sub_frame [where b = "c_addr x + 8" and k = 16]) (use s that c_ptr_bounds [of x] in \<open>auto simp: chunk_foot_def same_on_def\<close>)
  have "same_on {c_ptr x - 16..<c_ptr x - 16 + 1} m m'"
    using s c_ptr_bounds [of x] by (auto simp: chunk_foot_def same_on_def)
  then show "chunk_own b m' x" using own w [of 8] w [of 12] w [of 16] w [of 20] by (simp add: chunk_own_def ld8_frame)
qed

text \<open>
  The chunks of a block in the address range from \<open>lo\<close> to \<open>hi\<close>: sorted, not overlapping, and each with
  room for the 32 bytes of alignment besides what was requested.
\<close>

fun chunks_fit :: "nat \<Rightarrow> nat \<Rightarrow> chunk list \<Rightarrow> bool" where
  "chunks_fit lo hi [] \<longleftrightarrow> lo \<le> hi"
| "chunks_fit lo hi (x # xs) \<longleftrightarrow> lo \<le> c_addr x \<and> c_req x + 32 \<le> c_size x \<and> chunks_fit (c_end x) hi xs"

definition chunks_usage :: "chunk list \<Rightarrow> nat" where
  "chunks_usage xs = 24 + sum_list (map (\<lambda>x. c_size x + 24) xs)"

definition block_own :: "mem \<Rightarrow> block \<Rightarrow> bool" where
  "block_own m B \<longleftrightarrow>
     ld32 m (b_addr B + 8) = b_pages B \<and> ld32 m (b_addr B + 12) = 4096 * b_pages B \<and>
     ld32 m (b_addr B + 16) = chunks_usage (b_chunks B) \<and>
     (\<exists>l. chunk_seg (b_addr B) m (ld32 m (b_addr B + 20)) 0 (b_chunks B) l 0) \<and>
     chunks_fit (b_addr B + 24) (b_end B) (b_chunks B) \<and> b_end B < W32"

definition block_foot :: "block \<Rightarrow> nat set" where
  "block_foot B = {b_addr B + 8..<b_end B}"

text \<open>Facts about sorted chunks.\<close>

lemma chunks_fit_le: "chunks_fit lo hi xs \<Longrightarrow> lo \<le> hi"
  by (induction xs arbitrary: lo) (fastforce simp: c_end_def)+

lemma chunks_fit_append:
  "chunks_fit lo hi (xs @ ys) \<longleftrightarrow>
     chunks_fit lo (if xs = [] then lo else c_end (last xs)) xs \<and>
     chunks_fit (if xs = [] then lo else c_end (last xs)) hi ys"
  by (induction xs arbitrary: lo) auto

lemma chunks_fit_mem:
  "chunks_fit lo hi xs \<Longrightarrow> x \<in> set xs \<Longrightarrow> lo \<le> c_addr x \<and> c_end x \<le> hi \<and> c_req x + 32 \<le> c_size x"
proof (induction xs arbitrary: lo)
  case (Cons y ys)
  show ?case
  proof (cases "x = y")
    case True
    then show ?thesis using Cons.prems chunks_fit_le [of "c_end y" hi ys] by simp
  next
    case False
    then have "c_end y \<le> c_addr x \<and> c_end x \<le> hi \<and> c_req x + 32 \<le> c_size x"
      using Cons.IH [of "c_end y"] Cons.prems by simp
    moreover have "c_addr y \<le> c_end y" by (simp add: c_end_def)
    ultimately show ?thesis using Cons.prems(1) by auto
  qed
qed simp

lemma chunks_fit_weaken: "chunks_fit lo hi xs \<Longrightarrow> hi \<le> hi' \<Longrightarrow> lo' \<le> lo \<Longrightarrow> chunks_fit lo' hi' xs"
  by (induction xs arbitrary: lo lo') auto

lemma chunks_fit_before:
  "chunks_fit lo hi (xs @ ys) \<Longrightarrow> x \<in> set xs \<Longrightarrow> y \<in> set ys \<Longrightarrow> c_end x \<le> c_addr y"
proof -
  assume a: "chunks_fit lo hi (xs @ ys)" and x: "x \<in> set xs" and y: "y \<in> set ys"
  then have "xs \<noteq> []" by auto
  with a have "chunks_fit lo (c_end (last xs)) xs" "chunks_fit (c_end (last xs)) hi ys"
    by (simp_all add: chunks_fit_append)
  then show ?thesis using chunks_fit_mem x y by (meson order_trans)
qed

lemma chunk_node: "chunks.node x = {c_addr x..<c_ptr x}"
  using c_ptr_bounds [of x] by (auto simp: chunks.node_def chunk_foot_def)

lemma chunk_node_end: "c_req x + 32 \<le> c_size x \<Longrightarrow> c_ptr x + c_req x < c_end x"
  using c_ptr_bounds [of x] by (simp add: c_end_def)

lemma chunks_separated: "chunks_fit lo hi xs \<Longrightarrow> chunks.separated xs"
proof (induction xs arbitrary: lo)
  case (Cons x xs)
  then have "chunks_fit (c_end x) hi xs" by simp
  moreover from this have "c_ptr x \<le> c_addr y" if "y \<in> set xs" for y
    using chunks_fit_mem [OF _ that] chunk_node_end [of x] Cons.prems by fastforce
  ultimately show ?case using Cons.IH by (fastforce simp: chunks.separated_Cons chunk_node)
qed (simp add: chunks.separated_def)

lemma chunks_usage_append: "chunks_usage (xs @ ys) = chunks_usage xs + chunks_usage ys - 24"
  by (simp add: chunks_usage_def)

lemma chunks_usage_le: "chunks_fit lo hi xs \<Longrightarrow> chunks_usage xs \<le> 24 + (hi - lo)"
proof (induction xs arbitrary: lo)
  case (Cons x xs)
  then have "chunks_usage xs \<le> 24 + (hi - c_end x)" "c_end x \<le> hi" "lo \<le> c_addr x"
    using chunks_fit_le by auto
  then show ?case by (simp add: chunks_usage_def c_end_def)
qed (simp add: chunks_usage_def)

section \<open>Blocks as nodes\<close>

lemma block_words:
  assumes "same_on (block_foot B) m m'" "b_addr B + 24 \<le> b_end B" "8 \<le> i" "i \<le> 20"
  shows "ld32 m' (b_addr B + i) = ld32 m (b_addr B + i)"
  by (rule ld32_sub_frame [where b = "b_addr B + 8" and k = 16])
    (use assms in \<open>auto simp: block_foot_def add.assoc intro: same_on_mono\<close>)

interpretation blocks: dlist b_addr block_own block_foot
proof unfold_locales
  fix B m m' assume s: "same_on (block_foot B) m m'" and own: "block_own m B"
  then have fit: "chunks_fit (b_addr B + 24) (b_end B) (b_chunks B)" by (simp add: block_own_def)
  have le: "b_addr B + 24 \<le> b_end B" using chunks_fit_le [OF fit] .
  note w = block_words [OF s le]
  obtain l where "chunk_seg (b_addr B) m (ld32 m (b_addr B + 20)) 0 (b_chunks B) l 0"
    using own by (auto simp: block_own_def)
  then have "chunk_seg (b_addr B) m' (ld32 m (b_addr B + 20)) 0 (b_chunks B) l 0"
  proof (rule chunks.seg_frame)
    fix x assume "x \<in> set (b_chunks B)"
    from chunks_fit_mem [OF fit this] chunk_node_end [of x] have "chunks.node x \<subseteq> block_foot B"
      by (auto simp: chunk_node block_foot_def)
    then show "same_on (chunks.node x) m m'" by (rule same_on_mono [OF s])
  qed
  then show "block_own m' B" using own w [of 8] w [of 12] w [of 16] w [of 20] by (auto simp: block_own_def)
qed

lemma block_node: "b_addr B + 24 \<le> b_end B \<Longrightarrow> blocks.node B = {b_addr B..<b_end B}"
  by (auto simp: blocks.node_def block_foot_def)

lemma chunk_foot_links: "chunk_foot x \<inter> {c_addr x..<c_addr x + 8} = {}"
  by (auto simp: chunk_foot_def)

lemma block_foot_links: "block_foot B \<inter> {b_addr B..<b_addr B + 8} = {}"
  by (auto simp: block_foot_def)

section \<open>Linking a chunk into a gap\<close>

text \<open>Where a gap between the chunks \<open>xs\<close> and \<open>ys\<close> of a block starts and ends.\<close>

definition gap_lo :: "nat \<Rightarrow> chunk list \<Rightarrow> nat" where
  "gap_lo a xs = (if xs = [] then a + 24 else c_end (last xs))"

definition gap_hi :: "nat \<Rightarrow> chunk list \<Rightarrow> nat" where
  "gap_hi hi ys = (if ys = [] then hi else c_addr (hd ys))"

text \<open>
  \<open>placed a xs z ys k q m m'\<close>: \<open>m'\<close> is \<open>m\<close> with the chunk \<open>z\<close> written and linked between the chunk at
  \<open>k\<close> (the last of \<open>xs\<close>) and the chunk at \<open>q\<close> (the first of \<open>ys\<close>) of the block at \<open>a\<close>, and charged.
\<close>

definition placed_words :: "nat \<Rightarrow> chunk list \<Rightarrow> chunk \<Rightarrow> chunk list \<Rightarrow> nat set" where
  "placed_words a xs z ys = {c_addr z..<c_end z} \<union> chunks.relink xs ys \<union> {a + 16..<a + 20} \<union>
     (if xs = [] then {a + 20..<a + 24} else {})"

definition placed :: "nat \<Rightarrow> chunk list \<Rightarrow> chunk \<Rightarrow> chunk list \<Rightarrow> nat \<Rightarrow> nat \<Rightarrow> mem \<Rightarrow> mem \<Rightarrow> bool" where
  "placed a xs z ys k q m m' \<longleftrightarrow>
     ld32 m' (c_addr z) = k \<and> ld32 m' (c_addr z + 4) = q \<and> chunk_own a m' z \<and>
     (xs \<noteq> [] \<longrightarrow> ld32 m' (k + 4) = c_addr z) \<and> (xs = [] \<longrightarrow> ld32 m' (a + 20) = c_addr z) \<and>
     (ys \<noteq> [] \<longrightarrow> ld32 m' q = c_addr z) \<and>
     ld32 m' (a + 16) = chunks_usage (xs @ z # ys) \<and>
     (\<forall>x. x \<notin> placed_words a xs z ys \<longrightarrow> m' x = m x)"

lemma gap_chunks:
  assumes fit: "chunks_fit (a + 24) hi (xs @ ys)" and z: "gap_lo a xs \<le> c_addr z" "c_end z \<le> gap_hi hi ys"
    and x: "x \<in> set (xs @ ys)"
  shows "c_end x \<le> c_addr z \<or> c_end z \<le> c_addr x"
proof (cases "x \<in> set xs")
  case True
  then have ne: "xs \<noteq> []" by auto
  then have "chunks_fit (a + 24) (c_end (last xs)) xs" using fit by (simp add: chunks_fit_append)
  from chunks_fit_mem [OF this True] show ?thesis using z(1) ne by (simp add: gap_lo_def)
next
  case False
  with x have y: "x \<in> set ys" by simp
  then obtain y vs where ys: "ys = y # vs" by (cases ys) auto
  have "c_addr y \<le> c_addr x"
  proof (cases "x = y")
    case False
    then have "c_end y \<le> c_addr x"
      using chunks_fit_before [of "a + 24" hi "xs @ [y]" vs y x] fit y ys by simp
    then show ?thesis by (simp add: c_end_def)
  qed simp
  then show ?thesis using z(2) ys by (simp add: gap_hi_def)
qed

lemma relink_words:
  assumes "w \<in> chunks.relink xs ys"
  shows "\<exists>x\<in>set (xs @ ys). c_addr x \<le> w \<and> w < c_addr x + 8"
proof -
  consider "xs \<noteq> []" "w \<in> {c_addr (last xs) + 4..<c_addr (last xs) + 8}" | "ys \<noteq> []" "w \<in> {c_addr (hd ys)..<c_addr (hd ys) + 4}"
    using assms by (auto simp: chunks.relink_def split: if_splits)
  then show ?thesis
  proof cases
    case 1
    then show ?thesis by (intro bexI [of _ "last xs"]) auto
  next
    case 2
    then show ?thesis by (intro bexI [of _ "hd ys"]) auto
  qed
qed

text \<open>The words of a placement lie in the block, and leave the payload of the other chunks alone.\<close>

lemma placed_words_block:
  assumes fit: "chunks_fit (a + 24) hi (xs @ ys)" and z: "gap_lo a xs \<le> c_addr z" "c_end z \<le> gap_hi hi ys"
  shows "placed_words a xs z ys \<subseteq> {a + 16..<hi}"
    and "x \<in> set (xs @ ys) \<Longrightarrow> placed_words a xs z ys \<inter> {c_addr x + 8..<c_end x} = {}"
proof -
  have lo: "a + 24 \<le> gap_lo a xs"
  proof (cases "xs = []")
    case False
    then have "c_end (last xs) \<ge> a + 24"
      using chunks_fit_mem [OF fit, of "last xs"] by (fastforce simp: c_end_def)
    then show ?thesis by (simp add: gap_lo_def False)
  qed (simp add: gap_lo_def)
  have hi: "gap_hi hi ys \<le> hi"
  proof (cases "ys = []")
    case False
    then have "c_end (hd ys) \<le> hi" using chunks_fit_mem [OF fit, of "hd ys"] by simp
    then show ?thesis by (simp add: gap_hi_def False c_end_def)
  qed (simp add: gap_hi_def)
  have "w \<in> {a + 16..<hi}" if w: "w \<in> chunks.relink xs ys" for w
  proof -
    obtain x where x: "x \<in> set (xs @ ys)" "c_addr x \<le> w" "w < c_addr x + 8" using relink_words [OF w] by blast
    then show ?thesis using chunks_fit_mem [OF fit x(1)] by (simp add: c_end_def)
  qed
  moreover have "a + 24 \<le> hi" using chunks_fit_le [OF fit] .
  ultimately show "placed_words a xs z ys \<subseteq> {a + 16..<hi}"
    using lo hi z by (auto simp: placed_words_def c_end_def)
  show "placed_words a xs z ys \<inter> {c_addr x + 8..<c_end x} = {}" if x: "x \<in> set (xs @ ys)"
  proof -
    have "w \<notin> {c_addr x + 8..<c_end x}" if w: "w \<in> chunks.relink xs ys" for w
    proof -
      obtain y where y: "y \<in> set (xs @ ys)" "c_addr y \<le> w" "w < c_addr y + 8" using relink_words [OF w] by blast
      show ?thesis
      proof (cases "x = y")
        case False
        obtain us vs where uv: "xs @ ys = us @ x # vs" using split_list [OF x] by blast
        then have "y \<in> set us \<or> y \<in> set vs" using y(1) False by auto
        then have "c_end y \<le> c_addr x \<or> c_end x \<le> c_addr y"
          using chunks_fit_before [of "a + 24" hi us "x # vs" y x] chunks_fit_before [of "a + 24" hi "us @ [x]" vs x y] fit uv by auto
        then show ?thesis using y chunks_fit_mem [OF fit y(1)] by (auto simp: c_end_def)
      qed (use y in auto)
    qed
    moreover have "a + 24 \<le> c_addr x" using chunks_fit_mem [OF fit x] by simp
    moreover have "c_end x \<le> c_addr z \<or> c_end z \<le> c_addr x" using gap_chunks [OF fit z x] .
    ultimately show ?thesis by (auto simp: placed_words_def)
  qed
qed

lemma placed_own:
  assumes own: "block_own m (Block a np (xs @ ys))"
    and xs: "chunk_seg a m (ld32 m (a + 20)) 0 xs k q" and ys: "chunk_seg a m q k ys l 0"
    and z: "gap_lo a xs \<le> c_addr z" "c_end z \<le> gap_hi (a + 4096 * np) ys" "c_req z + 32 \<le> c_size z"
    and pl: "placed a xs z ys k q m m'"
  shows "block_own m' (Block a np (xs @ z # ys))"
proof -
  let ?hi = "a + 4096 * np"
  have fit: "chunks_fit (a + 24) ?hi (xs @ ys)" using own by (simp add: block_own_def b_end_def)
  note words = placed_words_block [OF fit z(1,2)]
  have same: "m' w = m w" if "w \<notin> placed_words a xs z ys" for w using pl that by (simp add: placed_def)
  have zs: "c_addr z + 24 \<le> c_end z" "a + 24 \<le> c_addr z" "c_end z \<le> ?hi"
  proof -
    show "c_addr z + 24 \<le> c_end z" by (simp add: c_end_def)
    have "c_addr z \<in> placed_words a xs z ys" "c_end z - 1 \<in> placed_words a xs z ys"
      by (auto simp: placed_words_def c_end_def)
    then show "c_end z \<le> ?hi" using words(1) by (force simp: c_end_def)
    show "a + 24 \<le> c_addr z"
    proof (cases "xs = []")
      case False
      then have "a + 24 \<le> c_end (last xs)"
        using chunks_fit_mem [OF fit, of "last xs"] by (fastforce simp: c_end_def)
      with z(1) False show ?thesis by (simp add: gap_lo_def)
    qed (use z(1) in \<open>simp add: gap_lo_def\<close>)
  qed
  have pages: "ld32 m' (a + 8) = ld32 m (a + 8)" "ld32 m' (a + 12) = ld32 m (a + 12)"
    by (rule ld32_frame; use words(1) same in \<open>fastforce simp: same_on_def\<close>)+
  have seg: "chunk_seg a m' (if xs = [] then c_addr z else ld32 m (a + 20)) 0 (xs @ z # ys) (if ys = [] then c_addr z else l) 0"
  proof (rule chunks.seg_insert [OF xs ys])
    show "chunks.separated (xs @ ys)" using chunks_separated [OF fit] .
    show "chunk_foot x \<inter> {c_addr x..<c_addr x + 8} = {}" for x by (rule chunk_foot_links)
    show "same_on (chunks.node x - chunks.relink xs ys) m m'" if x: "x \<in> set (xs @ ys)" for x
    proof -
      have "w \<notin> placed_words a xs z ys" if "w \<in> chunks.node x" "w \<notin> chunks.relink xs ys" for w
        using that x chunk_node_end [of x] chunks_fit_mem [OF fit x] gap_chunks [OF fit z(1,2) x]
        by (auto simp: placed_words_def chunk_node c_end_def)
      then show ?thesis using same by (auto simp: same_on_def)
    qed
  qed (use pl zs in \<open>auto simp: placed_def\<close>)
  have first: "ld32 m' (a + 20) = (if xs = [] then c_addr z else ld32 m (a + 20))"
  proof (cases "xs = []")
    case False
    have "same_on {a + 20..<a + 24} m m'"
    proof -
      have "w \<notin> placed_words a xs z ys" if "w \<in> {a + 20..<a + 24}" for w
      proof -
        have "w \<notin> chunks.relink xs ys"
        proof
          assume "w \<in> chunks.relink xs ys"
          then obtain x where "x \<in> set (xs @ ys)" "c_addr x \<le> w" using relink_words by blast
          then show False using that chunks_fit_mem [OF fit] by fastforce
        qed
        then show ?thesis using that zs False by (auto simp: placed_words_def)
      qed
      then show ?thesis using same by (auto simp: same_on_def)
    qed
    then have "ld32 m' (a + 20) = ld32 m (a + 20)" by (intro ld32_frame) (simp add: add.assoc)
    then show ?thesis using False by simp
  qed (use pl in \<open>simp add: placed_def\<close>)
  have "chunks_fit (a + 24) ?hi (xs @ z # ys)"
  proof -
    have x1: "chunks_fit (a + 24) (if xs = [] then a + 24 else c_end (last xs)) xs"
      and y1: "chunks_fit (if xs = [] then a + 24 else c_end (last xs)) ?hi ys"
      using fit by (simp_all only: chunks_fit_append)
    have "chunks_fit (c_end z) ?hi ys" using y1 z(2) zs(3) by (cases ys) (auto simp: gap_hi_def)
    then show ?thesis unfolding chunks_fit_append using x1 z by (auto simp: gap_lo_def)
  qed
  then show ?thesis
    using own pages seg first pl by (auto simp: block_own_def b_end_def placed_def)
qed

end
