(* ===== verification/HeapMalloc.thy ===== *)
theory HeapMalloc
  imports HeapInv
begin

text \<open>
  \<open>malloc\<close> of mm/heap.c: each of its cases places a chunk (\<open>placed\<close>), the walk over the chunks and
  the loop over the blocks end, and the heap invariant is kept.
\<close>

section \<open>From the header words to a placed chunk\<close>

lemma wr_simps [simp]:
  "mem (wr a v st) = st32 (mem st) a v"
  "heap_lock (wr a v st') = heap_lock st'" "l_inuse (wr a v st') = l_inuse st'"
  "l_memRoot (wr a v st') = l_memRoot st'" "l_bestBet (wr a v st') = l_bestBet st'"
  "l_allocated (wr a v st') = l_allocated st'"
  "nframes (wr a v st) = nframes st" "frames (wr a v st) = frames st" "kernel_dir (wr a v st) = kernel_dir st"
  "heap_online (wr a v st) = heap_online st" "plp (wr a v st) = plp st"
  by (simp_all add: wr_def)

text \<open>The chunk's header and links are written; usage and alignment byte are still missing.\<close>

definition headed :: "nat \<Rightarrow> chunk list \<Rightarrow> chunk \<Rightarrow> chunk list \<Rightarrow> nat \<Rightarrow> nat \<Rightarrow> mem \<Rightarrow> mem \<Rightarrow> bool" where
  "headed a xs z ys k q m m7 \<longleftrightarrow>
     ld32 m7 (c_addr z) = k \<and> ld32 m7 (c_addr z + 4) = q \<and> ld32 m7 (c_addr z + 8) = a \<and>
     ld32 m7 (c_addr z + 12) = LIBALLOC_MAGIC \<and> ld32 m7 (c_addr z + 16) = c_size z \<and>
     ld32 m7 (c_addr z + 20) = c_req z \<and>
     (xs \<noteq> [] \<longrightarrow> ld32 m7 (k + 4) = c_addr z) \<and> (xs = [] \<longrightarrow> ld32 m7 (a + 20) = c_addr z) \<and>
     (ys \<noteq> [] \<longrightarrow> ld32 m7 q = c_addr z) \<and>
     (\<forall>x. x \<notin> {c_addr z..<c_addr z + 24} \<union> chunks.relink xs ys \<union> (if xs = [] then {a + 20..<a + 24} else {})
        \<longrightarrow> m7 x = m x)"

definition finish :: "nat \<Rightarrow> chunk \<Rightarrow> bool \<Rightarrow> mem \<Rightarrow> mem" where
  "finish a z zero m7 =
     (let m8 = st32 m7 (a + 16) (ld32 m7 (a + 16) + c_size z + 24);
          m9 = st8 m8 (c_ptr z - 16) (c_ptr z - (c_addr z + 24))
      in if zero then memset (c_ptr z) 0 (c_req z) m9 else m9)"

lemma round_up: "(x + 15) div 16 * 16 = x + (if x mod 16 = 0 then 0 else 16 - x mod (16::nat))"
proof -
  define d r where "d = x div 16" and "r = x mod 16"
  have x: "x = 16 * d + r" and r: "r < 16" "x mod 16 = r" by (simp_all add: d_def r_def)
  have "(16 * d + (r + 15)) div 16 = d + (r + 15) div 16" by simp
  then have "(x + 15) div 16 = d + (r + 15) div 16" by (simp only: x add.assoc)
  moreover have "(r + 15) div 16 = (if r = 0 then 0 else 1)" using r by (auto intro: div_nat_eqI)
  ultimately show ?thesis unfolding r(2) using x r(1) by auto
qed

lemma and15: "x AND 15 = x mod (16::nat)"
  using take_bit_eq_mask [of 4 x] by (simp add: take_bit_eq_mod mask_eq_exp_minus_1)

lemma ALIGN_eq:
  assumes "c_end z < W32" "c_req z + 32 \<le> c_size z"
  shows "ALIGN (add32 (c_addr z) sizeof_minor) st =
    (c_ptr z, st\<lparr>mem := st8 (mem st) (c_ptr z - 16) (c_ptr z - (c_addr z + 24))\<rparr>)"
proof -
  have w: "c_addr z + 56 < W32" using assms by (simp add: c_end_def)
  have e: "c_addr z + 55 = c_addr z + 40 + 15" by simp
  have ptr: "c_ptr z = c_addr z + 40 + (if (c_addr z + 40) mod 16 = 0 then 0 else 16 - (c_addr z + 40) mod 16)"
    unfolding c_ptr_def e by (rule round_up)
  have lt: "(c_addr z + 40) mod 16 < 16" by simp
  have a: "add32 (add32 (c_addr z) 24) 16 = c_addr z + 40"
    using w by (simp add: arith32)
  show ?thesis
  proof (cases "(c_addr z + 40) mod 16 = 0")
    case True
    then have "c_ptr z = c_addr z + 40" using ptr by simp
    then show ?thesis
      using True w unfolding ALIGN_def a by (simp add: and15 Let_def arith32)
  next
    case False
    then have p: "c_ptr z = c_addr z + 40 + (16 - (c_addr z + 40) mod 16)" using ptr by simp
    then have "add32 (c_addr z + 40) (16 - (c_addr z + 40) mod 16) = c_ptr z"
      using w lt False by (simp add: add32_small)
    moreover have "sub32 (c_ptr z) 16 = c_ptr z - 16" using c_ptr_bounds [of z] w by (intro sub32_small) linarith+
    moreover have "16 - (c_addr z + 40) mod 16 + 16 = c_ptr z - (c_addr z + 24)" using p lt by linarith
    ultimately show ?thesis
      using False unfolding ALIGN_def a by (simp add: and15 Let_def)
  qed
qed

lemma charge_align:
  assumes "c_end z < W32" "c_req z + 32 \<le> c_size z" "ld32 (mem st) (a + 16) + c_size z + 24 < W32"
  shows "ALIGN (add32 (c_addr z) sizeof_minor) (charge a (c_size z) st) =
    (c_ptr z, st\<lparr>mem := finish a z False (mem st), l_inuse := add64 (l_inuse st) (c_size z)\<rparr>)"
proof -
  have "add32 (ld32 (mem st) (a + 16)) (add32 (c_size z) 24) = ld32 (mem st) (a + 16) + c_size z + 24"
    using assms(3) by (simp add: arith32)
  then show ?thesis
    unfolding ALIGN_eq [OF assms(1,2)] by (simp add: charge_def finish_def rd_def wr_def)
qed

lemma finish_placed:
  assumes own: "block_own m (Block a np (xs @ ys))"
    and z: "gap_lo a xs \<le> c_addr z" "c_end z \<le> gap_hi (a + 4096 * np) ys" "c_req z + 32 \<le> c_size z"
    and k: "xs \<noteq> [] \<Longrightarrow> k = c_addr (last xs)" and q: "ys \<noteq> [] \<Longrightarrow> q = c_addr (hd ys)"
    and hd: "headed a xs z ys k q m m7"
  shows "placed a xs z ys k q m (finish a z zero m7)"
    and "ld32 m7 (a + 16) + c_size z + 24 < W32" and "c_end z < W32"
    and "zero \<Longrightarrow> i < c_req z \<Longrightarrow> finish a z zero m7 (c_ptr z + i) = 0"
proof -
  let ?hi = "a + 4096 * np"
  have fit: "chunks_fit (a + 24) ?hi (xs @ ys)" and hi: "?hi < W32"
    using own by (simp_all add: block_own_def b_end_def)
  note words = placed_words_block [OF fit z(1,2)]
  have zw: "{c_addr z..<c_end z} \<subseteq> {a + 16..<?hi}" using words(1) by (auto simp: placed_words_def)
  then have ze: "c_end z \<le> ?hi" by (auto simp: c_end_def)
  show lt: "c_end z < W32" using ze hi by linarith
  have lo: "a + 24 \<le> c_addr z"
  proof (cases "xs = []")
    case False
    then have "a + 24 \<le> c_end (last xs)"
      using chunks_fit_mem [OF fit, of "last xs"] by (fastforce simp: c_end_def)
    with z(1) False show ?thesis by (simp add: gap_lo_def)
  qed (use z(1) in \<open>simp add: gap_lo_def\<close>)
  have rl: "c_addr x + 8 \<le> c_addr z \<and> a + 24 \<le> c_addr x \<or> c_end z \<le> c_addr x \<and> c_addr x + 8 \<le> ?hi" if "x \<in> set (xs @ ys)" for x
    using gap_chunks [OF fit z(1,2) that] chunks_fit_mem [OF fit that] by (auto simp: c_end_def)
  have usage: "ld32 m7 (a + 16) = ld32 m (a + 16)"
  proof (rule ld32_frame)
    show "same_on {a + 16..<a + 16 + 4} m m7"
      unfolding same_on_def
    proof (intro ballI)
      fix w assume w: "w \<in> {a + 16..<a + 16 + 4}"
      have "w \<notin> chunks.relink xs ys"
      proof
        assume "w \<in> chunks.relink xs ys"
        then obtain x where "x \<in> set (xs @ ys)" "c_addr x \<le> w" using relink_words by blast
        then show False using rl [of x] w lo by (auto simp: c_end_def)
      qed
      then show "m7 w = m w" using hd w lo by (auto simp: headed_def)
    qed
  qed
  have um: "ld32 m (a + 16) = chunks_usage (xs @ ys)" using own by (simp add: block_own_def)
  have un: "chunks_usage (xs @ z # ys) = chunks_usage (xs @ ys) + c_size z + 24"
    by (simp add: chunks_usage_def)
  have fitz: "chunks_fit (a + 24) ?hi (xs @ z # ys)"
  proof -
    have x1: "chunks_fit (a + 24) (if xs = [] then a + 24 else c_end (last xs)) xs"
      and y1: "chunks_fit (if xs = [] then a + 24 else c_end (last xs)) ?hi ys"
      using fit by (simp_all only: chunks_fit_append)
    have "chunks_fit (c_end z) ?hi ys" using y1 z(2) ze by (cases ys) (auto simp: gap_hi_def)
    then show ?thesis unfolding chunks_fit_append using x1 z by (auto simp: gap_lo_def)
  qed
  have ub: "chunks_usage (xs @ z # ys) < W32"
    using chunks_usage_le [OF fitz] chunks_fit_le [OF fitz] hi by linarith
  then show "ld32 m7 (a + 16) + c_size z + 24 < W32" using usage um un by simp
  let ?m8 = "st32 m7 (a + 16) (ld32 m7 (a + 16) + c_size z + 24)"
  let ?m9 = "st8 ?m8 (c_ptr z - 16) (c_ptr z - (c_addr z + 24))"
  have pb: "c_addr z + 24 \<le> c_ptr z - 16" "c_ptr z - 16 < c_ptr z" "c_ptr z + c_req z \<le> c_end z"
    "c_ptr z - (c_addr z + 24) < 256"
    using c_ptr_bounds [of z] z(3) by (auto simp: c_end_def)
  have out: "finish a z zero m7 w = m7 w" if "w \<notin> {a + 16..<a + 20}" "w \<notin> {c_ptr z - 16..<c_end z}" for w
  proof -
    have "same_on {w} m7 ?m8" by (rule same_on_st32) (use that in auto)
    moreover have "same_on {w} ?m8 ?m9" by (rule same_on_st8) (use that pb in auto)
    ultimately have "?m9 w = m7 w" by (simp add: same_on_def)
    then show ?thesis using that pb by (auto simp: finish_def Let_def memset_apply)
  qed
  have far: "ld32 (finish a z zero m7) b = ld32 m7 b"
    if "b + 4 \<le> a + 16 \<or> a + 20 \<le> b" "b + 4 \<le> c_ptr z - 16 \<or> c_end z \<le> b" for b
    by (rule ld32_frame) (use that out in \<open>auto simp: same_on_def\<close>)
  have byte: "ld8 (finish a z zero m7) (c_ptr z - 16) = c_ptr z - (c_addr z + 24)"
  proof -
    have "ld8 ?m9 (c_ptr z - 16) = c_ptr z - (c_addr z + 24)" using pb by (simp add: ld8_st8)
    moreover have "ld8 (memset (c_ptr z) 0 (c_req z) ?m9) (c_ptr z - 16) = ld8 ?m9 (c_ptr z - 16)"
      by (rule ld8_frame [OF memset_frame]) (use pb in auto)
    ultimately show ?thesis by (simp add: finish_def Let_def)
  qed
  have use: "ld32 (finish a z zero m7) (a + 16) = chunks_usage (xs @ z # ys)"
  proof -
    have "ld32 ?m9 (a + 16) = ld32 ?m8 (a + 16)" using pb lo by (intro ld32_st8_other) linarith
    also have "\<dots> = chunks_usage (xs @ z # ys)" using ub usage um un by (simp add: mem_simps)
    finally have "ld32 ?m9 (a + 16) = chunks_usage (xs @ z # ys)" .
    moreover have "ld32 (memset (c_ptr z) 0 (c_req z) ?m9) (a + 16) = ld32 ?m9 (a + 16)"
      by (rule ld32_frame [OF memset_frame]) (use pb lo in auto)
    ultimately show ?thesis by (simp add: finish_def Let_def)
  qed
  show "placed a xs z ys k q m (finish a z zero m7)"
    unfolding placed_def
  proof (intro conjI impI allI)
    show "chunk_own a (finish a z zero m7) z"
      unfolding chunk_own_def using hd pb lo far byte by (auto simp: headed_def)
    show "ld32 (finish a z zero m7) (k + 4) = c_addr z" if "xs \<noteq> []"
      using hd that rl [of "last xs"] k lo pb z(1) by (subst far) (auto simp: headed_def gap_lo_def c_end_def)
    show "ld32 (finish a z zero m7) q = c_addr z" if "ys \<noteq> []"
      using hd that rl [of "hd ys"] q lo pb z(2) by (subst far) (auto simp: headed_def gap_hi_def c_end_def)
    show "finish a z zero m7 x = m x" if "x \<notin> placed_words a xs z ys" for x
    proof -
      have "finish a z zero m7 x = m7 x" using that pb by (intro out) (auto simp: placed_words_def)
      moreover have "m7 x = m x" using hd that by (auto simp: headed_def placed_words_def c_end_def split: if_splits)
      ultimately show ?thesis by simp
    qed
  qed (use hd lo pb far use in \<open>auto simp: headed_def\<close>)
  show "finish a z zero m7 (c_ptr z + i) = 0" if "zero" "i < c_req z"
    using that by (simp add: finish_def Let_def memset_apply)
qed

section \<open>The cases\<close>

text \<open>
  \<open>took st a np xs z ys p st'\<close>: between the chunks \<open>xs\<close> and \<open>ys\<close> of the block at \<open>a\<close> the chunk \<open>z\<close> was
  placed, its pointer \<open>p\<close> is the result, and the lock is released.
\<close>

definition took :: "heap_state \<Rightarrow> nat \<Rightarrow> chunk list \<Rightarrow> chunk \<Rightarrow> chunk list \<Rightarrow> bool \<Rightarrow> nat \<Rightarrow> heap_state \<Rightarrow> bool" where
  "took st a xs z ys zero p st' \<longleftrightarrow> p = c_ptr z \<and>
     (\<exists>m' k q l. st' = st\<lparr>mem := m', l_inuse := add64 (l_inuse st) (c_size z), heap_lock := 0\<rparr> \<and>
       chunk_seg a (mem st) (ld32 (mem st) (a + 20)) 0 xs k q \<and> chunk_seg a (mem st) q k ys l 0 \<and>
       placed a xs z ys k q (mem st) m' \<and> (zero \<longrightarrow> (\<forall>i<c_req z. m' (c_ptr z + i) = 0)))"

lemma st32_out [simp]: "x < a \<or> a + 4 \<le> x \<Longrightarrow> st32 m a v x = m x"
  using same_on_st32 [of "{x}" a m v] by (auto simp: same_on_def)

lemma rd_mem: "rd st a = ld32 (mem st) a"
  by (simp add: rd_def)

text \<open>What the cases share: once the header words are right, the rest of each case takes the chunk.\<close>

lemma took_finish:
  assumes own: "block_own (mem st) (Block a np (xs @ ys))"
    and segs: "chunk_seg a (mem st) (ld32 (mem st) (a + 20)) 0 xs k q" "chunk_seg a (mem st) q k ys l 0"
    and gap: "gap_lo a xs \<le> c_addr z" "c_end z \<le> gap_hi (a + 4096 * np) ys" "c_req z + 32 \<le> c_size z"
    and hd: "headed a xs z ys k q (mem st) m1"
  shows "ALIGN (add32 (c_addr z) sizeof_minor) (charge a (c_size z) (st\<lparr>mem := m1\<rparr>)) =
      (c_ptr z, st\<lparr>mem := finish a z False m1, l_inuse := add64 (l_inuse st) (c_size z)\<rparr>)" (is ?A)
    and "took st a xs z ys zero (c_ptr z)
      (st\<lparr>mem := finish a z zero m1, l_inuse := add64 (l_inuse st) (c_size z), heap_lock := 0\<rparr>)" (is ?B)
proof -
  have kq: "xs \<noteq> [] \<Longrightarrow> k = c_addr (last xs)" "ys \<noteq> [] \<Longrightarrow> q = c_addr (hd ys)"
    using dlseg_last [OF segs(1)] dlseg_head [OF segs(2)] by simp_all
  note fin = finish_placed [OF own gap kq hd]
  show ?A using charge_align [of z "st\<lparr>mem := m1\<rparr>" a] fin(2,3) gap(3) by simp
  show ?B unfolding took_def using segs fin(1,4) [where zero = zero] by fastforce
qed

text \<open>Every byte outside the chunk and the words that link it is as before.\<close>

lemma relink_out:
  assumes "x \<notin> {n..<n + 24} \<union> chunks.relink xs ys \<union> (if xs = [] then {a + 20..<a + 24} else {})"
  shows "x < n \<or> n + 24 \<le> x" "xs \<noteq> [] \<Longrightarrow> x < c_addr (last xs) + 4 \<or> c_addr (last xs) + 4 + 4 \<le> x"
    "ys \<noteq> [] \<Longrightarrow> x < c_addr (hd ys) \<or> c_addr (hd ys) + 4 \<le> x" "xs = [] \<Longrightarrow> x < a + 20 \<or> a + 20 + 4 \<le> x"
  using assms by (auto simp: chunks.relink_def not_less)

lemma header_out:
  assumes "x < n \<or> n + 24 \<le> (x::nat)"
  shows "x < n \<or> n + 4 \<le> x" "x < n + 4 \<or> n + 4 + 4 \<le> x" "x < n + 8 \<or> n + 8 + 4 \<le> x" "x < n + 12 \<or> n + 12 + 4 \<le> x"
    "x < n + 16 \<or> n + 16 + 4 \<le> x" "x < n + 20 \<or> n + 20 + 4 \<le> x"
  using assms by auto

lemma malloc_case2_took:
  assumes own: "block_own (mem st) (Block a np [])" and lock: "heap_lock st = 1"
    and z: "z = Chunk (a + 24) sz rq" "rq + 32 \<le> sz" "a + 48 + sz \<le> a + 4096 * np"
  shows "\<exists>p st'. malloc_case2 sz rq a st = Inr (p, st') \<and> took st a [] z [] True p st'"
proof -
  let ?n = "a + 24"
  define m1 where "m1 = st32 (st32 (st32 (st32 (st32 (st32 (st32 (mem st) (a + 20) ?n) (?n + 12) LIBALLOC_MAGIC)
    (?n + 0) 0) (?n + 4) 0) (?n + 8) a) (?n + 16) sz) (?n + 20) rq"
  have hi: "a + 4096 * np < W32" using own by (simp add: block_own_def b_end_def)
  then have n: "add32 a 24 = ?n" using z(3) by (simp add: arith32)
  have gap: "gap_lo a [] \<le> c_addr z" "c_end z \<le> gap_hi (a + 4096 * np) []" "c_req z + 32 \<le> c_size z"
    using z by (simp_all add: gap_lo_def gap_hi_def c_end_def)
  have hd: "headed a [] z [] 0 0 (mem st) m1"
    unfolding headed_def
  proof (intro conjI allI impI)
    fix x assume x: "x \<notin> {c_addr z..<c_addr z + 24} \<union> chunks.relink [] [] \<union> (if [] = ([] :: chunk list) then {a + 20..<a + 24} else {})"
    show "m1 x = mem st x"
      using relink_out(4) [OF x] header_out [OF relink_out(1) [OF x]] unfolding m1_def z(1) by simp
  qed (use z hi in \<open>simp_all add: m1_def mem_simps\<close>)
  have segs: "chunk_seg a (mem st) (ld32 (mem st) (a + 20)) 0 [] 0 0" "chunk_seg a (mem st) 0 0 [] 0 0"
    using own by (auto simp: block_own_def)
  have own': "block_own (mem st) (Block a np ([] @ []))" using own by simp
  note fin = took_finish [OF own' segs gap hd]
  have "wr (?n + 20) rq (wr (?n + 16) sz (wr (?n + 8) a (wr (?n + 4) 0 (wr (?n + 0) 0 (wr (?n + 12) LIBALLOC_MAGIC
      (wr (a + 20) ?n st)))))) = st\<lparr>mem := m1\<rparr>" by (simp add: wr_def m1_def)
  then have "malloc_case2 sz rq a st = Inr (c_ptr z, st\<lparr>mem := finish a z True m1, l_inuse := add64 (l_inuse st) sz, heap_lock := 0\<rparr>)"
    using fin(1) z(1) unfolding malloc_case2_def Let_def n
    by (simp only: split) (simp add: liballoc_unlock_def lock finish_def Let_def)
  then show ?thesis using fin(2) [where zero = True] z(1) by simp
qed

lemma malloc_case3_took:
  assumes own: "block_own (mem st) (Block a np (y # ys))" and lock: "heap_lock st = 1"
    and z: "z = Chunk (a + 24) sz rq" "rq + 32 \<le> sz" "a + 48 + sz \<le> c_addr y"
  shows "\<exists>p st'. malloc_case3 sz rq a st = Inr (p, st') \<and> took st a [] z (y # ys) True p st'"
proof -
  let ?n = "a + 24" and ?q = "c_addr y"
  obtain l where seg: "chunk_seg a (mem st) (ld32 (mem st) (a + 20)) 0 (y # ys) l 0"
    using own by (auto simp: block_own_def)
  then have q: "ld32 (mem st) (a + 20) = ?q" by simp
  define m1 where "m1 = st32 (st32 (st32 (st32 (st32 (st32 (st32 (st32 (mem st) (?q + 0) ?n) (?n + 4) ?q) (a + 20) ?n)
    (?n + 12) LIBALLOC_MAGIC) (?n + 0) 0) (?n + 8) a) (?n + 16) sz) (?n + 20) rq"
  have "c_addr y + 24 \<le> a + 4096 * np" and hi: "a + 4096 * np < W32"
    using own chunks_fit_le by (fastforce simp: block_own_def b_end_def c_end_def)+
  then have n: "add32 a 24 = ?n" and qb: "?q < W32" using z(3) by (simp_all add: arith32)
  have gap: "gap_lo a [] \<le> c_addr z" "c_end z \<le> gap_hi (a + 4096 * np) (y # ys)" "c_req z + 32 \<le> c_size z"
    using z by (simp_all add: gap_lo_def gap_hi_def c_end_def)
  have hd: "headed a [] z (y # ys) 0 ?q (mem st) m1"
    unfolding headed_def
  proof (intro conjI allI impI)
    fix x assume x: "x \<notin> {c_addr z..<c_addr z + 24} \<union> chunks.relink [] (y # ys) \<union> (if [] = ([] :: chunk list) then {a + 20..<a + 24} else {})"
    show "m1 x = mem st x"
      using relink_out(3,4) [OF x] header_out [OF relink_out(1) [OF x]] unfolding m1_def z(1) by simp
  qed (use z hi qb in \<open>simp_all add: m1_def mem_simps\<close>)
  have segs: "chunk_seg a (mem st) (ld32 (mem st) (a + 20)) 0 [] 0 ?q" "chunk_seg a (mem st) ?q 0 (y # ys) l 0"
    using seg unfolding q by auto
  have own': "block_own (mem st) (Block a np ([] @ y # ys))" using own by simp
  note fin = took_finish [OF own' segs gap hd]
  have "wr (?n + 20) rq (wr (?n + 16) sz (wr (?n + 8) a (wr (?n + 0) 0 (wr (?n + 12) LIBALLOC_MAGIC
      (wr (a + 20) ?n (wr (?n + 4) ?q (wr (?q + 0) ?n st))))))) = st\<lparr>mem := m1\<rparr>" by (simp add: wr_def m1_def)
  moreover have "rd (wr (?q + 0) ?n st) (?q + 0) = ?n" using z(3) qb by (simp add: rd_def mem_simps)
  moreover have "rd st (a + 20) = ?q" using q by (simp add: rd_def)
  ultimately have "malloc_case3 sz rq a st = Inr (c_ptr z, st\<lparr>mem := finish a z True m1, l_inuse := add64 (l_inuse st) sz, heap_lock := 0\<rparr>)"
    using fin(1) z(1) unfolding malloc_case3_def Let_def n
    by (simp only: split) (simp add: liballoc_unlock_def lock finish_def Let_def)
  then show ?thesis using fin(2) [where zero = True] z(1) by simp
qed

text \<open>The chunk before a gap: its header words and where the gap starts.\<close>

lemma last_chunk:
  assumes own: "block_own m (Block a np (xs @ ys))" and ne: "xs \<noteq> []"
    and segs: "chunk_seg a m p 0 xs k q" "chunk_seg a m q k ys l 0"
  shows "k = c_addr (last xs)" "k \<noteq> 0" "a + 24 \<le> k" "k + 56 \<le> gap_lo a xs"
    "gap_lo a xs = k + 24 + ld32 m (k + 16)" "ld32 m (k + 4) = q" "gap_lo a xs \<le> a + 4096 * np"
    "gap_lo a xs \<le> gap_hi (a + 4096 * np) ys" "a + 4096 * np < W32"
    "ys \<noteq> [] \<Longrightarrow> q = c_addr (hd ys) \<and> q + 24 \<le> a + 4096 * np" "ys = [] \<Longrightarrow> q = 0"
proof -
  have fit: "chunks_fit (a + 24) (a + 4096 * np) (xs @ ys)" and hi: "a + 4096 * np < W32"
    using own by (simp_all add: block_own_def b_end_def)
  then show "a + 4096 * np < W32" by simp
  obtain us z where xs: "xs = us @ [z]" using ne by (cases xs rule: rev_cases) auto
  have k: "k = c_addr z" using dlseg_last [OF segs(1)] xs by simp
  then show "k = c_addr (last xs)" by (simp add: xs)
  show "k \<noteq> 0" using dlseg_nonzero [OF segs(1), of z] xs k by simp
  have zown: "chunk_own a m z" using dlseg_own [OF segs(1), of z] xs by simp
  have zb: "a + 24 \<le> c_addr z" "c_end z \<le> a + 4096 * np" "c_req z + 32 \<le> c_size z"
    using chunks_fit_mem [OF fit, of z] xs by auto
  then show "a + 24 \<le> k" "k + 56 \<le> gap_lo a xs" "gap_lo a xs \<le> a + 4096 * np"
    by (auto simp: k gap_lo_def xs c_end_def)
  show "gap_lo a xs = k + 24 + ld32 m (k + 16)" using zown by (simp add: gap_lo_def xs k c_end_def chunk_own_def)
  show "ld32 m (k + 4) = q" using segs(1) by (auto simp: xs dlseg_append)
  show "ys = [] \<Longrightarrow> q = 0" using segs(2) by simp
  show "ys \<noteq> [] \<Longrightarrow> q = c_addr (hd ys) \<and> q + 24 \<le> a + 4096 * np"
    using dlseg_head [OF segs(2)] chunks_fit_mem [OF fit, of "hd ys"] by (auto simp: c_end_def)
  show "gap_lo a xs \<le> gap_hi (a + 4096 * np) ys"
  proof (cases ys)
    case (Cons y vs)
    then show ?thesis using chunks_fit_before [OF fit, of z y] xs by (simp add: gap_lo_def gap_hi_def)
  qed (use zb xs in \<open>simp add: gap_lo_def gap_hi_def\<close>)
qed

lemma malloc_case41_took:
  assumes own: "block_own (mem st) (Block a np (xs @ []))" and lock: "heap_lock st = 1" and ne: "xs \<noteq> []"
    and segs: "chunk_seg a (mem st) (ld32 (mem st) (a + 20)) 0 xs k 0" "chunk_seg a (mem st) 0 k [] l 0"
    and z: "z = Chunk (gap_lo a xs) sz rq" "rq + 32 \<le> sz" "gap_lo a xs + 24 + sz \<le> a + 4096 * np"
  shows "\<exists>p st'. malloc_case41 sz rq a k st = Inr (p, st') \<and> took st a xs z [] False p st'"
proof -
  note kk = last_chunk [OF own ne segs]
  define n where "n = gap_lo a xs"
  have nb: "k + 56 \<le> n" "a + 24 \<le> k" "n + 24 + sz \<le> a + 4096 * np" using kk(3,4) z(3) by (simp_all add: n_def)
  define m1 where "m1 = st32 (st32 (st32 (st32 (st32 (st32 (st32 (mem st) (k + 4) n) (n + 0) k) (n + 4) 0)
    (n + 12) LIBALLOC_MAGIC) (n + 8) a) (n + 16) sz) (n + 20) rq"
  have "ld32 (mem st) (k + 16) = n - (k + 24)" using kk(5) by (simp add: n_def)
  then have new: "add32 (add32 k 24) (rd st (k + 16)) = n" using nb kk(9) by (simp add: rd_def arith32)
  have gap: "gap_lo a xs \<le> c_addr z" "c_end z \<le> gap_hi (a + 4096 * np) []" "c_req z + 32 \<le> c_size z"
    using z by (simp_all add: gap_hi_def c_end_def)
  have zn: "c_addr z = n" "c_size z = sz" "c_req z = rq" by (simp_all add: z n_def)
  have hd: "headed a xs z [] k 0 (mem st) m1"
    unfolding headed_def zn
  proof (intro conjI allI impI)
    fix x assume x: "x \<notin> {n..<n + 24} \<union> chunks.relink xs [] \<union> (if xs = [] then {a + 20..<a + 24} else {})"
    show "m1 x = mem st x"
      using relink_out(2) [OF x ne] header_out [OF relink_out(1) [OF x]] unfolding m1_def kk(1) by simp
  qed (use ne nb z(2) kk(9) in \<open>simp_all add: m1_def mem_simps\<close>)
  note fin = took_finish [OF own segs gap hd]
  have "wr (n + 20) rq (wr (n + 16) sz (wr (n + 8) a (wr (n + 12) LIBALLOC_MAGIC (wr (n + 4) 0 (wr (n + 0) k
      (wr (k + 4) n st)))))) = st\<lparr>mem := m1\<rparr>" by (simp add: wr_def m1_def)
  then have "malloc_case41 sz rq a k st = Inr (c_ptr z, st\<lparr>mem := finish a z False m1, l_inuse := add64 (l_inuse st) sz, heap_lock := 0\<rparr>)"
    using fin(1) unfolding malloc_case41_def Let_def new zn
    by (simp only: split) (simp add: liballoc_unlock_def lock)
  then show ?thesis using fin(2) [where zero = False] zn by simp
qed

lemma malloc_case42_took:
  assumes own: "block_own (mem st) (Block a np (xs @ ys))" and lock: "heap_lock st = 1" and ne: "xs \<noteq> []" "ys \<noteq> []"
    and segs: "chunk_seg a (mem st) (ld32 (mem st) (a + 20)) 0 xs k q" "chunk_seg a (mem st) q k ys l 0"
    and z: "z = Chunk (gap_lo a xs) sz rq" "rq + 32 \<le> sz" "gap_lo a xs + 24 + sz \<le> q"
  shows "\<exists>p st'. malloc_case42 sz rq a k st = Inr (p, st') \<and> took st a xs z ys True p st'"
proof -
  note kk = last_chunk [OF own ne(1) segs]
  have qh: "q = c_addr (hd ys)" "q + 24 \<le> a + 4096 * np" using kk(10) ne(2) by simp_all
  define n where "n = gap_lo a xs"
  have nb: "k + 56 \<le> n" "a + 24 \<le> k" "n + 24 + sz \<le> q" using kk(3,4) z(3) by (simp_all add: n_def)
  define m1 where "m1 = st32 (st32 (st32 (st32 (st32 (st32 (st32 (st32 (mem st) (n + 12) LIBALLOC_MAGIC) (n + 4) q) (n + 0) k)
    (n + 16) sz) (n + 20) rq) (n + 8) a) (q + 0) n) (k + 4) n"
  have "ld32 (mem st) (k + 16) = n - (k + 24)" using kk(5) by (simp add: n_def)
  then have new: "add32 (add32 k 24) (rd st (k + 16)) = n" using nb qh kk(9) by (simp add: rd_def arith32)
  have gap: "gap_lo a xs \<le> c_addr z" "c_end z \<le> gap_hi (a + 4096 * np) ys" "c_req z + 32 \<le> c_size z"
    using z ne(2) qh by (simp_all add: gap_hi_def c_end_def)
  have zn: "c_addr z = n" "c_size z = sz" "c_req z = rq" by (simp_all add: z n_def)
  have hd: "headed a xs z ys k q (mem st) m1"
    unfolding headed_def zn
  proof (intro conjI allI impI)
    fix x assume x: "x \<notin> {n..<n + 24} \<union> chunks.relink xs ys \<union> (if xs = [] then {a + 20..<a + 24} else {})"
    show "m1 x = mem st x"
      using relink_out(2) [OF x ne(1)] relink_out(3) [OF x ne(2)] header_out [OF relink_out(1) [OF x]]
      unfolding m1_def kk(1) qh(1) by simp
  qed (use ne nb z(2) kk(9) qh(2) in \<open>simp_all add: m1_def mem_simps\<close>)
  note fin = took_finish [OF own segs gap hd]
  let ?s1 = "wr (n + 12) LIBALLOC_MAGIC st"
  let ?s6 = "wr (n + 8) a (wr (n + 20) rq (wr (n + 16) sz (wr (n + 0) k (wr (n + 4) q ?s1))))"
  have r1: "rd ?s1 (k + 4) = q" using kk(6) nb by (simp add: rd_def mem_simps)
  have r6: "rd ?s6 (k + 4) = q" using kk(6) nb by (simp add: rd_def mem_simps)
  have "wr (k + 4) n (wr (q + 0) n ?s6) = st\<lparr>mem := m1\<rparr>" by (simp add: wr_def m1_def)
  then have "malloc_case42 sz rq a k st = Inr (c_ptr z, st\<lparr>mem := finish a z True m1, l_inuse := add64 (l_inuse st) sz, heap_lock := 0\<rparr>)"
    using fin(1) unfolding malloc_case42_def Let_def new zn r1 r6
    by (simp only: split) (simp add: liballoc_unlock_def lock finish_def Let_def zn)
  then show ?thesis using fin(2) [where zero = True] zn by simp
qed

section \<open>The walk over the chunks of a block\<close>

text \<open>A chunk of the requested size was placed in some gap of the block.\<close>

definition took_block :: "heap_state \<Rightarrow> nat \<Rightarrow> nat \<Rightarrow> chunk list \<Rightarrow> nat \<Rightarrow> nat \<Rightarrow> nat \<Rightarrow> heap_state \<Rightarrow> bool" where
  "took_block st a np chs sz rq p st' \<longleftrightarrow>
     (\<exists>xs z ys zero. chs = xs @ ys \<and> gap_lo a xs \<le> c_addr z \<and> c_end z \<le> gap_hi (a + 4096 * np) ys \<and>
        c_size z = sz \<and> c_req z = rq \<and> took st a xs z ys zero p st')"

lemma took_blockI:
  "took st a xs (Chunk n sz rq) ys zero p st' \<Longrightarrow> chs = xs @ ys \<Longrightarrow> gap_lo a xs \<le> n \<Longrightarrow>
    n + 24 + sz \<le> gap_hi (a + 4096 * np) ys \<Longrightarrow> took_block st a np chs sz rq p st'"
  unfolding took_block_def by (intro exI [of _ xs] exI [of _ "Chunk n sz rq"] exI [of _ ys] exI [of _ zero]) (simp add: c_end_def)

lemma block_size_word: "block_own m (Block a np chs) \<Longrightarrow> ld32 m (a + 12) = 4096 * np"
  by (simp add: block_own_def)

lemma gap_diff:
  assumes "k + 24 + s = lo" "lo \<le> hi" "hi < W32" "k < W32"
  shows "sub32 (sub32 (sub32 hi k) 24) s = hi - lo"
  using assms by (simp add: arith32)

lemma malloc_walk_ok:
  assumes "block_own (mem st) (Block a np (xs @ ys))" and lock: "heap_lock st = 1"
    and "chunk_seg a (mem st) (ld32 (mem st) (a + 20)) 0 xs k q" "chunk_seg a (mem st) q k ys l 0"
    and sz: "rq + 32 \<le> sz" "sz + 24 < W32" and "length ys < n"
  shows "malloc_walk n sz rq a q st = Inr (None, st) \<or>
    (\<exists>p st'. malloc_walk n sz rq a q st = Inr (Some p, st') \<and> took_block st a np (xs @ ys) sz rq p st')"
  using assms(1,3,4,7)
proof (induction ys arbitrary: xs k q n)
  case Nil
  then show ?case by (cases n) auto
next
  case (Cons y ys)
  obtain n' where n: "n = Suc n'" "length ys < n'" using Cons.prems(4) by (cases n) auto
  have q: "q = c_addr y" "q \<noteq> 0" using Cons.prems(3) by simp_all
  let ?q' = "ld32 (mem st) (q + 4)"
  have own': "block_own (mem st) (Block a np ((xs @ [y]) @ ys))" using Cons.prems(1) by simp
  have segs: "chunk_seg a (mem st) (ld32 (mem st) (a + 20)) 0 (xs @ [y]) q ?q'" "chunk_seg a (mem st) ?q' q ys l 0"
    using Cons.prems(2,3) by (auto simp: dlseg_append)
  have ne: "xs @ [y] \<noteq> []" by simp
  note kk = last_chunk [OF own' ne segs]
  let ?lo = "gap_lo a (xs @ [y])"
  have add: "add32 sz 24 = sz + 24" using sz(2) by (simp add: arith32)
  note IH = Cons.IH [OF own' segs n(2), simplified append_assoc append_Cons append_Nil]
  show ?case
  proof (cases ys)
    case Nil
    then have z: "?q' = 0" using segs(2) by simp
    have "add32 a (rd st (a + 12)) = a + 4096 * np"
      using block_size_word [OF own'] kk(9) by (simp add: rd_def arith32)
    moreover have "sub32 (sub32 (sub32 (a + 4096 * np) q) 24) (rd st (q + 16)) = a + 4096 * np - ?lo"
      by (rule gap_diff) (use kk(4,5,7,9) in \<open>auto simp: rd_def\<close>)
    ultimately have diff: "sub32 (sub32 (sub32 (add32 a (rd st (a + 12))) q) 24) (rd st (q + 16)) = a + 4096 * np - ?lo"
      by simp
    show ?thesis
    proof (cases "sz + 24 \<le> a + 4096 * np - ?lo")
      case True
      have own1: "block_own (mem st) (Block a np ((xs @ [y]) @ []))" using own' Nil by simp
      have segs1: "chunk_seg a (mem st) (ld32 (mem st) (a + 20)) 0 (xs @ [y]) q 0" "chunk_seg a (mem st) 0 q [] q 0"
        using segs(1) z by simp_all
      have r: "?lo + 24 + sz \<le> a + 4096 * np" using True kk(7) by linarith
      obtain p st' where c: "malloc_case41 sz rq a q st = Inr (p, st')"
        "took st a (xs @ [y]) (Chunk ?lo sz rq) [] False p st'"
        using malloc_case41_took [OF own1 lock ne segs1 refl sz(1) r] by blast
      have "took_block st a np (xs @ y # ys) sz rq p st'"
        using True kk(7) Nil by (intro took_blockI [OF c(2)]) (auto simp: gap_hi_def)
      then show ?thesis using c(1) q True z diff unfolding n by (auto simp: rd_mem add)
    next
      case False
      then have "malloc_walk n sz rq a q st = malloc_walk n' sz rq a ?q' st"
        using q z diff unfolding n by (simp add: rd_mem add)
      then show ?thesis using IH by simp
    qed
  next
    case (Cons v vs)
    then have nz: "?q' \<noteq> 0" "?q' = c_addr v" using segs(2) by auto
    have lo: "?lo \<le> ?q'" using kk(8) Cons nz(2) by (simp add: gap_hi_def)
    have diff: "sub32 (sub32 (sub32 ?q' q) 24) (rd st (q + 16)) = ?q' - ?lo"
      by (rule gap_diff) (use kk(4,5,7,9) lo in \<open>auto simp: rd_def\<close>)
    show ?thesis
    proof (cases "sz + 24 \<le> ?q' - ?lo")
      case True
      have r: "?lo + 24 + sz \<le> ?q'" using True lo by linarith
      have ys0: "ys \<noteq> []" using Cons by simp
      obtain p st' where c: "malloc_case42 sz rq a q st = Inr (p, st')"
        "took st a (xs @ [y]) (Chunk ?lo sz rq) ys True p st'"
        using malloc_case42_took [OF own' lock ne ys0 segs refl sz(1) r] by blast
      have "took_block st a np (xs @ y # ys) sz rq p st'"
        using True lo Cons nz(2) by (intro took_blockI [OF c(2)]) (auto simp: gap_hi_def)
      then show ?thesis using c(1) q True nz diff unfolding n by (auto simp: rd_mem add)
    next
      case False
      then have "malloc_walk n sz rq a q st = malloc_walk n' sz rq a ?q' st"
        using q nz diff unfolding n by (simp add: rd_mem add)
      then show ?thesis using IH by simp
    qed
  qed
qed

text \<open>The fuel is enough: the chunks of a block are at least 56 bytes apart.\<close>

lemma chunks_length: "chunks_fit lo hi xs \<Longrightarrow> 56 * length xs \<le> hi - lo"
proof (induction xs arbitrary: lo)
  case (Cons x xs)
  then have "56 * length xs \<le> hi - c_end x" "c_end x \<le> hi" "lo + 56 \<le> c_end x"
    using chunks_fit_le [of "c_end x" hi xs] by (auto simp: c_end_def)
  then show ?case by simp
qed simp

lemma malloc_in_block_ok:
  assumes own: "block_own (mem st) (Block a np chs)" and lock: "heap_lock st = 1" and a: "a \<noteq> 0"
    and sz: "rq + 32 \<le> sz" "sz + 24 < W32"
    and room: "chs = [] \<Longrightarrow> sz + 48 \<le> 4096 * np"
  shows "malloc_in_block sz rq a st = Inr (None, st) \<and> chs \<noteq> [] \<or>
    (\<exists>p st'. malloc_in_block sz rq a st = Inr (Some p, st') \<and> took_block st a np chs sz rq p st')"
proof -
  have add: "add32 sz 24 = sz + 24" using sz(2) by (simp add: arith32)
  have hi: "a + 4096 * np < W32" and fit: "chunks_fit (a + 24) (a + 4096 * np) chs"
    using own by (simp_all add: block_own_def b_end_def)
  obtain l where seg: "chunk_seg a (mem st) (ld32 (mem st) (a + 20)) 0 chs l 0" using own by (auto simp: block_own_def)
  show ?thesis
  proof (cases chs)
    case Nil
    then have "rd st (a + 20) = 0" using seg by (simp add: rd_def)
    moreover obtain p st' where c: "malloc_case2 sz rq a st = Inr (p, st')" "took st a [] (Chunk (a + 24) sz rq) [] True p st'"
      using malloc_case2_took [OF _ lock refl sz(1), of a np] own room Nil by auto
    moreover have "took_block st a np chs sz rq p st'"
      using room Nil by (intro took_blockI [OF c(2)]) (auto simp: gap_lo_def gap_hi_def)
    ultimately show ?thesis by (auto simp: malloc_in_block_def)
  next
    case (Cons y ys)
    have q: "ld32 (mem st) (a + 20) = c_addr y" "c_addr y \<noteq> 0" using seg Cons by auto
    have y: "a + 24 \<le> c_addr y" "c_addr y < W32" using chunks_fit_mem [OF fit, of y] Cons hi by (auto simp: c_end_def)
    have diff: "sub32 (sub32 (c_addr y) a) 24 = c_addr y - (a + 24)" using y by (simp add: arith32)
    show ?thesis
    proof (cases "sz + 24 \<le> c_addr y - (a + 24)")
      case True
      have r: "a + 48 + sz \<le> c_addr y" using True y by linarith
      obtain p st' where c: "malloc_case3 sz rq a st = Inr (p, st')" "took st a [] (Chunk (a + 24) sz rq) (y # ys) True p st'"
        using malloc_case3_took [OF own [unfolded Cons] lock refl sz(1) r] by blast
      have "took_block st a np chs sz rq p st'"
        using True y Cons by (intro took_blockI [OF c(2)]) (auto simp: gap_lo_def gap_hi_def)
      then show ?thesis using c(1) q True diff by (auto simp: malloc_in_block_def rd_mem add)
    next
      case False
      have "length chs < W32" using chunks_length [OF fit] hi by linarith
      then have "malloc_walk W32 sz rq a (c_addr y) st = Inr (None, st) \<or>
          (\<exists>p st'. malloc_walk W32 sz rq a (c_addr y) st = Inr (Some p, st') \<and> took_block st a np chs sz rq p st')"
        using malloc_walk_ok [of st a np "[]" chs 0 "c_addr y" l rq sz W32] own lock seg sz q by simp
      then show ?thesis using q False diff Cons by (auto simp: malloc_in_block_def rd_mem add)
    qed
  qed
qed

end
