(* ===== verification/HeapOps.thy ===== *)
theory HeapOps
  imports HeapMalloc
begin

text \<open>
  The heap as a whole: its invariant over the list of blocks, new blocks from \<open>mm_alloc_pages\<close>, and
  the correctness of \<open>malloc\<close> as its callers see it: aligned, disjoint, undisturbed memory.
\<close>

section \<open>The invariant\<close>

abbreviation block_seg :: "mem \<Rightarrow> nat \<Rightarrow> nat \<Rightarrow> block list \<Rightarrow> nat \<Rightarrow> nat \<Rightarrow> bool" where
  "block_seg \<equiv> dlseg b_addr block_own"

text \<open>A block is a run of used frames.\<close>

definition block_frames :: "'a mm_state_scheme \<Rightarrow> block \<Rightarrow> bool" where
  "block_frames st B \<longleftrightarrow> b_addr B mod 4096 = 0 \<and> b_addr B \<noteq> 0 \<and>
     (\<forall>g. b_addr B div 4096 \<le> g \<and> g < b_addr B div 4096 + b_pages B \<longrightarrow> g < nframes st \<and> used st g)"

text \<open>The memory manager's own data lies in used frames.\<close>

definition meta_reserved :: "'a mm_state_scheme \<Rightarrow> bool" where
  "meta_reserved st \<longleftrightarrow> (\<forall>x. mm_meta st x \<longrightarrow> x div 4096 < nframes st \<and> used st (x div 4096))"

definition heap_ok :: "heap_state \<Rightarrow> block list \<Rightarrow> bool" where
  "heap_ok st Bs \<longleftrightarrow> mm_layout st \<and> heap_online st \<and> meta_reserved st \<and>
     (\<exists>l. block_seg (mem st) (l_memRoot st) 0 Bs l 0) \<and> blocks.separated Bs \<and>
     (l_bestBet st = 0 \<or> l_bestBet st \<in> b_addr ` set Bs) \<and>
     (\<forall>B\<in>set Bs. block_frames st B \<and> (\<forall>x\<in>blocks.node B. \<not> mm_meta st x))"

definition heap_inv :: "heap_state \<Rightarrow> block list \<Rightarrow> bool" where
  "heap_inv st Bs \<longleftrightarrow> heap_ok st Bs \<and> heap_lock st = 0 \<and> (\<forall>B\<in>set Bs. b_chunks B \<noteq> [])"

text \<open>What the callers hold: the pointers and the sizes they asked for.\<close>

definition live :: "block list \<Rightarrow> (nat \<times> nat) set" where
  "live Bs = {(c_ptr x, c_req x) | x B. B \<in> set Bs \<and> x \<in> set (b_chunks B)}"

lemma heap_okD:
  assumes "heap_ok st Bs"
  shows "mm_layout st" "heap_online st" "meta_reserved st" "blocks.separated Bs"
    "l_bestBet st = 0 \<or> l_bestBet st \<in> b_addr ` set Bs"
    "B \<in> set Bs \<Longrightarrow> block_frames st B" "B \<in> set Bs \<Longrightarrow> x \<in> blocks.node B \<Longrightarrow> \<not> mm_meta st x"
    "B \<in> set Bs \<Longrightarrow> block_own (mem st) B"
proof -
  show "B \<in> set Bs \<Longrightarrow> block_own (mem st) B" using assms dlseg_own by (fastforce simp: heap_ok_def)
qed (use assms in \<open>auto simp: heap_ok_def\<close>)

lemma block_own_bounds:
  assumes "block_own m B"
  shows "b_addr B + 24 \<le> b_end B" "b_end B < W32" "chunks_fit (b_addr B + 24) (b_end B) (b_chunks B)"
    "blocks.node B = {b_addr B..<b_end B}"
proof -
  show fit: "chunks_fit (b_addr B + 24) (b_end B) (b_chunks B)" and "b_end B < W32" using assms by (simp_all add: block_own_def)
  show "b_addr B + 24 \<le> b_end B" using chunks_fit_le [OF fit] .
  then show "blocks.node B = {b_addr B..<b_end B}" by (rule block_node)
qed

section \<open>Writes that spare the memory manager's data\<close>

lemma outside_meta:
  fixes st :: "'a mm_state_scheme" and st' :: "'b mm_state_scheme"
  assumes lay: "mm_layout st" and on: "heap_online st"
    and eq: "kernel_dir st' = kernel_dir st" "frames st' = frames st" "nframes st' = nframes st" "heap_online st' = heap_online st"
    and m: "\<And>x. mm_meta st x \<Longrightarrow> mem st' x = mem st x"
  shows "mm_layout st'" "t < 1024 \<Longrightarrow> tab st' t = tab st t" "mm_meta st' x = mm_meta st x"
    "g < nframes st \<Longrightarrow> used st' g = used st g"
proof -
  have dir: "same_on {kernel_dir st..<kernel_dir st + 8196} (mem st) (mem st')"
    using m by (auto simp: same_on_def mm_meta_def)
  show tab: "tab st' t = tab st t" if "t < 1024" for t
    unfolding eq(1) using dir_table_frame [OF dir that] .
  have sz: "bitmap_size st' = bitmap_size st" by (simp add: bitmap_size_def eq)
  show "mm_meta st' x = mm_meta st x" for x
    unfolding mm_meta_def eq sz using tab unfolding eq by auto
  show "mm_layout st'" using lay on tab unfolding mm_layout_def eq sz by auto
  have "same_on {frames st..<frames st + bitmap_size st} (mem st) (mem st')"
    using m by (auto simp: same_on_def mm_meta_def)
  from used_frame [OF this eq(2)] show "used st' g = used st g" if "g < nframes st" for g using that .
qed

section \<open>Changing one block\<close>

lemma heap_ok_update:
  assumes ok: "heap_ok st (As @ B # Cs)"
    and eq: "kernel_dir st' = kernel_dir st" "frames st' = frames st" "nframes st' = nframes st"
      "heap_online st' = heap_online st" "l_memRoot st' = l_memRoot st"
    and bet: "l_bestBet st' = 0 \<or> l_bestBet st' \<in> b_addr ` set (As @ B # Cs)"
    and B': "block_own (mem st') B'" "b_addr B' = b_addr B" "b_pages B' = b_pages B"
    and out: "\<And>x. x \<notin> {b_addr B + 8..<b_end B} \<Longrightarrow> mem st' x = mem st x"
  shows "heap_ok st' (As @ B' # Cs)"
proof -
  note okD = heap_okD [OF ok]
  have Bi: "B \<in> set (As @ B # Cs)" by simp
  note ob = block_own_bounds [OF okD(8) [OF Bi]]
  have e: "b_end B' = b_end B" using B' by (simp add: b_end_def)
  have nodeB: "blocks.node B' = blocks.node B"
    using block_own_bounds(4) [OF B'(1)] ob(4) B' e by simp
  have m: "mem st' x = mem st x" if "mm_meta st x" for x
  proof -
    have "x \<notin> blocks.node B" using okD(7) [OF Bi] that by blast
    then show ?thesis using out ob by auto
  qed
  note mm = outside_meta [OF okD(1,2) eq(1-4) m]
  have nodes: "blocks.node C \<inter> blocks.node B = {}" if "C \<in> set (As @ Cs)" for C
    using okD(4) that by (auto simp: blocks.separated_append blocks.separated_Cons)
  have same: "same_on (blocks.node C) (mem st) (mem st')" if "C \<in> set (As @ Cs)" for C
    using nodes [OF that] out ob by (auto simp: same_on_def)
  obtain l where l: "block_seg (mem st) (l_memRoot st) 0 (As @ B # Cs) l 0" using ok by (auto simp: heap_ok_def)
  have "block_seg (mem st') (l_memRoot st) 0 (As @ B' # Cs) l 0"
    by (rule blocks.seg_update [OF l B'(2,1)]) (use same out in \<open>auto simp: same_on_def\<close>)
  moreover have "blocks.separated (As @ B' # Cs)"
    using okD(4) by (simp add: blocks.separated_append blocks.separated_Cons nodeB)
  moreover have "meta_reserved st'" using okD(3) mm unfolding meta_reserved_def eq by auto
  moreover have "block_frames st' C" if "block_frames st C" for C
    using that mm(4) unfolding block_frames_def eq by auto
  moreover have "block_frames st' B'" if "block_frames st B" using that mm(4) B' unfolding block_frames_def eq by auto
  ultimately show ?thesis
    using okD(2,6,7) mm(1,3) bet eq(4,5) B'(2) unfolding heap_ok_def by (auto simp: nodeB)
qed

text \<open>Chunks of different blocks, and of one block, do not overlap.\<close>

lemma live_chunk:
  assumes "block_own m B" "x \<in> set (b_chunks B)"
  shows "b_addr B + 24 \<le> c_addr x" "c_addr x + 40 \<le> c_ptr x" "c_ptr x + c_req x < c_end x" "c_end x \<le> b_end B"
  using chunks_fit_mem [OF block_own_bounds(3) [OF assms(1)] assms(2)] c_ptr_bounds [of x] chunk_node_end [of x] by auto

lemma same_chunk:
  assumes "block_own m B" "x \<in> set (b_chunks B)" "y \<in> set (b_chunks B)" "x \<noteq> y"
  shows "c_end x \<le> c_addr y \<or> c_end y \<le> c_addr x"
proof -
  note fit = block_own_bounds(3) [OF assms(1)]
  obtain us vs where uv: "b_chunks B = us @ x # vs" using split_list [OF assms(2)] by blast
  then have "y \<in> set us \<or> y \<in> set vs" using assms(3,4) by auto
  then show ?thesis
    using chunks_fit_before [of "b_addr B + 24" "b_end B" us "x # vs" y x]
      chunks_fit_before [of "b_addr B + 24" "b_end B" "us @ [x]" vs x y] fit uv by auto
qed

lemma live_apart:
  assumes ok: "heap_ok st Bs" and p: "(p, n) \<in> live Bs" and q: "(q, k) \<in> live Bs" and ne: "(p, n) \<noteq> (q, k)"
  shows "apart p n q k"
proof -
  obtain x B where x: "B \<in> set Bs" "x \<in> set (b_chunks B)" "p = c_ptr x" "n = c_req x" using p by (auto simp: live_def)
  obtain y C where y: "C \<in> set Bs" "y \<in> set (b_chunks C)" "q = c_ptr y" "k = c_req y" using q by (auto simp: live_def)
  have own: "block_own (mem st) B" "block_own (mem st) C" using heap_okD(8) [OF ok] x y by auto
  note lx = live_chunk [OF own(1) x(2)] and ly = live_chunk [OF own(2) y(2)]
  have "c_end x \<le> c_addr y \<or> c_end y \<le> c_addr x"
  proof (cases "B = C")
    case True
    then show ?thesis using same_chunk [OF own(1) x(2)] x y ne by auto
  next
    case False
    obtain us vs where uv: "Bs = us @ B # vs" using split_list [OF x(1)] by blast
    then have "C \<in> set us \<or> C \<in> set vs" using y(1) False by auto
    then have disj: "blocks.node B \<inter> blocks.node C = {}"
      using heap_okD(4) [OF ok] uv by (auto simp: blocks.separated_append blocks.separated_Cons)
    have "c_addr x \<in> blocks.node B" "c_addr y \<in> blocks.node C"
      using lx ly block_own_bounds(4) [OF own(1)] block_own_bounds(4) [OF own(2)] by auto
    then have "c_addr x \<notin> blocks.node C" "c_addr y \<notin> blocks.node B" using disj by auto
    then show ?thesis using lx ly block_own_bounds(4) [OF own(1)] block_own_bounds(4) [OF own(2)] by auto
  qed
  then show ?thesis using lx ly x y by (auto simp: apart_def)
qed

section \<open>A chunk taken from a block, seen from the heap\<close>

text \<open>
  \<open>gives st Bs rq p st' Bs'\<close>: the heap with the blocks \<open>Bs\<close> becomes the heap with the blocks \<open>Bs'\<close>; \<open>p\<close> is a
  new aligned pointer to \<open>rq\<close> bytes apart from all others, and the bytes of all others are unchanged.
\<close>

definition gives :: "heap_state \<Rightarrow> block list \<Rightarrow> nat \<Rightarrow> nat \<Rightarrow> heap_state \<Rightarrow> block list \<Rightarrow> bool" where
  "gives st Bs rq p st' Bs' \<longleftrightarrow> heap_ok st' Bs' \<and> heap_lock st' = 0 \<and> p mod 16 = 0 \<and> p \<noteq> 0 \<and> p + rq < W32 \<and>
     live Bs' = insert (p, rq) (live Bs) \<and>
     (\<forall>(q, k)\<in>live Bs. p \<noteq> q \<and> apart p rq q k \<and> same_on {q..<q + k} (mem st) (mem st'))"

lemma live_split: "live (As @ B # Cs) = live (As @ Cs) \<union> {(c_ptr x, c_req x) | x. x \<in> set (b_chunks B)}"
  by (auto simp: live_def)

lemma took_gives:
  assumes ok: "heap_ok st (As @ B # Cs)" and rq: "rq + 32 \<le> sz"
    and took: "took_block st (b_addr B) (b_pages B) (b_chunks B) sz rq p st'"
  shows "\<exists>B'. gives st (As @ B # Cs) rq p st' (As @ B' # Cs) \<and> b_chunks B' \<noteq> []"
proof -
  have Bi: "B \<in> set (As @ B # Cs)" by simp
  note own = heap_okD(8) [OF ok Bi]
  note ob = block_own_bounds [OF own]
  let ?a = "b_addr B" and ?np = "b_pages B"
  obtain xs z ys zero where ch: "b_chunks B = xs @ ys"
    and z: "gap_lo ?a xs \<le> c_addr z" "c_end z \<le> gap_hi (?a + 4096 * ?np) ys" "c_size z = sz" "c_req z = rq"
    and tk: "took st ?a xs z ys zero p st'" using took by (auto simp: took_block_def)
  have zr: "c_req z + 32 \<le> c_size z" using z rq by simp
  have Beq: "B = Block ?a ?np (xs @ ys)" using ch by (cases B) simp
  obtain m' k q l where st': "st' = st\<lparr>mem := m', l_inuse := add64 (l_inuse st) (c_size z), heap_lock := 0\<rparr>"
    and segs: "chunk_seg ?a (mem st) (ld32 (mem st) (?a + 20)) 0 xs k q" "chunk_seg ?a (mem st) q k ys l 0"
    and pl: "placed ?a xs z ys k q (mem st) m'" and p: "p = c_ptr z"
    using tk by (auto simp: took_def)
  have own1: "block_own (mem st) (Block ?a ?np (xs @ ys))" using own Beq by simp
  have fit: "chunks_fit (?a + 24) (?a + 4096 * ?np) (xs @ ys)" using own1 by (simp add: block_own_def b_end_def)
  note own2 = placed_own [OF own1 segs z(1,2) zr pl]
  note words = placed_words_block [OF fit z(1,2)]
  have e: "b_end B = ?a + 4096 * ?np" by (simp add: b_end_def)
  have same: "m' x = mem st x" if "x \<notin> placed_words ?a xs z ys" for x using pl that by (simp add: placed_def)
  let ?B' = "Block ?a ?np (xs @ z # ys)"
  have out: "mem st' x = mem st x" if "x \<notin> {?a + 8..<b_end B}" for x
  proof -
    have "x \<notin> {?a + 16..<?a + 4096 * ?np}" using that by (auto simp: e)
    then have "x \<notin> placed_words ?a xs z ys" using words(1) by blast
    then show ?thesis using same by (simp add: st')
  qed
  have ok': "heap_ok st' (As @ ?B' # Cs)"
    by (rule heap_ok_update [OF ok]) (use own2 out heap_okD(5) [OF ok] in \<open>auto simp: st'\<close>)
  have zB: "z \<in> set (b_chunks ?B')" by simp
  have own3: "block_own (mem st') ?B'" using own2 by (simp add: st')
  note lz = live_chunk [OF own3 zB]
  have new: "live (As @ ?B' # Cs) = insert (p, rq) (live (As @ B # Cs))"
    unfolding live_split using ch z(4) p by auto
  have fresh: "p \<noteq> w \<and> same_on {w..<w + n} (mem st) (mem st')" if wn: "(w, n) \<in> live (As @ B # Cs)" for w n
  proof -
    obtain x C where x: "C \<in> set (As @ B # Cs)" "x \<in> set (b_chunks C)" "w = c_ptr x" "n = c_req x"
      using wn by (auto simp: live_def)
    have ownC: "block_own (mem st) C" using heap_okD(8) [OF ok x(1)] .
    note lx = live_chunk [OF ownC x(2)]
    show ?thesis
    proof (cases "C = B")
      case True
      then have xi: "x \<in> set (xs @ ys)" using x(2) ch by simp
      have "c_end x \<le> c_addr z \<or> c_end z \<le> c_addr x" by (rule gap_chunks [OF fit z(1,2) xi])
      then have "p \<noteq> w" using lx lz p x(3) by auto
      moreover have "{w..<w + n} \<subseteq> {c_addr x + 8..<c_end x}" using lx x by auto
      then have "same_on {w..<w + n} (mem st) m'"
        using words(2) [OF xi] same by (fastforce simp: same_on_def)
      ultimately show ?thesis by (simp add: st')
    next
      case False
      have disj: "blocks.node C \<inter> blocks.node B = {}"
        using heap_okD(4) [OF ok] x(1) False by (auto simp: blocks.separated_append blocks.separated_Cons)
      have sub: "{w..<w + n} \<subseteq> blocks.node C" using lx x block_own_bounds(4) [OF ownC] by auto
      have nb: "y \<notin> {?a + 8..<b_end B}" if "y \<in> blocks.node C" for y
        using disj that unfolding ob(4) by auto
      have "same_on {w..<w + n} (mem st) (mem st')" unfolding same_on_def using out nb sub by blast
      moreover have "w \<in> blocks.node C" using lx x block_own_bounds(4) [OF ownC] by auto
      moreover have "p \<in> blocks.node B" using lz p ob(4) by (auto simp: b_end_def)
      ultimately show ?thesis using disj by blast
    qed
  qed
  have ap: "apart p rq w n" if "(w, n) \<in> live (As @ B # Cs)" for w n
    using live_apart [OF ok', of p rq w n] that fresh [OF that] new by auto
  have "\<forall>(w, n)\<in>live (As @ B # Cs). p \<noteq> w \<and> apart p rq w n \<and> same_on {w..<w + n} (mem st) (mem st')"
  proof (rule ballI, clarify)
    fix w n assume "(w, n) \<in> live (As @ B # Cs)"
    with fresh ap show "p \<noteq> w \<and> apart p rq w n \<and> same_on {w..<w + n} (mem st) (mem st')" by blast
  qed
  moreover have "p + rq < W32" "p mod 16 = 0" "p \<noteq> 0"
    using lz p z(4) block_own_bounds(2) [OF own3] c_ptr_bounds [of z] by (auto simp: b_end_def)
  moreover have "heap_lock st' = 0" by (simp add: st')
  ultimately have "gives st (As @ B # Cs) rq p st' (As @ ?B' # Cs)"
    using ok' new unfolding gives_def by (intro conjI)
  then show ?thesis by (intro exI [of _ ?B']) simp
qed

section \<open>New blocks\<close>

text \<open>The system has room for a block for \<open>sz\<close> bytes: a run of free frames whose tables exist.\<close>

definition system_room :: "nat \<Rightarrow> 'a mm_state_scheme \<Rightarrow> bool" where
  "system_room sz st \<longleftrightarrow>
     (let n = block_pages sz; k = first_n_frames n st
      in nframes st + n \<le> 1048576 \<and> 0 < k \<and> k + n \<le> nframes st \<and>
         (\<forall>g. k \<le> g \<and> g < k + n \<longrightarrow> tab st (g div 1024) \<noteq> 0))"

lemma block_pages_enough:
  assumes "sz + 4144 < W32"
  shows "16 \<le> block_pages sz" "sz + 48 \<le> 4096 * block_pages sz"
proof -
  define s where "s = sz + 48"
  have a: "add32 (add32 sz 24) 24 = s" using assms by (simp add: arith32 s_def)
  have "s \<le> 4096 * (if s mod 4096 = 0 then s div 4096 else s div 4096 + 1)"
    using div_mult_mod_eq [of s 4096] mod_less_divisor [of 4096 s] by (auto simp: mult.commute)
  then show "16 \<le> block_pages sz" "sz + 48 \<le> 4096 * block_pages sz"
    unfolding block_pages_def a Let_def s_def [symmetric] by auto
qed

text \<open>Memory outside the blocks and the memory manager's data may change freely.\<close>

lemma heap_ok_frame:
  assumes ok: "heap_ok st Bs"
    and eq: "kernel_dir st' = kernel_dir st" "frames st' = frames st" "nframes st' = nframes st"
      "heap_online st' = heap_online st" "l_memRoot st' = l_memRoot st"
    and bet: "l_bestBet st' = 0 \<or> l_bestBet st' \<in> b_addr ` set Bs"
    and m: "\<And>x. mm_meta st x \<Longrightarrow> mem st' x = mem st x"
    and same: "\<And>B. B \<in> set Bs \<Longrightarrow> same_on (blocks.node B) (mem st) (mem st')"
  shows "heap_ok st' Bs"
proof -
  note okD = heap_okD [OF ok]
  note mm = outside_meta [OF okD(1,2) eq(1-4) m]
  obtain l where "block_seg (mem st) (l_memRoot st) 0 Bs l 0" using ok by (auto simp: heap_ok_def)
  then have "block_seg (mem st') (l_memRoot st) 0 Bs l 0" using blocks.seg_frame same by blast
  moreover have "meta_reserved st'" using okD(3) mm unfolding meta_reserved_def eq by auto
  moreover have "block_frames st' C" if "block_frames st C" for C
    using that mm(4) unfolding block_frames_def eq by auto
  ultimately show ?thesis
    using okD(2,4,6,7) mm(1,3) bet eq(4,5) unfolding heap_ok_def by auto
qed

lemma more_eq:
  fixes st st' :: heap_state
  assumes "mm_state.more st' = mm_state.more st"
  shows "heap_lock st' = heap_lock st" "l_memRoot st' = l_memRoot st" "l_bestBet st' = l_bestBet st"
    "l_allocated st' = l_allocated st" "l_inuse st' = l_inuse st"
  using assms by (cases st; cases st'; simp)+

lemma node_frame:
  assumes "block_frames st B" "block_own m B" "x \<in> blocks.node B"
  shows "x div 4096 < nframes st \<and> used st (x div 4096)"
proof -
  obtain g where g: "b_addr B = 4096 * g" using assms(1) by (auto simp: block_frames_def elim: dvdE)
  have "4096 * g \<le> x" "x < 4096 * (g + b_pages B)"
    using assms(3) block_own_bounds(4) [OF assms(2)] g by (auto simp: b_end_def)
  then have "g \<le> x div 4096" "x div 4096 < g + b_pages B"
    by (simp_all add: less_eq_div_iff_mult_less_eq div_less_iff_less_mult mult.commute)
  then show ?thesis using assms(1) g by (simp add: block_frames_def)
qed

text \<open>The heap after the system gave it the frames from \<open>k\<close> on.\<close>

lemma system_pages:
  assumes ok: "heap_ok st Bs" and n: "0 < n" "nframes st + n \<le> 1048576"
    and k: "first_n_frames n st = k" "k + n \<le> nframes st"
    and tabs: "\<And>g. k \<le> g \<Longrightarrow> g < k + n \<Longrightarrow> tab st (g div 1024) \<noteq> 0"
  shows "\<exists>st1. mm_alloc_pages n st = Inr (4096 * k, st1) \<and> heap_ok st1 Bs \<and> mm_state.more st1 = mm_state.more st \<and>
    (\<forall>g. k \<le> g \<and> g < k + n \<longrightarrow> g < nframes st1 \<and> used st1 g) \<and>
    (\<forall>B\<in>set Bs. same_on (blocks.node B) (mem st) (mem st1) \<and> blocks.node B \<inter> {4096 * k..<4096 * (k + n)} = {}) \<and>
    (\<forall>x\<in>{4096 * k..<4096 * (k + n)}. \<not> mm_meta st1 x) \<and> nframes st1 < 1048576"
proof -
  note okD = heap_okD [OF ok]
  obtain st1 where run: "mm_alloc_pages n st = Inr (4096 * k, st1)"
    and s: "mm_step st (run_map k n st) (run_used k n st) st1"
    using mm_alloc_pages_step(1) [OF okD(1) n k tabs] by blast
  note free = mm_alloc_pages_step(2) [OF okD(1) n k tabs]
  note sD = mm_stepD [OF s]
  have tab: "tab st1 t = tab st t" if "t < 1024" for t using sD(13) [OF okD(2) that] .
  have meta: "mm_meta st1 x = mm_meta st x" for x
    unfolding mm_meta_def using tab sD(2,3,5) by (auto simp: bitmap_size_def)
  have frame: "x div 4096 \<in> {k..<k + n}" if "x \<in> {4096 * k..<4096 * (k + n)}" for x
    using that by (simp add: less_eq_div_iff_mult_less_eq div_less_iff_less_mult mult.commute)
  have used1: "used st1 g" if "used st g" "g < nframes st" for g
    using sD(9) [OF that(2)] that by (simp add: run_used_def)
  have disj: "blocks.node B \<inter> {4096 * k..<4096 * (k + n)} = {}" if B: "B \<in> set Bs" for B
  proof -
    have False if "x \<in> blocks.node B" "x \<in> {4096 * k..<4096 * (k + n)}" for x
      using node_frame [OF okD(6) [OF B] okD(8) [OF B] that(1)] free frame [OF that(2)] by auto
    then show ?thesis by blast
  qed
  have nmeta: "\<not> mm_meta st1 x" if "x \<in> {4096 * k..<4096 * (k + n)}" for x
    using okD(3) free frame [OF that] unfolding meta meta_reserved_def by auto
  have same: "same_on (blocks.node B) (mem st) (mem st1)" if "B \<in> set Bs" for B
    using okD(7) [OF that] sD(11) unfolding meta same_on_def by blast
  obtain l where "block_seg (mem st) (l_memRoot st) 0 Bs l 0" using ok by (auto simp: heap_ok_def)
  then have seg: "block_seg (mem st1) (l_memRoot st) 0 Bs l 0" using blocks.seg_frame same by blast
  have fr: "block_frames st1 C" if "block_frames st C" for C
    using that used1 unfolding block_frames_def sD(3) by auto
  have res: "meta_reserved st1"
    using okD(3) used1 unfolding meta_reserved_def meta sD(3) by auto
  have "heap_ok st1 Bs"
    unfolding heap_ok_def using sD(1,4) okD(2,4,5,6,7) seg fr res meta more_eq [OF sD(7)] by auto
  moreover have "g < nframes st1 \<and> used st1 g" if "k \<le> g" "g < k + n" for g
    using that k(2) sD(3) sD(9) [of g] by (simp add: run_used_def)
  moreover have "nframes st1 < 1048576" using mm_layoutD(1) [OF sD(1)] .
  ultimately show ?thesis using run sD(7) disj nmeta same by blast
qed

text \<open>A new block, not linked yet.\<close>

definition fresh_block :: "heap_state \<Rightarrow> block list \<Rightarrow> nat \<Rightarrow> nat \<Rightarrow> heap_state \<Rightarrow> bool" where
  "fresh_block st Bs a np st' \<longleftrightarrow> heap_ok st' Bs \<and> a \<noteq> 0 \<and> block_own (mem st') (Block a np []) \<and>
     ld32 (mem st') a = 0 \<and> ld32 (mem st') (a + 4) = 0 \<and> block_frames st' (Block a np []) \<and>
     (\<forall>x\<in>{a..<a + 4096 * np}. \<not> mm_meta st' x) \<and>
     (\<forall>B\<in>set Bs. blocks.node B \<inter> {a..<a + 4096 * np} = {} \<and> same_on (blocks.node B) (mem st) (mem st')) \<and>
     heap_lock st' = heap_lock st \<and> l_memRoot st' = l_memRoot st \<and> l_bestBet st' = l_bestBet st"

lemma allocate_new_page_ok:
  assumes ok: "heap_ok st Bs" and room: "system_room sz st" and sz: "sz + 4144 < W32"
  shows "\<exists>a st'. allocate_new_page sz st = Inr (a, st') \<and> fresh_block st Bs a (block_pages sz) st'"
proof -
  define n where "n = block_pages sz"
  define k where "k = first_n_frames n st"
  have n: "0 < n" "16 \<le> n" using block_pages_enough [OF sz] by (simp_all add: n_def)
  have rm: "nframes st + n \<le> 1048576" "0 < k" "k + n \<le> nframes st"
      "\<And>g. k \<le> g \<Longrightarrow> g < k + n \<Longrightarrow> tab st (g div 1024) \<noteq> 0"
    using room by (auto simp: system_room_def Let_def n_def k_def)
  obtain st1 where run: "mm_alloc_pages n st = Inr (4096 * k, st1)" and ok1: "heap_ok st1 Bs"
    and more: "mm_state.more st1 = mm_state.more st"
    and us: "\<And>g. k \<le> g \<Longrightarrow> g < k + n \<Longrightarrow> g < nframes st1 \<and> used st1 g"
    and bl: "\<And>B. B \<in> set Bs \<Longrightarrow> same_on (blocks.node B) (mem st) (mem st1)"
      "\<And>B. B \<in> set Bs \<Longrightarrow> blocks.node B \<inter> {4096 * k..<4096 * (k + n)} = {}"
    and nm: "\<And>x. x \<in> {4096 * k..<4096 * (k + n)} \<Longrightarrow> \<not> mm_meta st1 x" and nf: "nframes st1 < 1048576"
    using system_pages [OF ok n(1) rm(1) _ rm(3,4)] k_def by blast
  define a where "a = 4096 * k"
  have "k + (n - 1) < nframes st1" using us [of "k + (n - 1)"] n by simp
  then have "k + n < 1048576" using n(1) nf by linarith
  then have a: "a \<noteq> 0" "a + 4096 * n < W32" "a + 4096 * n = 4096 * (k + n)" using rm(2) by (simp_all add: a_def)
  then have R: "{a..<a + 4096 * n} = {4096 * k..<4096 * (k + n)}" by (simp add: a_def)
  define m where "m = st32 (st32 (st32 (st32 (st32 (st32 (mem st1) (a + 0) 0) (a + 4) 0) (a + 8) n) (a + 12) (4096 * n))
      (a + 16) 24) (a + 20) 0"
  define st' where "st' = st1\<lparr>mem := m, l_allocated := add64 (l_allocated st1) (4096 * n)\<rparr>"
  have nb: "n < W32" "4096 * n < W32" using a(2) by simp_all
  have words: "ld32 m a = 0" "ld32 m (a + 4) = 0" "ld32 m (a + 8) = n" "ld32 m (a + 12) = 4096 * n"
    "ld32 m (a + 16) = 24" "ld32 m (a + 20) = 0"
    using nb by (simp_all add: m_def mem_simps)
  have out: "m x = mem st1 x" if "x < a \<or> a + 24 \<le> x" for x
    using header_out [OF that] by (simp add: m_def)
  have "allocate_new_page sz st = Inr (a, st')"
  proof -
    have "mul32 n 4096 = 4096 * n" using nb by (simp add: mul32_def mult.commute)
    then show ?thesis
      using a(1) words(4) nb unfolding allocate_new_page_def n_def [symmetric] Let_def liballoc_alloc_def run
      by (simp add: a_def [symmetric] st'_def wr_def rd_def m_def mem_simps)
  qed
  moreover have "fresh_block st Bs a n st'"
    unfolding fresh_block_def
  proof (intro conjI ballI)
    have sub: "{a..<a + 24} \<subseteq> {a..<a + 4096 * n}" using n by auto
    have meta: "m x = mem st1 x" if "mm_meta st1 x" for x
    proof -
      have "x \<notin> {a..<a + 4096 * n}" using nm that unfolding R by blast
      then show ?thesis using n by (intro out) auto
    qed
    have same: "same_on (blocks.node B) (mem st1) m" if "B \<in> set Bs" for B
      unfolding same_on_def
    proof
      fix x assume "x \<in> blocks.node B"
      then have "x \<notin> {a..<a + 4096 * n}" using bl(2) [OF that] unfolding R by blast
      then show "m x = mem st1 x" using n by (intro out) auto
    qed
    show ok': "heap_ok st' Bs"
      by (rule heap_ok_frame [OF ok1]) (use meta same heap_okD(5) [OF ok1] in \<open>auto simp: st'_def\<close>)
    note mm = outside_meta [OF heap_okD(1,2) [OF ok1], of st']
    have mm': "mm_meta st' x = mm_meta st1 x" "g < nframes st1 \<Longrightarrow> used st' g = used st1 g" for x g
      using mm(3,4) meta by (simp_all add: st'_def)
    show "block_own (mem st') (Block a n [])"
      using words n a(2) by (simp add: block_own_def st'_def b_end_def chunks_usage_def)
    show "block_frames st' (Block a n [])"
      using us mm'(2) a(1) by (auto simp: block_frames_def a_def) (simp add: st'_def)
    show "\<not> mm_meta st' x" if "x \<in> {a..<a + 4096 * n}" for x
      using nm that unfolding mm'(1) R by blast
    show "blocks.node B \<inter> {a..<a + 4096 * n} = {}" if "B \<in> set Bs" for B
      using bl(2) [OF that] unfolding R .
    show "same_on (blocks.node B) (mem st) (mem st')" if "B \<in> set Bs" for B
      using same_on_trans [OF bl(1) [OF that] same [OF that]] by (simp add: st'_def)
  qed (use words a more_eq [OF more] in \<open>auto simp: st'_def\<close>)
  ultimately show ?thesis unfolding n_def by blast
qed

text \<open>Linking it behind the last block, or making it the first one.\<close>

definition same_data :: "heap_state \<Rightarrow> block list \<Rightarrow> heap_state \<Rightarrow> block list \<Rightarrow> bool" where
  "same_data st Bs st' Bs' \<longleftrightarrow> live Bs' = live Bs \<and> (\<forall>(q, k)\<in>live Bs. same_on {q..<q + k} (mem st) (mem st'))"

lemma gives_trans:
  assumes "same_data st Bs st1 Bs1" "gives st1 Bs1 rq p st' Bs'"
  shows "gives st Bs rq p st' Bs'"
  using assms unfolding gives_def same_data_def by (auto intro: same_on_trans)

lemma live_empty: "live (Bs @ [Block a np []]) = live Bs"
  by (auto simp: live_def)

lemma same_dataI:
  assumes ok: "heap_ok st Bs" and live: "live Bs' = live Bs"
    and same: "\<And>B. B \<in> set Bs \<Longrightarrow> same_on {b_addr B + 24..<b_end B} (mem st) (mem st')"
  shows "same_data st Bs st' Bs'"
  unfolding same_data_def
proof (intro conjI ballI live, clarify)
  fix q k assume "(q, k) \<in> live Bs"
  then obtain x B where x: "B \<in> set Bs" "x \<in> set (b_chunks B)" "q = c_ptr x" "k = c_req x" by (auto simp: live_def)
  show "same_on {q..<q + k} (mem st) (mem st')"
    by (rule same_on_mono [OF same [OF x(1)]])
      (use live_chunk [OF heap_okD(8) [OF ok x(1)] x(2)] x in auto)
qed

lemma link_block:
  assumes fresh: "fresh_block st Bs a np st'" and ne: "Bs \<noteq> []" and ok: "heap_ok st Bs"
  defines "k \<equiv> b_addr (last Bs)"
  defines "st3 \<equiv> wr (a + of_prev) k (wr (k + of_next) a st')"
  shows "heap_ok st3 (Bs @ [Block a np []])" "heap_lock st3 = heap_lock st" "rd st3 (k + of_next) = a"
    "same_data st Bs st3 (Bs @ [Block a np []])"
proof -
  have f: "heap_ok st' Bs" "a \<noteq> 0" "block_own (mem st') (Block a np [])" "ld32 (mem st') a = 0" "ld32 (mem st') (a + 4) = 0"
      "block_frames st' (Block a np [])" "heap_lock st' = heap_lock st"
    and fm: "\<And>x. x \<in> {a..<a + 4096 * np} \<Longrightarrow> \<not> mm_meta st' x"
    and fb: "\<And>B. B \<in> set Bs \<Longrightarrow> blocks.node B \<inter> {a..<a + 4096 * np} = {}"
      "\<And>B. B \<in> set Bs \<Longrightarrow> same_on (blocks.node B) (mem st) (mem st')"
    using fresh by (auto simp: fresh_block_def)
  note okD = heap_okD [OF f(1)]
  have L: "last Bs \<in> set Bs" using ne by simp
  note ol = block_own_bounds [OF okD(8) [OF L]]
  note oa = block_own_bounds [OF f(3)]
  have na: "blocks.node (Block a np []) = {a..<a + 4096 * np}" using oa(4) by (simp add: b_end_def)
  have a24: "a + 24 \<le> a + 4096 * np" "a + 4096 * np < W32" using oa by (simp_all add: b_end_def)
  have kb: "{k..<k + 24} \<subseteq> blocks.node (last Bs)" "k < W32" using ol by (auto simp: k_def)
  have ka: "k + 24 \<le> a \<or> a + 24 \<le> k"
  proof (rule ccontr)
    assume "\<not> (k + 24 \<le> a \<or> a + 24 \<le> k)"
    then have "(if k \<le> a then a else k) \<in> {k..<k + 24} \<inter> {a..<a + 4096 * np}" using a24 by auto
    then show False using fb(1) [OF L] kb by blast
  qed
  define m where "m = st32 (st32 (mem st') (k + 4) a) (a + 0) k"
  have m3: "mem st3 = m" by (simp add: st3_def m_def)
  have out: "m x = mem st' x" if "x < k + 4 \<or> k + 4 + 4 \<le> x" "x < a \<or> a + 4 \<le> x" for x
    using that by (simp add: m_def)
  have words: "ld32 m (k + 4) = a" "ld32 m a = k" "ld32 m (a + 4) = 0"
    using ka kb(2) a24 f(5) by (auto simp: m_def mem_simps)
  obtain l where seg: "block_seg (mem st') (l_memRoot st') 0 Bs l 0" using f(1) by (auto simp: heap_ok_def)
  have l: "l = k" using dlseg_last [OF seg] ne by (simp add: k_def)
  let ?N = "Block a np []"
  have sep: "blocks.separated (Bs @ [?N])"
  proof -
    have "blocks.separated [?N]" by (simp add: blocks.separated_def)
    then show ?thesis unfolding blocks.separated_append using okD(4) fb(1) na by simp
  qed
  have R: "blocks.relink Bs [] = {k + 4..<k + 8}" using ne by (simp add: blocks.relink_def k_def)
  have outB: "m x = mem st' x" if "B \<in> set Bs" "x \<in> blocks.node B" "x \<notin> {k + 4..<k + 8}" for B x
  proof (rule out)
    have "x \<notin> {a..<a + 4096 * np}" using fb(1) [OF that(1)] that(2) by blast
    then show "x < a \<or> a + 4 \<le> x" using a24 by auto
  qed (use that in auto)
  have "block_seg m (if Bs = [] then b_addr ?N else l_memRoot st') 0 (Bs @ ?N # []) (if [] = ([] :: block list) then b_addr ?N else l) 0"
  proof (rule blocks.seg_insert [OF seg])
    show "block_seg (mem st') 0 l [] l 0" by simp
    show "same_on (blocks.node B - blocks.relink Bs []) (mem st') m" if "B \<in> set (Bs @ [])" for B
      using outB [of B] that unfolding R same_on_def by auto
    have "same_on (block_foot ?N) (mem st') m"
      unfolding same_on_def
    proof
      fix x assume x: "x \<in> block_foot ?N"
      then have "a + 8 \<le> x" "x \<in> {a..<a + 4096 * np}" by (auto simp: block_foot_def b_end_def)
      moreover have "x \<notin> {k..<k + 24}" using kb(1) fb(1) [OF L] calculation(2) by blast
      ultimately show "m x = mem st' x" by (intro out) auto
    qed
    from blocks.own_frame [OF this f(3)] show "block_own m ?N" .
  qed (use okD(4) block_foot_links words f(2) l in auto)
  then have seg3: "block_seg m (l_memRoot st') 0 (Bs @ [?N]) a 0" using ne by simp
  have mmeta: "m x = mem st' x" if "mm_meta st' x" for x
  proof (rule out)
    have "x \<notin> {k..<k + 24}" using okD(7) [OF L] that kb(1) by blast
    then show "x < k + 4 \<or> k + 4 + 4 \<le> x" by auto
    have "x \<notin> {a..<a + 4096 * np}" using fm that by blast
    then show "x < a \<or> a + 4 \<le> x" using a24 by auto
  qed
  have mm: "mm_layout st3" "mm_meta st3 x = mm_meta st' x" "g < nframes st' \<Longrightarrow> used st3 g = used st' g" for x g
    using outside_meta [OF okD(1,2), of st3] mmeta m3 by (simp_all add: st3_def)
  have fr: "block_frames st3 C" if "block_frames st' C" for C
    using that mm(3) unfolding block_frames_def by (auto simp: st3_def)
  have "meta_reserved st3" using okD(3) mm(2,3) unfolding meta_reserved_def by (auto simp: st3_def)
  moreover have "l_memRoot st3 = l_memRoot st'" "l_bestBet st3 = l_bestBet st'" "heap_online st3 = heap_online st'"
    by (simp_all add: st3_def)
  ultimately show "heap_ok st3 (Bs @ [?N])"
    unfolding heap_ok_def m3 using mm(1,2) okD(2,5,6,7) seg3 sep fr f(6) fm na by auto
  show "heap_lock st3 = heap_lock st" using f(7) by (simp add: st3_def)
  show "rd st3 (k + of_next) = a" using words(1) m3 by (simp add: rd_def)
  show "same_data st Bs st3 (Bs @ [?N])"
  proof (rule same_dataI [OF ok live_empty])
    fix B assume B: "B \<in> set Bs"
    have sub: "{b_addr B + 24..<b_end B} \<subseteq> blocks.node B"
      using block_own_bounds(4) [OF okD(8) [OF B]] by auto
    have "x \<notin> {k + 4..<k + 8}" if "x \<in> {b_addr B + 24..<b_end B}" for x
    proof (cases "B = last Bs")
      case True
      then show ?thesis using that by (auto simp: k_def)
    next
      case False
      have "blocks.node B \<inter> blocks.node (last Bs) = {}"
        using okD(4) B False ne
        by (cases Bs rule: rev_cases) (auto simp: blocks.separated_append)
      then have "x \<notin> {k..<k + 24}" using that sub kb(1) by blast
      then show ?thesis by auto
    qed
    then have "same_on {b_addr B + 24..<b_end B} (mem st') m"
      using outB [OF B] sub unfolding same_on_def by blast
    then show "same_on {b_addr B + 24..<b_end B} (mem st) (mem st3)"
      using same_on_trans [OF same_on_mono [OF fb(2) [OF B] sub]] m3 by simp
  qed
qed

lemma root_block:
  assumes fresh: "fresh_block st [] a np st'"
  shows "heap_ok (st'\<lparr>l_memRoot := a\<rparr>) [Block a np []]"
proof -
  have f: "heap_ok st' []" "a \<noteq> 0" "block_own (mem st') (Block a np [])" "ld32 (mem st') a = 0" "ld32 (mem st') (a + 4) = 0"
      "block_frames st' (Block a np [])" "\<And>x. x \<in> {a..<a + 4096 * np} \<Longrightarrow> \<not> mm_meta st' x"
    using fresh by (auto simp: fresh_block_def)
  let ?s = "st'\<lparr>l_memRoot := a\<rparr>"
  note okD = heap_okD [OF f(1)]
  note mm = outside_meta [OF okD(1,2), of ?s]
  have m: "mm_layout ?s" "mm_meta ?s x = mm_meta st' x" "g < nframes st' \<Longrightarrow> used ?s g = used st' g" for x g
    using mm by simp_all
  have na: "blocks.node (Block a np []) = {a..<a + 4096 * np}" using block_own_bounds(4) [OF f(3)] by (simp add: b_end_def)
  have "meta_reserved ?s" using okD(3) m(2,3) unfolding meta_reserved_def by auto
  moreover have "block_frames ?s (Block a np [])" using f(6) m(3) unfolding block_frames_def by auto
  ultimately show ?thesis
    unfolding heap_ok_def using m(1,2) f okD(2,5) na by (auto simp: blocks.separated_def)
qed

section \<open>The loop over the blocks\<close>

lemma room_cong:
  assumes "mem st' = mem st" "frames st' = frames st" "nframes st' = nframes st" "kernel_dir st' = kernel_dir st"
  shows "system_room sz st' = system_room sz st"
proof -
  have t: "test_frame x st' = test_frame x st" for x
    using assms by (simp add: test_frame_def frame_word_def)
  have "run_busy i n st' = run_busy i n st" for i n by (induction n) (simp_all add: t)
  then show ?thesis using assms by (simp add: system_room_def first_n_frames_def)
qed

text \<open>The request was served: the result is a pointer that the new heap \<open>gives\<close>.\<close>

definition served :: "heap_state \<Rightarrow> block list \<Rightarrow> nat \<Rightarrow> (nat \<times> heap_state) outcome \<Rightarrow> bool" where
  "served st Bs rq r \<longleftrightarrow> (\<exists>p st' Bs'. r = Inr (p, st') \<and> gives st Bs rq p st' Bs' \<and> (\<forall>B\<in>set Bs'. b_chunks B \<noteq> []))"

lemma served_trans: "same_data st Bs st1 Bs1 \<Longrightarrow> served st1 Bs1 rq r \<Longrightarrow> served st Bs rq r"
  unfolding served_def using gives_trans by blast

lemma in_block_served:
  assumes sz: "rq + 32 \<le> sz" "sz + 4144 < W32"
    and ok: "heap_ok st (As @ B # Cs)" and lock: "heap_lock st = 1"
    and ne: "\<And>C. C \<in> set (As @ Cs) \<Longrightarrow> b_chunks C \<noteq> []"
    and room: "b_chunks B = [] \<Longrightarrow> sz + 48 \<le> 4096 * b_pages B"
  shows "malloc_in_block sz rq (b_addr B) st = Inr (None, st) \<and> b_chunks B \<noteq> [] \<or>
    (\<exists>p st'. malloc_in_block sz rq (b_addr B) st = Inr (Some p, st') \<and> served st (As @ B # Cs) rq (Inr (p, st')))"
proof -
  have Bi: "B \<in> set (As @ B # Cs)" by simp
  have own: "block_own (mem st) (Block (b_addr B) (b_pages B) (b_chunks B))" using heap_okD(8) [OF ok Bi] by simp
  have a: "b_addr B \<noteq> 0" using heap_okD(6) [OF ok Bi] by (simp add: block_frames_def)
  have w: "sz + 24 < W32" using sz by simp
  have "served st (As @ B # Cs) rq (Inr (p, st'))"
    if tb: "took_block st (b_addr B) (b_pages B) (b_chunks B) sz rq p st'" for p st'
  proof -
    obtain B' where B': "gives st (As @ B # Cs) rq p st' (As @ B' # Cs)" "b_chunks B' \<noteq> []"
      using took_gives [OF ok sz(1) tb] by blast
    then have "\<forall>C\<in>set (As @ B' # Cs). b_chunks C \<noteq> []" using ne by auto
    with B'(1) show ?thesis unfolding served_def by blast
  qed
  then show ?thesis using malloc_in_block_ok [OF own lock a sz(1) w room] by blast
qed

lemma block_words_rd:
  assumes "heap_ok st (As @ B # Cs)"
  shows "rd st (b_addr B + maj_size) = 4096 * b_pages B" "rd st (b_addr B + maj_usage) = chunks_usage (b_chunks B)"
    "rd st (b_addr B + of_next) = (if Cs = [] then 0 else b_addr (hd Cs))" "b_addr B \<noteq> 0"
    "chunks_usage (b_chunks B) \<le> 4096 * b_pages B" "4096 * b_pages B < W32"
proof -
  have Bi: "B \<in> set (As @ B # Cs)" by simp
  note own = heap_okD(8) [OF assms Bi]
  show "rd st (b_addr B + maj_size) = 4096 * b_pages B" "rd st (b_addr B + maj_usage) = chunks_usage (b_chunks B)"
    using own by (simp_all add: block_own_def rd_def)
  obtain l where "block_seg (mem st) (l_memRoot st) 0 (As @ B # Cs) l 0" using assms by (auto simp: heap_ok_def)
  then show "rd st (b_addr B + of_next) = (if Cs = [] then 0 else b_addr (hd Cs))"
    by (auto simp: dlseg_append rd_def dest: dlseg_head)
  show "b_addr B \<noteq> 0" using heap_okD(6) [OF assms Bi] by (simp add: block_frames_def)
  note fit = block_own_bounds(3) [OF own]
  show "chunks_usage (b_chunks B) \<le> 4096 * b_pages B"
    using chunks_usage_le [OF fit] chunks_fit_le [OF fit] by (simp add: b_end_def)
  show "4096 * b_pages B < W32" using block_own_bounds(2) [OF own] by (simp add: b_end_def)
qed

lemma bet_update:
  assumes "heap_ok st (As @ B # Cs)"
  shows "heap_ok (st\<lparr>l_bestBet := b_addr B\<rparr>) (As @ B # Cs)"
  by (rule heap_ok_frame [OF assms]) auto

text \<open>A block that was just linked serves the request.\<close>

lemma fresh_cases:
  assumes sz: "rq + 32 \<le> sz" "sz + 4144 < W32"
    and ok: "heap_ok st (Bs @ [Block a np []])" and lock: "heap_lock st = 1"
    and ne: "\<And>C. C \<in> set Bs \<Longrightarrow> b_chunks C \<noteq> []" and room: "sz + 48 \<le> 4096 * np"
  shows "\<exists>p st'. malloc_cases2to5 sz rq a sB best st = Inr (Return p, st') \<and>
    served st (Bs @ [Block a np []]) rq (Inr (p, st'))"
  using in_block_served [OF sz ok lock] ne room by (auto simp: malloc_cases2to5_def)

lemma fresh_turn:
  assumes sz: "rq + 32 \<le> sz" "sz + 4144 < W32"
    and ok: "heap_ok st (Bs @ [Block a np []])" and lock: "heap_lock st = 1"
    and ne: "\<And>C. C \<in> set Bs \<Longrightarrow> b_chunks C \<noteq> []" and room: "sz + 48 \<le> 4096 * np"
  shows "served st (Bs @ [Block a np []]) rq (malloc_loop (Suc n) sz rq a sB best st)"
proof -
  note w = block_words_rd [OF ok, simplified]
  have diff: "sub32 (rd st (a + 12)) (rd st (a + 16)) = 4096 * np - 24"
    using w(1,2,5,6) by (simp add: arith32 chunks_usage_def)
  define best' where "best' = (if best < 4096 * np - 24 then 4096 * np - 24 else best)"
  define st1 where "st1 = (if best < 4096 * np - 24 then st\<lparr>l_bestBet := a\<rparr> else st)"
  have ok1: "heap_ok st1 (Bs @ [Block a np []])" using bet_update [OF ok] ok by (simp add: st1_def)
  have lock1: "heap_lock st1 = 1" using lock by (simp add: st1_def)
  obtain p st' where c: "malloc_cases2to5 sz rq a sB best' st1 = Inr (Return p, st')"
    and s: "served st1 (Bs @ [Block a np []]) rq (Inr (p, st'))"
    using fresh_cases [OF sz ok1 lock1 ne room] by blast
  have add: "add32 sz 24 = sz + 24" using sz by (simp add: arith32)
  have big: "\<not> 4096 * np - 24 < sz + 24" using room by linarith
  have "malloc_turn sz rq a sB best st = Inr (Return p, st')"
    unfolding malloc_turn_def Let_def diff add best'_def [symmetric] st1_def [symmetric]
    using big c by simp
  then have "malloc_loop (Suc n) sz rq a sB best st = Inr (p, st')" using w(4) by simp
  moreover have "same_data st (Bs @ [Block a np []]) st1 (Bs @ [Block a np []])"
    by (auto simp: same_data_def st1_def)
  ultimately show ?thesis using served_trans [OF _ s] by simp
qed

end
