(* ===== verification/Malloc.thy ===== *)
theory Malloc
  imports HeapOps
begin

text \<open>
  The correctness of \<open>malloc\<close>: the loop over the blocks, with and without the best bet, ends and serves
  the request, the lock is released and the heap invariant is kept.
\<close>

section \<open>One turn of the loop\<close>

text \<open>The fuel of the loop is enough: blocks are many pages apart.\<close>

lemma new_block_turn:
  assumes sz: "rq + 32 \<le> sz" "sz + 4144 < W32" and ok: "heap_ok st (As @ [B])" and lock: "heap_lock st = 1"
    and room: "system_room sz st"
  obtains a np st1 st3 where "allocate_new_page sz st = Inr (a, st1)" "a \<noteq> 0"
    "st3 = wr (a + of_prev) (b_addr B) (wr (b_addr B + of_next) a st1)" "rd st3 (b_addr B + of_next) = a"
    "heap_ok st3 ((As @ [B]) @ [Block a np []])" "heap_lock st3 = 1"
    "same_data st (As @ [B]) st3 ((As @ [B]) @ [Block a np []])" "sz + 48 \<le> 4096 * np"
proof -
  obtain a st1 where al: "allocate_new_page sz st = Inr (a, st1)"
    and fr: "fresh_block st (As @ [B]) a (block_pages sz) st1"
    using allocate_new_page_ok [OF ok room sz(2)] by blast
  define st3 where "st3 = wr (a + of_prev) (b_addr B) (wr (b_addr B + of_next) a st1)"
  have a: "a \<noteq> 0" using fr by (simp add: fresh_block_def)
  note lb = link_block [OF fr _ ok, simplified, folded st3_def [simplified]]
  show thesis
    by (rule that [OF al a st3_def, of "block_pages sz"])
      (use lb lock block_pages_enough [OF sz(2)] in \<open>auto simp: st3_def\<close>)
qed

lemma malloc_turn_ok:
  assumes sz: "rq + 32 \<le> sz" "sz + 4144 < W32"
    and ok: "heap_ok st (As @ B # Cs)" and lock: "heap_lock st = 1"
    and ne: "\<forall>C\<in>set (As @ B # Cs). b_chunks C \<noteq> []" and room: "system_room sz st"
  obtains
    (found) p st' where "malloc_turn sz rq (b_addr B) sB best st = Inr (Return p, st')"
      "served st (As @ B # Cs) rq (Inr (p, st'))"
  | (onward) best' st1 where "malloc_turn sz rq (b_addr B) sB best st = Inr (Continue (b_addr (hd Cs)) sB best', st1)"
      "Cs \<noteq> []" "heap_ok st1 (As @ B # Cs)" "heap_lock st1 = 1" "mem st1 = mem st" "system_room sz st1"
  | (again) best' st1 where "malloc_turn sz rq (b_addr B) sB best st = Inr (Continue (l_memRoot st) False best', st1)"
      "Cs = []" "sB" "heap_ok st1 (As @ B # Cs)" "heap_lock st1 = 1" "mem st1 = mem st" "system_room sz st1"
      "l_memRoot st1 = l_memRoot st"
  | (fresh) best' a np st1 where "malloc_turn sz rq (b_addr B) sB best st = Inr (Continue a False best', st1)"
      "Cs = []" "\<not> sB" "heap_ok st1 ((As @ [B]) @ [Block a np []])" "heap_lock st1 = 1"
      "same_data st (As @ [B]) st1 ((As @ [B]) @ [Block a np []])" "sz + 48 \<le> 4096 * np"
proof -
  define diff where "diff = sub32 (rd st (b_addr B + maj_size)) (rd st (b_addr B + maj_usage))"
  define best' where "best' = (if best < diff then diff else best)"
  define st1 where "st1 = (if best < diff then st\<lparr>l_bestBet := b_addr B\<rparr> else st)"
  have ok1: "heap_ok st1 (As @ B # Cs)" using bet_update [OF ok] ok by (simp add: st1_def)
  have s1: "heap_lock st1 = 1" "mem st1 = mem st" "l_memRoot st1 = l_memRoot st" "system_room sz st1"
    using lock room room_cong [of st1 st sz] by (simp_all add: st1_def)
  have sd1: "same_data st (As @ B # Cs) st1 (As @ B # Cs)" using s1 by (auto simp: same_data_def)
  have next_word: "rd st1 (b_addr B + of_next) = (if Cs = [] then 0 else b_addr (hd Cs))"
    and a0: "b_addr B \<noteq> 0" using block_words_rd [OF ok1] by simp_all
  have hd0: "b_addr (hd Cs) \<noteq> 0" if "Cs \<noteq> []"
    using heap_okD(6) [OF ok, of "hd Cs"] that by (simp add: block_frames_def)
  have turn: "malloc_turn sz rq (b_addr B) sB best st =
      (if diff < add32 sz 24
       then if Cs \<noteq> [] then Inr (Continue (b_addr (hd Cs)) sB best', st1)
            else if sB then Inr (Continue (l_memRoot st) False best', st1)
            else bindR (allocate_new_page sz st1) (\<lambda>(new, st1).
                   let st2 = wr (b_addr B + of_next) new st1
                   in if new = 0 then Inr (Break, st2)
                      else let st3 = wr (new + of_prev) (b_addr B) st2
                           in malloc_cases2to5 sz rq (rd st3 (b_addr B + of_next)) sB best' st3)
       else malloc_cases2to5 sz rq (b_addr B) sB best' st1)"
    unfolding malloc_turn_def Let_def diff_def [symmetric] best'_def [symmetric] st1_def [symmetric]
    using next_word hd0 s1(3) by simp
  have five: "malloc_case5 sz (b_addr B) sB best' st1 =
      (if Cs \<noteq> [] then Inr (Continue (b_addr (hd Cs)) sB best', st1)
       else if sB then Inr (Continue (l_memRoot st) False best', st1)
       else bindR (allocate_new_page sz st1) (\<lambda>(new, st1).
             let st2 = wr (b_addr B + of_next) new st1
             in if new = 0 then Inr (Break, st2)
                else let st3 = wr (new + of_prev) (b_addr B) st2
                     in Inr (Continue (rd st3 (b_addr B + of_next)) sB best', st3)))"
    unfolding malloc_case5_def using next_word hd0 s1(3) by simp
  have neA: "C \<in> set (As @ Cs) \<Longrightarrow> b_chunks C \<noteq> []" for C using ne by auto
  show thesis
  proof (cases "Cs = [] \<and> \<not> sB")
    case last: True
    then have okl: "heap_ok st1 (As @ [B])" using ok1 by simp
    obtain a np s2 s3 where al: "allocate_new_page sz st1 = Inr (a, s2)" and a: "a \<noteq> 0"
      and s3: "s3 = wr (a + of_prev) (b_addr B) (wr (b_addr B + of_next) a s2)"
      and r: "rd s3 (b_addr B + of_next) = a" and ok3: "heap_ok s3 ((As @ [B]) @ [Block a np []])"
      and l3: "heap_lock s3 = 1" and sd: "same_data st1 (As @ [B]) s3 ((As @ [B]) @ [Block a np []])"
      and big: "sz + 48 \<le> 4096 * np"
      using new_block_turn [OF sz okl s1(1,4)] by metis
    have sd': "same_data st (As @ [B]) s3 ((As @ [B]) @ [Block a np []])"
      using sd1 sd last unfolding same_data_def by (auto intro: same_on_trans)
    have case5: "malloc_case5 sz (b_addr B) sB best' st1 = Inr (Continue a False best', s3)"
      using five last al a r by (simp add: s3 Let_def)
    show thesis
    proof (cases "diff < add32 sz 24")
      case True
      have neL: "C \<in> set (As @ [B]) \<Longrightarrow> b_chunks C \<noteq> []" for C using ne last by auto
      obtain p st' where c: "malloc_cases2to5 sz rq a sB best' s3 = Inr (Return p, st')"
        and sv: "served s3 ((As @ [B]) @ [Block a np []]) rq (Inr (p, st'))"
        using fresh_cases [OF sz ok3 l3 neL big] by blast
      have "malloc_turn sz rq (b_addr B) sB best st = Inr (Return p, st')"
        using turn True last al a r c by (simp add: s3 Let_def)
      moreover have "served st (As @ B # Cs) rq (Inr (p, st'))" using served_trans [OF sd' sv] last by simp
      ultimately show thesis by (rule found)
    next
      case False
      consider (n) "malloc_in_block sz rq (b_addr B) st1 = Inr (None, st1)"
        | (s) p st' where "malloc_in_block sz rq (b_addr B) st1 = Inr (Some p, st')" "served st1 (As @ B # Cs) rq (Inr (p, st'))"
        using in_block_served [OF sz ok1 s1(1) neA] ne by fastforce
      then show thesis
      proof cases
        case n
        then have "malloc_turn sz rq (b_addr B) sB best st = Inr (Continue a False best', s3)"
          using turn False case5 by (simp add: malloc_cases2to5_def)
        then show thesis using fresh ok3 l3 sd' big last by blast
      next
        case s
        then show thesis
          using found [of p st'] turn False served_trans [OF sd1] by (simp add: malloc_cases2to5_def)
      qed
    qed
  next
    case more: False
    have go: thesis if t: "malloc_turn sz rq (b_addr B) sB best st = malloc_case5 sz (b_addr B) sB best' st1"
    proof (cases "Cs = []")
      case True
      then show thesis using again [of best' st1] t five more ok1 s1 by simp
    next
      case False
      then show thesis using onward [of best' st1] t five ok1 s1 by simp
    qed
    show thesis
    proof (cases "diff < add32 sz 24")
      case True
      then show thesis using go turn five more by auto
    next
      case False
      consider (n) "malloc_in_block sz rq (b_addr B) st1 = Inr (None, st1)"
        | (s) p st' where "malloc_in_block sz rq (b_addr B) st1 = Inr (Some p, st')" "served st1 (As @ B # Cs) rq (Inr (p, st'))"
        using in_block_served [OF sz ok1 s1(1) neA] ne by fastforce
      then show thesis
      proof cases
        case n
        then show thesis using go turn False by (simp add: malloc_cases2to5_def)
      next
        case s
        then show thesis
          using found [of p st'] turn False served_trans [OF sd1] by (simp add: malloc_cases2to5_def)
      qed
    qed
  qed
qed

section \<open>The loop\<close>

lemma malloc_loop_ok:
  assumes sz: "rq + 32 \<le> sz" "sz + 4144 < W32"
    and "heap_ok st (As @ B # Cs)" "heap_lock st = 1"
    and "\<forall>C\<in>set (As @ B # Cs). b_chunks C \<noteq> []" "system_room sz st"
    and "length Cs + 2 \<le> n"
  shows "served st (As @ B # Cs) rq (malloc_loop n sz rq (b_addr B) False best st)"
  using assms(3-)
proof (induction Cs arbitrary: As B st best n)
  case Nil
  obtain n' where n: "n = Suc (Suc n')" using Nil.prems(5) by (auto simp: numeral_2_eq_2 dest: Suc_le_D)
  have a0: "b_addr B \<noteq> 0" using block_words_rd(4) [OF Nil.prems(1)] .
  show ?case
  proof (rule malloc_turn_ok [OF sz Nil.prems(1-4), where sB = False and best = best], goal_cases found onward again fresh)
    case (found p st')
    then show ?thesis using n a0 by simp
  next
    case (fresh best' a np st1)
    have "served st1 ((As @ [B]) @ [Block a np []]) rq (malloc_loop (Suc n') sz rq a False best' st1)"
      using fresh_turn [OF sz fresh(4,5) _ fresh(7)] Nil.prems(3) by simp
    from served_trans [OF fresh(6) this] show ?thesis using n a0 fresh(1) by (simp only: malloc_loop.simps if_False) simp
  qed simp_all
next
  case (Cons C Cs)
  obtain n' where n: "n = Suc n'" using Cons.prems(5) by (cases n) auto
  have a0: "b_addr B \<noteq> 0" using block_words_rd(4) [OF Cons.prems(1)] .
  show ?case
  proof (rule malloc_turn_ok [OF sz Cons.prems(1-4), where sB = False and best = best], goal_cases found onward again fresh)
    case (found p st')
    then show ?thesis using n a0 by simp
  next
    case (onward best' st1)
    have "served st1 ((As @ [B]) @ C # Cs) rq (malloc_loop n' sz rq (b_addr C) False best' st1)"
      by (rule Cons.IH) (use onward Cons.prems n in auto)
    moreover have "same_data st (As @ B # C # Cs) st1 ((As @ [B]) @ C # Cs)"
      using onward(5) by (auto simp: same_data_def)
    ultimately show ?thesis using n a0 onward(1) served_trans by simp
  qed simp_all
qed

text \<open>With a best bet the loop starts in the middle, and once at the end starts over at the root.\<close>

lemma root_word:
  assumes "heap_ok st Bs" "Bs \<noteq> []"
  shows "l_memRoot st = b_addr (hd Bs)"
  using assms dlseg_head by (fastforce simp: heap_ok_def)

lemma malloc_loop_bet_ok:
  assumes sz: "rq + 32 \<le> sz" "sz + 4144 < W32"
    and "heap_ok st (As @ B # Cs)" "heap_lock st = 1"
    and "\<forall>C\<in>set (As @ B # Cs). b_chunks C \<noteq> []" "system_room sz st"
    and "length Cs + length (As @ B # Cs) + 3 \<le> n"
  shows "served st (As @ B # Cs) rq (malloc_loop n sz rq (b_addr B) True best st)"
  using assms(3-)
proof (induction Cs arbitrary: As B st best n)
  case Nil
  obtain n' where n: "n = Suc n'" using Nil.prems(5) by (cases n) auto
  have a0: "b_addr B \<noteq> 0" using block_words_rd(4) [OF Nil.prems(1)] .
  show ?case
  proof (rule malloc_turn_ok [OF sz Nil.prems(1-4), where sB = True and best = best], goal_cases found onward again fresh)
    case (found p st')
    then show ?thesis using n a0 by simp
  next
    case (again best' st1)
    obtain C Ds where CD: "As @ [B] = C # Ds" by (cases As) auto
    have len: "length (As @ [B]) = length (C # Ds)" using CD by (rule arg_cong)
    have "served st1 ([] @ C # Ds) rq (malloc_loop n' sz rq (b_addr C) False best' st1)"
      by (rule malloc_loop_ok [OF sz]) (use again Nil.prems len n CD in auto)
    moreover have "l_memRoot st = b_addr C" using root_word [OF Nil.prems(1)] CD by simp
    moreover have "same_data st (As @ [B]) st1 (C # Ds)" using again(6) CD by (auto simp: same_data_def)
    ultimately show ?thesis using n a0 again(1) served_trans by simp
  qed simp_all
next
  case (Cons C Cs)
  obtain n' where n: "n = Suc n'" using Cons.prems(5) by (cases n) auto
  have a0: "b_addr B \<noteq> 0" using block_words_rd(4) [OF Cons.prems(1)] .
  show ?case
  proof (rule malloc_turn_ok [OF sz Cons.prems(1-4), where sB = True and best = best], goal_cases found onward again fresh)
    case (found p st')
    then show ?thesis using n a0 by simp
  next
    case (onward best' st1)
    have "served st1 ((As @ [B]) @ C # Cs) rq (malloc_loop n' sz rq (b_addr C) True best' st1)"
      by (rule Cons.IH) (use onward Cons.prems n in auto)
    moreover have "same_data st (As @ B # C # Cs) st1 ((As @ [B]) @ C # Cs)"
      using onward(5) by (auto simp: same_data_def)
    ultimately show ?thesis using n a0 onward(1) served_trans by simp
  qed simp_all
qed

text \<open>The fuel is enough: blocks start at different pages.\<close>

lemma blocks_length:
  assumes ok: "heap_ok st Bs"
  shows "length Bs \<le> 1048576"
proof -
  have node: "b_addr B \<in> blocks.node B" for B by (auto simp: blocks.node_def)
  have "distinct (map b_addr Cs)" if "blocks.separated Cs" for Cs
    using that
  proof (induction Cs)
    case (Cons C Cs)
    then show ?case using node by (fastforce simp: blocks.separated_Cons)
  qed simp
  then have d: "distinct (map b_addr Bs)" using heap_okD(4) [OF ok] .
  have inj: "inj_on (\<lambda>a. a div 4096) (b_addr ` set Bs)"
  proof (rule inj_onI)
    fix a b assume "a \<in> b_addr ` set Bs" "b \<in> b_addr ` set Bs" "a div 4096 = b div 4096"
    moreover have "c = 4096 * (c div 4096)" if c: "c \<in> b_addr ` set Bs" for c
    proof -
      have "c mod 4096 = 0" using heap_okD(6) [OF ok] c by (auto simp: block_frames_def)
      then show ?thesis using mult_div_mod_eq [of 4096 c] by simp
    qed
    ultimately show "a = b" by metis
  qed
  have "(\<lambda>a. a div 4096) ` b_addr ` set Bs \<subseteq> {..<1048576}"
  proof -
    have "b_addr B div 4096 < 1048576" if "B \<in> set Bs" for B
      using block_own_bounds(1,2) [OF heap_okD(8) [OF ok that]] by (simp add: div_less_iff_less_mult)
    then show ?thesis by auto
  qed
  from card_mono [OF finite_lessThan this] have "card (b_addr ` set Bs) \<le> 1048576"
    unfolding card_image [OF inj] card_lessThan .
  moreover have "card (b_addr ` set Bs) = length Bs" using distinct_card [OF d] by simp
  ultimately show ?thesis by simp
qed

lemma malloc_search_ok:
  assumes sz: "rq + 32 \<le> sz" "sz + 4144 < W32"
    and ok: "heap_ok st Bs" and lock: "heap_lock st = 1" and ne: "\<forall>C\<in>set Bs. b_chunks C \<noteq> []"
    and room: "system_room sz st" and Bs: "Bs \<noteq> []"
  shows "served st Bs rq (malloc_search sz rq st)"
proof -
  note len = blocks_length [OF ok]
  have root: "served st Bs rq (malloc_loop W32 sz rq (l_memRoot st) False best st)" for best
  proof -
    obtain C Ds where CD: "Bs = C # Ds" using Bs by (cases Bs) auto
    have "served st ([] @ C # Ds) rq (malloc_loop W32 sz rq (b_addr C) False best st)"
      by (rule malloc_loop_ok [OF sz]) (use ok lock ne room CD len in auto)
    then show ?thesis using root_word [OF ok Bs] CD by simp
  qed
  have bet: "served st Bs rq (malloc_loop W32 sz rq (l_bestBet st) True best st)" if b: "l_bestBet st \<noteq> 0" for best
  proof -
    obtain B where B: "B \<in> set Bs" "l_bestBet st = b_addr B" using heap_okD(5) [OF ok] b by auto
    obtain As Cs where AC: "Bs = As @ B # Cs" using split_list [OF B(1)] by blast
    have l: "length Cs + length (As @ B # Cs) + 3 \<le> W32" using len AC by simp
    show ?thesis unfolding B(2) AC
      by (rule malloc_loop_bet_ok [OF sz]) (use ok lock ne room AC l in auto)
  qed
  show ?thesis using root bet by (simp add: malloc_search_def Let_def)
qed

section \<open>malloc\<close>

lemma gives_cong:
  "mem st1 = mem st \<Longrightarrow> gives st1 Bs rq p st' Bs' = gives st Bs rq p st' Bs'"
  by (simp add: gives_def)

lemma heap_ok_cong:
  assumes "heap_ok st Bs" "mem st' = mem st" "kernel_dir st' = kernel_dir st" "frames st' = frames st"
    "nframes st' = nframes st" "heap_online st' = heap_online st" "l_memRoot st' = l_memRoot st" "l_bestBet st' = l_bestBet st"
  shows "heap_ok st' Bs"
  by (rule heap_ok_frame [OF assms(1)]) (use assms heap_okD(5) [OF assms(1)] in \<open>auto simp: same_on_def\<close>)

lemma malloc_nonzero_ok:
  assumes rq: "rq + 4176 < W32" and inv: "heap_inv st Bs" and room: "system_room (rq + 32) st"
  shows "\<exists>p st' Bs'. malloc_nonzero rq st = Inr (p, st') \<and> gives st Bs rq p st' Bs' \<and> heap_inv st' Bs'"
proof -
  let ?sz = "rq + 32"
  have sz: "rq + 32 \<le> ?sz" "?sz + 4144 < W32" "add32 rq 32 = ?sz" using rq by (simp_all add: arith32)
  define st0 where "st0 = st\<lparr>heap_lock := 1\<rparr>"
  have lock: "liballoc_lock st = Inr st0" using inv by (simp add: liballoc_lock_def heap_inv_def st0_def)
  have ok0: "heap_ok st0 Bs" by (rule heap_ok_cong [of st]) (use inv in \<open>simp_all add: heap_inv_def st0_def\<close>)
  have l0: "heap_lock st0 = 1" "mem st0 = mem st" by (simp_all add: st0_def)
  have room0: "system_room ?sz st0" using room room_cong [of st0 st ?sz] by (simp add: st0_def)
  have ne: "\<forall>C\<in>set Bs. b_chunks C \<noteq> []" using inv by (simp add: heap_inv_def)
  have "served st0 Bs rq (malloc_nonzero rq st)"
  proof (cases "Bs = []")
    case False
    have "l_memRoot st0 \<noteq> 0" using root_word [OF ok0 False] heap_okD(6) [OF ok0, of "hd Bs"] False
      by (simp add: block_frames_def)
    then have "malloc_nonzero rq st = malloc_search ?sz rq st0"
      unfolding malloc_nonzero_def by (simp add: sz(3) lock)
    then show ?thesis using malloc_search_ok [OF sz(1,2) ok0 l0(1) ne room0 False] by simp
  next
    case True
    have r0: "l_memRoot st0 = 0" using ok0 True by (auto simp: heap_ok_def)
    have ok0': "heap_ok st0 []" using ok0 True by simp
    obtain a st1 where al: "allocate_new_page ?sz st0 = Inr (a, st1)"
      and fr: "fresh_block st0 [] a (block_pages ?sz) st1"
      using allocate_new_page_ok [OF ok0' room0 sz(2)] by blast
    define st2 where "st2 = st1\<lparr>l_memRoot := a\<rparr>"
    let ?N = "Block a (block_pages ?sz) []"
    have a: "a \<noteq> 0" "heap_lock st1 = 1" "l_bestBet st1 = l_bestBet st0" using fr l0 by (simp_all add: fresh_block_def)
    have "l_bestBet st0 = 0" using heap_okD(5) [OF ok0'] by simp
    then have bet: "l_bestBet st2 = 0" using a(3) by (simp add: st2_def)
    have ok2: "heap_ok st2 ([] @ [?N])" using root_block [OF fr] by (simp add: st2_def)
    have "malloc_nonzero rq st = malloc_search ?sz rq st2"
      unfolding malloc_nonzero_def by (simp add: sz(3) lock r0 al a st2_def Let_def)
    also have "\<dots> = malloc_loop (Suc (W32 - 1)) ?sz rq a False 0 st2"
      using bet by (simp add: malloc_search_def st2_def del: malloc_loop.simps)
    finally have run: "malloc_nonzero rq st = malloc_loop (Suc (W32 - 1)) ?sz rq a False 0 st2" .
    have "served st2 ([] @ [?N]) rq (malloc_loop (Suc (W32 - 1)) ?sz rq a False 0 st2)"
      by (rule fresh_turn [OF sz(1,2) ok2]) (use a block_pages_enough [OF sz(2)] in \<open>auto simp: st2_def\<close>)
    moreover have "same_data st0 [] st2 ([] @ [?N])" by (simp add: same_data_def live_def)
    ultimately show ?thesis using run True served_trans by metis
  qed
  then obtain p st' Bs' where m: "malloc_nonzero rq st = Inr (p, st')" and g: "gives st0 Bs rq p st' Bs'"
    and n: "\<forall>B\<in>set Bs'. b_chunks B \<noteq> []" by (auto simp: served_def)
  have "heap_inv st' Bs'" using g n by (simp add: heap_inv_def gives_def)
  then show ?thesis using m g gives_cong [OF l0(2)] by blast
qed

lemma new_malloc_ok:
  assumes "rq + 4176 < W32" "heap_inv st Bs" "system_room (rq + 32) st"
  shows "\<exists>p st' Bs'. new_malloc rq st = Inr (p, st') \<and> gives st Bs rq p st' Bs' \<and> heap_inv st' Bs'"
proof -
  have "add32 rq 32 \<noteq> 0" using assms(1) by (simp add: arith32)
  then show ?thesis using malloc_nonzero_ok [OF assms] by (simp add: new_malloc_def)
qed

end
