(* ===== verification/Allocator.thy ===== *)
theory Allocator
  imports Memory
begin

text \<open>
  The interface of a kernel heap as its callers use it: \<open>alloc\<close> gives aligned memory apart from all live
  buffers and leaves their bytes alone, callers may write into their buffers, and \<open>free\<close> ends the life
  of one buffer. mm/heap.c provides it (\<open>HeapFree\<close>).
\<close>

text \<open>A caller that allocates a buffer for each string and fills it.\<close>

primrec fill_all ::
  "(nat \<Rightarrow> 's \<Rightarrow> (nat \<times> 's) outcome) \<Rightarrow> ((mem \<Rightarrow> mem) \<Rightarrow> 's \<Rightarrow> 's) \<Rightarrow> u8 list list \<Rightarrow> 's \<Rightarrow> (nat list \<times> 's) outcome" where
  "fill_all alloc modify [] s = Inr ([], s)"
| "fill_all alloc modify (d # ds) s =
     bindR (alloc (length d) s) (\<lambda>(p, s1).
     bindR (fill_all alloc modify ds (modify (put p d) s1)) (\<lambda>(ps, s2). Inr (p # ps, s2)))"

text \<open>There is room for each of these buffers when its turn comes.\<close>

primrec room_all ::
  "(nat \<Rightarrow> 's \<Rightarrow> bool) \<Rightarrow> (nat \<Rightarrow> 's \<Rightarrow> (nat \<times> 's) outcome) \<Rightarrow> ((mem \<Rightarrow> mem) \<Rightarrow> 's \<Rightarrow> 's) \<Rightarrow> u8 list list \<Rightarrow> 's \<Rightarrow> bool" where
  "room_all room alloc modify [] s = True"
| "room_all room alloc modify (d # ds) s =
     (room (length d) s \<and>
      (case alloc (length d) s of Inr (p, s1) \<Rightarrow> room_all room alloc modify ds (modify (put p d) s1) | Inl h \<Rightarrow> True))"

section \<open>Allocation\<close>

locale allocator =
  fixes inv :: "'s \<Rightarrow> (nat \<times> nat) set \<Rightarrow> bool" and room :: "nat \<Rightarrow> 's \<Rightarrow> bool"
    and alloc :: "nat \<Rightarrow> 's \<Rightarrow> (nat \<times> 's) outcome" and memory :: "'s \<Rightarrow> mem"
    and modify :: "(mem \<Rightarrow> mem) \<Rightarrow> 's \<Rightarrow> 's"
  assumes alloc_ok: "inv s L \<Longrightarrow> room n s \<Longrightarrow>
      \<exists>p s'. alloc n s = Inr (p, s') \<and> inv s' (insert (p, n) L) \<and> p mod 16 = 0 \<and> p \<noteq> 0 \<and>
        (\<forall>(q, k)\<in>L. p \<noteq> q \<and> apart p n q k \<and> same_on {q..<q + k} (memory s) (memory s'))"
    and modify_ok: "inv s L \<Longrightarrow> (p, n) \<in> L \<Longrightarrow> (\<And>x. x \<notin> {p..<p + n} \<Longrightarrow> f (memory s) x = memory s x) \<Longrightarrow>
      inv (modify f s) L \<and> memory (modify f s) = f (memory s)"
begin

lemma alloc_put:
  assumes "inv s L" "room (length d) s"
  obtains p s1 where "alloc (length d) s = Inr (p, s1)" "inv (modify (put p d) s1) (insert (p, length d) L)"
    "p mod 16 = 0" "p \<noteq> 0" "get p (length d) (memory (modify (put p d) s1)) = d"
    "\<forall>(q, k)\<in>L. p \<noteq> q \<and> apart p (length d) q k \<and> same_on {q..<q + k} (memory s) (memory (modify (put p d) s1))"
proof -
  obtain p s1 where A: "alloc (length d) s = Inr (p, s1) \<and> inv s1 (insert (p, length d) L) \<and> p mod 16 = 0 \<and> p \<noteq> 0 \<and>
      (\<forall>(q, k)\<in>L. p \<noteq> q \<and> apart p (length d) q k \<and> same_on {q..<q + k} (memory s) (memory s1))"
    using alloc_ok [OF assms] by (elim exE) (rule that)
  then have a: "alloc (length d) s = Inr (p, s1)" and i: "inv s1 (insert (p, length d) L)" and p: "p mod 16 = 0" "p \<noteq> 0"
    and o: "\<forall>(q, k)\<in>L. p \<noteq> q \<and> apart p (length d) q k \<and> same_on {q..<q + k} (memory s) (memory s1)"
    by simp_all
  have m: "inv (modify (put p d) s1) (insert (p, length d) L)" "memory (modify (put p d) s1) = put p d (memory s1)"
  proof -
    have "put p d (memory s1) x = memory s1 x" if "x \<notin> {p..<p + length d}" for x
      using that by (intro put_out) auto
    from modify_ok [where f = "put p d", OF i insertI1 this]
    show "inv (modify (put p d) s1) (insert (p, length d) L)" "memory (modify (put p d) s1) = put p d (memory s1)" by simp_all
  qed
  have "same_on {q..<q + k} (memory s) (put p d (memory s1))" if "(q, k) \<in> L" for q k
  proof -
    have "apart p (length d) q k" "same_on {q..<q + k} (memory s) (memory s1)" using o that by auto
    then show ?thesis unfolding same_on_def using put_out [of _ p d "memory s1"] by (auto simp: apart_def)
  qed
  then have "\<forall>(q, k)\<in>L. p \<noteq> q \<and> apart p (length d) q k \<and> same_on {q..<q + k} (memory s) (memory (modify (put p d) s1))"
    using o m(2) by auto
  then show thesis using that [OF a m(1) p] m(2) get_put by simp
qed

text \<open>After all of them, every buffer holds its string, the buffers are apart and so are older ones.\<close>

lemma fill_all_ok:
  assumes "inv s L" "room_all room alloc modify ds s"
  shows "\<exists>ps s'. fill_all alloc modify ds s = Inr (ps, s') \<and> length ps = length ds \<and>
    inv s' (set (zip ps (map length ds)) \<union> L) \<and> (\<forall>p\<in>set ps. p mod 16 = 0 \<and> p \<noteq> 0) \<and> distinct ps \<and>
    (\<forall>i<length ds. get (ps ! i) (length (ds ! i)) (memory s') = ds ! i) \<and>
    (\<forall>i<length ds. \<forall>j<i. apart (ps ! i) (length (ds ! i)) (ps ! j) (length (ds ! j))) \<and>
    (\<forall>(q, k)\<in>L. same_on {q..<q + k} (memory s) (memory s') \<and> q \<notin> set ps \<and>
       (\<forall>i<length ds. apart (ps ! i) (length (ds ! i)) q k))"
  using assms
proof (induction ds arbitrary: s L)
  case (Cons d ds)
  have rm: "room (length d) s" using Cons.prems(2) by simp
  obtain p s1 where a: "alloc (length d) s = Inr (p, s1)"
    and i: "inv (modify (put p d) s1) (insert (p, length d) L)" and p: "p mod 16 = 0" "p \<noteq> 0"
    and g: "get p (length d) (memory (modify (put p d) s1)) = d"
    and o: "\<forall>(q, k)\<in>L. p \<noteq> q \<and> apart p (length d) q k \<and> same_on {q..<q + k} (memory s) (memory (modify (put p d) s1))"
    by (rule alloc_put [OF Cons.prems(1) rm])
  let ?s = "modify (put p d) s1" and ?L = "insert (p, length d) L"
  have r: "room_all room alloc modify ds ?s" using Cons.prems(2) a by simp
  obtain ps s' where f: "fill_all alloc modify ds ?s = Inr (ps, s')" "length ps = length ds"
    and i': "inv s' (set (zip ps (map length ds)) \<union> ?L)" and p': "\<forall>q\<in>set ps. q mod 16 = 0 \<and> q \<noteq> 0" "distinct ps"
    and g': "\<forall>i<length ds. get (ps ! i) (length (ds ! i)) (memory s') = ds ! i"
    and ap: "\<forall>i<length ds. \<forall>j<i. apart (ps ! i) (length (ds ! i)) (ps ! j) (length (ds ! j))"
    and o': "\<forall>(q, k)\<in>?L. same_on {q..<q + k} (memory ?s) (memory s') \<and> q \<notin> set ps \<and>
       (\<forall>i<length ds. apart (ps ! i) (length (ds ! i)) q k)"
    using Cons.IH [OF i r] by blast
  have run: "fill_all alloc modify (d # ds) s = Inr (p # ps, s')" using a f by simp
  have pd: "same_on {p..<p + length d} (memory ?s) (memory s')" "p \<notin> set ps" using o' by auto
  have "get p (length d) (memory s') = d" using get_same [OF pd(1)] g by simp
  then have G: "\<forall>i<length (d # ds). get ((p # ps) ! i) (length ((d # ds) ! i)) (memory s') = (d # ds) ! i"
    using g' by (auto simp: less_Suc_eq_0_disj)
  have A: "\<forall>i<length (d # ds). \<forall>j<i. apart ((p # ps) ! i) (length ((d # ds) ! i)) ((p # ps) ! j) (length ((d # ds) ! j))"
    using ap o' by (auto simp: less_Suc_eq_0_disj)
  have O: "\<forall>(q, k)\<in>L. same_on {q..<q + k} (memory s) (memory s') \<and> q \<notin> set (p # ps) \<and>
      (\<forall>i<length (d # ds). apart ((p # ps) ! i) (length ((d # ds) ! i)) q k)"
  proof (rule ballI, clarify)
    fix q k assume q: "(q, k) \<in> L"
    then have "same_on {q..<q + k} (memory s) (memory s')" using o o' q by (auto intro: same_on_trans)
    moreover have "q \<notin> set (p # ps)" using o o' q by auto
    moreover have "\<forall>i<length (d # ds). apart ((p # ps) ! i) (length ((d # ds) ! i)) q k"
      using o o' q by (auto simp: less_Suc_eq_0_disj)
    ultimately show "same_on {q..<q + k} (memory s) (memory s') \<and> q \<notin> set (p # ps) \<and>
      (\<forall>i<length (d # ds). apart ((p # ps) ! i) (length ((d # ds) ! i)) q k)" by blast
  qed
  have I: "inv s' (set (zip (p # ps) (map length (d # ds))) \<union> L)" using i' by simp
  show ?case
    by (intro exI [of _ "p # ps"] exI [of _ s'] conjI run I G A O) (use f(2) p p' pd in auto)
qed simp

end

section \<open>Release\<close>

locale freeing_allocator = allocator inv room alloc memory modify
  for inv :: "'s \<Rightarrow> (nat \<times> nat) set \<Rightarrow> bool" and room :: "nat \<Rightarrow> 's \<Rightarrow> bool"
    and alloc :: "nat \<Rightarrow> 's \<Rightarrow> (nat \<times> 's) outcome" and memory :: "'s \<Rightarrow> mem"
    and modify :: "(mem \<Rightarrow> mem) \<Rightarrow> 's \<Rightarrow> 's" +
  fixes free :: "nat \<Rightarrow> 's \<Rightarrow> 's outcome" and freeable :: "nat \<Rightarrow> 's \<Rightarrow> bool"
  assumes free_ok: "inv s L \<Longrightarrow> (p, n) \<in> L \<Longrightarrow> freeable p s \<Longrightarrow>
      \<exists>s'. free p s = Inr s' \<and> inv s' {(q, k) \<in> L. q \<noteq> p} \<and>
        (\<forall>(q, k)\<in>L. q \<noteq> p \<longrightarrow> same_on {q..<q + k} (memory s) (memory s'))"
begin

text \<open>A buffer that is allocated, filled and freed leaves the live buffers as they were.\<close>

lemma alloc_put_free:
  assumes "inv s L" "room (length d) s"
    and fr: "\<And>p s1. alloc (length d) s = Inr (p, s1) \<Longrightarrow> freeable p (modify (put p d) s1)"
  shows "\<exists>p s1 s2. alloc (length d) s = Inr (p, s1) \<and> free p (modify (put p d) s1) = Inr s2 \<and> inv s2 L \<and>
    (\<forall>(q, k)\<in>L. same_on {q..<q + k} (memory s) (memory s2))"
proof -
  obtain p s1 where a: "alloc (length d) s = Inr (p, s1)"
    and i: "inv (modify (put p d) s1) (insert (p, length d) L)"
    and o: "\<forall>(q, k)\<in>L. p \<noteq> q \<and> apart p (length d) q k \<and> same_on {q..<q + k} (memory s) (memory (modify (put p d) s1))"
    using alloc_put [OF assms(1,2)] by blast
  let ?s = "modify (put p d) s1"
  obtain s2 where s2: "free p ?s = Inr s2" "inv s2 {(q, k) \<in> insert (p, length d) L. q \<noteq> p}"
    and o2: "\<forall>(q, k)\<in>insert (p, length d) L. q \<noteq> p \<longrightarrow> same_on {q..<q + k} (memory ?s) (memory s2)"
    using free_ok [OF i insertI1 fr [OF a]] by blast
  have "{(q, k) \<in> insert (p, length d) L. q \<noteq> p} = L" using o by auto
  then have "inv s2 L" using s2(2) by simp
  moreover have "same_on {q..<q + k} (memory s) (memory s2)" if "(q, k) \<in> L" for q k
  proof -
    have 1: "same_on {q..<q + k} (memory s) (memory ?s)" "p \<noteq> q" using o that by auto
    have "same_on {q..<q + k} (memory ?s) (memory s2)" using o2 that 1(2) by auto
    with 1(1) show ?thesis by (rule same_on_trans)
  qed
  ultimately show ?thesis using a s2(1) by blast
qed

end

end
