(* ===== verification/HeapFree.thy ===== *)
theory HeapFree
  imports Malloc Allocator
begin

text \<open>
  The correctness of \<open>free\<close>: a chunk leaves its block, the invariant and the other callers' data are
  kept, and freeing the same pointer again is noticed.
\<close>

section \<open>Taking a chunk out\<close>

lemma UNALIGN_chunk:
  assumes own: "chunk_own a m z" and p: "c_ptr z < W32"
  shows "UNALIGN (c_ptr z) m = c_addr z + 24"
proof -
  note b = c_ptr_bounds [of z]
  have s: "sub32 (c_ptr z) 16 = c_ptr z - 16" using b p by (simp add: arith32)
  have c: "ld8 m (c_ptr z - 16) = c_ptr z - (c_addr z + 24)" using own by (simp add: chunk_own_def)
  have d: "c_ptr z - (c_addr z + 24) < 32" using b by linarith
  have e: "sub32 (c_ptr z) (c_ptr z - (c_addr z + 24)) = c_addr z + 24" using b p by (simp add: arith32)
  show ?thesis unfolding UNALIGN_def s c Let_def using d e by simp
qed

definition unlinked :: "nat \<Rightarrow> nat \<Rightarrow> nat \<Rightarrow> nat \<Rightarrow> nat \<Rightarrow> mem \<Rightarrow> mem" where
  "unlinked a n k q u m =
     (let m2 = st32 (st32 m (a + 16) u) (n + 12) LIBALLOC_DEAD;
          m3 = (if q \<noteq> 0 then st32 m2 (q + 0) k else m2);
          m4 = (if k \<noteq> 0 then st32 m3 (k + 4) q else m3)
      in if k = 0 then st32 m4 (a + 20) q else m4)"

text \<open>Where the neighbours of a chunk are.\<close>

lemma chunk_place:
  assumes own: "block_own m (Block a np (xs @ z # ys))"
  defines "n \<equiv> c_addr z" and "k \<equiv> ld32 m (c_addr z)" and "q \<equiv> ld32 m (c_addr z + 4)"
  shows "k = (if xs = [] then 0 else c_addr (last xs))" "q = (if ys = [] then 0 else c_addr (hd ys))"
    "a + 24 \<le> n" "n + 56 \<le> a + 4096 * np" "c_end z \<le> a + 4096 * np" "c_ptr z + c_req z < c_end z" "a + 4096 * np < W32"
    "xs \<noteq> [] \<Longrightarrow> a + 24 \<le> k \<and> k + 56 \<le> n" "ys \<noteq> [] \<Longrightarrow> c_end z \<le> q \<and> q + 56 \<le> a + 4096 * np" "n + 56 \<le> c_end z"
    "xs \<noteq> [] \<longleftrightarrow> k \<noteq> 0" "ys \<noteq> [] \<longleftrightarrow> q \<noteq> 0"
proof -
  let ?hi = "a + 4096 * np"
  have fit: "chunks_fit (a + 24) ?hi (xs @ z # ys)" and hi: "?hi < W32" using own by (simp_all add: block_own_def b_end_def)
  obtain l where "chunk_seg a m (ld32 m (a + 20)) 0 (xs @ z # ys) l 0" using own by (auto simp: block_own_def)
  then obtain r j where s1: "chunk_seg a m (ld32 m (a + 20)) 0 xs j r" and s2: "chunk_seg a m r j (z # ys) l 0"
    by (auto simp: dlseg_append)
  have r: "r = c_addr z" "ld32 m r = j" "chunk_seg a m (ld32 m (r + 4)) r ys l 0" using s2 unfolding dlseg.simps by blast+
  have j: "k = j" and s3: "chunk_seg a m q n ys l 0" using r(2,3) unfolding r(1) k_def q_def n_def by simp_all
  show k: "k = (if xs = [] then 0 else c_addr (last xs))" using dlseg_last [OF s1] j by simp
  show q: "q = (if ys = [] then 0 else c_addr (hd ys))" using dlseg_head [OF s3] by simp
  have zf: "a + 24 \<le> n \<and> c_end z \<le> ?hi \<and> c_req z + 32 \<le> c_size z"
    using chunks_fit_mem [OF fit, of z] by (simp add: n_def)
  then show "a + 24 \<le> n" "c_end z \<le> ?hi" "c_ptr z + c_req z < c_end z" using chunk_node_end [of z] by auto
  show "n + 56 \<le> ?hi" "n + 56 \<le> c_end z" using zf by (simp_all add: c_end_def n_def)
  show "?hi < W32" by (rule hi)
  have xk: "a + 24 \<le> k \<and> k + 56 \<le> n" if ne: "xs \<noteq> []"
  proof -
    have "last xs \<in> set xs" using ne by simp
    then show ?thesis
      using chunks_fit_mem [OF fit, of "last xs"] chunks_fit_before [OF fit, of "last xs" z] k ne
      by (simp add: c_end_def n_def)
  qed
  then show "xs \<noteq> [] \<Longrightarrow> a + 24 \<le> k \<and> k + 56 \<le> n" .
  have yq: "c_end z \<le> q \<and> q + 56 \<le> ?hi" if ne: "ys \<noteq> []"
  proof -
    have "hd ys \<in> set ys" using ne by simp
    then show ?thesis
      using chunks_fit_mem [OF fit, of "hd ys"] chunks_fit_before [of "a + 24" ?hi "xs @ [z]" ys z "hd ys"] fit q ne
      by (simp add: c_end_def)
  qed
  then show "ys \<noteq> [] \<Longrightarrow> c_end z \<le> q \<and> q + 56 \<le> ?hi" .
  show "xs \<noteq> [] \<longleftrightarrow> k \<noteq> 0" using xk k by (cases "xs = []") auto
  show "ys \<noteq> [] \<longleftrightarrow> q \<noteq> 0" using yq q by (cases "ys = []") (auto simp: c_end_def)
qed

lemma unlink_minor_eq:
  assumes own: "block_own (mem st) (Block a np (xs @ z # ys))"
  defines "k \<equiv> ld32 (mem st) (c_addr z)" and "q \<equiv> ld32 (mem st) (c_addr z + 4)"
  shows "unlink_minor a (c_addr z) st =
    st\<lparr>mem := unlinked a (c_addr z) k q (chunks_usage (xs @ ys)) (mem st), l_inuse := sub64 (l_inuse st) (c_size z)\<rparr>"
proof -
  let ?n = "c_addr z" and ?m = "mem st" and ?u = "chunks_usage (xs @ ys)"
  note pl = chunk_place [OF own]
  have zo: "chunk_own a ?m z"
    using own dlseg_own [of c_addr "chunk_own a" ?m _ 0 "xs @ z # ys" _ 0 z] by (auto simp: block_own_def)
  then have sz: "ld32 ?m (?n + 16) = c_size z" by (simp add: chunk_own_def)
  have zb: "?n + 24 + c_size z < W32" using pl(5,7) by (simp add: c_end_def)
  have us: "ld32 ?m (a + 16) = ?u + c_size z + 24"
    using own by (simp add: block_own_def chunks_usage_def)
  have usb: "?u + c_size z + 24 < W32"
    using chunks_usage_le [of "a + 24" "a + 4096 * np" "xs @ z # ys"] own us pl(3,4,7)
    by (simp add: block_own_def b_end_def)
  have u: "sub32 (ld32 ?m (a + 16)) (add32 (c_size z) 24) = ?u"
    unfolding us using usb zb by (simp add: arith32)
  define m1 where "m1 = st32 ?m (a + 16) ?u"
  define m2 where "m2 = st32 m1 (?n + 12) LIBALLOC_DEAD"
  define m3 where "m3 = (if q \<noteq> 0 then st32 m2 (q + 0) k else m2)"
  define m4 where "m4 = (if k \<noteq> 0 then st32 m3 (k + 4) q else m3)"
  have z2: "ld32 m2 (?n + 0) = k" "ld32 m2 (?n + 4) = q"
    using pl(3,4,7) by (simp_all add: m2_def m1_def mem_simps k_def q_def)
  have z3: "ld32 m3 (?n + 0) = k" "ld32 m3 (?n + 4) = q"
    using z2 pl(4,7,9,10,12) by (auto simp: m3_def mem_simps q_def)
  have z4: "ld32 m4 (?n + 0) = k" "ld32 m4 (?n + 4) = q"
    using z3 pl(4,7,8,11) by (auto simp: m4_def mem_simps k_def)
  have un: "unlinked a ?n k q ?u ?m = (if k = 0 then st32 m4 (a + 20) q else m4)"
    by (simp add: unlinked_def Let_def m4_def m3_def m2_def m1_def)
  let ?s = "\<lambda>m. st\<lparr>mem := m, l_inuse := sub64 (l_inuse st) (c_size z)\<rparr>"
  have w: "wr x v (?s m) = ?s (st32 m x v)" "rd (?s m) x = ld32 m x" for x v m by (simp_all add: wr_def rd_def)
  have s0: "st\<lparr>l_inuse := sub64 (l_inuse st) (rd st (?n + min_size))\<rparr> = ?s ?m" by (simp add: rd_def sz)
  have "unlink_minor a ?n st =
    (let st4 = (if rd (?s m2) (?n + of_next) \<noteq> 0
                 then wr (rd (?s m2) (?n + of_next) + of_prev) (rd (?s m2) (?n + of_prev)) (?s m2) else ?s m2);
          st5 = (if rd st4 (?n + of_prev) \<noteq> 0
                 then wr (rd st4 (?n + of_prev) + of_next) (rd st4 (?n + of_next)) st4 else st4)
      in if rd st5 (?n + of_prev) = 0 then wr (a + maj_first) (rd st5 (?n + of_next)) st5 else st5)"
    unfolding unlink_minor_def Let_def s0 w u sz m2_def m1_def by simp
  also have "\<dots> = (let st5 = (if rd (?s m3) (?n + of_prev) \<noteq> 0
                 then wr (rd (?s m3) (?n + of_prev) + of_next) (rd (?s m3) (?n + of_next)) (?s m3) else ?s m3)
      in if rd st5 (?n + of_prev) = 0 then wr (a + maj_first) (rd st5 (?n + of_next)) st5 else st5)"
  proof -
    have "(if rd (?s m2) (?n + of_next) \<noteq> 0
                 then wr (rd (?s m2) (?n + of_next) + of_prev) (rd (?s m2) (?n + of_prev)) (?s m2) else ?s m2) = ?s m3"
      unfolding w z2 m3_def by simp
    then show ?thesis unfolding Let_def by (simp only:)
  qed
  also have "\<dots> = (if rd (?s m4) (?n + of_prev) = 0 then wr (a + maj_first) (rd (?s m4) (?n + of_next)) (?s m4) else ?s m4)"
  proof -
    have "(if rd (?s m3) (?n + of_prev) \<noteq> 0
                 then wr (rd (?s m3) (?n + of_prev) + of_next) (rd (?s m3) (?n + of_next)) (?s m3) else ?s m3) = ?s m4"
      unfolding w z3 m4_def by simp
    then show ?thesis unfolding Let_def by (simp only:)
  qed
  also have "\<dots> = ?s (unlinked a ?n k q ?u ?m)" unfolding w z4 un by simp
  finally show ?thesis .
qed

lemma fit_without:
  assumes "chunks_fit (a + 24) hi (xs @ z # ys)"
  shows "chunks_fit (a + 24) hi (xs @ ys)" "gap_lo a xs \<le> c_addr z" "c_end z \<le> gap_hi hi ys"
proof -
  have x: "chunks_fit (a + 24) (gap_lo a xs) xs" and z: "gap_lo a xs \<le> c_addr z"
    and y: "chunks_fit (c_end z) hi ys"
    using assms by (simp_all add: chunks_fit_append gap_lo_def)
  have "c_addr z \<le> c_end z" by (simp add: c_end_def)
  then have "chunks_fit (gap_lo a xs) hi ys" using chunks_fit_weaken [OF y, of hi "gap_lo a xs"] z by simp
  with x show "chunks_fit (a + 24) hi (xs @ ys)" by (simp add: chunks_fit_append gap_lo_def)
  show "gap_lo a xs \<le> c_addr z" by (rule z)
  show "c_end z \<le> gap_hi hi ys" using y by (cases ys) (auto simp: gap_hi_def)
qed

lemma unlinked_words:
  assumes own: "block_own m (Block a np (xs @ z # ys))"
  defines "n \<equiv> c_addr z" and "k \<equiv> ld32 m (c_addr z)" and "q \<equiv> ld32 m (c_addr z + 4)"
  assumes u: "u < W32"
  defines "m' \<equiv> unlinked a n k q u m"
  shows "x \<notin> placed_words a xs z ys \<Longrightarrow> m' x = m x"
    and "ld32 m' (a + 16) = u" "xs \<noteq> [] \<Longrightarrow> ld32 m' (k + 4) = q" "ys \<noteq> [] \<Longrightarrow> ld32 m' q = k"
    and "xs = [] \<Longrightarrow> ld32 m' (a + 20) = q" "ld32 m' (n + 12) = LIBALLOC_DEAD" "m' (c_ptr z - 16) = m (c_ptr z - 16)"
proof -
  note pl = chunk_place [OF own, folded n_def k_def q_def]
  note b = c_ptr_bounds [of z, folded n_def]
  have kq: "k < W32" "q < W32" by (simp_all add: k_def q_def)
  show "m' x = m x" if x: "x \<notin> placed_words a xs z ys"
  proof -
    have "x < n \<or> n + 56 \<le> x" "x < a + 16 \<or> a + 20 \<le> x" "xs \<noteq> [] \<Longrightarrow> x < k + 4 \<or> k + 8 \<le> x"
      "ys \<noteq> [] \<Longrightarrow> x < q \<or> q + 4 \<le> x" "xs = [] \<Longrightarrow> x < a + 20 \<or> a + 24 \<le> x"
      using x pl(1,2,10) unfolding placed_words_def chunks.relink_def n_def by (auto simp: not_less not_le)
    then show ?thesis using pl(11,12) by (auto simp: m'_def unlinked_def Let_def)
  qed
  show "ld32 m' (a + 16) = u" "xs \<noteq> [] \<Longrightarrow> ld32 m' (k + 4) = q" "ys \<noteq> [] \<Longrightarrow> ld32 m' q = k"
    "xs = [] \<Longrightarrow> ld32 m' (a + 20) = q" "ld32 m' (n + 12) = LIBALLOC_DEAD"
    using pl(3-12) kq u by (auto simp: m'_def unlinked_def Let_def mem_simps)
  define x where "x = c_ptr z - 16"
  have x: "n + 24 \<le> x" "x < n + 40" using b by (simp_all add: x_def)
  then have "m' x = m x" using pl(3-12) by (auto simp: m'_def unlinked_def Let_def)
  then show "m' (c_ptr z - 16) = m (c_ptr z - 16)" by (simp add: x_def)
qed

lemma unlinked_own:
  assumes own: "block_own m (Block a np (xs @ z # ys))"
  defines "m' \<equiv> unlinked a (c_addr z) (ld32 m (c_addr z)) (ld32 m (c_addr z + 4)) (chunks_usage (xs @ ys)) m"
  shows "block_own m' (Block a np (xs @ ys))"
    and "y \<notin> {a + 16..<a + 4096 * np} \<Longrightarrow> m' y = m y"
    and "x \<in> set (xs @ ys) \<Longrightarrow> same_on {c_addr x + 8..<c_end x} m m'"
proof -
  let ?hi = "a + 4096 * np" and ?n = "c_addr z" and ?k = "ld32 m (c_addr z)" and ?q = "ld32 m (c_addr z + 4)"
  note pl = chunk_place [OF own]
  have fit: "chunks_fit (a + 24) ?hi (xs @ z # ys)" and hi: "?hi < W32" using own by (simp_all add: block_own_def b_end_def)
  note fw = fit_without [OF fit]
  note pw = placed_words_block [OF fw]
  have "chunks_usage (xs @ ys) < W32"
    using chunks_usage_le [OF fw(1)] hi by simp
  note w = unlinked_words [OF own this, folded m'_def]
  show out: "m' y = m y" if "y \<notin> {a + 16..<?hi}" for y using w(1) pw(1) that by blast
  show "same_on {c_addr x + 8..<c_end x} m m'" if x: "x \<in> set (xs @ ys)"
    unfolding same_on_def using w(1) pw(2) [OF x] by blast
  have pages: "ld32 m' (a + 8) = ld32 m (a + 8)" "ld32 m' (a + 12) = ld32 m (a + 12)"
    by (rule ld32_frame; use out in \<open>auto simp: same_on_def\<close>)+
  obtain l where seg: "chunk_seg a m (ld32 m (a + 20)) 0 (xs @ z # ys) l 0" using own by (auto simp: block_own_def)
  have seg': "chunk_seg a m' (if xs = [] then ?q else ld32 m (a + 20)) 0 (xs @ ys) (if ys = [] then ?k else l) 0"
  proof (rule chunks.seg_remove [OF seg])
    show "chunks.separated (xs @ ys)" using chunks_separated [OF fw(1)] .
    show "chunk_foot x \<inter> {c_addr x..<c_addr x + 8} = {}" for x by (rule chunk_foot_links)
    show "same_on (chunks.node x - chunks.relink xs ys) m m'" if x: "x \<in> set (xs @ ys)" for x
    proof -
      have "v \<notin> placed_words a xs z ys" if "v \<in> chunks.node x" "v \<notin> chunks.relink xs ys" for v
        using that x chunk_node_end [of x] chunks_fit_mem [OF fw(1) x] gap_chunks [OF fw x]
        by (auto simp: placed_words_def chunk_node c_end_def)
      then show ?thesis using w(1) by (auto simp: same_on_def)
    qed
  qed (use w in auto)
  have first: "ld32 m' (a + 20) = (if xs = [] then ?q else ld32 m (a + 20))"
  proof (cases "xs = []")
    case False
    have "v \<notin> placed_words a xs z ys" if "v \<in> {a + 20..<a + 24}" for v
    proof -
      have "v \<notin> chunks.relink xs ys"
        using relink_words chunks_fit_mem [OF fw(1)] that by fastforce
      then show ?thesis using that pl(3) False by (auto simp: placed_words_def)
    qed
    then have "ld32 m' (a + 20) = ld32 m (a + 20)"
      using w(1) by (intro ld32_frame) (auto simp: same_on_def add.assoc)
    then show ?thesis using False by simp
  qed (use w in simp)
  show "block_own m' (Block a np (xs @ ys))"
    using own pages seg' first w(2) fw(1) by (auto simp: block_own_def b_end_def)
qed

section \<open>free\<close>

text \<open>The state in which \<open>free\<close> has unlinked the chunk \<open>z\<close> of the block at \<open>a\<close>.\<close>

definition taken :: "heap_state \<Rightarrow> nat \<Rightarrow> chunk list \<Rightarrow> chunk \<Rightarrow> chunk list \<Rightarrow> heap_state" where
  "taken st a xs z ys = st\<lparr>heap_lock := 1, l_inuse := sub64 (l_inuse st) (c_size z),
     mem := unlinked a (c_addr z) (ld32 (mem st) (c_addr z)) (ld32 (mem st) (c_addr z + 4)) (chunks_usage (xs @ ys)) (mem st)\<rparr>"

lemma new_free_taken:
  assumes ok: "heap_ok st (As @ B # Cs)" and lock: "heap_lock st = 0" and B: "b_chunks B = xs @ z # ys"
  defines "st1 \<equiv> taken st (b_addr B) xs z ys"
  shows "new_free (c_ptr z) st =
      bindR (if xs @ ys = [] then release_major (b_addr B) st1 else Inr (update_best_bet (b_addr B) st1)) liballoc_unlock"
    and "heap_ok st1 (As @ Block (b_addr B) (b_pages B) (xs @ ys) # Cs)"
    and "C \<in> set (As @ Cs) \<Longrightarrow> same_on (blocks.node C) (mem st) (mem st1)"
    and "x \<in> set (xs @ ys) \<Longrightarrow> same_on {c_addr x + 8..<c_end x} (mem st) (mem st1)"
    and "UNALIGN (c_ptr z) (mem st1) = c_addr z + 24" "rd st1 (c_addr z + 12) = LIBALLOC_DEAD"
    and "y \<notin> {b_addr B + 16..<b_end B} \<Longrightarrow> mem st1 y = mem st y"
proof -
  let ?a = "b_addr B" and ?np = "b_pages B" and ?n = "c_addr z"
  define s0 where "s0 = st\<lparr>heap_lock := 1\<rparr>"
  have Bi: "B \<in> set (As @ B # Cs)" by simp
  have BB: "B = Block ?a ?np (xs @ z # ys)" using B by (cases B) simp
  have own: "block_own (mem st) (Block ?a ?np (xs @ z # ys))" using heap_okD(8) [OF ok Bi] BB by simp
  note pl = chunk_place [OF own]
  note uo = unlinked_own [OF own]
  have usage: "chunks_usage (xs @ ys) < W32"
    using chunks_usage_le [OF fit_without(1), of ?a "?a + 4096 * ?np" xs z ys] own pl(7)
    by (simp add: block_own_def b_end_def)
  note uw = unlinked_words [OF own usage]
  have m1: "mem st1 = unlinked ?a ?n (ld32 (mem st) ?n) (ld32 (mem st) (?n + 4)) (chunks_usage (xs @ ys)) (mem st)"
    by (simp add: st1_def taken_def)
  have zo: "chunk_own ?a (mem st) z"
    using own dlseg_own [of c_addr "chunk_own ?a" "mem st" _ 0 "xs @ z # ys" _ 0 z] by (auto simp: block_own_def)
  have p: "c_ptr z \<noteq> 0" "c_ptr z < W32" using c_ptr_bounds [of z] pl(5,6,7) by auto
  have own1: "block_own (mem st1) (Block ?a ?np (xs @ ys))" using uo(1) by (simp add: m1)
  show "heap_ok st1 (As @ Block ?a ?np (xs @ ys) # Cs)"
    by (rule heap_ok_update [OF ok])
      (use own1 uo(2) heap_okD(5) [OF ok] m1 in \<open>auto simp: st1_def taken_def b_end_def\<close>)
  show out: "mem st1 y = mem st y" if "y \<notin> {?a + 16..<b_end B}" for y
    using uo(2) that by (simp add: m1 b_end_def)
  show "same_on {c_addr x + 8..<c_end x} (mem st) (mem st1)" if "x \<in> set (xs @ ys)" for x
    using uo(3) [OF that] by (simp add: m1)
  show "same_on (blocks.node C) (mem st) (mem st1)" if C: "C \<in> set (As @ Cs)" for C
  proof -
    have d: "blocks.node C \<inter> blocks.node B = {}"
      using heap_okD(4) [OF ok] C by (auto simp: blocks.separated_append blocks.separated_Cons)
    have "y \<notin> {?a + 16..<b_end B}" if "y \<in> blocks.node C" for y
      using d that block_own_bounds(4) [OF heap_okD(8) [OF ok Bi]] by auto
    then show ?thesis using out by (auto simp: same_on_def)
  qed
  show dead: "rd st1 (?n + 12) = LIBALLOC_DEAD" using uw(6) by (simp add: rd_def m1)
  have byte: "mem st1 (c_ptr z - 16) = mem st (c_ptr z - 16)" using uw(7) by (simp add: m1)
  show "UNALIGN (c_ptr z) (mem st1) = ?n + 24"
  proof -
    have "ld8 (mem st1) (c_ptr z - 16) = ld8 (mem st) (c_ptr z - 16)" using byte by (simp add: ld8_def)
    moreover have "sub32 (c_ptr z) 16 = c_ptr z - 16" using c_ptr_bounds [of z] p by (simp add: arith32)
    ultimately have "UNALIGN (c_ptr z) (mem st1) = UNALIGN (c_ptr z) (mem st)" by (simp add: UNALIGN_def)
    then show ?thesis using UNALIGN_chunk [OF zo p(2)] by simp
  qed
  have first: "rd st1 (?a + maj_first) = 0 \<longleftrightarrow> xs @ ys = []"
  proof -
    obtain l where "chunk_seg ?a (mem st1) (ld32 (mem st1) (?a + 20)) 0 (xs @ ys) l 0"
      using own1 by (auto simp: block_own_def)
    then show ?thesis by (cases "xs @ ys") (auto simp: rd_def)
  qed
  have mi: "sub32 (?n + 24) 24 = ?n" using pl(4,7) by (simp add: arith32)
  have magic: "rd s0 (?n + min_magic) = LIBALLOC_MAGIC" "rd s0 (?n + min_block) = ?a"
    using zo by (simp_all add: s0_def rd_def chunk_own_def)
  have un: "unlink_minor ?a ?n s0 = st1"
  proof -
    have "block_own (mem s0) (Block ?a ?np (xs @ z # ys))" using own by (simp add: s0_def)
    from unlink_minor_eq [OF this] show ?thesis by (simp add: s0_def st1_def taken_def)
  qed
  have lk: "liballoc_lock st = Inr s0" using lock by (simp add: liballoc_lock_def s0_def)
  have "new_free (c_ptr z) st =
      bindR (if rd st1 (?a + maj_first) = 0 then release_major ?a st1 else Inr (update_best_bet ?a st1)) liballoc_unlock"
    using p(1) UNALIGN_chunk [OF zo p(2)] magic
    by (simp add: new_free_def Let_def lk mi un)
  then show "new_free (c_ptr z) st =
      bindR (if xs @ ys = [] then release_major ?a st1 else Inr (update_best_bet ?a st1)) liballoc_unlock"
    by (simp only: first)
qed

text \<open>The live pointers without the freed one.\<close>

lemma live_iff:
  "(q, k) \<in> live (As @ B # Cs) \<longleftrightarrow>
     (\<exists>x\<in>set (b_chunks B). q = c_ptr x \<and> k = c_req x) \<or> (\<exists>C\<in>set (As @ Cs). \<exists>x\<in>set (b_chunks C). q = c_ptr x \<and> k = c_req x)"
  by (auto simp: live_def)

lemma live_chunk_ptr:
  assumes ok: "heap_ok st (As @ B # Cs)" and B: "b_chunks B = xs @ z # ys"
  defines "B' \<equiv> Block (b_addr B) (b_pages B) (xs @ ys)"
  shows "live (As @ B # Cs) = insert (c_ptr z, c_req z) (live (As @ B' # Cs))"
    and "(c_ptr z, k) \<notin> live (As @ B' # Cs)"
proof -
  have Bi: "B \<in> set (As @ B # Cs)" by simp
  note own = heap_okD(8) [OF ok Bi]
  have zB: "z \<in> set (b_chunks B)" using B by simp
  note lz = live_chunk [OF own zB]
  show "live (As @ B # Cs) = insert (c_ptr z, c_req z) (live (As @ B' # Cs))"
    unfolding live_split using B by (auto simp: B'_def)
  show "(c_ptr z, k) \<notin> live (As @ B' # Cs)"
  proof
    assume "(c_ptr z, k) \<in> live (As @ B' # Cs)"
    then consider (same) x where "x \<in> set (xs @ ys)" "c_ptr z = c_ptr x"
      | (other) x C where "C \<in> set (As @ Cs)" "x \<in> set (b_chunks C)" "c_ptr z = c_ptr x"
      unfolding live_iff B'_def block.sel by blast
    then show False
    proof cases
      case same
      have fit: "chunks_fit (b_addr B + 24) (b_end B) (xs @ z # ys)" using block_own_bounds(3) [OF own] B by simp
      have "c_end x \<le> c_addr z \<or> c_end z \<le> c_addr x" by (rule gap_chunks [OF fit_without [OF fit] same(1)])
      moreover have "x \<in> set (b_chunks B)" using same(1) B by auto
      ultimately show False using live_chunk [OF own, of x] lz same(2) by auto
    next
      case other
      have ownC: "block_own (mem st) C" using heap_okD(8) [OF ok] other(1) by auto
      have "blocks.node C \<inter> blocks.node B = {}"
        using heap_okD(4) [OF ok] other(1) by (auto simp: blocks.separated_append blocks.separated_Cons)
      moreover have "c_ptr z \<in> blocks.node B" using lz block_own_bounds(4) [OF own] by auto
      moreover have "c_ptr x \<in> blocks.node C"
        using live_chunk [OF ownC other(2)] block_own_bounds(4) [OF ownC] by auto
      ultimately show False using other(3) by auto
    qed
  qed
qed

text \<open>
  \<open>releases st Bs p st' Bs'\<close>: the pointer \<open>p\<close> is no longer live, all others are and keep their data.
\<close>

definition releases :: "heap_state \<Rightarrow> block list \<Rightarrow> nat \<Rightarrow> heap_state \<Rightarrow> block list \<Rightarrow> bool" where
  "releases st Bs p st' Bs' \<longleftrightarrow> heap_inv st' Bs' \<and> live Bs' = {(q, k) \<in> live Bs. q \<noteq> p} \<and>
     (\<forall>(q, k)\<in>live Bs'. same_on {q..<q + k} (mem st) (mem st'))"

lemma update_best_bet_sel:
  "mem (update_best_bet a st) = mem st" "heap_lock (update_best_bet a st) = heap_lock st"
  "update_best_bet a st = st \<or> update_best_bet a st = st\<lparr>l_bestBet := a\<rparr>"
  by (simp_all add: update_best_bet_def Let_def)

lemma new_free_releases:
  assumes inv: "heap_inv st (As @ B # Cs)" and B: "b_chunks B = xs @ z # ys" and ne: "xs @ ys \<noteq> []"
  defines "B' \<equiv> Block (b_addr B) (b_pages B) (xs @ ys)"
  shows "\<exists>st'. new_free (c_ptr z) st = Inr st' \<and> releases st (As @ B # Cs) (c_ptr z) st' (As @ B' # Cs) \<and>
    UNALIGN (c_ptr z) (mem st') = c_addr z + 24 \<and> rd st' (c_addr z + 12) = LIBALLOC_DEAD"
proof -
  have ok: "heap_ok st (As @ B # Cs)" and lock: "heap_lock st = 0" and nb: "\<forall>C\<in>set (As @ B # Cs). b_chunks C \<noteq> []"
    using inv by (simp_all add: heap_inv_def)
  define st1 where "st1 = taken st (b_addr B) xs z ys"
  note t = new_free_taken [OF ok lock B, folded st1_def B'_def]
  define st2 where "st2 = update_best_bet (b_addr B) st1"
  have lock2: "heap_lock st2 = 1" by (simp add: st2_def update_best_bet_sel st1_def taken_def)
  have ok2: "heap_ok st2 (As @ B' # Cs)"
    using update_best_bet_sel(3) [of "b_addr B" st1] t(2) bet_update [OF t(2)] by (auto simp: st2_def B'_def)
  define st3 where "st3 = st2\<lparr>heap_lock := 0\<rparr>"
  have ok3: "heap_ok st3 (As @ B' # Cs)" by (rule heap_ok_cong [OF ok2]) (simp_all add: st3_def)
  have m3: "mem st3 = mem st1" by (simp add: st3_def st2_def update_best_bet_sel)
  have run: "new_free (c_ptr z) st = Inr st3"
    using ne by (simp only: t(1) if_False) (simp add: liballoc_unlock_def lock2 st3_def flip: st2_def)
  note lv = live_chunk_ptr [OF ok B, folded B'_def]
  have "live (As @ B' # Cs) = {(q, k) \<in> live (As @ B # Cs). q \<noteq> c_ptr z}"
    using lv by auto
  moreover have "same_on {q..<q + k} (mem st) (mem st3)" if qk: "(q, k) \<in> live (As @ B' # Cs)" for q k
  proof -
    consider (same) x where "x \<in> set (xs @ ys)" "q = c_ptr x" "k = c_req x"
      | (other) x C where "C \<in> set (As @ Cs)" "x \<in> set (b_chunks C)" "q = c_ptr x" "k = c_req x"
      using qk unfolding live_iff B'_def block.sel by blast
    then show ?thesis
    proof cases
      case same
      have Bi: "B \<in> set (As @ B # Cs)" by simp
      have "x \<in> set (b_chunks B)" using same(1) B by auto
      note lx = live_chunk [OF heap_okD(8) [OF ok Bi] this]
      show ?thesis unfolding m3
        by (rule same_on_mono [OF t(4) [OF same(1)]]) (use lx same in auto)
    next
      case other
      have ownC: "block_own (mem st) C" using heap_okD(8) [OF ok] other(1) by auto
      note lx = live_chunk [OF ownC other(2)]
      show ?thesis unfolding m3
        by (rule same_on_mono [OF t(3) [OF other(1)]]) (use lx other block_own_bounds(4) [OF ownC] in auto)
    qed
  qed
  moreover have "heap_inv st3 (As @ B' # Cs)"
    using ok3 nb ne by (auto simp: heap_inv_def st3_def B'_def)
  ultimately have "releases st (As @ B # Cs) (c_ptr z) st3 (As @ B' # Cs)" unfolding releases_def by blast
  then show ?thesis using run t(5,6) m3 by (auto simp: rd_def)
qed

text \<open>Freeing a chunk twice is noticed by the magic number.\<close>

lemma dead_magic: "bad_magic LIBALLOC_DEAD st = st\<lparr>l_errorCount := l_errorCount st + 1\<rparr>"
proof -
  have "(0xdeaddead :: nat) AND 0xFFFFFF \<noteq> 0xc001c0de AND 0xFFFFFF"
    "(0xdeaddead :: nat) AND 0xFFFF \<noteq> 0xc001c0de AND 0xFFFF" "(0xdeaddead :: nat) AND 0xFF \<noteq> 0xc001c0de AND 0xFF"
    by simp_all
  then show ?thesis by (simp add: bad_magic_def Let_def)
qed

lemma new_free_dead:
  assumes p: "p \<noteq> 0" and U: "UNALIGN p (mem st) = n + 24" and n: "n + 24 < W32"
    and dead: "rd st (n + 12) = LIBALLOC_DEAD" and lock: "heap_lock st = 0"
  shows "new_free p st = Inr (st\<lparr>l_errorCount := l_errorCount st + 1\<rparr>)"
proof -
  have s: "sub32 (n + 24) 24 = n" using n by (simp add: arith32)
  have r: "rd (st\<lparr>heap_lock := 1\<rparr>) (n + 12) = LIBALLOC_DEAD" using dead by (simp add: rd_def)
  have "new_free p st = liballoc_unlock (bad_magic LIBALLOC_DEAD (st\<lparr>heap_lock := 1\<rparr>))"
    using p lock by (simp add: new_free_def U s r [simplified] liballoc_lock_def)
  then show ?thesis using lock by (simp add: dead_magic [simplified] liballoc_unlock_def)
qed

section \<open>Callers may write into their buffers\<close>

lemma payload_write:
  assumes inv: "heap_inv st Bs" and p: "(p, n) \<in> live Bs"
    and out: "\<And>y. y \<notin> {p..<p + n} \<Longrightarrow> m' y = mem st y"
  shows "heap_inv (st\<lparr>mem := m'\<rparr>) Bs"
proof -
  have ok: "heap_ok st Bs" using inv by (simp add: heap_inv_def)
  obtain x B where x: "B \<in> set Bs" "x \<in> set (b_chunks B)" "p = c_ptr x" "n = c_req x" using p by (auto simp: live_def)
  obtain As Cs where Bs: "Bs = As @ B # Cs" using split_list [OF x(1)] by blast
  note own = heap_okD(8) [OF ok x(1)]
  note lx = live_chunk [OF own x(2)]
  note same = out [unfolded x(3,4)]
  have w: "ld32 m' (b_addr B + i) = ld32 (mem st) (b_addr B + i)" if "i \<le> 20" for i
    using same lx that by (intro ld32_frame) (auto simp: same_on_def)
  obtain l where seg: "chunk_seg (b_addr B) (mem st) (ld32 (mem st) (b_addr B + 20)) 0 (b_chunks B) l 0"
    using own by (auto simp: block_own_def)
  have "chunk_seg (b_addr B) m' (ld32 (mem st) (b_addr B + 20)) 0 (b_chunks B) l 0"
  proof (rule chunks.seg_frame [OF seg])
    fix y assume y: "y \<in> set (b_chunks B)"
    have "y = x \<or> c_end x \<le> c_addr y \<or> c_end y \<le> c_addr x" using same_chunk [OF own x(2) y] by auto
    then show "same_on (chunks.node y) (mem st) m'"
      using live_chunk [OF own y] lx same by (auto simp: same_on_def chunk_node)
  qed
  then have own': "block_own m' B"
    using own w [of 8] w [of 12] w [of 16] w [of 20] by (auto simp: block_own_def)
  have "m' y = mem st y" if "y \<notin> {b_addr B + 8..<b_end B}" for y
    using same lx that by auto
  then have "heap_ok (st\<lparr>mem := m'\<rparr>) (As @ B # Cs)"
    by (intro heap_ok_update [OF ok [unfolded Bs]]) (use own' heap_okD(5) [OF ok] Bs in auto)
  then show ?thesis using inv Bs by (simp add: heap_inv_def)
qed

section \<open>The heap provides the allocator interface\<close>

definition heap_live :: "heap_state \<Rightarrow> (nat \<times> nat) set \<Rightarrow> bool" where
  "heap_live st L \<longleftrightarrow> (\<exists>Bs. heap_inv st Bs \<and> live Bs = L)"

text \<open>There is room for \<open>n\<close> bytes even if a new block is needed.\<close>

definition heap_room :: "nat \<Rightarrow> heap_state \<Rightarrow> bool" where
  "heap_room n st \<longleftrightarrow> n + 4176 < W32 \<and> system_room (n + 32) st"

text \<open>Freeing \<open>p\<close> does not empty its block.\<close>

definition heap_shared :: "nat \<Rightarrow> heap_state \<Rightarrow> bool" where
  "heap_shared p st \<longleftrightarrow> (\<forall>Bs. heap_inv st Bs \<longrightarrow>
     (\<exists>As B Cs xs z ys. Bs = As @ B # Cs \<and> b_chunks B = xs @ z # ys \<and> xs @ ys \<noteq> [] \<and> p = c_ptr z))"

abbreviation heap_modify :: "(mem \<Rightarrow> mem) \<Rightarrow> heap_state \<Rightarrow> heap_state" where
  "heap_modify f st \<equiv> st\<lparr>mem := f (mem st)\<rparr>"

interpretation kheap: freeing_allocator heap_live heap_room new_malloc mem heap_modify new_free heap_shared
proof unfold_locales
  fix s L n assume "heap_live s L" and r: "heap_room n s"
  then obtain Bs where Bs: "heap_inv s Bs" "live Bs = L" by (auto simp: heap_live_def)
  obtain p s' Bs' where m: "new_malloc n s = Inr (p, s')" and g: "gives s Bs n p s' Bs'" and i: "heap_inv s' Bs'"
    using new_malloc_ok [OF _ Bs(1), of n] r by (auto simp: heap_room_def)
  have "heap_live s' (insert (p, n) L)" using i g Bs(2) by (auto simp: heap_live_def gives_def)
  then show "\<exists>p s'. new_malloc n s = Inr (p, s') \<and> heap_live s' (insert (p, n) L) \<and> p mod 16 = 0 \<and> p \<noteq> 0 \<and>
      (\<forall>(q, k)\<in>L. p \<noteq> q \<and> apart p n q k \<and> same_on {q..<q + k} (mem s) (mem s'))"
    using m g Bs(2) by (auto simp: gives_def)
next
  fix s L p n f assume "heap_live s L" and p: "(p, n) \<in> L" and f: "\<And>x. x \<notin> {p..<p + n} \<Longrightarrow> f (mem s) x = mem s x"
  then obtain Bs where Bs: "heap_inv s Bs" "live Bs = L" by (auto simp: heap_live_def)
  then have "heap_inv (heap_modify f s) Bs" using payload_write [OF Bs(1) _ f] p by simp
  then show "heap_live (heap_modify f s) L \<and> mem (heap_modify f s) = f (mem s)" using Bs(2) by (auto simp: heap_live_def)
next
  fix s L p n assume "heap_live s L" and "(p, n) \<in> L" and sh: "heap_shared p s"
  then obtain Bs where Bs: "heap_inv s Bs" "live Bs = L" by (auto simp: heap_live_def)
  obtain As B Cs xs z ys where z: "Bs = As @ B # Cs" "b_chunks B = xs @ z # ys" "xs @ ys \<noteq> []" "p = c_ptr z"
    using sh Bs(1) unfolding heap_shared_def by blast
  obtain s' where f: "new_free p s = Inr s'" and r: "releases s Bs p s' (As @ Block (b_addr B) (b_pages B) (xs @ ys) # Cs)"
    using new_free_releases [OF Bs(1) [unfolded z(1)] z(2,3)] z(1,4) by auto
  then have "heap_live s' {(q, k) \<in> L. q \<noteq> p}" using Bs(2) by (auto simp: heap_live_def releases_def)
  moreover have "\<forall>(q, k)\<in>L. q \<noteq> p \<longrightarrow> same_on {q..<q + k} (mem s) (mem s')"
    using r Bs(2) by (auto simp: releases_def)
  ultimately show "\<exists>s'. new_free p s = Inr s' \<and> heap_live s' {(q, k) \<in> L. q \<noteq> p} \<and>
      (\<forall>(q, k)\<in>L. q \<noteq> p \<longrightarrow> same_on {q..<q + k} (mem s) (mem s'))" using f by blast
qed

end
