(* ===== verification/HeapProps.thy ===== *)
theory HeapProps
  imports HeapFree
begin

text \<open>
  What the heap guarantees its callers, as properties of \<open>malloc\<close>, \<open>free\<close> and \<open>calloc\<close>, on top of the
  invariant and the allocator interface; with concrete heaps on which the properties are evaluated.
\<close>

section \<open>Concrete heaps\<close>

text \<open>
  A machine with 128 frames of which the first 64 are used: the bitmap is at 0x1000, the directory at
  0x2000 and its one page table at 0x5000.
\<close>

definition base_mem :: mem where
  "base_mem = st32 (st32 (st32 (\<lambda>_. 0) 0x1000 0xFFFFFFFF) 0x1004 0xFFFFFFFF) 0x3000 0x5000"

definition small_heap :: "mem \<Rightarrow> nat \<Rightarrow> heap_state" where
  "small_heap m root = \<lparr>mem = m, plp = 0x100000, heap_online = True, nframes = 128, frames = 0x1000,
     kernel_dir = 0x2000, current_directory = 0x2000, heap_lock = 0, l_memRoot = root, l_bestBet = 0,
     l_allocated = 0, l_inuse = 0, l_warningCount = 0, l_errorCount = 0, l_possibleOverruns = 0\<rparr>"

text \<open>One block of 16 pages at 0x20000 with a chunk of 32 bytes, and with a second one of 16 bytes.\<close>

definition one_chunk :: mem where
  "one_chunk =
     st8 (st32 (st32 (st32 (st32 (st32 (st32
       (st32 (st32 (st32 (st32 (st32 (st32 base_mem 0x20000 0) 0x20004 0) 0x20008 16) 0x2000C 65536) 0x20010 112) 0x20014 0x20018)
       0x20018 0) 0x2001C 0) 0x20020 0x20000) 0x20024 LIBALLOC_MAGIC) 0x20028 64) 0x2002C 32) 0x20030 16"

definition two_chunks :: mem where
  "two_chunks =
     st8 (st32 (st32 (st32 (st32 (st32 (st32 (st32 (st32 one_chunk 0x20010 200) 0x2001C 0x20070)
       0x20070 0x20018) 0x20074 0) 0x20078 0x20000) 0x2007C LIBALLOC_MAGIC) 0x20080 64) 0x20084 16) 0x20090 24"

definition c1 :: chunk where "c1 = Chunk 0x20018 64 32"
definition c2 :: chunk where "c2 = Chunk 0x20070 64 16"

lemma small_heap_sel [simp]:
  "mem (small_heap m r) = m" "nframes (small_heap m r) = 128" "frames (small_heap m r) = 0x1000"
  "kernel_dir (small_heap m r) = 0x2000" "heap_online (small_heap m r)" "heap_lock (small_heap m r) = 0"
  "l_memRoot (small_heap m r) = r" "l_bestBet (small_heap m r) = 0"
  by (simp_all add: small_heap_def)

lemma all_ones: "bit (0xFFFFFFFF :: nat) i \<longleftrightarrow> i < 32"
proof -
  have "(0xFFFFFFFF :: nat) = mask 32" by (simp add: mask_eq_exp_minus_1)
  then show ?thesis by (simp only: bit_mask_iff) simp
qed

lemma base_words [simp]:
  "ld32 base_mem 0x1000 = 0xFFFFFFFF" "ld32 base_mem 0x1004 = 0xFFFFFFFF" "ld32 base_mem 0x1008 = 0" "ld32 base_mem 0x100C = 0"
  "ld32 base_mem (0x3000 + 4 * t) = (if t = 0 then 0x5000 else 0)"
  using apart_words [of 0 t "0x3000"] by (simp_all add: base_mem_def mem_simps)

text \<open>Whatever lies above the page table, the memory manager's data is in order.\<close>

lemma small_heap_mm:
  assumes "same_on {0..<0x6000} base_mem m"
  shows "t < 1024 \<Longrightarrow> tab (small_heap m r) t = (if t = 0 then 0x5000 else 0)"
    and "g < 128 \<Longrightarrow> used (small_heap m r) g \<longleftrightarrow> g < 64"
    and "mm_layout (small_heap m r)" and "meta_reserved (small_heap m r)"
    and "mm_meta (small_heap m r) x \<Longrightarrow> x < 0x6000"
proof -
  have w: "ld32 m a = ld32 base_mem a" if "a + 4 \<le> 0x6000" for a
    by (rule ld32_sub_frame [where b = 0 and k = "0x6000"]) (use assms that in auto)
  show tab: "tab (small_heap m r) t = (if t = 0 then 0x5000 else 0)" if "t < 1024" for t
    using w [of "0x3000 + 4 * t"] that by (simp add: dir_table_def)
  show used: "used (small_heap m r) g \<longleftrightarrow> g < 64" if "g < 128" for g
  proof -
    have "g div 32 \<in> {0, 1, 2, 3}" using that by auto
    then show ?thesis by (auto simp: used_def frame_word_def w all_ones)
  qed
  show lay: "mm_layout (small_heap m r)"
    using tab by (simp add: mm_layout_def bitmap_size_def apart_def)
  show meta: "x < 0x6000" if "mm_meta (small_heap m r) x" for x
    using that tab by (auto simp: mm_meta_def bitmap_size_def split: if_splits)
  show "meta_reserved (small_heap m r)"
    using meta used by (fastforce simp: meta_reserved_def div_less_iff_less_mult)
qed

lemma small_heap_empty:
  assumes "same_on {0..<0x6000} base_mem m"
  shows "heap_inv (small_heap m 0) []"
  using small_heap_mm [OF assms] by (simp add: heap_inv_def heap_ok_def blocks.separated_def)

lemma small_heap_block:
  assumes m: "same_on {0..<0x6000} base_mem m" and own: "block_own m (Block 0x20000 16 xs)"
    and l: "ld32 m 0x20000 = 0" "ld32 m 0x20004 = 0" and xs: "xs \<noteq> []"
  shows "heap_inv (small_heap m 0x20000) [Block 0x20000 16 xs]"
proof -
  note mm = small_heap_mm [OF m]
  have node: "blocks.node (Block 0x20000 16 xs) = {0x20000..<0x30000}"
    using block_own_bounds(4) [OF own] by (simp add: b_end_def)
  have "block_frames (small_heap m 0x20000) (Block 0x20000 16 xs)" by (auto simp: block_frames_def mm(2))
  then show ?thesis
    using mm(3,4) mm(5) [of "0x20000"] own l xs node by (fastforce simp: heap_inv_def heap_ok_def blocks.separated_def)
qed

lemma small_heap_room:
  assumes "same_on {0..<0x6000} base_mem m" and n: "n + 80 \<le> 65536"
  shows "heap_room n (small_heap m r)"
proof -
  note mm = small_heap_mm [OF assms(1)]
  have "scan (\<lambda>k. \<forall>j<16. \<not> used (small_heap m r) (k + j)) 0 128 = Some 64"
    unfolding scan_Some_iff
  proof (intro conjI allI impI)
    fix k assume k: "0 \<le> k \<and> k < (64 :: nat)"
    then have "used (small_heap m r) (k + 0)" using mm(2) [of k] by simp
    then show "\<not> (\<forall>j<16. \<not> used (small_heap m r) (k + j))" by (metis zero_less_numeral)
  qed (use mm(2) in auto)
  then have f: "first_n_frames 16 (small_heap m r) = 64" by (simp add: first_n_frames_scan)
  have "block_pages (n + 32) = 16"
  proof -
    have a: "add32 (add32 (n + 32) 24) 24 = n + 80" using n by (simp add: arith32)
    have "n + 80 = 65536 \<or> (n + 80) div 4096 < 16" using n by (auto simp: div_less_iff_less_mult)
    then show ?thesis
    proof
      assume "(n + 80) div 4096 < 16"
      then show ?thesis unfolding block_pages_def a Let_def by auto
    next
      assume "n + 80 = 65536"
      then show ?thesis unfolding block_pages_def a Let_def by simp
    qed
  qed
  then show ?thesis using f n mm(1) by (simp add: heap_room_def system_room_def Let_def)
qed

lemma one_chunk_ok:
  "same_on {0..<0x6000} base_mem one_chunk" "heap_inv (small_heap one_chunk 0x20000) [Block 0x20000 16 [c1]]"
proof -
  show s: "same_on {0..<0x6000} base_mem one_chunk"
    by (simp add: same_on_def one_chunk_def st8_def)
  show "heap_inv (small_heap one_chunk 0x20000) [Block 0x20000 16 [c1]]"
  proof (rule small_heap_block [OF s])
    show "block_own one_chunk (Block 0x20000 16 [c1])"
      by (simp add: block_own_def one_chunk_def mem_simps chunks_usage_def c1_def b_end_def c_end_def c_ptr_def chunk_own_def)
  qed (simp_all add: one_chunk_def mem_simps)
qed

lemma two_chunks_ok:
  "same_on {0..<0x6000} base_mem two_chunks" "heap_inv (small_heap two_chunks 0x20000) [Block 0x20000 16 [c1, c2]]"
proof -
  show s: "same_on {0..<0x6000} base_mem two_chunks"
    by (simp add: same_on_def two_chunks_def one_chunk_def st8_def)
  show "heap_inv (small_heap two_chunks 0x20000) [Block 0x20000 16 [c1, c2]]"
  proof (rule small_heap_block [OF s])
    show "block_own two_chunks (Block 0x20000 16 [c1, c2])"
      by (simp add: block_own_def two_chunks_def one_chunk_def mem_simps chunks_usage_def c1_def c2_def b_end_def c_end_def
        c_ptr_def chunk_own_def)
  qed (simp_all add: two_chunks_def one_chunk_def mem_simps)
qed

lemma chunk_ptrs [simp]: "c_ptr c1 = 0x20040" "c_ptr c2 = 0x200A0" "c_req c1 = 32" "c_req c2 = 16"
  by (simp_all add: c_ptr_def c1_def c2_def)

section \<open>The blocks are determined by the memory\<close>

lemma chunk_own_unique: "chunk_own a m x \<Longrightarrow> chunk_own a m y \<Longrightarrow> c_addr x = c_addr y \<Longrightarrow> x = y"
  by (cases x; cases y) (auto simp: chunk_own_def)

lemma block_own_unique: "block_own m B \<Longrightarrow> block_own m C \<Longrightarrow> b_addr B = b_addr C \<Longrightarrow> B = C"
proof -
  assume B: "block_own m B" and C: "block_own m C" and a: "b_addr B = b_addr C"
  obtain l l' where "chunk_seg (b_addr B) m (ld32 m (b_addr B + 20)) 0 (b_chunks B) l 0"
    "chunk_seg (b_addr B) m (ld32 m (b_addr B + 20)) 0 (b_chunks C) l' 0"
    using B C a by (auto simp: block_own_def)
  then have "b_chunks B = b_chunks C" by (rule dlseg_unique) (rule chunk_own_unique)
  then show "B = C" using a B C by (cases B; cases C) (auto simp: block_own_def)
qed

lemma heap_inv_unique: "heap_inv st Bs \<Longrightarrow> heap_inv st Cs \<Longrightarrow> Bs = Cs"
proof -
  assume "heap_inv st Bs" "heap_inv st Cs"
  then obtain l l' where "block_seg (mem st) (l_memRoot st) 0 Bs l 0" "block_seg (mem st) (l_memRoot st) 0 Cs l' 0"
    by (auto simp: heap_inv_def heap_ok_def)
  then show "Bs = Cs" by (rule dlseg_unique) (rule block_own_unique)
qed

lemma heap_live_iff: "heap_inv st Bs \<Longrightarrow> heap_live st L \<longleftrightarrow> L = live Bs"
  using heap_inv_unique by (auto simp: heap_live_def)

lemma heap_sharedI:
  "heap_inv st (As @ B # Cs) \<Longrightarrow> b_chunks B = xs @ z # ys \<Longrightarrow> xs @ ys \<noteq> [] \<Longrightarrow> heap_shared (c_ptr z) st"
  unfolding heap_shared_def using heap_inv_unique by blast

lemma live_block: "live [Block a np xs] = (\<lambda>x. (c_ptr x, c_req x)) ` set xs"
  by (auto simp: live_def)

lemma one_chunk_live: "heap_live (small_heap one_chunk 0x20000) {(0x20040, 32)}"
  by (simp add: heap_live_iff [OF one_chunk_ok(2)] live_block)

lemma two_chunks_live: "heap_live (small_heap two_chunks 0x20000) {(0x20040, 32), (0x200A0, 16)}"
  by (simp add: heap_live_iff [OF two_chunks_ok(2)] live_block)

text \<open>A heap with one live pointer is a block with one chunk.\<close>

lemma last_chunk_block:
  assumes ok: "heap_ok st Bs" and ne: "\<forall>B\<in>set Bs. b_chunks B \<noteq> []" and l: "live Bs = {(p, n)}"
  obtains B z where "Bs = [B]" "b_chunks B = [z]" "p = c_ptr z"
proof -
  have "(p, n) \<in> live Bs" using l by simp
  then obtain x B where x: "B \<in> set Bs" "x \<in> set (b_chunks B)" "p = c_ptr x" by (auto simp: live_def)
  obtain As Cs where AC: "Bs = As @ B # Cs" using split_list [OF x(1)] by blast
  obtain xs ys where xy: "b_chunks B = xs @ x # ys" using split_list [OF x(2)] by blast
  have okA: "heap_ok st (As @ B # Cs)" using ok AC by simp
  let ?rest = "live (As @ Block (b_addr B) (b_pages B) (xs @ ys) # Cs)"
  have "live Bs = insert (c_ptr x, c_req x) ?rest" "(c_ptr x, k) \<notin> ?rest" for k
    using live_chunk_ptr [OF okA xy] AC by simp_all
  then have "?rest = {}" using l x(3) by auto
  then have none: "(c_ptr y, c_req y) \<notin> ?rest" for y by simp
  have e: "xs @ ys = []" using none unfolding live_iff block.sel by (cases "xs @ ys") auto
  have "\<forall>C\<in>set (As @ Cs). b_chunks C = []"
  proof
    fix C assume C: "C \<in> set (As @ Cs)"
    show "b_chunks C = []"
    proof (cases "b_chunks C")
      case (Cons y zs)
      then have "y \<in> set (b_chunks C)" by simp
      then show ?thesis using none [of y] C unfolding live_iff by blast
    qed simp
  qed
  then have "C \<notin> set (As @ Cs)" for C using ne AC by auto
  then have "set (As @ Cs) = {}" by (metis equals0I)
  then have "As @ Cs = []" by simp
  then show thesis using that [of B x] AC xy e x(3) by simp
qed

section \<open>Properties\<close>

text \<open>
  C1. \<open>malloc\<close> serves every request for which a block or the system has room: it terminates, releases
  the lock, keeps the invariant of the heap, and returns a pointer that is not NULL, aligned to 16 bytes
  and the start of a buffer of the requested size that overlaps no live buffer; the bytes of all live
  buffers are unchanged.
\<close>

theorem new_malloc_serves:
  assumes "heap_live st L" "heap_room n st"
  shows "\<exists>p st'. new_malloc n st = Inr (p, st') \<and> heap_live st' (insert (p, n) L) \<and> heap_lock st' = 0 \<and>
    p mod 16 = 0 \<and> p \<noteq> 0 \<and> p + n < W32 \<and>
    (\<forall>(q, k)\<in>L. p \<noteq> q \<and> apart p n q k \<and> same_on {q..<q + k} (mem st) (mem st'))"
proof -
  obtain Bs where Bs: "heap_inv st Bs" "live Bs = L" using assms(1) by (auto simp: heap_live_def)
  obtain p st' Bs' where m: "new_malloc n st = Inr (p, st')" and g: "gives st Bs n p st' Bs'" and i: "heap_inv st' Bs'"
    using new_malloc_ok [OF _ Bs(1), of n] assms(2) by (auto simp: heap_room_def)
  have "heap_live st' (insert (p, n) L)" using i g Bs(2) by (auto simp: heap_live_def gives_def)
  then show ?thesis using m g Bs(2) by (auto simp: gives_def)
qed

theorem new_malloc_serves_witness:
  "\<exists>p st'. new_malloc 100 (small_heap one_chunk 0x20000) = Inr (p, st') \<and>
     heap_live st' {(p, 100), (0x20040, 32)} \<and> p mod 16 = 0 \<and> apart p 100 0x20040 32"
  using new_malloc_serves [OF one_chunk_live small_heap_room [OF one_chunk_ok(1), of 100]] by auto

text \<open>
  C3. A caller that allocates a buffer for each of a list of strings and fills it, one after the other,
  finds every string in its buffer at the end: the buffers are apart from each other and from the live
  ones, whose bytes are unchanged.
\<close>

theorem malloc_strings:
  assumes "heap_live st L" "room_all heap_room new_malloc heap_modify ds st"
  shows "\<exists>ps st'. fill_all new_malloc heap_modify ds st = Inr (ps, st') \<and> length ps = length ds \<and> distinct ps \<and>
    heap_live st' (set (zip ps (map length ds)) \<union> L) \<and>
    (\<forall>i<length ds. get (ps ! i) (length (ds ! i)) (mem st') = ds ! i) \<and>
    (\<forall>i<length ds. \<forall>j<i. apart (ps ! i) (length (ds ! i)) (ps ! j) (length (ds ! j))) \<and>
    (\<forall>(q, k)\<in>L. get q k (mem st') = get q k (mem st))"
proof -
  obtain ps st' where f: "fill_all new_malloc heap_modify ds st = Inr (ps, st')" "length ps = length ds" "distinct ps"
    "heap_live st' (set (zip ps (map length ds)) \<union> L)"
    "\<forall>i<length ds. get (ps ! i) (length (ds ! i)) (mem st') = ds ! i"
    "\<forall>i<length ds. \<forall>j<i. apart (ps ! i) (length (ds ! i)) (ps ! j) (length (ds ! j))"
    and o: "\<forall>(q, k)\<in>L. same_on {q..<q + k} (mem st) (mem st') \<and> q \<notin> set ps \<and>
       (\<forall>i<length ds. apart (ps ! i) (length (ds ! i)) q k)"
    using kheap.fill_all_ok [OF assms] by blast
  have "\<forall>(q, k)\<in>L. get q k (mem st') = get q k (mem st)" using o by (auto intro: get_same)
  with f show ?thesis by blast
qed

theorem malloc_strings_witness:
  "\<exists>p st'. fill_all new_malloc heap_modify [[76, 101, 118]] (small_heap two_chunks 0x20000) = Inr ([p], st') \<and>
     get p 3 (mem st') = [76, 101, 118] \<and>
     get 0x20040 32 (mem st') = get 0x20040 32 two_chunks"
proof -
  have r: "heap_room (length [76, 101, 118 :: u8]) (small_heap two_chunks 0x20000)"
    by (rule small_heap_room [OF two_chunks_ok(1)]) simp
  have "room_all heap_room new_malloc heap_modify [[76, 101, 118]] (small_heap two_chunks 0x20000)"
    unfolding room_all.simps by (intro conjI r) (simp split: sum.split)
  from malloc_strings [OF two_chunks_live this] obtain ps st' where
    f: "fill_all new_malloc heap_modify [[76, 101, 118]] (small_heap two_chunks 0x20000) = Inr (ps, st')"
    and l: "length ps = length [[76, 101, 118 :: u8]]"
    and g: "\<forall>i<length [[76, 101, 118 :: u8]]. get (ps ! i) (length ([[76, 101, 118 :: u8]] ! i)) (mem st') = [[76, 101, 118 :: u8]] ! i"
    and o: "\<forall>(q, k)\<in>{(0x20040, 32), (0x200A0, 16)}. get q k (mem st') = get q k (mem (small_heap two_chunks 0x20000))"
    by blast
  obtain p where p: "ps = [p]" using l by (auto simp: length_Suc_conv)
  have "get p 3 (mem st') = [76, 101, 118]" using g [THEN spec, of 0] by (simp add: p numeral_3_eq_3)
  moreover have "get 0x20040 32 (mem st') = get 0x20040 32 two_chunks" using o by simp
  ultimately show ?thesis using f p by blast
qed

text \<open>
  C2. \<open>free\<close> of a live pointer whose block holds other chunks succeeds, releases the lock, ends the life
  of that pointer only and leaves the bytes of all other live buffers unchanged; its memory can be
  allocated again since the invariant holds.
\<close>

theorem new_free_frees:
  assumes "heap_live st L" "(p, n) \<in> L" "heap_shared p st"
  shows "\<exists>st'. new_free p st = Inr st' \<and> heap_live st' {(q, k) \<in> L. q \<noteq> p} \<and> heap_lock st' = 0 \<and>
    (\<forall>(q, k)\<in>L. q \<noteq> p \<longrightarrow> same_on {q..<q + k} (mem st) (mem st'))"
proof -
  obtain st' where f: "new_free p st = Inr st'" "heap_live st' {(q, k) \<in> L. q \<noteq> p}"
    "\<forall>(q, k)\<in>L. q \<noteq> p \<longrightarrow> same_on {q..<q + k} (mem st) (mem st')"
    using kheap.free_ok [OF assms] by blast
  then have "heap_lock st' = 0" by (auto simp: heap_live_def heap_inv_def)
  with f show ?thesis by blast
qed

lemma two_chunks_shared: "heap_shared 0x20040 (small_heap two_chunks 0x20000)"
  using heap_sharedI [of _ "[]" "Block 0x20000 16 [c1, c2]" "[]" "[]" c1 "[c2]"] two_chunks_ok(2) by simp

theorem new_free_frees_witness:
  "\<exists>st'. new_free 0x20040 (small_heap two_chunks 0x20000) = Inr st' \<and> heap_live st' {(0x200A0, 16)}"
proof -
  have "{(q, k) \<in> {(0x20040 :: nat, 32 :: nat), (0x200A0, 16)}. q \<noteq> 0x20040} = {(0x200A0, 16)}" by auto
  with new_free_frees [OF two_chunks_live _ two_chunks_shared, of 32] show ?thesis by auto
qed

text \<open>
  Freeing a pointer a second time changes nothing but the error counter: the dead chunk is
  recognised by its magic number, the lists and all memory stay as they are.
\<close>

theorem double_free_noticed:
  assumes "heap_live st L" "(p, n) \<in> L" "heap_shared p st"
  shows "\<exists>st'. new_free p st = Inr st' \<and> new_free p st' = Inr (st'\<lparr>l_errorCount := l_errorCount st' + 1\<rparr>)"
proof -
  obtain Bs where Bs: "heap_inv st Bs" using assms(1) by (auto simp: heap_live_def)
  obtain As B Cs xs z ys where z: "Bs = As @ B # Cs" "b_chunks B = xs @ z # ys" "xs @ ys \<noteq> []" "p = c_ptr z"
    using assms(3) Bs unfolding heap_shared_def by blast
  have inv: "heap_inv st (As @ B # Cs)" using Bs z(1) by simp
  have zB: "z \<in> set (b_chunks B)" using z(2) by simp
  have "block_own (mem st) B" using inv heap_okD(8) [of st "As @ B # Cs" B] by (simp add: heap_inv_def)
  note lz = live_chunk [OF this zB] block_own_bounds(2) [OF this]
  obtain st' where f: "new_free p st = Inr st'" and r: "releases st (As @ B # Cs) p st' (As @ Block (b_addr B) (b_pages B) (xs @ ys) # Cs)"
    and u: "UNALIGN p (mem st') = c_addr z + 24" "rd st' (c_addr z + 12) = LIBALLOC_DEAD"
    using new_free_releases [OF inv z(2,3)] z(4) by blast
  have "heap_lock st' = 0" using r by (simp add: releases_def heap_inv_def)
  then have "new_free p st' = Inr (st'\<lparr>l_errorCount := l_errorCount st' + 1\<rparr>)"
    using new_free_dead [OF _ u(1) _ u(2)] lz z(4) by simp
  with f show ?thesis by blast
qed

theorem double_free_noticed_witness:
  "\<exists>st'. new_free 0x20040 (small_heap two_chunks 0x20000) = Inr st' \<and>
     new_free 0x20040 st' = Inr (st'\<lparr>l_errorCount := l_errorCount st' + 1\<rparr>)"
  using double_free_noticed [OF two_chunks_live _ two_chunks_shared, of 32] by simp

text \<open>
  C40. Freeing the last chunk of the heap does not return its pages: \<open>mm_free_pages\<close> takes the block's
  address for a page table entry and looks at the word one page below it; when that holds no frame
  number the kernel panics.
\<close>

theorem free_last_chunk_panics:
  assumes "heap_live st {(p, n)}" "frame (page_at (mem st) (l_memRoot st - 0x1000)) = 0"
  shows "new_free p st = Inl (Panic ''Page at 0x%x attempted to free frame 0x%x'')"
proof -
  obtain Bs where Bs: "heap_inv st Bs" "live Bs = {(p, n)}" using assms(1) by (auto simp: heap_live_def)
  have ok: "heap_ok st Bs" and lock: "heap_lock st = 0" and ne: "\<forall>B\<in>set Bs. b_chunks B \<noteq> []"
    using Bs(1) by (simp_all add: heap_inv_def)
  obtain B z where B: "Bs = [B]" "b_chunks B = [z]" "p = c_ptr z" using last_chunk_block [OF ok ne Bs(2)] .
  have Bi: "B \<in> set [B]" by simp
  have okB: "heap_ok st ([] @ B # [])" using ok B(1) by simp
  have zB: "b_chunks B = [] @ z # []" using B(2) by simp
  define st1 where "st1 = taken st (b_addr B) [] z []"
  note t = new_free_taken [OF okB lock zB, folded st1_def]
  have own: "block_own (mem st) B" and fr: "block_frames st B" using heap_okD(6,8) [OF okB, of B] by simp_all
  note ob = block_own_bounds [OF own]
  obtain l where seg: "block_seg (mem st) (l_memRoot st) 0 [B] l 0" using ok B(1) by (auto simp: heap_ok_def)
  then have root: "l_memRoot st = b_addr B" "ld32 (mem st) (b_addr B) = 0" "ld32 (mem st) (b_addr B + 4) = 0" by auto
  have same: "ld32 (mem st1) x = ld32 (mem st) x" if "x + 4 \<le> b_addr B + 16" for x
    using t(7) that by (intro ld32_frame) (auto simp: same_on_def)
  have a: "4096 \<le> b_addr B" using fr by (auto simp: block_frames_def dest: dvd_imp_le)
  have np: "b_pages B = Suc (b_pages B - 1)" using ob(1) by (cases "b_pages B") (auto simp: b_end_def)
  have words: "rd st1 (b_addr B + 0) = 0" "rd st1 (b_addr B + 4) = 0" "rd st1 (b_addr B + 8) = b_pages B"
    using root own same [of "b_addr B"] same [of "b_addr B + 4"] same [of "b_addr B + 8"] by (simp_all add: rd_def block_own_def)
  define st2 where "st2 = st1\<lparr>l_memRoot := 0, l_bestBet := (if l_bestBet st1 = b_addr B then 0 else l_bestBet st1),
      l_allocated := sub64 (l_allocated st1) (rd st1 (b_addr B + 12))\<rparr>"
  have r1: "l_memRoot st1 = b_addr B" using root(1) by (simp add: st1_def taken_def)
  have "release_major (b_addr B) st1 = mm_free_pages (b_addr B) (b_pages B) st2"
    using words r1 by (simp add: release_major_def Let_def liballoc_free_def st2_def rd_def)
  moreover have "frame (page_at (mem st2) (b_addr B - 0x1000)) = 0"
    using assms(2) root(1) same [of "b_addr B - 0x1000"] a by (simp add: page_at_def st2_def)
  moreover have "sub32 (b_addr B) 0x1000 = b_addr B - 0x1000" using a ob(1,2) by (simp add: arith32)
  ultimately have "release_major (b_addr B) st1 = Inl (Panic ''Page at 0x%x attempted to free frame 0x%x'')"
    by (subst (asm) np) (simp add: free_frame_def)
  then show ?thesis using t(1) B(3) by simp
qed

theorem free_last_chunk_panics_witness:
  "new_free 0x20040 (small_heap one_chunk 0x20000) = Inl (Panic ''Page at 0x%x attempted to free frame 0x%x'')"
proof (rule free_last_chunk_panics [OF one_chunk_live])
  have "ld32 one_chunk 0x1F000 = 0" by (simp add: one_chunk_def base_mem_def mem_simps)
  then show "frame (page_at (mem (small_heap one_chunk 0x20000)) (l_memRoot (small_heap one_chunk 0x20000) - 0x1000)) = 0"
    by (simp add: page_at_def page_decode_def)
qed

lemma liballoc_memset_put: "liballoc_memset p c n m = put p (replicate n c) m"
proof (induction n arbitrary: m)
  case (Suc n)
  have app: "put p (xs @ [d]) m = (put p xs m)(p + length xs := d)" for xs d p m
  proof (induction xs arbitrary: p m)
    case (Cons x xs)
    show ?case using Cons [of "Suc p"] by simp
  qed simp
  have "replicate (Suc n) c = replicate n c @ [c]" by (simp add: replicate_append_same)
  then show ?case using Suc app [of p "replicate n c" c m] by simp
qed simp

text \<open>
  C33. \<open>calloc\<close> gives a buffer of zeroes apart from all live ones, but of \<open>nobj * size\<close> bytes only
  modulo 2^32: the product may wrap, and the caller gets a buffer that is too short.
\<close>

theorem new_calloc_zeroed:
  assumes "heap_live st L" "heap_room (nobj * sz mod W32) st"
  defines "n \<equiv> nobj * sz mod W32"
  shows "\<exists>p st'. new_calloc nobj sz st = Inr (p, st') \<and> heap_live st' (insert (p, n) L) \<and> p mod 16 = 0 \<and> p \<noteq> 0 \<and>
    get p n (mem st') = replicate n 0 \<and>
    (\<forall>(q, k)\<in>L. p \<noteq> q \<and> apart p n q k \<and> same_on {q..<q + k} (mem st) (mem st'))"
proof -
  have room: "heap_room (length (replicate n (0 :: u8))) st" using assms(2) by (simp add: n_def)
  obtain p s1 where m: "new_malloc n st = Inr (p, s1)"
    and i: "heap_live (heap_modify (put p (replicate n 0)) s1) (insert (p, n) L)" and p: "p mod 16 = 0" "p \<noteq> 0"
    and g: "get p n (mem (heap_modify (put p (replicate n 0)) s1)) = replicate n 0"
    and o: "\<forall>(q, k)\<in>L. p \<noteq> q \<and> apart p n q k \<and> same_on {q..<q + k} (mem st) (mem (heap_modify (put p (replicate n 0)) s1))"
    using kheap.alloc_put [OF assms(1) room] unfolding length_replicate by blast
  have "new_calloc nobj sz st = Inr (p, heap_modify (put p (replicate n 0)) s1)"
    using m by (simp add: new_calloc_def Let_def mul32_def liballoc_memset_put n_def)
  with i p g o show ?thesis by (intro exI conjI)
qed

theorem new_calloc_zeroed_witness:
  "\<exists>p st'. new_calloc 0x8000 0x20001 (small_heap one_chunk 0x20000) = Inr (p, st') \<and> get p 0x8000 (mem st') = replicate 0x8000 0"
  using new_calloc_zeroed [OF one_chunk_live, of "0x8000" "0x20001"] small_heap_room [OF one_chunk_ok(1), of "0x8000"]
  by auto

text \<open>
  A request within 32 bytes of 2^32 wraps to size 0 and is served as a request for one byte: the
  caller gets a valid pointer to a single byte instead of NULL.
\<close>

theorem new_malloc_wraps:
  assumes "heap_live st L" "heap_room 1 st"
  shows "\<exists>p st'. new_malloc (W32 - 32) st = Inr (p, st') \<and> heap_live st' (insert (p, 1) L) \<and> p \<noteq> 0"
proof -
  let ?s = "st\<lparr>l_warningCount := l_warningCount st + 1\<rparr>"
  obtain Bs where Bs: "heap_inv st Bs" "live Bs = L" using assms(1) by (auto simp: heap_live_def)
  have lock: "heap_lock st = 0" using Bs by (simp add: heap_inv_def)
  have "heap_ok ?s Bs" by (rule heap_ok_cong [of st]) (use Bs in \<open>simp_all add: heap_inv_def\<close>)
  then have inv: "heap_inv ?s Bs" using Bs by (simp add: heap_inv_def)
  have room: "system_room 33 ?s" using assms(2) room_cong [of ?s st 33] by (simp add: heap_room_def)
  obtain p st' Bs' where m: "malloc_nonzero 1 ?s = Inr (p, st')" and g: "gives ?s Bs 1 p st' Bs'" and i: "heap_inv st' Bs'"
    using malloc_nonzero_ok [OF _ inv, of 1] room by auto
  have s: "?s\<lparr>heap_lock := 0\<rparr> = ?s" using lock by (cases st) simp
  have z: "add32 (W32 - 32) 32 = 0" by (simp add: add32_def)
  have "new_malloc (W32 - 32) st = malloc_nonzero 1 ?s"
    using lock z by (simp add: new_malloc_def liballoc_lock_def liballoc_unlock_def s [simplified])
  moreover have "heap_live st' (insert (p, 1) L)" using g i Bs(2) by (auto simp: heap_live_def gives_def)
  ultimately show ?thesis using m g by (auto simp: gives_def)
qed

theorem new_malloc_wraps_witness:
  "\<exists>p st'. new_malloc 0xFFFFFFE0 (small_heap one_chunk 0x20000) = Inr (p, st') \<and> heap_live st' {(p, 1), (0x20040, 32)}"
  using new_malloc_wraps [OF one_chunk_live small_heap_room [OF one_chunk_ok(1)]] by (simp del: One_nat_def) blast

end
