(* ===== verification/Multiboot.thy ===== *)
theory Multiboot
  imports Page
begin

text \<open>
  arch/x86/multiboot.c: the boot loader's memory map, whose reserved regions are marked as used in the frame bitmap. Both
  loops read the map again on every turn.
\<close>

unbundle bit_operations_syntax

section \<open>The code\<close>

abbreviation (input) mb_flags :: nat where "mb_flags \<equiv> 0"
abbreviation (input) mb_mem_lower :: nat where "mb_mem_lower \<equiv> 4"
abbreviation (input) mb_mem_upper :: nat where "mb_mem_upper \<equiv> 8"
abbreviation (input) mb_mmap_length :: nat where "mb_mmap_length \<equiv> 44"
abbreviation (input) mb_mmap_addr :: nat where "mb_mmap_addr \<equiv> 48"

abbreviation (input) mm_size :: nat where "mm_size \<equiv> 0"
abbreviation (input) mm_base_addr :: nat where "mm_base_addr \<equiv> 4"
abbreviation (input) mm_length :: nat where "mm_length \<equiv> 12"
abbreviation (input) mm_type :: nat where "mm_type \<equiv> 20"

abbreviation (input) W64 :: nat where "W64 \<equiv> 18446744073709551616"

definition ld64 :: "mem \<Rightarrow> nat \<Rightarrow> nat" where
  "ld64 m a = ld32 m a + W32 * ld32 m (a + 4)"

text \<open>The pages of the region of the entry at \<open>mmap\<close>, from the offset \<open>i\<close> on; the test that guards the call has no body.\<close>

partial_function (option) mark_pages :: "nat \<Rightarrow> nat \<Rightarrow> 'a mm_state_scheme \<Rightarrow> 'a mm_state_scheme option" where
  "mark_pages mmap i st =
     (if i < ld64 (mem st) (mmap + mm_length)
      then mark_pages mmap ((i + 0x1000) mod W64)
             (mark_region (((ld64 (mem st) (mmap + mm_base_addr) + i) mod W64) AND 0xFFFFF000) st)
      else Some st)"

partial_function (option) mmap_loop :: "nat \<Rightarrow> nat \<Rightarrow> 'a mm_state_scheme \<Rightarrow> 'a mm_state_scheme option" where
  "mmap_loop m mmap st =
     (if mmap < add32 (ld32 (mem st) (m + mb_mmap_addr)) (ld32 (mem st) (m + mb_mmap_length))
      then case (if ld32 (mem st) (mmap + mm_type) = 2 then mark_pages mmap 0 st else Some st) of
             None \<Rightarrow> None
           | Some st1 \<Rightarrow> mmap_loop m (add32 (add32 mmap (ld32 (mem st1) (mmap + mm_size))) 4) st1
      else Some st)"

definition arch_do_mboot :: "'a mm_state_scheme malloc \<Rightarrow> nat \<Rightarrow> 'a mm_state_scheme \<Rightarrow> 'a mm_state_scheme outcome" where
  "arch_do_mboot new_malloc m st =
     bindR (init_paging new_malloc (add32 (ld32 (mem st) (m + mb_mem_upper)) (ld32 (mem st) (m + mb_mem_lower))) st) (\<lambda>st1.
       if bit (ld32 (mem st1) (m + mb_flags)) 6
       then case mmap_loop m (ld32 (mem st1) (m + mb_mmap_addr)) st1 of None \<Rightarrow> Inl Hang | Some st2 \<Rightarrow> Inr st2
       else Inr st1)"

text \<open>main.c\<close>

definition parse_multiboot :: "'a mm_state_scheme malloc \<Rightarrow> nat \<Rightarrow> 'a mm_state_scheme \<Rightarrow> 'a mm_state_scheme outcome" where
  "parse_multiboot new_malloc m st = arch_do_mboot new_malloc m st"

section \<open>Memory maps\<close>






section \<open>Marking\<close>
















section \<open>The boot loader's map\<close>




end
