(* ===== verification/Ports.thy ===== *)
theory Ports
  imports Prelude
begin

text \<open>
  The I/O ports of the x86 (arch/x86/hal.c). What a port returns is the hardware's business: \<open>hw\<close> gives
  the value of a port after everything that was read and written so far, which \<open>port_log\<close> records in order.
\<close>

datatype port_event = In nat | Out nat u8

record port_state =
  hw :: "port_event list \<Rightarrow> nat \<Rightarrow> nat"
  port_log :: "port_event list"

definition inportb :: "nat \<Rightarrow> 'a port_state_scheme \<Rightarrow> u8 \<times> 'a port_state_scheme" where
  "inportb p st = (of_nat (hw st (port_log st) p), st\<lparr>port_log := port_log st @ [In p]\<rparr>)"

definition inportw :: "nat \<Rightarrow> 'a port_state_scheme \<Rightarrow> u16 \<times> 'a port_state_scheme" where
  "inportw p st = (of_nat (hw st (port_log st) p), st\<lparr>port_log := port_log st @ [In p]\<rparr>)"

definition outportb :: "nat \<Rightarrow> u8 \<Rightarrow> 'a port_state_scheme \<Rightarrow> 'a port_state_scheme" where
  "outportb p v st = st\<lparr>port_log := port_log st @ [Out p v]\<rparr>"

text \<open>The bytes written to a port.\<close>

fun written :: "nat \<Rightarrow> port_event list \<Rightarrow> u8 list" where
  "written p [] = []"
| "written p (In q # es) = written p es"
| "written p (Out q v # es) = (if q = p then v # written p es else written p es)"

lemma written_append [simp]: "written p (es @ fs) = written p es @ written p fs"
  by (induction p es rule: written.induct) simp_all

lemma written_reads [simp]: "written p (replicate n (In q)) = []"
  by (induction n) simp_all

lemma inportb_sel [simp]:
  "fst (inportb p st) = of_nat (hw st (port_log st) p)"
  "snd (inportb p st) = st\<lparr>port_log := port_log st @ [In p]\<rparr>"
  by (simp_all add: inportb_def)

lemma outportb_sel [simp]:
  "hw (outportb p v st) = hw st" "port_log (outportb p v st) = port_log st @ [Out p v]"
  by (simp_all add: outportb_def)

end
