(* ===== verification/Device.thy ===== *)
theory Device
  imports Ports Memory
begin

text \<open>
  kernel/device.c: the registry of devices, an array of 256 pointers with a count. The devices that the
  drivers define as static objects are named by \<open>dev\<close>; where the linker puts them is the field
  \<open>dev_addr\<close>. The record also holds the byte memory the drivers share.
\<close>

datatype dev = KEYBOARD_DEV | KMSG_DEV | SERIAL_DEV | TM_DEV | CONSOLE_DEV

record dev_state = port_state +
  ram :: mem
  devs :: "nat list"
  devices :: nat
  dev_addr :: "dev \<Rightarrow> nat"

abbreviation MAX_DEVICES :: nat where "MAX_DEVICES \<equiv> 256"

section \<open>The code\<close>

text \<open>The address is compared as a signed number, so the upper half of the address space is refused too.\<close>

definition device_register :: "nat \<Rightarrow> 'a dev_state_scheme \<Rightarrow> int \<times> 'a dev_state_scheme" where
  "device_register d st =
     (if sint32 d \<le> 0 then (- EINVAL, st)
      else if MAX_DEVICES \<le> devices st then (- ENOSPC, st)
      else (0, st\<lparr>devs := (devs st)[devices st := d], devices := devices st + 1\<rparr>))"

definition get_num_of_devices :: "'a dev_state_scheme \<Rightarrow> nat" where
  "get_num_of_devices st = devices st"

definition device_get :: "int \<Rightarrow> 'a dev_state_scheme \<Rightarrow> nat outcome" where
  "device_get i st =
     (if i \<ge> int MAX_DEVICES then Inr 0
      else if i < 0 then Inl (Undefined ''devs'')
      else Inr (devs st ! nat i))"

section \<open>The registry as a list\<close>

text \<open>Unused entries are null, as the array starts out.\<close>

definition reg_ok :: "'a dev_state_scheme \<Rightarrow> bool" where
  "reg_ok st \<longleftrightarrow> length (devs st) = MAX_DEVICES \<and> devices st \<le> MAX_DEVICES \<and>
     (\<forall>i<MAX_DEVICES. devices st \<le> i \<longrightarrow> devs st ! i = 0)"

definition registered :: "'a dev_state_scheme \<Rightarrow> nat list" where
  "registered st = take (devices st) (devs st)"

definition lookup_or_null :: "nat list \<Rightarrow> nat \<Rightarrow> nat" where
  "lookup_or_null ds i = (if i < length ds then ds ! i else 0)"

lemma length_registered: "reg_ok st \<Longrightarrow> length (registered st) = devices st"
  by (simp add: reg_ok_def registered_def)

lemma device_get_registered:
  assumes "reg_ok st"
  shows "device_get (int i) st = Inr (lookup_or_null (registered st) i)"
  using assms by (auto simp: reg_ok_def registered_def lookup_or_null_def device_get_def)

text \<open>
  The registry is an append-only list of at most 256 device addresses: registering appends, or fails
  with -EINVAL for null and for addresses from 2^31 on, or with -ENOSPC when it is full, leaving it as it
  was; \<open>device_get\<close> is the lookup in the list, null beyond its end.
\<close>

theorem device_registry:
  assumes "reg_ok st" "d < W32" "device_register d st = (rc, st')"
  shows "reg_ok st' \<and> get_num_of_devices st' = length (registered st') \<and>
    (rc, registered st') =
      (if d = 0 \<or> 2147483648 \<le> d then (- EINVAL, registered st)
       else if length (registered st) = 256 then (- ENOSPC, registered st)
       else (0, registered st @ [d])) \<and>
    (\<forall>i. device_get (int i) st' = Inr (lookup_or_null (registered st') i))"
proof -
  have neg: "sint32 d \<le> 0 \<longleftrightarrow> d = 0 \<or> 2147483648 \<le> d" using assms(2) by (auto simp: sint32_def)
  have *: "reg_ok st' \<and> (rc, registered st') =
      (if d = 0 \<or> 2147483648 \<le> d then (- EINVAL, registered st)
       else if length (registered st) = 256 then (- ENOSPC, registered st)
       else (0, registered st @ [d]))"
  proof (cases "sint32 d \<le> 0 \<or> devices st = 256")
    case True
    then have "st' = st \<and> rc = (if sint32 d \<le> 0 then - EINVAL else - ENOSPC)"
      using assms(3) by (auto simp: device_register_def)
    then show ?thesis using True assms(1) neg by (auto simp: length_registered [OF assms(1)])
  next
    case False
    let ?n = "devices st"
    have n: "?n < 256" "length (devs st) = 256" using False assms(1) by (auto simp: reg_ok_def)
    have r: "rc = 0" "devs st' = (devs st)[?n := d]" "devices st' = Suc ?n"
      using False n assms(3) by (auto simp: device_register_def)
    have "registered st' = registered st @ [d]"
      unfolding registered_def r using n by (simp add: take_Suc_conv_app_nth)
    moreover have "reg_ok st'" using assms(1) n unfolding reg_ok_def r by auto
    ultimately show ?thesis using False neg r n by (auto simp: length_registered [OF assms(1)])
  qed
  then show ?thesis by (simp add: length_registered device_get_registered get_num_of_devices_def)
qed

definition no_devices :: "dev_state" where
  "no_devices = \<lparr>hw = (\<lambda>_ _. 0), port_log = [], ram = (\<lambda>_. 0), devs = replicate 256 0, devices = 0,
     dev_addr = (\<lambda>_. 0x1000)\<rparr>"

lemma no_devices_ok: "reg_ok no_devices" "registered no_devices = []"
  by (simp_all add: reg_ok_def no_devices_def registered_def)

theorem device_registry_witness:
  "fst (device_register 0x5000 no_devices) = 0 \<and> registered (snd (device_register 0x5000 no_devices)) = [0x5000]"
  using device_registry [of no_devices "0x5000" "fst (device_register 0x5000 no_devices)" "snd (device_register 0x5000 no_devices)"]
  by (simp add: no_devices_ok)

lemma device_register_frame [simp]:
  "ram (snd (device_register d st)) = ram st"
  "hw (snd (device_register d st)) = hw st"
  "port_log (snd (device_register d st)) = port_log st"
  "dev_addr (snd (device_register d st)) = dev_addr st"
  by (simp_all add: device_register_def)

end
