(* ===== verification/ByteQueue.thy ===== *)
theory ByteQueue
  imports Prelude
begin

text \<open>
  The interface of a bounded queue of characters, as the keyboard driver offers it to its readers:
  \<open>items\<close> is what is waiting, \<open>push\<close> appends while there is room, \<open>pop\<close> takes the first or returns 0.
\<close>

locale byte_queue =
  fixes valid :: "'s \<Rightarrow> bool" and items :: "'s \<Rightarrow> u8 list" and room :: nat
    and push :: "u8 \<Rightarrow> 's \<Rightarrow> 's" and pop :: "'s \<Rightarrow> u8 \<times> 's"
  assumes push_ok: "valid s \<Longrightarrow> length (items s) < room \<Longrightarrow> valid (push c s) \<and> items (push c s) = items s @ [c]"
    and pop_ok: "valid s \<Longrightarrow> items s = c # cs \<Longrightarrow> \<exists>s'. pop s = (c, s') \<and> valid s' \<and> items s' = cs"
    and pop_empty: "valid s \<Longrightarrow> items s = [] \<Longrightarrow> pop s = (0, s)"
begin

lemma push_all:
  "valid s \<Longrightarrow> length (items s) + length cs \<le> room \<Longrightarrow> valid (fold push cs s) \<and> items (fold push cs s) = items s @ cs"
proof (induction cs arbitrary: s)
  case (Cons c cs)
  then have "valid (push c s)" "items (push c s) = items s @ [c]" using push_ok [of s c] by auto
  then show ?case using Cons.IH [of "push c s"] Cons.prems(2) by simp
qed simp

text \<open>\<open>n\<close> pops in a row.\<close>

primrec pops :: "nat \<Rightarrow> 's \<Rightarrow> u8 list \<times> 's" where
  "pops 0 s = ([], s)"
| "pops (Suc n) s = (let (c, s') = pop s; (cs, s'') = pops n s' in (c # cs, s''))"

lemma pops_ok:
  "valid s \<Longrightarrow> n \<le> length (items s) \<Longrightarrow>
     \<exists>s'. pops n s = (take n (items s), s') \<and> valid s' \<and> items s' = drop n (items s)"
proof (induction n arbitrary: s)
  case (Suc n)
  obtain c cs where cs: "items s = c # cs" using Suc.prems(2) by (cases "items s") auto
  obtain s1 where s1: "pop s = (c, s1)" "valid s1" "items s1 = cs" using pop_ok [OF Suc.prems(1) cs] by blast
  with Suc.IH [of s1] Suc.prems(2) cs show ?case by auto
qed simp

text \<open>First in, first out.\<close>

lemma push_pop:
  assumes "valid s" "items s = []" "length cs \<le> room"
  shows "\<exists>s'. pops (length cs) (fold push cs s) = (cs, s') \<and> valid s' \<and> items s' = []"
  using push_all [of s cs] pops_ok [of "fold push cs s" "length cs"] assms by auto

end

end
