(* ===== verification/Keyboard.thy ===== *)
theory Keyboard
  imports Device ByteQueue
begin

text \<open>
  drivers/keyboard.c: the PS/2 keyboard. Scancodes become key codes by a table, modifiers are a small
  state machine, and the interrupt handler puts characters into a buffer that readers take from the
  front. The buffer is a piece of the byte memory, written without a bound check as in the code; within
  its 256 bytes it is a queue, beyond them it is not.
\<close>

section \<open>Key codes\<close>

text \<open>\<open>enum KEYCODE\<close>: its constants, and the list of them in the order of the declaration.\<close>

abbreviation (input) KEY_SPACE :: nat where "KEY_SPACE \<equiv> 32"
abbreviation (input) KEY_0 :: nat where "KEY_0 \<equiv> 48"
abbreviation (input) KEY_1 :: nat where "KEY_1 \<equiv> 49"
abbreviation (input) KEY_2 :: nat where "KEY_2 \<equiv> 50"
abbreviation (input) KEY_3 :: nat where "KEY_3 \<equiv> 51"
abbreviation (input) KEY_4 :: nat where "KEY_4 \<equiv> 52"
abbreviation (input) KEY_5 :: nat where "KEY_5 \<equiv> 53"
abbreviation (input) KEY_6 :: nat where "KEY_6 \<equiv> 54"
abbreviation (input) KEY_7 :: nat where "KEY_7 \<equiv> 55"
abbreviation (input) KEY_8 :: nat where "KEY_8 \<equiv> 56"
abbreviation (input) KEY_9 :: nat where "KEY_9 \<equiv> 57"
abbreviation (input) KEY_A :: nat where "KEY_A \<equiv> 97"
abbreviation (input) KEY_B :: nat where "KEY_B \<equiv> 98"
abbreviation (input) KEY_C :: nat where "KEY_C \<equiv> 99"
abbreviation (input) KEY_D :: nat where "KEY_D \<equiv> 100"
abbreviation (input) KEY_E :: nat where "KEY_E \<equiv> 101"
abbreviation (input) KEY_F :: nat where "KEY_F \<equiv> 102"
abbreviation (input) KEY_G :: nat where "KEY_G \<equiv> 103"
abbreviation (input) KEY_H :: nat where "KEY_H \<equiv> 104"
abbreviation (input) KEY_I :: nat where "KEY_I \<equiv> 105"
abbreviation (input) KEY_J :: nat where "KEY_J \<equiv> 106"
abbreviation (input) KEY_K :: nat where "KEY_K \<equiv> 107"
abbreviation (input) KEY_L :: nat where "KEY_L \<equiv> 108"
abbreviation (input) KEY_M :: nat where "KEY_M \<equiv> 109"
abbreviation (input) KEY_N :: nat where "KEY_N \<equiv> 110"
abbreviation (input) KEY_O :: nat where "KEY_O \<equiv> 111"
abbreviation (input) KEY_P :: nat where "KEY_P \<equiv> 112"
abbreviation (input) KEY_Q :: nat where "KEY_Q \<equiv> 113"
abbreviation (input) KEY_R :: nat where "KEY_R \<equiv> 114"
abbreviation (input) KEY_S :: nat where "KEY_S \<equiv> 115"
abbreviation (input) KEY_T :: nat where "KEY_T \<equiv> 116"
abbreviation (input) KEY_U :: nat where "KEY_U \<equiv> 117"
abbreviation (input) KEY_V :: nat where "KEY_V \<equiv> 118"
abbreviation (input) KEY_W :: nat where "KEY_W \<equiv> 119"
abbreviation (input) KEY_X :: nat where "KEY_X \<equiv> 120"
abbreviation (input) KEY_Y :: nat where "KEY_Y \<equiv> 121"
abbreviation (input) KEY_Z :: nat where "KEY_Z \<equiv> 122"
abbreviation (input) KEY_RETURN :: nat where "KEY_RETURN \<equiv> 10"
abbreviation (input) KEY_ESCAPE :: nat where "KEY_ESCAPE \<equiv> 0x1001"
abbreviation (input) KEY_BACKSPACE :: nat where "KEY_BACKSPACE \<equiv> 8"
abbreviation (input) KEY_UP :: nat where "KEY_UP \<equiv> 0x1100"
abbreviation (input) KEY_DOWN :: nat where "KEY_DOWN \<equiv> 0x1101"
abbreviation (input) KEY_LEFT :: nat where "KEY_LEFT \<equiv> 0x1102"
abbreviation (input) KEY_RIGHT :: nat where "KEY_RIGHT \<equiv> 0x1103"
abbreviation (input) KEY_F1 :: nat where "KEY_F1 \<equiv> 0x1201"
abbreviation (input) KEY_F2 :: nat where "KEY_F2 \<equiv> 0x1202"
abbreviation (input) KEY_F3 :: nat where "KEY_F3 \<equiv> 0x1203"
abbreviation (input) KEY_F4 :: nat where "KEY_F4 \<equiv> 0x1204"
abbreviation (input) KEY_F5 :: nat where "KEY_F5 \<equiv> 0x1205"
abbreviation (input) KEY_F6 :: nat where "KEY_F6 \<equiv> 0x1206"
abbreviation (input) KEY_F7 :: nat where "KEY_F7 \<equiv> 0x1207"
abbreviation (input) KEY_F8 :: nat where "KEY_F8 \<equiv> 0x1208"
abbreviation (input) KEY_F9 :: nat where "KEY_F9 \<equiv> 0x1209"
abbreviation (input) KEY_F10 :: nat where "KEY_F10 \<equiv> 0x120a"
abbreviation (input) KEY_F11 :: nat where "KEY_F11 \<equiv> 0x120b"
abbreviation (input) KEY_F12 :: nat where "KEY_F12 \<equiv> 0x120b"
abbreviation (input) KEY_F13 :: nat where "KEY_F13 \<equiv> 0x120c"
abbreviation (input) KEY_F14 :: nat where "KEY_F14 \<equiv> 0x120d"
abbreviation (input) KEY_F15 :: nat where "KEY_F15 \<equiv> 0x120e"
abbreviation (input) KEY_DOT :: nat where "KEY_DOT \<equiv> 46"
abbreviation (input) KEY_COMMA :: nat where "KEY_COMMA \<equiv> 44"
abbreviation (input) KEY_COLON :: nat where "KEY_COLON \<equiv> 58"
abbreviation (input) KEY_SEMICOLON :: nat where "KEY_SEMICOLON \<equiv> 59"
abbreviation (input) KEY_SLASH :: nat where "KEY_SLASH \<equiv> 47"
abbreviation (input) KEY_BACKSLASH :: nat where "KEY_BACKSLASH \<equiv> 92"
abbreviation (input) KEY_PLUS :: nat where "KEY_PLUS \<equiv> 43"
abbreviation (input) KEY_MINUS :: nat where "KEY_MINUS \<equiv> 45"
abbreviation (input) KEY_ASTERISK :: nat where "KEY_ASTERISK \<equiv> 42"
abbreviation (input) KEY_EXCLAMATION :: nat where "KEY_EXCLAMATION \<equiv> 33"
abbreviation (input) KEY_QUESTION :: nat where "KEY_QUESTION \<equiv> 63"
abbreviation (input) KEY_QUOTEDOUBLE :: nat where "KEY_QUOTEDOUBLE \<equiv> 34"
abbreviation (input) KEY_QUOTE :: nat where "KEY_QUOTE \<equiv> 39"
abbreviation (input) KEY_EQUAL :: nat where "KEY_EQUAL \<equiv> 61"
abbreviation (input) KEY_HASH :: nat where "KEY_HASH \<equiv> 35"
abbreviation (input) KEY_PERCENT :: nat where "KEY_PERCENT \<equiv> 37"
abbreviation (input) KEY_AMPERSAND :: nat where "KEY_AMPERSAND \<equiv> 38"
abbreviation (input) KEY_UNDERSCORE :: nat where "KEY_UNDERSCORE \<equiv> 95"
abbreviation (input) KEY_LEFTPARENTHESIS :: nat where "KEY_LEFTPARENTHESIS \<equiv> 40"
abbreviation (input) KEY_RIGHTPARENTHESIS :: nat where "KEY_RIGHTPARENTHESIS \<equiv> 41"
abbreviation (input) KEY_LEFTBRACKET :: nat where "KEY_LEFTBRACKET \<equiv> 91"
abbreviation (input) KEY_RIGHTBRACKET :: nat where "KEY_RIGHTBRACKET \<equiv> 93"
abbreviation (input) KEY_LEFTCURL :: nat where "KEY_LEFTCURL \<equiv> 123"
abbreviation (input) KEY_RIGHTCURL :: nat where "KEY_RIGHTCURL \<equiv> 125"
abbreviation (input) KEY_DOLLAR :: nat where "KEY_DOLLAR \<equiv> 36"
abbreviation (input) KEY_POUND :: nat where "KEY_POUND \<equiv> 36"
abbreviation (input) KEY_EURO :: nat where "KEY_EURO \<equiv> 36"
abbreviation (input) KEY_LESS :: nat where "KEY_LESS \<equiv> 60"
abbreviation (input) KEY_GREATER :: nat where "KEY_GREATER \<equiv> 62"
abbreviation (input) KEY_BAR :: nat where "KEY_BAR \<equiv> 124"
abbreviation (input) KEY_GRAVE :: nat where "KEY_GRAVE \<equiv> 96"
abbreviation (input) KEY_TILDE :: nat where "KEY_TILDE \<equiv> 126"
abbreviation (input) KEY_AT :: nat where "KEY_AT \<equiv> 64"
abbreviation (input) KEY_CARRET :: nat where "KEY_CARRET \<equiv> 94"
abbreviation (input) KEY_KP_0 :: nat where "KEY_KP_0 \<equiv> 48"
abbreviation (input) KEY_KP_1 :: nat where "KEY_KP_1 \<equiv> 49"
abbreviation (input) KEY_KP_2 :: nat where "KEY_KP_2 \<equiv> 50"
abbreviation (input) KEY_KP_3 :: nat where "KEY_KP_3 \<equiv> 51"
abbreviation (input) KEY_KP_4 :: nat where "KEY_KP_4 \<equiv> 52"
abbreviation (input) KEY_KP_5 :: nat where "KEY_KP_5 \<equiv> 53"
abbreviation (input) KEY_KP_6 :: nat where "KEY_KP_6 \<equiv> 54"
abbreviation (input) KEY_KP_7 :: nat where "KEY_KP_7 \<equiv> 55"
abbreviation (input) KEY_KP_8 :: nat where "KEY_KP_8 \<equiv> 56"
abbreviation (input) KEY_KP_9 :: nat where "KEY_KP_9 \<equiv> 57"
abbreviation (input) KEY_KP_PLUS :: nat where "KEY_KP_PLUS \<equiv> 43"
abbreviation (input) KEY_KP_MINUS :: nat where "KEY_KP_MINUS \<equiv> 45"
abbreviation (input) KEY_KP_DECIMAL :: nat where "KEY_KP_DECIMAL \<equiv> 46"
abbreviation (input) KEY_KP_DIVIDE :: nat where "KEY_KP_DIVIDE \<equiv> 47"
abbreviation (input) KEY_KP_ASTERISK :: nat where "KEY_KP_ASTERISK \<equiv> 42"
abbreviation (input) KEY_KP_NUMLOCK :: nat where "KEY_KP_NUMLOCK \<equiv> 0x300f"
abbreviation (input) KEY_KP_ENTER :: nat where "KEY_KP_ENTER \<equiv> 0x3010"
abbreviation (input) KEY_TAB :: nat where "KEY_TAB \<equiv> 0x4000"
abbreviation (input) KEY_CAPSLOCK :: nat where "KEY_CAPSLOCK \<equiv> 0x4001"
abbreviation (input) KEY_LSHIFT :: nat where "KEY_LSHIFT \<equiv> 0x4002"
abbreviation (input) KEY_LCTRL :: nat where "KEY_LCTRL \<equiv> 0x4003"
abbreviation (input) KEY_LALT :: nat where "KEY_LALT \<equiv> 0x4004"
abbreviation (input) KEY_LWIN :: nat where "KEY_LWIN \<equiv> 0x4005"
abbreviation (input) KEY_RSHIFT :: nat where "KEY_RSHIFT \<equiv> 0x4006"
abbreviation (input) KEY_RCTRL :: nat where "KEY_RCTRL \<equiv> 0x4007"
abbreviation (input) KEY_RALT :: nat where "KEY_RALT \<equiv> 0x4008"
abbreviation (input) KEY_RWIN :: nat where "KEY_RWIN \<equiv> 0x4009"
abbreviation (input) KEY_INSERT :: nat where "KEY_INSERT \<equiv> 0x400a"
abbreviation (input) KEY_DELETE :: nat where "KEY_DELETE \<equiv> 0x400b"
abbreviation (input) KEY_HOME :: nat where "KEY_HOME \<equiv> 0x400c"
abbreviation (input) KEY_END :: nat where "KEY_END \<equiv> 0x400d"
abbreviation (input) KEY_PAGEUP :: nat where "KEY_PAGEUP \<equiv> 0x400e"
abbreviation (input) KEY_PAGEDOWN :: nat where "KEY_PAGEDOWN \<equiv> 0x400f"
abbreviation (input) KEY_SCROLLLOCK :: nat where "KEY_SCROLLLOCK \<equiv> 0x4010"
abbreviation (input) KEY_PAUSE :: nat where "KEY_PAUSE \<equiv> 0x4011"
abbreviation (input) KEY_UNKNOWN :: nat where "KEY_UNKNOWN \<equiv> 0x4012"
abbreviation (input) KEY_NUMKEYCODES :: nat where "KEY_NUMKEYCODES \<equiv> 0x4013"

definition KEYCODE :: "nat list" where
  "KEYCODE = [
     KEY_SPACE, KEY_0, KEY_1, KEY_2, KEY_3, KEY_4, KEY_5, KEY_6, KEY_7, KEY_8, KEY_9, KEY_A, KEY_B, KEY_C,
     KEY_D, KEY_E, KEY_F, KEY_G, KEY_H, KEY_I, KEY_J, KEY_K, KEY_L, KEY_M, KEY_N, KEY_O, KEY_P, KEY_Q, KEY_R,
     KEY_S, KEY_T, KEY_U, KEY_V, KEY_W, KEY_X, KEY_Y, KEY_Z, KEY_RETURN, KEY_ESCAPE, KEY_BACKSPACE, KEY_UP,
     KEY_DOWN, KEY_LEFT, KEY_RIGHT, KEY_F1, KEY_F2, KEY_F3, KEY_F4, KEY_F5, KEY_F6, KEY_F7, KEY_F8, KEY_F9,
     KEY_F10, KEY_F11, KEY_F12, KEY_F13, KEY_F14, KEY_F15, KEY_DOT, KEY_COMMA, KEY_COLON, KEY_SEMICOLON,
     KEY_SLASH, KEY_BACKSLASH, KEY_PLUS, KEY_MINUS, KEY_ASTERISK, KEY_EXCLAMATION, KEY_QUESTION,
     KEY_QUOTEDOUBLE, KEY_QUOTE, KEY_EQUAL, KEY_HASH, KEY_PERCENT, KEY_AMPERSAND, KEY_UNDERSCORE,
     KEY_LEFTPARENTHESIS, KEY_RIGHTPARENTHESIS, KEY_LEFTBRACKET, KEY_RIGHTBRACKET, KEY_LEFTCURL,
     KEY_RIGHTCURL, KEY_DOLLAR, KEY_POUND, KEY_EURO, KEY_LESS, KEY_GREATER, KEY_BAR, KEY_GRAVE, KEY_TILDE,
     KEY_AT, KEY_CARRET, KEY_KP_0, KEY_KP_1, KEY_KP_2, KEY_KP_3, KEY_KP_4, KEY_KP_5, KEY_KP_6, KEY_KP_7,
     KEY_KP_8, KEY_KP_9, KEY_KP_PLUS, KEY_KP_MINUS, KEY_KP_DECIMAL, KEY_KP_DIVIDE, KEY_KP_ASTERISK,
     KEY_KP_NUMLOCK, KEY_KP_ENTER, KEY_TAB, KEY_CAPSLOCK, KEY_LSHIFT, KEY_LCTRL, KEY_LALT, KEY_LWIN,
     KEY_RSHIFT, KEY_RCTRL, KEY_RALT, KEY_RWIN, KEY_INSERT, KEY_DELETE, KEY_HOME, KEY_END, KEY_PAGEUP,
     KEY_PAGEDOWN, KEY_SCROLLLOCK, KEY_PAUSE, KEY_UNKNOWN, KEY_NUMKEYCODES]"

text \<open>\<open>scancode_std\<close>, the table from scancodes to keys.\<close>

definition scancode_std :: "nat list" where
  "scancode_std = [
     KEY_UNKNOWN, KEY_ESCAPE, KEY_1, KEY_2, KEY_3, KEY_4, KEY_5, KEY_6, KEY_7, KEY_8, KEY_9, KEY_0,
     KEY_MINUS, KEY_EQUAL, KEY_BACKSPACE, KEY_TAB, KEY_Q, KEY_W, KEY_E, KEY_R, KEY_T, KEY_Y, KEY_U, KEY_I,
     KEY_O, KEY_P, KEY_LEFTBRACKET, KEY_RIGHTBRACKET, KEY_RETURN, KEY_LCTRL, KEY_A, KEY_S, KEY_D, KEY_F,
     KEY_G, KEY_H, KEY_J, KEY_K, KEY_L, KEY_SEMICOLON, KEY_QUOTE, KEY_GRAVE, KEY_LSHIFT, KEY_BACKSLASH,
     KEY_Z, KEY_X, KEY_C, KEY_V, KEY_B, KEY_N, KEY_M, KEY_COMMA, KEY_DOT, KEY_SLASH, KEY_RSHIFT,
     KEY_KP_ASTERISK, KEY_RALT, KEY_SPACE, KEY_CAPSLOCK, KEY_F1, KEY_F2, KEY_F3, KEY_F4, KEY_F5, KEY_F6,
     KEY_F7, KEY_F8, KEY_F9, KEY_F10, KEY_KP_NUMLOCK, KEY_SCROLLLOCK, KEY_HOME, KEY_KP_8, KEY_PAGEUP,
     KEY_KP_2, KEY_KP_3, KEY_KP_0, KEY_KP_DECIMAL, KEY_UNKNOWN, KEY_UNKNOWN, KEY_UNKNOWN, KEY_F11, KEY_F12]"

lemma scancode_length: "length scancode_std = 83"
  by (simp add: scancode_std_def)

section \<open>The driver\<close>

record kbd_state = dev_state +
  keybuf :: nat
  key_loc :: u16
  lastkey :: u8
  kbd_enabled :: u8
  keys_avail :: u8
  kb_shift :: bool
  kb_alt :: bool
  kb_ctrl :: bool
  kb_capslock :: bool
  kb_extended :: bool

text \<open>Taking the first character moves the rest of the buffer down, all 256 bytes and the one after it.\<close>

primrec shift_down :: "nat \<Rightarrow> nat \<Rightarrow> mem \<Rightarrow> mem" where
  "shift_down b 0 m = m"
| "shift_down b (Suc n) m = (let m' = shift_down b n m in m'(b + n := m' (b + n + 1)))"

definition keyboard_get_key :: "'a kbd_state_scheme \<Rightarrow> u8 \<times> 'a kbd_state_scheme" where
  "keyboard_get_key st =
     (if key_loc st = 0 then (0, st)
      else (ram st (keybuf st),
            st\<lparr>key_loc := key_loc st - 1, ram := shift_down (keybuf st) 256 (ram st), keys_avail := keys_avail st - 1\<rparr>))"

text \<open>The two \<open>switch\<close> statements for a held shift key.\<close>

definition shift_digits :: "(u8 \<times> u8) list" where
  "shift_digits = [(48, 41), (49, 33), (50, 64), (51, 33), (52, 35), (53, 37), (54, 94), (55, 38), (56, 42), (57, 40)]"

definition shift_others :: "(u8 \<times> u8) list" where
  "shift_others = [(44, 60), (46, 62), (47, 63), (59, 58), (39, 34), (91, 123), (93, 125), (96, 126), (45, 95), (43, 61), (92, 124)]"

definition switch :: "(u8 \<times> u8) list \<Rightarrow> u8 \<Rightarrow> u8" where
  "switch t k = (case map_of t k of Some c \<Rightarrow> c | None \<Rightarrow> k)"

definition keyboard_to_ascii :: "u8 \<Rightarrow> 'a kbd_state_scheme \<Rightarrow> u8" where
  "keyboard_to_ascii key0 st =
     (if key0 = 0 then 0
      else let key = (if (kb_shift st \<or> kb_capslock st) \<and> 97 \<le> key0 \<and> key0 \<le> 122 then key0 - 32 else key0)
           in if kb_shift st \<and> \<not> kb_capslock st
              then if 48 \<le> key \<and> key \<le> 57 then switch shift_digits key else switch shift_others key
              else key)"

definition keyboard_read_key :: "'a kbd_state_scheme \<Rightarrow> 'a kbd_state_scheme" where
  "keyboard_read_key st =
     (let (status, st1) = inportb 0x64 (st\<lparr>lastkey := 0\<rparr>)
      in if status AND 1 \<noteq> 0 then let (k, st2) = inportb 0x60 st1 in st2\<lparr>lastkey := k\<rparr> else st1)"

primrec kbd_read_loop :: "nat \<Rightarrow> nat \<Rightarrow> 'a kbd_state_scheme \<Rightarrow> 'a kbd_state_scheme" where
  "kbd_read_loop buf 0 st = st"
| "kbd_read_loop buf (Suc n) st =
     (let (c, st') = keyboard_get_key (kbd_read_loop buf n st) in st'\<lparr>ram := (ram st')(buf + n := c)\<rparr>)"

definition kbd_read :: "nat \<Rightarrow> nat \<Rightarrow> nat \<Rightarrow> 'a kbd_state_scheme \<Rightarrow> nat \<times> 'a kbd_state_scheme" where
  "kbd_read buf len pos st =
     (let to_read = (if len > unat (keys_avail st) then unat (keys_avail st) else len)
      in (to_read, kbd_read_loop buf to_read st))"

text \<open>An index into the table beyond its 83 entries is undefined behaviour.\<close>

definition scancode :: "nat \<Rightarrow> nat outcome" where
  "scancode i = (if i < length scancode_std then Inr (scancode_std ! i) else Inl (Undefined ''scancode_std''))"

definition key_up :: "nat \<Rightarrow> 'a kbd_state_scheme \<Rightarrow> 'a kbd_state_scheme" where
  "key_up key st =
     (if key = KEY_LCTRL \<or> key = KEY_RCTRL then st\<lparr>kb_ctrl := False\<rparr>
      else if key = KEY_LSHIFT \<or> key = KEY_RSHIFT then st\<lparr>kb_shift := False\<rparr>
      else if key = KEY_LALT \<or> key = KEY_RALT then st\<lparr>kb_alt := False\<rparr>
      else st)"

definition key_down :: "nat \<Rightarrow> 'a kbd_state_scheme \<Rightarrow> u8 \<times> 'a kbd_state_scheme" where
  "key_down key st =
     (if key = KEY_LCTRL \<or> key = KEY_RCTRL then (0, st\<lparr>kb_ctrl := True\<rparr>)
      else if key = KEY_LSHIFT \<or> key = KEY_RSHIFT then (0, st\<lparr>kb_shift := True\<rparr>)
      else if key = KEY_LALT \<or> key = KEY_RALT then (0, st\<lparr>kb_alt := True\<rparr>)
      else if key = KEY_CAPSLOCK then (0, st\<lparr>kb_capslock := \<not> kb_capslock st\<rparr>)
      else (of_nat key, st))"

definition parse_keycode :: "u8 \<Rightarrow> 'a kbd_state_scheme \<Rightarrow> (u8 \<times> 'a kbd_state_scheme) outcome" where
  "parse_keycode code st0 =
     (if code = 0xE0 \<or> code = 0xE1 then Inr (0, st0\<lparr>kb_extended := True\<rparr>)
      else let st = st0\<lparr>kb_extended := False\<rparr>
           in if code AND 0x80 \<noteq> 0
              then bindR (scancode (unat (code - 0x80))) (\<lambda>key. Inr (0, key_up key st))
              else bindR (scancode (unat code)) (\<lambda>key. Inr (key_down key st)))"

text \<open>The interrupt handler; \<open>kbd_push\<close> is its write into the buffer.\<close>

definition kbd_push :: "u8 \<Rightarrow> 'a kbd_state_scheme \<Rightarrow> 'a kbd_state_scheme" where
  "kbd_push c st = st\<lparr>ram := (ram st)(keybuf st + unat (key_loc st) := c),
     key_loc := key_loc st + 1, keys_avail := keys_avail st + 1\<rparr>"

definition kbd_irq :: "'a kbd_state_scheme \<Rightarrow> 'a kbd_state_scheme outcome" where
  "kbd_irq st =
     (let (code, st1) = inportb 0x60 st
      in bindR (parse_keycode code st1) (\<lambda>(key, st2).
         let c = keyboard_to_ascii key st2 in Inr (if c \<noteq> 0 then kbd_push c st2 else st2)))"

text \<open>\<open>keyboard_init\<close>, given the pointer that \<open>kmalloc(256)\<close> returned.\<close>

definition keyboard_init :: "nat \<Rightarrow> 'a kbd_state_scheme \<Rightarrow> int \<times> 'a kbd_state_scheme" where
  "keyboard_init p st =
     (if p = 0 then (- ENOMEM, st\<lparr>keybuf := p\<rparr>)
      else let (_, st') = device_register (dev_addr st KEYBOARD_DEV) (st\<lparr>keybuf := p\<rparr>) in (0, st'\<lparr>kbd_enabled := 1\<rparr>))"

section \<open>The buffer is a queue\<close>

lemma shift_down_at: "shift_down b n m x = (if b \<le> x \<and> x < b + n then m (x + 1) else m x)"
  by (induction n arbitrary: x) (auto simp: Let_def less_Suc_eq)

definition kbd_items :: "'a kbd_state_scheme \<Rightarrow> u8 list" where
  "kbd_items st = get (keybuf st) (unat (key_loc st)) (ram st)"

definition kbd_ok :: "'a kbd_state_scheme \<Rightarrow> bool" where
  "kbd_ok st \<longleftrightarrow> (\<exists>n\<le>256. key_loc st = of_nat n \<and> keys_avail st = of_nat n)"

lemma length_get [simp]: "length (get p n m) = n"
  by (simp add: get_def)

lemma get_Suc: "get p (Suc n) m = get p n m @ [m (p + n)]"
  by (simp add: get_def)

lemma get_Cons: "get p (Suc n) m = m p # get p n (\<lambda>x. m (x + 1))"
  by (induction n) (simp_all add: get_Suc, simp add: get_def)

lemma kbd_loc: "n \<le> 256 \<Longrightarrow> unat (of_nat n :: u16) = n"
  by (simp add: unat_of_nat)

interpretation kbdq: byte_queue kbd_ok kbd_items 256 kbd_push keyboard_get_key
proof unfold_locales
  fix st c assume ok: "kbd_ok st" and len: "length (kbd_items st) < 256"
  obtain n where n: "n \<le> 256" "key_loc st = of_nat n" "keys_avail st = of_nat n" using ok by (auto simp: kbd_ok_def)
  have n': "n < 256" using len n by (simp add: kbd_items_def kbd_loc)
  have k: "key_loc (kbd_push c st) = of_nat (Suc n)" "keys_avail (kbd_push c st) = of_nat (Suc n)"
    "ram (kbd_push c st) = (ram st)(keybuf st + n := c)" "keybuf (kbd_push c st) = keybuf st"
    using n by (simp_all add: kbd_push_def kbd_loc del: of_nat_Suc) (simp_all add: add.commute)
  have "kbd_ok (kbd_push c st)" unfolding kbd_ok_def k using n' by (intro exI [of _ "Suc n"]) simp
  moreover have "kbd_items (kbd_push c st) = kbd_items st @ [c]"
  proof -
    have "unat (of_nat (Suc n) :: u16) = Suc n" "unat (of_nat n :: u16) = n"
      using kbd_loc [of "Suc n"] kbd_loc [of n] n' by (simp_all del: of_nat_Suc)
    then show ?thesis unfolding kbd_items_def k n(2) by (simp add: get_Suc del: of_nat_Suc) (simp add: get_def)
  qed
  ultimately show "kbd_ok (kbd_push c st) \<and> kbd_items (kbd_push c st) = kbd_items st @ [c]" by blast
next
  fix st c cs assume ok: "kbd_ok st" and it: "kbd_items st = c # cs"
  obtain k where k: "k \<le> 256" "key_loc st = of_nat k" "keys_avail st = of_nat k" using ok by (auto simp: kbd_ok_def)
  have uk: "unat (key_loc st) = k" using k kbd_loc by simp
  obtain n where n: "k = Suc n" using it uk by (cases k) (auto simp: kbd_items_def get_def)
  have un: "unat (of_nat n :: u16) = n" using kbd_loc k(1) n by simp
  have ne: "key_loc st \<noteq> 0" using uk n by auto
  let ?st = "snd (keyboard_get_key st)"
  have loc: "key_loc ?st = of_nat n" "keys_avail ?st = of_nat n" "keybuf ?st = keybuf st"
    "ram ?st = shift_down (keybuf st) 256 (ram st)"
    using ne k n by (simp_all add: keyboard_get_key_def)
  have c: "c = ram st (keybuf st)" and cs: "cs = get (keybuf st) n (\<lambda>x. ram st (x + 1))"
    using it uk by (simp_all add: kbd_items_def n get_Cons)
  have "kbd_items ?st = cs"
    using k(1) n unfolding kbd_items_def loc un cs by (simp add: get_def shift_down_at)
  moreover have "kbd_ok ?st" unfolding kbd_ok_def loc using k(1) n by (intro exI [of _ n]) simp
  moreover have "keyboard_get_key st = (c, ?st)" using ne by (simp add: keyboard_get_key_def c)
  ultimately show "\<exists>s'. keyboard_get_key st = (c, s') \<and> kbd_ok s' \<and> kbd_items s' = cs" by blast
next
  fix st assume "kbd_ok st" "kbd_items st = []"
  then show "keyboard_get_key st = (0, st)"
    by (auto simp: kbd_items_def get_def keyboard_get_key_def unat_eq_zero)
qed

section \<open>Reading\<close>

lemma kbd_items_frame:
  assumes "kbd_ok st" "keybuf st' = keybuf st" "key_loc st' = key_loc st" "keys_avail st' = keys_avail st"
    "same_on {keybuf st..<keybuf st + 256} (ram st) (ram st')"
  shows "kbd_ok st' \<and> kbd_items st' = kbd_items st"
proof -
  obtain n where n: "n \<le> 256" "key_loc st = of_nat n" using assms(1) by (auto simp: kbd_ok_def)
  have "get (keybuf st) n (ram st') = get (keybuf st) n (ram st)"
    by (rule get_same [OF same_on_mono [OF assms(5)]]) (use n in auto)
  then show ?thesis using assms(1-4) n by (simp add: kbd_ok_def kbd_items_def kbd_loc)
qed

lemma kbd_read_loop_ok:
  assumes "kbd_ok st" "n \<le> length (kbd_items st)" "apart buf n (keybuf st) 256"
  shows "kbd_ok (kbd_read_loop buf n st) \<and> kbd_items (kbd_read_loop buf n st) = drop n (kbd_items st) \<and>
    get buf n (ram (kbd_read_loop buf n st)) = take n (kbd_items st) \<and> keybuf (kbd_read_loop buf n st) = keybuf st"
  using assms(2,3)
proof (induction n)
  case 0
  then show ?case using assms(1) by (simp add: get_def)
next
  case (Suc n)
  let ?s = "kbd_read_loop buf n st"
  have IH: "kbd_ok ?s" "kbd_items ?s = drop n (kbd_items st)" "get buf n (ram ?s) = take n (kbd_items st)" "keybuf ?s = keybuf st"
    using Suc by (auto simp: apart_def)
  have it: "kbd_items ?s = kbd_items st ! n # drop (Suc n) (kbd_items st)"
    using IH(2) Suc.prems(1) by (simp add: Cons_nth_drop_Suc)
  obtain s1 where s1: "keyboard_get_key ?s = (kbd_items st ! n, s1)" "kbd_ok s1" "kbd_items s1 = drop (Suc n) (kbd_items st)"
    using kbdq.pop_ok [OF IH(1) it] by blast
  have kb: "keybuf s1 = keybuf st" "ram s1 x = ram ?s x" if "x < keybuf st \<or> keybuf st + 256 \<le> x" for x
    using s1(1) IH(4) that by (auto simp: keyboard_get_key_def shift_down_at split: if_splits)
  have kb1: "keybuf s1 = keybuf st" using s1(1) IH(4) by (auto simp: keyboard_get_key_def split: if_splits)
  let ?t = "s1\<lparr>ram := (ram s1)(buf + n := kbd_items st ! n)\<rparr>"
  have t: "kbd_read_loop buf (Suc n) st = ?t" by (simp add: s1(1))
  have out: "x < keybuf st \<or> keybuf st + 256 \<le> x" if "x \<in> {buf..<buf + Suc n}" for x
    using Suc.prems(2) that by (auto simp: apart_def)
  have "buf + n < keybuf st \<or> keybuf st + 256 \<le> buf + n" by (rule out) simp
  then have "same_on {keybuf s1..<keybuf s1 + 256} (ram s1) (ram ?t)" using kb1 by (auto simp: same_on_def)
  then have "kbd_ok ?t \<and> kbd_items ?t = kbd_items s1" by (intro kbd_items_frame [OF s1(2)]) simp_all
  moreover have "get buf (Suc n) (ram ?t) = take (Suc n) (kbd_items st)"
  proof -
    have "get buf n (ram ?t) = get buf n (ram ?s)"
      by (rule get_same) (use kb(2) out in \<open>auto simp: same_on_def\<close>)
    then show ?thesis using IH(3) Suc.prems(1) by (simp add: get_Suc take_Suc_conv_app_nth)
  qed
  ultimately show ?case unfolding t using s1(3) kb1 by (simp del: fun_upd_apply)
qed

lemma kbd_read_ok:
  assumes "kbd_ok st" "length (kbd_items st) < 256" "apart buf len (keybuf st) 256"
  shows "\<exists>st'. kbd_read buf len pos st = (min len (length (kbd_items st)), st') \<and> kbd_ok st' \<and>
    get buf (min len (length (kbd_items st))) (ram st') = take len (kbd_items st) \<and>
    kbd_items st' = drop len (kbd_items st)"
proof -
  obtain n where n: "n \<le> 256" "key_loc st = of_nat n" "keys_avail st = of_nat n" using assms(1) by (auto simp: kbd_ok_def)
  have l: "length (kbd_items st) = n" using n by (simp add: kbd_items_def kbd_loc)
  then have a: "unat (keys_avail st) = n" using n(3) assms(2) by (simp add: unat_of_nat)
  define m where "m = min len n"
  have "kbd_read buf len pos st = (m, kbd_read_loop buf m st)" by (simp add: kbd_read_def a m_def Let_def)
  moreover have "apart buf m (keybuf st) 256" using assms(3) by (auto simp: apart_def m_def)
  from kbd_read_loop_ok [OF assms(1) _ this] have "kbd_ok (kbd_read_loop buf m st)"
    "kbd_items (kbd_read_loop buf m st) = drop m (kbd_items st)" "get buf m (ram (kbd_read_loop buf m st)) = take m (kbd_items st)"
    using l by (auto simp: m_def)
  moreover have "take m (kbd_items st) = take len (kbd_items st)" "drop m (kbd_items st) = drop len (kbd_items st)"
    using l by (auto simp: m_def min_def)
  ultimately show ?thesis using l by (auto simp: m_def)
qed

text \<open>
  C34. Reading from the keyboard into a buffer apart from the driver's own takes the waiting characters
  from the front: as many as there are, at most \<open>len\<close>, in the order they were typed; the others stay.
\<close>

theorem kbd_read_queue:
  assumes "kbd_ok st" "length (kbd_items st) < 256" "apart buf len (keybuf st) 256"
  shows "\<exists>st'. kbd_read buf len pos st = (min len (length (kbd_items st)), st') \<and> kbd_ok st' \<and>
    get buf (min len (length (kbd_items st))) (ram st') = take len (kbd_items st) \<and>
    kbd_items st' = drop len (kbd_items st)"
  by (rule kbd_read_ok [OF assms])

text \<open>
  The buffer has no bound check: with 256 characters waiting the next one is stored in the byte
  after the buffer, and since their 8-bit count has wrapped to 0, no character can be read at all.
\<close>

theorem kbd_overflow:
  assumes "kbd_ok st" "length (kbd_items st) = 256"
  shows "ram (kbd_push c st) (keybuf st + 256) = c \<and> fst (kbd_read buf len pos st) = 0"
proof -
  obtain n where n: "n \<le> 256" "key_loc st = of_nat n" "keys_avail st = of_nat n" using assms(1) by (auto simp: kbd_ok_def)
  then have "n = 256" using assms(2) by (simp add: kbd_items_def kbd_loc)
  then show ?thesis
    using n by (simp_all add: kbd_push_def kbd_read_def)
qed

section \<open>Modifiers\<close>

definition modifier_row :: "nat \<Rightarrow> nat \<Rightarrow> bool" where
  "modifier_row i k \<longleftrightarrow> (k = KEY_LSHIFT \<or> k = KEY_RSHIFT \<longleftrightarrow> i = 0x2a \<or> i = 0x36) \<and>
     (k = KEY_LCTRL \<or> k = KEY_RCTRL \<longleftrightarrow> i = 0x1d) \<and> (k = KEY_LALT \<or> k = KEY_RALT \<longleftrightarrow> i = 0x38) \<and>
     (k = KEY_CAPSLOCK \<longleftrightarrow> i = 0x3a)"

lemma modifier_table: "list_all (\<lambda>(i, k). modifier_row i k) (enumerate 0 scancode_std)"
  by (simp add: scancode_std_def modifier_row_def)

lemma modifier_at:
  assumes "i < 83"
  shows "scancode_std ! i = KEY_LSHIFT \<or> scancode_std ! i = KEY_RSHIFT \<longleftrightarrow> i = 0x2a \<or> i = 0x36"
    "scancode_std ! i = KEY_LCTRL \<or> scancode_std ! i = KEY_RCTRL \<longleftrightarrow> i = 0x1d"
    "scancode_std ! i = KEY_LALT \<or> scancode_std ! i = KEY_RALT \<longleftrightarrow> i = 0x38"
    "scancode_std ! i = KEY_CAPSLOCK \<longleftrightarrow> i = 0x3a"
proof -
  have "(i, scancode_std ! i) \<in> set (enumerate 0 scancode_std)"
    using assms by (auto simp: in_set_enumerate_eq scancode_length)
  then have m: "modifier_row i (scancode_std ! i)" using modifier_table by (auto simp: list_all_iff)
  show "scancode_std ! i = KEY_LSHIFT \<or> scancode_std ! i = KEY_RSHIFT \<longleftrightarrow> i = 0x2a \<or> i = 0x36"
    "scancode_std ! i = KEY_LCTRL \<or> scancode_std ! i = KEY_RCTRL \<longleftrightarrow> i = 0x1d"
    "scancode_std ! i = KEY_LALT \<or> scancode_std ! i = KEY_RALT \<longleftrightarrow> i = 0x38"
    "scancode_std ! i = KEY_CAPSLOCK \<longleftrightarrow> i = 0x3a"
    using m unfolding modifier_row_def by blast+
qed

text \<open>The make and break codes of a key: \<open>unat code mod 128\<close>, with the top bit for the release.\<close>

lemma top_bit: "(code :: u8) AND 0x80 \<noteq> 0 \<longleftrightarrow> 128 \<le> unat code"
proof -
  have "(code AND 2 ^ 7 \<noteq> 0) = bit code 7" by (simp only: and_exp_eq_0_iff_not_bit) simp
  also have "\<dots> = bit (unat code) 7" by (simp add: bit_unsigned_iff)
  also have "\<dots> = odd (unat code div 128)" by (simp add: bit_iff_odd)
  also have "\<dots> = (128 \<le> unat code)"
  proof -
    have "unat code < 256" using unsigned_less [of code, where 'a = nat] by simp
    then have "unat code div 128 = (if 128 \<le> unat code then 1 else 0)" by (auto intro: div_nat_eqI)
    then show ?thesis by simp
  qed
  finally show ?thesis by simp
qed

lemma parse_keycode_cases:
  "parse_keycode code st =
     (if unat code = 0xE0 \<or> unat code = 0xE1 then Inr (0, st\<lparr>kb_extended := True\<rparr>)
      else if 83 \<le> unat code mod 128 then Inl (Undefined ''scancode_std'')
      else if 128 \<le> unat code then Inr (0, key_up (scancode_std ! (unat code mod 128)) (st\<lparr>kb_extended := False\<rparr>))
      else Inr (key_down (scancode_std ! (unat code mod 128)) (st\<lparr>kb_extended := False\<rparr>)))"
proof -
  have e: "code = 0xE0 \<longleftrightarrow> unat code = 0xE0" "code = 0xE1 \<longleftrightarrow> unat code = 0xE1"
    by (simp_all add: word_unat_eq_iff)
  have c: "unat code < 256" using unsigned_less [of code, where 'a = nat] by simp
  have up: "unat (code - 0x80) = unat code mod 128" if "128 \<le> unat code"
  proof -
    have "unat (code - 0x80) = unat code - 128" using that by (subst unat_sub) (simp_all add: word_le_nat_alt)
    moreover have "unat code mod 128 = unat code - 128" using that c by (simp add: mod_if)
    ultimately show ?thesis by simp
  qed
  show ?thesis
    unfolding parse_keycode_def Let_def top_bit e scancode_def scancode_length using up by auto
qed

lemma key_up_sel:
  "kb_shift (key_up k st) = (if k = KEY_LSHIFT \<or> k = KEY_RSHIFT then False else kb_shift st)"
  "kb_ctrl (key_up k st) = (if k = KEY_LCTRL \<or> k = KEY_RCTRL then False else kb_ctrl st)"
  "kb_alt (key_up k st) = (if k = KEY_LALT \<or> k = KEY_RALT then False else kb_alt st)"
  "kb_capslock (key_up k st) = kb_capslock st"
  by (auto simp: key_up_def)

lemma key_down_sel:
  "kb_shift (snd (key_down k st)) = (if k = KEY_LSHIFT \<or> k = KEY_RSHIFT then True else kb_shift st)"
  "kb_ctrl (snd (key_down k st)) = (if k = KEY_LCTRL \<or> k = KEY_RCTRL then True else kb_ctrl st)"
  "kb_alt (snd (key_down k st)) = (if k = KEY_LALT \<or> k = KEY_RALT then True else kb_alt st)"
  "kb_capslock (snd (key_down k st)) = (if k = KEY_CAPSLOCK then \<not> kb_capslock st else kb_capslock st)"
  by (auto simp: key_down_def)

text \<open>
  C35. The modifiers follow the scancodes alone: shift, control and alt are set exactly by their make
  codes and cleared exactly by their break codes, caps lock is toggled by its make code, and no other
  key touches them.
\<close>

theorem modifier_state:
  assumes "parse_keycode code st = Inr (k, st')"
  defines "n \<equiv> unat code"
  shows "kb_shift st' = (if n = 0x2a \<or> n = 0x36 then True else if n = 0xaa \<or> n = 0xb6 then False else kb_shift st) \<and>
    kb_ctrl st' = (if n = 0x1d then True else if n = 0x9d then False else kb_ctrl st) \<and>
    kb_alt st' = (if n = 0x38 then True else if n = 0xb8 then False else kb_alt st) \<and>
    kb_capslock st' = (if n = 0x3a then \<not> kb_capslock st else kb_capslock st)"
proof (cases "n = 0xE0 \<or> n = 0xE1")
  case True
  then have "st' = st\<lparr>kb_extended := True\<rparr>" using assms(1) parse_keycode_cases [of code st, folded n_def] by simp
  then show ?thesis using True by auto
next
  case ext: False
  define i where "i = n mod 128"
  define key where "key = scancode_std ! i"
  note p = parse_keycode_cases [of code st, folded n_def, folded i_def, folded key_def]
  have i: "i < 83"
  proof (rule ccontr)
    assume "\<not> i < 83"
    then have "parse_keycode code st = Inl (Undefined ''scancode_std'')" using p ext by simp
    then show False using assms(1) by simp
  qed
  note m = modifier_at [OF i, folded key_def]
  have n: "n < 256" using unsigned_less [of code, where 'a = nat] by (simp add: n_def)
  show ?thesis
  proof (cases "128 \<le> n")
    case True
    have "n - 128 < 128" using True n by linarith
    then have r: "n = i + 128" using le_mod_geq [OF True] True by (simp add: i_def)
    have "st' = key_up key (st\<lparr>kb_extended := False\<rparr>)"
      using p assms(1) ext i True by simp
    then show ?thesis by (simp only: key_up_sel m) (use r i in simp)
  next
    case False
    have r: "n = i" using False by (simp add: i_def)
    have "(k, st') = key_down key (st\<lparr>kb_extended := False\<rparr>)"
      using p assms(1) ext i False by simp
    then have "st' = snd (key_down key (st\<lparr>kb_extended := False\<rparr>))" by (metis snd_conv)
    then show ?thesis by (simp only: key_down_sel m) (use r i in simp)
  qed
qed

text \<open>
  A scancode whose low seven bits are 83 or more, other than the two prefixes, indexes the table out
  of bounds: nothing in the handler stops it.
\<close>

theorem scancode_bounds:
  "(\<exists>h. parse_keycode code st = Inl h) \<longleftrightarrow> unat code \<noteq> 0xE0 \<and> unat code \<noteq> 0xE1 \<and> 83 \<le> unat code mod 128"
  by (auto simp: parse_keycode_cases)

lemma letter_table:
  "list_all (\<lambda>k. (of_nat k :: u8) \<noteq> 0 \<and> 97 \<le> (of_nat k :: u8) \<and> (of_nat k :: u8) \<le> 122 \<and>
     (of_nat k :: u8) - 32 = of_nat (k - 32) \<and> switch shift_others (of_nat (k - 32)) = of_nat (k - 32) \<and>
     \<not> of_nat (k - 32) \<le> (57 :: u8) \<and> (of_nat (k - 32) :: u8) \<noteq> 0) [97..<123]"
  by (simp add: upt_rec switch_def shift_others_def)

lemma letter_ascii:
  assumes "97 \<le> k" "k \<le> 122"
  shows "keyboard_to_ascii (of_nat k) st = of_nat (if kb_shift st \<or> kb_capslock st then k - 32 else k)"
    "(of_nat (if kb_shift st \<or> kb_capslock st then k - 32 else k) :: u8) \<noteq> 0"
proof -
  have "k \<in> set [97..<123]" by (simp only: set_upt) (use assms in simp)
  with letter_table have t: "(of_nat k :: u8) \<noteq> 0" "97 \<le> (of_nat k :: u8)" "(of_nat k :: u8) \<le> 122"
     "(of_nat k :: u8) - 32 = of_nat (k - 32)" "switch shift_others (of_nat (k - 32)) = of_nat (k - 32)"
     "\<not> of_nat (k - 32) \<le> (57 :: u8)" "(of_nat (k - 32) :: u8) \<noteq> 0"
    unfolding list_all_iff by blast+
  show "keyboard_to_ascii (of_nat k) st = of_nat (if kb_shift st \<or> kb_capslock st then k - 32 else k)"
    unfolding keyboard_to_ascii_def Let_def using t by auto
  show "(of_nat (if kb_shift st \<or> kb_capslock st then k - 32 else k) :: u8) \<noteq> 0" using t by simp
qed

text \<open>
  A letter key appends one character to the waiting ones: the capital letter when shift is held or
  caps lock is on (also when both are), else the small one.
\<close>

theorem kbd_irq_letter:
  assumes "kbd_ok st" "length (kbd_items st) < 256"
    and "hw st (port_log st) 0x60 = i" "i < 83" "97 \<le> scancode_std ! i" "scancode_std ! i \<le> 122"
  shows "\<exists>st'. kbd_irq st = Inr st' \<and> kbd_ok st' \<and>
    kbd_items st' = kbd_items st @ [of_nat (if kb_shift st \<or> kb_capslock st then scancode_std ! i - 32 else scancode_std ! i)]"
proof -
  define key where "key = scancode_std ! i"
  have key: "97 \<le> key" "key \<le> 122" using assms by (simp_all add: key_def)
  let ?st = "st\<lparr>port_log := port_log st @ [In 0x60], kb_extended := False\<rparr>"
  define c :: u8 where "c = of_nat (if kb_shift st \<or> kb_capslock st then key - 32 else key)"
  have ui: "unat (of_nat i :: u8) = i" using assms(4) by (simp add: unat_of_nat)
  have p: "parse_keycode (of_nat i) (st\<lparr>port_log := port_log st @ [In 0x60]\<rparr>) = Inr (of_nat key, ?st)"
    using assms(4) key unfolding parse_keycode_cases ui key_def by (simp add: key_down_def)
  have a: "keyboard_to_ascii (of_nat key) ?st = c" "c \<noteq> 0"
    using letter_ascii [OF key, of ?st] by (simp_all add: c_def)
  have run: "kbd_irq st = Inr (kbd_push c ?st)"
    using p a assms(3) by (simp add: kbd_irq_def Let_def inportb_def del: of_nat_numeral)
  have ok: "kbd_ok ?st \<and> kbd_items ?st = kbd_items st"
    by (rule kbd_items_frame [OF assms(1)]) (simp_all add: same_on_def)
  then have "kbd_ok (kbd_push c ?st) \<and> kbd_items (kbd_push c ?st) = kbd_items ?st @ [c]"
    using kbdq.push_ok [of ?st c] assms(2) by simp
  then show ?thesis using run ok unfolding c_def key_def by auto
qed

section \<open>Witnesses\<close>

text \<open>A keyboard whose buffer holds ``hi'', with the make code of the key A at the port.\<close>

definition small_kbd :: "u16 \<Rightarrow> kbd_state" where
  "small_kbd n = \<lparr>hw = (\<lambda>_ _. 0x1e), port_log = [],
     ram = (\<lambda>_. 0)(0x1000 := 104, 0x1001 := 105), devs = replicate 256 0, devices = 0, dev_addr = (\<lambda>_. 0), keybuf = 0x1000, key_loc = n, lastkey = 0, kbd_enabled = 1,
     keys_avail = ucast n, kb_shift = True, kb_alt = False, kb_ctrl = False, kb_capslock = False, kb_extended = False\<rparr>"

lemma small_kbd_ok: "kbd_ok (small_kbd 2)" "kbd_items (small_kbd 2) = [104, 105]" "keybuf (small_kbd n) = 0x1000"
proof -
  show "kbd_ok (small_kbd 2)" unfolding kbd_ok_def by (rule exI [of _ 2]) (simp add: small_kbd_def)
  show "kbd_items (small_kbd 2) = [104, 105]" by (simp add: kbd_items_def small_kbd_def get_def upt_rec)
  show "keybuf (small_kbd n) = 0x1000" by (simp add: small_kbd_def)
qed

lemma full_kbd_ok: "kbd_ok (small_kbd 256)" "length (kbd_items (small_kbd 256)) = 256"
proof -
  show "kbd_ok (small_kbd 256)" unfolding kbd_ok_def by (rule exI [of _ 256]) (simp add: small_kbd_def)
  show "length (kbd_items (small_kbd 256)) = 256" by (simp add: small_kbd_def kbd_items_def)
qed

theorem kbd_read_queue_witness:
  "\<exists>st'. kbd_read 0x3000 8 0 (small_kbd 2) = (2, st') \<and> get 0x3000 2 (ram st') = [104, 105] \<and> kbd_items st' = []"
  using kbd_read_queue [OF small_kbd_ok(1), of "0x3000" 8 0] by (auto simp: small_kbd_ok apart_def numeral_2_eq_2)

theorem kbd_overflow_witness:
  "ram (kbd_push 65 (small_kbd 256)) (0x1000 + 256) = 65 \<and> fst (kbd_read 0x3000 8 0 (small_kbd 256)) = 0"
  using kbd_overflow [OF full_kbd_ok, of 65 "0x3000" 8 0]
  by (simp add: small_kbd_ok)

theorem modifier_state_witness:
  "\<exists>k st'. parse_keycode 0x36 (small_kbd 2) = Inr (k, st') \<and> kb_shift st' \<and> \<not> kb_ctrl st'"
proof -
  have "parse_keycode 0x36 (small_kbd 2) = Inr (key_down (scancode_std ! 0x36) (small_kbd 2\<lparr>kb_extended := False\<rparr>))"
    by (simp add: parse_keycode_cases)
  then obtain k st' where p: "parse_keycode 0x36 (small_kbd 2) = Inr (k, st')" by (metis surj_pair)
  with modifier_state [OF p] show ?thesis by (auto simp: small_kbd_def)
qed

theorem kbd_irq_letter_witness:
  "\<exists>st'. kbd_irq (small_kbd 2) = Inr st' \<and> kbd_items st' = [104, 105, 65]"
proof -
  have a: "scancode_std ! 0x1e = 97" by (simp add: scancode_std_def)
  have b: "hw (small_kbd 2) t 0x60 = 0x1e" "kb_shift (small_kbd 2)" for t by (simp_all add: small_kbd_def)
  show ?thesis using kbd_irq_letter [OF small_kbd_ok(1), of "0x1e"] by (auto simp: small_kbd_ok a b)
qed

end
