(* ===== verification/CharDevice.thy ===== *)
theory CharDevice
  imports Keyboard
begin

text \<open>
  What the output devices of the console layer share: the state they work on, the loop with which each of
  them writes a buffer, and the contract of a character device.
\<close>

datatype con_dev = KMSG_CON | SERIAL_CON | TM_CON

text \<open>
  The static variables of kernel/kmsg.c, arch/x86/textmode.c (\<open>tp\<close>), kernel/console.c and the two default
  devices of drivers/tty.c. Consoles are the three static objects \<open>kmsg_con\<close>, \<open>serial_con\<close>, \<open>tm_con\<close>.
\<close>

record io_state = kbd_state +
  kmsg_buf :: "u8 list"
  kmsg_pos :: nat
  tm_priv :: bool
  tm_x :: nat
  tm_y :: nat
  tm_col :: nat
  cons :: "con_dev option list"
  consoles :: nat
  default_input :: "dev option"
  default_output :: "dev option"

text \<open>The loop \<open>for (i = 0; i < count; i++) op(buf[i]);\<close>.\<close>

primrec write_each :: "(u8 \<Rightarrow> 'a io_state_scheme \<Rightarrow> 'a io_state_scheme outcome) \<Rightarrow> nat \<Rightarrow> nat \<Rightarrow>
    'a io_state_scheme \<Rightarrow> 'a io_state_scheme outcome" where
  "write_each op buf 0 st = Inr st"
| "write_each op buf (Suc n) st = bindR (op (ram st buf) st) (write_each op (Suc buf) n)"

text \<open>What every turn of the loop keeps, the loop keeps.\<close>

lemma write_each_keeps:
  assumes "\<And>c s s'. op c s = Inr s' \<Longrightarrow> f s' = f s" "write_each op buf n st = Inr st'"
  shows "f st' = f st"
  using assms(2)
proof (induction n arbitrary: buf st)
  case (Suc n)
  then obtain s1 where "op (ram st buf) st = Inr s1" "write_each op (Suc buf) n s1 = Inr st'" by auto
  then show ?case using Suc.IH assms(1) by metis
qed simp

text \<open>
  A character device: in a good state \<open>putc\<close> returns, \<open>view\<close> is what an observer sees of the device, and
  \<open>disp\<close> says how a character changes that. It writes no memory outside \<open>area\<close>.
\<close>

locale char_device =
  fixes ok :: "'a io_state_scheme \<Rightarrow> bool" and view :: "'a io_state_scheme \<Rightarrow> 'v" and disp :: "u8 \<Rightarrow> 'v \<Rightarrow> 'v"
    and area :: "nat set" and putc :: "u8 \<Rightarrow> 'a io_state_scheme \<Rightarrow> 'a io_state_scheme outcome"
  assumes putc_ok: "ok st \<Longrightarrow> \<exists>st'. putc c st = Inr st' \<and> ok st' \<and> view st' = disp c (view st)"
    and putc_area: "ok st \<Longrightarrow> putc c st = Inr st' \<Longrightarrow> same_on (- area) (ram st) (ram st')"
begin

lemma write_each_ok:
  assumes "ok st" "{buf..<buf + n} \<inter> area = {}"
  shows "\<exists>st'. write_each putc buf n st = Inr st' \<and> ok st' \<and> view st' = fold disp (bytes_at (ram st) buf n) (view st)"
  using assms
proof (induction n arbitrary: buf st)
  case 0
  then show ?case by (simp add: bytes_at_def)
next
  case (Suc n)
  obtain s1 where s1: "putc (ram st buf) st = Inr s1" "ok s1" "view s1 = disp (ram st buf) (view st)"
    using putc_ok [OF Suc.prems(1)] by blast
  have "{Suc buf..<Suc buf + n} \<subseteq> {buf..<buf + Suc n}" by auto
  then have out: "{Suc buf..<Suc buf + n} \<inter> area = {}" using Suc.prems(2) by blast
  then have "same_on {Suc buf..<Suc buf + n} (ram st) (ram s1)"
    by (intro same_on_mono [OF putc_area [OF Suc.prems(1) s1(1)]]) blast
  then have b: "bytes_at (ram s1) (Suc buf) n = bytes_at (ram st) (Suc buf) n" by (rule bytes_at_frame)
  have c: "bytes_at (ram st) buf (Suc n) = ram st buf # bytes_at (ram st) (Suc buf) n"
    using upt_conv_Cons [of buf "buf + Suc n"] by (simp add: bytes_at_def del: upt_Suc)
  from Suc.IH [OF s1(2) out] obtain s2 where "write_each putc (Suc buf) n s1 = Inr s2" "ok s2"
    "view s2 = fold disp (bytes_at (ram s1) (Suc buf) n) (view s1)" by blast
  then show ?case by (simp only: write_each.simps s1(1) bindR_simps s1(3) b c fold.simps comp_apply) blast
qed

lemma write_each_area: "ok st \<Longrightarrow> write_each putc buf n st = Inr st' \<Longrightarrow> same_on (- area) (ram st) (ram st')"
proof (induction n arbitrary: buf st)
  case (Suc n)
  obtain s1 where s1: "putc (ram st buf) st = Inr s1" "ok s1" using putc_ok [OF Suc.prems(1)] by blast
  then have "write_each putc (Suc buf) n s1 = Inr st'" using Suc.prems(2) by simp
  then show ?case using Suc.IH [OF s1(2)] putc_area [OF Suc.prems(1) s1(1)] same_on_trans by blast
qed simp

end

text \<open>A small state for the witnesses.\<close>

definition small_screen :: io_state where
  "small_screen = \<lparr>hw = (\<lambda>_ _. 0), port_log = [], ram = (\<lambda>a. if a < 0x2000 then 65 else 0),
     devs = replicate 256 0, devices = 0, dev_addr = (\<lambda>_. 0x1000), keybuf = 0, key_loc = 0, lastkey = 0, kbd_enabled = 0,
     keys_avail = 0, kb_shift = False, kb_alt = False, kb_ctrl = False, kb_capslock = False, kb_extended = False,
     kmsg_buf = replicate 65536 0, kmsg_pos = 0, tm_priv = True, tm_x = 0, tm_y = 3, tm_col = 7,
     cons = [None, None, None, None], consoles = 0, default_input = None, default_output = None\<rparr>"

end
