(* ===== verification/Kmsg.thy ===== *)
theory Kmsg
  imports CharDevice
begin

text \<open>
  kernel/kmsg.c: the kernel log, an array of 65536 bytes that keeps the first characters written to it.
\<close>

abbreviation KMSG_BUFSIZE :: nat where "KMSG_BUFSIZE \<equiv> 65536"

section \<open>The code\<close>

definition kmsg_append :: "u8 \<Rightarrow> 'a io_state_scheme \<Rightarrow> 'a io_state_scheme" where
  "kmsg_append c st =
     (if c = 0 then st
      else if KMSG_BUFSIZE \<le> kmsg_pos st then st
      else st\<lparr>kmsg_buf := (kmsg_buf st)[kmsg_pos st := c], kmsg_pos := kmsg_pos st + 1\<rparr>)"

text \<open>The sum \<open>pos + count\<close> is a \<open>size_t\<close> and wraps.\<close>

definition kmsg_write :: "nat \<Rightarrow> nat \<Rightarrow> nat \<Rightarrow> nat \<Rightarrow> 'a io_state_scheme \<Rightarrow> (int \<times> 'a io_state_scheme) outcome" where
  "kmsg_write d buf count pos st =
     (if d = 0 \<or> buf = 0 \<or> pos > KMSG_BUFSIZE \<or> add32 pos count > KMSG_BUFSIZE then Inr (- EINVAL, st)
      else bindR (write_each (\<lambda>c s. Inr (kmsg_append c s)) buf count st) (\<lambda>st'. Inr (sint32 count, st')))"

definition kmsg_read :: "nat \<Rightarrow> nat \<Rightarrow> nat \<Rightarrow> nat \<Rightarrow> 'a io_state_scheme \<Rightarrow> int \<times> 'a io_state_scheme" where
  "kmsg_read d buf count pos st = (- ENOSYS, st)"

definition kmsg_flush :: "nat \<Rightarrow> 'a io_state_scheme \<Rightarrow> int \<times> 'a io_state_scheme" where
  "kmsg_flush d st = (- ENOSYS, st)"

text \<open>\<open>kmsg_init\<close> has no \<open>return\<close> statement; its result is not used.\<close>

definition kmsg_init :: "'a io_state_scheme \<Rightarrow> 'a io_state_scheme" where
  "kmsg_init st = snd (device_register (dev_addr st KMSG_DEV) (st\<lparr>kmsg_buf := replicate KMSG_BUFSIZE 0\<rparr>))"

section \<open>The log\<close>

definition kmsg_ok :: "'a io_state_scheme \<Rightarrow> bool" where
  "kmsg_ok st \<longleftrightarrow> length (kmsg_buf st) = KMSG_BUFSIZE \<and> kmsg_pos st \<le> KMSG_BUFSIZE"

definition kmsg_log :: "'a io_state_scheme \<Rightarrow> u8 list" where
  "kmsg_log st = take (kmsg_pos st) (kmsg_buf st)"

definition log_char :: "u8 \<Rightarrow> u8 list \<Rightarrow> u8 list" where
  "log_char c l = (if c = 0 \<or> KMSG_BUFSIZE \<le> length l then l else l @ [c])"

lemma length_kmsg_log: "kmsg_ok st \<Longrightarrow> length (kmsg_log st) = kmsg_pos st"
  by (simp add: kmsg_ok_def kmsg_log_def)

lemma kmsg_append_ok: "kmsg_ok st \<Longrightarrow> kmsg_ok (kmsg_append c st) \<and> kmsg_log (kmsg_append c st) = log_char c (kmsg_log st)"
  using length_kmsg_log [of st] by (simp add: kmsg_append_def log_char_def kmsg_ok_def kmsg_log_def take_Suc_conv_app_nth)

interpretation kmsg: char_device kmsg_ok kmsg_log log_char "{}" "\<lambda>c st. Inr (kmsg_append c st)"
proof unfold_locales
  fix c and st st' :: "'a io_state_scheme"
  show "\<exists>st'. Inr (kmsg_append c st) = Inr st' \<and> kmsg_ok st' \<and> kmsg_log st' = log_char c (kmsg_log st)" if "kmsg_ok st"
    using kmsg_append_ok [OF that, of c] by simp
  show "same_on (- {}) (ram st) (ram st')" if "Inr (kmsg_append c st) = Inr st'"
    using that by (auto simp: kmsg_append_def)
qed

lemma log_chars:
  "length l \<le> KMSG_BUFSIZE \<Longrightarrow> fold log_char cs l = take KMSG_BUFSIZE (l @ filter (\<lambda>c. c \<noteq> 0) cs)"
proof (induction cs arbitrary: l)
  case (Cons c cs)
  have "length (log_char c l) \<le> KMSG_BUFSIZE" using Cons.prems by (simp add: log_char_def)
  from Cons.IH [OF this] have "fold log_char (c # cs) l = take KMSG_BUFSIZE (log_char c l @ filter (\<lambda>c. c \<noteq> 0) cs)" by simp
  also have "\<dots> = take KMSG_BUFSIZE (l @ filter (\<lambda>c. c \<noteq> 0) (c # cs))"
    using Cons.prems by (auto simp: log_char_def take_Cons')
  finally show ?case .
qed simp

text \<open>
  A write to the kernel log returns the count and appends the non-zero bytes of the buffer, as many as
  still fit; the rest is dropped without an error.
\<close>

theorem kmsg_write_log:
  assumes "kmsg_ok st" "d \<noteq> 0" "buf \<noteq> 0" "pos + count \<le> KMSG_BUFSIZE"
  shows "\<exists>st'. kmsg_write d buf count pos st = Inr (int count, st') \<and> kmsg_ok st' \<and> ram st' = ram st \<and>
    kmsg_log st' = take KMSG_BUFSIZE (kmsg_log st @ filter (\<lambda>c. c \<noteq> 0) (bytes_at (ram st) buf count))"
proof -
  obtain st' where st': "write_each (\<lambda>c s. Inr (kmsg_append c s)) buf count st = Inr st'" "kmsg_ok st'"
    "kmsg_log st' = fold log_char (bytes_at (ram st) buf count) (kmsg_log st)"
    using kmsg.write_each_ok [OF assms(1), of buf count] by auto
  have "ram st' = ram st" using kmsg.write_each_area [OF assms(1) st'(1)] by (auto simp: same_on_def)
  moreover have "length (kmsg_log st) \<le> KMSG_BUFSIZE" using assms(1) by (simp add: length_kmsg_log) (simp add: kmsg_ok_def)
  ultimately show ?thesis
    using st' assms by (simp add: kmsg_write_def add32_small log_chars sint32_def)
qed

theorem kmsg_write_log_witness:
  "\<exists>st'. kmsg_write 0x1000 0x1000 3 0 small_screen = Inr (3, st') \<and> kmsg_log st' = [65, 65, 65]"
  using kmsg_write_log [of small_screen "0x1000" "0x1000" 0 3]
  by (auto simp: small_screen_def kmsg_ok_def kmsg_log_def bytes_at_def upt_rec)

end
