(* ===== verification/Serial.thy ===== *)
theory Serial
  imports CharDevice
begin

text \<open>
  arch/x86/serial.c: the 16550 serial line. Sending and receiving poll the line status register; the loops
  end only when the hardware raises the bit they wait for, so they are \<open>partial_function\<close>s.
\<close>

abbreviation SERIAL_PORT :: nat where "SERIAL_PORT \<equiv> 0x3F8"

section \<open>The code\<close>

definition serial_out :: "nat \<Rightarrow> u8 \<Rightarrow> 'a io_state_scheme \<Rightarrow> 'a io_state_scheme" where
  "serial_out off d st = outportb (SERIAL_PORT + off) d st"

definition serial_is_ready_to_send :: "'a io_state_scheme \<Rightarrow> u8 \<times> 'a io_state_scheme" where
  "serial_is_ready_to_send st = (let (v, st') = inportb (SERIAL_PORT + 5) st in (v AND 0x20, st'))"

definition serial_has_recv :: "'a io_state_scheme \<Rightarrow> u8 \<times> 'a io_state_scheme" where
  "serial_has_recv st = (let (v, st') = inportb (SERIAL_PORT + 5) st in (v AND push_bit 0 1, st'))"

text \<open>\<open>while (!test()) ;\<close>\<close>

partial_function (option) wait_for :: "('s \<Rightarrow> u8 \<times> 's) \<Rightarrow> 's \<Rightarrow> 's option" where
  "wait_for test st = (let (v, st') = test st in if v \<noteq> 0 then Some st' else wait_for test st')"

definition spin :: "('s \<Rightarrow> u8 \<times> 's) \<Rightarrow> 's \<Rightarrow> 's outcome" where
  "spin test st = (case wait_for test st of None \<Rightarrow> Inl Hang | Some st' \<Rightarrow> Inr st')"

definition serial_out_data :: "u8 \<Rightarrow> 'a io_state_scheme \<Rightarrow> 'a io_state_scheme outcome" where
  "serial_out_data d st = bindR (spin serial_is_ready_to_send st) (\<lambda>st'. Inr (serial_out 0 d st'))"

definition serial_read_data :: "'a io_state_scheme \<Rightarrow> (u8 \<times> 'a io_state_scheme) outcome" where
  "serial_read_data st = bindR (spin serial_has_recv st) (\<lambda>st'. Inr (inportb (SERIAL_PORT + 0) st'))"

definition serial_try_read_data :: "'a io_state_scheme \<Rightarrow> u8 \<times> 'a io_state_scheme" where
  "serial_try_read_data st = (let (v, st') = serial_has_recv st in if v = 0 then (0, st') else inportb (SERIAL_PORT + 0) st')"

definition serial_write :: "nat \<Rightarrow> nat \<Rightarrow> nat \<Rightarrow> nat \<Rightarrow> 'a io_state_scheme \<Rightarrow> (int \<times> 'a io_state_scheme) outcome" where
  "serial_write d buf count pos st = bindR (write_each serial_out_data buf count st) (\<lambda>st'. Inr (sint32 count, st'))"

text \<open>\<open>serial_read\<close> stops at the first zero byte, which it consumes.\<close>

primrec serial_read_loop :: "nat \<Rightarrow> nat \<Rightarrow> nat \<Rightarrow> 'a io_state_scheme \<Rightarrow> nat \<times> 'a io_state_scheme" where
  "serial_read_loop buf i 0 st = (i, st)"
| "serial_read_loop buf i (Suc n) st =
     (let (val, st') = serial_try_read_data st
      in if val = 0 then (i, st')
         else serial_read_loop buf (Suc i) n (st'\<lparr>ram := (ram st')(buf + i := val)\<rparr>))"

definition serial_read :: "nat \<Rightarrow> nat \<Rightarrow> nat \<Rightarrow> nat \<Rightarrow> 'a io_state_scheme \<Rightarrow> int \<times> 'a io_state_scheme" where
  "serial_read d buf count pos st = (let (i, st') = serial_read_loop buf 0 count st in (sint32 i, st'))"

section \<open>Waiting\<close>

text \<open>The state after \<open>n\<close> polls, and whether the next poll finds one of the bits \<open>bm\<close> up.\<close>

definition polled :: "'a io_state_scheme \<Rightarrow> nat \<Rightarrow> 'a io_state_scheme" where
  "polled st n = st\<lparr>port_log := port_log st @ replicate n (In (SERIAL_PORT + 5))\<rparr>"

definition line_bit :: "u8 \<Rightarrow> 'a io_state_scheme \<Rightarrow> nat \<Rightarrow> bool" where
  "line_bit bm st k \<longleftrightarrow> (of_nat (hw st (port_log st @ replicate k (In (SERIAL_PORT + 5))) (SERIAL_PORT + 5)) :: u8) AND bm \<noteq> 0"

definition polls :: "('a io_state_scheme \<Rightarrow> u8 \<times> 'a io_state_scheme) \<Rightarrow> u8 \<Rightarrow> bool" where
  "polls test bm \<longleftrightarrow> (\<forall>st. test st = (of_nat (hw st (port_log st) (SERIAL_PORT + 5)) AND bm, polled st 1))"

lemma polled_0 [simp]: "polled st 0 = st"
  by (simp add: polled_def)

lemma polled_polled [simp]: "polled (polled st m) n = polled st (m + n)"
  by (simp add: polled_def replicate_add)

lemma line_bit_polled: "line_bit bm (polled st m) k = line_bit bm st (m + k)"
  by (simp add: line_bit_def polled_def replicate_add)

lemma wait_step:
  assumes "polls test bm"
  shows "wait_for test st = (if line_bit bm st 0 then Some (polled st 1) else wait_for test (polled st 1))"
  using assms by (subst wait_for.simps) (simp add: polls_def line_bit_def)

text \<open>A polling loop over the line status register runs until the bit is up, if it ever is.\<close>

lemma wait_Some:
  assumes "polls test bm" "line_bit bm st k" "\<And>j. j < k \<Longrightarrow> \<not> line_bit bm st j"
  shows "wait_for test st = Some (polled st (Suc k))"
  using assms(2,3)
proof (induction k arbitrary: st)
  case 0
  then show ?case using wait_step [OF assms(1)] by simp
next
  case (Suc k)
  have "wait_for test (polled st 1) = Some (polled (polled st 1) (Suc k))"
  proof (rule Suc.IH)
    show "line_bit bm (polled st 1) k" using Suc.prems(1) by (simp add: line_bit_polled)
    show "\<not> line_bit bm (polled st 1) j" if "j < k" for j
      using Suc.prems(2) [of "Suc j"] that by (simp add: line_bit_polled)
  qed
  moreover have "\<not> line_bit bm st 0" using Suc.prems(2) [of 0] by simp
  ultimately show ?case using wait_step [OF assms(1), of st] by simp
qed

lemma wait_result:
  assumes "wait_for test (st :: 'a io_state_scheme) = Some st'" "polls test bm"
  shows "\<exists>k. line_bit bm st k"
proof -
  let ?P = "\<lambda>test (st :: 'a io_state_scheme) (st' :: 'a io_state_scheme). polls test bm \<longrightarrow> (\<exists>k. line_bit bm st k)"
  have "?P test st st'"
  proof (rule wait_for.raw_induct [of ?P, OF _ assms(1)], rule impI, goal_cases step)
    case (step w test st st')
    show ?case
    proof (cases "line_bit bm st 0")
      case False
      then have "w test (polled st 1) = Some st'" using step(2,3) by (simp add: line_bit_def polls_def)
      then obtain k where "line_bit bm (polled st 1) k" using step(1,3) by blast
      then show ?thesis by (intro exI [of _ "Suc k"]) (simp add: line_bit_polled)
    qed blast
  qed
  then show ?thesis using assms(2) by blast
qed

text \<open>The transmitter is never stuck for ever: whatever happened before, it gets ready if it is polled.\<close>

definition serial_ok :: "'a io_state_scheme \<Rightarrow> bool" where
  "serial_ok st \<longleftrightarrow> (\<forall>es. \<exists>k. line_bit 0x20 (st\<lparr>port_log := es\<rparr>) k)"

definition sent :: "'a io_state_scheme \<Rightarrow> u8 list" where
  "sent st = written SERIAL_PORT (port_log st)"

lemma ready_test: "polls serial_is_ready_to_send 0x20"
  by (simp add: polls_def serial_is_ready_to_send_def inportb_def polled_def)

lemma spin_ready:
  assumes "line_bit 0x20 st n"
  obtains k where "spin serial_is_ready_to_send st = Inr (polled st (Suc k))" "k \<le> n"
proof -
  define k where "k = (LEAST k. line_bit 0x20 st k)"
  have "line_bit 0x20 st k" "k \<le> n" unfolding k_def using assms by (auto intro: LeastI Least_le)
  moreover have "\<not> line_bit 0x20 st j" if "j < k" for j using that not_less_Least unfolding k_def by blast
  ultimately have "wait_for serial_is_ready_to_send st = Some (polled st (Suc k))"
    by (intro wait_Some [OF ready_test])
  then show ?thesis using \<open>k \<le> n\<close> by (intro that [of k]) (simp_all add: spin_def)
qed

lemma serial_out_data_ok:
  assumes "serial_ok st"
  shows "\<exists>k. serial_out_data c st = Inr (outportb SERIAL_PORT c (polled st (Suc k)))"
proof -
  have "\<exists>n. line_bit 0x20 (st\<lparr>port_log := port_log st\<rparr>) n" using assms unfolding serial_ok_def by blast
  then obtain n where "line_bit 0x20 st n" by auto
  then obtain k where "spin serial_is_ready_to_send st = Inr (polled st (Suc k))" by (rule spin_ready)
  then show ?thesis by (intro exI [of _ k]) (simp add: serial_out_data_def serial_out_def)
qed

lemma serial_dead: "\<forall>k. \<not> line_bit 0x20 st k \<Longrightarrow> serial_out_data c st = Inl Hang"
  using wait_result [OF _ ready_test, of st]
  by (cases "wait_for serial_is_ready_to_send st") (auto simp: serial_out_data_def spin_def)

lemma serial_out_data_run:
  assumes "serial_out_data c st = Inr st'"
  shows "\<exists>k. st' = outportb SERIAL_PORT c (polled st (Suc k))"
proof (cases "\<exists>k. line_bit 0x20 st k")
  case True
  then obtain n where "line_bit 0x20 st n" by blast
  then obtain k where "spin serial_is_ready_to_send st = Inr (polled st (Suc k))" by (rule spin_ready)
  then show ?thesis using assms by (auto simp: serial_out_data_def serial_out_def)
next
  case False
  then have "serial_out_data c st = Inl Hang" by (intro serial_dead) blast
  then show ?thesis using assms by simp
qed

interpretation serial: char_device serial_ok sent "\<lambda>c l. l @ [c]" "{}" serial_out_data
proof unfold_locales
  fix c and st st' :: "'a io_state_scheme"
  show "\<exists>st'. serial_out_data c st = Inr st' \<and> serial_ok st' \<and> sent st' = sent st @ [c]" if ok: "serial_ok st"
  proof -
    obtain k where "serial_out_data c st = Inr (outportb SERIAL_PORT c (polled st (Suc k)))"
      using serial_out_data_ok [OF ok] by blast
    then show ?thesis using ok by (auto simp: serial_ok_def line_bit_def sent_def outportb_def polled_def)
  qed
  show "same_on (- {}) (ram st) (ram st')" if "serial_out_data c st = Inr st'"
    using serial_out_data_run [OF that] by (auto simp: outportb_def polled_def)
qed

end
