(* ===== verification/Textmode.thy ===== *)
theory Textmode
  imports CharDevice CMem
begin

text \<open>
  arch/x86/textmode.c: the VGA text screen, 80 columns and 25 rows of 16-bit cells from 0xB8000 on.
\<close>

section \<open>The code\<close>

abbreviation VGA :: nat where "VGA \<equiv> 0xB8000"

text \<open>A cell: \<open>p->col << 8 | c\<close> stored as \<open>uint16_t\<close>. A character from 128 on is negative and sets all the upper bits.\<close>

definition tm_char :: "nat \<Rightarrow> u8 \<Rightarrow> nat" where
  "tm_char col c = unat (push_bit 8 (of_nat col :: u16) OR scast c)"

primrec textmode_clear_loop :: "nat \<Rightarrow> nat \<Rightarrow> mem \<Rightarrow> mem" where
  "textmode_clear_loop col 0 m = m"
| "textmode_clear_loop col (Suc i) m = st16 (textmode_clear_loop col i m) (VGA + i * 2) (tm_char col 32)"

definition textmode_clear :: "'a io_state_scheme \<Rightarrow> 'a io_state_scheme" where
  "textmode_clear st = st\<lparr>ram := textmode_clear_loop (tm_col st) 2000 (ram st)\<rparr>"

primrec scroll_loop :: "nat \<Rightarrow> mem \<Rightarrow> mem" where
  "scroll_loop 0 m = m"
| "scroll_loop (Suc y) m = memcpy (VGA + y * 80 * 2) (VGA + (y + 1) * 80 * 2) (80 * 2) (scroll_loop y m)"

definition textmode_scrollup :: "'a io_state_scheme \<Rightarrow> 'a io_state_scheme" where
  "textmode_scrollup st =
     st\<lparr>ram := memset16 (VGA + 80 * 25 * 2) (tm_char (tm_col st) 32) (80 * 2) (scroll_loop 25 (ram st))\<rparr>"

text \<open>\<open>p\<close> is the device's private pointer, null before \<open>textmode_init\<close>.\<close>

definition textmode_putchar :: "u8 \<Rightarrow> 'a io_state_scheme \<Rightarrow> 'a io_state_scheme" where
  "textmode_putchar c st =
     (if \<not> tm_priv st \<or> c = 0 then st
      else let st1 = (if tm_x st > 80 \<or> c = 10 then st\<lparr>tm_y := tm_y st + 1, tm_x := 0\<rparr> else st);
               st2 = (if 25 \<le> tm_y st1 then let s = textmode_scrollup st1 in s\<lparr>tm_x := 0, tm_y := tm_y s - 1\<rparr> else st1)
           in if c = 10 then st2
              else st2\<lparr>ram := st16 (ram st2) (VGA + 80 * 2 * tm_y st2 + tm_x st2 * 2) (tm_char (tm_col st2) c),
                       tm_x := tm_x st2 + 1\<rparr>)"

definition textmode_write :: "nat \<Rightarrow> nat \<Rightarrow> nat \<Rightarrow> nat \<Rightarrow> 'a io_state_scheme \<Rightarrow> (int \<times> 'a io_state_scheme) outcome" where
  "textmode_write d buf count po st =
     bindR (write_each (\<lambda>c s. Inr (textmode_putchar c s)) buf count st) (\<lambda>st'. Inr (sint32 count, st'))"

section \<open>The screen as a list of cells\<close>

text \<open>
  27 rows: the 25 visible ones and the two below them that scrolling also writes.
\<close>

record screen =
  cells :: "nat list"
  cur_x :: nat
  cur_y :: nat
  colour :: nat

definition tm_view :: "'a io_state_scheme \<Rightarrow> screen" where
  "tm_view st = \<lparr>cells = map (\<lambda>i. ld16 (ram st) (VGA + 2 * i)) [0..<2160], cur_x = tm_x st, cur_y = tm_y st, colour = tm_col st\<rparr>"

definition vga_area :: "nat set" where
  "vga_area = {VGA..<VGA + 4320}"

definition tm_ok :: "'a io_state_scheme \<Rightarrow> bool" where
  "tm_ok st \<longleftrightarrow> tm_priv st \<and> tm_x st \<le> 81 \<and> tm_y st < 25"

definition scrolled :: "screen \<Rightarrow> screen" where
  "scrolled s = s\<lparr>cells := drop 80 (take 2080 (cells s)) @ replicate 160 (tm_char (colour s) 32)\<rparr>"

definition newline :: "screen \<Rightarrow> screen" where
  "newline s = (if cur_y s = 24 then scrolled s\<lparr>cur_x := 0\<rparr> else s\<lparr>cur_x := 0, cur_y := cur_y s + 1\<rparr>)"

definition show_char :: "u8 \<Rightarrow> screen \<Rightarrow> screen" where
  "show_char c s =
     (if c = 0 then s
      else if c = 10 then newline s
      else let s1 = (if cur_x s > 80 then newline s else s)
           in s1\<lparr>cells := (cells s1)[80 * cur_y s1 + cur_x s1 := tm_char (colour s1) c], cur_x := cur_x s1 + 1\<rparr>)"

lemma tm_char_less: "tm_char col c < 65536"
  using unsigned_less [of "push_bit 8 (of_nat col :: u16) OR scast c", where 'a = nat] by (simp add: tm_char_def)

lemma ld16_st16: "i \<noteq> j \<Longrightarrow> ld16 (st16 m (b + 2 * i) v) (b + 2 * j) = ld16 m (b + 2 * j)"
  by (rule ld16_frame) (auto simp: same_on_def st16_def st8_def)

lemma ld16_cell: "ld16 (st16 m (b + 2 * i) v) (b + 2 * j) = (if i = j then v mod 65536 else ld16 m (b + 2 * j))"
  using ld16_st16 [of i j m b v] ld16_st16_same [of m "b + 2 * i" v] by auto

lemma memset16_cell:
  "ld16 (memset16 (b + 2 * i) v n m) (b + 2 * j) = (if i \<le> j \<and> j < i + n then v mod 65536 else ld16 m (b + 2 * j))"
proof (induction n arbitrary: i m)
  case (Suc n)
  have "b + 2 * i + 2 = b + 2 * Suc i" by simp
  then show ?case by (simp only: memset16.simps Suc.IH) (auto simp: ld16_cell)
qed simp

lemma memset16_out: "x < p \<or> p + 2 * n \<le> x \<Longrightarrow> memset16 p v n m x = m x"
  by (induction n arbitrary: p m) (auto simp: st16_def st8_def)

lemma scroll_loop_at:
  "scroll_loop n m x = (if VGA \<le> x \<and> x < VGA + 160 * n then m (x + 160) else m x)"
proof (induction n arbitrary: x)
  case (Suc n)
  show ?case
    unfolding scroll_loop.simps by (subst memcpy_apply) (auto simp: Suc.IH add.commute)
qed auto

lemma nth_tm_cells: "i < 2160 \<Longrightarrow> cells (tm_view st) ! i = ld16 (ram st) (VGA + 2 * i)"
  by (simp add: tm_view_def)

lemma scrollup_view: "tm_view (textmode_scrollup st) = scrolled (tm_view st)"
proof -
  let ?m = "memset16 (VGA + 2 * 2000) (tm_char (tm_col st) 32) 160 (scroll_loop 25 (ram st))"
  have cell: "ld16 ?m (VGA + 2 * i) = (if i < 2000 then ld16 (ram st) (VGA + 2 * (i + 80)) else tm_char (tm_col st) 32)"
    if "i < 2160" for i
  proof (cases "i < 2000")
    case True
    then have "ld16 (scroll_loop 25 (ram st)) (VGA + 2 * i) = ld16 (ram st) (VGA + 2 * (i + 80))"
      by (simp add: ld16_def ld8_def scroll_loop_at ac_simps)
    then show ?thesis using True by (simp only: memset16_cell) simp
  next
    case False
    then show ?thesis using that tm_char_less [of "tm_col st" 32] by (simp only: memset16_cell) simp
  qed
  have "cells (tm_view (textmode_scrollup st)) = drop 80 (take 2080 (cells (tm_view st))) @ replicate 160 (tm_char (tm_col st) 32)"
    (is "?l = ?r")
  proof (rule nth_equalityI)
    show "length ?l = length ?r" by (simp add: tm_view_def)
    fix i assume "i < length ?l"
    then have i: "i < 2160" by (simp add: tm_view_def)
    have "?l ! i = ld16 ?m (VGA + 2 * i)" using i by (simp add: nth_tm_cells textmode_scrollup_def)
    moreover have "?r ! i = (if i < 2000 then ld16 (ram st) (VGA + 2 * (i + 80)) else tm_char (tm_col st) 32)"
      using i by (auto simp: nth_append tm_view_def)
    ultimately show "?l ! i = ?r ! i" using cell [OF i] by simp
  qed
  then show ?thesis by (simp add: tm_view_def scrolled_def textmode_scrollup_def)
qed

lemma textmode_scrollup_sel [simp]:
  "tm_x (textmode_scrollup st) = tm_x st" "tm_y (textmode_scrollup st) = tm_y st" "tm_col (textmode_scrollup st) = tm_col st"
  "tm_priv (textmode_scrollup st) = tm_priv st"
  by (simp_all add: textmode_scrollup_def)

lemma store_view:
  assumes "80 * tm_y st + tm_x st < 2160"
  shows "tm_view (st\<lparr>ram := st16 (ram st) (VGA + 80 * 2 * tm_y st + tm_x st * 2) (tm_char (tm_col st) c), tm_x := x\<rparr>) =
    tm_view st\<lparr>cells := (cells (tm_view st))[80 * tm_y st + tm_x st := tm_char (tm_col st) c], cur_x := x\<rparr>"
proof -
  define i where "i = 80 * tm_y st + tm_x st"
  have i: "i < 2160" using assms by (simp add: i_def)
  have a: "VGA + 80 * 2 * tm_y st + tm_x st * 2 = VGA + 2 * i" by (simp add: i_def)
  have "map (\<lambda>j. ld16 (st16 (ram st) (VGA + 2 * i) (tm_char (tm_col st) c)) (VGA + 2 * j)) [0..<2160] =
      (map (\<lambda>j. ld16 (ram st) (VGA + 2 * j)) [0..<2160])[i := tm_char (tm_col st) c]"
    using i tm_char_less [of "tm_col st" c] by (intro nth_equalityI) (auto simp: ld16_cell nth_list_update)
  then show ?thesis unfolding a i_def [symmetric] by (simp add: tm_view_def)
qed

lemma putchar_view:
  assumes "tm_ok st"
  shows "tm_ok (textmode_putchar c st) \<and> tm_view (textmode_putchar c st) = show_char c (tm_view st)"
proof -
  have b: "tm_priv st" "tm_x st \<le> 81" "tm_y st < 25" using assms by (auto simp: tm_ok_def)
  have sel: "cur_x (tm_view s) = tm_x s" "cur_y (tm_view s) = tm_y s" "colour (tm_view s) = tm_col s" for s :: "'a io_state_scheme"
    by (simp_all add: tm_view_def)
  define nl where "nl s = (let s1 = s\<lparr>tm_y := tm_y s + 1, tm_x := 0\<rparr>
      in if 25 \<le> tm_y s1 then let s2 = textmode_scrollup s1 in s2\<lparr>tm_x := 0, tm_y := tm_y s2 - 1\<rparr> else s1)" for s :: "'a io_state_scheme"
  have upd: "tm_view (s\<lparr>tm_x := x, tm_y := y\<rparr>) = tm_view s\<lparr>cur_x := x, cur_y := y\<rparr>" for x y and s :: "'a io_state_scheme"
    by (simp add: tm_view_def)
  have nlv: "tm_ok (nl st) \<and> tm_x (nl st) = 0 \<and> tm_view (nl st) = newline (tm_view st)"
  proof (cases "tm_y st = 24")
    case True
    let ?s = "st\<lparr>tm_y := tm_y st + 1, tm_x := 0\<rparr>"
    have n: "nl st = (textmode_scrollup ?s)\<lparr>tm_x := 0, tm_y := 24\<rparr>" using True by (simp add: nl_def Let_def)
    have "tm_view ?s = tm_view st\<lparr>cur_x := 0, cur_y := 25\<rparr>" using True by (simp add: tm_view_def)
    then have "tm_view (nl st) = newline (tm_view st)"
      unfolding n upd scrollup_view using True by (simp add: newline_def sel scrolled_def)
    then show ?thesis using b by (simp add: n tm_ok_def)
  next
    case False
    then have n: "nl st = st\<lparr>tm_y := tm_y st + 1, tm_x := 0\<rparr>" using b by (simp add: nl_def Let_def)
    then show ?thesis using b False by (auto simp: newline_def tm_ok_def tm_view_def)
  qed
  define ch where "ch s = s\<lparr>ram := st16 (ram s) (VGA + 80 * 2 * tm_y s + tm_x s * 2) (tm_char (tm_col s) c), tm_x := tm_x s + 1\<rparr>"
    for s :: "'a io_state_scheme"
  have chv: "tm_ok (ch s) \<and> tm_view (ch s) =
      tm_view s\<lparr>cells := (cells (tm_view s))[80 * tm_y s + tm_x s := tm_char (tm_col s) c], cur_x := tm_x s + 1\<rparr>"
    if "tm_ok s" "tm_x s \<le> 80" for s :: "'a io_state_scheme"
    using that unfolding ch_def by (subst store_view) (auto simp: tm_ok_def)
  have p: "textmode_putchar c st = (if c = 0 then st else if c = 10 then nl st else ch (if tm_x st > 80 then nl st else st))"
    using b by (simp add: textmode_putchar_def nl_def ch_def Let_def)
  show ?thesis
    unfolding p show_char_def sel Let_def using assms nlv chv [of st] chv [of "nl st"] by (auto simp: sel [symmetric] split: if_splits)
qed

lemma putchar_area:
  assumes "tm_ok st"
  shows "same_on (- vga_area) (ram st) (ram (textmode_putchar c st))"
proof -
  have scr: "same_on (- vga_area) (ram s) (ram (textmode_scrollup s))" for s :: "'a io_state_scheme"
  proof -
    have "memset16 (VGA + 80 * 25 * 2) v (80 * 2) (scroll_loop 25 (ram s)) x = ram s x" if "x \<notin> vga_area" for x v
      using that by (auto simp: vga_area_def memset16_out scroll_loop_at)
    then show ?thesis by (simp add: same_on_def textmode_scrollup_def)
  qed
  have sto: "same_on (- vga_area) m (st16 m (VGA + 80 * 2 * y + x * 2) v)" if "y < 25" "x \<le> 80" for m x y v
    using that by (auto simp: same_on_def vga_area_def st16_def st8_def)
  have b: "tm_priv st" "tm_x st \<le> 81" "tm_y st < 25" using assms by (auto simp: tm_ok_def)
  have trans: "same_on (- vga_area) (ram st) (ram (textmode_scrollup (st\<lparr>tm_y := y, tm_x := x\<rparr>)))" for x y
    using scr [of "st\<lparr>tm_y := y, tm_x := x\<rparr>"] by simp
  let ?s = "textmode_scrollup (st\<lparr>tm_y := Suc (tm_y st), tm_x := 0\<rparr>)"
  have "same_on (- vga_area) (ram st) (st16 (ram ?s) (VGA + 80 * 2 * 24 + 0 * 2) v)" for v
    by (rule same_on_trans [OF trans]) (rule sto; simp)
  then have two: "same_on (- vga_area) (ram st) (st16 (ram ?s) 757504 v)" for v by simp
  have one: "same_on (- vga_area) (ram st) (st16 (ram st) (VGA + 160 * y + x * 2) v)" if "y < 25" "x \<le> 80" for x y v
    using sto [OF that, of "ram st" v] by simp
  show ?thesis
  proof (cases "tm_y st = 24")
    case True
    show ?thesis
      using b one [of "tm_y st" "tm_x st"] two trans [of 0 "Suc (tm_y st)"] by (simp add: textmode_putchar_def Let_def True)
  next
    case False
    show ?thesis
      using b False one [of "tm_y st" "tm_x st"] one [of "Suc (tm_y st)" 0] by (auto simp: textmode_putchar_def Let_def not_less)
  qed
qed

interpretation tm: char_device tm_ok tm_view show_char vga_area "\<lambda>c st. Inr (textmode_putchar c st)"
  by unfold_locales (auto simp: putchar_view putchar_area)

section \<open>Lines\<close>

definition printable :: "u8 list \<Rightarrow> bool" where
  "printable cs \<longleftrightarrow> 0 \<notin> set cs \<and> 10 \<notin> set cs"

text \<open>Storing a list into an array from an index on.\<close>

definition splice :: "nat \<Rightarrow> 'b list \<Rightarrow> 'b list \<Rightarrow> 'b list" where
  "splice i ds xs = take i xs @ ds @ drop (i + length ds) xs"

lemma splice_Cons: "i < length xs \<Longrightarrow> splice (Suc i) ds (xs[i := d]) = splice i (d # ds) xs"
  by (simp add: splice_def take_Suc_conv_app_nth drop_update_cancel)

lemma splice_Nil [simp]: "splice i [] xs = xs"
  by (simp add: splice_def)

lemma length_splice: "i + length ds \<le> length xs \<Longrightarrow> length (splice i ds xs) = length xs"
  by (simp add: splice_def)

lemma nth_splice:
  "i + length ds \<le> length xs \<Longrightarrow> j < length xs \<Longrightarrow>
     splice i ds xs ! j = (if i \<le> j \<and> j < i + length ds then ds ! (j - i) else xs ! j)"
  by (auto simp: splice_def nth_append)

lemma show_text:
  assumes "printable cs" "cur_x s + length cs \<le> 81" "80 * cur_y s + cur_x s + length cs \<le> length (cells s)"
  shows "fold show_char cs s =
    s\<lparr>cells := splice (80 * cur_y s + cur_x s) (map (tm_char (colour s)) cs) (cells s), cur_x := cur_x s + length cs\<rparr>"
  using assms
proof (induction cs arbitrary: s)
  case (Cons c cs)
  let ?s = "s\<lparr>cells := (cells s)[80 * cur_y s + cur_x s := tm_char (colour s) c], cur_x := cur_x s + 1\<rparr>"
  have c: "c \<noteq> 0" "c \<noteq> 10" "printable cs" using Cons.prems(1) by (auto simp: printable_def)
  have "show_char c s = ?s" using c Cons.prems(2) by (simp add: show_char_def)
  moreover have "fold show_char cs ?s =
      ?s\<lparr>cells := splice (80 * cur_y ?s + cur_x ?s) (map (tm_char (colour ?s)) cs) (cells ?s), cur_x := cur_x ?s + length cs\<rparr>"
    by (rule Cons.IH [OF c(3)]) (use Cons.prems in auto)
  ultimately show ?case using Cons.prems(3) by (simp add: splice_Cons)
qed simp

lemma length_cells [simp]: "length (cells (tm_view st)) = 2160"
  by (simp add: tm_view_def)

lemma tm_view_sel [simp]:
  "cur_x (tm_view st) = tm_x st" "cur_y (tm_view st) = tm_y st" "colour (tm_view st) = tm_col st"
  by (simp_all add: tm_view_def)

lemma textmode_write_ok:
  assumes "tm_ok st" "{buf..<buf + n} \<inter> vga_area = {}" "n < 2147483648"
  shows "\<exists>st'. textmode_write d buf n po st = Inr (int n, st') \<and> tm_ok st' \<and> same_on (- vga_area) (ram st) (ram st') \<and>
    tm_view st' = fold show_char (bytes_at (ram st) buf n) (tm_view st)"
proof -
  obtain st' where st': "write_each (\<lambda>c s. Inr (textmode_putchar c s)) buf n st = Inr st'" "tm_ok st'"
    "tm_view st' = fold show_char (bytes_at (ram st) buf n) (tm_view st)"
    using tm.write_each_ok [OF assms(1,2)] by blast
  then show ?thesis using tm.write_each_area [OF assms(1) st'(1)] assms(3) by (simp add: textmode_write_def sint32_def)
qed

text \<open>
  Writing at most 80 printable characters at the start of a row puts them into its cells from the left,
  in the current colour; every other cell and all memory outside the screen stays as it was.
\<close>

theorem textmode_line:
  assumes "tm_ok st" "tm_x st = 0" "n \<le> 80" "{buf..<buf + n} \<inter> vga_area = {}" "printable (bytes_at (ram st) buf n)"
  shows "\<exists>st'. textmode_write d buf n po st = Inr (int n, st') \<and> tm_ok st' \<and> tm_x st' = n \<and> tm_y st' = tm_y st \<and>
    same_on (- vga_area) (ram st) (ram st') \<and>
    (\<forall>i<2160. cells (tm_view st') ! i =
      (if 80 * tm_y st \<le> i \<and> i < 80 * tm_y st + n then tm_char (tm_col st) (ram st (buf + (i - 80 * tm_y st)))
       else cells (tm_view st) ! i))"
proof -
  let ?cs = "bytes_at (ram st) buf n"
  have n: "n < 2147483648" using assms(3) by simp
  have y: "80 * tm_y st + n \<le> 2160" using assms(1,3) by (simp add: tm_ok_def)
  obtain st' where st': "textmode_write d buf n po st = Inr (int n, st')" "tm_ok st'" "same_on (- vga_area) (ram st) (ram st')"
    "tm_view st' = fold show_char ?cs (tm_view st)"
    using textmode_write_ok [OF assms(1,4) n] by blast
  have v: "tm_view st' = tm_view st\<lparr>cells := splice (80 * tm_y st) (map (tm_char (tm_col st)) ?cs) (cells (tm_view st)), cur_x := n\<rparr>"
    unfolding st'(4) using assms y by (subst show_text) auto
  have "tm_x st' = n" "tm_y st' = tm_y st" using arg_cong [OF v, of cur_x] arg_cong [OF v, of cur_y] by simp_all
  moreover have "cells (tm_view st') ! i =
      (if 80 * tm_y st \<le> i \<and> i < 80 * tm_y st + n then tm_char (tm_col st) (ram st (buf + (i - 80 * tm_y st)))
       else cells (tm_view st) ! i)" if "i < 2160" for i
    unfolding v using y that by (auto simp: nth_splice)
  ultimately show ?thesis using st' by blast
qed

text \<open>
  The end of a row is tested too late: of 82 printable characters written from the start of a row the
  81st is put into the first cell of the next row, where the 82nd overwrites it.
\<close>

theorem textmode_lost_char:
  assumes "tm_ok st" "tm_x st = 0" "tm_y st < 24" "{buf..<buf + 82} \<inter> vga_area = {}" "printable (bytes_at (ram st) buf 82)"
  shows "\<exists>st'. textmode_write d buf 82 po st = Inr (82, st') \<and> tm_x st' = 1 \<and> tm_y st' = tm_y st + 1 \<and>
    (\<forall>i<2160. cells (tm_view st') ! i =
      (if 80 * tm_y st \<le> i \<and> i < 80 * tm_y st + 80 then tm_char (tm_col st) (ram st (buf + (i - 80 * tm_y st)))
       else if i = 80 * (tm_y st + 1) then tm_char (tm_col st) (ram st (buf + 81))
       else cells (tm_view st) ! i))"
proof -
  let ?cs = "bytes_at (ram st) buf 81" and ?c = "ram st (buf + 81)" and ?y = "tm_y st" and ?xs = "cells (tm_view st)"
  have b: "bytes_at (ram st) buf 82 = ?cs @ [?c]" 
  proof -
    have "[buf..<buf + 82] = [buf..<buf + 81] @ [buf + 81]"
      using upt_Suc_append [of buf "buf + 81"] by (simp add: add.commute del: upt_Suc)
    then show ?thesis by (simp only: bytes_at_def map_append list.map)
  qed
  have c: "printable ?cs" "?c \<noteq> 0" "?c \<noteq> 10" using assms(5) unfolding b by (auto simp: printable_def)
  have n: "(82::nat) < 2147483648" by simp
  obtain st' where st': "textmode_write d buf 82 po st = Inr (int 82, st')" "tm_view st' = fold show_char (?cs @ [?c]) (tm_view st)"
    using textmode_write_ok [OF assms(1,4) n] unfolding b by blast
  have v: "tm_view st' = show_char ?c
      (tm_view st\<lparr>cells := splice (80 * ?y) (map (tm_char (tm_col st)) ?cs) ?xs, cur_x := 81\<rparr>)"
    unfolding st'(2) using assms c by (simp add: show_text)
  then have v2: "tm_view st' = tm_view st\<lparr>cells := (splice (80 * ?y) (map (tm_char (tm_col st)) ?cs) ?xs)
      [80 * Suc ?y := tm_char (tm_col st) ?c], cur_x := 1, cur_y := Suc ?y\<rparr>"
    using c assms(3) by (simp add: show_char_def newline_def)
  have "tm_x st' = 1" "tm_y st' = Suc ?y" using arg_cong [OF v2, of cur_x] arg_cong [OF v2, of cur_y] by simp_all
  moreover have "cells (tm_view st') ! i =
      (if 80 * ?y \<le> i \<and> i < 80 * ?y + 80 then tm_char (tm_col st) (ram st (buf + (i - 80 * ?y)))
       else if i = 80 * (?y + 1) then tm_char (tm_col st) ?c else ?xs ! i)" if "i < 2160" for i
    unfolding v2 using assms(3) that by (auto simp: nth_list_update nth_splice length_splice)
  ultimately show ?thesis using st'(1) by auto
qed

section \<open>Witnesses\<close>

lemma small_screen_ok: "tm_ok small_screen" "tm_x small_screen = 0" "tm_y small_screen = 3" "tm_col small_screen = 7"
  "a < 0x2000 \<Longrightarrow> ram small_screen a = 65"
  by (simp_all add: small_screen_def tm_ok_def)

lemma small_screen_text: "n < 0x1000 \<Longrightarrow> printable (bytes_at (ram small_screen) 0x1000 n)"
  by (auto simp: printable_def bytes_at_def small_screen_ok)

theorem textmode_line_witness:
  "\<exists>st'. textmode_write 0 0x1000 5 0 small_screen = Inr (5, st') \<and> cells (tm_view st') ! 244 = tm_char 7 65"
proof -
  have "\<exists>st'. textmode_write 0 0x1000 5 0 small_screen = Inr (int 5, st') \<and> tm_ok st' \<and> tm_x st' = 5 \<and>
    tm_y st' = tm_y small_screen \<and> same_on (- vga_area) (ram small_screen) (ram st') \<and>
    (\<forall>i<2160. cells (tm_view st') ! i = (if 80 * tm_y small_screen \<le> i \<and> i < 80 * tm_y small_screen + 5
       then tm_char (tm_col small_screen) (ram small_screen (0x1000 + (i - 80 * tm_y small_screen)))
       else cells (tm_view small_screen) ! i))"
    by (rule textmode_line [OF small_screen_ok(1,2)]) (auto simp: small_screen_text vga_area_def)
  then obtain st' where w: "textmode_write 0 0x1000 5 0 small_screen = Inr (int 5, st')" "\<forall>i<2160. cells (tm_view st') ! i =
      (if 80 * tm_y small_screen \<le> i \<and> i < 80 * tm_y small_screen + 5
       then tm_char (tm_col small_screen) (ram small_screen (0x1000 + (i - 80 * tm_y small_screen)))
       else cells (tm_view small_screen) ! i)" by blast
  have "cells (tm_view st') ! 244 = tm_char 7 65" using spec [OF w(2), of 244] by (simp add: small_screen_ok)
  then show ?thesis using w(1) by auto
qed

theorem textmode_lost_char_witness:
  "\<exists>st'. textmode_write 0 0x1000 82 0 small_screen = Inr (82, st') \<and> tm_x st' = 1 \<and> tm_y st' = 4"
  using textmode_lost_char [of small_screen "0x1000" 0 0] small_screen_text [of 82]
  by (auto simp: small_screen_ok vga_area_def)

end
