(* ===== verification/Console.thy ===== *)
theory Console
  imports Kmsg Serial Textmode
begin

text \<open>
  kernel/console.c: the list of at most four consoles and the routines that send characters to all of them;
  and the initialisation of the serial line and of the screen, which register themselves there.
\<close>

abbreviation MAX_CONSOLES :: nat where "MAX_CONSOLES \<equiv> 4"

section \<open>The code\<close>

text \<open>The call through \<open>cons[i]->dev->write\<close>.\<close>

fun con_write :: "con_dev \<Rightarrow> nat \<Rightarrow> nat \<Rightarrow> nat \<Rightarrow> 'a io_state_scheme \<Rightarrow> (int \<times> 'a io_state_scheme) outcome" where
  "con_write KMSG_CON buf count pos st = kmsg_write (dev_addr st KMSG_DEV) buf count pos st"
| "con_write SERIAL_CON buf count pos st = serial_write (dev_addr st SERIAL_DEV) buf count pos st"
| "con_write TM_CON buf count pos st = textmode_write (dev_addr st TM_DEV) buf count pos st"

text \<open>
  The loop of \<open>console_send\<close>: \<open>i\<close> counts up while \<open>i < consoles\<close>, \<open>n\<close> is the number of turns left. \<open>slot\<close>
  is the address of the argument \<open>c\<close> on the stack.
\<close>

primrec console_loop :: "nat \<Rightarrow> nat \<Rightarrow> nat \<Rightarrow> 'a io_state_scheme \<Rightarrow> 'a io_state_scheme outcome" where
  "console_loop slot i 0 st = Inr st"
| "console_loop slot i (Suc n) st =
     (case cons st ! i of None \<Rightarrow> Inl (Trap ''null console'')
      | Some d \<Rightarrow> bindR (con_write d slot 1 0 st) (\<lambda>(rc, st').
          if rc \<le> 0 then Inl (Panic ''console_send rc'') else console_loop slot (Suc i) n st'))"

definition console_send :: "nat \<Rightarrow> u8 \<Rightarrow> 'a io_state_scheme \<Rightarrow> (int \<times> 'a io_state_scheme) outcome" where
  "console_send slot c st =
     bindR (console_loop slot 0 (consoles st) (st\<lparr>ram := (ram st)(slot := c)\<rparr>)) (\<lambda>st'. Inr (0, st'))"

definition send_char :: "nat \<Rightarrow> u8 \<Rightarrow> 'a io_state_scheme \<Rightarrow> 'a io_state_scheme outcome" where
  "send_char slot c st = bindR (console_send slot c st) (\<lambda>(_, st'). Inr st')"

definition console_file_write :: "nat \<Rightarrow> nat \<Rightarrow> nat \<Rightarrow> 'a io_state_scheme \<Rightarrow> (int \<times> 'a io_state_scheme) outcome" where
  "console_file_write slot buf count st = bindR (write_each (send_char slot) buf count st) (\<lambda>st'. Inr (sint32 count, st'))"

definition console_dev_write :: "nat \<Rightarrow> nat \<Rightarrow> nat \<Rightarrow> nat \<Rightarrow> 'a io_state_scheme \<Rightarrow> (int \<times> 'a io_state_scheme) outcome" where
  "console_dev_write slot buf count pos st = bindR (write_each (send_char slot) buf count st) (\<lambda>st'. Inr (sint32 count, st'))"

definition console_register :: "con_dev \<Rightarrow> 'a io_state_scheme \<Rightarrow> int \<times> 'a io_state_scheme" where
  "console_register c st =
     (if MAX_CONSOLES \<le> consoles st then (- ENOSPC, st)
      else (0, st\<lparr>cons := (cons st)[consoles st := Some c], consoles := consoles st + 1\<rparr>))"

definition console_sys_init :: "'a io_state_scheme \<Rightarrow> int \<times> 'a io_state_scheme" where
  "console_sys_init st = (0, st\<lparr>cons := map (\<lambda>_. None) (cons st), consoles := 0\<rparr>)"

text \<open>drivers/tty.c and the two drivers.\<close>

definition tty_set_default_output :: "dev option \<Rightarrow> 'a io_state_scheme \<Rightarrow> 'a io_state_scheme" where
  "tty_set_default_output d st = st\<lparr>default_output := d\<rparr>"

definition tty_set_default_input :: "dev option \<Rightarrow> 'a io_state_scheme \<Rightarrow> 'a io_state_scheme" where
  "tty_set_default_input d st = st\<lparr>default_input := d\<rparr>"

definition x86_serial_init :: "'a io_state_scheme \<Rightarrow> int \<times> 'a io_state_scheme" where
  "x86_serial_init st =
     (let st1 = serial_out 4 0x0B (serial_out 2 0xC7 (serial_out 3 0x03 (serial_out 1 0x00 (serial_out 0 0x03
            (serial_out 3 0x80 (serial_out 1 0x00 st))))));
          st2 = tty_set_default_input (Some SERIAL_DEV) st1;
          st3 = snd (device_register (dev_addr st2 SERIAL_DEV) st2);
          st4 = snd (console_register SERIAL_CON st3)
      in (0, st4))"

definition textmode_init :: "'a io_state_scheme \<Rightarrow> int \<times> 'a io_state_scheme" where
  "textmode_init st =
     (let st1 = textmode_clear (st\<lparr>tm_priv := True\<rparr>);
          st2 = tty_set_default_output (Some TM_DEV) st1;
          st3 = snd (console_register TM_CON st2)
      in (0, st3))"

section \<open>All consoles as one character device\<close>

text \<open>What the three possible consoles show.\<close>

record shown =
  sh_log :: "u8 list"
  sh_line :: "u8 list"
  sh_screen :: screen

fun disp_on :: "con_dev \<Rightarrow> u8 \<Rightarrow> shown \<Rightarrow> shown" where
  "disp_on KMSG_CON c v = v\<lparr>sh_log := log_char c (sh_log v)\<rparr>"
| "disp_on SERIAL_CON c v = v\<lparr>sh_line := sh_line v @ [c]\<rparr>"
| "disp_on TM_CON c v = v\<lparr>sh_screen := show_char c (sh_screen v)\<rparr>"

definition con_view :: "'a io_state_scheme \<Rightarrow> shown" where
  "con_view st = \<lparr>sh_log = kmsg_log st, sh_line = sent st, sh_screen = tm_view st\<rparr>"

definition con_ok :: "nat \<Rightarrow> con_dev list \<Rightarrow> 'a io_state_scheme \<Rightarrow> bool" where
  "con_ok slot ds st \<longleftrightarrow> kmsg_ok st \<and> serial_ok st \<and> tm_ok st \<and> dev_addr st KMSG_DEV \<noteq> 0 \<and> slot \<noteq> 0 \<and> slot \<notin> vga_area \<and>
     consoles st = length ds \<and> length ds \<le> MAX_CONSOLES \<and> length (cons st) = MAX_CONSOLES \<and>
     (\<forall>i<length ds. cons st ! i = Some (ds ! i))"

lemma kmsg_write_one:
  assumes "con_ok slot ds st"
  shows "\<exists>st'. con_write KMSG_CON slot 1 0 st = Inr (1, st') \<and> con_ok slot ds st' \<and> ram st' = ram st \<and>
    con_view st' = disp_on KMSG_CON (ram st slot) (con_view st)"
proof -
  define s1 where "s1 = kmsg_append (ram st slot) st"
  have k: "kmsg_ok st" "dev_addr st KMSG_DEV \<noteq> 0" "slot \<noteq> 0" using assms by (auto simp: con_ok_def)
  have w: "con_write KMSG_CON slot 1 0 st = Inr (1, s1)"
    using k by (simp add: s1_def kmsg_write_def add32_def sint32_def)
  have f: "ram s1 = ram st" "serial_ok s1 = serial_ok st" "tm_ok s1 = tm_ok st" "dev_addr s1 = dev_addr st" "cons s1 = cons st"
    "consoles s1 = consoles st" "sent s1 = sent st" "tm_view s1 = tm_view st"
    by (simp_all add: s1_def kmsg_append_def serial_ok_def line_bit_def tm_ok_def sent_def tm_view_def)
  show ?thesis using w kmsg_append_ok [OF k(1), of "ram st slot", folded s1_def] assms by (simp add: f con_ok_def con_view_def)
qed

lemma serial_write_one:
  assumes "con_ok slot ds st"
  shows "\<exists>st'. con_write SERIAL_CON slot 1 0 st = Inr (1, st') \<and> con_ok slot ds st' \<and> ram st' = ram st \<and>
    con_view st' = disp_on SERIAL_CON (ram st slot) (con_view st)"
proof -
  have k: "serial_ok st" using assms by (auto simp: con_ok_def)
  obtain k where s: "serial_out_data (ram st slot) st = Inr (outportb SERIAL_PORT (ram st slot) (polled st (Suc k)))"
    using serial_out_data_ok [OF k] by blast
  define s1 where "s1 = outportb SERIAL_PORT (ram st slot) (polled st (Suc k))"
  have w: "con_write SERIAL_CON slot 1 0 st = Inr (1, s1)" by (simp add: serial_write_def s s1_def sint32_def)
  have f: "ram s1 = ram st" "serial_ok s1 = serial_ok st" "tm_ok s1 = tm_ok st" "dev_addr s1 = dev_addr st" "cons s1 = cons st"
    "consoles s1 = consoles st" "kmsg_ok s1 = kmsg_ok st" "kmsg_log s1 = kmsg_log st" "tm_view s1 = tm_view st"
    "sent s1 = sent st @ [ram st slot]"
    by (simp_all add: s1_def serial_ok_def line_bit_def tm_ok_def tm_view_def kmsg_ok_def kmsg_log_def sent_def outportb_def polled_def)
  show ?thesis using w assms by (simp add: f con_ok_def con_view_def)
qed

lemma tm_write_one:
  assumes "con_ok slot ds st"
  shows "\<exists>st'. con_write TM_CON slot 1 0 st = Inr (1, st') \<and> con_ok slot ds st' \<and> same_on (- vga_area) (ram st) (ram st') \<and>
    con_view st' = disp_on TM_CON (ram st slot) (con_view st)"
proof -
  define s1 where "s1 = textmode_putchar (ram st slot) st"
  have k: "tm_ok st" using assms by (auto simp: con_ok_def)
  have w: "con_write TM_CON slot 1 0 st = Inr (1, s1)" by (simp add: s1_def textmode_write_def sint32_def)
  have f: "serial_ok s1 = serial_ok st" "dev_addr s1 = dev_addr st" "cons s1 = cons st" "sent s1 = sent st"
    "consoles s1 = consoles st" "kmsg_ok s1 = kmsg_ok st" "kmsg_log s1 = kmsg_log st"
    by (simp_all add: s1_def textmode_putchar_def textmode_scrollup_def Let_def serial_ok_def line_bit_def kmsg_ok_def kmsg_log_def sent_def)
  show ?thesis using w assms putchar_view [OF k, of "ram st slot", folded s1_def] putchar_area [OF k, of "ram st slot", folded s1_def] by (simp add: f con_ok_def con_view_def)
qed

lemma con_write_one:
  assumes "con_ok slot ds st"
  shows "\<exists>st'. con_write d slot 1 0 st = Inr (1, st') \<and> con_ok slot ds st' \<and> same_on (- vga_area) (ram st) (ram st') \<and>
    con_view st' = disp_on d (ram st slot) (con_view st)"
proof (cases d)
  case KMSG_CON
  then show ?thesis using kmsg_write_one [OF assms] by auto
next
  case SERIAL_CON
  then show ?thesis using serial_write_one [OF assms] by auto
next
  case TM_CON
  then show ?thesis using tm_write_one [OF assms] by auto
qed

lemma console_loop_ok:
  assumes "con_ok slot ds st" "i + n = length ds"
  shows "\<exists>st'. console_loop slot i n st = Inr st' \<and> con_ok slot ds st' \<and> same_on (- vga_area) (ram st) (ram st') \<and>
    con_view st' = fold (\<lambda>d. disp_on d (ram st slot)) (drop i ds) (con_view st)"
  using assms
proof (induction n arbitrary: i st)
  case (Suc n)
  have i: "i < length ds" and c: "cons st ! i = Some (ds ! i)" and sl: "slot \<in> - vga_area"
    using Suc.prems by (auto simp: con_ok_def)
  obtain s1 where s1: "con_write (ds ! i) slot 1 0 st = Inr (1, s1)" "con_ok slot ds s1" "same_on (- vga_area) (ram st) (ram s1)"
    "con_view s1 = disp_on (ds ! i) (ram st slot) (con_view st)" using con_write_one [OF Suc.prems(1)] by blast
  have r: "ram s1 slot = ram st slot" using s1(3) sl by (auto simp: same_on_def)
  have "Suc i + n = length ds" using Suc.prems(2) by simp
  from Suc.IH [OF s1(2) this] obtain s2 where s2: "console_loop slot (Suc i) n s1 = Inr s2" "con_ok slot ds s2"
    "same_on (- vga_area) (ram s1) (ram s2)" "con_view s2 = fold (\<lambda>d. disp_on d (ram s1 slot)) (drop (Suc i) ds) (con_view s1)" by blast
  have "con_view s2 = fold (\<lambda>d. disp_on d (ram st slot)) (drop i ds) (con_view st)"
    unfolding s2(4) s1(4) r using i by (simp add: Cons_nth_drop_Suc [symmetric])
  then show ?case using s1(1) s2 c same_on_trans [OF s1(3) s2(3)] by simp
qed simp

lemma console_send_ok:
  assumes "con_ok slot ds st"
  shows "\<exists>st'. console_send slot c st = Inr (0, st') \<and> con_ok slot ds st' \<and>
    same_on (- (insert slot vga_area)) (ram st) (ram st') \<and> con_view st' = fold (\<lambda>d. disp_on d c) ds (con_view st)"
proof -
  let ?s = "st\<lparr>ram := (ram st)(slot := c)\<rparr>"
  have sl: "slot \<notin> vga_area" using assms by (simp add: con_ok_def)
  have v: "tm_view ?s = tm_view st"
    using sl by (auto simp: tm_view_def vga_area_def ld16_def ld8_def)
  have cv: "con_view ?s = con_view st" unfolding con_view_def v by (simp add: kmsg_log_def sent_def)
  have ok: "con_ok slot ds ?s" using assms by (simp add: con_ok_def kmsg_ok_def serial_ok_def line_bit_def tm_ok_def)
  have n: "consoles st = length ds" using assms by (simp add: con_ok_def)
  have z: "0 + length ds = length ds" by simp
  obtain st' where st': "console_loop slot 0 (length ds) ?s = Inr st'" "con_ok slot ds st'" "same_on (- vga_area) (ram ?s) (ram st')"
    "con_view st' = fold (\<lambda>d. disp_on d (ram ?s slot)) (drop 0 ds) (con_view ?s)"
    using console_loop_ok [OF ok z] by blast
  have "same_on (- (insert slot vga_area)) (ram st) (ram st')" using st'(3) by (auto simp: same_on_def split: if_splits)
  then show ?thesis using st' n by (simp add: console_send_def cv)
qed

interpretation console: char_device "con_ok slot ds" con_view "\<lambda>c v. fold (\<lambda>d. disp_on d c) ds v" "insert slot vga_area" "send_char slot"
  for slot ds
proof unfold_locales
  fix c and st st' :: "'a io_state_scheme"
  assume ok: "con_ok slot ds st"
  then show "\<exists>st'. send_char slot c st = Inr st' \<and> con_ok slot ds st' \<and> con_view st' = fold (\<lambda>d. disp_on d c) ds (con_view st)"
    using console_send_ok [OF ok, of c] by (auto simp: send_char_def)
  show "same_on (- insert slot vga_area) (ram st) (ram st')" if "send_char slot c st = Inr st'"
    using console_send_ok [OF ok, of c] that by (auto simp: send_char_def)
qed

text \<open>
  Sending a character to the consoles terminates, if the serial line is ready again and again, and
  shows it once on each registered console, in the order of registration; the kernel memory outside the
  screen and the argument's stack slot stays as it was.
\<close>

theorem console_send_all:
  assumes "con_ok slot ds st"
  shows "\<exists>st'. console_send slot c st = Inr (0, st') \<and> con_ok slot ds st' \<and>
    same_on (- (insert slot vga_area)) (ram st) (ram st') \<and> con_view st' = fold (\<lambda>d. disp_on d c) ds (con_view st)"
  by (rule console_send_ok [OF assms])

text \<open>The consoles keep what later components add to the state.\<close>

lemma con_write_more: "con_write d buf n pos st = Inr (rc, st') \<Longrightarrow> io_state.more st' = io_state.more st"
proof (induction d buf n pos st rule: con_write.induct)
  case (1 buf n pos st)
  then show ?case
    by (auto simp: kmsg_write_def split: if_splits dest!: write_each_keeps [where f = io_state.more, rotated])
      (auto simp: kmsg_append_def)
next
  case (2 buf n pos st)
  have "io_state.more s' = io_state.more s" if "serial_out_data c s = Inr s'" for c and s s' :: "'a io_state_scheme"
    using serial_out_data_run [OF that] by (auto simp: outportb_def polled_def)
  with 2 show ?case by (auto simp: serial_write_def dest!: write_each_keeps [where f = io_state.more, rotated])
next
  case (3 buf n pos st)
  have "io_state.more (textmode_putchar c s) = io_state.more s" for c and s :: "'a io_state_scheme"
    by (simp add: textmode_putchar_def textmode_scrollup_def Let_def)
  with 3 show ?case by (auto simp: textmode_write_def dest!: write_each_keeps [where f = io_state.more, rotated])
qed

lemma console_loop_more: "console_loop slot i n st = Inr st' \<Longrightarrow> io_state.more st' = io_state.more st"
proof (induction n arbitrary: i st)
  case (Suc n)
  then obtain d rc s1 where "con_write d slot 1 0 st = Inr (rc, s1)" "console_loop slot (Suc i) n s1 = Inr st'"
    by (auto split: option.splits if_splits)
  then show ?case using Suc.IH con_write_more by metis
qed simp

lemma send_char_more: "send_char slot c st = Inr st' \<Longrightarrow> io_state.more st' = io_state.more st"
  by (auto simp: send_char_def console_send_def dest!: console_loop_more)

lemma console_dev_write_more: "console_dev_write slot buf n pos st = Inr (rc, st') \<Longrightarrow> io_state.more st' = io_state.more st"
  using write_each_keeps [where f = io_state.more, OF send_char_more] by (auto simp: console_dev_write_def)

text \<open>
  Writing a buffer to the console device shows its bytes, in order, on every registered console, if the
  buffer lies apart from the screen and from the stack slot that \<open>console_send\<close> uses.
\<close>

theorem console_dev_write_all:
  assumes "con_ok slot ds st" "{buf..<buf + n} \<inter> insert slot vga_area = {}" "n < 2147483648"
  shows "\<exists>st'. console_dev_write slot buf n pos st = Inr (int n, st') \<and> con_ok slot ds st' \<and>
    con_view st' = fold (\<lambda>c v. fold (\<lambda>d. disp_on d c) ds v) (bytes_at (ram st) buf n) (con_view st)"
  using console.write_each_ok [OF assms(1,2)] assms(3) by (auto simp: console_dev_write_def sint32_def)

text \<open>
  Sending a byte over the serial line returns exactly if the line reports at some later poll that it is
  ready; otherwise the kernel waits for ever.
\<close>

theorem serial_out_data_returns:
  "(\<exists>st'. serial_out_data c st = Inr st') \<longleftrightarrow> (\<exists>k. line_bit 0x20 st k)"
proof
  assume "\<exists>st'. serial_out_data c st = Inr st'"
  then show "\<exists>k. line_bit 0x20 st k" using serial_dead [of st c] by fastforce
next
  assume "\<exists>k. line_bit 0x20 st k"
  then obtain n where "line_bit 0x20 st n" by blast
  then obtain k where "spin serial_is_ready_to_send st = Inr (polled st (Suc k))" by (rule spin_ready)
  then show "\<exists>st'. serial_out_data c st = Inr st'" by (simp add: serial_out_data_def)
qed

section \<open>Boot\<close>

lemma device_register_io [simp]:
  "kmsg_buf (snd (device_register d st)) = kmsg_buf st" "kmsg_pos (snd (device_register d st)) = kmsg_pos st"
  "tm_priv (snd (device_register d st)) = tm_priv st" "tm_x (snd (device_register d st)) = tm_x st"
  "tm_y (snd (device_register d st)) = tm_y st"
  "cons (snd (device_register d st)) = cons st" "consoles (snd (device_register d st)) = consoles st"
  by (simp_all add: device_register_def)

text \<open>
  The start of \<open>main\<close> and of \<open>arch_early_init\<close> registers the log, the serial line and the screen as
  consoles, each ready for output, whatever the memory holds: from then on the routines above apply.
\<close>

theorem console_boot:
  assumes "length (cons st) = MAX_CONSOLES" "kmsg_pos st = 0" "tm_x st = 0" "tm_y st = 0" "serial_ok st"
    "dev_addr st KMSG_DEV \<noteq> 0" "slot \<noteq> 0" "slot \<notin> vga_area"
  shows "con_ok slot [KMSG_CON, SERIAL_CON, TM_CON]
    (snd (textmode_init (snd (x86_serial_init (snd (console_register KMSG_CON (kmsg_init (snd (console_sys_init st)))))))))"
proof -
  have c: "[a, b, c, d] ! Suc 0 = b" "[a, b, c, d] ! Suc (Suc 0) = c" for a b c d :: "con_dev option" by simp_all
  obtain w x y z where w: "cons st = [w, x, y, z]"
    using assms(1) by (auto simp: numeral_eq_Suc length_Suc_conv)
  show ?thesis
    using assms unfolding con_ok_def kmsg_ok_def serial_ok_def line_bit_def tm_ok_def
    by (simp add: outportb_def textmode_clear_def textmode_init_def x86_serial_init_def console_register_def console_sys_init_def kmsg_init_def
      tty_set_default_input_def tty_set_default_output_def serial_out_def w Let_def)
      (auto simp: less_Suc_eq)
qed

section \<open>Witnesses\<close>

text \<open>The screen and the log are registered; the line status register always reads 0x20.\<close>

definition small_console :: io_state where
  "small_console = small_screen\<lparr>hw := (\<lambda>_ _. 0x20), cons := [Some TM_CON, Some KMSG_CON, None, None], consoles := 2\<rparr>"

lemma small_console_ok: "con_ok 0x4000 [TM_CON, KMSG_CON] small_console"
proof -
  have "line_bit 0x20 (small_console\<lparr>port_log := es\<rparr>) t" for es t by (simp add: line_bit_def small_console_def)
  then have "serial_ok small_console" by (auto simp: serial_ok_def)
  moreover have "cons small_console ! i = Some ([TM_CON, KMSG_CON] ! i)" if "i < length [TM_CON, KMSG_CON]" for i
    using that by (auto simp: small_console_def less_Suc_eq)
  ultimately show ?thesis
    by (auto simp: con_ok_def kmsg_ok_def tm_ok_def small_console_def small_screen_def vga_area_def)
qed

theorem console_send_all_witness:
  "\<exists>st'. console_send 0x4000 88 small_console = Inr (0, st') \<and> con_view st' = disp_on KMSG_CON 88 (disp_on TM_CON 88 (con_view small_console))"
  using console_send_all [OF small_console_ok, of 88] by auto

theorem console_dev_write_all_witness:
  "\<exists>st'. console_dev_write 0x4000 0x1000 1 0 small_console = Inr (1, st') \<and>
     con_view st' = disp_on KMSG_CON 65 (disp_on TM_CON 65 (con_view small_console))"
  using console_dev_write_all [OF small_console_ok, of "0x1000" 1 0]
  by (auto simp: vga_area_def bytes_at_def small_console_def small_screen_ok)

theorem console_boot_witness:
  "con_ok 0x4000 [KMSG_CON, SERIAL_CON, TM_CON]
    (snd (textmode_init (snd (x86_serial_init (snd (console_register KMSG_CON (kmsg_init (snd (console_sys_init
      (small_console\<lparr>tm_y := 0\<rparr>))))))))))"
proof (rule console_boot)
  have "line_bit 0x20 (small_console\<lparr>tm_y := 0, port_log := es\<rparr>) t" for es t by (simp add: line_bit_def small_console_def)
  then show "serial_ok (small_console\<lparr>tm_y := 0\<rparr>)" by (auto simp: serial_ok_def)
qed (simp_all add: small_console_def small_screen_def vga_area_def)

end
