(* ===== verification/Tty.thy ===== *)
theory Tty
  imports Console CString
begin

text \<open>
  drivers/tty.c: four terminals, each with an input and an output device and a buffer for each direction.
  The buffers are 8192 bytes of memory that \<open>kmalloc\<close> returned; the code does not bound all its writes, so
  they are addresses in the byte memory here.
\<close>

abbreviation TTY_COUNT :: nat where "TTY_COUNT \<equiv> 4"
abbreviation TTY_IN_BUFSIZE :: nat where "TTY_IN_BUFSIZE \<equiv> 8192"
abbreviation TTY_OUT_BUFSIZE :: nat where "TTY_OUT_BUFSIZE \<equiv> 8192"

section \<open>State\<close>

record tty =
  tty_id :: nat
  tty_input :: "dev option"
  tty_output :: "dev option"
  inputbuf :: nat
  inputidx :: nat
  outputbuf :: nat
  outputidx :: nat
  selfdevice :: nat
  buffered :: bool

text \<open>
  \<open>ttys\<close> is the array of pointers to the terminals, \<open>stk_send\<close> and \<open>stk_emit\<close> are the stack slots of the
  characters that \<open>console_send\<close> and \<open>__printk_emit_tty\<close> take the address of, \<open>stk_str\<close> is the \<open>str[32]\<close>
  of the number formats.
\<close>

datatype emitter = EMIT_NOTTY | EMIT_TTY

record tty_state = io_state +
  ttys :: "tty option list"
  active_tty :: int
  printk_tty :: "nat option"
  printk_emitter :: emitter
  stk_send :: nat
  stk_emit :: nat
  stk_str :: nat

section \<open>Devices\<close>

text \<open>A call through the \<open>write\<close> or \<open>read\<close> member of a device; the members that are 0 are not checked.\<close>

fun dev_write :: "dev \<Rightarrow> nat \<Rightarrow> nat \<Rightarrow> nat \<Rightarrow> 'a tty_state_scheme \<Rightarrow> (int \<times> 'a tty_state_scheme) outcome" where
  "dev_write KMSG_DEV buf count pos st = kmsg_write (dev_addr st KMSG_DEV) buf count pos st"
| "dev_write SERIAL_DEV buf count pos st = serial_write (dev_addr st SERIAL_DEV) buf count pos st"
| "dev_write TM_DEV buf count pos st = textmode_write (dev_addr st TM_DEV) buf count pos st"
| "dev_write CONSOLE_DEV buf count pos st = console_dev_write (stk_send st) buf count pos st"
| "dev_write KEYBOARD_DEV buf count pos st = Inl (Undefined ''null write operation'')"

fun dev_read :: "dev \<Rightarrow> nat \<Rightarrow> nat \<Rightarrow> nat \<Rightarrow> 'a tty_state_scheme \<Rightarrow> (int \<times> 'a tty_state_scheme) outcome" where
  "dev_read KMSG_DEV buf count pos st = Inr (kmsg_read (dev_addr st KMSG_DEV) buf count pos st)"
| "dev_read SERIAL_DEV buf count pos st = Inr (serial_read (dev_addr st SERIAL_DEV) buf count pos st)"
| "dev_read KEYBOARD_DEV buf count pos st = (let (n, st') = kbd_read buf count pos st in Inr (int n, st'))"
| "dev_read TM_DEV buf count pos st = Inl (Undefined ''null read operation'')"
| "dev_read CONSOLE_DEV buf count pos st = Inl (Undefined ''null read operation'')"

section \<open>Terminals\<close>

definition get_tty :: "int \<Rightarrow> 'a tty_state_scheme \<Rightarrow> tty option" where
  "get_tty i st = (if i < 0 \<or> int TTY_COUNT \<le> i then None else ttys st ! nat i)"

definition get_active_tty :: "'a tty_state_scheme \<Rightarrow> tty option outcome" where
  "get_active_tty st =
     (if active_tty st = -1 then Inr None
      else if active_tty st < 0 \<or> int TTY_COUNT \<le> active_tty st then Inl (Undefined ''ttys'')
      else Inr (ttys st ! nat (active_tty st)))"

text \<open>Access to the terminal number \<open>i\<close> through a pointer to it.\<close>

definition upd_tty :: "nat \<Rightarrow> (tty \<Rightarrow> tty) \<Rightarrow> 'a tty_state_scheme \<Rightarrow> 'a tty_state_scheme" where
  "upd_tty i f st = st\<lparr>ttys := (ttys st)[i := map_option f (ttys st ! i)]\<rparr>"

definition with_tty :: "nat \<Rightarrow> 'a tty_state_scheme \<Rightarrow> (tty \<Rightarrow> 'b outcome) \<Rightarrow> 'b outcome" where
  "with_tty i st f = (case ttys st ! i of None \<Rightarrow> Inl (Undefined ''null tty'') | Some t \<Rightarrow> f t)"

definition tty_set_input :: "nat \<Rightarrow> dev option \<Rightarrow> 'a tty_state_scheme \<Rightarrow> 'a tty_state_scheme outcome" where
  "tty_set_input i d st = with_tty i st (\<lambda>t. Inr (upd_tty i (\<lambda>t. t\<lparr>tty_input := d\<rparr>) st))"

definition tty_set_output :: "nat \<Rightarrow> dev option \<Rightarrow> 'a tty_state_scheme \<Rightarrow> 'a tty_state_scheme outcome" where
  "tty_set_output i d st = with_tty i st (\<lambda>t. Inr (upd_tty i (\<lambda>t. t\<lparr>tty_output := d\<rparr>) st))"

definition tty_set_buffered :: "nat \<Rightarrow> bool \<Rightarrow> 'a tty_state_scheme \<Rightarrow> 'a tty_state_scheme outcome" where
  "tty_set_buffered i b st = with_tty i st (\<lambda>t. Inr (upd_tty i (\<lambda>t. t\<lparr>buffered := b\<rparr>) st))"

text \<open>\<open>for_each_tty\<close> visits one terminal less than there are.\<close>

primrec tty_override_loop :: "nat \<Rightarrow> 'a tty_state_scheme \<Rightarrow> 'a tty_state_scheme outcome" where
  "tty_override_loop 0 st = Inr st"
| "tty_override_loop (Suc i) st =
     bindR (tty_override_loop i st) (\<lambda>st1. bindR (tty_set_input i (default_input st1) st1) (\<lambda>st2.
       tty_set_output i (default_output st2) st2))"

definition tty_override_all_defaults :: "'a tty_state_scheme \<Rightarrow> 'a tty_state_scheme outcome" where
  "tty_override_all_defaults st = tty_override_loop (TTY_COUNT - 1) st"

definition tty_flush_output :: "nat \<Rightarrow> 'a tty_state_scheme \<Rightarrow> 'a tty_state_scheme outcome" where
  "tty_flush_output i st = with_tty i st (\<lambda>t. case tty_output t of
       None \<Rightarrow> Inl (Undefined ''null output device'')
     | Some d \<Rightarrow> bindR (dev_write d (outputbuf t) (outputidx t) 0 st)
         (\<lambda>(rc, st'). Inr (upd_tty i (\<lambda>t. t\<lparr>outputidx := 0\<rparr>) st')))"

text \<open>The body of the loop in \<open>tty_output_write\<close>.\<close>

definition tty_put :: "nat \<Rightarrow> u8 \<Rightarrow> 'a tty_state_scheme \<Rightarrow> 'a tty_state_scheme outcome" where
  "tty_put i c st =
     bindR (if c = 10 then tty_flush_output i st else Inr st)
       (\<lambda>st1. with_tty i st1 (\<lambda>t. Inr (upd_tty i (\<lambda>t. t\<lparr>outputidx := outputidx t + 1\<rparr>)
          (st1\<lparr>ram := (ram st1)(outputbuf t + outputidx t := c)\<rparr>))))"

definition tty_output_write :: "nat \<Rightarrow> nat \<Rightarrow> nat \<Rightarrow> nat \<Rightarrow> 'a tty_state_scheme \<Rightarrow> (int \<times> 'a tty_state_scheme) outcome" where
  "tty_output_write i buf count pos st = with_tty i st (\<lambda>t.
     if tty_output t = None then Inr (- ESRCH, st)
     else bindR (if TTY_OUT_BUFSIZE < add32 (outputidx t) count then tty_flush_output i st else Inr st)
       (\<lambda>st1. bindR (write_each (tty_put i) buf count st1)
         (\<lambda>st2. with_tty i st2 (\<lambda>t2. bindR (if buffered t2 then Inr st2 else tty_flush_output i st2)
           (\<lambda>st3. Inr (sint32 count, st3))))))"

definition tty_output_read :: "nat \<Rightarrow> nat \<Rightarrow> nat \<Rightarrow> nat \<Rightarrow> 'a tty_state_scheme \<Rightarrow> (int \<times> 'a tty_state_scheme) outcome" where
  "tty_output_read i buf count pos st = with_tty i st (\<lambda>t.
     if tty_output t = None then Inr (- ESRCH, st)
     else if count > outputidx t
     then Inr (int (outputidx t), upd_tty i (\<lambda>t. t\<lparr>outputidx := 0\<rparr>) (st\<lparr>ram := memcpy buf (outputbuf t) (outputidx t) (ram st)\<rparr>))
     else Inr (sint32 count, upd_tty i (\<lambda>t. t\<lparr>outputidx := outputidx t - count\<rparr>) (st\<lparr>ram := memcpy buf (outputbuf t) count (ram st)\<rparr>)))"

text \<open>After the waiting input the device reads into the start of \<open>buf\<close> again, its count is not used.\<close>

definition tty_input_read :: "nat \<Rightarrow> nat \<Rightarrow> nat \<Rightarrow> nat \<Rightarrow> 'a tty_state_scheme \<Rightarrow> (int \<times> 'a tty_state_scheme) outcome" where
  "tty_input_read i buf count pos st = with_tty i st (\<lambda>t. case tty_input t of
       None \<Rightarrow> Inr (- ESRCH, st)
     | Some d \<Rightarrow>
         if count > inputidx t
         then let st1 = upd_tty i (\<lambda>t. t\<lparr>inputidx := 0\<rparr>) (st\<lparr>ram := memcpy buf (inputbuf t) (inputidx t) (ram st)\<rparr>)
              in bindR (dev_read d buf (count - 0) 0 st1) (\<lambda>(rc, st2). Inr (sint32 count, st2))
         else Inr (sint32 count, upd_tty i (\<lambda>t. t\<lparr>inputidx := inputidx t - count\<rparr>)
                (st\<lparr>ram := memcpy buf (inputbuf t) count (ram st)\<rparr>)))"

definition tty_flush :: "nat \<Rightarrow> 'a tty_state_scheme \<Rightarrow> (int \<times> 'a tty_state_scheme) outcome" where
  "tty_flush i st = bindR (tty_flush_output i st) (\<lambda>st'. Inr (0, st'))"

text \<open>
  \<open>write_tty_char\<close> hands the terminal's own device to the output device's routine: the log only tests it for
  null, the screen takes the private data of the terminal for its own.
\<close>

definition write_tty_char :: "int \<Rightarrow> u8 \<Rightarrow> 'a tty_state_scheme \<Rightarrow> 'a tty_state_scheme outcome" where
  "write_tty_char i c st = (case get_tty i st of None \<Rightarrow> Inr st
     | Some t \<Rightarrow> (case tty_output t of None \<Rightarrow> Inr st
        | Some d \<Rightarrow>
            let st1 = st\<lparr>ram := (ram st)(stk_emit st := c)\<rparr>
            in if d = TM_DEV then Inl (Undefined ''private data of another device'')
               else if d = KMSG_DEV
               then bindR (kmsg_write (selfdevice t) (stk_emit st) 1 0 st1) (\<lambda>(rc, st'). Inr st')
               else bindR (dev_write d (stk_emit st) 1 0 st1) (\<lambda>(rc, st'). Inr st')))"

section \<open>A terminal on the consoles\<close>

abbreviation disp_all :: "con_dev list \<Rightarrow> u8 \<Rightarrow> shown \<Rightarrow> shown" where
  "disp_all ds c v \<equiv> fold (\<lambda>d. disp_on d c) ds v"

text \<open>The memory the consoles write, and the output buffer of a terminal, which lies apart from it.\<close>

definition con_area :: "'a tty_state_scheme \<Rightarrow> nat set" where
  "con_area st = insert (stk_send st) vga_area"

definition out_area :: "tty \<Rightarrow> nat set" where
  "out_area t = {outputbuf t..<outputbuf t + TTY_OUT_BUFSIZE}"

definition tty_ok :: "con_dev list \<Rightarrow> nat \<Rightarrow> tty \<Rightarrow> 'a tty_state_scheme \<Rightarrow> bool" where
  "tty_ok ds i t st \<longleftrightarrow> con_ok (stk_send st) ds st \<and> i < length (ttys st) \<and> ttys st ! i = Some t \<and>
     tty_output t = Some CONSOLE_DEV \<and> outputidx t \<le> TTY_OUT_BUFSIZE \<and> out_area t \<inter> con_area st = {}"

definition pending :: "tty \<Rightarrow> 'a tty_state_scheme \<Rightarrow> u8 list" where
  "pending t st = bytes_at (ram st) (outputbuf t) (outputidx t)"

text \<open>What the consoles will show once the pending output is flushed.\<close>

definition tty_view :: "con_dev list \<Rightarrow> tty \<Rightarrow> 'a tty_state_scheme \<Rightarrow> shown" where
  "tty_view ds t st = fold (disp_all ds) (pending t st) (con_view st)"

text \<open>What output through a terminal keeps.\<close>

definition keeps :: "'a tty_state_scheme \<Rightarrow> 'a tty_state_scheme \<Rightarrow> bool" where
  "keeps st st' \<longleftrightarrow> stk_send st' = stk_send st \<and> stk_emit st' = stk_emit st \<and> stk_str st' = stk_str st \<and>
     printk_tty st' = printk_tty st \<and> printk_emitter st' = printk_emitter st"

lemma tty_keeps_trans: "keeps s1 s2 \<Longrightarrow> keeps s2 s3 \<Longrightarrow> keeps s1 s3"
  by (simp add: keeps_def)

lemma tty_keeps_refl [simp]: "keeps s s" "keeps s (upd_tty i f s)" "keeps s (s\<lparr>ram := m\<rparr>)"
  by (simp_all add: keeps_def upd_tty_def)

lemma keeps_area: "keeps s s' \<Longrightarrow> con_area s' = con_area s"
  by (simp add: keeps_def con_area_def)

lemma tty_sels:
  assumes "io_state.more st' = io_state.more (st :: 'a tty_state_scheme)"
  shows "ttys st' = ttys st" "stk_send st' = stk_send st" "stk_emit st' = stk_emit st" "stk_str st' = stk_str st"
    "printk_tty st' = printk_tty st" "printk_emitter st' = printk_emitter st" "active_tty st' = active_tty st"
  using assms by (cases st; cases st'; simp)+

lemma upd_tty_sel [simp]:
  "ram (upd_tty i f st) = ram st" "con_ok slot ds (upd_tty i f st) = con_ok slot ds st" "con_view (upd_tty i f st) = con_view st"
  "stk_send (upd_tty i f st) = stk_send st" "stk_emit (upd_tty i f st) = stk_emit st" "stk_str (upd_tty i f st) = stk_str st"
  "printk_tty (upd_tty i f st) = printk_tty st" "printk_emitter (upd_tty i f st) = printk_emitter st"
  "ttys (upd_tty i f st) = (ttys st)[i := map_option f (ttys st ! i)]"
  by (simp_all add: upd_tty_def con_ok_def kmsg_ok_def serial_ok_def line_bit_def tm_ok_def con_view_def kmsg_log_def sent_def tm_view_def)

lemma con_ok_ram: "con_ok slot ds (st\<lparr>ram := m\<rparr>) = con_ok slot ds st"
  by (simp add: con_ok_def kmsg_ok_def serial_ok_def line_bit_def tm_ok_def)

lemma con_view_ram:
  assumes "same_on vga_area (ram st) m"
  shows "con_view (st\<lparr>ram := m\<rparr>) = con_view st"
proof -
  have "ld16 m (VGA + 2 * i) = ld16 (ram st) (VGA + 2 * i)" if "i < 2160" for i
    by (rule ld16_frame [OF same_on_mono [OF assms]]) (use that in \<open>auto simp: vga_area_def\<close>)
  then have "tm_view (st\<lparr>ram := m\<rparr>) = tm_view st" by (simp add: tm_view_def)
  then show ?thesis by (simp add: con_view_def kmsg_log_def sent_def)
qed

lemma flush_ok:
  assumes "tty_ok ds i t st"
  defines "t' \<equiv> t\<lparr>outputidx := 0\<rparr>"
  shows "\<exists>st'. tty_flush_output i st = Inr st' \<and> tty_ok ds i t' st' \<and> same_on (- con_area st) (ram st) (ram st') \<and>
    con_view st' = tty_view ds t st \<and> keeps st st' \<and> ttys st' = (ttys st)[i := Some t']"
proof -
  have t: "con_ok (stk_send st) ds st" "i < length (ttys st)" "ttys st ! i = Some t" "tty_output t = Some CONSOLE_DEV"
    "outputidx t \<le> TTY_OUT_BUFSIZE" "out_area t \<inter> con_area st = {}"
    using assms(1) by (auto simp: tty_ok_def)
  have a: "{outputbuf t..<outputbuf t + outputidx t} \<inter> insert (stk_send st) vga_area = {}"
    using t(5,6) by (fastforce simp: out_area_def con_area_def)
  obtain s1 where w: "write_each (send_char (stk_send st)) (outputbuf t) (outputidx t) st = Inr s1" "con_ok (stk_send st) ds s1"
    "con_view s1 = tty_view ds t st"
    using console.write_each_ok [OF t(1) a] unfolding tty_view_def pending_def by blast
  have m: "same_on (- con_area st) (ram st) (ram s1)"
    using console.write_each_area [OF t(1) w(1)] by (simp add: con_area_def)
  have more: "io_state.more s1 = io_state.more st" by (rule write_each_keeps [OF send_char_more w(1)])
  note sel = tty_sels [OF more]
  let ?s = "upd_tty i (\<lambda>t. t\<lparr>outputidx := 0\<rparr>) s1"
  have f: "tty_flush_output i st = Inr ?s"
    using t by (simp add: tty_flush_output_def with_tty_def console_dev_write_def w(1))
  have tt: "ttys ?s = (ttys st)[i := Some t']" using t(3) by (simp add: sel t'_def)
  have "con_area ?s = con_area st" by (simp add: con_area_def sel)
  moreover have "out_area t' = out_area t" by (simp add: out_area_def t'_def)
  ultimately have "tty_ok ds i t' ?s"
    unfolding tty_ok_def tt using t w(2) by (simp add: sel) (simp add: t'_def)
  then show ?thesis using f m w tt by (intro exI [of _ ?s]) (simp add: sel keeps_def)
qed

lemma tty_put_ok:
  assumes "tty_ok ds i t st" "outputidx t < TTY_OUT_BUFSIZE"
  shows "\<exists>st' t'. tty_put i c st = Inr st' \<and> tty_ok ds i t' st' \<and> tty_view ds t' st' = disp_all ds c (tty_view ds t st) \<and>
    outputidx t' \<le> outputidx t + 1 \<and> outputbuf t' = outputbuf t \<and> buffered t' = buffered t \<and> selfdevice t' = selfdevice t \<and>
    same_on (- (con_area st \<union> out_area t)) (ram st) (ram st') \<and> keeps st st'"
proof -
  have step: "\<exists>st' t'. with_tty i s (\<lambda>t. Inr (upd_tty i (\<lambda>t. t\<lparr>outputidx := outputidx t + 1\<rparr>)
          (s\<lparr>ram := (ram s)(outputbuf t + outputidx t := c)\<rparr>))) = Inr st' \<and> tty_ok ds i t' st' \<and>
      tty_view ds t' st' = disp_all ds c (tty_view ds u s) \<and> t' = u\<lparr>outputidx := outputidx u + 1\<rparr> \<and>
      same_on (- out_area u) (ram s) (ram st') \<and> keeps s st'"
    if ok: "tty_ok ds i u s" and idx: "outputidx u < TTY_OUT_BUFSIZE" for u and s :: "'a tty_state_scheme"
  proof -
    let ?m = "(ram s)(outputbuf u + outputidx u := c)" and ?u = "u\<lparr>outputidx := outputidx u + 1\<rparr>"
    let ?s = "upd_tty i (\<lambda>t. t\<lparr>outputidx := outputidx t + 1\<rparr>) (s\<lparr>ram := ?m\<rparr>)"
    have u: "con_ok (stk_send s) ds s" "i < length (ttys s)" "ttys s ! i = Some u" "tty_output u = Some CONSOLE_DEV"
      "out_area u \<inter> con_area s = {}"
      using ok by (auto simp: tty_ok_def)
    have o: "outputbuf u + outputidx u \<in> out_area u" using idx by (simp add: out_area_def)
    then have v: "same_on vga_area (ram s) ?m" using u(5) by (auto simp: same_on_def con_area_def)
    have "pending ?u ?s = pending u s @ [c]"
      by (simp add: pending_def bytes_at_def)
    then have "tty_view ds ?u ?s = disp_all ds c (tty_view ds u s)"
      using con_view_ram [OF v] by (simp add: tty_view_def)
    moreover have "tty_ok ds i ?u ?s"
      using u idx by (simp add: tty_ok_def con_ok_ram con_area_def out_area_def)
    ultimately show ?thesis using u(3) o by (intro exI [of _ ?s] exI [of _ ?u]) (auto simp: with_tty_def same_on_def keeps_def)
  qed
  show ?thesis
  proof (cases "c = 10")
    case True
    let ?t = "t\<lparr>outputidx := 0\<rparr>"
    obtain s1 where s1: "tty_flush_output i st = Inr s1" "tty_ok ds i ?t s1" "same_on (- con_area st) (ram st) (ram s1)"
      "con_view s1 = tty_view ds t st" "keeps st s1"
      using flush_ok [OF assms(1)] by blast
    have "outputidx ?t < TTY_OUT_BUFSIZE" by simp
    from step [OF s1(2) this] obtain s2 where s2: "with_tty i s1 (\<lambda>t. Inr (upd_tty i (\<lambda>t. t\<lparr>outputidx := outputidx t + 1\<rparr>)
          (s1\<lparr>ram := (ram s1)(outputbuf t + outputidx t := c)\<rparr>))) = Inr s2"
      "tty_ok ds i (?t\<lparr>outputidx := outputidx ?t + 1\<rparr>) s2"
      "tty_view ds (?t\<lparr>outputidx := outputidx ?t + 1\<rparr>) s2 = disp_all ds c (tty_view ds ?t s1)"
      "same_on (- out_area ?t) (ram s1) (ram s2)" "keeps s1 s2" by blast
    have "tty_view ds ?t s1 = tty_view ds t st" using s1(4) by (simp add: tty_view_def pending_def bytes_at_def)
    moreover have "same_on (- (con_area st \<union> out_area t)) (ram st) (ram s2)"
      using s1(3) s2(4) by (auto simp: same_on_def out_area_def)
    ultimately show ?thesis using s1 s2 True tty_keeps_trans [OF s1(5) s2(5)] by (intro exI [of _ s2] exI [of _ "?t\<lparr>outputidx := outputidx ?t + 1\<rparr>"]) (simp add: tty_put_def)
  next
    case False
    obtain s1 where "with_tty i st (\<lambda>t. Inr (upd_tty i (\<lambda>t. t\<lparr>outputidx := outputidx t + 1\<rparr>)
          (st\<lparr>ram := (ram st)(outputbuf t + outputidx t := c)\<rparr>))) = Inr s1"
      "tty_ok ds i (t\<lparr>outputidx := outputidx t + 1\<rparr>) s1"
      "tty_view ds (t\<lparr>outputidx := outputidx t + 1\<rparr>) s1 = disp_all ds c (tty_view ds t st)"
      "same_on (- out_area t) (ram st) (ram s1)" "keeps st s1"
      using step [OF assms] by blast
    then show ?thesis using False
      by (intro exI [of _ s1] exI [of _ "t\<lparr>outputidx := outputidx t + 1\<rparr>"]) (auto simp: tty_put_def same_on_def)
  qed
qed

lemma tty_puts_ok:
  assumes "tty_ok ds i t st" "outputidx t + n \<le> TTY_OUT_BUFSIZE" "{buf..<buf + n} \<inter> (con_area st \<union> out_area t) = {}"
  shows "\<exists>st' t'. write_each (tty_put i) buf n st = Inr st' \<and> tty_ok ds i t' st' \<and>
    tty_view ds t' st' = fold (disp_all ds) (bytes_at (ram st) buf n) (tty_view ds t st) \<and>
    outputbuf t' = outputbuf t \<and> buffered t' = buffered t \<and> selfdevice t' = selfdevice t \<and>
    same_on (- (con_area st \<union> out_area t)) (ram st) (ram st') \<and> keeps st st'"
  using assms
proof (induction n arbitrary: buf st t)
  case 0
  then show ?case by (intro exI [of _ st] exI [of _ t]) (simp add: bytes_at_def)
next
  case (Suc n)
  let ?c = "ram st buf" and ?A = "con_area st \<union> out_area t"
  have "outputidx t < TTY_OUT_BUFSIZE" using Suc.prems(2) by simp
  from tty_put_ok [OF Suc.prems(1) this, of ?c] obtain s1 t1 where s1: "tty_put i ?c st = Inr s1" "tty_ok ds i t1 s1"
    "tty_view ds t1 s1 = disp_all ds ?c (tty_view ds t st)" "outputidx t1 \<le> outputidx t + 1" "outputbuf t1 = outputbuf t"
    "buffered t1 = buffered t" "selfdevice t1 = selfdevice t" "same_on (- ?A) (ram st) (ram s1)" "keeps st s1" by blast
  have A: "con_area s1 \<union> out_area t1 = ?A" using keeps_area [OF s1(9)] s1(5) by (simp add: out_area_def)
  have sub: "{Suc buf..<Suc buf + n} \<subseteq> {buf..<buf + Suc n}" by auto
  then have out: "{Suc buf..<Suc buf + n} \<inter> (con_area s1 \<union> out_area t1) = {}" unfolding A using Suc.prems(3) by blast
  have "outputidx t1 + n \<le> TTY_OUT_BUFSIZE" using s1(4) Suc.prems(2) by simp
  from Suc.IH [OF s1(2) this out] obtain s2 t2 where s2: "write_each (tty_put i) (Suc buf) n s1 = Inr s2" "tty_ok ds i t2 s2"
    "tty_view ds t2 s2 = fold (disp_all ds) (bytes_at (ram s1) (Suc buf) n) (tty_view ds t1 s1)" "outputbuf t2 = outputbuf t1"
    "buffered t2 = buffered t1" "selfdevice t2 = selfdevice t1" "same_on (- ?A) (ram s1) (ram s2)" "keeps s1 s2" unfolding A by blast
  have "same_on {Suc buf..<Suc buf + n} (ram st) (ram s1)"
    by (rule same_on_mono [OF s1(8)]) (use out in \<open>auto simp: A\<close>)
  then have b: "bytes_at (ram s1) (Suc buf) n = bytes_at (ram st) (Suc buf) n" by (rule bytes_at_frame)
  have c: "bytes_at (ram st) buf (Suc n) = ?c # bytes_at (ram st) (Suc buf) n"
    using upt_conv_Cons [of buf "buf + Suc n"] by (simp add: bytes_at_def del: upt_Suc)
  have "tty_view ds t2 s2 = fold (disp_all ds) (bytes_at (ram st) buf (Suc n)) (tty_view ds t st)"
    unfolding s2(3) b s1(3) c by simp
  then show ?case using s1 s2 tty_keeps_trans [OF s1(9) s2(8)] same_on_trans [OF s1(8) s2(7)]
    by (intro exI [of _ s2] exI [of _ t2]) simp
qed

lemma tty_write_ok:
  assumes "tty_ok ds i t st" "n \<le> TTY_OUT_BUFSIZE" "{buf..<buf + n} \<inter> (con_area st \<union> out_area t) = {}"
  shows "\<exists>st' t'. tty_output_write i buf n pos st = Inr (int n, st') \<and> tty_ok ds i t' st' \<and>
    tty_view ds t' st' = fold (disp_all ds) (bytes_at (ram st) buf n) (tty_view ds t st) \<and>
    outputbuf t' = outputbuf t \<and> buffered t' = buffered t \<and> selfdevice t' = selfdevice t \<and> (\<not> buffered t \<longrightarrow> outputidx t' = 0) \<and>
    same_on (- (con_area st \<union> out_area t)) (ram st) (ram st') \<and> keeps st st'"
proof -
  let ?A = "con_area st \<union> out_area t"
  have t: "ttys st ! i = Some t" "tty_output t = Some CONSOLE_DEV" "outputidx t \<le> TTY_OUT_BUFSIZE" using assms(1) by (auto simp: tty_ok_def)
  obtain s1 t1 where s1: "(if TTY_OUT_BUFSIZE < add32 (outputidx t) n then tty_flush_output i st else Inr st) = Inr s1"
    "tty_ok ds i t1 s1" "tty_view ds t1 s1 = tty_view ds t st" "outputidx t1 + n \<le> TTY_OUT_BUFSIZE" "outputbuf t1 = outputbuf t"
    "buffered t1 = buffered t" "selfdevice t1 = selfdevice t" "same_on (- ?A) (ram st) (ram s1)" "keeps st s1"
  proof (cases "TTY_OUT_BUFSIZE < outputidx t + n")
    case True
    obtain s1 where f: "tty_flush_output i st = Inr s1" "tty_ok ds i (t\<lparr>outputidx := 0\<rparr>) s1" "same_on (- con_area st) (ram st) (ram s1)"
      "con_view s1 = tty_view ds t st" "keeps st s1" using flush_ok [OF assms(1)] by blast
    show ?thesis
      by (rule that [of s1 "t\<lparr>outputidx := 0\<rparr>"])
        (use True f assms(2) t(3) in \<open>auto simp: add32_small tty_view_def pending_def bytes_at_def same_on_def\<close>)
  next
    case False
    show ?thesis by (rule that [of st t]) (use False assms t(3) in \<open>auto simp: add32_small\<close>)
  qed
  have A: "con_area s1 \<union> out_area t1 = ?A" using keeps_area [OF s1(9)] s1(5) by (simp add: out_area_def)
  have b: "bytes_at (ram s1) buf n = bytes_at (ram st) buf n"
    by (rule bytes_at_frame, rule same_on_mono [OF s1(8)]) (use assms(3) in blast)
  have "{buf..<buf + n} \<inter> (con_area s1 \<union> out_area t1) = {}" using assms(3) A by simp
  note w = tty_puts_ok [OF s1(2,4) this, unfolded A b s1(3)]
  obtain s2 t2 where s2: "write_each (tty_put i) buf n s1 = Inr s2" "tty_ok ds i t2 s2"
    "tty_view ds t2 s2 = fold (disp_all ds) (bytes_at (ram st) buf n) (tty_view ds t st)" "outputbuf t2 = outputbuf t1"
    "buffered t2 = buffered t1" "selfdevice t2 = selfdevice t1" "same_on (- ?A) (ram s1) (ram s2)" "keeps s1 s2"
    using w by (elim exE conjE) (rule that)
  have t2: "ttys s2 ! i = Some t2" using s2(2) by (auto simp: tty_ok_def)
  have sint: "sint32 n = int n" using assms(2) by (simp add: sint32_def)
  have A2: "con_area s2 = con_area st" using keeps_area [OF tty_keeps_trans [OF s1(9) s2(8)]] .
  show ?thesis
  proof (cases "buffered t")
    case True
    then show ?thesis using t t2 s1 s2 sint tty_keeps_trans [OF s1(9) s2(8)] same_on_trans [OF s1(8) s2(7)]
      by (intro exI [of _ s2] exI [of _ t2]) (simp add: tty_output_write_def with_tty_def)
  next
    case False
    obtain s3 where s3: "tty_flush_output i s2 = Inr s3" "tty_ok ds i (t2\<lparr>outputidx := 0\<rparr>) s3" "same_on (- con_area s2) (ram s2) (ram s3)"
      "con_view s3 = tty_view ds t2 s2" "keeps s2 s3" using flush_ok [OF s2(2)] by blast
    have "same_on (- ?A) (ram s2) (ram s3)" by (rule same_on_mono [OF s3(3)]) (auto simp: A2)
    moreover have "tty_view ds (t2\<lparr>outputidx := 0\<rparr>) s3 = tty_view ds t2 s2"
      using s3(4) by (simp add: tty_view_def pending_def bytes_at_def)
    ultimately show ?thesis
      using False t t2 s1 s2 s3 sint tty_keeps_trans [OF tty_keeps_trans [OF s1(9) s2(8)] s3(5)] same_on_trans [OF same_on_trans [OF s1(8) s2(7)]]
      by (intro exI [of _ s3] exI [of _ "t2\<lparr>outputidx := 0\<rparr>"]) (simp add: tty_output_write_def with_tty_def)
  qed
qed

end
