(* ===== verification/Printk.thy ===== *)
theory Printk
  imports Tty Itoa
begin

text \<open>
  kernel/printk.c: formatted output through one of two emitters, to the consoles or to a terminal; and the
  routines of drivers/tty.c that print.
\<close>

section \<open>The code\<close>

text \<open>\<open>lit\<close> is where the linker put the string literals, \<open>sched_ticks\<close> the last tick count, \<open>arch_ticks\<close> the timer.\<close>

record printk_state = tty_state +
  lit :: "string \<Rightarrow> nat"
  sched_ticks :: nat
  arch_ticks :: nat

definition emit_notty :: "u8 \<Rightarrow> 'a tty_state_scheme \<Rightarrow> 'a tty_state_scheme outcome" where
  "emit_notty c st =
     bindR (if c \<noteq> 0 then send_char (stk_send st) c st else Inr st)
       (\<lambda>st1. if c = 10 then send_char (stk_send st1) 13 st1 else Inr st1)"

text \<open>\<open>__printk_emit_tty\<close> calls itself once, for the carriage return; \<open>again\<close> is that call.\<close>

definition emit_tty_step :: "(u8 \<Rightarrow> 'a tty_state_scheme \<Rightarrow> 'a tty_state_scheme outcome) \<Rightarrow>
    u8 \<Rightarrow> 'a tty_state_scheme \<Rightarrow> 'a tty_state_scheme outcome" where
  "emit_tty_step again c st = (case printk_tty st of
       None \<Rightarrow> Inl (Undefined ''null tty'')
     | Some i \<Rightarrow> with_tty i st (\<lambda>t.
         if selfdevice t = 0 then Inl (Undefined ''null device'')
         else bindR (tty_output_write i (stk_emit st) 1 0 (st\<lparr>ram := (ram st)(stk_emit st := c)\<rparr>))
           (\<lambda>(rc, st'). if c = 10 then again 13 st' else Inr st')))"

primrec emit_tty_fuel :: "nat \<Rightarrow> u8 \<Rightarrow> 'a tty_state_scheme \<Rightarrow> 'a tty_state_scheme outcome" where
  "emit_tty_fuel 0 c st = Inl Fuel"
| "emit_tty_fuel (Suc n) c st = emit_tty_step (emit_tty_fuel n) c st"

definition emit_tty :: "u8 \<Rightarrow> 'a tty_state_scheme \<Rightarrow> 'a tty_state_scheme outcome" where
  "emit_tty = emit_tty_fuel 2"

definition emit :: "u8 \<Rightarrow> 'a tty_state_scheme \<Rightarrow> 'a tty_state_scheme outcome" where
  "emit c st = (case printk_emitter st of EMIT_NOTTY \<Rightarrow> emit_notty c st | EMIT_TTY \<Rightarrow> emit_tty c st)"

text \<open>
  The two loops call \<open>strlen\<close> in every turn, over memory that the output may change; their fuel bounds the
  number of turns. \<open>put\<close> is the emitter.
\<close>

primrec emit_str_loop :: "(u8 \<Rightarrow> 'a tty_state_scheme \<Rightarrow> 'a tty_state_scheme outcome) \<Rightarrow> nat \<Rightarrow> nat \<Rightarrow> nat \<Rightarrow>
    'a tty_state_scheme \<Rightarrow> 'a tty_state_scheme outcome" where
  "emit_str_loop putc 0 s i st = Inl Fuel"
| "emit_str_loop putc (Suc n) s i st = (case strlen (ram st) s of
       None \<Rightarrow> Inl Hang
     | Some l \<Rightarrow> if i < l then bindR (putc (ram st (s + i)) st) (emit_str_loop putc n s (i + 1)) else Inr st)"

definition emit_str :: "(u8 \<Rightarrow> 'a tty_state_scheme \<Rightarrow> 'a tty_state_scheme outcome) \<Rightarrow> nat \<Rightarrow>
    'a tty_state_scheme \<Rightarrow> 'a tty_state_scheme outcome" where
  "emit_str putc s st = emit_str_loop putc W32 s 0 st"

text \<open>\<open>char str[32] = {0}; itoa(c, base, str); printk_emit(str);\<close>\<close>

definition emit_num :: "(u8 \<Rightarrow> 'a tty_state_scheme \<Rightarrow> 'a tty_state_scheme outcome) \<Rightarrow> nat \<Rightarrow> nat \<Rightarrow>
    'a tty_state_scheme \<Rightarrow> 'a tty_state_scheme outcome" where
  "emit_num putc c base st =
     bindR (itoa c base (stk_str st) (memset (stk_str st) 0 32 (ram st)))
       (\<lambda>m. emit_str putc (stk_str st) (st\<lparr>ram := m\<rparr>))"

text \<open>
  The loop of \<open>vprintk\<close>. \<open>ap\<close> are the 32-bit arguments that \<open>va_arg\<close> takes one by one; taking one more than
  there are is undefined.
\<close>

fun va_arg :: "nat list \<Rightarrow> (nat \<Rightarrow> nat list \<Rightarrow> 'b outcome) \<Rightarrow> 'b outcome" where
  "va_arg [] f = Inl (Undefined ''va_arg'')"
| "va_arg (a # ap) f = f a ap"

primrec vprintk_loop :: "(u8 \<Rightarrow> 'a tty_state_scheme \<Rightarrow> 'a tty_state_scheme outcome) \<Rightarrow> nat \<Rightarrow> nat \<Rightarrow> nat \<Rightarrow> nat list \<Rightarrow>
    'a tty_state_scheme \<Rightarrow> 'a tty_state_scheme outcome" where
  "vprintk_loop putc 0 fmt i ap st = Inl Fuel"
| "vprintk_loop putc (Suc n) fmt i ap st = (case strlen (ram st) fmt of
       None \<Rightarrow> Inl Hang
     | Some l \<Rightarrow>
         if \<not> i < l then Inr st
         else if ram st (fmt + i) = 37
         then if ram st (fmt + i + 1) = 115
              then va_arg ap (\<lambda>s ap'. bindR (emit_str putc s st) (vprintk_loop putc n fmt (i + 2) ap'))
              else if ram st (fmt + i + 1) = 100
              then va_arg ap (\<lambda>c ap'. bindR (emit_num putc c 10 st) (vprintk_loop putc n fmt (i + 2) ap'))
              else if ram st (fmt + i + 1) = 120
              then va_arg ap (\<lambda>c ap'. bindR (emit_num putc c 16 st) (vprintk_loop putc n fmt (i + 2) ap'))
              else if ram st (fmt + i + 1) = 99
              then va_arg ap (\<lambda>c ap'. bindR (putc (of_nat c) st) (vprintk_loop putc n fmt (i + 2) ap'))
              else vprintk_loop putc n fmt (i + 1) ap st
         else bindR (putc (ram st (fmt + i)) st) (vprintk_loop putc n fmt (i + 1) ap))"

definition vprintk :: "nat \<Rightarrow> nat list \<Rightarrow> 'a tty_state_scheme \<Rightarrow> 'a tty_state_scheme outcome" where
  "vprintk fmt ap st = vprintk_loop emit W32 fmt 0 ap st"

definition printk_emit :: "nat \<Rightarrow> 'a tty_state_scheme \<Rightarrow> 'a tty_state_scheme outcome" where
  "printk_emit s st = emit_str emit s st"

primrec print_zeros :: "nat \<Rightarrow> 'a printk_state_scheme \<Rightarrow> 'a printk_state_scheme outcome" where
  "print_zeros 0 st = Inr st"
| "print_zeros (Suc n) st = bindR (vprintk (lit st ''0'') [] st) (print_zeros n)"

definition printk_ticks :: "'a printk_state_scheme \<Rightarrow> 'a printk_state_scheme outcome" where
  "printk_ticks st =
     (let str = stk_str st + 32
      in bindR (vprintk (lit st ''['') [] (st\<lparr>ram := memset str 0 32 (ram st)\<rparr>)) (\<lambda>st1.
         let st2 = st1\<lparr>sched_ticks := arch_ticks st1\<rparr>
         in bindR (itoa (sched_ticks st2) 10 str (ram st2)) (\<lambda>m.
            case strlen m str of None \<Rightarrow> Inl Hang
            | Some l \<Rightarrow> bindR (print_zeros (6 - l) (st2\<lparr>ram := m\<rparr>)) (\<lambda>st3.
                bindR (vprintk str [] st3) (\<lambda>st4. vprintk (lit st4 ''] '') [] st4)))))"

definition printk :: "nat \<Rightarrow> nat list \<Rightarrow> 'a printk_state_scheme \<Rightarrow> 'a printk_state_scheme outcome" where
  "printk fmt ap st = bindR (printk_ticks st) (vprintk fmt ap)"

text \<open>\<open>panic\<close> prints and spins.\<close>

definition panic :: "nat \<Rightarrow> nat list \<Rightarrow> 'a printk_state_scheme \<Rightarrow> 'b outcome" where
  "panic fmt ap st =
     bindR (printk (lit st ''Kernel panic: '') [] st) (\<lambda>st1. bindR (vprintk fmt ap st1) (\<lambda>st2. Inl (Panic ''panic'')))"

definition printk_switch_tty :: "int \<Rightarrow> 'a tty_state_scheme \<Rightarrow> 'a tty_state_scheme outcome" where
  "printk_switch_tty ctty st = (case get_tty ctty st of
       None \<Rightarrow> Inl (Undefined ''null tty'')
     | Some t \<Rightarrow> let i = nat ctty
         in bindR (tty_set_output i (Some CONSOLE_DEV) st) (\<lambda>st1. bindR (tty_set_input i (Some KEYBOARD_DEV) st1) (\<lambda>st2.
            bindR (tty_set_buffered i False st2) (\<lambda>st3.
              Inr (st3\<lparr>printk_tty := Some i, printk_emitter := EMIT_TTY\<rparr>)))))"

text \<open>The rest of drivers/tty.c. The message about a full buffer does not stop the copy.\<close>

definition tty_set_current :: "int \<Rightarrow> 'a printk_state_scheme \<Rightarrow> 'a printk_state_scheme outcome" where
  "tty_set_current n st =
     bindR (if active_tty st = -1
            then printk (lit st ''boot: current tty will be tty%d'') [nat (n mod 4294967296)] st else Inr st)
       (\<lambda>st1. Inr (st1\<lparr>active_tty := n\<rparr>))"

definition tty_input_write :: "nat \<Rightarrow> nat \<Rightarrow> nat \<Rightarrow> nat \<Rightarrow> 'a printk_state_scheme \<Rightarrow> (int \<times> 'a printk_state_scheme) outcome" where
  "tty_input_write i buf count pos st = with_tty i st (\<lambda>t.
     if tty_input t = None then Inr (- ESRCH, st)
     else bindR (if TTY_IN_BUFSIZE < add32 (inputidx t) count
                 then printk (lit st ''tty%d is out of space in its input buffer'') [tty_id t] st else Inr st)
       (\<lambda>st1. with_tty i st1 (\<lambda>t1. Inr (sint32 count, upd_tty i (\<lambda>t. t\<lparr>inputidx := add32 (inputidx t) count\<rparr>)
          (st1\<lparr>ram := memcpy (inputbuf t1 + inputidx t1) buf count (ram st1)\<rparr>)))))"

text \<open>
  Set-up, given the pointers that \<open>kmalloc\<close> returned for one terminal. A terminal that cannot be allocated is
  written to at address 0; a failed \<open>tty_create_device\<close> returns -ENOMEM as a pointer, which the registry refuses.
\<close>

record tty_ptrs =
  p_tty :: nat
  p_in :: nat
  p_out :: nat
  p_dev :: nat
  p_priv :: nat
  p_name :: nat

definition tty_create_device :: "nat \<Rightarrow> tty_ptrs \<Rightarrow> 'a tty_state_scheme \<Rightarrow> (nat \<times> 'a tty_state_scheme) outcome" where
  "tty_create_device i ps st = with_tty i st (\<lambda>t.
     if selfdevice t \<noteq> 0 then Inr (selfdevice t, st)
     else if p_dev ps = 0 \<or> p_priv ps = 0 \<or> p_name ps = 0 then Inr (W32 - 12, st)
     else Inr (p_dev ps, upd_tty i (\<lambda>t. t\<lparr>selfdevice := p_dev ps\<rparr>)
            (st\<lparr>ram := put (p_name ps) [116, 116, 121, 48 + of_nat (tty_id t), 0] (ram st)\<rparr>)))"

definition tty_make :: "nat \<Rightarrow> tty_ptrs \<Rightarrow> 'a tty_state_scheme \<Rightarrow> 'a tty_state_scheme outcome" where
  "tty_make i ps st =
     (if p_tty ps = 0 then Inl (Undefined ''null tty'')
      else let t = \<lparr>tty_id = i, tty_input = default_input st, tty_output = default_output st, inputbuf = p_in ps, inputidx = 0,
                    outputbuf = p_out ps, outputidx = 0, selfdevice = 0, buffered = True\<rparr>;
               st1 = st\<lparr>ttys := (ttys st)[i := Some t]\<rparr>
           in bindR (tty_create_device i ps st1) (\<lambda>(d, st2). Inr (snd (device_register d st2))))"

primrec tty_make_all :: "nat \<Rightarrow> (nat \<Rightarrow> tty_ptrs) \<Rightarrow> 'a tty_state_scheme \<Rightarrow> 'a tty_state_scheme outcome" where
  "tty_make_all 0 ps st = Inr st"
| "tty_make_all (Suc i) ps st = bindR (tty_make_all i ps st) (tty_make i (ps i))"

definition tty_init :: "(nat \<Rightarrow> tty_ptrs) \<Rightarrow> 'a printk_state_scheme \<Rightarrow> (int \<times> 'a printk_state_scheme) outcome" where
  "tty_init ps st =
     bindR (tty_make_all TTY_COUNT ps st) (\<lambda>st1.
     bindR (tty_set_current 0 st1) (\<lambda>st2.
     bindR (tty_override_all_defaults st2) (\<lambda>st3.
     bindR (printk (lit st3 ''tty: there are %d TTYs'') [TTY_COUNT] st3) (\<lambda>st4.
     bindR (printk_switch_tty 0 st4) (\<lambda>st5. Inr (0, st5))))))"

end
