(* ===== verification/PrintkProps.thy ===== *)
theory PrintkProps
  imports Printk
begin

text \<open>
  What \<open>vprintk\<close> prints: a rendering of the format and its arguments, proved once for any emitter and
  instantiated for the two emitters of the kernel; and what a terminal does with output and input.
\<close>

section \<open>Rendering\<close>

datatype piece = Lit u8 | Dir u8

text \<open>The pieces of a format: a percent sign before any other character than the four letters is dropped.\<close>

fun pieces :: "u8 list \<Rightarrow> piece list" where
  "pieces [] = []"
| "pieces [c] = (if c = 37 then [] else [Lit c])"
| "pieces (c # d # cs) =
     (if c \<noteq> 37 then Lit c # pieces (d # cs)
      else if d = 115 \<or> d = 100 \<or> d = 120 \<or> d = 99 then Dir d # pieces cs
      else pieces (d # cs))"

definition dir_text :: "(nat \<Rightarrow> u8 list) \<Rightarrow> u8 \<Rightarrow> nat \<Rightarrow> u8 list" where
  "dir_text strs d a =
     (if d = 115 then strs a else if d = 100 then num_str a 10 else if d = 120 then num_str a 16 else [of_nat a])"

fun render :: "(nat \<Rightarrow> u8 list) \<Rightarrow> piece list \<Rightarrow> nat list \<Rightarrow> u8 list" where
  "render strs [] ap = []"
| "render strs (Lit c # ps) ap = c # render strs ps ap"
| "render strs (Dir d # ps) [] = []"
| "render strs (Dir d # ps) (a # ap) = dir_text strs d a @ render strs ps ap"

text \<open>Enough arguments, and each one of a \<open>%s\<close> points to a string outside the memory that output writes.\<close>

fun args_ok :: "nat set \<Rightarrow> mem \<Rightarrow> (nat \<Rightarrow> u8 list) \<Rightarrow> piece list \<Rightarrow> nat list \<Rightarrow> bool" where
  "args_ok A m strs [] ap = True"
| "args_ok A m strs (Lit c # ps) ap = args_ok A m strs ps ap"
| "args_ok A m strs (Dir d # ps) [] = False"
| "args_ok A m strs (Dir d # ps) (a # ap) =
     (a < W32 \<and> (d = 115 \<longrightarrow> cstr m a (strs a) \<and> {a..a + length (strs a)} \<inter> A = {} \<and> length (strs a) < W32 - 1) \<and>
      args_ok A m strs ps ap)"

lemma args_ok_frame: "args_ok A m strs ps ap \<Longrightarrow> same_on (- A) m m' \<Longrightarrow> args_ok A m' strs ps ap"
proof (induction A m strs ps ap rule: args_ok.induct)
  case (4 A m strs d ps a ap)
  have "same_on {a..a + length (strs a)} m m'" if "d = 115"
    by (rule same_on_mono [OF "4.prems"(2)]) (use that "4.prems"(1) in auto)
  then show ?case using 4 by (auto intro: cstr_frame)
qed auto

section \<open>Emitters\<close>

locale emitter = char_device ok view disp area putc
  for ok :: "'a tty_state_scheme \<Rightarrow> bool" and view :: "'a tty_state_scheme \<Rightarrow> 'v" and disp :: "u8 \<Rightarrow> 'v \<Rightarrow> 'v" and area :: "nat set"
    and putc :: "u8 \<Rightarrow> 'a tty_state_scheme \<Rightarrow> 'a tty_state_scheme outcome" +
  fixes str :: nat
  assumes str_at: "ok st \<Longrightarrow> stk_str st = str"
    and str_apart: "ok st \<Longrightarrow> {str..<str + 32} \<inter> area = {}"
    and ram_free: "ok st \<Longrightarrow> same_on area (ram st) m \<Longrightarrow> ok (st\<lparr>ram := m\<rparr>) \<and> view (st\<lparr>ram := m\<rparr>) = view st"
begin

lemma emit_str_loop_ok:
  assumes "ok st" "cstr (ram st) s (pre @ rest)" "{s..s + length (pre @ rest)} \<inter> area = {}" "length rest < n"
  shows "\<exists>st'. emit_str_loop putc n s (length pre) st = Inr st' \<and> ok st' \<and> view st' = fold disp rest (view st) \<and>
    same_on (- area) (ram st) (ram st')"
  using assms
proof (induction n arbitrary: pre rest st)
  case (Suc n)
  note len = strlen_cstr [OF Suc.prems(2)]
  show ?case
  proof (cases rest)
    case Nil
    then show ?thesis using len Suc.prems(1) by simp
  next
    case (Cons c cs)
    have c: "ram st (s + length pre) = c" using cstr_nth [OF Suc.prems(2), of "length pre"] Cons by simp
    obtain s1 where s1: "putc c st = Inr s1" "ok s1" "view s1 = disp c (view st)" using putc_ok [OF Suc.prems(1)] by blast
    have m: "same_on (- area) (ram st) (ram s1)" by (rule putc_area [OF Suc.prems(1) s1(1)])
    have "cstr (ram s1) s (pre @ rest)"
      by (rule cstr_frame [OF Suc.prems(2)], rule same_on_mono [OF m]) (use Suc.prems(3) in blast)
    then have "cstr (ram s1) s ((pre @ [c]) @ cs)" using Cons by simp
    moreover have "{s..s + length ((pre @ [c]) @ cs)} \<inter> area = {}" using Suc.prems(3) Cons by simp
    moreover have "length cs < n" using Suc.prems(4) Cons by simp
    ultimately obtain s2 where s2: "emit_str_loop putc n s (length (pre @ [c])) s1 = Inr s2" "ok s2"
      "view s2 = fold disp cs (view s1)" "same_on (- area) (ram s1) (ram s2)"
      using Suc.IH [OF s1(2)] by blast
    then show ?thesis using len c s1 Cons same_on_trans [OF m s2(4)] by simp
  qed
qed simp

lemma emit_str_ok:
  assumes "ok st" "cstr (ram st) s t" "{s..s + length t} \<inter> area = {}" "length t < W32"
  shows "\<exists>st'. emit_str putc s st = Inr st' \<and> ok st' \<and> view st' = fold disp t (view st) \<and> same_on (- area) (ram st) (ram st')"
  using emit_str_loop_ok [of st s "[]" t W32] assms by (simp add: emit_str_def)

lemma emit_num_ok:
  assumes "ok st" "c < W32" "10 \<le> base" "base \<le> 16"
  shows "\<exists>st'. emit_num putc c base st = Inr st' \<and> ok st' \<and> view st' = fold disp (num_str c base) (view st) \<and>
    same_on (- (area \<union> {str..<str + 32})) (ram st) (ram st')"
proof -
  let ?t = "num_str c base" and ?m0 = "memset str 0 32 (ram st)"
  have b: "2 \<le> base" using assms(3) by simp
  have l: "length ?t \<le> 31"
  proof (rule ccontr)
    assume "\<not> ?thesis"
    then have n: "31 \<le> length ?t - 1" by simp
    then have "base ^ (length ?t - 1) \<le> c" using length_num_str [OF b, of c] by auto
    moreover have "10 ^ 31 \<le> base ^ (length ?t - 1)"
      using power_mono [OF assms(3), of "length ?t - 1"] power_increasing [OF n, of "10::nat"] by linarith
    ultimately have "(10::nat) ^ 31 \<le> c" by linarith
    then show False using assms(2) by simp
  qed
  obtain m where m: "itoa c base str ?m0 = Inr m" "cstr m str ?t" "same_on (- {str..str + length ?t}) ?m0 m"
    using itoa_prints [OF b assms(4)] by blast
  have sub: "{str..str + length ?t} \<subseteq> {str..<str + 32}" using l by auto
  have m': "same_on (- {str..<str + 32}) (ram st) m"
    using m(3) l by (auto simp: same_on_def memset_apply)
  have "same_on area (ram st) m" by (rule same_on_mono [OF m']) (use str_apart [OF assms(1)] in blast)
  note fr = ram_free [OF assms(1) this]
  have "{str..str + length ?t} \<inter> area = {}" using sub str_apart [OF assms(1)] by blast
  then obtain s1 where s1: "emit_str putc str (st\<lparr>ram := m\<rparr>) = Inr s1" "ok s1" "view s1 = fold disp ?t (view st)"
    "same_on (- area) m (ram s1)"
    using emit_str_ok [of "st\<lparr>ram := m\<rparr>" str ?t] fr m(2) l by auto
  have "same_on (- (area \<union> {str..<str + 32})) (ram st) (ram s1)"
    by (rule same_on_trans [OF same_on_mono [OF m'] same_on_mono [OF s1(4)]]) auto
  then show ?thesis using s1 m(1) str_at [OF assms(1)] by (simp add: emit_num_def)
qed

text \<open>The loop of \<open>vprintk\<close>, with \<open>pre\<close> done and \<open>rest\<close> still to print.\<close>

lemma vprintk_loop_ok:
  assumes "ok st" "cstr (ram st) fmt (pre @ rest)" "{fmt..fmt + length (pre @ rest)} \<inter> (area \<union> {str..<str + 32}) = {}"
    "length rest < n" "args_ok (area \<union> {str..<str + 32}) (ram st) strs (pieces rest) ap"
  shows "\<exists>st'. vprintk_loop putc n fmt (length pre) ap st = Inr st' \<and> ok st' \<and>
    view st' = fold disp (render strs (pieces rest) ap) (view st)"
  using assms
proof (induction n arbitrary: pre rest st ap)
  case (Suc n)
  let ?A = "area \<union> {str..<str + 32}"
  note len = strlen_cstr [OF Suc.prems(2)]
  text \<open>Going on after an output that keeps the memory outside \<open>A\<close>.\<close>
  have go: "\<exists>st'. vprintk_loop putc n fmt (length pre + k) ap' s1 = Inr st' \<and> ok st' \<and>
      view st' = fold disp (render strs (pieces rest') ap') (view s1)"
    if s1: "ok s1" "same_on (- ?A) (ram st) (ram s1)" and r: "rest = ds @ rest'" "length ds = k" "0 < k"
      and a: "args_ok ?A (ram st) strs (pieces rest') ap'" for k ap' s1 ds rest'
  proof -
    have "same_on {fmt..fmt + length (pre @ rest)} (ram st) (ram s1)"
      by (rule same_on_mono [OF s1(2)]) (use Suc.prems(3) in blast)
    then have "cstr (ram s1) fmt ((pre @ ds) @ rest')" using cstr_frame [OF Suc.prems(2)] r by simp
    moreover have "{fmt..fmt + length ((pre @ ds) @ rest')} \<inter> ?A = {}" using Suc.prems(3) r by simp
    moreover have "length rest' < n" using Suc.prems(4) r by simp
    ultimately show ?thesis
      using Suc.IH [OF s1(1), of "pre @ ds" rest' ap'] args_ok_frame [OF a s1(2)] r(2) by simp
  qed
  have sub: "same_on (- ?A) m m'" if "same_on (- area) m m'" for m m'
    by (rule same_on_mono [OF that]) auto
  have put: "\<exists>s1. putc c st = Inr s1 \<and> ok s1 \<and> view s1 = disp c (view st) \<and> same_on (- ?A) (ram st) (ram s1)" for c
    using putc_ok [OF Suc.prems(1), of c] putc_area [OF Suc.prems(1), of c] sub by blast
  show ?case
  proof (cases rest)
    case Nil
    then show ?thesis using len Suc.prems(1) by simp
  next
    case (Cons c cs)
    have c: "ram st (fmt + length pre) = c" using cstr_nth [OF Suc.prems(2), of "length pre"] Cons by simp
    show ?thesis
    proof (cases "c = 37")
      case False
      have p: "pieces rest = Lit c # pieces cs" using False Cons by (cases cs) auto
      obtain s1 where s1: "putc c st = Inr s1" "ok s1" "view s1 = disp c (view st)" "same_on (- ?A) (ram st) (ram s1)"
        using put by blast
      then show ?thesis
        using go [OF s1(2,4), of "[c]" cs 1 ap] Suc.prems(5) len c False p Cons by simp
    next
      case True
      show ?thesis
      proof (cases cs)
        case Nil
        have "ram st (fmt + length pre + 1) = 0"
          using cstr_end [OF Suc.prems(2)] Cons Nil by simp
        then show ?thesis
          using go [OF Suc.prems(1), of "[c]" "[]" 1 ap] len c True Cons Nil by simp
      next
        case (Cons d ds)
        note rest = \<open>rest = c # cs\<close> Cons
        have d: "ram st (fmt + length pre + 1) = d"
          using cstr_nth [OF Suc.prems(2), of "length pre + 1"] rest by (simp add: nth_append)
        show ?thesis
        proof (cases "d = 115 \<or> d = 100 \<or> d = 120 \<or> d = 99")
          case False
          then show ?thesis
            using go [OF Suc.prems(1), of "[c]" cs 1 ap] Suc.prems(5) len c d True rest by simp
        next
          case dir: True
          have p: "pieces rest = Dir d # pieces ds" using dir True rest by simp
          obtain a as where ap: "ap = a # as" using Suc.prems(5) p by (cases ap) auto
          have a: "a < W32" "args_ok ?A (ram st) strs (pieces ds) as"
            "d = 115 \<Longrightarrow> cstr (ram st) a (strs a) \<and> {a..a + length (strs a)} \<inter> ?A = {} \<and> length (strs a) < W32 - 1"
            using Suc.prems(5) p ap by auto
          have out: "\<exists>s1. (if d = 115 then emit_str putc a st else if d = 100 then emit_num putc a 10 st
              else if d = 120 then emit_num putc a 16 st else putc (of_nat a) st) = Inr s1 \<and> ok s1 \<and>
              view s1 = fold disp (dir_text strs d a) (view st) \<and> same_on (- ?A) (ram st) (ram s1)"
          proof -
            consider "d = 115" | "d = 100" | "d = 120" | "d = 99" using dir by blast
            then show ?thesis
            proof cases
              case 1
              have "{a..a + length (strs a)} \<inter> area = {}" "length (strs a) < W32" "cstr (ram st) a (strs a)" using a(3) [OF 1] by auto
              from emit_str_ok [OF Suc.prems(1) this(3,1,2)] 1 show ?thesis using sub by (auto simp: dir_text_def)
            next
              case 2
              then show ?thesis using emit_num_ok [OF Suc.prems(1) a(1), of 10] by (simp add: dir_text_def)
            next
              case 3
              then show ?thesis using emit_num_ok [OF Suc.prems(1) a(1), of 16] by (simp add: dir_text_def)
            next
              case 4
              then show ?thesis using put [of "of_nat a"] by (simp add: dir_text_def)
            qed
          qed
          then obtain s1 where s1: "(if d = 115 then emit_str putc a st else if d = 100 then emit_num putc a 10 st
              else if d = 120 then emit_num putc a 16 st else putc (of_nat a) st) = Inr s1" "ok s1"
              "view s1 = fold disp (dir_text strs d a) (view st)" "same_on (- ?A) (ram st) (ram s1)" by blast
          then show ?thesis
            using go [OF s1(2,4), of "[c, d]" ds 2 as] a(2) len c d True rest p ap dir by (auto split: if_splits)
        qed
      qed
    qed
  qed
qed simp

end

section \<open>The two emitters\<close>

definition with_cr :: "u8 \<Rightarrow> u8 list" where
  "with_cr c = (if c = 10 then [10, 13] else [c])"

definition without_nul :: "u8 \<Rightarrow> u8 list" where
  "without_nul c = (if c = 0 then [] else with_cr c)"

definition notty_ok :: "con_dev list \<Rightarrow> nat \<Rightarrow> nat \<Rightarrow> 'a tty_state_scheme \<Rightarrow> bool" where
  "notty_ok ds slot str st \<longleftrightarrow> printk_emitter st = EMIT_NOTTY \<and> stk_send st = slot \<and> stk_str st = str \<and>
     con_ok slot ds st \<and> {str..<str + 32} \<inter> insert slot vga_area = {}"

definition on_tty_ok :: "con_dev list \<Rightarrow> nat \<Rightarrow> nat \<Rightarrow> nat \<Rightarrow> nat \<Rightarrow> nat \<Rightarrow> 'a tty_state_scheme \<Rightarrow> bool" where
  "on_tty_ok ds i ob slot em str st \<longleftrightarrow> printk_emitter st = EMIT_TTY \<and> printk_tty st = Some i \<and> stk_send st = slot \<and>
     stk_emit st = em \<and> stk_str st = str \<and> em \<notin> insert slot vga_area \<union> {ob..<ob + TTY_OUT_BUFSIZE} \<and>
     {str..<str + 32} \<inter> (insert em (insert slot vga_area) \<union> {ob..<ob + TTY_OUT_BUFSIZE}) = {} \<and>
     (\<exists>t. tty_ok ds i t st \<and> outputidx t = 0 \<and> \<not> buffered t \<and> outputbuf t = ob \<and> selfdevice t \<noteq> 0)"

abbreviation tty_area :: "nat \<Rightarrow> nat \<Rightarrow> nat \<Rightarrow> nat set" where
  "tty_area ob slot em \<equiv> insert em (insert slot vga_area) \<union> {ob..<ob + TTY_OUT_BUFSIZE}"

lemma send_char_notty:
  assumes "notty_ok ds slot str st"
  shows "\<exists>st'. send_char slot c st = Inr st' \<and> notty_ok ds slot str st' \<and> con_view st' = disp_all ds c (con_view st) \<and>
    same_on (- insert slot vga_area) (ram st) (ram st')"
proof -
  have ok: "con_ok slot ds st" using assms by (simp add: notty_ok_def)
  obtain s1 where s1: "send_char slot c st = Inr s1" "con_ok slot ds s1" "con_view s1 = disp_all ds c (con_view st)"
    using console.putc_ok [OF ok] by blast
  note sel = tty_sels [OF send_char_more [OF s1(1)]]
  show ?thesis using s1 assms console.putc_area [OF ok s1(1)] by (simp add: notty_ok_def sel)
qed

lemma emit_notty_ok:
  assumes "notty_ok ds slot str st"
  shows "\<exists>st'. emit c st = Inr st' \<and> notty_ok ds slot str st' \<and> con_view st' = fold (disp_all ds) (without_nul c) (con_view st) \<and>
    same_on (- insert slot vga_area) (ram st) (ram st')"
proof -
  have e: "emit c st = emit_notty c st" "stk_send st = slot" using assms by (simp_all add: emit_def notty_ok_def)
  obtain s1 where s1: "send_char slot c st = Inr s1" "notty_ok ds slot str s1" "con_view s1 = disp_all ds c (con_view st)"
    "same_on (- insert slot vga_area) (ram st) (ram s1)" using send_char_notty [OF assms] by blast
  obtain s2 where s2: "send_char slot 13 s1 = Inr s2" "notty_ok ds slot str s2" "con_view s2 = disp_all ds 13 (con_view s1)"
    "same_on (- insert slot vga_area) (ram s1) (ram s2)" using send_char_notty [OF s1(2)] by blast
  have sl: "stk_send s1 = slot" using s1(2) by (simp add: notty_ok_def)
  show ?thesis
    using s1 s2 e sl assms same_on_trans [OF s1(4) s2(4)] by (auto simp: emit_notty_def without_nul_def with_cr_def)
qed

lemma emit_tty_step_ok:
  assumes "on_tty_ok ds i ob slot em str st"
  shows "\<exists>st'. emit_tty_step again c st = (if c = 10 then again 13 st' else Inr st') \<and> on_tty_ok ds i ob slot em str st' \<and>
    con_view st' = disp_all ds c (con_view st) \<and> same_on (- tty_area ob slot em) (ram st) (ram st')"
proof -
  have o: "printk_tty st = Some i" "stk_send st = slot" "stk_emit st = em" "em \<notin> insert slot vga_area \<union> {ob..<ob + TTY_OUT_BUFSIZE}"
    using assms by (auto simp: on_tty_ok_def)
  obtain t where t: "tty_ok ds i t st" "outputidx t = 0" "\<not> buffered t" "outputbuf t = ob" "selfdevice t \<noteq> 0"
    using assms by (auto simp: on_tty_ok_def)
  let ?m = "(ram st)(em := c)"
  have m: "same_on vga_area (ram st) ?m" using o(4) by (auto simp: same_on_def)
  have t1: "tty_ok ds i t (st\<lparr>ram := ?m\<rparr>)" using t(1) by (simp add: tty_ok_def con_ok_ram con_area_def)
  have v: "tty_view ds t (st\<lparr>ram := ?m\<rparr>) = con_view st"
    using con_view_ram [OF m] t(2) by (simp add: tty_view_def pending_def bytes_at_def)
  have ar: "con_area (st\<lparr>ram := ?m\<rparr>) \<union> out_area t = insert slot vga_area \<union> {ob..<ob + TTY_OUT_BUFSIZE}"
    using o(2) t(4) by (simp add: con_area_def out_area_def)
  have "{em..<em + 1} \<inter> (con_area (st\<lparr>ram := ?m\<rparr>) \<union> out_area t) = {}" unfolding ar using o(4) by auto
  note w = tty_write_ok [OF t1 _ this, of 0, unfolded ar v]
  have b: "bytes_at ?m em 1 = [c]" by (simp add: bytes_at_def)
  obtain s1 t' where s1: "tty_output_write i em 1 0 (st\<lparr>ram := ?m\<rparr>) = Inr (int 1, s1)" "tty_ok ds i t' s1"
    "tty_view ds t' s1 = disp_all ds c (con_view st)" "outputbuf t' = outputbuf t" "buffered t' = buffered t" "selfdevice t' = selfdevice t"
    "outputidx t' = 0" "same_on (- (insert slot vga_area \<union> {ob..<ob + TTY_OUT_BUFSIZE})) ?m (ram s1)" "keeps (st\<lparr>ram := ?m\<rparr>) s1"
    using w t(3) b by auto
  have "con_view s1 = disp_all ds c (con_view st)" using s1(3,7) by (simp add: tty_view_def pending_def bytes_at_def)
  moreover have "on_tty_ok ds i ob slot em str s1"
    using assms s1 t unfolding on_tty_ok_def by (intro conjI exI [of _ t']) (auto simp: keeps_def)
  moreover have "same_on (- tty_area ob slot em) (ram st) (ram s1)" using s1(8) by (auto simp: same_on_def split: if_splits)
  moreover have "ttys st ! i = Some t" using t(1) by (simp add: tty_ok_def)
  ultimately show ?thesis using o t s1(1) by (intro exI [of _ s1]) (simp add: emit_tty_step_def with_tty_def)
qed

lemma emit_tty_fuel_Suc: "emit_tty_fuel (Suc n) = emit_tty_step (emit_tty_fuel n)"
  by (intro ext) simp

lemma emit_tty_ok:
  assumes "on_tty_ok ds i ob slot em str st"
  shows "\<exists>st'. emit c st = Inr st' \<and> on_tty_ok ds i ob slot em str st' \<and> con_view st' = fold (disp_all ds) (with_cr c) (con_view st) \<and>
    same_on (- tty_area ob slot em) (ram st) (ram st')"
proof -
  have e: "emit c st = emit_tty_step (emit_tty_step (emit_tty_fuel 0)) c st"
    using assms by (simp add: emit_def on_tty_ok_def emit_tty_def numeral_2_eq_2 emit_tty_fuel_Suc del: emit_tty_fuel.simps)
  obtain s1 where s1: "emit_tty_step (emit_tty_step (emit_tty_fuel 0)) c st = (if c = 10 then emit_tty_step (emit_tty_fuel 0) 13 s1 else Inr s1)"
    "on_tty_ok ds i ob slot em str s1" "con_view s1 = disp_all ds c (con_view st)" "same_on (- tty_area ob slot em) (ram st) (ram s1)"
    using emit_tty_step_ok [OF assms] by blast
  obtain s2 where s2: "emit_tty_step (emit_tty_fuel 0) 13 s1 = Inr s2"
    "on_tty_ok ds i ob slot em str s2" "con_view s2 = disp_all ds 13 (con_view s1)" "same_on (- tty_area ob slot em) (ram s1) (ram s2)"
    using emit_tty_step_ok [OF s1(2), of "emit_tty_fuel 0" 13] by auto
  show ?thesis
  proof (cases "c = 10")
    case True
    then show ?thesis using e s1 s2 same_on_trans [OF s1(4) s2(4)] by (intro exI [of _ s2]) (simp add: with_cr_def)
  next
    case False
    then show ?thesis using e s1 by (intro exI [of _ s1]) (simp add: with_cr_def)
  qed
qed

interpretation notty: emitter "notty_ok ds slot str" con_view "\<lambda>c. fold (disp_all ds) (without_nul c)" "insert slot vga_area" emit str
  for ds slot str
proof unfold_locales
  fix c m and st st' :: "'a tty_state_scheme"
  assume ok: "notty_ok ds slot str st"
  show "\<exists>st'. emit c st = Inr st' \<and> notty_ok ds slot str st' \<and> con_view st' = fold (disp_all ds) (without_nul c) (con_view st)"
    using emit_notty_ok [OF ok] by blast
  show "same_on (- insert slot vga_area) (ram st) (ram st')" if "emit c st = Inr st'" using emit_notty_ok [OF ok, of c] that by auto
  show "stk_str st = str" and "{str..<str + 32} \<inter> insert slot vga_area = {}" using ok by (simp_all add: notty_ok_def)
  show "notty_ok ds slot str (st\<lparr>ram := m\<rparr>) \<and> con_view (st\<lparr>ram := m\<rparr>) = con_view st"
    if "same_on (insert slot vga_area) (ram st) m"
    using ok con_view_ram [OF same_on_mono [OF that]] by (auto simp: notty_ok_def con_ok_ram)
qed

interpretation on_tty: emitter "on_tty_ok ds i ob slot em str" con_view "\<lambda>c. fold (disp_all ds) (with_cr c)" "tty_area ob slot em" emit str
  for ds i ob slot em str
proof unfold_locales
  fix c m and st st' :: "'a tty_state_scheme"
  assume ok: "on_tty_ok ds i ob slot em str st"
  show "\<exists>st'. emit c st = Inr st' \<and> on_tty_ok ds i ob slot em str st' \<and> con_view st' = fold (disp_all ds) (with_cr c) (con_view st)"
    using emit_tty_ok [OF ok] by blast
  show "same_on (- tty_area ob slot em) (ram st) (ram st')" if "emit c st = Inr st'" using emit_tty_ok [OF ok, of c] that by auto
  show "stk_str st = str" and "{str..<str + 32} \<inter> tty_area ob slot em = {}" using ok by (simp_all add: on_tty_ok_def)
  show "on_tty_ok ds i ob slot em str (st\<lparr>ram := m\<rparr>) \<and> con_view (st\<lparr>ram := m\<rparr>) = con_view st"
    if "same_on (tty_area ob slot em) (ram st) m"
  proof -
    have v: "con_view (st\<lparr>ram := m\<rparr>) = con_view st" by (rule con_view_ram [OF same_on_mono [OF that]]) auto
    show ?thesis using ok v unfolding on_tty_ok_def tty_ok_def by (auto simp: con_ok_ram con_area_def)
  qed
qed

lemma fold_concat: "fold (\<lambda>c. fold f (g c)) cs v = fold f (concat (map g cs)) v"
  by (induction cs arbitrary: v) simp_all

section \<open>Properties\<close>

text \<open>
  C36. \<open>vprintk\<close> to the terminal terminates and shows, on every console, the rendering of the format and its
  arguments with a carriage return after every line feed; strings and numbers are rendered in full.
\<close>

theorem vprintk_tty:
  assumes "on_tty_ok ds i ob slot em str st" "cstr (ram st) fmt f" "length f < W32"
    "{fmt..fmt + length f} \<inter> (tty_area ob slot em \<union> {str..<str + 32}) = {}"
    "args_ok (tty_area ob slot em \<union> {str..<str + 32}) (ram st) strs (pieces f) ap"
  shows "\<exists>st'. vprintk fmt ap st = Inr st' \<and> on_tty_ok ds i ob slot em str st' \<and>
    con_view st' = fold (disp_all ds) (concat (map with_cr (render strs (pieces f) ap))) (con_view st)"
  using on_tty.vprintk_loop_ok [of ds i ob slot em str st fmt "[]" f W32 strs ap] assms by (simp add: vprintk_def fold_concat)

text \<open>
  Before a terminal is chosen \<open>vprintk\<close> prints the same text directly to the consoles, except that zero
  bytes are left out.
\<close>

theorem vprintk_console:
  assumes "notty_ok ds slot str st" "cstr (ram st) fmt f" "length f < W32"
    "{fmt..fmt + length f} \<inter> (insert slot vga_area \<union> {str..<str + 32}) = {}"
    "args_ok (insert slot vga_area \<union> {str..<str + 32}) (ram st) strs (pieces f) ap"
  shows "\<exists>st'. vprintk fmt ap st = Inr st' \<and> notty_ok ds slot str st' \<and>
    con_view st' = fold (disp_all ds) (concat (map without_nul (render strs (pieces f) ap))) (con_view st)"
  using notty.vprintk_loop_ok [of ds slot str st fmt "[]" f W32 strs ap] assms by (simp add: vprintk_def fold_concat)

text \<open>
  C37. Output to a terminal on the consoles: what is on them and pending in the buffer together grows by exactly
  the bytes written, in order, line feeds only deciding when they appear; without buffering nothing stays
  pending. At most 8192 bytes may be written at once.
\<close>

theorem tty_output_write_shows:
  assumes "tty_ok ds i t st" "n \<le> TTY_OUT_BUFSIZE" "{buf..<buf + n} \<inter> (con_area st \<union> out_area t) = {}"
  shows "\<exists>st' t'. tty_output_write i buf n pos st = Inr (int n, st') \<and> tty_ok ds i t' st' \<and>
    tty_view ds t' st' = fold (disp_all ds) (bytes_at (ram st) buf n) (tty_view ds t st) \<and>
    (\<not> buffered t \<longrightarrow> con_view st' = fold (disp_all ds) (bytes_at (ram st) buf n) (tty_view ds t st)) \<and>
    same_on (- (con_area st \<union> out_area t)) (ram st) (ram st')"
proof -
  obtain st' t' where w: "tty_output_write i buf n pos st = Inr (int n, st')" "tty_ok ds i t' st'"
    "tty_view ds t' st' = fold (disp_all ds) (bytes_at (ram st) buf n) (tty_view ds t st)" "\<not> buffered t \<longrightarrow> outputidx t' = 0"
    "same_on (- (con_area st \<union> out_area t)) (ram st) (ram st')"
    using tty_write_ok [OF assms] by blast
  then have "\<not> buffered t \<longrightarrow> con_view st' = tty_view ds t' st'" by (simp add: tty_view_def pending_def bytes_at_def)
  then show ?thesis using w by auto
qed

text \<open>
  Reading from a terminal whose input is the keyboard and whose input buffer is empty returns the count
  that was asked for, however many characters were waiting; only those are stored.
\<close>

theorem tty_input_read_keyboard:
  assumes "ttys st ! i = Some t" "tty_input t = Some KEYBOARD_DEV" "inputidx t = 0" "0 < count" "count < 2147483648"
    "kbd_ok st" "length (kbd_items st) < 256" "apart buf count (keybuf st) 256"
  shows "\<exists>st'. tty_input_read i buf count pos st = Inr (int count, st') \<and> kbd_items st' = drop count (kbd_items st) \<and>
    get buf (min count (length (kbd_items st))) (ram st') = take count (kbd_items st)"
proof -
  let ?s = "upd_tty i (\<lambda>t. t\<lparr>inputidx := 0\<rparr>) (st\<lparr>ram := memcpy buf (inputbuf t) 0 (ram st)\<rparr>)"
  have m: "memcpy buf (inputbuf t) 0 (ram st) = ram st" by (simp add: memcpy_fwd)
  have k: "kbd_ok ?s" "kbd_items ?s = kbd_items st" "keybuf ?s = keybuf st"
    using assms(6) by (simp_all add: m upd_tty_def kbd_ok_def kbd_items_def)
  obtain s1 where s1: "kbd_read buf count 0 ?s = (min count (length (kbd_items st)), s1)"
    "get buf (min count (length (kbd_items st))) (ram s1) = take count (kbd_items st)" "kbd_items s1 = drop count (kbd_items st)"
    using kbd_read_ok [OF k(1), of buf count 0] assms(7,8) unfolding k(2,3) by blast
  then show ?thesis using assms(1-5) by (intro exI [of _ s1]) (simp add: tty_input_read_def with_tty_def sint32_def)
qed

section \<open>Witnesses\<close>

text \<open>The format \<open>x%d\<close> with a line feed lies at 0x3000; terminal 0 is unbuffered, with the keyboard and the consoles.\<close>

definition small_tty :: "emitter \<Rightarrow> tty_state" where
  "small_tty e = io_state.extend (small_console\<lparr>ram := (ram small_screen)(0x3000 := 120, 0x3001 := 37, 0x3002 := 100, 0x3003 := 10)\<rparr>)
     (tty_state.fields [Some \<lparr>tty_id = 0, tty_input = Some KEYBOARD_DEV, tty_output = Some CONSOLE_DEV, inputbuf = 0x6000, inputidx = 0,
        outputbuf = 0x8000, outputidx = 0, selfdevice = 0x7000, buffered = False\<rparr>, None, None, None] 0 (Some 0) e 0x4000 0x4004 0x4100)"

lemma small_tty_sel:
  "ttys (small_tty e) ! 0 = Some \<lparr>tty_id = 0, tty_input = Some KEYBOARD_DEV, tty_output = Some CONSOLE_DEV, inputbuf = 0x6000, inputidx = 0,
        outputbuf = 0x8000, outputidx = 0, selfdevice = 0x7000, buffered = False\<rparr>" "length (ttys (small_tty e)) = 4"
  "stk_send (small_tty e) = 0x4000" "stk_emit (small_tty e) = 0x4004" "stk_str (small_tty e) = 0x4100"
  "printk_tty (small_tty e) = Some 0" "printk_emitter (small_tty e) = e"
  "ram (small_tty e) = (ram small_screen)(0x3000 := 120, 0x3001 := 37, 0x3002 := 100, 0x3003 := 10)"
  "kbd_ok (small_tty e)" "kbd_items (small_tty e) = []" "keybuf (small_tty e) = 0"
  by (simp_all add: small_tty_def io_state.extend_def tty_state.fields_def small_console_def small_screen_def
    kbd_ok_def kbd_items_def get_def exI [of _ 0])

lemma small_tty_con: "con_ok 0x4000 [TM_CON, KMSG_CON] (small_tty e)"
  using small_console_ok
  by (simp add: con_ok_def kmsg_ok_def serial_ok_def line_bit_def tm_ok_def small_tty_def io_state.extend_def small_console_def small_screen_def)

lemma small_tty_ok:
  "tty_ok [TM_CON, KMSG_CON] 0 (the (ttys (small_tty e) ! 0)) (small_tty e)"
  "on_tty_ok [TM_CON, KMSG_CON] 0 0x8000 0x4000 0x4004 0x4100 (small_tty EMIT_TTY)"
  "notty_ok [TM_CON, KMSG_CON] 0x4000 0x4100 (small_tty EMIT_NOTTY)"
proof -
  show t: "tty_ok [TM_CON, KMSG_CON] 0 (the (ttys (small_tty e) ! 0)) (small_tty e)" for e
    by (auto simp: tty_ok_def small_tty_sel small_tty_con out_area_def con_area_def vga_area_def)
  show "notty_ok [TM_CON, KMSG_CON] 0x4000 0x4100 (small_tty EMIT_NOTTY)"
    by (auto simp: notty_ok_def small_tty_sel small_tty_con vga_area_def)
  show "on_tty_ok [TM_CON, KMSG_CON] 0 0x8000 0x4000 0x4004 0x4100 (small_tty EMIT_TTY)"
    using t [of EMIT_TTY] unfolding on_tty_ok_def
    by (intro conjI exI [of _ "the (ttys (small_tty EMIT_TTY) ! 0)"]) (auto simp: small_tty_sel vga_area_def)
qed

lemma small_fmt: "cstr (ram (small_tty e)) 0x3000 [120, 37, 100, 10]" "num_str 42 10 = [52, 50]"
  by (simp_all add: small_tty_sel small_screen_def num_str_def bchars_def digits_rev.simps)

theorem vprintk_tty_witness:
  "\<exists>st'. vprintk 0x3000 [42] (small_tty EMIT_TTY) = Inr st' \<and>
     con_view st' = fold (disp_all [TM_CON, KMSG_CON]) [120, 52, 50, 10, 13] (con_view (small_tty EMIT_TTY))"
proof -
  have "{0x3000..0x3000 + length [120, 37, 100, 10 :: u8]} \<inter> (tty_area 0x8000 0x4000 0x4004 \<union> {0x4100..<0x4100 + 32}) = {}"
    by (auto simp: vga_area_def)
  from vprintk_tty [OF small_tty_ok(2) small_fmt(1) _ this, of "\<lambda>_. []" "[42]"] show ?thesis
    by (auto simp: vga_area_def dir_text_def small_fmt(2) with_cr_def)
qed

theorem vprintk_console_witness:
  "\<exists>st'. vprintk 0x3000 [42] (small_tty EMIT_NOTTY) = Inr st' \<and>
     con_view st' = fold (disp_all [TM_CON, KMSG_CON]) [120, 52, 50, 10, 13] (con_view (small_tty EMIT_NOTTY))"
proof -
  have "{0x3000..0x3000 + length [120, 37, 100, 10 :: u8]} \<inter> (insert 0x4000 vga_area \<union> {0x4100..<0x4100 + 32}) = {}"
    by (auto simp: vga_area_def)
  from vprintk_console [OF small_tty_ok(3) small_fmt(1) _ this, of "\<lambda>_. []" "[42]"] show ?thesis
    by (auto simp: vga_area_def dir_text_def small_fmt(2) with_cr_def without_nul_def)
qed

theorem tty_output_write_shows_witness:
  "\<exists>st'. tty_output_write 0 0x1000 5 0 (small_tty EMIT_TTY) = Inr (5, st')"
proof -
  let ?t = "the (ttys (small_tty EMIT_TTY) ! 0)"
  have "{0x1000..<0x1000 + 5} \<inter> (con_area (small_tty EMIT_TTY) \<union> out_area ?t) = {}"
    by (auto simp: small_tty_sel con_area_def out_area_def vga_area_def)
  from tty_output_write_shows [OF small_tty_ok(1) _ this, of 0] show ?thesis by auto
qed

theorem tty_input_read_keyboard_witness:
  "\<exists>st'. tty_input_read 0 0x1000 5 0 (small_tty EMIT_TTY) = Inr (5, st') \<and> kbd_items st' = []"
  using tty_input_read_keyboard [OF small_tty_sel(1) [of EMIT_TTY], of 5 "0x1000" 0]
  by (auto simp: small_tty_sel apart_def)

end
