(* ===== verification/ShellInput.thy ===== *)
theory ShellInput
  imports PrintkProps
begin

text \<open>
  kernel/shell.c: \<open>grab_input\<close>, which reads a line from the keyboard by the terminal and echoes it. This is where the queue of the
  keyboard driver, the input of a terminal, the emitter of \<open>printk\<close> and the consoles meet.
\<close>

section \<open>The code\<close>

text \<open>\<open>char cs[] = { 0 }; tty_input_read(shell_tty->selfdevice, cs, 1, 0);\<close>; \<open>cs\<close> is the address of the local variable.\<close>

definition grab_char :: "nat \<Rightarrow> nat \<Rightarrow> 'a tty_state_scheme \<Rightarrow> (u8 \<times> 'a tty_state_scheme) outcome" where
  "grab_char i cs st = bindR (tty_input_read i cs 1 0 (st\<lparr>ram := (ram st)(cs := 0)\<rparr>)) (\<lambda>(_, st'). Inr (ram st' cs, st'))"

text \<open>
  \<open>yld\<close> is \<open>schedule_noirq\<close>: other threads run, and interrupts arrive. \<open>k\<close> is the code's \<open>i\<close>, \<open>buffer\<close> the static array.
\<close>

partial_function (option) grab_loop :: "('a tty_state_scheme \<Rightarrow> 'a tty_state_scheme outcome) \<Rightarrow> nat \<Rightarrow> nat \<Rightarrow> nat \<Rightarrow> nat \<Rightarrow>
    'a tty_state_scheme \<Rightarrow> 'a tty_state_scheme outcome option" where
  "grab_loop yld i cs buffer k st = (case grab_char i cs st of
       Inl h \<Rightarrow> Some (Inl h)
     | Inr (c, st1) \<Rightarrow>
         if c = 0 then (case yld st1 of Inl h \<Rightarrow> Some (Inl h) | Inr st2 \<Rightarrow> grab_loop yld i cs buffer k st2)
         else if c = 10 then Some (Inr st1)
         else (case emit c (st1\<lparr>ram := (ram st1)(buffer + k := c)\<rparr>) of
             Inl h \<Rightarrow> Some (Inl h) | Inr st2 \<Rightarrow> grab_loop yld i cs buffer (k + 1) st2))"

definition grab_input :: "('a tty_state_scheme \<Rightarrow> 'a tty_state_scheme outcome) \<Rightarrow> nat \<Rightarrow> nat \<Rightarrow> nat \<Rightarrow>
    'a tty_state_scheme \<Rightarrow> (nat \<times> 'a tty_state_scheme) outcome" where
  "grab_input yld i cs buffer st = (case grab_loop yld i cs buffer 0 (st\<lparr>ram := memset buffer 0 512 (ram st)\<rparr>) of
       None \<Rightarrow> Inl Hang
     | Some r \<Rightarrow> bindR r (\<lambda>st1. bindR (emit 10 st1) (\<lambda>st2. Inr (buffer, st2))))"

section \<open>Output leaves input alone\<close>

definition kbd_vars :: "'a kbd_state_scheme \<Rightarrow> nat \<times> u16 \<times> u8" where
  "kbd_vars st = (keybuf st, key_loc st, keys_avail st)"

lemma con_write_kbd: "con_write d buf n pos st = Inr (rc, st') \<Longrightarrow> kbd_vars st' = kbd_vars st"
proof (induction d buf n pos st rule: con_write.induct)
  case (1 buf n pos st)
  then show ?case
    by (auto simp: kmsg_write_def split: if_splits dest!: write_each_keeps [where f = kbd_vars, rotated])
      (auto simp: kmsg_append_def kbd_vars_def)
next
  case (2 buf n pos st)
  have "kbd_vars s' = kbd_vars s" if "serial_out_data c s = Inr s'" for c and s s' :: "'a io_state_scheme"
    using serial_out_data_run [OF that] by (auto simp: outportb_def polled_def kbd_vars_def)
  with 2 show ?case by (auto simp: serial_write_def dest!: write_each_keeps [where f = kbd_vars, rotated])
next
  case (3 buf n pos st)
  then show ?case
    by (auto simp: textmode_write_def dest!: write_each_keeps [where f = kbd_vars, rotated])
      (auto simp: textmode_putchar_def textmode_scrollup_def kbd_vars_def Let_def)
qed

lemma console_loop_kbd: "console_loop slot i n st = Inr st' \<Longrightarrow> kbd_vars st' = kbd_vars st"
proof (induction n arbitrary: i st)
  case (Suc n)
  then obtain d rc s1 where "con_write d slot 1 0 st = Inr (rc, s1)" "console_loop slot (Suc i) n s1 = Inr st'"
    by (auto split: option.splits if_splits)
  then show ?case using Suc.IH con_write_kbd by metis
qed simp

lemma send_char_kbd: "send_char slot c st = Inr st' \<Longrightarrow> kbd_vars st' = kbd_vars st"
  by (auto simp: send_char_def console_send_def kbd_vars_def dest!: console_loop_kbd)

text \<open>Also the inputs of the terminals, and whatever lies beyond.\<close>

definition inputs :: "'a tty_state_scheme \<Rightarrow> (nat \<times> u16 \<times> u8) \<times> (dev option \<times> nat) option list \<times> 'a" where
  "inputs st = (kbd_vars st, map (map_option (\<lambda>t. (tty_input t, inputidx t))) (ttys st), tty_state.more st)"

lemma inputs_more: "kbd_vars s' = kbd_vars s \<Longrightarrow> io_state.more s' = io_state.more (s :: 'a tty_state_scheme) \<Longrightarrow> inputs s' = inputs s"
  by (cases s; cases s') (simp add: inputs_def)

lemma inputs_upd: "(\<And>t. tty_input (f t) = tty_input t \<and> inputidx (f t) = inputidx t) \<Longrightarrow> inputs (upd_tty i f st) = inputs st"
  by (auto simp: inputs_def upd_tty_def kbd_vars_def map_update option.map_comp comp_def) (metis list_update_id map_update)

lemma inputs_ram [simp]: "inputs (st\<lparr>ram := m\<rparr>) = inputs st"
  by (simp add: inputs_def kbd_vars_def)

lemma dev_write_inputs: "dev_write d buf n pos st = Inr (rc, st') \<Longrightarrow> inputs st' = inputs st"
proof (induction d buf n pos st rule: dev_write.induct)
  case (4 buf count pos st)
  then obtain s1 where w: "write_each (send_char (stk_send st)) buf count st = Inr s1" "st' = s1" by (auto simp: console_dev_write_def)
  have "kbd_vars s1 = kbd_vars st" by (rule write_each_keeps [where f = kbd_vars, OF send_char_kbd w(1)])
  moreover have "io_state.more s1 = io_state.more st" by (rule write_each_keeps [where f = io_state.more, OF send_char_more w(1)])
  ultimately show ?case using w(2) inputs_more by blast
next
  case (1 buf count pos st)
  then have "con_write KMSG_CON buf count pos st = Inr (rc, st')" by simp
  then show ?case using con_write_kbd con_write_more inputs_more by blast
next
  case (2 buf count pos st)
  then have "con_write SERIAL_CON buf count pos st = Inr (rc, st')" by simp
  then show ?case using con_write_kbd con_write_more inputs_more by blast
next
  case (3 buf count pos st)
  then have "con_write TM_CON buf count pos st = Inr (rc, st')" by simp
  then show ?case using con_write_kbd con_write_more inputs_more by blast
qed simp

lemma tty_flush_inputs: "tty_flush_output i st = Inr st' \<Longrightarrow> inputs st' = inputs st"
  by (auto simp: tty_flush_output_def with_tty_def inputs_upd dest!: dev_write_inputs split: option.splits)

lemma tty_put_inputs: "tty_put i c st = Inr st' \<Longrightarrow> inputs st' = inputs st"
  by (auto simp: tty_put_def with_tty_def inputs_upd dest!: tty_flush_inputs split: option.splits if_splits)

lemma tty_output_write_inputs: "tty_output_write i buf n pos st = Inr (rc, st') \<Longrightarrow> inputs st' = inputs st"
  by (auto simp: tty_output_write_def with_tty_def dest!: tty_flush_inputs write_each_keeps [where f = inputs, rotated] intro: tty_put_inputs
      split: option.splits if_splits)

lemma emit_step_inputs:
  "(\<And>c s s'. again c s = Inr s' \<Longrightarrow> inputs s' = inputs s) \<Longrightarrow> emit_tty_step again c st = Inr st' \<Longrightarrow> inputs st' = inputs st"
  by (auto simp: emit_tty_step_def with_tty_def dest!: tty_output_write_inputs split: option.splits if_splits)

lemma emit_fuel_inputs: "emit_tty_fuel n c st = Inr st' \<Longrightarrow> inputs st' = inputs st"
  by (induction n arbitrary: c st st') (auto intro: emit_step_inputs)

lemma send_char_inputs: "send_char slot c (st :: 'a tty_state_scheme) = Inr st' \<Longrightarrow> inputs st' = inputs st"
  using send_char_kbd send_char_more inputs_more by blast

lemma emit_inputs: "emit c st = Inr st' \<Longrightarrow> inputs st' = inputs st"
  by (auto simp: emit_def emit_tty_def emit_notty_def intro: emit_fuel_inputs dest!: send_char_inputs split: emitter.splits if_splits)

section \<open>A line\<close>

text \<open>The terminal \<open>i\<close> reads from the keyboard, where \<open>q\<close> is waiting, and shows on the consoles what is printed.\<close>

definition typing :: "con_dev list \<Rightarrow> nat \<Rightarrow> nat \<Rightarrow> nat \<Rightarrow> nat \<Rightarrow> nat \<Rightarrow> nat \<Rightarrow> u8 list \<Rightarrow> 'a tty_state_scheme \<Rightarrow> bool" where
  "typing ds i ob slot em str kb q st \<longleftrightarrow> on_tty_ok ds i ob slot em str st \<and> kbd_ok st \<and> keybuf st = kb \<and> kbd_items st = q \<and> length q < 256 \<and>
     (\<exists>t. ttys st ! i = Some t \<and> tty_input t = Some KEYBOARD_DEV \<and> inputidx t = 0)"

lemma on_tty_ok_kbd [simp]:
  "on_tty_ok ds i ob slot em str (st\<lparr>key_loc := a, keys_avail := b\<rparr>) = on_tty_ok ds i ob slot em str st"
  "con_view (st\<lparr>key_loc := a, keys_avail := b\<rparr>) = con_view st"
  by (simp_all add: on_tty_ok_def tty_ok_def con_ok_def kmsg_ok_def serial_ok_def line_bit_def tm_ok_def con_area_def con_view_def kmsg_log_def
      sent_def tm_view_def)

lemma kbd_items_same:
  assumes "kbd_ok st" "keybuf st' = keybuf st" "key_loc st' = key_loc st" "same_on {keybuf st..<keybuf st + 256} (ram st) (ram st')"
  shows "kbd_items st' = kbd_items st"
proof -
  obtain n where n: "n \<le> 256" "key_loc st = of_nat n" using assms(1) by (auto simp: kbd_ok_def)
  have "get (keybuf st) n (ram st') = get (keybuf st) n (ram st)"
    by (rule get_same, rule same_on_mono [OF assms(4)]) (use n(1) in auto)
  then show ?thesis using n by (simp add: kbd_items_def assms(2,3) kbd_loc)
qed

text \<open>Memory written apart from the keyboard's buffer and from what the output uses.\<close>

lemma typing_ram:
  assumes t: "typing ds i ob slot em str kb q st" and a: "same_on (tty_area ob slot em) (ram st) m" and k: "same_on {kb..<kb + 256} (ram st) m"
  shows "typing ds i ob slot em str kb q (st\<lparr>ram := m\<rparr>)" "con_view (st\<lparr>ram := m\<rparr>) = con_view st"
proof -
  have o: "on_tty_ok ds i ob slot em str st" using t by (simp add: typing_def)
  show "con_view (st\<lparr>ram := m\<rparr>) = con_view st" using on_tty.ram_free [OF o a] by blast
  have "kbd_items (st\<lparr>ram := m\<rparr>) = kbd_items st" using t k by (intro kbd_items_same) (simp_all add: typing_def)
  then show "typing ds i ob slot em str kb q (st\<lparr>ram := m\<rparr>)"
    using t on_tty.ram_free [OF o a] by (simp add: typing_def kbd_ok_def)
qed

lemma typing_emit:
  assumes t: "typing ds i ob slot em str kb q st" and apart: "{kb..<kb + 256} \<inter> tty_area ob slot em = {}"
  obtains st' where "emit c st = Inr st'" "typing ds i ob slot em str kb q st'" "con_view st' = fold (disp_all ds) (with_cr c) (con_view st)"
    "same_on (- tty_area ob slot em) (ram st) (ram st')" "tty_state.more st' = tty_state.more st"
proof -
  have o: "on_tty_ok ds i ob slot em str st" using t by (simp add: typing_def)
  obtain st' where s: "emit c st = Inr st'" "on_tty_ok ds i ob slot em str st'" "con_view st' = fold (disp_all ds) (with_cr c) (con_view st)"
    "same_on (- tty_area ob slot em) (ram st) (ram st')" using emit_tty_ok [OF o] by blast
  have "inputs st' = inputs st" by (rule emit_inputs [OF s(1)])
  then have k: "keybuf st' = keybuf st" "key_loc st' = key_loc st" "keys_avail st' = keys_avail st"
    and tt: "map (map_option (\<lambda>t. (tty_input t, inputidx t))) (ttys st') = map (map_option (\<lambda>t. (tty_input t, inputidx t))) (ttys st)"
    and more: "tty_state.more st' = tty_state.more st"
    by (auto simp: inputs_def kbd_vars_def)
  have "same_on {kb..<kb + 256} (ram st) (ram st')" by (rule same_on_mono [OF s(4)]) (use apart in blast)
  then have it: "kbd_items st' = kbd_items st" using t by (intro kbd_items_same) (simp_all add: typing_def k)
  have "\<exists>t. ttys st' ! i = Some t \<and> tty_input t = Some KEYBOARD_DEV \<and> inputidx t = 0"
  proof -
    obtain u where u: "ttys st ! i = Some u" "tty_input u = Some KEYBOARD_DEV" "inputidx u = 0" using t by (auto simp: typing_def)
    have l: "length (ttys st') = length (ttys st)" using arg_cong [OF tt, of length] by simp
    have "i < length (ttys st)" using o by (auto simp: on_tty_ok_def tty_ok_def)
    then have "map_option (\<lambda>t. (tty_input t, inputidx t)) (ttys st' ! i) = Some (tty_input u, inputidx u)"
      using arg_cong [OF tt, of "\<lambda>l. l ! i"] u(1) l by simp
    then show ?thesis using u by auto
  qed
  then have "typing ds i ob slot em str kb q st'" using t s(2) it unfolding typing_def kbd_ok_def k by blast
  then show ?thesis using that s more by blast
qed

lemma upd_tty_same: "map_option f (ttys st ! i) = ttys st ! i \<Longrightarrow> upd_tty i f st = st"
  by (cases st) (simp add: upd_tty_def)

text \<open>Taking one character.\<close>

lemma grab_char_ok:
  assumes t: "typing ds i ob slot em str kb (c # q) st"
    and apart: "{kb..<kb + 256} \<inter> tty_area ob slot em = {}" "cs \<notin> {kb..kb + 256}" "cs \<notin> tty_area ob slot em"
  obtains st' where "grab_char i cs st = Inr (c, st')" "typing ds i ob slot em str kb q st'" "con_view st' = con_view st"
    "same_on (- insert cs {kb..<kb + 256}) (ram st) (ram st')" "tty_state.more st' = tty_state.more st"
proof -
  let ?m0 = "(ram st)(cs := 0)"
  let ?s0 = "st\<lparr>ram := ?m0\<rparr>"
  have t0: "typing ds i ob slot em str kb (c # q) ?s0" "con_view ?s0 = con_view st"
    using typing_ram [OF t, of ?m0] apart(2,3) by (auto simp: same_on_def)
  obtain u where u: "ttys st ! i = Some u" "tty_input u = Some KEYBOARD_DEV" "inputidx u = 0" using t by (auto simp: typing_def)
  have up: "upd_tty i (\<lambda>t. t\<lparr>inputidx := 0\<rparr>) ?s0 = ?s0"
  proof -
    have "u\<lparr>inputidx := 0\<rparr> = u" using u(3) by (cases u) simp
    then have "map_option (\<lambda>t. t\<lparr>inputidx := 0\<rparr>) (ttys ?s0 ! i) = ttys ?s0 ! i" using u(1) by simp
    then show ?thesis by (rule upd_tty_same)
  qed
  have ne: "kbd_ok ?s0" "kbd_items ?s0 = c # q" "keybuf st = kb" using t0(1) by (simp_all add: typing_def)
  obtain s1 where pop: "keyboard_get_key ?s0 = (c, s1)" "kbd_ok s1" "kbd_items s1 = q" using kbdq.pop_ok [OF ne(1,2)] by blast
  have "key_loc ?s0 \<noteq> 0" using ne(2) by (auto simp: kbd_items_def get_def)
  then have s1: "s1 = st\<lparr>key_loc := key_loc st - 1, keys_avail := keys_avail st - 1, ram := shift_down kb 256 ?m0\<rparr>"
    using pop(1) ne(3) by (auto simp: keyboard_get_key_def)
  have av: "unat (keys_avail ?s0) \<noteq> 0"
  proof -
    obtain n where n: "n \<le> 256" "key_loc ?s0 = of_nat n" "keys_avail ?s0 = of_nat n" using ne(1) by (auto simp: kbd_ok_def)
    have "n = Suc (length q)" using arg_cong [OF ne(2), of length] n by (simp add: kbd_items_def kbd_loc)
    moreover have "Suc (length q) < 256" using t by (simp add: typing_def)
    ultimately have "unat (keys_avail ?s0) = n" "n \<noteq> 0" unfolding n(3) by (simp_all add: unat_of_nat del: of_nat_Suc)
    then show ?thesis by simp
  qed
  let ?s2 = "s1\<lparr>ram := (ram s1)(cs := c)\<rparr>"
  have g: "grab_char i cs st = Inr (c, ?s2)"
    using u av up by (simp add: grab_char_def tty_input_read_def with_tty_def memcpy_fwd kbd_read_def pop(1) Let_def)
  have sh: "ram s1 x = st_x" if "st_x = (if kb \<le> x \<and> x < kb + 256 then ?m0 (x + 1) else ?m0 x)" for x st_x
    using that by (simp add: s1 shift_down_at)
  have keep: "same_on (- insert cs {kb..<kb + 256}) (ram st) (ram ?s2)" by (auto simp: same_on_def sh)
  have v: "on_tty_ok ds i ob slot em str ?s2 \<and> con_view ?s2 = con_view st"
  proof -
    have o: "on_tty_ok ds i ob slot em str st" using t by (simp add: typing_def)
    have a: "same_on (tty_area ob slot em) (ram st) (ram ?s2)" by (rule same_on_mono [OF keep]) (use apart in auto)
    have "on_tty_ok ds i ob slot em str (st\<lparr>ram := ram ?s2\<rparr>)" "con_view (st\<lparr>ram := ram ?s2\<rparr>) = con_view st"
      using on_tty.ram_free [OF o a] by blast+
    moreover have "?s2 = st\<lparr>ram := ram ?s2\<rparr>\<lparr>key_loc := key_loc st - 1, keys_avail := keys_avail st - 1\<rparr>" by (simp add: s1)
    ultimately show ?thesis using on_tty_ok_kbd by metis
  qed
  have "keybuf s1 = kb" using ne(3) by (simp add: s1)
  then have "kbd_items ?s2 = kbd_items s1"
    using apart(2) by (intro kbd_items_same [OF pop(2)]) (auto simp: same_on_def)
  then have "typing ds i ob slot em str kb q ?s2"
    using v pop(2,3) t u ne(3) by (auto simp: typing_def kbd_ok_def s1)
  moreover have "tty_state.more ?s2 = tty_state.more st" by (simp add: s1)
  ultimately show ?thesis using that g v keep by blast
qed

text \<open>The areas of memory that take part: the line buffer, the local variable, the keyboard's buffer and the output's memory.\<close>

definition input_areas :: "nat \<Rightarrow> nat \<Rightarrow> nat \<Rightarrow> nat set \<Rightarrow> bool" where
  "input_areas buffer cs kb A \<longleftrightarrow> {kb..<kb + 256} \<inter> A = {} \<and> cs \<notin> {kb..kb + 256} \<and> cs \<notin> A \<and> {buffer..<buffer + 512} \<inter> A = {} \<and>
     cs \<notin> {buffer..<buffer + 512} \<and> {buffer..<buffer + 512} \<inter> {kb..<kb + 256} = {}"

lemma input_areasD:
  assumes "input_areas buffer cs kb A"
  shows "{kb..<kb + 256} \<inter> A = {}" "cs \<notin> {kb..kb + 256}" "cs \<notin> A" "{buffer..<buffer + 512} \<subseteq> - insert cs {kb..<kb + 256}"
    "{buffer..<buffer + 512} \<subseteq> - A" "A \<subseteq> - {buffer..<buffer + 512}" "{kb..<kb + 256} \<subseteq> - {buffer..<buffer + 512}"
  using assms unfolding input_areas_def by blast+

text \<open>With nothing to read the character stays 0.\<close>

lemma grab_char_empty:
  assumes t: "typing ds i ob slot em str kb [] st" and areas: "input_areas buffer cs kb (tty_area ob slot em)"
  obtains st' where "grab_char i cs st = Inr (0, st')" "typing ds i ob slot em str kb [] st'" "con_view st' = con_view st"
    "same_on (- insert cs {kb..<kb + 256}) (ram st) (ram st')" "tty_state.more st' = tty_state.more st"
proof -
  note a = input_areasD [OF areas]
  let ?s0 = "st\<lparr>ram := (ram st)(cs := 0)\<rparr>"
  have t0: "typing ds i ob slot em str kb [] ?s0" "con_view ?s0 = con_view st"
    using typing_ram [OF t, of "(ram st)(cs := 0)"] a(2,3) by (auto simp: same_on_def)
  obtain u where u: "ttys st ! i = Some u" "tty_input u = Some KEYBOARD_DEV" "inputidx u = 0" using t by (auto simp: typing_def)
  have "u\<lparr>inputidx := 0\<rparr> = u" using u(3) by (cases u) simp
  then have up: "upd_tty i (\<lambda>t. t\<lparr>inputidx := 0\<rparr>) ?s0 = ?s0" using u(1) by (intro upd_tty_same) simp
  obtain n where n: "n \<le> 256" "key_loc st = of_nat n" "keys_avail st = of_nat n" "kbd_items st = []" using t by (auto simp: typing_def kbd_ok_def)
  then have "n = 0" using arg_cong [OF n(4), of length] n(1,2) by (simp add: kbd_items_def kbd_loc get_def)
  then have "grab_char i cs st = Inr (0, ?s0)"
    using u up n(3) by (simp add: grab_char_def tty_input_read_def with_tty_def memcpy_fwd kbd_read_def Let_def)
  then show ?thesis using that [of ?s0] t0 by (auto simp: same_on_def)
qed

lemma put_same: "same_on A m m' \<Longrightarrow> same_on A (put p ds m) (put p ds m')"
proof (induction ds arbitrary: p m m')
  case (Cons d ds)
  have "same_on A (m(p := d)) (m'(p := d))" using Cons.prems by (simp add: same_on_def)
  then show ?case using Cons.IH by simp
qed simp

text \<open>Characters that are no line feed go to the line buffer and to the consoles.\<close>

lemma grab_loop_chars:
  assumes "typing ds i ob slot em str kb (ts @ q) st" "0 \<notin> set ts" "10 \<notin> set ts" "k + length ts < 512"
    and areas: "input_areas buffer cs kb (tty_area ob slot em)"
  shows "\<exists>st'. grab_loop yld i cs buffer k st = grab_loop yld i cs buffer (k + length ts) st' \<and> typing ds i ob slot em str kb q st' \<and>
    con_view st' = fold (disp_all ds) ts (con_view st) \<and> tty_state.more st' = tty_state.more st \<and>
    same_on {buffer..<buffer + 512} (put (buffer + k) ts (ram st)) (ram st')"
  using assms(1-4)
proof (induction ts arbitrary: k st)
  case Nil
  then show ?case by (intro exI [of _ st]) simp
next
  case (Cons c ts)
  note a = input_areasD [OF areas]
  obtain s1 where s1: "grab_char i cs st = Inr (c, s1)" "typing ds i ob slot em str kb (ts @ q) s1" "con_view s1 = con_view st"
    "same_on (- insert cs {kb..<kb + 256}) (ram st) (ram s1)" "tty_state.more s1 = tty_state.more st"
    using grab_char_ok [of ds i ob slot em str kb c "ts @ q" st cs] Cons.prems(1) a by auto
  let ?m = "(ram s1)(buffer + k := c)"
  let ?s = "s1\<lparr>ram := ?m\<rparr>"
  have k: "buffer + k \<in> {buffer..<buffer + 512}" using Cons.prems(4) by simp
  have "same_on (tty_area ob slot em) (ram s1) ?m" "same_on {kb..<kb + 256} (ram s1) ?m" using a(6,7) k unfolding same_on_def by auto
  note t = typing_ram [OF s1(2) this]
  obtain s2 where s2: "emit c ?s = Inr s2" "typing ds i ob slot em str kb (ts @ q) s2" "con_view s2 = fold (disp_all ds) (with_cr c) (con_view ?s)"
    "same_on (- tty_area ob slot em) ?m (ram s2)" "tty_state.more s2 = tty_state.more st" using typing_emit [OF t(1) a(1), of c] s1(5) by auto
  have c: "c \<noteq> 0" "c \<noteq> 10" using Cons.prems(2,3) by auto
  obtain st' where st': "grab_loop yld i cs buffer (k + 1) s2 = grab_loop yld i cs buffer (k + 1 + length ts) st'" "typing ds i ob slot em str kb q st'"
    "con_view st' = fold (disp_all ds) ts (con_view s2)" "tty_state.more st' = tty_state.more s2"
    "same_on {buffer..<buffer + 512} (put (buffer + (k + 1)) ts (ram s2)) (ram st')"
    using Cons.IH [OF s2(2), of "k + 1"] Cons.prems(2-4) by auto
  have "same_on {buffer..<buffer + 512} ((ram st)(buffer + k := c)) (ram s2)"
    using same_on_mono [OF s1(4) a(4)] same_on_mono [OF s2(4) a(5)] by (simp add: same_on_def)
  then have "same_on {buffer..<buffer + 512} (put (buffer + k) (c # ts) (ram st)) (put (buffer + (k + 1)) ts (ram s2))"
    using put_same [of "{buffer..<buffer + 512}" "(ram st)(buffer + k := c)" "ram s2"] by simp
  moreover have "con_view st' = fold (disp_all ds) (c # ts) (con_view st)" using st'(3) s2(3) t(2) s1(3) c by (simp add: with_cr_def)
  moreover have "grab_loop yld i cs buffer k st = grab_loop yld i cs buffer (k + 1) s2" using s1(1) s2(1) c by (subst grab_loop.simps) simp
  ultimately show ?case using st' s2(5) same_on_trans by (intro exI [of _ st']) auto
qed

text \<open>
  What arrives while the reader gives up the processor: \<open>feed\<close> tells, from the part of the state that this code does not know, the characters
  that will come with each of the next calls. The other threads leave the terminal, the consoles and the line buffer alone.
\<close>

definition typist :: "('a tty_state_scheme \<Rightarrow> 'a tty_state_scheme outcome) \<Rightarrow> ('a \<Rightarrow> u8 list list) \<Rightarrow> nat \<Rightarrow> (u8 list \<Rightarrow> 'a tty_state_scheme \<Rightarrow> bool) \<Rightarrow> bool" where
  "typist yld feed buffer ready \<longleftrightarrow> (\<forall>s x xs. ready [] s \<longrightarrow> feed (tty_state.more s) = x # xs \<longrightarrow>
     (\<exists>s'. yld s = Inr s' \<and> ready x s' \<and> feed (tty_state.more s') = xs \<and> con_view s' = con_view s \<and>
       same_on {buffer..<buffer + 512} (ram s) (ram s')))"

lemma put_append: "put p (xs @ ys) m = put (p + length xs) ys (put p xs m)"
  by (induction xs arbitrary: p m) simp_all

lemma split_first: "u @ c # v = t @ c # r \<Longrightarrow> c \<notin> set u \<Longrightarrow> c \<notin> set t \<Longrightarrow> t = u \<and> r = v"
  by (induction u arbitrary: t) (auto simp: Cons_eq_append_conv append_eq_Cons_conv)

lemma before_first: "u @ v = t @ c # r \<Longrightarrow> c \<notin> set u \<Longrightarrow> \<exists>t'. t = u @ t' \<and> v = t' @ c # r"
proof (induction u arbitrary: t)
  case (Cons a u)
  then obtain t1 where "t = a # t1" "u @ v = t1 @ c # r" by (cases t) auto
  then show ?case using Cons by auto
qed simp

lemma grab_loop_end:
  assumes h: "typing ds i ob slot em str kb (t @ 10 # q) st" "q @ concat (feed (tty_state.more st)) = rest" "0 \<notin> set t" "10 \<notin> set t" "k + length t < 512"
    and areas: "input_areas buffer cs kb (tty_area ob slot em)"
  shows "\<exists>st' q. grab_loop yld i cs buffer k st = Some (Inr st') \<and> typing ds i ob slot em str kb q st' \<and>
      q @ concat (feed (tty_state.more st')) = rest \<and> con_view st' = fold (disp_all ds) t (con_view st) \<and>
      same_on {buffer..<buffer + 512} (put (buffer + k) t (ram st)) (ram st')"
proof -
  note a = input_areasD [OF areas]
  obtain s1 where s1: "grab_loop yld i cs buffer k st = grab_loop yld i cs buffer (k + length t) s1" "typing ds i ob slot em str kb (10 # q) s1"
    "con_view s1 = fold (disp_all ds) t (con_view st)" "tty_state.more s1 = tty_state.more st"
    "same_on {buffer..<buffer + 512} (put (buffer + k) t (ram st)) (ram s1)"
    using grab_loop_chars [OF h(1,3,4,5) areas, of yld] by blast
  obtain s2 where s2: "grab_char i cs s1 = Inr (10, s2)" "typing ds i ob slot em str kb q s2" "con_view s2 = con_view s1"
    "same_on (- insert cs {kb..<kb + 256}) (ram s1) (ram s2)" "tty_state.more s2 = tty_state.more s1"
    using grab_char_ok [OF s1(2) a(1,2,3)] .
  have "grab_loop yld i cs buffer (k + length t) s1 = Some (Inr s2)" using s2(1) by (subst grab_loop.simps) simp
  then show ?thesis using s1 s2 h(2) same_on_trans [OF s1(5) same_on_mono [OF s2(4) a(4)]] by (intro exI [of _ s2] exI [of _ q]) simp
qed

lemma grab_loop_line:
  assumes yld: "typist yld feed buffer (typing ds i ob slot em str kb)" and areas: "input_areas buffer cs kb (tty_area ob slot em)"
    and "typing ds i ob slot em str kb q0 st" "feed (tty_state.more st) = xs" "q0 @ concat xs = t @ 10 # rest" "0 \<notin> set t" "10 \<notin> set t" "k + length t < 512"
  shows "\<exists>st' q. grab_loop yld i cs buffer k st = Some (Inr st') \<and> typing ds i ob slot em str kb q st' \<and>
    q @ concat (feed (tty_state.more st')) = rest \<and> con_view st' = fold (disp_all ds) t (con_view st) \<and>
    same_on {buffer..<buffer + 512} (put (buffer + k) t (ram st)) (ram st')"
  using assms(3-8)
proof (induction xs arbitrary: q0 t k st)
  case Nil
  then show ?case using grab_loop_end [of ds i ob slot em str kb t rest st feed rest k buffer cs yld] areas by simp
next
  case (Cons x xs)
  note a = input_areasD [OF areas]
  show ?case
  proof (cases "10 \<in> set q0")
    case True
    then obtain u v where q0: "q0 = u @ 10 # v" "10 \<notin> set u" using split_list_first by fastforce
    then have "u @ 10 # (v @ concat (x # xs)) = t @ 10 # rest" using Cons.prems(3) by simp
    then have "t = u" "rest = v @ concat (x # xs)" using split_first [OF _ q0(2) Cons.prems(5)] by blast+
    then show ?thesis using grab_loop_end [of ds i ob slot em str kb t v st feed rest k buffer cs yld] areas Cons.prems q0(1) by simp
  next
    case False
    then obtain t' where t': "t = q0 @ t'" "x @ concat xs = t' @ 10 # rest"
      using before_first [OF Cons.prems(3) False] by auto
    have b: "0 \<notin> set q0" "10 \<notin> set q0" "0 \<notin> set t'" "10 \<notin> set t'" "k + length q0 < 512" "k + length q0 + length t' < 512"
      using Cons.prems(4-6) t'(1) by auto
    obtain s1 where s1: "grab_loop yld i cs buffer k st = grab_loop yld i cs buffer (k + length q0) s1" "typing ds i ob slot em str kb [] s1"
      "con_view s1 = fold (disp_all ds) q0 (con_view st)" "tty_state.more s1 = tty_state.more st"
      "same_on {buffer..<buffer + 512} (put (buffer + k) q0 (ram st)) (ram s1)"
      using grab_loop_chars [of ds i ob slot em str kb q0 "[]" st k buffer cs yld] Cons.prems(1) b areas by auto
    obtain s2 where s2: "grab_char i cs s1 = Inr (0, s2)" "typing ds i ob slot em str kb [] s2" "con_view s2 = con_view s1"
      "same_on (- insert cs {kb..<kb + 256}) (ram s1) (ram s2)" "tty_state.more s2 = tty_state.more s1"
      using grab_char_empty [OF s1(2) areas] .
    have "feed (tty_state.more s2) = x # xs" using s1(4) s2(5) Cons.prems(2) by simp
    then obtain s3 where s3: "yld s2 = Inr s3" "typing ds i ob slot em str kb x s3" "feed (tty_state.more s3) = xs" "con_view s3 = con_view s2"
      "same_on {buffer..<buffer + 512} (ram s2) (ram s3)"
      using yld s2(2) unfolding typist_def by blast
    have m: "same_on {buffer..<buffer + 512} (put (buffer + k) q0 (ram st)) (ram s3)"
      using same_on_trans [OF same_on_trans [OF s1(5) same_on_mono [OF s2(4) a(4)]] s3(5)] .
    have g: "grab_loop yld i cs buffer (k + length q0) s1 = grab_loop yld i cs buffer (k + length q0) s3"
      using s2(1) s3(1) by (subst grab_loop.simps) simp
    obtain st' q where st': "grab_loop yld i cs buffer (k + length q0) s3 = Some (Inr st')" "typing ds i ob slot em str kb q st'"
      "q @ concat (feed (tty_state.more st')) = rest" "con_view st' = fold (disp_all ds) t' (con_view s3)"
      "same_on {buffer..<buffer + 512} (put (buffer + (k + length q0)) t' (ram s3)) (ram st')"
      using Cons.IH [OF s3(2,3) t'(2) b(3,4,6)] by blast
    have "same_on {buffer..<buffer + 512} (put (buffer + k) t (ram st)) (ram st')"
      using same_on_trans [OF put_same [OF m] st'(5)] unfolding t'(1) put_append by (simp add: add.assoc)
    then show ?thesis using st' s1(1,3) g s2(3) s3(4) t'(1) by (intro exI [of _ st'] exI [of _ q]) simp
  qed
qed

text \<open>
  C13. Reading a line: whether it is waiting already or arrives in pieces while the reader gives up the processor, \<open>grab_input\<close> returns a C string
  with exactly the characters up to the next line feed, takes nothing else from the keyboard, and has shown the line and a new line on all consoles. This is so
  for a line of less than 512 characters: the code does not look for the end of its buffer.
\<close>

theorem grab_input_line:
  assumes "typing ds i ob slot em str kb q0 st" "typist yld feed buffer (typing ds i ob slot em str kb)" "input_areas buffer cs kb (tty_area ob slot em)"
    "q0 @ concat (feed (tty_state.more st)) = t @ 10 # rest" "0 \<notin> set t" "10 \<notin> set t" "length t < 512"
  shows "\<exists>st'. grab_input yld i cs buffer st = Inr (buffer, st') \<and> cstr (ram st') buffer t \<and>
    kbd_items st' @ concat (feed (tty_state.more st')) = rest \<and> con_view st' = fold (disp_all ds) (t @ [10, 13]) (con_view st)"
proof -
  note a = input_areasD [OF assms(3)]
  let ?m = "memset buffer 0 512 (ram st)"
  let ?s = "st\<lparr>ram := ?m\<rparr>"
  have "same_on (tty_area ob slot em) (ram st) ?m" "same_on {kb..<kb + 256} (ram st) ?m" using a(6,7) by (auto intro!: memset_frame)
  note s = typing_ram [OF assms(1) this]
  obtain s1 q where s1: "grab_loop yld i cs buffer 0 ?s = Some (Inr s1)" "typing ds i ob slot em str kb q s1"
    "q @ concat (feed (tty_state.more s1)) = rest" "con_view s1 = fold (disp_all ds) t (con_view st)"
    "same_on {buffer..<buffer + 512} (put buffer t ?m) (ram s1)"
    using grab_loop_line [OF assms(2,3) s(1) _ _ assms(5,6), of _ rest 0] assms(4,7) s(2) by auto
  obtain s2 where s2: "emit 10 s1 = Inr s2" "typing ds i ob slot em str kb q s2" "con_view s2 = fold (disp_all ds) [10, 13] (con_view s1)"
    "same_on (- tty_area ob slot em) (ram s1) (ram s2)" "tty_state.more s2 = tty_state.more s1"
    using typing_emit [OF s1(2) a(1), of 10] by (auto simp: with_cr_def)
  have "put buffer t ?m (buffer + length t) = 0" using assms(7) by (simp add: put_out memset_apply)
  then have "cstr (put buffer t ?m) buffer t" using get_put [of buffer t ?m] assms(5) by (simp add: cstr_iff get_def bytes_at_def)
  moreover have "{buffer..buffer + length t} \<subseteq> {buffer..<buffer + 512}" using assms(7) by auto
  moreover have "same_on {buffer..<buffer + 512} (put buffer t ?m) (ram s2)"
    using same_on_trans [OF s1(5) same_on_mono [OF s2(4) a(5)]] .
  ultimately have "cstr (ram s2) buffer t" using cstr_frame same_on_mono by blast
  moreover have "kbd_items s2 = q" using s2(2) by (simp add: typing_def)
  ultimately show ?thesis using s1 s2 by (intro exI [of _ s2]) (simp add: grab_input_def)
qed

text \<open>A user who types one key at each call: the extension of the state is what is still to be typed.\<close>

definition typing_user :: "u8 list tty_state_scheme \<Rightarrow> u8 list tty_state_scheme outcome" where
  "typing_user s = (case tty_state.more s of [] \<Rightarrow> Inr s | c # cs \<Rightarrow> Inr (tty_state.more_update (\<lambda>_. cs) (kbd_push c s)))"

lemma typing_push:
  assumes t: "typing ds i ob slot em str kb [] s" and apart: "{kb..<kb + 256} \<inter> tty_area ob slot em = {}"
  shows "typing ds i ob slot em str kb [c] (kbd_push c s)" "con_view (kbd_push c s) = con_view s" "same_on (- {kb..<kb + 256}) (ram s) (ram (kbd_push c s))"
    "tty_state.more (kbd_push c s) = tty_state.more s"
proof -
  have k: "kbd_ok s" "kbd_items s = []" "keybuf s = kb" "on_tty_ok ds i ob slot em str s" using t by (simp_all add: typing_def)
  then have "key_loc s = 0" by (auto simp: kbd_ok_def kbd_items_def get_def kbd_loc)
  then have e: "kbd_push c s = s\<lparr>ram := (ram s)(kb := c)\<rparr>\<lparr>key_loc := key_loc s + 1, keys_avail := keys_avail s + 1\<rparr>"
    using k(3) by (simp add: kbd_push_def)
  have "kb \<in> {kb..<kb + 256}" by simp
  then have "kb \<notin> tty_area ob slot em" using apart by blast
  then have "same_on (tty_area ob slot em) (ram s) ((ram s)(kb := c))" by (auto simp: same_on_def)
  note f = on_tty.ram_free [OF k(4) this]
  have "on_tty_ok ds i ob slot em str (kbd_push c s)" unfolding e on_tty_ok_kbd using f by blast
  moreover have "kbd_ok (kbd_push c s) \<and> kbd_items (kbd_push c s) = [c]" using kbdq.push_ok [OF k(1), of c] k(2) by simp
  ultimately show "typing ds i ob slot em str kb [c] (kbd_push c s)" using t by (auto simp: typing_def) (auto simp: e)
  show "con_view (kbd_push c s) = con_view s" unfolding e on_tty_ok_kbd using f by blast
  show "same_on (- {kb..<kb + 256}) (ram s) (ram (kbd_push c s))" "tty_state.more (kbd_push c s) = tty_state.more s"
    by (auto simp: e same_on_def)
qed

lemma typing_more:
  "typing ds i ob slot em str kb q (tty_state.more_update f s) = typing ds i ob slot em str kb q s"
  "con_view (tty_state.more_update f s) = con_view s" "ram (tty_state.more_update f s) = ram s" "tty_state.more (tty_state.more_update f s) = f (tty_state.more s)"
  by (cases s, simp add: typing_def on_tty_ok_def tty_ok_def con_ok_def kmsg_ok_def serial_ok_def line_bit_def tm_ok_def con_area_def con_view_def
      kmsg_log_def sent_def tm_view_def kbd_ok_def kbd_items_def)+

lemma typing_user_types:
  assumes "input_areas buffer cs kb (tty_area ob slot em)"
  shows "typist typing_user (map (\<lambda>c. [c])) buffer (typing ds i ob slot em str kb)"
  unfolding typist_def
proof (intro allI impI)
  note a = input_areasD [OF assms]
  fix s :: "u8 list tty_state_scheme" and x xs
  assume s: "typing ds i ob slot em str kb [] s" and "map (\<lambda>c. [c]) (tty_state.more s) = x # xs"
  then obtain c cs' where c: "tty_state.more s = c # cs'" "x = [c]" "xs = map (\<lambda>c. [c]) cs'" by auto
  note p = typing_push [OF s a(1), of c]
  show "\<exists>s'. typing_user s = Inr s' \<and> typing ds i ob slot em str kb x s' \<and> map (\<lambda>c. [c]) (tty_state.more s') = xs \<and> con_view s' = con_view s \<and>
    same_on {buffer..<buffer + 512} (ram s) (ram s')"
    using p(1,2) c same_on_mono [OF p(3)] a(4) by (auto simp: typing_user_def typing_more)
qed

lemma on_tty_ok_extend:
  "on_tty_ok ds i ob slot em str (tty_state.extend s m) = on_tty_ok ds i ob slot em str (s :: tty_state)"
  by (cases s) (simp add: tty_state.extend_def on_tty_ok_def tty_ok_def con_ok_def kmsg_ok_def serial_ok_def line_bit_def tm_ok_def con_area_def)

text \<open>The user types ls and a line feed; the line buffer is at 0x5000.\<close>

definition small_input :: "u8 list tty_state_scheme" where
  "small_input = tty_state.extend (small_tty EMIT_TTY) [108, 115, 10]"

theorem grab_input_line_witness:
  "\<exists>st'. grab_input typing_user 0 0x6800 0x5000 small_input = Inr (0x5000, st') \<and> cstr (ram st') 0x5000 [108, 115] \<and>
     con_view st' = fold (disp_all [TM_CON, KMSG_CON]) [108, 115, 10, 13] (con_view small_input)"
proof -
  have areas: "input_areas 0x5000 0x6800 0 (tty_area 0x8000 0x4000 0x4004)" by (auto simp: input_areas_def vga_area_def)
  have "on_tty_ok [TM_CON, KMSG_CON] 0 0x8000 0x4000 0x4004 0x4100 small_input"
    using small_tty_ok(2) by (simp add: small_input_def on_tty_ok_extend)
  then have t: "typing [TM_CON, KMSG_CON] 0 0x8000 0x4000 0x4004 0x4100 0 [] small_input"
    using small_tty_sel(1,9,10,11) [of EMIT_TTY]
    by (simp add: typing_def small_input_def tty_state.extend_def kbd_ok_def kbd_items_def)
  have "tty_state.more small_input = [108, 115, 10]" by (simp add: small_input_def tty_state.extend_def)
  then have "[] @ concat (map (\<lambda>c. [c]) (tty_state.more small_input)) = [108, 115] @ 10 # []" by simp
  from grab_input_line [OF t typing_user_types [OF areas] areas this] show ?thesis by auto
qed

end
