(* ===== verification/Context.thy ===== *)
theory Context
  imports Device
begin

text \<open>
  The processor context: struct pt_regs and the interrupt and switch macros of include/levos/x86.h, and
  arch/x86/sched.c. The assembly is modelled by its pushes and pops on the byte memory.
\<close>

section \<open>Registers\<close>

record pt_regs =
  r_magic :: nat
  r_cr3 :: nat
  r_edi :: nat
  r_esi :: nat
  r_ebp :: nat
  r_esp :: nat
  r_ebx :: nat
  r_edx :: nat
  r_ecx :: nat
  r_eax :: nat
  r_eip :: nat
  r_cs :: nat
  r_eflags :: nat

text \<open>The packed struct at an address.\<close>

definition regs_at :: "mem \<Rightarrow> nat \<Rightarrow> pt_regs" where
  "regs_at m a = \<lparr>r_magic = ld32 m a, r_cr3 = ld32 m (a + 4), r_edi = ld32 m (a + 8), r_esi = ld32 m (a + 12),
     r_ebp = ld32 m (a + 16), r_esp = ld32 m (a + 20), r_ebx = ld32 m (a + 24), r_edx = ld32 m (a + 28),
     r_ecx = ld32 m (a + 32), r_eax = ld32 m (a + 36), r_eip = ld32 m (a + 40), r_cs = ld32 m (a + 44),
     r_eflags = ld32 m (a + 48)\<rparr>"

text \<open>
  \<open>cpu\<close> are the registers of the processor (the field \<open>r_magic\<close> has no meaning there), \<open>page_dirs\<close> gives
  the physical address in a page directory, the other fields are the variables of the same names.
\<close>

record cpu_state = dev_state +
  cpu :: pt_regs
  pre_pushal_esp :: nat
  pre_irq_esp :: nat
  pre_irq_regs :: pt_regs
  current_irq :: nat
  current_directory :: nat
  page_dir_phys :: "nat \<Rightarrow> nat"

section \<open>Stack\<close>

definition push32 :: "nat \<Rightarrow> mem \<times> nat \<Rightarrow> mem \<times> nat" where
  "push32 v s = (let a = sub32 (snd s) 4 in (st32 (fst s) a v, a))"

text \<open>\<open>pushal\<close> pushes the stack pointer it started with; \<open>popal\<close> skips it.\<close>

definition pushal :: "pt_regs \<Rightarrow> mem \<times> nat \<Rightarrow> mem \<times> nat" where
  "pushal c s = push32 (r_edi c) (push32 (r_esi c) (push32 (r_ebp c) (push32 (snd s) (push32 (r_ebx c) (push32 (r_edx c)
     (push32 (r_ecx c) (push32 (r_eax c) s)))))))"

definition popal :: "mem \<Rightarrow> pt_regs \<Rightarrow> pt_regs" where
  "popal m c = (let s = r_esp c in
     c\<lparr>r_edi := ld32 m s, r_esi := ld32 m (s + 4), r_ebp := ld32 m (s + 8), r_ebx := ld32 m (s + 16), r_edx := ld32 m (s + 20),
       r_ecx := ld32 m (s + 24), r_eax := ld32 m (s + 28), r_esp := add32 s 32\<rparr>)"

definition iretl :: "mem \<Rightarrow> pt_regs \<Rightarrow> pt_regs" where
  "iretl m c = (let s = r_esp c in
     c\<lparr>r_eip := ld32 m s, r_cs := ld32 m (s + 4), r_eflags := ld32 m (s + 8), r_esp := add32 s 12\<rparr>)"

section \<open>Interrupts\<close>

text \<open>
  An interrupt without a change of privilege pushes eflags, cs and eip. \<open>DEF_IRQ_HANDLER\<close> then saves the
  other registers, cr3 and the magic number.
\<close>

definition irq_push :: "pt_regs \<Rightarrow> mem \<times> nat \<Rightarrow> mem \<times> nat" where
  "irq_push c s = push32 (r_eip c) (push32 (r_cs c) (push32 (r_eflags c) s))"

definition save_pre_irq_regs :: "'a cpu_state_scheme \<Rightarrow> 'a cpu_state_scheme outcome" where
  "save_pre_irq_regs st =
     (let r = (regs_at (ram st) (pre_irq_esp st))\<lparr>r_esp := add32 (pre_pushal_esp st) 12\<rparr>
      in if r_magic r \<noteq> 0x13371337 then Inl (Panic ''Wrong IRQ register magic! Stack corrupted!'')
         else Inr (st\<lparr>pre_irq_regs := r\<rparr>))"

definition irq_entry :: "nat \<Rightarrow> 'a cpu_state_scheme \<Rightarrow> 'a cpu_state_scheme outcome" where
  "irq_entry n st =
     (let s1 = irq_push (cpu st) (ram st, r_esp (cpu st));
          s2 = push32 0x13371337 (push32 (r_cr3 (cpu st)) (pushal (cpu st) s1))
      in bindR (save_pre_irq_regs (st\<lparr>pre_pushal_esp := snd s1, ram := fst s2, pre_irq_esp := snd s2\<rparr>))
           (\<lambda>st'. Inr (st'\<lparr>current_irq := n\<rparr>)))"

section \<open>Switching\<close>

text \<open>\<open>arch_sched_setup_stack\<close> builds a frame for \<open>popal\<close> and \<open>iretl\<close> on the thread's stack.\<close>

definition arch_sched_setup_stack :: "pt_regs \<Rightarrow> mem \<Rightarrow> pt_regs \<times> mem" where
  "arch_sched_setup_stack r m =
     (let s3 = push32 (r_eip r) (push32 (r_cs r) (push32 (r_eflags r) (m, r_esp r)));
          tmp = snd s3;
          s = push32 (r_edi r) (push32 (r_esi r) (push32 (r_ebp r) (push32 tmp (push32 (r_ebx r) (push32 (r_edx r)
                (push32 (r_ecx r) (push32 (r_eax r) s3)))))))
      in (r\<lparr>r_esp := snd s\<rparr>, fst s))"

definition ARCH_SWITCH_CONTEXT :: "pt_regs \<Rightarrow> 'a cpu_state_scheme \<Rightarrow> 'a cpu_state_scheme" where
  "ARCH_SWITCH_CONTEXT r st =
     st\<lparr>cpu := iretl (ram st) (popal (ram st) ((cpu st)\<lparr>r_eax := r_esp r, r_ebx := r_cr3 r, r_esp := r_esp r, r_cr3 := r_cr3 r\<rparr>))\<rparr>"

definition switch_page_dir :: "nat \<Rightarrow> 'a cpu_state_scheme \<Rightarrow> 'a cpu_state_scheme" where
  "switch_page_dir d st = st\<lparr>current_directory := d, cpu := (cpu st)\<lparr>r_cr3 := page_dir_phys st d\<rparr>\<rparr>"

definition arch_sched_setup_address_space :: "nat \<Rightarrow> 'a cpu_state_scheme \<Rightarrow> 'a cpu_state_scheme" where
  "arch_sched_setup_address_space page_dir st = switch_page_dir page_dir st"

definition arch_sched_mk_initial_regs :: "'a cpu_state_scheme \<Rightarrow> pt_regs" where
  "arch_sched_mk_initial_regs st =
     \<lparr>r_magic = 0, r_cr3 = r_cr3 (cpu st), r_edi = 0, r_esi = 0, r_ebp = 0, r_esp = 0, r_ebx = 0, r_edx = 0, r_ecx = 0, r_eax = 0,
      r_eip = 0, r_cs = 0x8, r_eflags = 0x202\<rparr>"

text \<open>arch/x86/irq.c: the end of an interrupt.\<close>

definition send_eoi :: "'a cpu_state_scheme \<Rightarrow> 'a cpu_state_scheme outcome" where
  "send_eoi st =
     (if current_irq st = 0xFF then Inl (Panic ''Invalid IRQ context!'')
      else Inr (outportb 0x20 0x20 (if current_irq st > 8 then outportb 0xA0 0x20 st else st)))"

definition arch_prep_exit_irq :: "'a cpu_state_scheme \<Rightarrow> 'a cpu_state_scheme outcome" where
  "arch_prep_exit_irq st = send_eoi st"

section \<open>Saving and restoring\<close>

definition regs_ok :: "pt_regs \<Rightarrow> bool" where
  "regs_ok r \<longleftrightarrow> r_cr3 r < W32 \<and> r_edi r < W32 \<and> r_esi r < W32 \<and> r_ebp r < W32 \<and> r_esp r < W32 \<and> r_ebx r < W32 \<and> r_edx r < W32 \<and>
     r_ecx r < W32 \<and> r_eax r < W32 \<and> r_eip r < W32 \<and> r_cs r < W32 \<and> r_eflags r < W32"

lemma push32_at: "4 \<le> a \<Longrightarrow> a < W32 \<Longrightarrow> push32 v (m, a) = (st32 m (a - 4) v, a - 4)"
  by (simp add: push32_def sub32_small Let_def)

lemma st32_other: "x < a \<or> a + 4 \<le> x \<Longrightarrow> st32 m a v x = m x"
  by (auto simp: st32_def st8_def)

lemma irq_entry_saves:
  assumes "regs_ok (cpu st)" "52 \<le> r_esp (cpu st)"
  shows "\<exists>st'. irq_entry n st = Inr st' \<and> pre_irq_regs st' = (cpu st)\<lparr>r_magic := 0x13371337\<rparr> \<and> current_irq st' = n \<and> cpu st' = cpu st \<and>
    same_on (- {r_esp (cpu st) - 52..<r_esp (cpu st)}) (ram st) (ram st')"
proof -
  let ?c = "cpu st"
  obtain b where b: "r_esp ?c = b + 52" using assms(2) by (metis add.commute le_Suc_ex)
  have W: "b + 52 < W32" using assms(1) b by (simp add: regs_ok_def)
  define m where "m = fst (push32 0x13371337 (push32 (r_cr3 ?c) (pushal ?c (irq_push ?c (ram st, r_esp ?c)))))"
  have e: "push32 0x13371337 (push32 (r_cr3 ?c) (pushal ?c (irq_push ?c (ram st, r_esp ?c)))) = (m, b)"
    "snd (irq_push ?c (ram st, r_esp ?c)) = b + 40"
    unfolding m_def using W by (simp_all add: irq_push_def pushal_def b push32_at)
  have m: "m = st32 (st32 (st32 (st32 (st32 (st32 (st32 (st32 (st32 (st32 (st32 (st32 (st32 (ram st) (b + 48) (r_eflags ?c))
      (b + 44) (r_cs ?c)) (b + 40) (r_eip ?c)) (b + 36) (r_eax ?c)) (b + 32) (r_ecx ?c)) (b + 28) (r_edx ?c)) (b + 24) (r_ebx ?c))
      (b + 20) (b + 40)) (b + 16) (r_ebp ?c)) (b + 12) (r_esi ?c)) (b + 8) (r_edi ?c)) (b + 4) (r_cr3 ?c)) b 0x13371337"
    unfolding m_def using W by (simp add: irq_push_def pushal_def b push32_at ac_simps)
  have r: "regs_at m b = ?c\<lparr>r_magic := 0x13371337, r_esp := b + 40\<rparr>"
    using assms(1) W by (cases ?c) (simp add: m regs_at_def regs_ok_def mem_simps)
  have f: "same_on (- {b..<b + 52}) (ram st) m"
    unfolding same_on_def
  proof (rule ballI)
    fix x assume "x \<in> - {b..<b + 52}"
    then consider "x < b" | "b + 52 \<le> x" by fastforce
    then show "m x = ram st x"
      unfolding m by cases (simp_all add: st32_other)
  qed
  have s: "add32 (b + 40) 12 = b + 52" using W by (simp add: add32_small)
  let ?s = "st\<lparr>pre_pushal_esp := b + 40, ram := m, pre_irq_esp := b, pre_irq_regs := ?c\<lparr>r_magic := 0x13371337\<rparr>, current_irq := n\<rparr>"
  have q: "?c\<lparr>r_magic := 0x13371337, r_esp := b + 40\<rparr>\<lparr>r_esp := b + 52\<rparr> = ?c\<lparr>r_magic := 0x13371337\<rparr>"
    using b by (cases ?c) simp
  have "irq_entry n st = Inr ?s"
    using q by (simp add: irq_entry_def e save_pre_irq_regs_def r s Let_def)
  then show ?thesis using f b by (intro exI [of _ ?s]) simp
qed

lemma setup_switch:
  assumes "regs_ok r" "44 \<le> r_esp r" "arch_sched_setup_stack r m = (r', m')" "ram st = m'"
  shows "cpu (ARCH_SWITCH_CONTEXT r' st) = r\<lparr>r_magic := r_magic (cpu st)\<rparr> \<and>
    same_on (- {r_esp r - 44..<r_esp r}) m m' \<and> r' = r\<lparr>r_esp := r_esp r - 44\<rparr>"
proof -
  obtain b where b: "r_esp r = b + 44" using assms(2) by (metis add.commute le_Suc_ex)
  have W: "b + 44 < W32" using assms(1) b by (simp add: regs_ok_def)
  have s: "r' = r\<lparr>r_esp := b\<rparr>" and m: "m' = st32 (st32 (st32 (st32 (st32 (st32 (st32 (st32 (st32 (st32 (st32 m (b + 40) (r_eflags r))
      (b + 36) (r_cs r)) (b + 32) (r_eip r)) (b + 28) (r_eax r)) (b + 24) (r_ecx r)) (b + 20) (r_edx r)) (b + 16) (r_ebx r))
      (b + 12) (b + 32)) (b + 8) (r_ebp r)) (b + 4) (r_esi r)) b (r_edi r)"
    using assms(3) W by (auto simp: arch_sched_setup_stack_def Let_def b push32_at ac_simps)
  have "cpu (ARCH_SWITCH_CONTEXT r' st) = r\<lparr>r_magic := r_magic (cpu st)\<rparr>"
    using assms(1) W b unfolding ARCH_SWITCH_CONTEXT_def s assms(4) m
    by (cases r; cases "cpu st") (simp add: popal_def iretl_def regs_ok_def mem_simps add32_small Let_def add.commute)
  moreover have "same_on (- {b..<b + 44}) m m'" unfolding same_on_def
  proof (rule ballI)
    fix x assume "x \<in> - {b..<b + 44}"
    then consider "x < b" | "b + 44 \<le> x" by fastforce
    then show "m' x = m x"
      unfolding m by cases (simp_all add: st32_other)
  qed
  ultimately show ?thesis using b s by simp
qed

text \<open>
  C25. A preempted thread resumes where it was: the registers that the interrupt entry saves, put back by
  \<open>arch_sched_setup_stack\<close> and \<open>ARCH_SWITCH_CONTEXT\<close> at any later time and in any memory, are the
  registers of the processor at the interrupt, stack pointer, flags and page table included.
\<close>

theorem context_roundtrip:
  assumes "regs_ok (cpu st)" "52 \<le> r_esp (cpu st)" "irq_entry n st = Inr st1"
    "arch_sched_setup_stack (pre_irq_regs st1) m = (r, m')" "ram st2 = m'"
  shows "(cpu (ARCH_SWITCH_CONTEXT r st2))\<lparr>r_magic := r_magic (cpu st)\<rparr> = cpu st"
proof -
  have p: "pre_irq_regs st1 = (cpu st)\<lparr>r_magic := 0x13371337\<rparr>" using irq_entry_saves [OF assms(1,2), of n] assms(3) by auto
  have "regs_ok (pre_irq_regs st1)" "44 \<le> r_esp (pre_irq_regs st1)" using assms(1,2) by (simp_all add: p regs_ok_def)
  from setup_switch [OF this assms(4,5)] have "cpu (ARCH_SWITCH_CONTEXT r st2) = (pre_irq_regs st1)\<lparr>r_magic := r_magic (cpu st2)\<rparr>" by blast
  then show ?thesis by (simp add: p)
qed

text \<open>A processor with distinct small numbers in its registers.\<close>

definition small_cpu :: cpu_state where
  "small_cpu = dev_state.extend no_devices (cpu_state.fields
     \<lparr>r_magic = 0, r_cr3 = 0x5000, r_edi = 1, r_esi = 2, r_ebp = 3, r_esp = 0x9000, r_ebx = 4, r_edx = 5, r_ecx = 6, r_eax = 7,
      r_eip = 0x100000, r_cs = 8, r_eflags = 0x202\<rparr> 0 0 \<lparr>r_magic = 0, r_cr3 = 0, r_edi = 0, r_esi = 0, r_ebp = 0, r_esp = 0, r_ebx = 0, r_edx = 0,
      r_ecx = 0, r_eax = 0, r_eip = 0, r_cs = 0, r_eflags = 0\<rparr> 0xFF 0 (\<lambda>d. d))"

lemma small_cpu_ok: "regs_ok (cpu small_cpu)" "r_esp (cpu small_cpu) = 0x9000" "r_eip (cpu small_cpu) = 0x100000"
  by (simp_all add: small_cpu_def dev_state.extend_def cpu_state.fields_def regs_ok_def)

theorem context_roundtrip_witness:
  "\<exists>st1 r m'. irq_entry 32 small_cpu = Inr st1 \<and> arch_sched_setup_stack (pre_irq_regs st1) (\<lambda>_. 1) = (r, m') \<and>
     r_eip (cpu (ARCH_SWITCH_CONTEXT r (small_cpu\<lparr>ram := m'\<rparr>))) = 0x100000"
proof -
  have e: "52 \<le> r_esp (cpu small_cpu)" by (simp add: small_cpu_ok)
  obtain st1 where st1: "irq_entry 32 small_cpu = Inr st1" using irq_entry_saves [OF small_cpu_ok(1) e] by blast
  obtain r m' where r: "arch_sched_setup_stack (pre_irq_regs st1) (\<lambda>_. 1) = (r, m')" by fastforce
  have "(cpu (ARCH_SWITCH_CONTEXT r (small_cpu\<lparr>ram := m'\<rparr>)))\<lparr>r_magic := r_magic (cpu small_cpu)\<rparr> = cpu small_cpu"
    by (rule context_roundtrip [OF small_cpu_ok(1) e st1 r]) simp
  then have "r_eip (cpu (ARCH_SWITCH_CONTEXT r (small_cpu\<lparr>ram := m'\<rparr>))) = r_eip (cpu small_cpu)"
    by (metis pt_regs.select_convs(11) pt_regs.surjective pt_regs.update_convs(1))
  then show ?thesis using st1 r by (simp add: small_cpu_ok)
qed

end
