(* ===== verification/Sched.thy ===== *)
theory Sched
  imports Context CMem
begin

text \<open>
  kernel/sched.c: processes, their threads, and the round-robin scheduler over a queue of 32 thread
  pointers. Processes and threads are kept in stores indexed by their addresses; 0 is the null pointer. The
  routines that allocate take the pointers that the allocator returned.
\<close>

section \<open>State\<close>

datatype thread_state = THREAD_NULL | THREAD_RUNNING | THREAD_PREEMPTED | THREAD_READY | THREAD_ZOMBIE | THREAD_REMOVED

record thread =
  t_tid :: int
  t_state :: thread_state
  time_used :: int
  t_owner :: nat
  t_regs :: pt_regs

record process =
  p_comm :: nat
  p_pid :: int
  no_threads :: nat
  p_threads :: "nat list"
  file_table :: "nat list"
  p_page_dir :: nat

abbreviation THREAD_QUEUE_SIZE :: nat where "THREAD_QUEUE_SIZE \<equiv> 32"
abbreviation MAX_PROC_TIME :: int where "MAX_PROC_TIME \<equiv> 10"

text \<open>\<open>klog\<close> records the messages printed, with their arguments.\<close>

record sched_state = cpu_state +
  thread_queue :: "nat list"
  sched_next :: nat
  cur_processes :: int
  cur_threads :: int
  can_schedule :: bool
  sched_online :: bool
  global_pid :: int
  current :: nat
  threads :: "nat \<Rightarrow> thread option"
  procs :: "nat \<Rightarrow> process option"
  klog :: "(string \<times> int list) list"

definition say :: "string \<Rightarrow> int list \<Rightarrow> 'a sched_state_scheme \<Rightarrow> 'a sched_state_scheme" where
  "say f args st = st\<lparr>klog := klog st @ [(f, args)]\<rparr>"

definition with_thread :: "nat \<Rightarrow> 'a sched_state_scheme \<Rightarrow> (thread \<Rightarrow> 'b outcome) \<Rightarrow> 'b outcome" where
  "with_thread t st f = (case threads st t of None \<Rightarrow> Inl (Undefined ''thread pointer'') | Some th \<Rightarrow> f th)"

definition with_proc :: "nat \<Rightarrow> 'a sched_state_scheme \<Rightarrow> (process \<Rightarrow> 'b outcome) \<Rightarrow> 'b outcome" where
  "with_proc p st f = (case procs st p of None \<Rightarrow> Inl (Undefined ''process pointer'') | Some pr \<Rightarrow> f pr)"

definition set_thread :: "nat \<Rightarrow> thread \<Rightarrow> 'a sched_state_scheme \<Rightarrow> 'a sched_state_scheme" where
  "set_thread t th st = st\<lparr>threads := (threads st)(t \<mapsto> th)\<rparr>"

definition set_proc :: "nat \<Rightarrow> process \<Rightarrow> 'a sched_state_scheme \<Rightarrow> 'a sched_state_scheme" where
  "set_proc p pr st = st\<lparr>procs := (procs st)(p \<mapsto> pr)\<rparr>"

section \<open>Processes\<close>

definition sched_init :: "'a sched_state_scheme \<Rightarrow> int \<times> 'a sched_state_scheme" where
  "sched_init st =
     (0, (say ''sched: beta version'' [] st)\<lparr>thread_queue := replicate THREAD_QUEUE_SIZE 0, cur_threads := 0, current := 0\<rparr>)"

text \<open>The inner loop of \<open>sched_add_process\<close>: the first free slot; the result is the index where it stops.\<close>

definition enqueue :: "nat \<Rightarrow> nat list \<Rightarrow> nat \<times> nat list" where
  "enqueue t q = (case scan (\<lambda>i. q ! i = 0) 0 THREAD_QUEUE_SIZE of None \<Rightarrow> (THREAD_QUEUE_SIZE, q) | Some i \<Rightarrow> (i, q[i := t]))"

primrec enqueue_all :: "nat list \<Rightarrow> nat \<Rightarrow> nat list \<Rightarrow> nat \<times> nat list" where
  "enqueue_all [] i q = (i, q)"
| "enqueue_all (t # ts) i q = (let (i', q') = enqueue t q in enqueue_all ts i' q')"

primrec set_states :: "thread_state \<Rightarrow> nat list \<Rightarrow> 'a sched_state_scheme \<Rightarrow> 'a sched_state_scheme outcome" where
  "set_states s [] st = Inr st"
| "set_states s (t # ts) st = with_thread t st (\<lambda>th. set_states s ts (set_thread t (th\<lparr>t_state := s\<rparr>) st))"

definition sched_add_process :: "nat \<Rightarrow> 'a sched_state_scheme \<Rightarrow> (int \<times> 'a sched_state_scheme) outcome" where
  "sched_add_process p st =
     (if p = 0 then Inr (- EINVAL, st)
      else with_proc p st (\<lambda>pr.
        if cur_threads st + int (no_threads pr) \<ge> int THREAD_QUEUE_SIZE then Inr (- ENOSPC, st)
        else let (i, q) = enqueue_all (p_threads pr) 0 (thread_queue st);
                 st1 = st\<lparr>thread_queue := q, cur_processes := cur_processes st + 1, cur_threads := cur_threads st + int (no_threads pr)\<rparr>;
                 st2 = say ''sched: process \"%s\" added as PID %d (proc_queue_pos=%d)'' [int (p_comm pr), p_pid pr, int i] st1
             in bindR (set_states THREAD_READY (p_threads pr) st2) (\<lambda>st3. Inr (0, st3))))"

definition sched_mark_zombie :: "nat \<Rightarrow> 'a sched_state_scheme \<Rightarrow> (int \<times> 'a sched_state_scheme) outcome" where
  "sched_mark_zombie p st = with_proc p st (\<lambda>pr. bindR (set_states THREAD_ZOMBIE (p_threads pr) st) (\<lambda>st'. Inr (0, st')))"

definition sched_destroy_process :: "nat \<Rightarrow> 'a sched_state_scheme \<Rightarrow> int \<times> 'a sched_state_scheme" where
  "sched_destroy_process p st = (0, st)"

text \<open>\<open>pg\<close> is what \<open>mm_alloc_pages(1)\<close> returned.\<close>

definition sched_create_stack :: "nat \<Rightarrow> nat \<Rightarrow> 'a sched_state_scheme \<Rightarrow> (int \<times> 'a sched_state_scheme) outcome" where
  "sched_create_stack t pg st =
     (if t = 0 then Inr (- EINVAL, st)
      else if pg = 0 then Inr (- ENOMEM, st)
      else with_thread t st (\<lambda>th.
        let s = add32 pg 4096
        in Inr (0, set_thread t (th\<lparr>t_regs := (t_regs th)\<lparr>r_esp := s, r_ebp := s\<rparr>\<rparr>) (st\<lparr>ram := memset pg 0 4096 (ram st)\<rparr>))))"

text \<open>
  The results of the allocations of \<open>sched_mk_process\<close>, with what the memory of the new structures held before:
  the fields that are not set keep that.
\<close>

record mk_ptrs =
  mk_p :: nat
  mk_t :: nat
  mk_threads :: nat
  mk_dir :: nat
  mk_stack :: nat
  mk_junk_p :: process
  mk_junk_t :: thread

definition sched_make_filetable :: "nat \<Rightarrow> process \<Rightarrow> process" where
  "sched_make_filetable console_file pr = pr\<lparr>file_table := (file_table pr)[0 := 0, 1 := console_file]\<rparr>"

definition sched_mk_process :: "nat \<Rightarrow> nat \<Rightarrow> nat \<Rightarrow> mk_ptrs \<Rightarrow> 'a sched_state_scheme \<Rightarrow> (nat \<times> 'a sched_state_scheme) outcome" where
  "sched_mk_process console_file comm entry ps st =
     (if comm = 0 \<or> entry = 0 then Inr (0, st)
      else if mk_p ps = 0 \<or> mk_t ps = 0 \<or> mk_threads ps = 0 then Inr (0, st)
      else
        let pr = (mk_junk_p ps)\<lparr>p_comm := comm, p_pid := global_pid st, no_threads := 1, p_threads := [mk_t ps],
                    p_page_dir := (if mk_dir ps = 0 then p_page_dir (mk_junk_p ps) else mk_dir ps)\<rparr>;
            th = (mk_junk_t ps)\<lparr>t_owner := mk_p ps, time_used := 0, t_state := THREAD_NULL,
                    t_regs := (arch_sched_mk_initial_regs st)\<lparr>r_eip := entry\<rparr>\<rparr>;
            st1 = set_thread (mk_t ps) th (set_proc (mk_p ps) pr (st\<lparr>global_pid := global_pid st + 1\<rparr>))
        in bindR (sched_create_stack (mk_t ps) (mk_stack ps) st1) (\<lambda>(r, st2).
             if r \<noteq> 0 then Inr (0, st2\<lparr>procs := (procs st2)(mk_p ps := None)\<rparr>)
             else with_thread (mk_t ps) st2 (\<lambda>th2.
               Inr (mk_p ps, say ''sched: newproc: IP: 0x%x SP: 0x%x'' [int (r_eip (t_regs th2)), int (r_esp (t_regs th2))]
                     (set_proc (mk_p ps) (sched_make_filetable console_file pr) st2)))))"

primrec find_pid :: "nat list \<Rightarrow> int \<Rightarrow> 'a sched_state_scheme \<Rightarrow> nat outcome" where
  "find_pid [] pid st = Inr 0"
| "find_pid (t # q) pid st =
     (if t = 0 then find_pid q pid st
      else with_thread t st (\<lambda>th. with_proc (t_owner th) st (\<lambda>pr. if p_pid pr = pid then Inr (t_owner th) else find_pid q pid st)))"

definition get_process_by_pid :: "int \<Rightarrow> 'a sched_state_scheme \<Rightarrow> nat outcome" where
  "get_process_by_pid pid st = find_pid (thread_queue st) pid st"

primrec any_running :: "nat list \<Rightarrow> 'a sched_state_scheme \<Rightarrow> bool outcome" where
  "any_running [] st = Inr False"
| "any_running (t # ts) st = with_thread t st (\<lambda>th. if t_state th = THREAD_RUNNING then Inr True else any_running ts st)"

definition sched_destroy_pid :: "int \<Rightarrow> 'a sched_state_scheme \<Rightarrow> (int \<times> 'a sched_state_scheme) outcome" where
  "sched_destroy_pid pid st =
     bindR (get_process_by_pid pid st) (\<lambda>p.
       if p = 0 then Inr (- EINVAL, st)
       else with_proc p st (\<lambda>pr. bindR (any_running (p_threads pr) st) (\<lambda>b.
              if b then Inr (- EAGAIN, st) else Inr (sched_destroy_process p st))))"

section \<open>Selection\<close>

text \<open>One turn of the loop of \<open>sched_select\<close>: the thread in the next slot, if it may run.\<close>

definition sched_probe :: "'a sched_state_scheme \<Rightarrow> (nat option \<times> 'a sched_state_scheme) outcome" where
  "sched_probe st =
     (let n = (if sched_next st \<ge> THREAD_QUEUE_SIZE then 0 else sched_next st);
          nxt = thread_queue st ! n;
          st' = st\<lparr>sched_next := n + 1\<rparr>
      in if nxt = 0 then Inr (None, st')
         else with_thread nxt st (\<lambda>th.
           if t_state th = THREAD_ZOMBIE then Inr (None, st')
           else with_proc (t_owner th) st (\<lambda>pr.
             if p_pid pr = 0 \<and> cur_threads st > 1 then Inr (None, st') else Inr (Some nxt, st'))))"

partial_function (option) select_loop :: "'a sched_state_scheme \<Rightarrow> (nat \<times> 'a sched_state_scheme) outcome option" where
  "select_loop st = (case sched_probe st of
       Inl h \<Rightarrow> Some (Inl h)
     | Inr (None, st') \<Rightarrow> select_loop st'
     | Inr (Some t, st') \<Rightarrow> Some (Inr (t, st')))"

definition sched_select :: "'a sched_state_scheme \<Rightarrow> (nat \<times> 'a sched_state_scheme) outcome" where
  "sched_select st = (case select_loop st of None \<Rightarrow> Inl Hang | Some r \<Rightarrow> r)"

section \<open>Scheduling\<close>

text \<open>From the label \<open>next\<close> on; the context switch does not return.\<close>

definition sched_switch :: "'a sched_state_scheme \<Rightarrow> (bool \<times> 'a sched_state_scheme) outcome" where
  "sched_switch st =
     bindR (sched_select st) (\<lambda>(t, st1). with_thread t st1 (\<lambda>th. with_proc (t_owner th) st1 (\<lambda>pr.
       let (r, m) = arch_sched_setup_stack (t_regs th) (ram st1);
           st2 = set_thread t (th\<lparr>time_used := 0, t_state := THREAD_RUNNING, t_regs := r\<rparr>) (st1\<lparr>current := t, ram := m\<rparr>)
       in bindR (arch_prep_exit_irq (arch_sched_setup_address_space (p_page_dir pr) st2))
            (\<lambda>st3. Inr (True, ARCH_SWITCH_CONTEXT r st3)))))"

text \<open>The result says whether the context was switched; otherwise the interrupted code goes on.\<close>

definition sched_schedule :: "'a sched_state_scheme \<Rightarrow> (bool \<times> 'a sched_state_scheme) outcome" where
  "sched_schedule st =
     (if \<not> can_schedule st then Inr (False, st)
      else if current st = 0 then Inl (Panic ''Scheduler has no current process'')
      else with_thread (current st) st (\<lambda>th.
        if t_state th = THREAD_ZOMBIE then sched_switch (snd (sched_destroy_process (t_owner th) st))
        else let th1 = th\<lparr>time_used := time_used th + 1\<rparr>; st1 = set_thread (current st) th1 st
             in if time_used th1 < MAX_PROC_TIME then Inr (False, st1)
                else sched_switch (set_thread (current st) (th1\<lparr>t_state := THREAD_PREEMPTED\<rparr>) st1)))"

text \<open>An interrupt whose handler is \<open>body\<close>: \<open>save_pre_irq_regs\<close> also copies the registers into the current thread.\<close>

definition sched_irq :: "nat \<Rightarrow> ('a sched_state_scheme \<Rightarrow> (bool \<times> 'a sched_state_scheme) outcome) \<Rightarrow>
    'a sched_state_scheme \<Rightarrow> (bool \<times> 'a sched_state_scheme) outcome" where
  "sched_irq n body st =
     bindR (irq_entry n st) (\<lambda>st1.
     bindR (if current st1 = 0 then Inr st1
            else with_thread (current st1) st1 (\<lambda>th. Inr (set_thread (current st1) (th\<lparr>t_regs := pre_irq_regs st1\<rparr>) st1))) (\<lambda>st2.
     bindR (body st2) (\<lambda>(sw, st3). if sw then Inr (True, st3) else bindR (send_eoi st3) (\<lambda>st4. Inr (False, st4)))))"

text \<open>
  Interrupt 0x2F. Its gate is the C function \<open>post_schedule_noirq\<close>, which only calls the handler; the build
  (-O2) makes that call a jump, so that the handler finds the interrupt frame on top of the stack.
\<close>

definition schedule_noirq :: "'a sched_state_scheme \<Rightarrow> (bool \<times> 'a sched_state_scheme) outcome" where
  "schedule_noirq st = with_thread (current st) st (\<lambda>th.
     sched_irq 0x2F sched_schedule (set_thread (current st) (th\<lparr>time_used := MAX_PROC_TIME\<rparr>) st))"

text \<open>
  Removing a process. \<open>None\<close>: the routine does not return, control went to another thread. The loop
  follows every entry of the queue without looking for null.
\<close>

primrec rm_loop :: "nat \<Rightarrow> int \<Rightarrow> 'a sched_state_scheme \<Rightarrow> (nat \<times> 'a sched_state_scheme) outcome" where
  "rm_loop 0 pid st = Inr (0, st)"
| "rm_loop (Suc i) pid st =
     bindR (rm_loop i pid st) (\<lambda>(success, st1).
       if thread_queue st1 ! i = 0 then Inl (Undefined ''null thread'')
       else with_thread (thread_queue st1 ! i) st1 (\<lambda>th. with_proc (t_owner th) st1 (\<lambda>pr.
         if p_pid pr = pid then Inr (success + 1, st1\<lparr>thread_queue := (thread_queue st1)[i := 0]\<rparr>) else Inr (success, st1))))"

definition sched_rm_process :: "nat \<Rightarrow> 'a sched_state_scheme \<Rightarrow> (int option \<times> 'a sched_state_scheme) outcome" where
  "sched_rm_process p st =
     (if p = 0 then Inr (Some (- EINVAL), st)
      else with_proc p st (\<lambda>pr. with_thread (current st) st (\<lambda>cur. with_proc (t_owner cur) st (\<lambda>cpr.
        bindR (if p_pid pr = p_pid cpr
               then if p_pid cpr = 1 then Inl (Panic ''Attempted to kill init process!'')
                    else bindR (sched_mark_zombie (t_owner cur) st) (\<lambda>(_, st1). schedule_noirq st1)
               else Inr (False, st))
          (\<lambda>(sw, st2). if sw then Inr (None, st2)
             else bindR (rm_loop THREAD_QUEUE_SIZE (p_pid pr) st2) (\<lambda>(success, st3).
               if success = 0 then Inr (Some (- EINVAL), st3)
               else let st4 = st3\<lparr>cur_processes := cur_processes st3 - 1, cur_threads := cur_threads st3 - int success\<rparr>;
                        (rc, st5) = sched_destroy_process p st4
                    in Inr (Some rc, st5)))))))"

text \<open>The idle task enables scheduling; \<open>sched_start_idle\<close> makes the first two processes and switches to the first.\<close>

definition idle_task_begin :: "'a sched_state_scheme \<Rightarrow> 'a sched_state_scheme" where
  "idle_task_begin st = say ''idle: idling...'' [] (st\<lparr>sched_online := True, can_schedule := True\<rparr>)"

definition sched_start_idle :: "nat \<Rightarrow> nat \<Rightarrow> nat \<Rightarrow> nat \<Rightarrow> nat \<Rightarrow> mk_ptrs \<Rightarrow> mk_ptrs \<Rightarrow> 'a sched_state_scheme \<Rightarrow> 'a sched_state_scheme outcome" where
  "sched_start_idle console_file idle_name idle_entry init_name init_entry ps qs st =
     bindR (sched_mk_process console_file idle_name idle_entry ps (say ''sched: starting idle task'' [] st)) (\<lambda>(idle, st1).
     bindR (sched_add_process idle st1) (\<lambda>(_, st2).
     with_proc idle st2 (\<lambda>ipr.
       let st3 = st2\<lparr>current := p_threads ipr ! 0\<rparr>
       in bindR (sched_mk_process console_file init_name init_entry qs st3) (\<lambda>(kinit, st4).
          bindR (sched_add_process kinit st4) (\<lambda>(_, st5).
          with_thread (current st5) st5 (\<lambda>th.
            let (r, m) = arch_sched_setup_stack (t_regs th) (ram st5);
                st6 = set_thread (current st5) (th\<lparr>t_regs := r\<rparr>) (st5\<lparr>ram := m\<rparr>)
            in Inr (ARCH_SWITCH_CONTEXT r st6)))))))"

end
