(* ===== verification/SchedProps.thy ===== *)
theory SchedProps
  imports Sched "HOL-Library.Multiset"
begin

text \<open>
  What the scheduler does: round-robin selection, its fairness, the time slice and the switch, the queue
  invariant, and what becomes of the removal of a process.
\<close>

section \<open>Selection\<close>

definition runnable :: "'a sched_state_scheme \<Rightarrow> nat \<Rightarrow> bool" where
  "runnable st t \<longleftrightarrow> t \<noteq> 0 \<and> (case threads st t of None \<Rightarrow> False | Some th \<Rightarrow> t_state th \<noteq> THREAD_ZOMBIE \<and>
     (case procs st (t_owner th) of None \<Rightarrow> False | Some pr \<Rightarrow> \<not> (p_pid pr = 0 \<and> cur_threads st > 1)))"

definition thread_ok :: "'a sched_state_scheme \<Rightarrow> nat \<Rightarrow> bool" where
  "thread_ok st t \<longleftrightarrow> (\<exists>th pr. threads st t = Some th \<and> procs st (t_owner th) = Some pr)"

definition queue_ok :: "'a sched_state_scheme \<Rightarrow> bool" where
  "queue_ok st \<longleftrightarrow> length (thread_queue st) = THREAD_QUEUE_SIZE \<and> (\<forall>t\<in>set (thread_queue st). t \<noteq> 0 \<longrightarrow> thread_ok st t)"

definition start :: "'a sched_state_scheme \<Rightarrow> nat" where
  "start st = (if sched_next st \<ge> THREAD_QUEUE_SIZE then 0 else sched_next st)"

definition slot :: "'a sched_state_scheme \<Rightarrow> nat \<Rightarrow> nat" where
  "slot st k = (start st + k) mod THREAD_QUEUE_SIZE"

lemma start_less: "start st < THREAD_QUEUE_SIZE"
  by (simp add: start_def)

lemma slot_less [simp]: "slot st k < THREAD_QUEUE_SIZE"
  by (simp add: slot_def)

lemma slot_0: "slot st 0 = start st"
  using start_less [of st] by (simp add: slot_def)

lemma sel_next [simp]:
  "runnable (st\<lparr>sched_next := n\<rparr>) t = runnable st t" "queue_ok (st\<lparr>sched_next := n\<rparr>) = queue_ok st"
  by (simp_all add: runnable_def queue_ok_def thread_ok_def split: option.splits)

lemma start_step: "start (st\<lparr>sched_next := start st + 1\<rparr>) = (start st + 1) mod THREAD_QUEUE_SIZE"
proof (cases "start st = 31")
  case False
  then have "start st + 1 < THREAD_QUEUE_SIZE" using start_less [of st] by linarith
  then show ?thesis by (simp add: start_def)
qed (simp add: start_def)

lemma slot_step: "slot (st\<lparr>sched_next := start st + 1\<rparr>) k = slot st (Suc k)"
  unfolding slot_def start_step by (simp add: mod_simps)

lemmas slot_steps = slot_step slot_step [simplified]

lemma probe:
  assumes "queue_ok st"
  defines "t \<equiv> thread_queue st ! start st"
  shows "sched_probe st = Inr (if runnable st t then Some t else None, st\<lparr>sched_next := start st + 1\<rparr>)"
proof -
  have "t \<in> set (thread_queue st)" using assms start_less [of st] by (simp add: queue_ok_def)
  then have "t \<noteq> 0 \<longrightarrow> thread_ok st t" using assms(1) by (auto simp: queue_ok_def)
  then show ?thesis
    unfolding t_def sched_probe_def start_def [symmetric] Let_def
    by (auto simp: with_thread_def with_proc_def runnable_def thread_ok_def)
qed

lemma select_loop_found:
  assumes "queue_ok st" "runnable st (thread_queue st ! slot st k)" "\<forall>j<k. \<not> runnable st (thread_queue st ! slot st j)"
  shows "select_loop st = Some (Inr (thread_queue st ! slot st k, st\<lparr>sched_next := slot st k + 1\<rparr>))"
  using assms
proof (induction k arbitrary: st)
  case 0
  then show ?case by (subst select_loop.simps) (simp add: probe slot_0)
next
  case (Suc k)
  let ?s = "st\<lparr>sched_next := start st + 1\<rparr>"
  have n: "\<not> runnable st (thread_queue st ! start st)" using Suc.prems(3) slot_0 [of st] by (metis zero_less_Suc)
  have "select_loop ?s = Some (Inr (thread_queue ?s ! slot ?s k, ?s\<lparr>sched_next := slot ?s k + 1\<rparr>))"
    by (rule Suc.IH) (use Suc.prems in \<open>auto simp: slot_steps\<close>)
  then show ?case using n Suc.prems(1) by (subst select_loop.simps) (simp add: probe slot_steps)
qed

lemma select_loop_result:
  assumes "select_loop st = Some r" "queue_ok st"
  shows "\<exists>k. runnable st (thread_queue st ! slot st k)"
proof -
  let ?P = "\<lambda>(st :: 'a sched_state_scheme) (r :: (nat \<times> 'a sched_state_scheme) outcome).
    queue_ok st \<longrightarrow> (\<exists>k. runnable st (thread_queue st ! slot st k))"
  have "?P st r"
  proof (rule select_loop.raw_induct [of ?P, OF _ assms(1)], rule impI, goal_cases step)
    case (step w st r)
    let ?s = "st\<lparr>sched_next := start st + 1\<rparr>"
    show ?case
    proof (cases "runnable st (thread_queue st ! start st)")
      case True
      then show ?thesis by (intro exI [of _ 0]) (simp add: slot_0)
    next
      case False
      then have "w ?s = Some r" using step(2,3) by (simp add: probe)
      then obtain k where "runnable ?s (thread_queue ?s ! slot ?s k)" using step(1,3) by fastforce
      then show ?thesis by (intro exI [of _ "Suc k"]) (simp add: slot_steps)
    qed
  qed
  then show ?thesis using assms(2) by blast
qed

lemma slot_ex: "(\<exists>k. P (slot st k)) \<longleftrightarrow> (\<exists>i<THREAD_QUEUE_SIZE. P i)"
proof
  assume "\<exists>i<THREAD_QUEUE_SIZE. P i"
  then obtain i where i: "i < THREAD_QUEUE_SIZE" "P i" by blast
  have "slot st (i + (THREAD_QUEUE_SIZE - start st)) = i"
    using start_less [of st] i(1) by (simp add: slot_def)
  then show "\<exists>k. P (slot st k)" using i(2) by metis
qed (use slot_less in blast)

lemma select_spec:
  assumes "queue_ok st"
  shows "(\<forall>i<THREAD_QUEUE_SIZE. \<not> runnable st (thread_queue st ! i)) \<and> sched_select st = Inl Hang \<or>
    (\<exists>k<THREAD_QUEUE_SIZE. runnable st (thread_queue st ! slot st k) \<and> (\<forall>j<k. \<not> runnable st (thread_queue st ! slot st j)) \<and>
       sched_select st = Inr (thread_queue st ! slot st k, st\<lparr>sched_next := slot st k + 1\<rparr>))"
proof (cases "\<exists>k. runnable st (thread_queue st ! slot st k)")
  case True
  define k where "k = (LEAST k. runnable st (thread_queue st ! slot st k))"
  have k: "runnable st (thread_queue st ! slot st k)" unfolding k_def by (rule LeastI_ex [OF True])
  have l: "\<forall>j<k. \<not> runnable st (thread_queue st ! slot st j)" unfolding k_def using not_less_Least by blast
  have "k < THREAD_QUEUE_SIZE"
  proof (rule ccontr)
    assume "\<not> ?thesis"
    then have "slot st (k - THREAD_QUEUE_SIZE) = slot st k" by (simp add: slot_def mod_if [of "start st + k"])
    then show False using k l \<open>\<not> k < THREAD_QUEUE_SIZE\<close> by (metis diff_less less_numeral_extra(3) linorder_not_le order.strict_trans2 zero_less_numeral)
  qed
  then show ?thesis using k l select_loop_found [OF assms k l] by (auto simp: sched_select_def)
next
  case False
  then have "select_loop st = None" using select_loop_result [OF _ assms] by (cases "select_loop st") auto
  then show ?thesis using False slot_ex [of "\<lambda>i. runnable st (thread_queue st ! i)"] by (auto simp: sched_select_def)
qed

text \<open>
  C27. \<open>sched_select\<close> returns exactly if some thread of the queue may run; it takes the first such thread at
  or after the slot behind the last one selected, cyclically, and continues behind it the next time. With
  no such thread the kernel loops for ever.
\<close>

theorem sched_select_round_robin:
  assumes "queue_ok st"
  shows "(\<forall>i<THREAD_QUEUE_SIZE. \<not> runnable st (thread_queue st ! i)) \<and> sched_select st = Inl Hang \<or>
    (\<exists>k<THREAD_QUEUE_SIZE. runnable st (thread_queue st ! slot st k) \<and> (\<forall>j<k. \<not> runnable st (thread_queue st ! slot st j)) \<and>
       sched_select st = Inr (thread_queue st ! slot st k, st\<lparr>sched_next := slot st k + 1\<rparr>))"
  by (rule select_spec [OF assms])

text \<open>\<open>n\<close> selections in a row, with the threads selected.\<close>

primrec selections :: "nat \<Rightarrow> 'a sched_state_scheme \<Rightarrow> (nat list \<times> 'a sched_state_scheme) outcome" where
  "selections 0 st = Inr ([], st)"
| "selections (Suc n) st = bindR (sched_select st) (\<lambda>(t, st1). bindR (selections n st1) (\<lambda>(ts, st2). Inr (t # ts, st2)))"

lemma select_next:
  assumes "queue_ok st" "\<exists>i<THREAD_QUEUE_SIZE. runnable st (thread_queue st ! i)"
  obtains k where "k < THREAD_QUEUE_SIZE" "runnable st (thread_queue st ! slot st k)" "\<forall>j<k. \<not> runnable st (thread_queue st ! slot st j)"
    "sched_select st = Inr (thread_queue st ! slot st k, st\<lparr>sched_next := slot st k + 1\<rparr>)"
  using select_spec [OF assms(1)] assms(2) by blast

lemma slot_shift: "slot (st\<lparr>sched_next := slot st k + 1\<rparr>) d = slot st (k + 1 + d)"
proof -
  have "start (st\<lparr>sched_next := slot st k + 1\<rparr>) = (slot st k + 1) mod THREAD_QUEUE_SIZE"
  proof (cases "slot st k = 31")
    case False
    then have "slot st k + 1 < THREAD_QUEUE_SIZE" using slot_less [of st k] by linarith
    then show ?thesis by (simp add: start_def)
  qed (simp add: start_def)
  then show ?thesis by (simp add: slot_def mod_simps add.assoc)
qed

lemma selections_ok:
  assumes "queue_ok st" "\<exists>i<THREAD_QUEUE_SIZE. runnable st (thread_queue st ! i)"
  shows "\<exists>ts m. selections n st = Inr (ts, st\<lparr>sched_next := m\<rparr>) \<and> length ts = n \<and>
    (\<forall>d<n. runnable st (thread_queue st ! slot st d) \<longrightarrow> thread_queue st ! slot st d \<in> set ts)"
  using assms
proof (induction n arbitrary: st)
  case 0
  then show ?case by (intro exI [of _ "[]"] exI [of _ "sched_next st"]) simp
next
  case (Suc n)
  obtain k where k: "k < THREAD_QUEUE_SIZE" "runnable st (thread_queue st ! slot st k)" "\<forall>j<k. \<not> runnable st (thread_queue st ! slot st j)"
    "sched_select st = Inr (thread_queue st ! slot st k, st\<lparr>sched_next := slot st k + 1\<rparr>)"
    using select_next [OF Suc.prems] by blast
  let ?s = "st\<lparr>sched_next := slot st k + 1\<rparr>"
  obtain ts m where ts: "selections n ?s = Inr (ts, ?s\<lparr>sched_next := m\<rparr>)" "length ts = n"
    "\<forall>d<n. runnable ?s (thread_queue ?s ! slot ?s d) \<longrightarrow> thread_queue ?s ! slot ?s d \<in> set ts"
    using Suc.IH [of ?s] Suc.prems by auto
  have "thread_queue st ! slot st d \<in> set (thread_queue st ! slot st k # ts)"
    if d: "d < Suc n" "runnable st (thread_queue st ! slot st d)" for d
  proof -
    consider "d < k" | "d = k" | e where "d = k + 1 + e" by (metis Suc_eq_plus1 less_imp_Suc_add linorder_neqE_nat add_Suc_right add_Suc)
    then show ?thesis
    proof cases
      case 1
      then show ?thesis using k(3) d(2) by blast
    next
      case 3
      then show ?thesis using ts(3) d slot_shift [of st k] by auto
    qed simp
  qed
  then show ?case using k(4) ts(1,2) by (intro exI [of _ "thread_queue st ! slot st k # ts"] exI [of _ m]) simp
qed

text \<open>
  C28. No thread starves: as long as the queue and the states of the threads stay as they are, every thread
  that may run is among any 32 selections in a row.
\<close>

theorem sched_fair:
  assumes "queue_ok st" "i < THREAD_QUEUE_SIZE" "runnable st (thread_queue st ! i)"
  shows "\<exists>ts m. selections THREAD_QUEUE_SIZE st = Inr (ts, st\<lparr>sched_next := m\<rparr>) \<and> thread_queue st ! i \<in> set ts"
proof -
  obtain ts m where ts: "selections THREAD_QUEUE_SIZE st = Inr (ts, st\<lparr>sched_next := m\<rparr>)"
    "\<forall>d<THREAD_QUEUE_SIZE. runnable st (thread_queue st ! slot st d) \<longrightarrow> thread_queue st ! slot st d \<in> set ts"
    using selections_ok [OF assms(1)] assms(2,3) by blast
  let ?d = "(i + (THREAD_QUEUE_SIZE - start st)) mod THREAD_QUEUE_SIZE"
  have "slot st ?d = i" using assms(2) start_less [of st] by (simp add: slot_def mod_simps)
  moreover have "?d < THREAD_QUEUE_SIZE" by simp
  ultimately show ?thesis using ts assms(3) by metis
qed

section \<open>Time slices and switching\<close>

text \<open>
  C29. On a timer interrupt a running thread goes on, one tick older, until its tenth tick; then it is
  preempted and the next thread in turn starts a new slice: it is the current, running one, and the
  processor holds its registers.
\<close>

theorem sched_schedule_slice:
  assumes "can_schedule st" "current st \<noteq> 0" "threads st (current st) = Some th" "t_state th \<noteq> THREAD_ZOMBIE"
    "queue_ok st" "thread_ok st (current st)" "current_irq st \<noteq> 0xFF"
    "\<forall>t. runnable st t \<longrightarrow> regs_ok (t_regs (the (threads st t))) \<and> 44 \<le> r_esp (t_regs (the (threads st t)))"
    "\<exists>i<THREAD_QUEUE_SIZE. runnable st (thread_queue st ! i)"
  shows "if time_used th + 1 < MAX_PROC_TIME
    then sched_schedule st = Inr (False, st\<lparr>threads := (threads st)(current st \<mapsto> th\<lparr>time_used := time_used th + 1\<rparr>)\<rparr>)
    else \<exists>st' k t. sched_schedule st = Inr (True, st') \<and> t = thread_queue st ! slot st k \<and> runnable st t \<and>
      (\<forall>j<k. \<not> runnable st (thread_queue st ! slot st j)) \<and> current st' = t \<and>
      (\<exists>th'. threads st' t = Some th' \<and> t_state th' = THREAD_RUNNING \<and> time_used th' = 0) \<and>
      (t \<noteq> current st \<longrightarrow> (\<exists>th'. threads st' (current st) = Some th' \<and> t_state th' = THREAD_PREEMPTED)) \<and>
      (\<exists>x. cpu st' = (t_regs (the (threads st t)))\<lparr>r_magic := x\<rparr>)"
proof (cases "time_used th + 1 < MAX_PROC_TIME")
  case True
  then show ?thesis using assms by (simp add: sched_schedule_def with_thread_def set_thread_def Let_def)
next
  case False
  define th1 where "th1 = th\<lparr>time_used := time_used th + 1, t_state := THREAD_PREEMPTED\<rparr>"
  define s where "s = set_thread (current st) th1 st"
  have run: "sched_schedule st = sched_switch s"
    using False assms(1-4) by (simp add: sched_schedule_def with_thread_def s_def th1_def set_thread_def Let_def)
  have r: "runnable s t = runnable st t" for t
    using assms(3,4,6) by (auto simp: runnable_def s_def set_thread_def th1_def thread_ok_def split: option.splits)
  have tq: "thread_queue s = thread_queue st" "procs s = procs st" "current_irq s = current_irq st" by (simp_all add: s_def set_thread_def)
  have sl: "slot s k = slot st k" for k by (simp add: slot_def start_def s_def set_thread_def)
  have ok: "thread_ok s t = thread_ok st t" if "t \<noteq> current st" for t using that by (simp add: thread_ok_def s_def set_thread_def)
  have "thread_ok s (current st)" using assms(3,6) by (auto simp: thread_ok_def s_def set_thread_def th1_def)
  then have q: "queue_ok s" using assms(5) ok unfolding queue_ok_def tq by metis
  obtain k where k: "k < THREAD_QUEUE_SIZE" "runnable s (thread_queue s ! slot s k)" "\<forall>j<k. \<not> runnable s (thread_queue s ! slot s j)"
    "sched_select s = Inr (thread_queue s ! slot s k, s\<lparr>sched_next := slot s k + 1\<rparr>)"
    using select_next [OF q] assms(9) unfolding tq r by blast
  define t where "t = thread_queue st ! slot st k"
  have t: "runnable st t" "sched_select s = Inr (t, s\<lparr>sched_next := slot s k + 1\<rparr>)" using k by (simp_all add: t_def tq sl r)
  obtain u pr where u: "threads s t = Some u" "procs s (t_owner u) = Some pr"
    using t(1) r [of t] by (auto simp: runnable_def split: option.splits)
  have regs: "t_regs u = t_regs (the (threads st t))"
    using u(1) assms(3) by (cases "t = current st") (auto simp: s_def set_thread_def th1_def)
  have ro: "regs_ok (t_regs u)" "44 \<le> r_esp (t_regs u)" using assms(8) t(1) by (simp_all add: regs)
  obtain rr m where rm: "arch_sched_setup_stack (t_regs u) (ram s) = (rr, m)" by fastforce
  let ?s2 = "set_thread t (u\<lparr>time_used := 0, t_state := THREAD_RUNNING, t_regs := rr\<rparr>) (s\<lparr>sched_next := slot s k + 1, current := t, ram := m\<rparr>)"
  let ?s3 = "arch_sched_setup_address_space (p_page_dir pr) ?s2"
  obtain s4 where s4: "arch_prep_exit_irq ?s3 = Inr s4" "ram s4 = m" "threads s4 = threads ?s2" "current s4 = t"
    using assms(7) by (simp add: arch_prep_exit_irq_def send_eoi_def arch_sched_setup_address_space_def switch_page_dir_def set_thread_def tq outportb_def)
  have sw: "sched_switch s = Inr (True, ARCH_SWITCH_CONTEXT rr s4)"
    using t(2) u rm s4(1) by (simp add: sched_switch_def with_thread_def with_proc_def)
  have c: "cpu (ARCH_SWITCH_CONTEXT rr s4) = (t_regs u)\<lparr>r_magic := r_magic (cpu s4)\<rparr>"
    using setup_switch [OF ro rm s4(2)] by blast
  have th': "threads (ARCH_SWITCH_CONTEXT rr s4) = threads ?s2" "current (ARCH_SWITCH_CONTEXT rr s4) = t"
    using s4 by (simp_all add: ARCH_SWITCH_CONTEXT_def)
  have "threads s (current st) = Some th1" by (simp add: s_def set_thread_def)
  then show ?thesis
    unfolding if_not_P [OF False]
    using run sw c th' t(1) k(3) regs
    by (intro exI [of _ "ARCH_SWITCH_CONTEXT rr s4"] exI [of _ k] exI [of _ t]) (auto simp: t_def tq sl r set_thread_def th1_def)
qed

section \<open>The queue\<close>

abbreviation queued :: "nat list \<Rightarrow> nat list" where
  "queued q \<equiv> filter (\<lambda>t. t \<noteq> 0) q"

text \<open>The counter is the number of queued threads, no thread is queued twice, and one slot is always free.\<close>

definition sched_ok :: "'a sched_state_scheme \<Rightarrow> bool" where
  "sched_ok st \<longleftrightarrow> queue_ok st \<and> distinct (queued (thread_queue st)) \<and> int (length (queued (thread_queue st))) = cur_threads st \<and>
     cur_threads st < int THREAD_QUEUE_SIZE"

lemma free_slot:
  assumes "length q = THREAD_QUEUE_SIZE" "length (queued q) < THREAD_QUEUE_SIZE"
  shows "\<exists>i<THREAD_QUEUE_SIZE. q ! i = 0"
proof (rule ccontr)
  assume "\<not> ?thesis"
  then have "queued q = q" using assms(1) by (auto simp: filter_id_conv in_set_conv_nth)
  then show False using assms by simp
qed

lemma enqueue_ok:
  assumes "length q = THREAD_QUEUE_SIZE" "length (queued q) < THREAD_QUEUE_SIZE" "t \<noteq> 0"
  shows "\<exists>i. enqueue t q = (i, q[i := t]) \<and> length (q[i := t]) = THREAD_QUEUE_SIZE \<and>
    mset (queued (q[i := t])) = add_mset t (mset (queued q))"
proof -
  obtain i where i: "scan (\<lambda>i. q ! i = 0) 0 THREAD_QUEUE_SIZE = Some i"
    using free_slot [OF assms(1,2)] scan_None_iff [of "\<lambda>i. q ! i = 0" 0 THREAD_QUEUE_SIZE]
    by (cases "scan (\<lambda>i. q ! i = 0) 0 THREAD_QUEUE_SIZE") auto
  then have q: "i < length q" "q ! i = 0" using assms(1) by (auto simp: scan_Some_iff)
  have "queued q = queued (take i q) @ queued (drop (Suc i) q)"
    using q by (subst id_take_nth_drop [OF q(1)]) simp
  moreover have "queued (q[i := t]) = queued (take i q) @ t # queued (drop (Suc i) q)"
    using q(1) assms(3) by (simp add: upd_conv_take_nth_drop)
  ultimately show ?thesis using i assms(1) by (intro exI [of _ i]) (simp add: enqueue_def)
qed

lemma enqueue_all_ok:
  assumes "length q = THREAD_QUEUE_SIZE" "length (queued q) + length ts \<le> THREAD_QUEUE_SIZE" "0 \<notin> set ts"
  shows "length (snd (enqueue_all ts i q)) = THREAD_QUEUE_SIZE \<and>
    mset (queued (snd (enqueue_all ts i q))) = mset ts + mset (queued q)"
  using assms
proof (induction ts arbitrary: i q)
  case (Cons t ts)
  have "length (queued q) < THREAD_QUEUE_SIZE" "t \<noteq> 0" using Cons.prems by auto
  then obtain j where j: "enqueue t q = (j, q[j := t])" "length (q[j := t]) = THREAD_QUEUE_SIZE"
    "mset (queued (q[j := t])) = add_mset t (mset (queued q))" using enqueue_ok [OF Cons.prems(1)] by blast
  have "length (queued (q[j := t])) = Suc (length (queued q))" using arg_cong [OF j(3), of size] by (simp only: size_mset size_add_mset)
  then show ?case using Cons.IH [of "q[j := t]" j] Cons.prems j by simp
qed simp

lemma set_states_ok:
  "\<forall>t\<in>set ts. threads st t \<noteq> None \<Longrightarrow>
     set_states s ts st = Inr (st\<lparr>threads := (\<lambda>t. if t \<in> set ts then map_option (\<lambda>th. th\<lparr>t_state := s\<rparr>) (threads st t) else threads st t)\<rparr>)"
proof (induction ts arbitrary: st)
  case (Cons t ts)
  obtain th where th: "threads st t = Some th" using Cons.prems by auto
  let ?s = "set_thread t (th\<lparr>t_state := s\<rparr>) st"
  have "set_states s ts ?s = Inr (?s\<lparr>threads := (\<lambda>u. if u \<in> set ts then map_option (\<lambda>th. th\<lparr>t_state := s\<rparr>) (threads ?s u) else threads ?s u)\<rparr>)"
    by (rule Cons.IH) (use Cons.prems in \<open>auto simp: set_thread_def\<close>)
  moreover have "(\<lambda>u. if u \<in> set ts then map_option (\<lambda>th. th\<lparr>t_state := s\<rparr>) (threads ?s u) else threads ?s u) =
      (\<lambda>u. if u \<in> set (t # ts) then map_option (\<lambda>th. th\<lparr>t_state := s\<rparr>) (threads st u) else threads st u)"
    using th by (auto simp: set_thread_def fun_eq_iff)
  ultimately show ?case using th by (simp add: with_thread_def set_thread_def)
qed simp

lemma add_process:
  assumes "sched_ok st" "p \<noteq> 0" "procs st p = Some pr" "no_threads pr = length (p_threads pr)" "distinct (p_threads pr)"
    "set (p_threads pr) \<inter> set (thread_queue st) = {}" "0 \<notin> set (p_threads pr)"
    "\<forall>t\<in>set (p_threads pr). \<exists>th. threads st t = Some th \<and> t_owner th = p"
  shows "\<exists>rc st'. sched_add_process p st = Inr (rc, st') \<and> sched_ok st' \<and> procs st' = procs st \<and> current st' = current st \<and> global_pid st' = global_pid st \<and>
    (if cur_threads st + int (no_threads pr) \<ge> 32 then rc = - ENOSPC \<and> st' = st
     else rc = 0 \<and> set (queued (thread_queue st')) = set (queued (thread_queue st)) \<union> set (p_threads pr) \<and>
       (\<forall>t. threads st' t = (if t \<in> set (p_threads pr) then map_option (\<lambda>th. th\<lparr>t_state := THREAD_READY\<rparr>) (threads st t) else threads st t)))"
proof (cases "cur_threads st + int (no_threads pr) \<ge> 32")
  case True
  then show ?thesis using assms(1-3) by (simp add: sched_add_process_def with_proc_def)
next
  case False
  let ?ts = "p_threads pr" and ?q = "thread_queue st"
  obtain i q where q: "enqueue_all ?ts 0 ?q = (i, q)" by fastforce
  have st: "length ?q = THREAD_QUEUE_SIZE" "distinct (queued ?q)" "int (length (queued ?q)) = cur_threads st"
    "\<forall>t\<in>set ?q. t \<noteq> 0 \<longrightarrow> thread_ok st t"
    using assms(1) by (auto simp: sched_ok_def queue_ok_def)
  have e: "length q = THREAD_QUEUE_SIZE" "mset (queued q) = mset ?ts + mset (queued ?q)"
    using enqueue_all_ok [OF st(1), of ?ts 0] False st(3) assms(4,7) q by auto
  define f where "f = (\<lambda>t. if t \<in> set ?ts then map_option (\<lambda>th. th\<lparr>t_state := THREAD_READY\<rparr>) (threads st t) else threads st t)"
  define s1 where "s1 = say ''sched: process \"%s\" added as PID %d (proc_queue_pos=%d)'' [int (p_comm pr), p_pid pr, int i]
    (st\<lparr>thread_queue := q, cur_processes := cur_processes st + 1, cur_threads := cur_threads st + int (no_threads pr)\<rparr>)"
  have "\<forall>t\<in>set ?ts. threads s1 t \<noteq> None" using assms(8) by (auto simp: s1_def say_def)
  have th1: "threads s1 = threads st" by (simp add: s1_def say_def)
  note ss = set_states_ok [OF \<open>\<forall>t\<in>set ?ts. threads s1 t \<noteq> None\<close>, of THREAD_READY, unfolded th1, folded f_def]
  have run: "sched_add_process p st = Inr (0, s1\<lparr>threads := f\<rparr>)"
    using False assms(2,3) ss by (simp add: sched_add_process_def with_proc_def q s1_def [symmetric] th1 f_def [symmetric])
  have tok: "thread_ok (s1\<lparr>threads := f\<rparr>) t" if "t \<in> set q" "t \<noteq> 0" for t
  proof (cases "t \<in> set ?ts")
    case True
    then show ?thesis using assms(3,8) by (auto simp: thread_ok_def f_def s1_def say_def)
  next
    case f: False
    have "t \<in># mset (queued q)" using that by simp
    then have "t \<in> set ?q" using f unfolding e(2) by simp
    then show ?thesis using f st(4) that(2) by (auto simp: thread_ok_def f_def s1_def say_def)
  qed
  have "mset (queued q) = mset (?ts @ queued ?q)" using e(2) by simp
  moreover have "distinct (?ts @ queued ?q)" using st(2) assms(5,6) by auto
  ultimately have "distinct (queued q)" using mset_eq_imp_distinct_iff by blast
  moreover have "length (queued q) = length ?ts + length (queued ?q)" using arg_cong [OF e(2), of size] by (simp only: size_mset size_union)
  ultimately have "sched_ok (s1\<lparr>threads := f\<rparr>)"
    using e(1) tok False st(3) assms(4) by (simp add: sched_ok_def queue_ok_def) (simp add: s1_def say_def)
  moreover have "set (queued q) = set (queued ?q) \<union> set ?ts"
    using arg_cong [OF e(2), of set_mset] by auto
  moreover have "thread_queue (s1\<lparr>threads := f\<rparr>) = q" by (simp add: s1_def say_def)
  moreover have "procs (s1\<lparr>threads := f\<rparr>) = procs st" "current (s1\<lparr>threads := f\<rparr>) = current st" "global_pid (s1\<lparr>threads := f\<rparr>) = global_pid st"
    by (simp_all add: s1_def say_def)
  ultimately show ?thesis using run False by (intro exI [of _ 0] exI [of _ "s1\<lparr>threads := f\<rparr>"]) (simp add: f_def)
qed

text \<open>
  C30. Adding a process keeps the invariant of the queue. It is refused, with nothing changed, when 32 threads
  or more would be queued; otherwise all its threads are queued and ready, and the others stay queued.
\<close>

theorem sched_add_process_ok:
  assumes "sched_ok st" "p \<noteq> 0" "procs st p = Some pr" "no_threads pr = length (p_threads pr)" "distinct (p_threads pr)"
    "set (p_threads pr) \<inter> set (thread_queue st) = {}" "0 \<notin> set (p_threads pr)"
    "\<forall>t\<in>set (p_threads pr). \<exists>th. threads st t = Some th \<and> t_owner th = p"
  shows "\<exists>rc st'. sched_add_process p st = Inr (rc, st') \<and> sched_ok st' \<and>
    (if cur_threads st + int (no_threads pr) \<ge> 32 then rc = - ENOSPC \<and> st' = st
     else rc = 0 \<and> set (queued (thread_queue st')) = set (queued (thread_queue st)) \<union> set (p_threads pr) \<and>
       (\<forall>t. threads st' t = (if t \<in> set (p_threads pr) then map_option (\<lambda>th. th\<lparr>t_state := THREAD_READY\<rparr>) (threads st t) else threads st t)))"
  using add_process [OF assms] by blast

lemma rm_loop_undefined:
  assumes "queue_ok st" "i < n" "n \<le> THREAD_QUEUE_SIZE" "thread_queue st ! i = 0"
  shows "rm_loop n pid st = Inl (Undefined ''null thread'')"
proof -
  have run: "(\<exists>k st1. rm_loop j pid st = Inr (k, st1) \<and> threads st1 = threads st \<and> procs st1 = procs st \<and>
      (\<forall>l\<ge>j. thread_queue st1 ! l = thread_queue st ! l)) \<or> rm_loop j pid st = Inl (Undefined ''null thread'')" if "j \<le> n" for j
    using that
  proof (induction j)
    case (Suc j)
    have m: "thread_queue st ! j \<in> set (thread_queue st)" using Suc.prems assms(1,3) by (simp add: queue_ok_def)
    from Suc consider "rm_loop j pid st = Inl (Undefined ''null thread'')"
      | k st1 where "rm_loop j pid st = Inr (k, st1)" "threads st1 = threads st" "procs st1 = procs st" "\<forall>l\<ge>j. thread_queue st1 ! l = thread_queue st ! l"
      by auto
    then show ?case
    proof cases
      case 2
      then have "thread_queue st1 ! j = 0 \<or> thread_ok st (thread_queue st1 ! j)" using m assms(1) by (auto simp: queue_ok_def)
      then show ?thesis using 2 by (auto simp: with_thread_def with_proc_def thread_ok_def)
    qed simp
  qed simp
  have "rm_loop (Suc i) pid st = Inl (Undefined ''null thread'')"
    using run [of i] assms(2,4) by auto
  moreover have "rm_loop (Suc i + d) pid st = Inl (Undefined ''null thread'')" if "rm_loop (Suc i) pid st = Inl (Undefined ''null thread'')" for d
    using that by (induction d) simp_all
  ultimately show ?thesis using assms(2) by (metis Suc_leI le_Suc_ex)
qed

text \<open>
  C31. Removing a process other than the current one is undefined: the loop reads the owner of every queue
  entry, and by the invariant one of them is null.
\<close>

theorem sched_rm_other_undefined:
  assumes "sched_ok st" "p \<noteq> 0" "procs st p = Some pr" "threads st (current st) = Some cur" "procs st (t_owner cur) = Some cpr"
    "p_pid pr \<noteq> p_pid cpr"
  shows "sched_rm_process p st = Inl (Undefined ''null thread'')"
proof -
  have "length (thread_queue st) = THREAD_QUEUE_SIZE" "length (queued (thread_queue st)) < THREAD_QUEUE_SIZE"
    using assms(1) by (auto simp: sched_ok_def queue_ok_def)
  then obtain i where i: "i < THREAD_QUEUE_SIZE" "thread_queue st ! i = 0" using free_slot by blast
  have "rm_loop THREAD_QUEUE_SIZE (p_pid pr) st = Inl (Undefined ''null thread'')"
    using rm_loop_undefined [OF _ i(1) _ i(2)] assms(1) by (simp add: sched_ok_def)
  then show ?thesis using assms(2-6) by (simp add: sched_rm_process_def with_proc_def with_thread_def)
qed

section \<open>Witnesses\<close>

text \<open>The idle thread 0x100 and a ready thread 0x200; thread 0x300 of process 0x30 is new.\<close>

definition small_thread :: "thread_state \<Rightarrow> nat \<Rightarrow> thread" where
  "small_thread s p = \<lparr>t_tid = 0, t_state = s, time_used = 9, t_owner = p, t_regs = cpu small_cpu\<rparr>"

definition small_proc :: "int \<Rightarrow> nat \<Rightarrow> process" where
  "small_proc pid t = \<lparr>p_comm = 0x50, p_pid = pid, no_threads = 1, p_threads = [t], file_table = replicate 128 0, p_page_dir = 0x5000\<rparr>"

definition small_sched :: sched_state where
  "small_sched = cpu_state.extend (small_cpu\<lparr>current_irq := 32\<rparr>) (sched_state.fields ([0x100, 0x200] @ replicate 30 0) 1 2 2 True True 3 0x100
     [0x100 \<mapsto> small_thread THREAD_RUNNING 0x10, 0x200 \<mapsto> small_thread THREAD_READY 0x20, 0x300 \<mapsto> small_thread THREAD_NULL 0x30]
     [0x10 \<mapsto> small_proc 0 0x100, 0x20 \<mapsto> small_proc 1 0x200, 0x30 \<mapsto> small_proc 2 0x300] [])"

lemma small_sched_sel:
  "thread_queue small_sched = [0x100, 0x200] @ replicate 30 0" "sched_next small_sched = 1" "cur_threads small_sched = 2" "current small_sched = 0x100"
  "can_schedule small_sched" "current_irq small_sched = 32"
  "threads small_sched = [0x100 \<mapsto> small_thread THREAD_RUNNING 0x10, 0x200 \<mapsto> small_thread THREAD_READY 0x20, 0x300 \<mapsto> small_thread THREAD_NULL 0x30]"
  "procs small_sched = [0x10 \<mapsto> small_proc 0 0x100, 0x20 \<mapsto> small_proc 1 0x200, 0x30 \<mapsto> small_proc 2 0x300]"
  by (simp_all add: small_sched_def cpu_state.extend_def sched_state.fields_def)

lemma small_sched_ok: "queue_ok small_sched" "sched_ok small_sched" "start small_sched = 1"
  "runnable small_sched t \<longleftrightarrow> t = 0x200 \<or> t = 0x300"
proof -
  have len: "length ([0x100, 0x200] @ replicate 30 0 :: nat list) = 32" by simp
  show q: "queue_ok small_sched"
    unfolding queue_ok_def small_sched_sel len
    by (auto simp: thread_ok_def small_sched_sel small_thread_def)
  have "queued ([0x100, 0x200] @ replicate 30 0) = [0x100, 0x200]" by simp
  then show "sched_ok small_sched" unfolding sched_ok_def small_sched_sel using q by simp
  show "start small_sched = 1" by (simp add: start_def small_sched_sel)
  show "runnable small_sched t \<longleftrightarrow> t = 0x200 \<or> t = 0x300"
    by (auto simp: runnable_def small_sched_sel small_thread_def small_proc_def)
qed

lemma small_slot: "slot small_sched 0 = 1" "thread_queue small_sched ! 1 = 0x200" "thread_queue small_sched ! Suc 0 = 0x200"
  by (simp_all add: slot_def small_sched_ok small_sched_sel)

theorem sched_select_round_robin_witness:
  "\<exists>k. sched_select small_sched = Inr (thread_queue small_sched ! slot small_sched k, small_sched\<lparr>sched_next := slot small_sched k + 1\<rparr>)"
  using sched_select_round_robin [OF small_sched_ok(1)] small_slot by (auto simp: small_sched_ok(4) dest: spec [of _ 1])

theorem sched_fair_witness:
  "\<exists>ts m. selections 32 small_sched = Inr (ts, small_sched\<lparr>sched_next := m\<rparr>) \<and> 0x200 \<in> set ts"
  using sched_fair [OF small_sched_ok(1), of 1] by (simp add: small_slot small_sched_ok(4))

theorem sched_schedule_slice_witness:
  "\<exists>st' t. sched_schedule small_sched = Inr (True, st') \<and> current st' = t \<and> runnable small_sched t"
proof -
  have "if time_used (small_thread THREAD_RUNNING 0x10) + 1 < MAX_PROC_TIME
    then sched_schedule small_sched = Inr (False, small_sched\<lparr>threads := (threads small_sched)
      (current small_sched \<mapsto> (small_thread THREAD_RUNNING 0x10)\<lparr>time_used := time_used (small_thread THREAD_RUNNING 0x10) + 1\<rparr>)\<rparr>)
    else \<exists>st' k t. sched_schedule small_sched = Inr (True, st') \<and> t = thread_queue small_sched ! slot small_sched k \<and> runnable small_sched t \<and>
      (\<forall>j<k. \<not> runnable small_sched (thread_queue small_sched ! slot small_sched j)) \<and> current st' = t \<and>
      (\<exists>th'. threads st' t = Some th' \<and> t_state th' = THREAD_RUNNING \<and> time_used th' = 0) \<and>
      (t \<noteq> current small_sched \<longrightarrow> (\<exists>th'. threads st' (current small_sched) = Some th' \<and> t_state th' = THREAD_PREEMPTED)) \<and>
      (\<exists>x. cpu st' = (t_regs (the (threads small_sched t)))\<lparr>r_magic := x\<rparr>)"
  proof (rule sched_schedule_slice)
    show "\<forall>t. runnable small_sched t \<longrightarrow> regs_ok (t_regs (the (threads small_sched t))) \<and> 44 \<le> r_esp (t_regs (the (threads small_sched t)))"
      using small_cpu_ok by (auto simp: small_sched_ok(4) small_sched_sel small_thread_def)
    show "\<exists>i<THREAD_QUEUE_SIZE. runnable small_sched (thread_queue small_sched ! i)"
      by (rule exI [of _ 1]) (simp add: small_slot small_sched_ok(4))
  qed (simp_all add: small_sched_sel small_sched_ok(1) thread_ok_def, simp_all add: small_thread_def)
  then show ?thesis by (auto simp: small_thread_def)
qed

theorem sched_add_process_ok_witness:
  "\<exists>st'. sched_add_process 0x30 small_sched = Inr (0, st') \<and> sched_ok st' \<and> set (queued (thread_queue st')) = {0x100, 0x200, 0x300}"
  using sched_add_process_ok [OF small_sched_ok(2), of "0x30" "small_proc 2 0x300"]
  by (auto simp: small_sched_sel small_proc_def small_thread_def)

theorem sched_rm_other_undefined_witness:
  "sched_rm_process 0x20 small_sched = Inl (Undefined ''null thread'')"
  using sched_rm_other_undefined [OF small_sched_ok(2), of "0x20" "small_proc 1 0x200" "small_thread THREAD_RUNNING 0x10" "small_proc 0 0x100"]
  by (simp add: small_sched_sel small_thread_def small_proc_def)

end
