(* ===== verification/SchedReach.thy ===== *)
theory SchedReach
  imports SchedProps
begin

text \<open>
  The scheduler over time: the states that the kernel reaches from \<open>sched_start_idle\<close> by interrupts, by processes that come and go, and by what
  the running code does to the rest of the machine.
\<close>

section \<open>The step relation\<close>

text \<open>The queue, the current thread, and the states and owners of the threads are the same; everything else may change.\<close>

definition same_thread :: "thread \<Rightarrow> thread \<Rightarrow> bool" where
  "same_thread th th' \<longleftrightarrow> t_state th' = t_state th \<and> t_owner th' = t_owner th"

definition same_proc :: "process \<Rightarrow> process \<Rightarrow> bool" where
  "same_proc pr pr' \<longleftrightarrow> p_pid pr' = p_pid pr \<and> p_threads pr' = p_threads pr \<and> no_threads pr' = no_threads pr"

definition same_sched :: "'a sched_state_scheme \<Rightarrow> 'a sched_state_scheme \<Rightarrow> bool" where
  "same_sched s s' \<longleftrightarrow> thread_queue s' = thread_queue s \<and> cur_threads s' = cur_threads s \<and> current s' = current s \<and>
     (\<forall>t. rel_option same_thread (threads s t) (threads s' t)) \<and> (\<forall>p. rel_option same_proc (procs s p) (procs s' p))"

text \<open>The allocator returns memory that holds no process and no thread.\<close>

definition fresh_ptrs :: "mk_ptrs \<Rightarrow> 'a sched_state_scheme \<Rightarrow> bool" where
  "fresh_ptrs ps st \<longleftrightarrow> procs st (mk_p ps) = None \<and> threads st (mk_t ps) = None"

inductive sched_step :: "'a sched_state_scheme \<Rightarrow> 'a sched_state_scheme \<Rightarrow> bool" where
  tick: "sched_irq n sched_schedule st = Inr (sw, st') \<Longrightarrow> sched_step st st'"
| yield: "schedule_noirq st = Inr (sw, st') \<Longrightarrow> sched_step st st'"
| make: "fresh_ptrs ps st \<Longrightarrow> sched_mk_process cf comm entry ps st = Inr (p, st1) \<Longrightarrow> sched_add_process p st1 = Inr (rc, st') \<Longrightarrow> sched_step st st'"
| leave: "sched_rm_process p st = Inr (rc, st') \<Longrightarrow> sched_step st st'"
| work: "same_sched st st' \<Longrightarrow> sched_step st st'"

text \<open>
  At boot there are no processes and \<open>global_pid\<close> is 0. \<open>sched_init\<close> empties the queue, \<open>sched_start_idle\<close> makes the idle process, which gets
  PID 0, and \<open>init\<close>, which gets PID 1.
\<close>

definition boot_ptrs :: "mk_ptrs \<Rightarrow> mk_ptrs \<Rightarrow> bool" where
  "boot_ptrs ps qs \<longleftrightarrow> 0 \<notin> {mk_p ps, mk_t ps, mk_threads ps, mk_stack ps, mk_p qs, mk_t qs, mk_threads qs, mk_stack qs} \<and>
     mk_p ps \<noteq> mk_p qs \<and> mk_t ps \<noteq> mk_t qs"

inductive sched_reach :: "'a sched_state_scheme \<Rightarrow> bool" where
  boot: "threads st = Map.empty \<Longrightarrow> procs st = Map.empty \<Longrightarrow> global_pid st = 0 \<Longrightarrow> boot_ptrs ps qs \<Longrightarrow> 0 \<notin> {n1, e1, n2, e2} \<Longrightarrow>
     sched_start_idle cf n1 e1 n2 e2 ps qs (snd (sched_init st)) = Inr st' \<Longrightarrow> sched_reach st'"
| step: "sched_reach st \<Longrightarrow> sched_step st st' \<Longrightarrow> sched_reach st'"

section \<open>The invariant\<close>

definition init_thread :: "'a sched_state_scheme \<Rightarrow> nat \<Rightarrow> bool" where
  "init_thread st t \<longleftrightarrow> t \<noteq> 0 \<and> (\<exists>th pr. threads st t = Some th \<and> t_state th \<noteq> THREAD_ZOMBIE \<and> procs st (t_owner th) = Some pr \<and> p_pid pr = 1)"

definition owned :: "'a sched_state_scheme \<Rightarrow> bool" where
  "owned st \<longleftrightarrow> (\<forall>p pr. procs st p = Some pr \<longrightarrow> length (p_threads pr) = no_threads pr \<and> (\<forall>t\<in>set (p_threads pr). \<exists>th. threads st t = Some th \<and> t_owner th = p))"

definition running_only :: "nat set \<Rightarrow> 'a sched_state_scheme \<Rightarrow> bool" where
  "running_only T st \<longleftrightarrow> (\<forall>t th. threads st t = Some th \<longrightarrow> t_state th = THREAD_RUNNING \<longrightarrow> t \<in> T)"

definition sched_inv :: "'a sched_state_scheme \<Rightarrow> bool" where
  "sched_inv st \<longleftrightarrow> sched_ok st \<and> owned st \<and> current st \<in> set (queued (thread_queue st)) \<and> running_only {current st} st \<and>
     (\<exists>t\<in>set (thread_queue st). init_thread st t)"

lemma init_runnable: "init_thread st t \<Longrightarrow> runnable st t"
  by (auto simp: init_thread_def runnable_def)

lemma same_threadsD:
  assumes "same_sched s s'"
  shows "threads s t = None \<longleftrightarrow> threads s' t = None" "threads s t = Some th \<Longrightarrow> \<exists>th'. threads s' t = Some th' \<and> same_thread th th'"
    "threads s' t = Some th' \<Longrightarrow> \<exists>th. threads s t = Some th \<and> same_thread th th'"
    "procs s p = Some pr \<Longrightarrow> \<exists>pr'. procs s' p = Some pr' \<and> same_proc pr pr'"
    "procs s' p = Some pr' \<Longrightarrow> \<exists>pr. procs s p = Some pr \<and> same_proc pr pr'"
proof -
  have r: "rel_option same_thread (threads s t) (threads s' t)" "rel_option same_proc (procs s p) (procs s' p)"
    using assms by (simp_all add: same_sched_def)
  show "threads s t = None \<longleftrightarrow> threads s' t = None" "threads s t = Some th \<Longrightarrow> \<exists>th'. threads s' t = Some th' \<and> same_thread th th'"
    "threads s' t = Some th' \<Longrightarrow> \<exists>th. threads s t = Some th \<and> same_thread th th'"
    "procs s p = Some pr \<Longrightarrow> \<exists>pr'. procs s' p = Some pr' \<and> same_proc pr pr'"
    "procs s' p = Some pr' \<Longrightarrow> \<exists>pr. procs s p = Some pr \<and> same_proc pr pr'"
    using r by (auto elim: option.rel_cases)
qed

lemma same_thread_ok: "same_sched s s' \<Longrightarrow> thread_ok s t \<Longrightarrow> thread_ok s' t"
  unfolding thread_ok_def using same_threadsD(2,4) by (fastforce simp: same_thread_def)

lemma same_init: "same_sched s s' \<Longrightarrow> init_thread s t \<Longrightarrow> init_thread s' t"
  unfolding init_thread_def using same_threadsD(2,4) by (fastforce simp: same_thread_def same_proc_def)

lemma same_owned: 
  assumes "same_sched s s'" "owned s"
  shows "owned s'"
  unfolding owned_def
proof (intro allI impI)
  fix p pr' assume "procs s' p = Some pr'"
  then obtain pr where pr: "procs s p = Some pr" "same_proc pr pr'" using same_threadsD(5) [OF assms(1)] by blast
  then have "length (p_threads pr) = no_threads pr" "\<forall>t\<in>set (p_threads pr). \<exists>th. threads s t = Some th \<and> t_owner th = p"
    using assms(2) by (auto simp: owned_def)
  then show "length (p_threads pr') = no_threads pr' \<and> (\<forall>t\<in>set (p_threads pr'). \<exists>th. threads s' t = Some th \<and> t_owner th = p)"
    using pr(2) same_threadsD(2) [OF assms(1)] by (fastforce simp: same_proc_def same_thread_def)
qed

lemma same_running: "same_sched s s' \<Longrightarrow> running_only T s \<Longrightarrow> running_only T s'"
  unfolding running_only_def using same_threadsD(3) by (fastforce simp: same_thread_def)

lemma same_ok: "same_sched s s' \<Longrightarrow> sched_ok s \<Longrightarrow> sched_ok s'"
  using same_thread_ok by (auto simp: sched_ok_def queue_ok_def same_sched_def)

lemma same_inv:
  assumes same: "same_sched s s'" and "sched_inv s"
  shows "sched_inv s'"
proof -
  have "thread_queue s' = thread_queue s" "current s' = current s" using same by (simp_all add: same_sched_def)
  then show ?thesis
    using assms(2) same_ok [OF same] same_owned [OF same] same_running [OF same] same_init [OF same] unfolding sched_inv_def by auto
qed

section \<open>A tick\<close>

lemma same_thread_refl [simp]: "same_thread th th" "same_proc pr pr"
  by (simp_all add: same_thread_def same_proc_def)

lemma same_sched_refl [simp]: "same_sched s s"
  by (simp add: same_sched_def option.rel_refl)

lemma rel_option_trans:
  "(\<And>a b c. R a b \<Longrightarrow> R b c \<Longrightarrow> R a c) \<Longrightarrow> rel_option R x y \<Longrightarrow> rel_option R y z \<Longrightarrow> rel_option R x z"
  by (cases x; cases y; cases z) auto

lemma same_sched_trans: "same_sched s1 s2 \<Longrightarrow> same_sched s2 s3 \<Longrightarrow> same_sched s1 s3"
  unfolding same_sched_def
  using rel_option_trans [of same_thread] rel_option_trans [of same_proc] by (simp add: same_thread_def same_proc_def) metis

lemma same_schedI:
  "thread_queue s' = thread_queue s \<Longrightarrow> cur_threads s' = cur_threads s \<Longrightarrow> current s' = current s \<Longrightarrow> procs s' = procs s \<Longrightarrow>
    (\<And>t. rel_option same_thread (threads s t) (threads s' t)) \<Longrightarrow> same_sched s s'"
  by (simp add: same_sched_def option.rel_refl)

lemma same_set_thread: "threads s t = Some th \<Longrightarrow> same_thread th th' \<Longrightarrow> same_sched s (set_thread t th' s)"
  by (intro same_schedI) (simp_all add: set_thread_def option.rel_refl)

text \<open>What the processor does around the handler.\<close>

lemma irq_entry_same: "irq_entry n s = Inr s' \<Longrightarrow> same_sched s s'"
  by (auto simp: irq_entry_def save_pre_irq_regs_def Let_def intro!: same_schedI option.rel_refl split: if_splits)

lemma send_eoi_same: "send_eoi s = Inr s' \<Longrightarrow> same_sched s s'"
  by (auto simp: send_eoi_def outportb_def intro!: same_schedI option.rel_refl split: if_splits)

lemma sched_irq_same:
  assumes "sched_irq n body s = Inr (sw, s')"
  obtains s2 s3 where "same_sched s s2" "body s2 = Inr (sw, s3)" "same_sched s3 s'"
proof -
  obtain s1 s2 where 1: "irq_entry n s = Inr s1"
    and 2: "(if current s1 = 0 then Inr s1
      else with_thread (current s1) s1 (\<lambda>th. Inr (set_thread (current s1) (th\<lparr>t_regs := pre_irq_regs s1\<rparr>) s1))) = Inr s2"
    and 3: "bindR (body s2) (\<lambda>(sw, st3). if sw then Inr (True, st3) else bindR (send_eoi st3) (\<lambda>st4. Inr (False, st4))) = Inr (sw, s')"
    using assms unfolding sched_irq_def bindR_Inr_iff by blast
  have "same_sched s1 s2"
    using 2 by (auto simp: with_thread_def same_thread_def intro!: same_set_thread split: if_splits option.splits)
  then have "same_sched s s2" using irq_entry_same [OF 1] same_sched_trans by blast
  then show ?thesis using 3 that send_eoi_same by (fastforce simp: bindR_Inr_iff split: if_splits)
qed

text \<open>The switch goes to a thread of the queue that may run; with \<open>init\<close> in the queue there is one.\<close>

lemma sched_switch_cases:
  assumes "queue_ok s" "\<exists>t\<in>set (thread_queue s). runnable s t"
  obtains (panic) "current_irq s = 0xFF" "\<exists>h. sched_switch s = Inl h"
  | (go) t th r s' where "current_irq s \<noteq> 0xFF" "sched_switch s = Inr (True, s')" "t \<in> set (thread_queue s)" "runnable s t" "threads s t = Some th"
    "threads s' = (threads s)(t \<mapsto> th\<lparr>time_used := 0, t_state := THREAD_RUNNING, t_regs := r\<rparr>)" "procs s' = procs s" "current s' = t"
    "thread_queue s' = thread_queue s" "cur_threads s' = cur_threads s"
proof -
  have len: "length (thread_queue s) = THREAD_QUEUE_SIZE" using assms(1) by (simp add: queue_ok_def)
  have ex: "\<exists>i<THREAD_QUEUE_SIZE. runnable s (thread_queue s ! i)" using assms(2) len by (metis in_set_conv_nth)
  obtain k where k: "runnable s (thread_queue s ! slot s k)" "sched_select s = Inr (thread_queue s ! slot s k, s\<lparr>sched_next := slot s k + 1\<rparr>)"
    using select_next [OF assms(1) ex] by blast
  let ?t = "thread_queue s ! slot s k"
  have q: "?t \<in> set (thread_queue s)" using len by simp
  obtain th pr where th: "threads s ?t = Some th" "procs s (t_owner th) = Some pr" using k(1) by (auto simp: runnable_def split: option.splits)
  obtain r m where rm: "arch_sched_setup_stack (t_regs th) (ram s) = (r, m)" by fastforce
  let ?s2 = "set_thread ?t (th\<lparr>time_used := 0, t_state := THREAD_RUNNING, t_regs := r\<rparr>) (s\<lparr>sched_next := slot s k + 1, current := ?t, ram := m\<rparr>)"
  let ?s3 = "arch_sched_setup_address_space (p_page_dir pr) ?s2"
  have sw: "sched_switch s = bindR (arch_prep_exit_irq ?s3) (\<lambda>st3. Inr (True, ARCH_SWITCH_CONTEXT r st3))"
    using k(2) th rm by (simp add: sched_switch_def with_thread_def with_proc_def)
  show ?thesis
  proof (cases "current_irq s = 0xFF")
    case True
    then have "sched_switch s = Inl (Panic ''Invalid IRQ context!'')"
      unfolding sw by (simp add: arch_prep_exit_irq_def send_eoi_def arch_sched_setup_address_space_def switch_page_dir_def set_thread_def)
    then show ?thesis using panic True by blast
  next
    case False
    then obtain s4 where "arch_prep_exit_irq ?s3 = Inr s4" "threads s4 = threads ?s2" "current s4 = ?t" "procs s4 = procs s"
      "thread_queue s4 = thread_queue s" "cur_threads s4 = cur_threads s"
      by (simp add: arch_prep_exit_irq_def send_eoi_def arch_sched_setup_address_space_def switch_page_dir_def set_thread_def outportb_def)
    then show ?thesis
      using sw False q k(1) th(1) by (intro go [of "ARCH_SWITCH_CONTEXT r s4" ?t th r]) (simp_all add: ARCH_SWITCH_CONTEXT_def set_thread_def)
  qed
qed

text \<open>A switch is made when no thread is marked as running any more.\<close>

lemma sched_switch_inv:
  assumes ok: "sched_ok s" and ow: "owned s" and no: "running_only {} s" and i: "t \<in> set (thread_queue s)" "init_thread s t"
    and sw: "sched_switch s = Inr (b, s')"
  shows "sched_inv s' \<and> b"
proof -
  have q: "queue_ok s" using ok by (simp add: sched_ok_def)
  have ex: "\<exists>t\<in>set (thread_queue s). runnable s t" using i init_runnable by blast
  show ?thesis
  proof (cases rule: sched_switch_cases [OF q ex, case_names panic go])
    case panic
    then show ?thesis using sw by simp
  next
    case (go u th r s'')
    then have e: "s'' = s'" "b" using sw by auto
    let ?th = "th\<lparr>time_used := 0, t_state := THREAD_RUNNING, t_regs := r\<rparr>"
    have th: "threads s' = (threads s)(u \<mapsto> ?th)" using go(6) e by simp
    have st: "procs s' = procs s" "current s' = u" "thread_queue s' = thread_queue s" "cur_threads s' = cur_threads s" using go e by simp_all
    have "thread_ok s' v" if "thread_ok s v" for v using that go(5) by (auto simp: thread_ok_def th st)
    then have "sched_ok s'" using ok by (auto simp: sched_ok_def queue_ok_def st)
    moreover have "owned s'" using ow go(5) unfolding owned_def th st by fastforce
    moreover have "running_only {u} s'" using no unfolding running_only_def th by auto
    moreover have "u \<noteq> 0" using go(4) by (simp add: runnable_def)
    moreover have "init_thread s' t" using i(2) go(5) unfolding init_thread_def th st by auto
    ultimately show ?thesis using e(2) go(3) i(1) unfolding sched_inv_def st by auto
  qed
qed

text \<open>The current thread leaves the processor: as preempted or as a zombie.\<close>

lemma set_thread_irq [simp]: "current_irq (set_thread t th s) = current_irq s"
  by (simp add: set_thread_def)

lemma running_stop: "running_only {t} s \<Longrightarrow> t_state th \<noteq> THREAD_RUNNING \<Longrightarrow> running_only {} (set_thread t th s)"
  by (auto simp: running_only_def set_thread_def)

lemma schedule_step:
  assumes inv: "sched_inv s"
  shows "sched_schedule s = Inr (b, s') \<Longrightarrow> sched_inv s'"
    and "current_irq s \<noteq> 0xFF \<Longrightarrow> \<exists>b s'. sched_schedule s = Inr (b, s')"
    and "threads s (current s) = Some th \<Longrightarrow> t_state th = THREAD_ZOMBIE \<Longrightarrow> can_schedule s \<Longrightarrow> sched_schedule s = Inr (b, s') \<Longrightarrow> b"
proof -
  let ?c = "current s"
  have c: "?c \<noteq> 0" "?c \<in> set (thread_queue s)" and ok: "sched_ok s" "owned s" "running_only {?c} s" using inv by (auto simp: sched_inv_def)
  obtain i where i: "i \<in> set (thread_queue s)" "init_thread s i" using inv by (auto simp: sched_inv_def)
  have "thread_ok s ?c" using ok(1) c by (auto simp: sched_ok_def queue_ok_def)
  then obtain cur where cur: "threads s ?c = Some cur" by (auto simp: thread_ok_def)
  let ?t1 = "cur\<lparr>time_used := time_used cur + 1\<rparr>" and ?t2 = "cur\<lparr>time_used := time_used cur + 1, t_state := THREAD_PREEMPTED\<rparr>"
  let ?s2 = "set_thread ?c ?t2 s"
  have run: "sched_schedule s = (if \<not> can_schedule s then Inr (False, s) else if t_state cur = THREAD_ZOMBIE then sched_switch s
      else if time_used cur + 1 < MAX_PROC_TIME then Inr (False, set_thread ?c ?t1 s) else sched_switch ?s2)"
    using c(1) cur by (simp add: sched_schedule_def with_thread_def sched_destroy_process_def Let_def set_thread_def)
  have tok: "thread_ok ?s2 u" if "thread_ok s u" for u using that cur by (auto simp: thread_ok_def set_thread_def)
  have s2: "sched_ok ?s2" "owned ?s2" "running_only {} ?s2" "i \<in> set (thread_queue ?s2)" "init_thread ?s2 i"
  proof -
    show "sched_ok ?s2" using ok(1) tok unfolding sched_ok_def queue_ok_def by (auto simp: set_thread_def)
    show "owned ?s2" using ok(2) cur unfolding owned_def set_thread_def by fastforce
    show "running_only {} ?s2" by (rule running_stop [OF ok(3)]) simp
    show "i \<in> set (thread_queue ?s2)" "init_thread ?s2 i" using i cur by (auto simp: init_thread_def set_thread_def)
  qed
  have no: "running_only {} s" if "t_state cur = THREAD_ZOMBIE" using ok(3) cur that unfolding running_only_def by fastforce
  show "sched_inv s'" if "sched_schedule s = Inr (b, s')"
  proof -
    have "same_sched s (set_thread ?c ?t1 s)" by (rule same_set_thread [OF cur]) (simp add: same_thread_def)
    then show ?thesis
      using that inv same_inv sched_switch_inv [OF ok(1,2) no i] sched_switch_inv [OF s2] unfolding run by (auto split: if_splits)
  qed
  show "b" if "threads s ?c = Some th" "t_state th = THREAD_ZOMBIE" "can_schedule s" "sched_schedule s = Inr (b, s')"
    using that cur sched_switch_inv [OF ok(1,2) no i] unfolding run by auto
  show "\<exists>b s'. sched_schedule s = Inr (b, s')" if irq: "current_irq s \<noteq> 0xFF"
  proof -
    have ex: "\<exists>t\<in>set (thread_queue s). runnable s t" "\<exists>t\<in>set (thread_queue ?s2). runnable ?s2 t"
      using i s2(4,5) init_runnable by blast+
    have q: "queue_ok s" "queue_ok ?s2" using ok(1) s2(1) by (simp_all add: sched_ok_def)
    have "\<exists>r. sched_switch s = Inr r" "\<exists>r. sched_switch ?s2 = Inr r"
      using sched_switch_cases [OF q(1) ex(1)] sched_switch_cases [OF q(2) ex(2)] irq by (metis set_thread_irq)+
    then show ?thesis unfolding run by auto
  qed
qed

section \<open>Processes that come and go\<close>

definition new_process :: "mk_ptrs \<Rightarrow> process \<Rightarrow> thread \<Rightarrow> 'a sched_state_scheme \<Rightarrow> 'a sched_state_scheme \<Rightarrow> bool" where
  "new_process ps pr th s s' \<longleftrightarrow> mk_p ps \<noteq> 0 \<and> mk_t ps \<noteq> 0 \<and> procs s' = (procs s)(mk_p ps \<mapsto> pr) \<and> threads s' = (threads s)(mk_t ps \<mapsto> th) \<and>
     p_pid pr = global_pid s \<and> p_threads pr = [mk_t ps] \<and> no_threads pr = 1 \<and> t_owner th = mk_p ps \<and> t_state th = THREAD_NULL \<and>
     thread_queue s' = thread_queue s \<and> cur_threads s' = cur_threads s \<and> current s' = current s \<and> global_pid s' = global_pid s + 1"

text \<open>Without memory for the stack the process is freed and its thread is lost.\<close>

definition lost_process :: "mk_ptrs \<Rightarrow> 'a sched_state_scheme \<Rightarrow> 'a sched_state_scheme \<Rightarrow> bool" where
  "lost_process ps s s' \<longleftrightarrow> procs s' = procs s \<and>
     (threads s' = threads s \<or> (\<exists>th. threads s' = (threads s)(mk_t ps \<mapsto> th) \<and> t_state th = THREAD_NULL)) \<and>
     thread_queue s' = thread_queue s \<and> cur_threads s' = cur_threads s \<and> current s' = current s"

lemma sched_mk_process_makes:
  assumes "comm \<noteq> 0" "entry \<noteq> 0" "0 \<notin> {mk_p ps, mk_t ps, mk_threads ps, mk_stack ps}"
  shows "\<exists>pr th s'. sched_mk_process cf comm entry ps s = Inr (mk_p ps, s') \<and> new_process ps pr th s s'"
proof -
  let ?sp = "add32 (mk_stack ps) 4096"
  let ?pr = "sched_make_filetable cf ((mk_junk_p ps)\<lparr>p_comm := comm, p_pid := global_pid s, no_threads := 1, p_threads := [mk_t ps],
    p_page_dir := (if mk_dir ps = 0 then p_page_dir (mk_junk_p ps) else mk_dir ps)\<rparr>)"
  let ?th = "(mk_junk_t ps)\<lparr>t_owner := mk_p ps, time_used := 0, t_state := THREAD_NULL,
    t_regs := (arch_sched_mk_initial_regs s)\<lparr>r_eip := entry, r_esp := ?sp, r_ebp := ?sp\<rparr>\<rparr>"
  obtain s' where "sched_mk_process cf comm entry ps s = Inr (mk_p ps, s')" "new_process ps ?pr ?th s s'"
    using assms
    by (simp add: sched_mk_process_def sched_create_stack_def with_thread_def set_thread_def set_proc_def say_def sched_make_filetable_def
        new_process_def Let_def)
  then show ?thesis by blast
qed

lemma sched_mk_process_cases:
  assumes "sched_mk_process cf comm entry ps s = Inr (p, s')" "fresh_ptrs ps s"
  shows "p = 0 \<and> lost_process ps s s' \<or> p = mk_p ps \<and> (\<exists>pr th. new_process ps pr th s s')"
proof (cases "comm \<noteq> 0 \<and> entry \<noteq> 0 \<and> 0 \<notin> {mk_p ps, mk_t ps, mk_threads ps, mk_stack ps}")
  case True
  then show ?thesis using sched_mk_process_makes [of comm entry ps cf s] assms(1) by auto
next
  case False
  have "(procs s)(mk_p ps := None) = procs s" using assms(2) by (simp add: fresh_ptrs_def fun_upd_idem)
  then show ?thesis
    using False assms(1)
    by (auto simp: sched_mk_process_def sched_create_stack_def set_thread_def set_proc_def lost_process_def Let_def split: if_splits)
qed

lemma new_thread_ok: "new_process ps pr th s s' \<Longrightarrow> fresh_ptrs ps s \<Longrightarrow> thread_ok s t \<Longrightarrow> thread_ok s' t"
  by (auto simp: new_process_def fresh_ptrs_def thread_ok_def)

lemma init_new:
  assumes "init_thread s i" "threads s t = None" "procs s p = None" "threads s' = (threads s)(t \<mapsto> th)" "procs s' = (procs s)(p \<mapsto> pr)"
  shows "init_thread s' i"
proof -
  obtain u qr where u: "i \<noteq> 0" "threads s i = Some u" "t_state u \<noteq> THREAD_ZOMBIE" "procs s (t_owner u) = Some qr" "p_pid qr = 1"
    using assms(1) by (auto simp: init_thread_def)
  then have "i \<noteq> t" "t_owner u \<noteq> p" using assms(2,3) by auto
  then show ?thesis using u by (simp add: init_thread_def assms(4,5))
qed

lemma owned_new:
  assumes "owned s" "threads s t = None" "threads s' = (threads s)(t \<mapsto> th)" "procs s' = (procs s)(p \<mapsto> pr)" "p_threads pr = [t]" "no_threads pr = 1"
    "t_owner th = p"
  shows "owned s'"
  unfolding owned_def
proof (intro allI impI)
  fix q qr assume q: "procs s' q = Some qr"
  show "length (p_threads qr) = no_threads qr \<and> (\<forall>t\<in>set (p_threads qr). \<exists>th. threads s' t = Some th \<and> t_owner th = q)"
  proof (cases "q = p")
    case True
    then show ?thesis using q assms(3-7) by simp
  next
    case False
    then have "length (p_threads qr) = no_threads qr" "\<forall>u\<in>set (p_threads qr). \<exists>th. threads s u = Some th \<and> t_owner th = q"
      using q assms(1,4) by (simp_all add: owned_def)
    then show ?thesis using assms(2,3) by (metis fun_upd_apply option.distinct(1))
  qed
qed

lemma new_owned:
  assumes new: "new_process ps pr th s s'" and "fresh_ptrs ps s" "owned s"
  shows "owned s'"
proof -
  have e: "procs s' = (procs s)(mk_p ps \<mapsto> pr)" "threads s' = (threads s)(mk_t ps \<mapsto> th)" "p_threads pr = [mk_t ps]" "no_threads pr = 1" "t_owner th = mk_p ps"
    using new by (simp_all add: new_process_def)
  have "threads s (mk_t ps) = None" using assms(2) by (simp add: fresh_ptrs_def)
  then show ?thesis using owned_new [OF assms(3) _ e(2,1,3,4,5)] by simp
qed

lemma new_sched_ok: "new_process ps pr th s s' \<Longrightarrow> fresh_ptrs ps s \<Longrightarrow> sched_ok s \<Longrightarrow> sched_ok s'"
  using new_thread_ok [of ps pr th s s'] unfolding sched_ok_def queue_ok_def by (simp add: new_process_def)

text \<open>Making a process and adding it.\<close>

lemma make_adds:
  assumes new: "new_process ps pr th s s1" and fresh: "fresh_ptrs ps s" and ok: "sched_ok s" "owned s"
  obtains rc s' th' where "sched_add_process (mk_p ps) s1 = Inr (rc, s')" "sched_ok s'" "procs s' = procs s1" "current s' = current s" "global_pid s' = global_pid s1"
    "set (queued (thread_queue s')) = set (queued (thread_queue s)) \<union> (if cur_threads s < 31 then {mk_t ps} else {})"
    "threads s' = (threads s)(mk_t ps \<mapsto> th')" "t_owner th' = mk_p ps" "t_state th' = (if cur_threads s < 31 then THREAD_READY else THREAD_NULL)"
proof -
  have e: "procs s1 (mk_p ps) = Some pr" "p_threads pr = [mk_t ps]" "no_threads pr = 1" "threads s1 = (threads s)(mk_t ps \<mapsto> th)" "t_owner th = mk_p ps"
    "t_state th = THREAD_NULL" "thread_queue s1 = thread_queue s" "cur_threads s1 = cur_threads s" "current s1 = current s" "mk_p ps \<noteq> 0" "mk_t ps \<noteq> 0"
    using new by (simp_all add: new_process_def)
  have nq: "mk_t ps \<notin> set (thread_queue s)" using ok(1) e(11) fresh by (auto simp: sched_ok_def queue_ok_def thread_ok_def fresh_ptrs_def)
  obtain rc s' where a: "sched_add_process (mk_p ps) s1 = Inr (rc, s')" "sched_ok s'" "procs s' = procs s1" "current s' = current s1" "global_pid s' = global_pid s1"
    "if cur_threads s1 + int (no_threads pr) \<ge> 32 then rc = - ENOSPC \<and> s' = s1
     else rc = 0 \<and> set (queued (thread_queue s')) = set (queued (thread_queue s1)) \<union> set (p_threads pr) \<and>
       (\<forall>t. threads s' t = (if t \<in> set (p_threads pr) then map_option (\<lambda>th. th\<lparr>t_state := THREAD_READY\<rparr>) (threads s1 t) else threads s1 t))"
    using add_process [OF new_sched_ok [OF new fresh ok(1)] e(10,1)] nq e by auto
  show ?thesis
  proof (cases "cur_threads s < 31")
    case True
    then have "set (queued (thread_queue s')) = set (queued (thread_queue s)) \<union> {mk_t ps}"
      "\<forall>t. threads s' t = (if t = mk_t ps then map_option (\<lambda>th. th\<lparr>t_state := THREAD_READY\<rparr>) (threads s1 t) else threads s1 t)"
      using a(6) by (auto simp: e)
    then show ?thesis using True a(1-5) by (intro that [of rc s' "th\<lparr>t_state := THREAD_READY\<rparr>"]) (auto simp: e fun_eq_iff)
  next
    case False
    then have "s' = s1" using a(6) by (auto simp: e)
    then show ?thesis using False a(1-5) by (intro that [of rc s' th]) (auto simp: e)
  qed
qed

lemma make_step:
  assumes inv: "sched_inv s" and fresh: "fresh_ptrs ps s" and mk: "sched_mk_process cf comm entry ps s = Inr (p, s1)"
    and add: "sched_add_process p s1 = Inr (rc, s')"
  shows "sched_inv s'"
proof -
  have ok: "sched_ok s" "owned s" "running_only {current s} s" "current s \<in> set (queued (thread_queue s))" using inv by (auto simp: sched_inv_def)
  obtain i where i: "i \<in> set (thread_queue s)" "init_thread s i" using inv by (auto simp: sched_inv_def)
  from sched_mk_process_cases [OF mk fresh] show ?thesis
  proof (elim disjE conjE exE)
    assume "p = 0" and lost: "lost_process ps s s1"
    then have s': "s' = s1" using add by (simp add: sched_add_process_def)
    have n: "threads s (mk_t ps) = None" using fresh by (simp add: fresh_ptrs_def)
    have e: "procs s1 = procs s" "thread_queue s1 = thread_queue s" "cur_threads s1 = cur_threads s" "current s1 = current s"
      using lost by (simp_all add: lost_process_def)
    have th: "threads s1 t = threads s t \<or> t = mk_t ps \<and> (\<exists>th. threads s1 t = Some th \<and> t_state th = THREAD_NULL)" for t
      using lost by (cases "t = mk_t ps") (auto simp: lost_process_def)
    have keep: "threads s1 t = threads s t" if "threads s t \<noteq> None" for t using th [of t] n that by auto
    have "thread_ok s1 t" if "thread_ok s t" for t using that keep [of t] by (auto simp: thread_ok_def e)
    then have "sched_ok s1" using ok(1) by (auto simp: sched_ok_def queue_ok_def e)
    moreover have "owned s1" using ok(2) keep unfolding owned_def e by fastforce
    moreover have "running_only {current s} s1" using ok(3) th unfolding running_only_def by (metis option.inject thread_state.distinct(1))
    moreover have "init_thread s1 i" using i(2) keep [of i] by (auto simp: init_thread_def e)
    ultimately show ?thesis using ok(4) i(1) unfolding s' sched_inv_def e by blast
  next
    fix pr th assume p: "p = mk_p ps" and new: "new_process ps pr th s s1"
    obtain rc' s'' th' where a: "sched_add_process (mk_p ps) s1 = Inr (rc', s'')" "sched_ok s''" "procs s'' = procs s1" "current s'' = current s"
      "set (queued (thread_queue s'')) = set (queued (thread_queue s)) \<union> (if cur_threads s < 31 then {mk_t ps} else {})"
      "threads s'' = (threads s)(mk_t ps \<mapsto> th')" "t_owner th' = mk_p ps" "t_state th' = (if cur_threads s < 31 then THREAD_READY else THREAD_NULL)"
      by (rule make_adds [OF new fresh ok(1,2)])
    have s'': "s'' = s'" using a(1) add p by simp
    have n: "threads s (mk_t ps) = None" "procs s (mk_p ps) = None" using fresh by (simp_all add: fresh_ptrs_def)
    have e: "procs s1 = (procs s)(mk_p ps \<mapsto> pr)" "p_threads pr = [mk_t ps]" "no_threads pr = 1" using new by (simp_all add: new_process_def)
    have "owned s''" using owned_new [OF ok(2) n(1) a(6) trans [OF a(3) e(1)] e(2,3) a(7)] .
    moreover have "running_only {current s} s''" using ok(3) a(8) unfolding running_only_def a(6) by (auto split: if_splits)
    moreover have "init_thread s'' i" using init_new [OF i(2) n a(6) trans [OF a(3) e(1)]] .
    moreover have "i \<in> set (queued (thread_queue s))" using i by (auto simp: init_thread_def)
    then have "i \<in> set (thread_queue s'')" using a(5) by auto
    moreover have "current s \<in> set (queued (thread_queue s''))" using ok(4) a(5) by blast
    ultimately show ?thesis using a(2,4) unfolding s''[symmetric] sched_inv_def by auto
  qed
qed

section \<open>Leaving\<close>

lemma irq_step:
  assumes "sched_inv s" "sched_irq n sched_schedule s = Inr (sw, s')"
  shows "sched_inv s'"
proof -
  obtain s2 s3 where "same_sched s s2" "sched_schedule s2 = Inr (sw, s3)" "same_sched s3 s'" using sched_irq_same [OF assms(2)] .
  then show ?thesis using assms(1) same_inv schedule_step(1) by blast
qed

lemma noirq_step:
  assumes "sched_inv s" "schedule_noirq s = Inr (sw, s')"
  shows "sched_inv s'"
proof -
  obtain th where th: "threads s (current s) = Some th" "sched_irq 0x2F sched_schedule (set_thread (current s) (th\<lparr>time_used := MAX_PROC_TIME\<rparr>) s) = Inr (sw, s')"
    using assms(2) by (auto simp: schedule_noirq_def with_thread_def split: option.splits)
  have "same_sched s (set_thread (current s) (th\<lparr>time_used := MAX_PROC_TIME\<rparr>) s)"
    by (rule same_set_thread [OF th(1)]) (simp add: same_thread_def)
  then show ?thesis using irq_step [OF same_inv [OF _ assms(1)] th(2)] by blast
qed

text \<open>A process other than \<open>init\<close> becomes a zombie.\<close>

lemma mark_zombie_inv:
  assumes inv: "sched_inv s" and pr: "procs s p = Some pr" "p_pid pr \<noteq> 1" and m: "sched_mark_zombie p s = Inr (rc, s')"
  shows "sched_inv s'"
proof -
  have ow: "\<forall>t\<in>set (p_threads pr). \<exists>th. threads s t = Some th \<and> t_owner th = p" and ok: "owned s" "sched_ok s"
    using inv pr(1) by (auto simp: sched_inv_def owned_def)
  let ?f = "\<lambda>t. if t \<in> set (p_threads pr) then map_option (\<lambda>th. th\<lparr>t_state := THREAD_ZOMBIE\<rparr>) (threads s t) else threads s t"
  have "\<forall>t\<in>set (p_threads pr). threads s t \<noteq> None" using ow by fastforce
  then have s': "s' = s\<lparr>threads := ?f\<rparr>"
    using m set_states_ok [of "p_threads pr" s THREAD_ZOMBIE] pr(1) by (simp add: sched_mark_zombie_def with_proc_def)
  have f: "?f t = Some th' \<longleftrightarrow> (\<exists>th. threads s t = Some th \<and> th' = (if t \<in> set (p_threads pr) then th\<lparr>t_state := THREAD_ZOMBIE\<rparr> else th))" for t th'
    by auto
  have keep: "\<exists>th'. ?f t = Some th' \<and> t_owner th' = t_owner th" if "threads s t = Some th" for t th using that by simp
  have "thread_ok s' t" if "thread_ok s t" for t using that keep by (fastforce simp: thread_ok_def s')
  then have "sched_ok s'" using ok(2) by (auto simp: sched_ok_def queue_ok_def s')
  moreover have "owned s'" using ok(1) keep unfolding owned_def s' by fastforce
  moreover have "running_only {current s} s'"
    using inv unfolding sched_inv_def running_only_def s' by (auto split: if_splits)
  moreover obtain i where i: "i \<in> set (thread_queue s)" "init_thread s i" using inv by (auto simp: sched_inv_def)
  moreover have "i \<notin> set (p_threads pr)" using i(2) ow pr by (auto simp: init_thread_def)
  then have "init_thread s' i" using i(2) by (simp add: init_thread_def s')
  ultimately show ?thesis using inv unfolding sched_inv_def s' by auto
qed

lemma leave_step:
  assumes inv: "sched_inv s" and rm: "sched_rm_process p s = Inr (rc, s')"
  shows "sched_inv s'"
proof (cases "p = 0")
  case True
  then show ?thesis using assms by (simp add: sched_rm_process_def)
next
  case False
  have stuck: "rm_loop THREAD_QUEUE_SIZE pid z = Inl (Undefined ''null thread'')" if "sched_inv z" for pid and z :: "'a sched_state_scheme"
  proof -
    have ok: "sched_ok z" using that by (simp add: sched_inv_def)
    then have "length (thread_queue z) = THREAD_QUEUE_SIZE" "length (queued (thread_queue z)) < THREAD_QUEUE_SIZE"
      by (auto simp: sched_ok_def queue_ok_def)
    then obtain i where "i < THREAD_QUEUE_SIZE" "thread_queue z ! i = 0" using free_slot by blast
    then show ?thesis using rm_loop_undefined [of z i THREAD_QUEUE_SIZE] ok by (simp add: sched_ok_def)
  qed
  obtain pr cur cpr where o: "procs s p = Some pr" "threads s (current s) = Some cur" "procs s (t_owner cur) = Some cpr"
    using rm False by (auto simp: sched_rm_process_def with_proc_def with_thread_def split: option.splits)
  have self: "p_pid pr = p_pid cpr" "p_pid cpr \<noteq> 1"
    using rm False o stuck [OF inv] by (auto simp: sched_rm_process_def with_proc_def with_thread_def split: if_splits)
  obtain z zc sw s2 where z: "sched_mark_zombie (t_owner cur) s = Inr (zc, z)" "schedule_noirq z = Inr (sw, s2)"
    and r: "(if sw then Inr (None, s2) else bindR (rm_loop THREAD_QUEUE_SIZE (p_pid pr) s2) (\<lambda>(success, st3).
         if success = 0 then Inr (Some (- EINVAL), st3)
         else let st4 = st3\<lparr>cur_processes := cur_processes st3 - 1, cur_threads := cur_threads st3 - int success\<rparr>;
                  (rc, st5) = sched_destroy_process p st4 in Inr (Some rc, st5))) = Inr (rc, s')"
    using rm False o self by (auto simp: sched_rm_process_def with_proc_def with_thread_def)
  have "sched_inv s2" using noirq_step [OF mark_zombie_inv [OF inv o(3) self(2) z(1)] z(2)] .
  then show ?thesis using r stuck [of s2] by (simp split: if_splits)
qed

section \<open>From boot on\<close>

lemma boot_step:
  assumes "threads st = Map.empty" "procs st = Map.empty" "global_pid st = 0" "boot_ptrs ps qs" "0 \<notin> {n1, e1, n2, e2}"
  shows "\<exists>s'. sched_start_idle cf n1 e1 n2 e2 ps qs (snd (sched_init st)) = Inr s' \<and> sched_inv s'"
proof -
  let ?s = "say ''sched: starting idle task'' [] (snd (sched_init st))"
  have e0: "threads ?s = Map.empty" "procs ?s = Map.empty" "global_pid ?s = 0" "thread_queue ?s = replicate 32 0" "cur_threads ?s = 0" "current ?s = 0"
    using assms(1-3) by (simp_all add: sched_init_def say_def)
  have ok0: "sched_ok ?s" "owned ?s" by (simp_all add: sched_ok_def queue_ok_def owned_def e0)
  have b: "mk_p ps \<noteq> mk_p qs" "mk_t ps \<noteq> mk_t qs" "n1 \<noteq> 0" "e1 \<noteq> 0" "n2 \<noteq> 0" "e2 \<noteq> 0"
    "0 \<notin> {mk_p ps, mk_t ps, mk_threads ps, mk_stack ps}" "0 \<notin> {mk_p qs, mk_t qs, mk_threads qs, mk_stack qs}"
    using assms(4,5) by (auto simp: boot_ptrs_def)
  have f0: "fresh_ptrs ps ?s" by (simp add: fresh_ptrs_def e0)
  obtain pr th s1 where 1: "sched_mk_process cf n1 e1 ps ?s = Inr (mk_p ps, s1)" "new_process ps pr th ?s s1"
    using sched_mk_process_makes [OF b(3,4,7)] by blast
  obtain rc s2 th' where 2: "sched_add_process (mk_p ps) s1 = Inr (rc, s2)" "sched_ok s2" "procs s2 = procs s1" "current s2 = current ?s"
    "global_pid s2 = global_pid s1" "set (queued (thread_queue s2)) = set (queued (thread_queue ?s)) \<union> (if cur_threads ?s < 31 then {mk_t ps} else {})"
    "threads s2 = (threads ?s)(mk_t ps \<mapsto> th')" "t_owner th' = mk_p ps" "t_state th' = (if cur_threads ?s < 31 then THREAD_READY else THREAD_NULL)"
    using make_adds [OF 1(2) f0 ok0] .
  have n1: "procs s1 = [mk_p ps \<mapsto> pr]" "p_threads pr = [mk_t ps]" "no_threads pr = 1" "global_pid s1 = 1" using 1(2) by (simp_all add: new_process_def e0)
  have q2: "set (queued (thread_queue s2)) = {mk_t ps}" "threads s2 = [mk_t ps \<mapsto> th']" "t_state th' = THREAD_READY" using 2(6,7,9) by (simp_all add: e0)
  define s3 where "s3 = s2\<lparr>current := mk_t ps\<rparr>"
  have e3: "thread_queue s3 = thread_queue s2" "threads s3 = [mk_t ps \<mapsto> th']" "procs s3 = [mk_p ps \<mapsto> pr]" "current s3 = mk_t ps" "global_pid s3 = 1"
    using q2 n1 2(3,5) by (simp_all add: s3_def)
  have ok3: "sched_ok s3" "owned s3" using 2(2) 2(8) n1 by (auto simp: sched_ok_def queue_ok_def thread_ok_def s3_def) (simp add: owned_def e3 [unfolded s3_def] n1)
  have "card (set (queued (thread_queue s3))) = 1" unfolding e3(1) q2(1) by simp
  then have c3: "cur_threads s3 = 1" using ok3(1) distinct_card unfolding sched_ok_def by (metis of_nat_1)
  have f3: "fresh_ptrs qs s3" using b(1,2) by (simp add: fresh_ptrs_def e3)
  obtain pr' th2 s4 where 4: "sched_mk_process cf n2 e2 qs s3 = Inr (mk_p qs, s4)" "new_process qs pr' th2 s3 s4"
    using sched_mk_process_makes [OF b(5,6,8)] by blast
  obtain rc' s5 th5 where 5: "sched_add_process (mk_p qs) s4 = Inr (rc', s5)" "sched_ok s5" "procs s5 = procs s4" "current s5 = current s3"
    "global_pid s5 = global_pid s4" "set (queued (thread_queue s5)) = set (queued (thread_queue s3)) \<union> (if cur_threads s3 < 31 then {mk_t qs} else {})"
    "threads s5 = (threads s3)(mk_t qs \<mapsto> th5)" "t_owner th5 = mk_p qs" "t_state th5 = (if cur_threads s3 < 31 then THREAD_READY else THREAD_NULL)"
    using make_adds [OF 4(2) f3 ok3] .
  have n4: "procs s4 = [mk_p ps \<mapsto> pr, mk_p qs \<mapsto> pr']" "p_threads pr' = [mk_t qs]" "no_threads pr' = 1" "p_pid pr' = 1"
    using 4(2) by (simp_all add: new_process_def e3)
  have q5: "set (queued (thread_queue s5)) = {mk_t ps, mk_t qs}" "threads s5 = [mk_t ps \<mapsto> th', mk_t qs \<mapsto> th5]" "t_state th5 = THREAD_READY"
    "current s5 = mk_t ps" using 5(4,6,7,9) q2 by (auto simp: c3 e3)
  have "init_thread s5 (mk_t qs)" using b(8) 5(3,8) n4 q5(3) by (simp add: init_thread_def q5(2))
  moreover have "owned s5" 
  proof -
    have "owned (s5\<lparr>threads := [mk_t ps \<mapsto> th'], procs := [mk_p ps \<mapsto> pr]\<rparr>)" using n1 2(8) by (simp add: owned_def)
    moreover have "procs s5 = [mk_p ps \<mapsto> pr, mk_p qs \<mapsto> pr']" using 5(3) n4(1) by simp
    ultimately show ?thesis
      using b(2) q5(2) n4(2,3) 5(8) by (intro owned_new [of "s5\<lparr>threads := [mk_t ps \<mapsto> th'], procs := [mk_p ps \<mapsto> pr]\<rparr>" "mk_t qs" s5 th5 "mk_p qs" pr']) simp_all
  qed
  moreover have "running_only {mk_t ps} s5" using q2(3) q5(3) by (simp add: running_only_def q5(2))
  moreover have "mk_t qs \<in> set (thread_queue s5)" "mk_t ps \<in> set (queued (thread_queue s5))" using q5(1) by auto
  ultimately have inv: "sched_inv s5" using 5(2) unfolding sched_inv_def q5(4) by blast
  obtain r m where rm: "arch_sched_setup_stack (t_regs th') (ram s5) = (r, m)" by fastforce
  have c5: "threads s5 (mk_t ps) = Some th'" using b(2) by (simp add: q5(2))
  let ?s6 = "set_thread (mk_t ps) (th'\<lparr>t_regs := r\<rparr>) (s5\<lparr>ram := m\<rparr>)"
  have "sched_start_idle cf n1 e1 n2 e2 ps qs (snd (sched_init st)) = Inr (ARCH_SWITCH_CONTEXT r ?s6)"
    using 1(1) 2(1) 4(1) 5(1) c5 rm 2(3) n1(1,2)
    by (simp add: sched_start_idle_def with_proc_def with_thread_def s3_def [symmetric] q5(4))
  moreover have "same_sched s5 (ARCH_SWITCH_CONTEXT r ?s6)"
    using c5 by (intro same_schedI) (simp_all add: ARCH_SWITCH_CONTEXT_def set_thread_def option.rel_refl same_thread_def)
  then have "sched_inv (ARCH_SWITCH_CONTEXT r ?s6)" using same_inv inv by blast
  ultimately show ?thesis by blast
qed

lemma step_inv: "sched_step s s' \<Longrightarrow> sched_inv s \<Longrightarrow> sched_inv s'"
  by (induction rule: sched_step.induct) (blast intro: irq_step noirq_step make_step leave_step same_inv)+

lemma reach_inv: "sched_reach s \<Longrightarrow> sched_inv s"
proof (induction rule: sched_reach.induct)
  case (boot st ps qs n1 e1 n2 e2 cf st')
  then obtain s' where "sched_start_idle cf n1 e1 n2 e2 ps qs (snd (sched_init st)) = Inr s'" "sched_inv s'"
    using boot_step [OF boot(1-5), of cf] by blast
  then show ?case using boot(6) by simp
next
  case (step st st')
  then show ?case using step_inv by blast
qed

lemma schedule_stays: "sched_schedule s = Inr (False, s') \<Longrightarrow> current_irq s' = current_irq s"
  by (auto simp: sched_schedule_def sched_switch_def with_thread_def with_proc_def set_thread_def sched_destroy_process_def Let_def
      split: if_splits option.splits prod.splits)

lemma sched_irq_returns:
  assumes inv: "sched_inv s" and regs: "regs_ok (cpu s)" "52 \<le> r_esp (cpu s)" and n: "n \<noteq> 0xFF"
  shows "\<exists>sw s'. sched_irq n sched_schedule s = Inr (sw, s')"
proof -
  obtain s1 where s1: "irq_entry n s = Inr s1" "current_irq s1 = n" using irq_entry_saves [OF regs, of n] by blast
  have inv1: "sched_inv s1" using same_inv [OF irq_entry_same [OF s1(1)] inv] .
  then obtain th where th: "threads s1 (current s1) = Some th" "current s1 \<noteq> 0"
    by (auto simp: sched_inv_def sched_ok_def queue_ok_def thread_ok_def)
  let ?s2 = "set_thread (current s1) (th\<lparr>t_regs := pre_irq_regs s1\<rparr>) s1"
  have inv2: "sched_inv ?s2" by (rule same_inv [OF same_set_thread [OF th(1)] inv1]) (simp add: same_thread_def)
  obtain sw s3 where s3: "sched_schedule ?s2 = Inr (sw, s3)" using schedule_step(2) [OF inv2] n s1(2) by auto
  have e: "sched_irq n sched_schedule s = (if sw then Inr (True, s3) else bindR (send_eoi s3) (\<lambda>s4. Inr (False, s4)))"
    using s1(1) th s3 by (simp add: sched_irq_def with_thread_def)
  have "current_irq s3 = n" if "\<not> sw"
    using s3 that s1(2) schedule_stays by fastforce
  then have "\<exists>s4. send_eoi s3 = Inr s4" if "\<not> sw" using that n by (simp add: send_eoi_def)
  then show ?thesis unfolding e by (cases sw) auto
qed

text \<open>
  C26. In every state that the kernel reaches from the start of the scheduler on, each queued thread has a live owner, no thread is queued twice, the
  counter is the number of queued threads and a slot is free; the current thread is queued and no other thread is marked as running; and the next
  timer interrupt returns: it never follows a bad pointer and never searches for ever, because \<open>init\<close> stays in the queue and alive.
\<close>

theorem sched_reachable:
  assumes "sched_reach s"
  shows "sched_ok s \<and> current s \<in> set (queued (thread_queue s)) \<and>
    (\<forall>t th. threads s t = Some th \<and> t_state th = THREAD_RUNNING \<longrightarrow> t = current s) \<and>
    (regs_ok (cpu s) \<and> 52 \<le> r_esp (cpu s) \<and> n \<noteq> 0xFF \<longrightarrow> (\<exists>sw s'. sched_irq n sched_schedule s = Inr (sw, s') \<and> sched_reach s'))"
proof (intro conjI allI impI)
  have inv: "sched_inv s" using reach_inv [OF assms] .
  then show "sched_ok s" "current s \<in> set (queued (thread_queue s))" by (simp_all add: sched_inv_def)
  show "t = current s" if "threads s t = Some th \<and> t_state th = THREAD_RUNNING" for t th
    using inv that by (auto simp: sched_inv_def running_only_def)
  assume "regs_ok (cpu s) \<and> 52 \<le> r_esp (cpu s) \<and> n \<noteq> 0xFF"
  then show "\<exists>sw s'. sched_irq n sched_schedule s = Inr (sw, s') \<and> sched_reach s'"
    using sched_irq_returns [OF inv] sched_reach.step [OF assms sched_step.tick] by blast
qed

text \<open>The kernel starts with the idle thread 0x100 of process 0x10 and the thread 0x200 of \<open>init\<close>, process 0x20.\<close>

definition boot_sched :: sched_state where
  "boot_sched = small_sched\<lparr>threads := Map.empty, procs := Map.empty, global_pid := 0\<rparr>"

definition small_mk :: "nat \<Rightarrow> nat \<Rightarrow> nat \<Rightarrow> mk_ptrs" where
  "small_mk p t stack = \<lparr>mk_p = p, mk_t = t, mk_threads = t + 0x80, mk_dir = 0x5000, mk_stack = stack,
     mk_junk_p = small_proc 0 0, mk_junk_t = small_thread THREAD_NULL 0\<rparr>"

theorem sched_reachable_witness:
  "\<exists>s. sched_start_idle 0x60 0x70 0x1000 0x78 0x2000 (small_mk 0x10 0x100 0x8000) (small_mk 0x20 0x200 0x9000) (snd (sched_init boot_sched)) = Inr s \<and>
     sched_ok s \<and> current s \<in> set (queued (thread_queue s))"
proof -
  let ?ps = "small_mk 0x10 0x100 0x8000" and ?qs = "small_mk 0x20 0x200 0x9000"
  have b: "threads boot_sched = Map.empty" "procs boot_sched = Map.empty" "global_pid boot_sched = 0" "boot_ptrs ?ps ?qs"
    "(0 :: nat) \<notin> {0x70, 0x1000, 0x78, 0x2000}"
    by (simp_all add: boot_sched_def boot_ptrs_def small_mk_def)
  obtain s where s: "sched_start_idle 0x60 0x70 0x1000 0x78 0x2000 ?ps ?qs (snd (sched_init boot_sched)) = Inr s"
    using boot_step [OF b] by blast
  then have "sched_reach s" using sched_reach.boot [OF b] by blast
  then show ?thesis using s sched_reachable [of s 0] by blast
qed

end
