(* ===== verification/Kern.thy ===== *)
theory Kern
  imports Sched CString
begin

text \<open>
  The kernel under the drivers and file systems: the variables they share, the structs they keep in memory, and
  what they call through pointers. \<open>kern\<close> holds the allocator that \<open>kmalloc\<close> and \<open>new_free\<close> lead to, the read
  operation of a device, and where the linker puts static objects and functions. \<open>kern_ok\<close> is the contract
  that callers rely on; it is stated for an allocator and devices that may also stop the machine (\<open>stuck\<close>).
\<close>

section \<open>State\<close>

text \<open>
  \<open>strtok_sp\<close> is the cursor \<open>sp\<close> of lib/string.c, \<open>last_ext2\<close> is \<open>__fs\<close> of fs/ext2/super.c, the others are the
  variables of fs/vfs.c.
\<close>

record vfs_state = sched_state +
  strtok_sp :: nat
  mounts :: "nat list"
  nmounts :: nat
  root_mount :: nat
  filesystems :: "nat list"
  nfilesystems :: nat
  last_ext2 :: nat

datatype symbol = Slash | Sda | Ext2_fs | Ext2_fops | Ext2_read_file | Ext2_write_file | Ext2_open | Ext2_stat | Ext2_mount
  | Devfs | Devfs_open | Devfs_mount | Ata_read | Ata_write | Ata_sync | Console_file | Console_write | Pit_irq | Ide_irq
  | Kbd_irq | Syscall_hub | Idt_noop | Post_schedule

record 's kern =
  k_malloc :: "nat \<Rightarrow> 's \<Rightarrow> (nat \<times> 's) outcome"
  k_free :: "nat \<Rightarrow> 's \<Rightarrow> 's outcome"
  k_read :: "nat \<Rightarrow> nat \<Rightarrow> nat \<Rightarrow> nat \<Rightarrow> 's \<Rightarrow> (int \<times> 's) outcome"
  k_sym :: "symbol \<Rightarrow> nat"
  k_indet :: nat

text \<open>
  \<open>k_indet\<close> stands for what a local variable holds that was never set. Only \<open>ext2_file_read_block\<close> reads one.
\<close>

section \<open>Structs in memory\<close>

text \<open>include/levos/vfs.h, device.h: the offsets of the fields.\<close>

abbreviation (input) fs_fsname :: nat where "fs_fsname \<equiv> 0"
abbreviation (input) fs_priv_data :: nat where "fs_priv_data \<equiv> 4"
abbreviation (input) fs_dev :: nat where "fs_dev \<equiv> 8"
abbreviation (input) fs_stat :: nat where "fs_stat \<equiv> 16"
abbreviation (input) fs_open :: nat where "fs_open \<equiv> 20"
abbreviation (input) fs_mount :: nat where "fs_mount \<equiv> 24"
abbreviation (input) sizeof_filesystem :: nat where "sizeof_filesystem \<equiv> 28"

abbreviation (input) f_fops :: nat where "f_fops \<equiv> 0"
abbreviation (input) f_fs :: nat where "f_fs \<equiv> 4"
abbreviation (input) f_respath :: nat where "f_respath \<equiv> 8"
abbreviation (input) f_isdir :: nat where "f_isdir \<equiv> 12"
abbreviation (input) f_pos :: nat where "f_pos \<equiv> 16"
abbreviation (input) sizeof_file :: nat where "sizeof_file \<equiv> 20"

abbreviation (input) m_point :: nat where "m_point \<equiv> 0"
abbreviation (input) m_fs :: nat where "m_fs \<equiv> 4"
abbreviation (input) m_dev :: nat where "m_dev \<equiv> 8"
abbreviation (input) sizeof_mount :: nat where "sizeof_mount \<equiv> 12"

abbreviation (input) dev_name :: nat where "dev_name \<equiv> 0"
abbreviation (input) dev_type :: nat where "dev_type \<equiv> 4"
abbreviation (input) dev_read_fn :: nat where "dev_read_fn \<equiv> 8"
abbreviation (input) dev_write_fn :: nat where "dev_write_fn \<equiv> 12"
abbreviation (input) dev_sync_fn :: nat where "dev_sync_fn \<equiv> 16"
abbreviation (input) dev_fs :: nat where "dev_fs \<equiv> 24"
abbreviation (input) sizeof_device :: nat where "sizeof_device \<equiv> 28"

abbreviation (input) DEV_TYPE_BLK :: nat where "DEV_TYPE_BLK \<equiv> 4"

definition field :: "nat \<Rightarrow> nat \<Rightarrow> 'a vfs_state_scheme \<Rightarrow> nat" where
  "field p off st = ld32 (ram st) (p + off)"

definition set_field :: "nat \<Rightarrow> nat \<Rightarrow> nat \<Rightarrow> 'a vfs_state_scheme \<Rightarrow> 'a vfs_state_scheme" where
  "set_field p off v st = st\<lparr>ram := st32 (ram st) (p + off) v\<rparr>"

text \<open>A negative error code cast to a pointer.\<close>

definition err_ptr :: "int \<Rightarrow> nat" where
  "err_ptr e = nat (e mod int W32)"

text \<open>A loop that is \<open>None\<close> never ends.\<close>

definition hang :: "'a option \<Rightarrow> 'a outcome" where
  "hang x = (case x of None \<Rightarrow> Inl Hang | Some a \<Rightarrow> Inr a)"

lemma hang_simps [simp]: "hang None = Inl Hang" "hang (Some a) = Inr a"
  by (simp_all add: hang_def)

text \<open>An unsigned division traps on zero.\<close>

definition udiv :: "nat \<Rightarrow> nat \<Rightarrow> nat outcome" where
  "udiv a b = (if b = 0 then Inl (Trap ''divide error'') else Inr (a div b))"

definition umod :: "nat \<Rightarrow> nat \<Rightarrow> nat outcome" where
  "umod a b = (if b = 0 then Inl (Trap ''divide error'') else Inr (a mod b))"

lemma udiv_simps [simp]: "b \<noteq> 0 \<Longrightarrow> udiv a b = Inr (a div b)" "b \<noteq> 0 \<Longrightarrow> umod a b = Inr (a mod b)"
  by (simp_all add: udiv_def umod_def)

section \<open>The contract\<close>

text \<open>Memory and the hardware aside, the variables of the kernel are as they were.\<close>

definition kept :: "'a vfs_state_scheme \<Rightarrow> 'a vfs_state_scheme \<Rightarrow> bool" where
  "kept s s' \<longleftrightarrow> vfs_state.truncate s' = (vfs_state.truncate s)\<lparr>ram := ram s', port_log := port_log s'\<rparr>"

lemma kept_refl [simp]: "kept s s"
  by (simp add: kept_def vfs_state.defs)

lemma kept_trans: "kept s s' \<Longrightarrow> kept s' s'' \<Longrightarrow> kept s s''"
  by (auto simp: kept_def vfs_state.defs)

lemma kept_sel:
  assumes "kept s s'"
  shows "strtok_sp s' = strtok_sp s" "mounts s' = mounts s" "nmounts s' = nmounts s" "root_mount s' = root_mount s"
    "filesystems s' = filesystems s" "nfilesystems s' = nfilesystems s" "last_ext2 s' = last_ext2 s" "klog s' = klog s"
    "procs s' = procs s" "threads s' = threads s" "current s' = current s" "hw s' = hw s" "devs s' = devs s" "devices s' = devices s"
  using assms by (auto simp: kept_def vfs_state.defs)

lemma kept_ram [simp]: "kept s (s\<lparr>ram := m\<rparr>)"
  by (simp add: kept_def vfs_state.defs)

text \<open>\<open>L\<close> lists the ranges of memory in use: the live buffers, the static objects and the callers' memory.\<close>

type_synonym regions = "(nat \<times> nat) set"

definition region :: "nat \<times> nat \<Rightarrow> nat set" where
  "region r = {fst r..<fst r + snd r}"

definition keeps :: "regions \<Rightarrow> mem \<Rightarrow> mem \<Rightarrow> bool" where
  "keeps L m m' \<longleftrightarrow> (\<forall>r\<in>L. same_on (region r) m m')"

lemma keeps_refl [simp]: "keeps L m m"
  by (simp add: keeps_def)

lemma keeps_trans: "keeps L m m' \<Longrightarrow> keeps L m' m'' \<Longrightarrow> keeps L m m''"
  by (auto simp: keeps_def intro: same_on_trans)

lemma keeps_mono: "keeps L m m' \<Longrightarrow> L' \<subseteq> L \<Longrightarrow> keeps L' m m'"
  by (auto simp: keeps_def)

lemma keeps_Un [simp]: "keeps (A \<union> B) m m' \<longleftrightarrow> keeps A m m' \<and> keeps B m m'"
  by (auto simp: keeps_def)

lemma keeps_insert [simp]: "keeps (insert r L) m m' \<longleftrightarrow> same_on (region r) m m' \<and> keeps L m m'"
  by (auto simp: keeps_def)

text \<open>
  \<open>inv s L r\<close>: the kernel heap is in order, \<open>L\<close> is in use, and \<open>r\<close> more bytes can be allocated. \<open>disk d\<close> is what
  device \<open>d\<close> holds, as far as it can be read. The allocator returns fresh memory and leaves the memory in use alone;
  devices fill the buffer with the sectors asked for.
\<close>

record 's contract =
  inv :: "'s \<Rightarrow> regions \<Rightarrow> nat \<Rightarrow> bool"
  stuck :: "halt \<Rightarrow> bool"
  disk :: "nat \<Rightarrow> mem option"

definition fresh :: "regions \<Rightarrow> nat \<Rightarrow> nat \<Rightarrow> bool" where
  "fresh L p n \<longleftrightarrow> p \<noteq> 0 \<and> p + n < 2147483648 \<and> (\<forall>(q, k)\<in>L. apart p n q k)"

definition malloc_ok :: "'a vfs_state_scheme kern \<Rightarrow> 'a vfs_state_scheme contract \<Rightarrow> bool" where
  "malloc_ok K C \<longleftrightarrow> (\<forall>s L n r. inv C s L (n + r) \<longrightarrow>
     runs (stuck C) (\<lambda>(p, s'). fresh L p n \<and> inv C s' (insert (p, n) L) r \<and> kept s s' \<and> keeps L (ram s) (ram s')) (k_malloc K n s))"

definition free_ok :: "'a vfs_state_scheme kern \<Rightarrow> 'a vfs_state_scheme contract \<Rightarrow> bool" where
  "free_ok K C \<longleftrightarrow> (\<forall>s L p n r. inv C s (insert (p, n) L) r \<longrightarrow> (p, n) \<notin> L \<longrightarrow>
     runs (stuck C) (\<lambda>s'. inv C s' L r \<and> kept s s' \<and> keeps L (ram s) (ram s')) (k_free K p s))"

definition read_ok :: "'a vfs_state_scheme kern \<Rightarrow> 'a vfs_state_scheme contract \<Rightarrow> bool" where
  "read_ok K C \<longleftrightarrow> (\<forall>s L r d D b k buf n pos. inv C s L r \<longrightarrow> disk C d = Some D \<longrightarrow> (b, k) \<in> L \<longrightarrow> b \<le> buf \<longrightarrow>
     buf + 512 * n \<le> b + k \<longrightarrow> pos + n \<le> 268435456 \<longrightarrow>
     runs (stuck C) (\<lambda>(rc, s'). inv C s' L r \<and> kept s s' \<and>
         (\<forall>x. ram s' x = (if buf \<le> x \<and> x < buf + 512 * n then D (512 * pos + (x - buf)) else ram s x)))
       (k_read K d buf n pos s))"

text \<open>The callers write where they may, and change variables of their own.\<close>

definition write_ok :: "'a vfs_state_scheme contract \<Rightarrow> bool" where
  "write_ok C \<longleftrightarrow> (\<forall>s s' L r r'. inv C s L r \<longrightarrow> r' \<le> r \<longrightarrow> vfs_state.more s' = vfs_state.more s \<longrightarrow>
     port_log s' = port_log s \<longrightarrow> hw s' = hw s \<longrightarrow> same_on (- (\<Union>r\<in>L. region r)) (ram s) (ram s') \<longrightarrow> inv C s' L r')"

definition kern_ok :: "'a vfs_state_scheme kern \<Rightarrow> 'a vfs_state_scheme contract \<Rightarrow> bool" where
  "kern_ok K C \<longleftrightarrow> malloc_ok K C \<and> free_ok K C \<and> read_ok K C \<and> write_ok C"

section \<open>Proof rules\<close>

text \<open>One rule for each call, to walk through a routine.\<close>

lemma runs_bind_mono:
  "runs E Q x \<Longrightarrow> (\<And>a. x = Inr a \<Longrightarrow> Q a \<Longrightarrow> runs E P (f a)) \<Longrightarrow> runs E P (bindR x f)"
  by (cases x) auto

lemma runs_malloc:
  assumes "kern_ok K C" "inv C s L (n + r)"
    and "\<And>p s'. fresh L p n \<Longrightarrow> inv C s' (insert (p, n) L) r \<Longrightarrow> kept s s' \<Longrightarrow> keeps L (ram s) (ram s') \<Longrightarrow>
      runs (stuck C) P (f (p, s'))"
  shows "runs (stuck C) P (bindR (k_malloc K n s) f)"
  using assms(1,2) unfolding kern_ok_def malloc_ok_def
  by (intro runs_bind_mono [where Q = "\<lambda>(p, s'). fresh L p n \<and> inv C s' (insert (p, n) L) r \<and> kept s s' \<and> keeps L (ram s) (ram s')"])
    (auto intro!: assms(3))

lemma runs_free:
  assumes "kern_ok K C" "inv C s (insert (p, n) L) r" "(p, n) \<notin> L"
    and "\<And>s'. inv C s' L r \<Longrightarrow> kept s s' \<Longrightarrow> keeps L (ram s) (ram s') \<Longrightarrow> runs (stuck C) P (f s')"
  shows "runs (stuck C) P (bindR (k_free K p s) f)"
  using assms(1-3) unfolding kern_ok_def free_ok_def
  by (intro runs_bind_mono [where Q = "\<lambda>s'. inv C s' L r \<and> kept s s' \<and> keeps L (ram s) (ram s')"])
    (auto intro!: assms(4))

definition filled :: "nat \<Rightarrow> nat \<Rightarrow> mem \<Rightarrow> nat \<Rightarrow> mem \<Rightarrow> mem \<Rightarrow> bool" where
  "filled buf n D pos m m' \<longleftrightarrow> (\<forall>x. m' x = (if buf \<le> x \<and> x < buf + n then D (pos + (x - buf)) else m x))"

lemma runs_read:
  assumes "kern_ok K C" "inv C s L r" "disk C d = Some D" "(b, k) \<in> L" "b \<le> buf" "buf + 512 * n \<le> b + k" "pos + n \<le> 268435456"
    and "\<And>rc s'. inv C s' L r \<Longrightarrow> kept s s' \<Longrightarrow> filled buf (512 * n) D (512 * pos) (ram s) (ram s') \<Longrightarrow> runs (stuck C) P (f (rc, s'))"
  shows "runs (stuck C) P (bindR (k_read K d buf n pos s) f)"
proof (rule runs_bind_mono)
  show "runs (stuck C) (\<lambda>(rc, s'). inv C s' L r \<and> kept s s' \<and> filled buf (512 * n) D (512 * pos) (ram s) (ram s')) (k_read K d buf n pos s)"
    unfolding filled_def using assms(1-7) unfolding kern_ok_def read_ok_def by blast
qed (use assms(8) in auto)

lemma inv_write:
  assumes "kern_ok K C" "inv C s L r" "vfs_state.more s' = vfs_state.more s" "port_log s' = port_log s" "hw s' = hw s"
    "same_on (- (\<Union>r\<in>L. region r)) (ram s) (ram s')"
  shows "inv C s' L r"
  using assms unfolding kern_ok_def write_ok_def by blast

lemma inv_less: "kern_ok K C \<Longrightarrow> inv C s L r \<Longrightarrow> r' \<le> r \<Longrightarrow> inv C s L r'"
  unfolding kern_ok_def write_ok_def using same_on_refl by blast

lemma inv_cell:
  assumes "kern_ok K C" "inv C s L r" "(b, k) \<in> L" "\<And>x. x < b \<or> b + k \<le> x \<Longrightarrow> m x = ram s x"
  shows "inv C (s\<lparr>ram := m\<rparr>) L r"
proof (rule inv_write [OF assms(1,2)])
  show "same_on (- (\<Union>r\<in>L. region r)) (ram s) (ram (s\<lparr>ram := m\<rparr>))"
    unfolding same_on_def
  proof (rule ballI)
    fix x assume "x \<in> - (\<Union>r\<in>L. region r)"
    then have "x \<notin> region (b, k)" using assms(3) by blast
    then show "ram (s\<lparr>ram := m\<rparr>) x = ram s x" using assms(4) [of x] by (auto simp: region_def)
  qed
qed simp_all

text \<open>Memory after a read: inside the buffer the disk, elsewhere as before.\<close>

lemma filled_same: "filled buf n D pos m m' \<Longrightarrow> A \<inter> {buf..<buf + n} = {} \<Longrightarrow> same_on A m m'"
  unfolding filled_def same_on_def by (metis IntI atLeastLessThan_iff empty_iff)

lemma filled_at: "filled buf n D pos m m' \<Longrightarrow> i < n \<Longrightarrow> m' (buf + i) = D (pos + i)"
  by (simp add: filled_def)

lemma filled_ld32: "filled buf n D pos m m' \<Longrightarrow> i + 4 \<le> n \<Longrightarrow> ld32 m' (buf + i) = ld32 D (pos + i)"
  using filled_at [of buf n D pos m m' i] filled_at [of buf n D pos m m' "i + 1"] filled_at [of buf n D pos m m' "i + 2"]
    filled_at [of buf n D pos m m' "i + 3"] by (simp add: ld32_def ld8_def add.assoc)

lemma keeps_filled:
  assumes "filled buf n D pos m m'" "\<And>q k. (q, k) \<in> L \<Longrightarrow> apart buf n q k"
  shows "keeps L m m'"
  unfolding keeps_def region_def
proof (rule ballI)
  fix r assume "r \<in> L"
  then have "apart buf n (fst r) (snd r)" using assms(2) [of "fst r" "snd r"] by simp
  then show "same_on {fst r..<fst r + snd r} m m'" by (intro filled_same [OF assms(1)]) (auto simp: apart_def)
qed

end
