(* ===== verification/Ext2.thy ===== *)
theory Ext2
  imports Kern "HOL-Library.Signed_Division"
begin

text \<open>
  fs/ext2: reading an ext2 file system. The structs of include/levos/ext2.h are bytes of the memory that holds the
  block they were read into; the routines take the kernel \<open>K\<close> they call for memory and for the disk.
\<close>

section \<open>Layout\<close>

abbreviation (input) EXT2_SIGNATURE :: nat where "EXT2_SIGNATURE \<equiv> 0xEF53"

text \<open>struct ext2_superblock, as far as it is used\<close>

abbreviation (input) sb_blocks :: nat where "sb_blocks \<equiv> 4"
abbreviation (input) sb_superblock_id :: nat where "sb_superblock_id \<equiv> 20"
abbreviation (input) sb_blocksize_hint :: nat where "sb_blocksize_hint \<equiv> 24"
abbreviation (input) sb_blocks_in_blockgroup :: nat where "sb_blocks_in_blockgroup \<equiv> 32"
abbreviation (input) sb_inodes_in_blockgroup :: nat where "sb_inodes_in_blockgroup \<equiv> 40"
abbreviation (input) sb_ext2_sig :: nat where "sb_ext2_sig \<equiv> 56"
abbreviation (input) sizeof_superblock :: nat where "sizeof_superblock \<equiv> 1024"

text \<open>struct ext2_block_group_desc\<close>

abbreviation (input) bgd_block_of_inode_table :: nat where "bgd_block_of_inode_table \<equiv> 8"
abbreviation (input) sizeof_bgd :: nat where "sizeof_bgd \<equiv> 32"

text \<open>struct ext2_inode\<close>

abbreviation (input) i_type :: nat where "i_type \<equiv> 0"
abbreviation (input) i_uid :: nat where "i_uid \<equiv> 2"
abbreviation (input) i_size :: nat where "i_size \<equiv> 4"
abbreviation (input) i_gid :: nat where "i_gid \<equiv> 24"
abbreviation (input) i_hardlinks :: nat where "i_hardlinks \<equiv> 26"
abbreviation (input) i_dbp :: nat where "i_dbp \<equiv> 40"
abbreviation (input) i_singly_block :: nat where "i_singly_block \<equiv> 88"
abbreviation (input) sizeof_inode :: nat where "sizeof_inode \<equiv> 128"

text \<open>struct ext2_dir\<close>

abbreviation (input) d_inode :: nat where "d_inode \<equiv> 0"
abbreviation (input) d_size :: nat where "d_size \<equiv> 4"
abbreviation (input) d_namelength :: nat where "d_namelength \<equiv> 6"
abbreviation (input) d_reserved :: nat where "d_reserved \<equiv> 7"

text \<open>struct ext2_priv_data: the superblock and what was computed from it\<close>

abbreviation (input) p_first_bgd :: nat where "p_first_bgd \<equiv> 1024"
abbreviation (input) p_number_of_bgs :: nat where "p_number_of_bgs \<equiv> 1028"
abbreviation (input) p_blocksize :: nat where "p_blocksize \<equiv> 1032"
abbreviation (input) p_sectors_per_block :: nat where "p_sectors_per_block \<equiv> 1036"
abbreviation (input) p_inodes_per_block :: nat where "p_inodes_per_block \<equiv> 1040"
abbreviation (input) sizeof_priv_data :: nat where "sizeof_priv_data \<equiv> 1044"

definition EXT2_PRIV :: "nat \<Rightarrow> 'a vfs_state_scheme \<Rightarrow> nat" where
  "EXT2_PRIV fs st = field fs fs_priv_data st"

definition priv_field :: "nat \<Rightarrow> nat \<Rightarrow> 'a vfs_state_scheme \<Rightarrow> nat" where
  "priv_field fs off st = field (EXT2_PRIV fs st) off st"

section \<open>Blocks and inodes\<close>

definition ext2_read_block :: "'a vfs_state_scheme kern \<Rightarrow> nat \<Rightarrow> nat \<Rightarrow> nat \<Rightarrow> 'a vfs_state_scheme \<Rightarrow> (int \<times> 'a vfs_state_scheme) outcome" where
  "ext2_read_block K fs buf block st =
     (let spb0 = priv_field fs p_sectors_per_block st;
          spb = (if spb0 = 0 then 1 else spb0)
      in bindR (k_read K (field fs fs_dev st) buf spb (mul32 block spb) st) (\<lambda>(_, st'). Inr (0, st')))"

text \<open>
  \<open>bgd\<close> and \<open>_inode\<close> are pointers that a loop moves on by one struct at a time. An \<open>int\<close> becomes unsigned
  in \<open>(inode - 1) / inodes_in_blockgroup\<close>.
\<close>

primrec advance :: "nat \<Rightarrow> nat \<Rightarrow> nat \<Rightarrow> nat" where
  "advance sz 0 p = p"
| "advance sz (Suc n) p = advance sz n (add32 p sz)"

definition ext2_read_inode :: "'a vfs_state_scheme kern \<Rightarrow> nat \<Rightarrow> nat \<Rightarrow> int \<Rightarrow> 'a vfs_state_scheme \<Rightarrow> (int \<times> 'a vfs_state_scheme) outcome" where
  "ext2_read_inode K fs buf inode st =
     (let p = EXT2_PRIV fs st;
          n = nat ((inode - 1) mod int W32)
      in bindR (udiv n (field p sb_inodes_in_blockgroup st)) (\<lambda>bg.
         bindR (k_malloc K (field p p_blocksize st) st) (\<lambda>(block_buf, st1).
         bindR (ext2_read_block K fs block_buf (field p p_first_bgd st1) st1) (\<lambda>(_, st2).
         let bgd = advance sizeof_bgd bg block_buf in
         bindR (umod n (field p sb_inodes_in_blockgroup st2)) (\<lambda>index.
         bindR (udiv (mul32 index sizeof_inode) (field p p_blocksize st2)) (\<lambda>block.
         bindR (ext2_read_block K fs block_buf (add32 (field bgd bgd_block_of_inode_table st2) block) st2) (\<lambda>(_, st3).
         bindR (umod index (field p p_inodes_per_block st3)) (\<lambda>index2.
         let inod = advance sizeof_inode index2 block_buf;
             st4 = st3\<lparr>ram := memcpy buf inod sizeof_inode (ram st3)\<rparr> in
         bindR (k_free K block_buf st4) (\<lambda>st5. Inr (0, st5))))))))))"

section \<open>Directories\<close>

text \<open>
  The inner loop over the entries of one block: \<open>d\<close> is the current entry and \<open>r\<close> the sum of the sizes before
  it. The name is compared before the entry is checked.
\<close>

function dir_scan :: "mem \<Rightarrow> nat \<Rightarrow> nat \<Rightarrow> nat \<Rightarrow> nat \<Rightarrow> int option" where
  "dir_scan m bs f d r =
     (if r < bs
      then if strncmp m (d + d_reserved + 1) f (ld8 m (d + d_namelength)) = 0 then Some (sint32 (ld32 m (d + d_inode)))
           else if ld16 m (d + d_size) = 0 \<or> ld8 m (d + d_namelength) = 0 then None
           else dir_scan m bs f (d + ld16 m (d + d_size)) (r + ld16 m (d + d_size))
      else None)"
  by pat_completeness auto
termination
  by (relation "measure (\<lambda>(m, bs, f, d, r). bs - r)") auto

declare dir_scan.simps [simp del]

text \<open>The outer loop over the twelve direct blocks; \<open>n\<close> blocks are left.\<close>

primrec dir_blocks :: "'a vfs_state_scheme kern \<Rightarrow> nat \<Rightarrow> nat \<Rightarrow> nat \<Rightarrow> nat \<Rightarrow> nat \<Rightarrow> nat \<Rightarrow> 'a vfs_state_scheme \<Rightarrow> (int \<times> 'a vfs_state_scheme) outcome" where
  "dir_blocks K fs inode bbuf f i 0 st = bindR (k_free K bbuf st) (\<lambda>st'. Inr (- ENOENT, st'))"
| "dir_blocks K fs inode bbuf f i (Suc n) st =
     bindR (ext2_read_block K fs bbuf (field inode (i_dbp + 4 * i) st) st) (\<lambda>(_, st1).
       if ld16 (ram st1) (bbuf + d_size) = 0 \<or> ld8 (ram st1) (bbuf + d_namelength) = 0
       then bindR (k_free K bbuf st1) (\<lambda>st2. Inr (- ENOENT, st2))
       else case dir_scan (ram st1) (priv_field fs p_blocksize st1) f bbuf 0 of
              Some k \<Rightarrow> bindR (k_free K bbuf st1) (\<lambda>st2. Inr (k, st2))
            | None \<Rightarrow> dir_blocks K fs inode bbuf f (Suc i) n st1)"

text \<open>\<open>inode->type & 0x4000 == 0\<close> is \<open>inode->type & (0x4000 == 0)\<close>.\<close>

definition ext2_read_directory :: "'a vfs_state_scheme kern \<Rightarrow> nat \<Rightarrow> int \<Rightarrow> nat \<Rightarrow> 'a vfs_state_scheme \<Rightarrow> (int \<times> 'a vfs_state_scheme) outcome" where
  "ext2_read_directory K fs dino f st =
     bindR (k_malloc K sizeof_inode st) (\<lambda>(inode, st1).
     bindR (ext2_read_inode K fs inode dino st1) (\<lambda>(_, st2).
       if ld16 (ram st2) (inode + i_type) AND of_bool ((0x4000 :: nat) = 0) \<noteq> 0 then Inr (- ENOTDIR, st2)
       else bindR (k_malloc K (priv_field fs p_blocksize st2) st2) (\<lambda>(bbuf, st3). dir_blocks K fs inode bbuf f 0 12 st3)))"

section \<open>Paths\<close>

definition strtok_st :: "'a vfs_state_scheme kern \<Rightarrow> nat \<Rightarrow> 'a vfs_state_scheme \<Rightarrow> (nat \<times> 'a vfs_state_scheme) outcome" where
  "strtok_st K str st =
     bindR (hang (strtok (ram st) (strtok_sp st) str (k_sym K Slash))) (\<lambda>(pch, sp, m). Inr (pch, st\<lparr>strtok_sp := sp, ram := m\<rparr>))"

text \<open>The loop \<open>while (pch != 0)\<close>.\<close>

partial_function (option) path_loop :: "'a vfs_state_scheme kern \<Rightarrow> nat \<Rightarrow> int \<Rightarrow> nat \<Rightarrow> 'a vfs_state_scheme \<Rightarrow> (int \<times> 'a vfs_state_scheme) outcome option" where
  "path_loop K fs ino pch st =
     (if pch = 0 then Some (Inr (ino, st))
      else case ext2_read_directory K fs ino pch st of
        Inl h \<Rightarrow> Some (Inl h)
      | Inr (ino', st1) \<Rightarrow>
          if ino' < 0 then Some (Inr (- ENOENT, st1))
          else case strtok_st K 0 st1 of
            Inl h \<Rightarrow> Some (Inl h)
          | Inr (pch', st2) \<Rightarrow> path_loop K fs ino' pch' st2)"

definition ext2_find_file_inode :: "'a vfs_state_scheme kern \<Rightarrow> nat \<Rightarrow> nat \<Rightarrow> 'a vfs_state_scheme \<Rightarrow> (int \<times> 'a vfs_state_scheme) outcome" where
  "ext2_find_file_inode K fs path st =
     bindR (hang (strlen (ram st) path)) (\<lambda>n.
     bindR (k_malloc K (add32 n 1) st) (\<lambda>(fn, st1).
     bindR (hang (strlen (ram st1) path)) (\<lambda>n1.
     let st2 = st1\<lparr>ram := memcpy fn path (add32 n1 1) (ram st1)\<rparr> in
     bindR (strtok_st K fn st2) (\<lambda>(pch, st3).
       if pch = 0 then Inr (2, st3)
       else case path_loop K fs 2 pch st3 of None \<Rightarrow> Inl Hang | Some r \<Rightarrow> r))))"

section \<open>Files\<close>

definition st16_at :: "nat \<Rightarrow> nat \<Rightarrow> 'a vfs_state_scheme \<Rightarrow> 'a vfs_state_scheme" where
  "st16_at a v st = st\<lparr>ram := st16 (ram st) a v\<rparr>"

definition ext2_stat :: "'a vfs_state_scheme kern \<Rightarrow> nat \<Rightarrow> nat \<Rightarrow> nat \<Rightarrow> 'a vfs_state_scheme \<Rightarrow> (int \<times> 'a vfs_state_scheme) outcome" where
  "ext2_stat K fs p buf st =
     (if p = 0 \<or> buf = 0 \<or> fs = 0 then Inr (- EINVAL, st)
      else bindR (ext2_find_file_inode K fs p st) (\<lambda>(inode, st1).
        if inode < 0 then Inr (inode, st1)
        else bindR (k_malloc K sizeof_inode st1) (\<lambda>(ibuf, st2).
          if ibuf = 0 then Inr (- ENOMEM, st2)
          else bindR (ext2_read_inode K fs ibuf inode st2) (\<lambda>(_, st3).
            let s4 = st16_at (buf + 0) 0 st3;
                s5 = st16_at (buf + 2) (nat inode) s4;
                s6 = set_field buf 4 (ld16 (ram s5) (ibuf + i_type)) s5;
                s7 = st16_at (buf + 8) (ld16 (ram s6) (ibuf + i_hardlinks)) s6;
                s8 = st16_at (buf + 10) (ld16 (ram s7) (ibuf + i_uid)) s7;
                s9 = st16_at (buf + 12) (ld16 (ram s8) (ibuf + i_gid)) s8;
                s10 = st16_at (buf + 14) 0 s9;
                s11 = set_field buf 16 (field ibuf i_size s10) s10
            in Inr (0, s11)))))"

text \<open>
  In \<open>uint32_t b = bb[b - 12]\<close> the \<open>b\<close> on the right is already the new variable, which has no value yet: the number of
  the block is read at whatever index that memory holds.
\<close>

definition ext2_file_read_block :: "'a vfs_state_scheme kern \<Rightarrow> nat \<Rightarrow> nat \<Rightarrow> nat \<Rightarrow> 'a vfs_state_scheme \<Rightarrow> (int \<times> 'a vfs_state_scheme) outcome" where
  "ext2_file_read_block K f buf b st =
     (let fs = field f f_fs st in
      bindR (k_malloc K sizeof_inode st) (\<lambda>(ibuf, st1).
      bindR (ext2_find_file_inode K fs (field f f_respath st1) st1) (\<lambda>(ino, st2).
      let bs = priv_field fs p_blocksize st2 in
      if ino < 0 then Inr (ino, st2)
      else bindR (ext2_read_inode K fs ibuf ino st2) (\<lambda>(_, st3).
        if b < 12
        then bindR (ext2_read_block K fs buf (field ibuf (i_dbp + 4 * b) st3) st3) (\<lambda>(_, st4).
             bindR (k_free K ibuf st4) (\<lambda>st5. Inr (0, st5)))
        else if b < bs div 4
        then bindR (k_malloc K bs st3) (\<lambda>(bb, st4).
             bindR (ext2_read_block K (field f f_fs st4) bb (field ibuf i_singly_block st4) st4) (\<lambda>(_, st5).
             let b' = ld32 (ram st5) (add32 bb (mul32 4 (sub32 (k_indet K) 12))) in
             bindR (ext2_read_block K (field f f_fs st5) buf b' st5) (\<lambda>(_, st6).
             bindR (k_free K bb st6) (\<lambda>st7.
             bindR (k_free K ibuf st7) (\<lambda>st8. Inr (0, st8))))))
        else Inr (- ENOSYS, say ''File blocks >+%d arent supported'' [int (bs div 4)] st3)))))"

primrec read_blocks :: "'a vfs_state_scheme kern \<Rightarrow> nat \<Rightarrow> nat \<Rightarrow> nat \<Rightarrow> nat \<Rightarrow> nat \<Rightarrow> nat \<Rightarrow> 'a vfs_state_scheme \<Rightarrow> 'a vfs_state_scheme outcome" where
  "read_blocks K f block bs cblock i 0 st = Inr st"
| "read_blocks K f block bs cblock i (Suc n) st =
     bindR (ext2_file_read_block K f (add32 block (mul32 (i + 1) bs)) (add32 (add32 cblock i) 1) st) (\<lambda>(_, st1).
       read_blocks K f block bs cblock (Suc i) n st1)"

text \<open>
  \<open>count / bs\<close> is unsigned, \<open>f->pos / bs\<close> is signed; 2^31 and more blocks would make \<open>blocks\<close> negative, so that
  the loop ends at once.
\<close>

definition ext2_read_file :: "'a vfs_state_scheme kern \<Rightarrow> nat \<Rightarrow> nat \<Rightarrow> nat \<Rightarrow> 'a vfs_state_scheme \<Rightarrow> (int \<times> 'a vfs_state_scheme) outcome" where
  "ext2_read_file K f buf count st =
     (if count = 0 then Inr (0, st)
      else if f = 0 \<or> buf = 0 then Inr (- EINVAL, st)
      else bindR (ext2_find_file_inode K (field f f_fs st) (field f f_respath st) st) (\<lambda>(inode, st1).
        if inode < 0 then Inr (inode, st1)
        else let bs = priv_field (field f f_fs st1) p_blocksize st1 in
          bindR (udiv count bs) (\<lambda>blocks.
          let pos = sint32 (field f f_pos st1);
              cblock = nat ((pos sdiv sint32 bs) mod int W32) in
          bindR (k_malloc K (mul32 bs (add32 blocks 1)) st1) (\<lambda>(block, st2).
            if block = 0 then Inr (- ENOMEM, st2)
            else bindR (ext2_file_read_block K f block cblock st2) (\<lambda>(_, st3).
              bindR (read_blocks K f block bs cblock 0 (nat (sint32 blocks)) st3) (\<lambda>st4.
              let off = sub32 (field f f_pos st4) (mul32 cblock bs);
                  st5 = st4\<lparr>ram := memcpy buf (add32 block off) count (ram st4)\<rparr>;
                  st6 = set_field f f_pos (add32 (field f f_pos st5) count) st5
              in bindR (k_free K block st6) (\<lambda>st7. Inr (sint32 count, st7))))))))"

definition ext2_write_file :: "nat \<Rightarrow> nat \<Rightarrow> nat \<Rightarrow> 'a vfs_state_scheme \<Rightarrow> int \<times> 'a vfs_state_scheme" where
  "ext2_write_file f buf count st = (- EROFS, st)"

definition ext2_open :: "'a vfs_state_scheme kern \<Rightarrow> nat \<Rightarrow> nat \<Rightarrow> 'a vfs_state_scheme \<Rightarrow> (nat \<times> 'a vfs_state_scheme) outcome" where
  "ext2_open K fs p st =
     (if fs = 0 \<or> p = 0 then Inr (err_ptr (- EINVAL), st)
      else bindR (k_malloc K sizeof_filesystem st) (\<lambda>(f, st1).
        if f = 0 then Inr (err_ptr (- ENOMEM), st1)
        else Inr (f, set_field f f_pos 0 (set_field f f_isdir (err_ptr (- 1)) (set_field f f_respath p
               (set_field f f_fs fs (set_field f f_fops (k_sym K Ext2_fops) st1)))))))"

section \<open>Mounting\<close>

text \<open>The steps after the last allocation: \<open>sb\<close> is the buffer with the superblock, \<open>p\<close> the private data.\<close>

definition ext2_setup :: "'a vfs_state_scheme kern \<Rightarrow> nat \<Rightarrow> nat \<Rightarrow> nat \<Rightarrow> nat \<Rightarrow> 'a vfs_state_scheme \<Rightarrow> (nat \<times> 'a vfs_state_scheme) outcome" where
  "ext2_setup K sb p fs dev st4 =
     (let st5 = set_field p p_blocksize (push_bit (field sb sb_blocksize_hint st4 mod 32) 1024) st4;
          bs = field p p_blocksize st5;
          st6 = set_field p p_inodes_per_block (bs div sizeof_inode) st5;
          st7 = set_field p p_sectors_per_block (bs div 512) st6;
          st8 = say ''ext2: %s: volume size: %d bytes'' [int (field dev dev_name st7), int (mul32 bs (field sb sb_blocks st7))] st7 in
      bindR (udiv (field sb sb_blocks st8) (field sb sb_blocks_in_blockgroup st8)) (\<lambda>bgs0.
      let st9 = set_field p p_number_of_bgs (if bgs0 = 0 then 1 else bgs0) st8 in
      bindR (udiv sizeof_superblock (field p p_blocksize st9)) (\<lambda>q.
      let st10 = set_field p p_first_bgd (add32 (field sb sb_superblock_id st9) q) st9;
          st11 = st10\<lparr>ram := memcpy p sb sizeof_superblock (ram st10)\<rparr>;
          st12 = set_field dev dev_fs fs st11;
          st13 = st12\<lparr>ram := memcpy fs (k_sym K Ext2_fs) sizeof_filesystem (ram st12)\<rparr>;
          st14 = set_field fs fs_dev dev (set_field fs fs_priv_data p st13)
      in Inr (fs, st14\<lparr>last_ext2 := fs\<rparr>))))"

definition ext2_mount :: "'a vfs_state_scheme kern \<Rightarrow> nat \<Rightarrow> 'a vfs_state_scheme \<Rightarrow> (nat \<times> 'a vfs_state_scheme) outcome" where
  "ext2_mount K dev st =
     (if field dev dev_type st \<noteq> DEV_TYPE_BLK then Inr (err_ptr (- ENODEV), st)
      else bindR (k_malloc K 1024 st) (\<lambda>(sb, st1).
        bindR (k_read K dev sb 2 2 st1) (\<lambda>(_, st2).
        if ld16 (ram st2) (sb + sb_ext2_sig) \<noteq> EXT2_SIGNATURE
        then Inr (err_ptr (- EINVAL), say ''ext2: signature mismatch on device %s'' [int (field dev dev_name st2)] st2)
        else bindR (k_malloc K sizeof_priv_data st2) (\<lambda>(p, st3).
          bindR (k_malloc K sizeof_filesystem st3) (\<lambda>(fs, st4).
          ext2_setup K sb p fs dev st4)))))"

definition get_fs :: "'a vfs_state_scheme \<Rightarrow> nat" where
  "get_fs st = last_ext2 st"

end
