(* ===== verification/Layout.thy ===== *)
theory Layout
  imports Ext2
begin

text \<open>
  The layout of the structs of include/levos that the kernel shares with the disk, the boot loader and its callers: the
  fields in order, with their sizes. All but those of vfs.h and device.h are packed, and in those every field is aligned without padding.
\<close>

type_synonym layout = "(string \<times> nat) list"

fun offset_of :: "string \<Rightarrow> layout \<Rightarrow> nat option" where
  "offset_of f [] = None"
| "offset_of f ((g, n) # l) = (if g = f then Some 0 else map_option ((+) n) (offset_of f l))"

definition sizeof :: "layout \<Rightarrow> nat" where
  "sizeof l = sum_list (map snd l)"

text \<open>No padding: each field that is no array of bytes or struct starts at a multiple of its size.\<close>

primrec unpadded :: "nat \<Rightarrow> layout \<Rightarrow> bool" where
  "unpadded a [] = True"
| "unpadded a (x # l) = ((snd x \<in> {1, 2, 4} \<longrightarrow> snd x dvd a) \<and> unpadded (a + snd x) l)"

section \<open>ext2.h\<close>

definition ext2_superblock :: layout where
  "ext2_superblock =
     [(''inodes'', 4), (''blocks'', 4), (''reserved_for_root'', 4), (''unallocatedblocks'', 4), (''unallocatedinodes'', 4),
      (''superblock_id'', 4), (''blocksize_hint'', 4), (''fragmentsize_hint'', 4), (''blocks_in_blockgroup'', 4),
      (''frags_in_blockgroup'', 4), (''inodes_in_blockgroup'', 4), (''last_mount'', 4), (''last_write'', 4),
      (''mounts_since_last_check'', 2), (''max_mounts_since_last_check'', 2), (''ext2_sig'', 2), (''state'', 2), (''op_on_err'', 2),
      (''minor_version'', 2), (''last_check'', 4), (''max_time_in_checks'', 4), (''os_id'', 4), (''major_version'', 4), (''uuid'', 2),
      (''gid'', 2), (''unused'', 940)]"

definition ext2_block_group_desc :: layout where
  "ext2_block_group_desc =
     [(''block_of_block_usage_bitmap'', 4), (''block_of_inode_usage_bitmap'', 4), (''block_of_inode_table'', 4),
      (''num_of_unalloc_block'', 2), (''num_of_unalloc_inode'', 2), (''num_of_dirs'', 2), (''unused'', 14)]"

definition ext2_inode :: layout where
  "ext2_inode =
     [(''type'', 2), (''uid'', 2), (''size'', 4), (''last_access'', 4), (''create_time'', 4), (''last_modif'', 4), (''delete_time'', 4),
      (''gid'', 2), (''hardlinks'', 2), (''disk_sectors'', 4), (''flags'', 4), (''ossv1'', 4), (''dbp'', 48), (''singly_block'', 4),
      (''doubly_block'', 4), (''triply_block'', 4), (''gen_no'', 4), (''reserved1'', 4), (''reserved2'', 4), (''fragment_block'', 4),
      (''ossv2'', 12)]"

definition ext2_dir :: layout where
  "ext2_dir = [(''inode'', 4), (''size'', 2), (''namelength'', 1), (''reserved'', 1)]"

definition ext2_priv_data :: layout where
  "ext2_priv_data =
     [(''sb'', sizeof ext2_superblock), (''first_bgd'', 4), (''number_of_bgs'', 4), (''blocksize'', 4), (''sectors_per_block'', 4),
      (''inodes_per_block'', 4)]"

section \<open>vfs.h, device.h\<close>

definition file_operations :: layout where
  "file_operations = [(''read'', 4), (''write'', 4)]"

definition file_struct :: layout where
  "file_struct = [(''fops'', 4), (''fs'', 4), (''respath'', 4), (''isdir'', 4), (''pos'', 4)]"

definition mount_struct :: layout where
  "mount_struct = [(''point'', 4), (''fs'', 4), (''dev'', 4)]"

definition stat_struct :: layout where
  "stat_struct =
     [(''st_dev'', 2), (''st_ino'', 2), (''st_mode'', 4), (''st_nlink'', 2), (''st_uid'', 2), (''st_gid'', 2), (''st_rdev'', 2), (''st_size'', 4)]"

definition filesystem_struct :: layout where
  "filesystem_struct =
     [(''fsname'', 4), (''priv_data'', 4), (''dev'', 4), (''readdir'', 4), (''stat'', 4), (''open'', 4), (''mount'', 4)]"

definition device_struct :: layout where
  "device_struct = [(''name'', 4), (''type'', 4), (''read'', 4), (''write'', 4), (''sync'', 4), (''priv'', 4), (''fs'', 4)]"

section \<open>elf.h, multiboot.h\<close>

definition elf_ident :: layout where
  "elf_ident = [(''ei_magic'', 4), (''ei_subarch'', 1), (''ei_endian'', 1), (''ei_elfver'', 1), (''ei_abi'', 1), (''ei_unused'', 8)]"

definition elf_header :: layout where
  "elf_header =
     [(''e_ident'', sizeof elf_ident), (''e_type'', 2), (''e_machine'', 2), (''e_version'', 4), (''e_entry'', 4), (''e_phoff'', 4),
      (''e_shoff'', 4), (''e_flags'', 4), (''e_ehsize'', 2), (''e_phentsize'', 2), (''e_phnum'', 2), (''e_shentsize'', 2),
      (''e_shnum'', 2), (''e_shstrndx'', 2)]"

definition elf_program_header :: layout where
  "elf_program_header =
     [(''p_type'', 4), (''p_offset'', 4), (''p_vaddr'', 4), (''p_paddr'', 4), (''p_filesz'', 4), (''p_memsz'', 4), (''p_flags'', 4),
      (''p_align'', 4)]"

definition multiboot_struct :: layout where
  "multiboot_struct =
     [(''flags'', 4), (''mem_lower'', 4), (''mem_upper'', 4), (''boot_device'', 4), (''cmdline'', 4), (''mods_count'', 4), (''mods_addr'', 4),
      (''num'', 4), (''size'', 4), (''addr'', 4), (''shndx'', 4), (''mmap_length'', 4), (''mmap_addr'', 4), (''drives_length'', 4),
      (''drives_addr'', 4), (''config_table'', 4), (''boot_loader_name'', 4), (''apm_table'', 4), (''vbe_control_info'', 4),
      (''vbe_mode_info'', 4), (''vbe_mode'', 4), (''vbe_interface_seg'', 4), (''vbe_interface_off'', 4), (''vbe_interface_len'', 4)]"

definition mboot_memmap :: layout where
  "mboot_memmap = [(''size'', 4), (''base_addr'', 8), (''length'', 8), (''type'', 4)]"

section \<open>Offsets\<close>

lemma offset_of_le: "offset_of f l = Some a \<Longrightarrow> a \<le> sizeof l"
  by (induction f l arbitrary: a rule: offset_of.induct) (auto simp: sizeof_def split: if_splits)

text \<open>Different fields of a struct do not overlap.\<close>

lemma offset_of_apart:
  assumes "distinct (map fst l)" "(f, n) \<in> set l" "(g, k) \<in> set l" "f \<noteq> g" "offset_of f l = Some a" "offset_of g l = Some b"
  shows "a + n \<le> b \<or> b + k \<le> a"
  using assms
proof (induction l arbitrary: a b)
  case (Cons x l)
  obtain h w where x: "x = (h, w)" by (cases x)
  show ?case
  proof (cases "h = f \<or> h = g")
    case True
    then show ?thesis using Cons.prems x by (auto simp: image_iff)
  next
    case False
    then obtain a' b' where ab: "offset_of f l = Some a'" "offset_of g l = Some b'" "a = w + a'" "b = w + b'"
      using Cons.prems(5,6) x by auto
    have m: "(f, n) \<in> set l" "(g, k) \<in> set l" using False Cons.prems(2,3) x by auto
    have "distinct (map fst l)" using Cons.prems(1) by simp
    from Cons.IH [OF this m Cons.prems(4) ab(1,2)] show ?thesis using ab by linarith
  qed
qed simp

lemma offset_of_inside: "(f, n) \<in> set l \<Longrightarrow> distinct (map fst l) \<Longrightarrow> \<exists>a. offset_of f l = Some a \<and> a + n \<le> sizeof l"
proof (induction l)
  case (Cons x l)
  then show ?case by (cases x) (auto simp: sizeof_def image_iff)
qed simp

lemmas ext2_layouts = ext2_superblock_def ext2_block_group_desc_def ext2_inode_def ext2_dir_def ext2_priv_data_def
lemmas vfs_layouts = file_operations_def file_struct_def mount_struct_def stat_struct_def filesystem_struct_def device_struct_def
lemmas boot_layouts = elf_ident_def elf_header_def elf_program_header_def multiboot_struct_def mboot_memmap_def

text \<open>
  The structs are laid out without padding and with distinct fields (the entry of the memory map, whose 64-bit
  fields stand at odd words, only because it is packed), have the sizes of the on-disk and boot formats, and
  their fields stand where the routines of the file system look for them.
\<close>

theorem struct_layouts:
  "list_all (\<lambda>l. distinct (map fst l) \<and> unpadded 0 l)
     [ext2_superblock, ext2_block_group_desc, ext2_inode, ext2_dir, ext2_priv_data, file_operations, file_struct, mount_struct, stat_struct,
      filesystem_struct, device_struct, elf_ident, elf_header, elf_program_header, multiboot_struct] \<and>
   map sizeof [ext2_superblock, ext2_block_group_desc, ext2_inode, ext2_dir, ext2_priv_data] =
     [sizeof_superblock, sizeof_bgd, sizeof_inode, d_reserved + 1, sizeof_priv_data] \<and>
   map sizeof [file_struct, mount_struct, filesystem_struct, device_struct, stat_struct, elf_header, elf_program_header, mboot_memmap] =
     [sizeof_file, sizeof_mount, sizeof_filesystem, sizeof_device, 20, 52, 32, 24] \<and>
   map (\<lambda>f. offset_of f ext2_superblock)
     [''blocks'', ''superblock_id'', ''blocksize_hint'', ''blocks_in_blockgroup'', ''inodes_in_blockgroup'', ''ext2_sig''] =
     map Some [sb_blocks, sb_superblock_id, sb_blocksize_hint, sb_blocks_in_blockgroup, sb_inodes_in_blockgroup, sb_ext2_sig] \<and>
   offset_of ''block_of_inode_table'' ext2_block_group_desc = Some bgd_block_of_inode_table \<and>
   map (\<lambda>f. offset_of f ext2_inode) [''type'', ''uid'', ''size'', ''gid'', ''hardlinks'', ''dbp'', ''singly_block''] =
     map Some [i_type, i_uid, i_size, i_gid, i_hardlinks, i_dbp, i_singly_block] \<and>
   map (\<lambda>f. offset_of f ext2_dir) [''inode'', ''size'', ''namelength'', ''reserved''] = map Some [d_inode, d_size, d_namelength, d_reserved] \<and>
   map (\<lambda>f. offset_of f ext2_priv_data) [''first_bgd'', ''number_of_bgs'', ''blocksize'', ''sectors_per_block'', ''inodes_per_block''] =
     map Some [p_first_bgd, p_number_of_bgs, p_blocksize, p_sectors_per_block, p_inodes_per_block] \<and>
   map (\<lambda>f. offset_of f file_struct) [''fops'', ''fs'', ''respath'', ''isdir'', ''pos''] = map Some [f_fops, f_fs, f_respath, f_isdir, f_pos] \<and>
   map (\<lambda>f. offset_of f mount_struct) [''point'', ''fs'', ''dev''] = map Some [m_point, m_fs, m_dev] \<and>
   map (\<lambda>f. offset_of f filesystem_struct) [''fsname'', ''priv_data'', ''dev'', ''stat'', ''open'', ''mount''] =
     map Some [fs_fsname, fs_priv_data, fs_dev, fs_stat, fs_open, fs_mount] \<and>
   map (\<lambda>f. offset_of f device_struct) [''name'', ''type'', ''read'', ''write'', ''sync'', ''fs''] =
     map Some [dev_name, dev_type, dev_read_fn, dev_write_fn, dev_sync_fn, dev_fs]"
  by (simp add: ext2_layouts vfs_layouts boot_layouts sizeof_def) presburger

end
