(* ===== verification/Vfs.thy ===== *)
theory Vfs
  imports Ext2
begin

text \<open>
  fs/vfs.c and fs/devfs/super.c: the table of mounts, the registered file systems, and the calls through the
  function pointers of a \<open>struct filesystem\<close>, which go to the routine that lies at the address.
\<close>

abbreviation (input) MAX_MOUNTS :: nat where "MAX_MOUNTS \<equiv> 256"
abbreviation (input) MAX_FILESYSTEMS :: nat where "MAX_FILESYSTEMS \<equiv> 8"

section \<open>devfs\<close>

definition devfs_readdir :: "nat \<Rightarrow> nat" where
  "devfs_readdir d = 0"

definition devfs_mount :: "nat \<Rightarrow> 'a vfs_state_scheme \<Rightarrow> nat \<times> 'a vfs_state_scheme" where
  "devfs_mount dev st = (err_ptr (- ENODEV), st)"

definition devfs_open :: "'a vfs_state_scheme kern \<Rightarrow> nat \<Rightarrow> nat \<Rightarrow> 'a vfs_state_scheme \<Rightarrow> (nat \<times> 'a vfs_state_scheme) outcome" where
  "devfs_open K fs p st =
     (if fs = 0 \<or> p = 0 then Inr (err_ptr (- EINVAL), st)
      else bindR (k_malloc K sizeof_file st) (\<lambda>(f, st1).
        if f = 0 then Inr (err_ptr (- ENOMEM), st1)
        else bindR (k_malloc K 8 st1) (\<lambda>(fops, st2).
          if fops = 0 then bindR (k_free K f st2) (\<lambda>st3. Inr (err_ptr (- ENOMEM), st3))
          else Inr (err_ptr (- ENOSYS), set_field f f_fops fops (set_field f f_respath p (set_field f f_fs fs st2))))))"

section \<open>Calls through pointers\<close>

definition call_mount :: "'a vfs_state_scheme kern \<Rightarrow> nat \<Rightarrow> nat \<Rightarrow> 'a vfs_state_scheme \<Rightarrow> (nat \<times> 'a vfs_state_scheme) outcome" where
  "call_mount K fn dev st =
     (if fn = k_sym K Ext2_mount then ext2_mount K dev st
      else if fn = k_sym K Devfs_mount then Inr (devfs_mount dev st)
      else Inl (Undefined ''call''))"

definition call_open :: "'a vfs_state_scheme kern \<Rightarrow> nat \<Rightarrow> nat \<Rightarrow> nat \<Rightarrow> 'a vfs_state_scheme \<Rightarrow> (nat \<times> 'a vfs_state_scheme) outcome" where
  "call_open K fn fs path st =
     (if fn = k_sym K Ext2_open then ext2_open K fs path st
      else if fn = k_sym K Devfs_open then devfs_open K fs path st
      else Inl (Undefined ''call''))"

definition call_stat :: "'a vfs_state_scheme kern \<Rightarrow> nat \<Rightarrow> nat \<Rightarrow> nat \<Rightarrow> nat \<Rightarrow> 'a vfs_state_scheme \<Rightarrow> (int \<times> 'a vfs_state_scheme) outcome" where
  "call_stat K fn fs p buf st = (if fn = k_sym K Ext2_stat then ext2_stat K fs p buf st else Inl (Undefined ''call''))"

section \<open>Mounts\<close>

text \<open>The loop over the mounts: \<open>i\<close> counts up, \<open>n\<close> turns are left.\<close>

primrec check_loop :: "nat \<Rightarrow> nat \<Rightarrow> nat \<Rightarrow> 'a vfs_state_scheme \<Rightarrow> nat outcome" where
  "check_loop str i 0 st = Inr 0"
| "check_loop str i (Suc n) st =
     bindR (hang (strcmp (ram st) (field (mounts st ! i) m_point st) str)) (\<lambda>c.
       if c = 0 then Inr (mounts st ! i) else check_loop str (Suc i) n st)"

definition check_mounts :: "nat \<Rightarrow> 'a vfs_state_scheme \<Rightarrow> nat outcome" where
  "check_mounts str st = check_loop str 0 (nmounts st) st"

definition vfs_set_mount :: "'a vfs_state_scheme kern \<Rightarrow> nat \<Rightarrow> nat \<Rightarrow> nat \<Rightarrow> 'a vfs_state_scheme \<Rightarrow> (int \<times> 'a vfs_state_scheme) outcome" where
  "vfs_set_mount K p dev fs st =
     bindR (k_malloc K sizeof_mount st) (\<lambda>(m, st1).
       if m = 0 then Inr (- ENOMEM, st1)
       else let st2 = set_field m m_dev dev (set_field m m_fs fs (set_field m m_point p st1)) in
         if nmounts st2 \<ge> MAX_MOUNTS then Inl (Undefined ''mounts'')
         else let st3 = st2\<lparr>mounts := (mounts st2)[nmounts st2 := m], nmounts := nmounts st2 + 1\<rparr>;
                  st4 = say ''vfs: mounted %x on %x to %x'' [int (field fs fs_fsname st3), int (field dev dev_name st3), int p] st3
              in bindR (hang (strcmp (ram st4) p (k_sym K Slash))) (\<lambda>c.
                   Inr (0, if c = 0 then st4\<lparr>root_mount := m\<rparr> else st4)))"

text \<open>The loop of \<open>find_mount\<close>: the copy at \<open>str\<close> gets shorter from its end.\<close>

partial_function (option) find_loop :: "nat \<Rightarrow> 'a vfs_state_scheme \<Rightarrow> (nat \<times> 'a vfs_state_scheme) outcome option" where
  "find_loop str st =
     (case strlen (ram st) str of
        None \<Rightarrow> None
      | Some n \<Rightarrow>
          if n > 1
          then case check_mounts str st of
              Inl h \<Rightarrow> Some (Inl h)
            | Inr m \<Rightarrow> if m \<noteq> 0 then Some (Inr (m, st)) else find_loop str (st\<lparr>ram := (ram st)(str + (n - 1) := 0)\<rparr>)
          else Some (Inr (root_mount st, st)))"

definition find_mount :: "'a vfs_state_scheme kern \<Rightarrow> nat \<Rightarrow> 'a vfs_state_scheme \<Rightarrow> (nat \<times> 'a vfs_state_scheme) outcome" where
  "find_mount K path st =
     bindR (hang (strlen (ram st) path)) (\<lambda>n.
     bindR (k_malloc K (add32 n 1) st) (\<lambda>(str, st1).
     bindR (hang (strlen (ram st1) path)) (\<lambda>n1.
     let st2 = st1\<lparr>ram := memcpy str path (add32 n1 1) (ram st1)\<rparr> in
     bindR (hang (strcmp (ram st2) str (k_sym K Slash))) (\<lambda>c.
     bindR (if c = 0 then Inr (root_mount st2, st2)
            else case find_loop str st2 of None \<Rightarrow> Inl Hang | Some r \<Rightarrow> r) (\<lambda>(ret, st3).
     bindR (k_free K str st3) (\<lambda>st4. Inr (ret, st4)))))))"

text \<open>\<open>(intptr_t)fs > 0\<close>: error codes and null are passed over.\<close>

primrec mount_loop :: "'a vfs_state_scheme kern \<Rightarrow> nat \<Rightarrow> nat \<Rightarrow> nat \<Rightarrow> 'a vfs_state_scheme \<Rightarrow> (nat \<times> 'a vfs_state_scheme) outcome" where
  "mount_loop K dev i 0 st = Inr (0, st)"
| "mount_loop K dev i (Suc n) st =
     (let fn = field (filesystems st ! i) fs_mount st in
      if fn = 0 then mount_loop K dev (Suc i) n st
      else bindR (call_mount K fn dev st) (\<lambda>(fs, st1).
        if sint32 fs > 0 then Inr (fs, st1) else mount_loop K dev (Suc i) n st1))"

definition vfs_mount_fs :: "'a vfs_state_scheme kern \<Rightarrow> nat \<Rightarrow> 'a vfs_state_scheme \<Rightarrow> (nat \<times> 'a vfs_state_scheme) outcome" where
  "vfs_mount_fs K dev st = mount_loop K dev 0 (nfilesystems st) st"

definition vfs_mount :: "'a vfs_state_scheme kern \<Rightarrow> nat \<Rightarrow> nat \<Rightarrow> 'a vfs_state_scheme \<Rightarrow> (int \<times> 'a vfs_state_scheme) outcome" where
  "vfs_mount K path dev st =
     bindR (if root_mount st = 0 then hang (strcmp (ram st) (k_sym K Slash) path) else Inr 0) (\<lambda>c.
       if root_mount st = 0 \<and> c \<noteq> 0 then Inr (- EAGAIN, st)
       else bindR (vfs_mount_fs K dev st) (\<lambda>(fs, st1).
         if fs = 0 then Inr (- ENXIO, st1) else vfs_set_mount K path dev fs st1))"

definition vfs_root_mounted :: "'a vfs_state_scheme \<Rightarrow> int" where
  "vfs_root_mounted st = (if root_mount st \<noteq> 0 then 1 else 0)"

definition register_fs :: "nat \<Rightarrow> 'a vfs_state_scheme \<Rightarrow> (int \<times> 'a vfs_state_scheme) outcome" where
  "register_fs fs st =
     (if fs = 0 then Inr (- EINVAL, st)
      else let st1 = say ''vfs: registered filesystem %s'' [int (field fs fs_fsname st)] st in
        if nfilesystems st1 \<ge> MAX_FILESYSTEMS then Inl (Undefined ''filesystems'')
        else Inr (0, st1\<lparr>filesystems := (filesystems st1)[nfilesystems st1 := fs], nfilesystems := nfilesystems st1 + 1\<rparr>))"

definition vfs_open :: "'a vfs_state_scheme kern \<Rightarrow> nat \<Rightarrow> 'a vfs_state_scheme \<Rightarrow> (nat \<times> 'a vfs_state_scheme) outcome" where
  "vfs_open K path st =
     bindR (find_mount K path st) (\<lambda>(m, st1).
       if m = 0 then Inl (Undefined ''null mount'')
       else let fs = field m m_fs st1 in call_open K (field fs fs_open st1) fs path st1)"

definition vfs_stat :: "'a vfs_state_scheme kern \<Rightarrow> nat \<Rightarrow> nat \<Rightarrow> 'a vfs_state_scheme \<Rightarrow> (int \<times> 'a vfs_state_scheme) outcome" where
  "vfs_stat K p buf st =
     bindR (find_mount K p st) (\<lambda>(m, st1).
       if m = 0 then Inl (Panic ''Location was not mounted!'')
       else let fs = field m m_fs st1 in
         if fs = 0 then Inl (Panic ''Mount deciphered had not fs'')
         else if field fs fs_stat st1 = 0 then Inr (- ENOSYS, st1)
         else call_stat K (field fs fs_stat st1) fs p buf st1)"

section \<open>Initialisation\<close>

definition devfs_init :: "'a vfs_state_scheme kern \<Rightarrow> 'a vfs_state_scheme \<Rightarrow> (int \<times> 'a vfs_state_scheme) outcome" where
  "devfs_init K st =
     bindR (register_fs (k_sym K Devfs) (say ''devfs: there are %d devices'' [int (get_num_of_devices st)] st)) (\<lambda>(_, st1). Inr (0, st1))"

definition ext2_init :: "'a vfs_state_scheme kern \<Rightarrow> 'a vfs_state_scheme \<Rightarrow> (int \<times> 'a vfs_state_scheme) outcome" where
  "ext2_init K st =
     bindR (k_malloc K sizeof_filesystem (say ''ext2: registered filesystem to vfs'' [] st)) (\<lambda>(f, st1).
     bindR (register_fs f (st1\<lparr>ram := memcpy f (k_sym K Ext2_fs) sizeof_filesystem (ram st1)\<rparr>)) (\<lambda>(_, st2). Inr (0, st2)))"

definition vfs_init :: "'a vfs_state_scheme kern \<Rightarrow> 'a vfs_state_scheme \<Rightarrow> (int \<times> 'a vfs_state_scheme) outcome" where
  "vfs_init K st =
     bindR (devfs_init K (say ''vfs: loading filesystems'' [] st)) (\<lambda>(_, st1). bindR (ext2_init K st1) (\<lambda>(_, st2). Inr (0, st2)))"

text \<open>main.c: mounting whatever device has a file system as the root.\<close>

primrec do_mount_loop :: "'a vfs_state_scheme kern \<Rightarrow> nat \<Rightarrow> nat \<Rightarrow> 'a vfs_state_scheme \<Rightarrow> 'a vfs_state_scheme outcome" where
  "do_mount_loop K i 0 st = Inr st"
| "do_mount_loop K i (Suc n) st =
     bindR (device_get (int i) st) (\<lambda>d. bindR (vfs_mount K (k_sym K Slash) d st) (\<lambda>(_, st1). do_mount_loop K (Suc i) n st1))"

definition do_mount :: "'a vfs_state_scheme kern \<Rightarrow> 'a vfs_state_scheme \<Rightarrow> 'a vfs_state_scheme outcome" where
  "do_mount K st =
     bindR (do_mount_loop K 0 (get_num_of_devices st) st) (\<lambda>st1.
       if vfs_root_mounted st1 = 0 then Inl (Panic ''unable to mount root directory'') else Inr st1)"

end
