(* ===== verification/Syscall.thy ===== *)
theory Syscall
  imports Vfs
begin

text \<open>
  kernel/syscall.c and arch/x86/syscall.c: the table of system calls, the calls on files, and the interrupt 0x80
  that leads to them. The write operation of the console file is an argument \<open>cw\<close>; it is \<open>console_file_write\<close> of the
  console component.
\<close>

type_synonym 's write_fn = "nat \<Rightarrow> nat \<Rightarrow> nat \<Rightarrow> 's \<Rightarrow> (int \<times> 's) outcome"

section \<open>Files of the current process\<close>

definition with_current :: "'a sched_state_scheme \<Rightarrow> (nat \<Rightarrow> process \<Rightarrow> 'b outcome) \<Rightarrow> 'b outcome" where
  "with_current st f = with_thread (current st) st (\<lambda>th. with_proc (t_owner th) st (f (t_owner th)))"

text \<open>\<open>file_table[fd]\<close> with an \<open>int\<close> that nobody has checked.\<close>

definition fd_entry :: "int \<Rightarrow> process \<Rightarrow> nat outcome" where
  "fd_entry fd pr = (if 0 \<le> fd \<and> fd < int (length (file_table pr)) then Inr (file_table pr ! nat fd) else Inl (Undefined ''file_table''))"

text \<open>The operations of an open file: pointers in the struct at \<open>fops\<close>.\<close>

definition call_read :: "'a vfs_state_scheme kern \<Rightarrow> nat \<Rightarrow> nat \<Rightarrow> nat \<Rightarrow> nat \<Rightarrow> 'a vfs_state_scheme \<Rightarrow> (int \<times> 'a vfs_state_scheme) outcome" where
  "call_read K fn f buf count st = (if fn = k_sym K Ext2_read_file then ext2_read_file K f buf count st else Inl (Undefined ''call''))"

definition call_write :: "'a vfs_state_scheme kern \<Rightarrow> 'a vfs_state_scheme write_fn \<Rightarrow> nat \<Rightarrow> 'a vfs_state_scheme write_fn" where
  "call_write K cw fn f buf count st =
     (if fn = k_sym K Ext2_write_file then Inr (ext2_write_file f buf count st)
      else if fn = k_sym K Console_write then cw f buf count st
      else Inl (Undefined ''call''))"

abbreviation (input) fops_read :: nat where "fops_read \<equiv> 0"
abbreviation (input) fops_write :: nat where "fops_write \<equiv> 4"

section \<open>The calls\<close>

text \<open>\<open>None\<close>: the call does not come back, another thread runs.\<close>

type_synonym 's handler = "pt_regs \<Rightarrow> 's \<Rightarrow> (int option \<times> 's) outcome"

definition syscall_null :: "'a vfs_state_scheme handler" where
  "syscall_null r st = Inr (Some (- ENOSYS), st)"

definition syscall_exit :: "'a vfs_state_scheme handler" where
  "syscall_exit r st =
     with_current st (\<lambda>p pr.
       bindR (sched_rm_process p (say ''pid %d: Bye cruel world!'' [p_pid pr] st)) (\<lambda>(rc, st').
         Inr (map_option (\<lambda>_. 0x13371337) rc, st')))"

definition syscall_write :: "'a vfs_state_scheme kern \<Rightarrow> 'a vfs_state_scheme write_fn \<Rightarrow> 'a vfs_state_scheme handler" where
  "syscall_write K cw r st =
     (let fd = sint32 (r_ebx r); buf = r_ecx r; count = r_edx r in
      with_current st (\<lambda>_ pr. bindR (fd_entry fd pr) (\<lambda>fp.
        if fp = 0 then Inr (Some (- EBADF), st)
        else bindR (call_write K cw (field (field fp f_fops st) fops_write st) fp buf count st) (\<lambda>(rc, st'). Inr (Some rc, st')))))"

definition syscall_stat :: "'a vfs_state_scheme kern \<Rightarrow> 'a vfs_state_scheme handler" where
  "syscall_stat K r st = bindR (vfs_stat K (r_ebx r) (r_ecx r) st) (\<lambda>(rc, st'). Inr (Some rc, st'))"

definition syscall_open :: "'a vfs_state_scheme kern \<Rightarrow> 'a vfs_state_scheme handler" where
  "syscall_open K r st =
     bindR (vfs_open K (r_ebx r) st) (\<lambda>(filp, st1).
       with_current st1 (\<lambda>p pr.
         case scan (\<lambda>i. file_table pr ! i = 0) 3 128 of
           Some i \<Rightarrow> Inr (Some (int i), set_proc p (pr\<lparr>file_table := (file_table pr)[i := filp]\<rparr>) st1)
         | None \<Rightarrow> Inr (Some (- EMFILE), st1)))"

definition syscall_read :: "'a vfs_state_scheme kern \<Rightarrow> 'a vfs_state_scheme handler" where
  "syscall_read K r st =
     (let fd = sint32 (r_ebx r); buf = r_ecx r; size = r_edx r in
      with_current st (\<lambda>_ pr. bindR (fd_entry fd pr) (\<lambda>filp.
        if filp = 0 then Inr (Some (- EBADF), st)
        else bindR (call_read K (field (field filp f_fops st) fops_read st) filp buf size st) (\<lambda>(rc, st'). Inr (Some rc, st')))))"

definition syscall_close :: "'a vfs_state_scheme handler" where
  "syscall_close r st =
     (let fd = sint32 (r_ebx r) in
      with_current st (\<lambda>p pr. bindR (fd_entry fd pr) (\<lambda>filp.
        if filp = 0 then Inr (Some (- EBADF), st)
        else Inr (Some 0, set_proc p (pr\<lparr>file_table := (file_table pr)[nat fd := 0]\<rparr>) st))))"

text \<open>The table has 256 entries.\<close>

definition syscalls :: "'a vfs_state_scheme kern \<Rightarrow> 'a vfs_state_scheme write_fn \<Rightarrow> 'a vfs_state_scheme handler option list" where
  "syscalls K cw =
     [None, Some syscall_exit, None, Some (syscall_read K), Some (syscall_write K cw), Some (syscall_open K), Some syscall_close, None, None, None,
      None, None, None, None, None, None, None, None, Some (syscall_stat K), None, None, None, None] @ replicate 233 None"

section \<open>Interrupt 0x80\<close>

text \<open>
  The result \<open>True\<close> says that the context was switched: to the caller, or by a call that does not come back. The line that
  the handler prints first is recorded by \<open>say\<close>; what printing does to memory is not part of this state.
\<close>

definition syscall_hub :: "'a vfs_state_scheme kern \<Rightarrow> 'a vfs_state_scheme write_fn \<Rightarrow> 'a vfs_state_scheme \<Rightarrow> (bool \<times> 'a vfs_state_scheme) outcome" where
  "syscall_hub K cw st =
     (let t = current st in
      with_thread t st (\<lambda>th. with_proc (t_owner th) st (\<lambda>pr.
        let n = r_eax (t_regs th);
            st1 = say ''Process \"%s\" called system call %d'' [int (p_comm pr), sint32 n] st in
        if n \<ge> 256 then Inl (Undefined ''syscalls'')
        else bindR ((case syscalls K cw ! n of None \<Rightarrow> syscall_null | Some f \<Rightarrow> f) (t_regs th) st1) (\<lambda>(rc, st2).
          case rc of
            None \<Rightarrow> Inr (True, st2)
          | Some v \<Rightarrow> with_thread t st2 (\<lambda>th2.
              let r = (t_regs th2)\<lparr>r_eax := nat (v mod int W32)\<rparr>;
                  st3 = set_thread t (th2\<lparr>t_regs := r\<rparr>) st2 in
              with_thread (current st3) st3 (\<lambda>th3.
                let (r', m) = arch_sched_setup_stack r (ram st3);
                    st4 = set_thread (current st3) (th3\<lparr>t_regs := r'\<rparr>) (st3\<lparr>ram := m\<rparr>)
                in Inr (True, ARCH_SWITCH_CONTEXT r' st4)))))))"

definition num_syscalls :: "'a vfs_state_scheme kern \<Rightarrow> 'a vfs_state_scheme write_fn \<Rightarrow> nat" where
  "num_syscalls K cw = length (filter (\<lambda>f. \<not> Option.is_none f) (syscalls K cw))"

definition syscall_init :: "'a vfs_state_scheme kern \<Rightarrow> 'a vfs_state_scheme write_fn \<Rightarrow> (nat \<Rightarrow> nat \<Rightarrow> 'a vfs_state_scheme \<Rightarrow> 'a vfs_state_scheme) \<Rightarrow>
    'a vfs_state_scheme \<Rightarrow> 'a vfs_state_scheme" where
  "syscall_init K cw irq_set st =
     irq_set 0x80 (k_sym K Syscall_hub) (say ''syscall: there are %d system calls'' [int (num_syscalls K cw)] st)"

text \<open>
  The caller's side: \<open>None\<close> as the result means that the caller does not go on. Registers 4 and up of the calling convention are
  left as they are.
\<close>

definition call_syscall :: "'a vfs_state_scheme kern \<Rightarrow> 'a vfs_state_scheme write_fn \<Rightarrow> nat \<Rightarrow> nat \<Rightarrow> nat \<Rightarrow> nat \<Rightarrow> 'a vfs_state_scheme \<Rightarrow>
    (int option \<times> 'a vfs_state_scheme) outcome" where
  "call_syscall K cw sys a1 a2 a3 st =
     bindR (sched_irq 0x80 (syscall_hub K cw) (st\<lparr>cpu := (cpu st)\<lparr>r_eax := sys, r_ebx := a1, r_ecx := a2, r_edx := a3\<rparr>\<rparr>)) (\<lambda>(_, st').
       Inr (if current st' = current st then Some (sint32 (r_eax (cpu st'))) else None, st'))"

end
