(* ===== verification/Ata.thy ===== *)
theory Ata
  imports Kern
begin

text \<open>
  drivers/ata.c: reading sectors from the master drive on the primary bus by programmed I/O. The waiting loops end
  only when the drive lets them; what the drive answers may depend on everything written to it before.
\<close>

abbreviation (input) ATA_PRIMARY_IO :: nat where "ATA_PRIMARY_IO \<equiv> 0x1F0"
abbreviation (input) ATA_SECONDARY_IO :: nat where "ATA_SECONDARY_IO \<equiv> 0x170"
abbreviation (input) ATA_PRIMARY_IRQ :: nat where "ATA_PRIMARY_IRQ \<equiv> 14"
abbreviation (input) ATA_REG_DATA :: nat where "ATA_REG_DATA \<equiv> 0"
abbreviation (input) ATA_REG_SECCOUNT0 :: nat where "ATA_REG_SECCOUNT0 \<equiv> 2"
abbreviation (input) ATA_REG_LBA0 :: nat where "ATA_REG_LBA0 \<equiv> 3"
abbreviation (input) ATA_REG_LBA1 :: nat where "ATA_REG_LBA1 \<equiv> 4"
abbreviation (input) ATA_REG_LBA2 :: nat where "ATA_REG_LBA2 \<equiv> 5"
abbreviation (input) ATA_REG_HDDEVSEL :: nat where "ATA_REG_HDDEVSEL \<equiv> 6"
abbreviation (input) ATA_REG_COMMAND :: nat where "ATA_REG_COMMAND \<equiv> 7"
abbreviation (input) ATA_REG_STATUS :: nat where "ATA_REG_STATUS \<equiv> 7"
abbreviation (input) ATA_REG_ALTSTATUS :: nat where "ATA_REG_ALTSTATUS \<equiv> 12"
abbreviation (input) ATA_SR_BSY :: u8 where "ATA_SR_BSY \<equiv> 0x80"
abbreviation (input) ATA_SR_DRQ :: u8 where "ATA_SR_DRQ \<equiv> 0x08"
abbreviation (input) ATA_SR_ERR :: u8 where "ATA_SR_ERR \<equiv> 0x01"

section \<open>The code\<close>

definition ide_select_drive :: "u8 \<Rightarrow> u8 \<Rightarrow> 'a dev_state_scheme \<Rightarrow> 'a dev_state_scheme" where
  "ide_select_drive bus i st =
     (if bus = 0 then (if i = 0 then outportb (ATA_PRIMARY_IO + ATA_REG_HDDEVSEL) 0xA0 st
                       else outportb (ATA_PRIMARY_IO + ATA_REG_HDDEVSEL) 0xB0 st)
      else (if i = 0 then outportb (ATA_SECONDARY_IO + ATA_REG_HDDEVSEL) 0xA0 st
            else outportb (ATA_SECONDARY_IO + ATA_REG_HDDEVSEL) 0xB0 st))"

primrec reads_of :: "nat \<Rightarrow> nat \<Rightarrow> 'a dev_state_scheme \<Rightarrow> 'a dev_state_scheme" where
  "reads_of p 0 st = st"
| "reads_of p (Suc n) st = reads_of p n (snd (inportb p st))"

definition ide_400ns_delay :: "nat \<Rightarrow> 'a dev_state_scheme \<Rightarrow> 'a dev_state_scheme" where
  "ide_400ns_delay io st = reads_of (io + ATA_REG_ALTSTATUS) 4 st"

partial_function (option) poll_busy :: "nat \<Rightarrow> 'a dev_state_scheme \<Rightarrow> 'a dev_state_scheme option" where
  "poll_busy io st =
     (let (status, st') = inportb (io + ATA_REG_STATUS) st
      in if status AND ATA_SR_BSY \<noteq> 0 then poll_busy io st' else Some st')"

partial_function (option) poll_drq :: "nat \<Rightarrow> 'a dev_state_scheme \<Rightarrow> 'a dev_state_scheme outcome option" where
  "poll_drq io st =
     (let (status, st') = inportb (io + ATA_REG_STATUS) st
      in if status AND ATA_SR_ERR \<noteq> 0 then Some (Inl (Panic ''ata: ERROR bit set!''))
         else if status AND ATA_SR_DRQ = 0 then poll_drq io st' else Some (Inr st'))"

definition ide_poll :: "nat \<Rightarrow> 'a dev_state_scheme \<Rightarrow> 'a dev_state_scheme outcome" where
  "ide_poll io st = bindR (hang (poll_busy io (ide_400ns_delay io st))) (\<lambda>st1. case poll_drq io st1 of None \<Rightarrow> Inl Hang | Some r \<Rightarrow> r)"

text \<open>Reading \<open>n\<close> words of data, the first of them word \<open>i\<close> of the buffer.\<close>

primrec read_words :: "nat \<Rightarrow> nat \<Rightarrow> nat \<Rightarrow> nat \<Rightarrow> 'a dev_state_scheme \<Rightarrow> 'a dev_state_scheme" where
  "read_words io buf i 0 st = st"
| "read_words io buf i (Suc n) st =
     (let (d, st') = inportw (io + ATA_REG_DATA) st
      in read_words io buf (Suc i) n (st'\<lparr>ram := st16 (ram st') (buf + i * 2) (unat d)\<rparr>))"

definition ata_read_one :: "nat \<Rightarrow> nat \<Rightarrow> nat \<Rightarrow> 'a dev_state_scheme \<Rightarrow> 'a dev_state_scheme outcome" where
  "ata_read_one dev buf lba st =
     (let io = ATA_PRIMARY_IO;
          st1 = outportb (io + ATA_REG_HDDEVSEL) (0xE0 OR of_nat (drop_bit 24 lba AND 0x0F)) st;
          st2 = outportb (io + 1) 0 st1;
          st3 = outportb (io + ATA_REG_SECCOUNT0) 1 st2;
          st4 = outportb (io + ATA_REG_LBA0) (of_nat lba) st3;
          st5 = outportb (io + ATA_REG_LBA1) (of_nat (drop_bit 8 lba)) st4;
          st6 = outportb (io + ATA_REG_LBA2) (of_nat (drop_bit 16 lba)) st5;
          st7 = outportb (io + ATA_REG_COMMAND) 0x20 st6
      in bindR (ide_poll io st7) (\<lambda>st8. Inr (ide_400ns_delay io (read_words io buf 0 256 st8))))"

primrec ata_read_loop :: "nat \<Rightarrow> nat \<Rightarrow> nat \<Rightarrow> nat \<Rightarrow> nat \<Rightarrow> 'a dev_state_scheme \<Rightarrow> 'a dev_state_scheme outcome" where
  "ata_read_loop dev buf pos i 0 st = Inr st"
| "ata_read_loop dev buf pos i (Suc n) st =
     bindR (ata_read_one dev buf (add32 pos i) st) (ata_read_loop dev (buf + 512) pos (Suc i) n)"

definition ata_read :: "nat \<Rightarrow> nat \<Rightarrow> nat \<Rightarrow> nat \<Rightarrow> 'a dev_state_scheme \<Rightarrow> (int \<times> 'a dev_state_scheme) outcome" where
  "ata_read dev buf count pos st = bindR (ata_read_loop dev buf pos 0 count st) (\<lambda>st'. Inr (sint32 count, st'))"

definition ata_write :: "nat \<Rightarrow> nat \<Rightarrow> nat \<Rightarrow> nat \<Rightarrow> 'a dev_state_scheme \<Rightarrow> int \<times> 'a dev_state_scheme" where
  "ata_write dev buf c p st = (- ENOSYS, st)"

definition ata_sync :: "nat \<Rightarrow> 'a dev_state_scheme \<Rightarrow> int \<times> 'a dev_state_scheme" where
  "ata_sync dev st = (- ENOSYS, st)"

definition ide_identify :: "'a vfs_state_scheme kern \<Rightarrow> 'a vfs_state_scheme \<Rightarrow> (int \<times> 'a vfs_state_scheme) outcome" where
  "ide_identify K st =
     (let io = 0x1F0;
          st1 = outportb (io + ATA_REG_COMMAND) 0xEC (outportb (io + ATA_REG_LBA2) 0 (outportb (io + ATA_REG_LBA1) 0
                  (outportb (io + ATA_REG_LBA0) 0 (outportb (io + ATA_REG_SECCOUNT0) 0
                  (outportb (ATA_PRIMARY_IO + ATA_REG_HDDEVSEL) 0xA0 st)))));
          (status, st2) = inportb (io + ATA_REG_STATUS) st1
      in if status = 0 then Inr (0, say ''ata: IDENTIFY error on b0d0 -> no status'' [] st2)
         else bindR (k_malloc K 512 st2) (\<lambda>(ide_buf, st3).
           if ide_buf = 0 then Inr (- ENOMEM, st3)
           else bindR (k_free K ide_buf (read_words io ide_buf 0 256 st3)) (\<lambda>st4.
           bindR (k_malloc K sizeof_device st4) (\<lambda>(dev, st5).
             if dev = 0 then Inr (- ENOMEM, st5)
             else
               let st6 = set_field dev dev_sync_fn (k_sym K Ata_sync) (set_field dev dev_write_fn (k_sym K Ata_write)
                           (set_field dev dev_read_fn (k_sym K Ata_read) (set_field dev dev_type DEV_TYPE_BLK
                           (set_field dev dev_name (k_sym K Sda) st5))))
               in Inr (1, snd (device_register dev st6))))))"

definition ata_probe :: "'a vfs_state_scheme kern \<Rightarrow> 'a vfs_state_scheme \<Rightarrow> (int \<times> 'a vfs_state_scheme) outcome" where
  "ata_probe K st =
     bindR (ide_identify K st) (\<lambda>(rc, st1).
       let (devs, st2) = (if rc > 0 then (1, say ''ata: primary master is online'' [] st1) else (0, st1))
       in Inr (0, say ''ata: %d devices brought online'' [devs] st2))"

text \<open>\<open>irq_set\<close> is a routine of the interrupt table.\<close>

definition ata_init :: "'a vfs_state_scheme kern \<Rightarrow> (nat \<Rightarrow> nat \<Rightarrow> 'a vfs_state_scheme \<Rightarrow> 'a vfs_state_scheme) \<Rightarrow>
    'a vfs_state_scheme \<Rightarrow> (int \<times> 'a vfs_state_scheme) outcome" where
  "ata_init K irq_set st =
     ata_probe K (irq_set (0x20 + ATA_PRIMARY_IRQ) (k_sym K Ide_irq) (say ''ata: using IDE mode, disregarding secondary'' [] st))"

section \<open>The drive\<close>

text \<open>
  What the driver relies on: after the commands for sector \<open>lba\<close> the drive is busy for a while, then asks for the
  data to be fetched without reporting an error, and the following 256 words are the sector's.
\<close>

definition read_cmd :: "nat \<Rightarrow> port_event list" where
  "read_cmd lba = [Out 0x1F6 (0xE0 OR of_nat (drop_bit 24 lba AND 0x0F)), Out 0x1F1 0, Out 0x1F2 1, Out 0x1F3 (of_nat lba),
     Out 0x1F4 (of_nat (drop_bit 8 lba)), Out 0x1F5 (of_nat (drop_bit 16 lba)), Out 0x1F7 0x20]"

definition polled_at :: "port_event list \<Rightarrow> nat \<Rightarrow> nat \<Rightarrow> port_event list" where
  "polled_at es lba j = es @ read_cmd lba @ replicate 4 (In 0x1FC) @ replicate j (In 0x1F7)"

definition status :: "(port_event list \<Rightarrow> nat \<Rightarrow> nat) \<Rightarrow> port_event list \<Rightarrow> u8" where
  "status h es = of_nat (h es 0x1F7)"

definition serves :: "(port_event list \<Rightarrow> nat \<Rightarrow> nat) \<Rightarrow> mem \<Rightarrow> bool" where
  "serves h D \<longleftrightarrow> (\<forall>es lba. lba < 268435456 \<longrightarrow> (\<exists>k m. k < m \<and>
     (\<forall>j<k. status h (polled_at es lba j) AND ATA_SR_BSY \<noteq> 0) \<and> status h (polled_at es lba k) AND ATA_SR_BSY = 0 \<and>
     (\<forall>j\<in>{k<..<m}. status h (polled_at es lba j) AND ATA_SR_ERR = 0 \<and> status h (polled_at es lba j) AND ATA_SR_DRQ = 0) \<and>
     status h (polled_at es lba m) AND ATA_SR_ERR = 0 \<and> status h (polled_at es lba m) AND ATA_SR_DRQ \<noteq> 0 \<and>
     (\<forall>i<256. h (polled_at es lba (Suc m) @ replicate i (In 0x1F0)) 0x1F0 mod 65536 = ld16 D (512 * lba + 2 * i))))"

lemma reads_of_log: "reads_of p n st = st\<lparr>port_log := port_log st @ replicate n (In p)\<rparr>"
  by (induction n arbitrary: st) (simp_all add: replicate_append_same flip: replicate_Suc)

definition with_log :: "port_event list \<Rightarrow> 'a dev_state_scheme \<Rightarrow> 'a dev_state_scheme" where
  "with_log es st = st\<lparr>port_log := es\<rparr>"

lemma with_log_sel [simp]: "hw (with_log es st) = hw st" "port_log (with_log es st) = es" "ram (with_log es st) = ram st"
  "with_log es (with_log fs st) = with_log es st" "with_log (port_log st) st = st"
  by (simp_all add: with_log_def)

lemma poll_busy_step:
  "poll_busy 0x1F0 st = (if status (hw st) (port_log st) AND ATA_SR_BSY \<noteq> 0 then poll_busy 0x1F0 (with_log (port_log st @ [In 0x1F7]) st)
     else Some (with_log (port_log st @ [In 0x1F7]) st))"
  by (subst poll_busy.simps) (simp add: status_def with_log_def inportb_def)

lemma poll_drq_step:
  "poll_drq 0x1F0 st = (if status (hw st) (port_log st) AND ATA_SR_ERR \<noteq> 0 then Some (Inl (Panic ''ata: ERROR bit set!''))
     else if status (hw st) (port_log st) AND ATA_SR_DRQ = 0 then poll_drq 0x1F0 (with_log (port_log st @ [In 0x1F7]) st)
     else Some (Inr (with_log (port_log st @ [In 0x1F7]) st)))"
  by (subst poll_drq.simps) (simp add: status_def with_log_def inportb_def)

lemma polled_at_Suc: "polled_at es lba j @ [In 0x1F7] = polled_at es lba (Suc j)"
  by (simp add: polled_at_def replicate_append_same)

lemma poll_busy_done:
  assumes "status (hw st) (polled_at es lba k) AND ATA_SR_BSY = 0" "\<forall>j<k. status (hw st) (polled_at es lba j) AND ATA_SR_BSY \<noteq> 0" "j \<le> k"
  shows "poll_busy 0x1F0 (with_log (polled_at es lba j) st) = Some (with_log (polled_at es lba (Suc k)) st)"
  using assms(3)
proof (induction "k - j" arbitrary: j)
  case 0
  then show ?case using assms(1) by (subst poll_busy_step) (simp add: polled_at_Suc)
next
  case (Suc n)
  then have "poll_busy 0x1F0 (with_log (polled_at es lba (Suc j)) st) = Some (with_log (polled_at es lba (Suc k)) st)"
    by (intro Suc.hyps(1)) auto
  moreover have "j < k" using Suc.hyps(2) by linarith
  ultimately show ?case using assms(2) by (subst poll_busy_step) (simp add: polled_at_Suc)
qed

lemma poll_drq_done:
  assumes "status (hw st) (polled_at es lba m) AND ATA_SR_ERR = 0" "status (hw st) (polled_at es lba m) AND ATA_SR_DRQ \<noteq> 0"
    "\<forall>j\<in>{k<..<m}. status (hw st) (polled_at es lba j) AND ATA_SR_ERR = 0 \<and> status (hw st) (polled_at es lba j) AND ATA_SR_DRQ = 0"
    "k < j" "j \<le> m"
  shows "poll_drq 0x1F0 (with_log (polled_at es lba j) st) = Some (Inr (with_log (polled_at es lba (Suc m)) st))"
  using assms(4,5)
proof (induction "m - j" arbitrary: j)
  case 0
  then show ?case using assms(1,2) by (subst poll_drq_step) (simp add: polled_at_Suc)
next
  case (Suc n)
  then have "poll_drq 0x1F0 (with_log (polled_at es lba (Suc j)) st) = Some (Inr (with_log (polled_at es lba (Suc m)) st))"
    by (intro Suc.hyps(1)) auto
  moreover have "j \<in> {k<..<m}" using Suc.hyps(2) Suc.prems by auto
  ultimately show ?case using assms(3) by (subst poll_drq_step) (simp add: polled_at_Suc)
qed

section \<open>Reading\<close>

lemma ld16_bytes: "(of_nat (ld16 D b) :: u8) = D b" "(of_nat (ld16 D b div 256) :: u8) = D (b + 1)"
  using unsigned_less [of "D b", where 'a = nat] unsigned_less [of "D (b + 1)", where 'a = nat]
  by (simp_all only: word_unat_eq_iff unat_of_nat) (simp_all add: ld16_def ld8_def)

lemma st16_word:
  assumes "w mod 65536 = ld16 D b"
  shows "st16 m a (unat (of_nat w :: u16)) = m(a := D b, Suc a := D (Suc b))"
proof -
  have "unat (of_nat w :: u16) = ld16 D b" using assms by (simp add: unat_of_nat)
  then show ?thesis using ld16_bytes [of D b] by (simp add: st16_def st8_def)
qed

definition overlay :: "nat \<Rightarrow> nat \<Rightarrow> mem \<Rightarrow> nat \<Rightarrow> mem \<Rightarrow> mem" where
  "overlay buf n D pos m = (\<lambda>x. if buf \<le> x \<and> x < buf + n then D (pos + (x - buf)) else m x)"

lemma overlay_0 [simp]: "overlay buf 0 D pos m = m"
  by (rule ext) (auto simp: overlay_def)

lemma overlay_word: "overlay (buf + 2) n D (pos + 2) (m(buf := D pos, Suc buf := D (Suc pos))) = overlay buf (2 + n) D pos m"
proof
  fix x
  consider "x = buf" | "x = Suc buf" | "buf + 2 \<le> x" | "x < buf" by linarith
  then show "overlay (buf + 2) n D (pos + 2) (m(buf := D pos, Suc buf := D (Suc pos))) x = overlay buf (2 + n) D pos m x"
  proof cases
    case 3
    then have "pos + 2 + (x - (buf + 2)) = pos + (x - buf)" by linarith
    with 3 show ?thesis by (auto simp: overlay_def)
  qed (auto simp: overlay_def)
qed

lemma overlay_append: "overlay (buf + n) k D (pos + n) (overlay buf n D pos m) = overlay buf (n + k) D pos m"
proof
  fix x
  consider "x < buf + n" | "buf + n \<le> x" by linarith
  then show "overlay (buf + n) k D (pos + n) (overlay buf n D pos m) x = overlay buf (n + k) D pos m x"
  proof cases
    case 2
    then have "pos + n + (x - (buf + n)) = pos + (x - buf)" by linarith
    with 2 show ?thesis by (auto simp: overlay_def)
  qed (auto simp: overlay_def)
qed

lemma read_words_data:
  assumes "\<forall>j<n. hw st (port_log st @ replicate j (In 0x1F0)) 0x1F0 mod 65536 = ld16 D (pos + 2 * j)"
  shows "read_words 0x1F0 buf i n st =
    st\<lparr>port_log := port_log st @ replicate n (In 0x1F0), ram := overlay (buf + 2 * i) (2 * n) D pos (ram st)\<rparr>"
  using assms
proof (induction n arbitrary: i st pos)
  case (Suc n)
  let ?s = "st\<lparr>port_log := port_log st @ [In 0x1F0], ram := (ram st)(buf + 2 * i := D pos, Suc (buf + 2 * i) := D (Suc pos))\<rparr>"
  have "hw st (port_log st) 0x1F0 mod 65536 = ld16 D pos" using Suc.prems by (metis add.right_neutral append.right_neutral mult_0_right replicate_0 zero_less_Suc)
  then have "read_words 0x1F0 buf i (Suc n) st = read_words 0x1F0 buf (Suc i) n ?s"
    by (simp add: inportw_def st16_word mult.commute)
  also have "\<dots> = ?s\<lparr>port_log := port_log ?s @ replicate n (In 0x1F0), ram := overlay (buf + 2 * Suc i) (2 * n) D (pos + 2) (ram ?s)\<rparr>"
  proof (rule Suc.IH, intro allI impI)
    fix j assume "j < n"
    then show "hw ?s (port_log ?s @ replicate j (In 0x1F0)) 0x1F0 mod 65536 = ld16 D (pos + 2 + 2 * j)"
      using Suc.prems [rule_format, of "Suc j"] by (simp add: add.assoc)
  qed
  also have "\<dots> = st\<lparr>port_log := port_log st @ replicate (Suc n) (In 0x1F0), ram := overlay (buf + 2 * i) (2 * Suc n) D pos (ram st)\<rparr>"
    using overlay_word [of "buf + 2 * i" "2 * n" D pos "ram st"] by (simp add: add.commute)
  finally show ?case .
qed simp

text \<open>One sector.\<close>

lemma ata_read_one_data:
  assumes "serves (hw st) D" "lba < 268435456"
  shows "\<exists>log. ata_read_one dev buf lba st = Inr (st\<lparr>port_log := log, ram := overlay buf 512 D (512 * lba) (ram st)\<rparr>)"
proof -
  let ?es = "port_log st"
  obtain k m where km: "k < m" "\<forall>j<k. status (hw st) (polled_at ?es lba j) AND ATA_SR_BSY \<noteq> 0"
    "status (hw st) (polled_at ?es lba k) AND ATA_SR_BSY = 0"
    "\<forall>j\<in>{k<..<m}. status (hw st) (polled_at ?es lba j) AND ATA_SR_ERR = 0 \<and> status (hw st) (polled_at ?es lba j) AND ATA_SR_DRQ = 0"
    "status (hw st) (polled_at ?es lba m) AND ATA_SR_ERR = 0" "status (hw st) (polled_at ?es lba m) AND ATA_SR_DRQ \<noteq> 0"
    "\<forall>i<256. hw st (polled_at ?es lba (Suc m) @ replicate i (In 0x1F0)) 0x1F0 mod 65536 = ld16 D (512 * lba + 2 * i)"
    using assms unfolding serves_def by blast
  define s7 where "s7 = with_log (?es @ read_cmd lba) st"
  have delay: "ide_400ns_delay 0x1F0 s7 = with_log (polled_at ?es lba 0) st"
    by (simp add: ide_400ns_delay_def reads_of_log s7_def polled_at_def with_log_def)
  have poll: "ide_poll 0x1F0 s7 = Inr (with_log (polled_at ?es lba (Suc m)) st)"
    using poll_busy_done [OF km(3,2), of 0] poll_drq_done [OF km(5,6,4), of "Suc k"] km(1)
    by (simp add: ide_poll_def delay)
  have words: "read_words 0x1F0 buf 0 256 (with_log (polled_at ?es lba (Suc m)) st) =
      (with_log (polled_at ?es lba (Suc m)) st)\<lparr>port_log := polled_at ?es lba (Suc m) @ replicate 256 (In 0x1F0),
        ram := overlay buf 512 D (512 * lba) (ram st)\<rparr>"
    using read_words_data [of 256 "with_log (polled_at ?es lba (Suc m)) st" D "512 * lba" buf 0] km(7) by simp
  have "ata_read_one dev buf lba st = bindR (ide_poll 0x1F0 s7) (\<lambda>st8. Inr (ide_400ns_delay 0x1F0 (read_words 0x1F0 buf 0 256 st8)))"
    by (simp add: ata_read_one_def s7_def read_cmd_def with_log_def outportb_def Let_def)
  then have "ata_read_one dev buf lba st = Inr (ide_400ns_delay 0x1F0 (read_words 0x1F0 buf 0 256 (with_log (polled_at ?es lba (Suc m)) st)))"
    unfolding poll by simp
  then show ?thesis
    unfolding words
    by (intro exI [of _ "polled_at ?es lba (Suc m) @ replicate 256 (In 0x1F0) @ replicate 4 (In 0x1FC)"])
      (simp add: ide_400ns_delay_def reads_of_log with_log_def)
qed

lemma ata_read_loop_data:
  assumes "serves (hw st) D" "pos + i + n \<le> 268435456"
  shows "\<exists>log. ata_read_loop dev buf pos i n st = Inr (st\<lparr>port_log := log, ram := overlay buf (512 * n) D (512 * (pos + i)) (ram st)\<rparr>)"
  using assms
proof (induction n arbitrary: buf i st)
  case 0
  then show ?case by (intro exI [of _ "port_log st"]) simp
next
  case (Suc n)
  have a: "add32 pos i = pos + i" using Suc.prems(2) by (simp add: add32_small)
  obtain log1 where one: "ata_read_one dev buf (pos + i) st =
      Inr (st\<lparr>port_log := log1, ram := overlay buf 512 D (512 * (pos + i)) (ram st)\<rparr>)"
    using ata_read_one_data [OF Suc.prems(1), of "pos + i"] Suc.prems(2) by auto
  let ?s = "st\<lparr>port_log := log1, ram := overlay buf 512 D (512 * (pos + i)) (ram st)\<rparr>"
  have "serves (hw ?s) D" "pos + Suc i + n \<le> 268435456" using Suc.prems by simp_all
  then obtain log2 where rest: "ata_read_loop dev (buf + 512) pos (Suc i) n ?s =
      Inr (?s\<lparr>port_log := log2, ram := overlay (buf + 512) (512 * n) D (512 * (pos + Suc i)) (ram ?s)\<rparr>)"
    using Suc.IH [of ?s "Suc i" "buf + 512"] by blast
  have e: "512 * (pos + Suc i) = 512 * (pos + i) + 512" by simp
  show ?case
    using overlay_append [of buf 512 "512 * n" D "512 * (pos + i)" "ram st"]
    by (intro exI [of _ log2]) (simp only: ata_read_loop.simps a one bindR_simps rest e, simp)
qed

text \<open>
  C19. \<open>ata_read\<close> terminates and copies the sectors asked for, and nothing else, from the drive into the
  buffer, if the drive serves the 28-bit sector addresses as the ATA protocol says: after a command it is busy for some time,
  then asks for the data to be fetched.
\<close>

theorem ata_read_disk:
  assumes "serves (hw st) D" "pos + count \<le> 268435456"
  shows "\<exists>st'. ata_read dev buf count pos st = Inr (int count, st') \<and> hw st' = hw st \<and>
    bytes_at (ram st') buf (512 * count) = bytes_at D (512 * pos) (512 * count) \<and>
    same_on (- {buf..<buf + 512 * count}) (ram st) (ram st')"
proof -
  obtain log where r: "ata_read_loop dev buf pos 0 count st =
      Inr (st\<lparr>port_log := log, ram := overlay buf (512 * count) D (512 * (pos + 0)) (ram st)\<rparr>)"
    using ata_read_loop_data [OF assms(1), of pos 0 count] assms(2) by auto
  have "bytes_at (overlay buf (512 * count) D (512 * pos) (ram st)) buf (512 * count) = bytes_at D (512 * pos) (512 * count)"
    by (rule nth_equalityI) (auto simp: overlay_def)
  moreover have "same_on (- {buf..<buf + 512 * count}) (ram st) (overlay buf (512 * count) D (512 * pos) (ram st))"
    by (auto simp: same_on_def overlay_def)
  moreover have "sint32 count = int count" using assms(2) by (simp add: sint32_def)
  ultimately show ?thesis by (simp add: ata_read_def r)
qed

text \<open>
  A drive that reports an error after a command, once it is no longer busy, stops the machine: the
  error of one read is not given back to the caller.
\<close>

theorem ata_error_panics:
  assumes "\<forall>j<k. status (hw st) (polled_at (port_log st) lba j) AND ATA_SR_BSY \<noteq> 0"
    "status (hw st) (polled_at (port_log st) lba k) AND ATA_SR_BSY = 0"
    "status (hw st) (polled_at (port_log st) lba (Suc k)) AND ATA_SR_ERR \<noteq> 0"
  shows "ata_read_one dev buf lba st = Inl (Panic ''ata: ERROR bit set!'')"
proof -
  let ?es = "port_log st"
  define s7 where "s7 = with_log (?es @ read_cmd lba) st"
  have delay: "ide_400ns_delay 0x1F0 s7 = with_log (polled_at ?es lba 0) st"
    by (simp add: ide_400ns_delay_def reads_of_log s7_def polled_at_def with_log_def)
  have "ide_poll 0x1F0 s7 = Inl (Panic ''ata: ERROR bit set!'')"
    using poll_busy_done [OF assms(2,1), of 0] assms(3) by (simp add: ide_poll_def delay poll_drq_step)
  then show ?thesis by (simp add: ata_read_one_def s7_def read_cmd_def with_log_def outportb_def Let_def)
qed

section \<open>A drive\<close>

text \<open>The registers of a drive that is always ready, driven by the port history.\<close>

record drive_regs =
  r_lba0 :: u8
  r_lba1 :: u8
  r_lba2 :: u8
  r_sel :: u8
  r_word :: nat

fun drive_step :: "port_event \<Rightarrow> drive_regs \<Rightarrow> drive_regs" where
  "drive_step (In p) r = (if p = 0x1F0 then r\<lparr>r_word := Suc (r_word r)\<rparr> else r)"
| "drive_step (Out p v) r =
     (if p = 0x1F3 then r\<lparr>r_lba0 := v\<rparr> else if p = 0x1F4 then r\<lparr>r_lba1 := v\<rparr> else if p = 0x1F5 then r\<lparr>r_lba2 := v\<rparr>
      else if p = 0x1F6 then r\<lparr>r_sel := v\<rparr> else if p = 0x1F7 then r\<lparr>r_word := 0\<rparr> else r)"

definition drive :: "mem \<Rightarrow> port_event list \<Rightarrow> nat \<Rightarrow> nat" where
  "drive D es p =
     (let r = fold drive_step es \<lparr>r_lba0 = 0, r_lba1 = 0, r_lba2 = 0, r_sel = 0, r_word = 0\<rparr>;
          lba = unat (r_lba0 r) + 256 * unat (r_lba1 r) + 65536 * unat (r_lba2 r) + 16777216 * unat (r_sel r AND 0x0F)
      in if p = 0x1F7 then 0x48 else if p = 0x1F0 then ld16 D (512 * lba + 2 * r_word r) else 0)"

lemma fold_steps:
  "(drive_step (In 0x1FC) ^^ n) r = r" "(drive_step (In 0x1F7) ^^ n) r = r"
  "(drive_step (In 0x1F0) ^^ n) r = r\<lparr>r_word := r_word r + n\<rparr>"
  by (induction n arbitrary: r) simp_all

lemma lba_bytes:
  assumes "lba < 268435456"
  shows "unat (of_nat lba :: u8) + 256 * unat (of_nat (drop_bit 8 lba) :: u8) + 65536 * unat (of_nat (drop_bit 16 lba) :: u8) +
    16777216 * unat ((0xE0 OR of_nat (drop_bit 24 lba AND 0x0F)) AND 0x0F :: u8) = lba"
proof -
  have "(drop_bit 24 lba AND 0x0F) = lba div 16777216 mod 16"
    using take_bit_eq_mask [of 4 "drop_bit 24 lba"] by (simp add: drop_bit_eq_div take_bit_eq_mod mask_eq_exp_minus_1)
  moreover have "lba div 16777216 mod 16 = lba div 16777216" using assms by (simp add: div_less_iff_less_mult)
  moreover have "unat ((0xE0 OR of_nat h) AND 0x0F :: u8) = h" if "h < 16" for h
  proof -
    have "list_all (\<lambda>h. unat ((0xE0 OR of_nat h) AND 0x0F :: u8) = h) [0..<16]" by code_simp
    then show ?thesis using that by (simp only: list_all_iff set_upt) simp
  qed
  moreover have "lba div 16777216 < 16" using assms by (simp add: div_less_iff_less_mult)
  ultimately have h: "unat ((0xE0 OR of_nat (drop_bit 24 lba AND 0x0F)) AND 0x0F :: u8) = lba div 16777216" by simp
  have "lba mod W32 = lba" using assms by simp
  then show ?thesis
    unfolding h using bytes4 [of lba] \<open>lba div 16777216 < 16\<close> by (simp add: drop_bit_eq_div unat_of_nat)
qed

lemma drive_serves: "serves (drive D) D"
  unfolding serves_def
proof (intro allI impI)
  fix es lba assume lba: "(lba::nat) < 268435456"
  have st: "status (drive D) xs = 0x48" for xs by (simp add: status_def drive_def)
  have "512 * unat (of_nat lba :: u8) + 131072 * unat (of_nat (drop_bit 8 lba) :: u8) + 33554432 * unat (of_nat (drop_bit 16 lba) :: u8) +
      8589934592 * unat ((0xE0 OR of_nat (drop_bit 24 lba AND 0x0F)) AND 0x0F :: u8) = 512 * lba"
    using lba_bytes [OF lba] by linarith
  then have "drive D (polled_at es lba (Suc 1) @ replicate i (In 0x1F0)) 0x1F0 mod 65536 = ld16 D (512 * lba + 2 * i)" for i
    by (simp add: drive_def polled_at_def read_cmd_def fold_steps Let_def del: replicate.simps)
  then show "\<exists>k m. k < m \<and> (\<forall>j<k. status (drive D) (polled_at es lba j) AND ATA_SR_BSY \<noteq> 0) \<and>
      status (drive D) (polled_at es lba k) AND ATA_SR_BSY = 0 \<and>
      (\<forall>j\<in>{k<..<m}. status (drive D) (polled_at es lba j) AND ATA_SR_ERR = 0 \<and> status (drive D) (polled_at es lba j) AND ATA_SR_DRQ = 0) \<and>
      status (drive D) (polled_at es lba m) AND ATA_SR_ERR = 0 \<and> status (drive D) (polled_at es lba m) AND ATA_SR_DRQ \<noteq> 0 \<and>
      (\<forall>i<256. drive D (polled_at es lba (Suc m) @ replicate i (In 0x1F0)) 0x1F0 mod 65536 = ld16 D (512 * lba + 2 * i))"
    by (intro exI [of _ 0] exI [of _ 1]) (auto simp: st)
qed

theorem ata_read_disk_witness:
  "\<exists>st'. ata_read 1 0x8000 2 5 (no_devices\<lparr>hw := drive (\<lambda>x. of_nat x)\<rparr>) = Inr (2, st') \<and>
     bytes_at (ram st') 0x8000 1024 = bytes_at (\<lambda>x. of_nat x) 2560 1024"
  using ata_read_disk [of "no_devices\<lparr>hw := drive (\<lambda>x. of_nat x)\<rparr>" "\<lambda>x. of_nat x" 5 2 1 "0x8000"] drive_serves by auto

theorem ata_error_panics_witness:
  "ata_read_one 1 0x8000 5 (no_devices\<lparr>hw := (\<lambda>_ _. 1)\<rparr>) = Inl (Panic ''ata: ERROR bit set!'')"
  by (rule ata_error_panics [where k = 0]) (simp_all add: status_def)

end
