(* ===== verification/Ext2Dir.thy ===== *)
theory Ext2Dir
  imports Ext2
begin

text \<open>
  What fs/ext2/inode.c and dir.c compute, as functions of the disk: where an inode lies, the entries of a
  directory, and the entry that a name finds.
\<close>

section \<open>Geometry\<close>

record geo =
  g_bs :: nat
  g_ipg :: nat
  g_bgd :: nat

definition geo_ok :: "geo \<Rightarrow> bool" where
  "geo_ok G \<longleftrightarrow> 512 dvd g_bs G \<and> 0 < g_bs G \<and> g_bs G \<le> 65536 \<and> 0 < g_ipg G \<and> g_ipg G \<le> 8 * g_bs G"

text \<open>A block that can be addressed by a sector number of 28 bits.\<close>

definition blk_ok :: "geo \<Rightarrow> nat \<Rightarrow> bool" where
  "blk_ok G b \<longleftrightarrow> (b + 1) * (g_bs G div 512) \<le> 268435456"

definition mounted :: "'a vfs_state_scheme contract \<Rightarrow> regions \<Rightarrow> nat \<Rightarrow> geo \<Rightarrow> mem \<Rightarrow> 'a vfs_state_scheme \<Rightarrow> bool" where
  "mounted C L fs G D st \<longleftrightarrow> geo_ok G \<and> (fs, sizeof_filesystem) \<in> L \<and> (EXT2_PRIV fs st, sizeof_priv_data) \<in> L \<and>
     disk C (field fs fs_dev st) = Some D \<and> priv_field fs p_blocksize st = g_bs G \<and> priv_field fs p_sectors_per_block st = g_bs G div 512 \<and>
     priv_field fs p_inodes_per_block st = g_bs G div sizeof_inode \<and> priv_field fs p_first_bgd st = g_bgd G \<and>
     priv_field fs sb_inodes_in_blockgroup st = g_ipg G"

lemma field_keeps: "keeps L (ram s) (ram s') \<Longrightarrow> (p, n) \<in> L \<Longrightarrow> off + 4 \<le> n \<Longrightarrow> field p off s' = field p off s"
  unfolding field_def keeps_def region_def by (auto intro!: ld32_sub_frame)

lemma mounted_keeps:
  assumes "mounted C L fs G D s" "keeps L (ram s) (ram s')" "L \<subseteq> L'"
  shows "mounted C L' fs G D s'"
proof -
  have p: "EXT2_PRIV fs s' = EXT2_PRIV fs s" and d: "field fs fs_dev s' = field fs fs_dev s"
    using assms by (auto simp: mounted_def EXT2_PRIV_def intro: field_keeps)
  have "priv_field fs off s' = priv_field fs off s" if "off + 4 \<le> sizeof_priv_data" for off
    unfolding priv_field_def p using assms that by (auto simp: mounted_def intro: field_keeps)
  then show ?thesis using assms p d by (auto simp: mounted_def)
qed

lemma mounted_ram: "mounted C L fs G D s \<Longrightarrow> L \<subseteq> L' \<Longrightarrow> ram s' = ram s \<Longrightarrow> mounted C L' fs G D s'"
  by (erule mounted_keeps) simp_all

section \<open>Blocks\<close>

definition sep :: "regions \<Rightarrow> nat \<Rightarrow> nat \<Rightarrow> bool" where
  "sep L b k \<longleftrightarrow> (\<forall>(q, j)\<in>L. apart b k q j)"

lemma fresh_sep: "fresh L p n \<Longrightarrow> sep L p n"
  by (auto simp: fresh_def sep_def)

lemma sep_keeps: "sep L b k \<Longrightarrow> filled buf n D pos m m' \<Longrightarrow> b \<le> buf \<Longrightarrow> buf + n \<le> b + k \<Longrightarrow> keeps L m m'"
  by (rule keeps_filled) (auto simp: sep_def intro: apart_sub)

lemma sep_notin: "sep L p n \<Longrightarrow> 0 < n \<Longrightarrow> (p, n) \<notin> L"
  by (auto simp: sep_def apart_def)

lemma runs_read_block:
  assumes "kern_ok K C" "inv C s (insert (b, k) L) r" "sep L b k" "mounted C L fs G D s" "blk_ok G block"
    "b \<le> buf" "buf + g_bs G \<le> b + k"
    and "\<And>rc s'. inv C s' (insert (b, k) L) r \<Longrightarrow> kept s s' \<Longrightarrow> filled buf (g_bs G) D (g_bs G * block) (ram s) (ram s') \<Longrightarrow>
      keeps L (ram s) (ram s') \<Longrightarrow> runs (stuck C) P (f (rc, s'))"
  shows "runs (stuck C) P (bindR (ext2_read_block K fs buf block s) f)"
proof -
  define spb where "spb = g_bs G div 512"
  have g: "geo_ok G" and dev: "disk C (field fs fs_dev s) = Some D" and p: "priv_field fs p_sectors_per_block s = spb"
    using assms(4) by (simp_all add: mounted_def spb_def)
  have bs: "g_bs G = 512 * spb" and spb: "0 < spb" using g by (auto simp: geo_ok_def spb_def)
  have le: "block * spb + spb \<le> 268435456" using assms(5) by (simp add: blk_ok_def spb_def)
  then have "mul32 block spb = block * spb" by (intro mul32_small) linarith
  then have code: "bindR (ext2_read_block K fs buf block s) f =
      bindR (k_read K (field fs fs_dev s) buf spb (block * spb) s) (\<lambda>(_, s'). f (0, s'))"
    using spb by (simp add: ext2_read_block_def p bindR_assoc Let_def case_prod_unfold)
  have pos: "512 * (block * spb) = g_bs G * block" using bs by simp
  show ?thesis
    unfolding code
  proof (rule runs_read [OF assms(1,2) dev insertI1 assms(6)])
    show "buf + 512 * spb \<le> b + k" using assms(7) bs by simp
    show "block * spb + spb \<le> 268435456" by (rule le)
    fix rc s' assume "inv C s' (insert (b, k) L) r" "kept s s'" "filled buf (512 * spb) D (512 * (block * spb)) (ram s) (ram s')"
    moreover from this(3) have "keeps L (ram s) (ram s')" using assms(3,6,7) bs by (intro sep_keeps) simp_all
    ultimately show "runs (stuck C) P (case (rc, s') of (_, s') \<Rightarrow> f (0, s'))"
      using assms(8) by (simp only: case_prod_conv pos flip: bs)
  qed
qed

section \<open>Inodes\<close>

definition inode_block :: "geo \<Rightarrow> mem \<Rightarrow> nat \<Rightarrow> nat" where
  "inode_block G D n = ld32 D (g_bs G * g_bgd G + 32 * ((n - 1) div g_ipg G) + bgd_block_of_inode_table) +
     (n - 1) mod g_ipg G * sizeof_inode div g_bs G"

text \<open>The inode \<open>n\<close> starts at this byte of the disk: its table is an array of 128-byte records.\<close>

definition inode_addr :: "geo \<Rightarrow> mem \<Rightarrow> nat \<Rightarrow> nat" where
  "inode_addr G D n = g_bs G * ld32 D (g_bs G * g_bgd G + 32 * ((n - 1) div g_ipg G) + bgd_block_of_inode_table) +
     sizeof_inode * ((n - 1) mod g_ipg G)"

definition inode_ok :: "geo \<Rightarrow> mem \<Rightarrow> nat \<Rightarrow> bool" where
  "inode_ok G D n \<longleftrightarrow> 1 \<le> n \<and> n < 2147483648 \<and> blk_ok G (g_bgd G) \<and> 32 * ((n - 1) div g_ipg G) + 32 \<le> g_bs G \<and> blk_ok G (inode_block G D n)"

lemma inode_addr_block:
  assumes "geo_ok G"
  shows "inode_addr G D n = g_bs G * inode_block G D n + sizeof_inode * ((n - 1) mod g_ipg G mod (g_bs G div sizeof_inode))"
proof -
  define q where "q = g_bs G div 128"
  define x where "x = (n - 1) mod g_ipg G"
  have bs: "g_bs G = 128 * q" "0 < q" using assms by (auto simp: geo_ok_def q_def)
  have d: "x * 128 div g_bs G = x div q" using bs by (simp add: mult.commute)
  have "128 * x = 128 * (q * (x div q)) + 128 * (x mod q)" by (metis distrib_left mult_div_mod_eq)
  also have "\<dots> = g_bs G * (x * 128 div g_bs G) + 128 * (x mod q)" by (simp only: d bs(1)) (simp add: algebra_simps)
  finally show ?thesis unfolding inode_addr_def inode_block_def x_def [symmetric] q_def [symmetric] by (simp add: algebra_simps)
qed

lemma advance_small: "p + sz * n < W32 \<Longrightarrow> advance sz n p = p + sz * n"
proof (induction n arbitrary: p)
  case (Suc n)
  then have "add32 p sz = p + sz" by (intro add32_small) (simp add: algebra_simps)
  with Suc.IH [of "p + sz"] Suc.prems show ?case by (simp add: algebra_simps)
qed simp

lemma nat_mod_int: "x < W32 \<Longrightarrow> nat (int x mod int W32) = x"
  by simp

text \<open>A copy out of one region in use into another.\<close>

lemma copy_out:
  assumes "kern_ok K C" "inv C s (insert (b, n) (insert (d, k) L)) r" "sep (insert (d, k) L) b n" "sep L d k" "off + k \<le> n"
  defines "m \<equiv> memcpy d (b + off) k (ram s)"
  shows "inv C (s\<lparr>ram := m\<rparr>) (insert (b, n) (insert (d, k) L)) r" "keeps L (ram s) m" "j < k \<Longrightarrow> m (d + j) = ram s (b + (off + j))"
proof -
  have dis: "d \<le> b + off \<or> b + off + k \<le> d" using assms(3,5) by (auto simp: sep_def apart_def)
  have out: "m y = ram s y" if "y < d \<or> d + k \<le> y" for y
    using that by (auto simp: m_def memcpy_apply [OF dis])
  show "inv C (s\<lparr>ram := m\<rparr>) (insert (b, n) (insert (d, k) L)) r"
    by (rule inv_cell [OF assms(1,2), of d k]) (use out in auto)
  show "keeps L (ram s) m"
    unfolding keeps_def region_def same_on_def using assms(4) out by (fastforce simp: sep_def apart_def)
  show "m (d + j) = ram s (b + (off + j))" if "j < k"
    using that by (simp add: m_def memcpy_apply [OF dis] add.assoc)
qed

lemma inode_block_bound:
  assumes "geo_ok G" "inode_ok G D n"
  shows "inode_block G D n < W32"
proof -
  have "1 \<le> g_bs G div 512" using assms(1) by (auto simp: geo_ok_def elim: dvdE)
  then have "(inode_block G D n + 1) * 1 \<le> (inode_block G D n + 1) * (g_bs G div 512)" by (rule mult_le_mono2)
  also have "\<dots> \<le> 268435456" using assms(2) by (simp add: inode_ok_def blk_ok_def)
  finally show ?thesis by simp
qed

lemma inode_offset:
  assumes "geo_ok G"
  shows "128 * (x mod (g_bs G div 128)) + 128 \<le> g_bs G"
proof -
  define q where "q = g_bs G div 128"
  have q: "g_bs G = 128 * q" "0 < q" using assms by (auto simp: geo_ok_def q_def)
  have "128 * (x mod q + 1) \<le> 128 * q" using q(2) by (intro mult_le_mono2) (simp add: Suc_leI)
  then show ?thesis unfolding q_def [symmetric] q(1) by simp
qed

lemma priv_keeps:
  assumes "mounted C L fs G D s" "off + 4 \<le> 1044" "keeps L (ram s) (ram s')"
  shows "field (EXT2_PRIV fs s) off s' = priv_field fs off s"
  unfolding priv_field_def using assms by (auto simp: mounted_def intro: field_keeps)

text \<open>\<open>ext2_read_inode\<close> copies the inode from the disk into the buffer and leaves the rest of the memory in use alone.\<close>

lemma runs_read_inode:
  assumes K: "kern_ok K C" and i: "inv C s (insert (ib, 128) L) (g_bs G + r)" and sp: "sep L ib 128" and m: "mounted C L fs G D s"
    and n: "inode_ok G D n"
    and P: "\<And>s'. inv C s' (insert (ib, 128) L) r \<Longrightarrow> kept s s' \<Longrightarrow> keeps L (ram s) (ram s') \<Longrightarrow>
      (\<forall>k<128. ram s' (ib + k) = D (inode_addr G D n + k)) \<Longrightarrow> runs (stuck C) P (f (0, s'))"
  shows "runs (stuck C) P (bindR (ext2_read_inode K fs ib (int n) s) f)"
proof -
  define bs where "bs = g_bs G"
  define bg where "bg = (n - 1) div g_ipg G"
  define x where "x = (n - 1) mod g_ipg G"
  define q where "q = bs div 128"
  let ?L = "insert (ib, 128) L"
  have g: "geo_ok G" using m by (simp add: mounted_def)
  have bs: "0 < bs" "bs \<le> 65536" and ipg: "0 < g_ipg G" "g_ipg G \<le> 524288" and q: "0 < q"
    using g by (auto simp: geo_ok_def bs_def q_def elim!: dvdE)
  have x: "x < 524288" using ipg mod_less_divisor [OF ipg(1), of "n - 1"] by (simp add: x_def del: mod_less_divisor)
  have n1: "nat ((int n - 1) mod int W32) = n - 1"
    using n by (simp add: inode_ok_def of_nat_diff flip: nat_mod_int)
  have pv: "priv_field fs p_blocksize s = bs" "priv_field fs p_first_bgd s = g_bgd G" "priv_field fs sb_inodes_in_blockgroup s = g_ipg G"
    "priv_field fs p_inodes_per_block s = q"
    using m by (simp_all add: mounted_def bs_def q_def)
  have pf: "field (EXT2_PRIV fs s) p_blocksize s' = bs" "field (EXT2_PRIV fs s) p_first_bgd s' = g_bgd G"
    "field (EXT2_PRIV fs s) sb_inodes_in_blockgroup s' = g_ipg G" "field (EXT2_PRIV fs s) p_inodes_per_block s' = q"
    if "keeps ?L (ram s) (ram s')" for s'
    using that by (simp_all add: priv_keeps [OF m] pv)
  have mul: "mul32 x 128 = x * 128" using x by (intro mul32_small) simp
  have ops: "umod (n - 1) (g_ipg G) = Inr x" "udiv (x * 128) bs = Inr (x * 128 div bs)" "umod x q = Inr (x mod q)"
    "udiv (n - 1) (g_ipg G) = Inr bg" using ipg bs q by (simp_all add: x_def bg_def)
  have off: "128 * (x mod q) + 128 \<le> bs" using inode_offset [OF g] by (simp add: q_def bs_def)
  show ?thesis
    unfolding ext2_read_inode_def Let_def n1 pf [OF keeps_refl] bindR_assoc ops bindR_simps
  proof (rule runs_malloc [OF K, where n = bs and r = r and L = ?L], goal_cases inv found)
    case inv
    then show ?case using i by (simp add: bs_def)
  next
    case (found b s1)
    note ks1 = found(4) and fr = found(1)
    have bW: "b + bs < W32" using fr by (simp add: fresh_def)
    have sepb: "sep ?L b bs" by (rule fresh_sep [OF fr])
    have M1: "mounted C ?L fs G D s1" by (rule mounted_keeps [OF m]) (use ks1 in auto)
    show ?case
      unfolding case_prod_conv bindR_assoc pf [OF ks1]
    proof (rule runs_read_block [OF K found(2) sepb M1], goal_cases blk low high bgds)
      case (bgds rc2 s2)
      have K2: "keeps ?L (ram s) (ram s2)" using ks1 bgds(4) by (rule keeps_trans)
      have M2: "mounted C ?L fs G D s2" by (rule mounted_keeps [OF M1 bgds(4)]) simp
      have le: "32 * bg + 32 \<le> bs" using n by (simp add: inode_ok_def bg_def bs_def)
      then have adv: "advance 32 bg b = b + 32 * bg" using bW by (intro advance_small) linarith
      have rd: "field (b + 32 * bg) 8 s2 = ld32 D (bs * g_bgd G + (32 * bg + 8))"
        using filled_ld32 [OF bgds(3), of "32 * bg + 8"] le by (simp add: field_def bs_def add.assoc)
      have tbl: "inode_block G D n = ld32 D (bs * g_bgd G + (32 * bg + 8)) + x * 128 div bs"
        by (simp add: inode_block_def bs_def bg_def x_def add.assoc)
      have blk: "add32 (field (advance 32 bg b) 8 s2) (x * 128 div bs) = inode_block G D n"
        unfolding adv rd tbl using inode_block_bound [OF g n] by (intro add32_small) (simp add: tbl)
      show ?case
        unfolding case_prod_conv pf [OF K2] ops mul bindR_simps blk bindR_assoc
      proof (rule runs_read_block [OF K bgds(1) sepb M2], goal_cases blk low high inodes)
        case (inodes rc3 s3)
        have K3: "keeps ?L (ram s) (ram s3)" using K2 inodes(4) by (rule keeps_trans)
        have adv3: "advance 128 (x mod q) b = b + 128 * (x mod q)" using off bW by (intro advance_small) linarith
        define m4 where "m4 = memcpy ib (b + 128 * (x mod q)) 128 (ram s3)"
        note copy = copy_out [OF K inodes(1) sepb sp off, folded m4_def]
        have data: "m4 (ib + k) = D (inode_addr G D n + k)" if k: "k < 128" for k
        proof -
          have "m4 (ib + k) = D (g_bs G * inode_block G D n + (128 * (x mod q) + k))"
            unfolding copy(3) [OF k] using k off by (intro filled_at [OF inodes(3)]) (simp add: bs_def)
          then show ?thesis unfolding inode_addr_block [OF g] x_def q_def bs_def by (simp add: add.assoc)
        qed
        show ?case
          unfolding case_prod_conv pf [OF K3] ops bindR_simps adv3 m4_def [symmetric] bindR_assoc
        proof (rule runs_free [OF K copy(1)], goal_cases notin freed)
          case notin
          then show ?case using sepb bs(1) by (intro sep_notin)
        next
          case (freed s5)
          have "kept s s5"
            by (rule kept_trans [OF kept_trans [OF kept_trans [OF kept_trans [OF found(3) bgds(2)] inodes(2)] kept_ram] freed(2)])
          moreover have "keeps L (ram s) (ram s5)"
            using K3 copy(2) freed(3) by (auto intro: keeps_trans)
          moreover have "\<forall>k<128. ram s5 (ib + k) = D (inode_addr G D n + k)"
            using freed(3) data by (auto simp: same_on_def region_def)
          ultimately show ?case using P [OF freed(1)] by simp
        qed
      qed (use n in \<open>auto simp: inode_ok_def bs_def\<close>)
    qed (use n in \<open>auto simp: inode_ok_def bs_def\<close>)
  qed
qed

end
