(* ===== verification/Ext2Lookup.thy ===== *)
theory Ext2Lookup
  imports Ext2Dir
begin

text \<open>
  Directories and paths: the entries of a directory as a list, the entry that a name finds, and the walk along a
  path, with the code's routines proved to compute them.
\<close>

section \<open>Entries\<close>

function dir_entries :: "mem \<Rightarrow> nat \<Rightarrow> nat \<Rightarrow> nat \<Rightarrow> (nat \<times> u8 list) list" where
  "dir_entries m bs d r =
     (if r < bs
      then (ld32 m (d + d_inode), bytes_at m (d + 8) (ld8 m (d + d_namelength))) #
        (if ld16 m (d + d_size) = 0 \<or> ld8 m (d + d_namelength) = 0 then []
         else dir_entries m bs (d + ld16 m (d + d_size)) (r + ld16 m (d + d_size)))
      else [])"
  by pat_completeness auto
termination
  by (relation "measure (\<lambda>(m, bs, d, r). bs - r)") auto

declare dir_entries.simps [simp del]

text \<open>No entry runs over the end of the block, and names hold no zero bytes.\<close>

function dir_inside :: "mem \<Rightarrow> nat \<Rightarrow> nat \<Rightarrow> nat \<Rightarrow> bool" where
  "dir_inside m bs d r =
     (r < bs \<longrightarrow> r + 8 + ld8 m (d + d_namelength) \<le> bs \<and> 0 \<notin> set (bytes_at m (d + 8) (ld8 m (d + d_namelength))) \<and>
        (if ld16 m (d + d_size) = 0 \<or> ld8 m (d + d_namelength) = 0 then True
         else dir_inside m bs (d + ld16 m (d + d_size)) (r + ld16 m (d + d_size))))"
  by pat_completeness auto
termination
  by (relation "measure (\<lambda>(m, bs, d, r). bs - r)") auto

declare dir_inside.simps [simp del]

text \<open>An entry answers to a name if its own name is a prefix of it.\<close>

definition answers :: "u8 list \<Rightarrow> u8 list \<Rightarrow> bool" where
  "answers nm e \<longleftrightarrow> take (length e) nm = e"

definition pick :: "u8 list \<Rightarrow> (nat \<times> u8 list) list \<Rightarrow> int option" where
  "pick nm es = map_option (\<lambda>(i, _). sint32 i) (find (\<lambda>(_, e). answers nm e) es)"

lemma strncmp_0: "strncmp m a b n = 0 \<longleftrightarrow> bytes_at m a n = bytes_at m b n"
proof (induction n arbitrary: a b)
  case 0
  then show ?case by (simp add: bytes_at_def)
next
  case (Suc n)
  have "bytes_at m c (Suc n) = m c # bytes_at m (Suc c) n" for c
    by (simp add: bytes_at_def upt_conv_Cons del: upt_Suc)
  then show ?case using Suc sub32_bytes [of "m a" "m b"] by (auto simp: ld8_def)
qed

lemma strncmp_answers:
  assumes "cstr m f nm" "0 \<notin> set (bytes_at m a n)"
  shows "strncmp m a f n = 0 \<longleftrightarrow> answers nm (bytes_at m a n)"
proof (cases "n \<le> length nm")
  case True
  have "bytes_at m f n = take n nm"
    using cstr_nth [OF assms(1)] True by (intro nth_equalityI) simp_all
  then show ?thesis by (auto simp: strncmp_0 answers_def)
next
  case False
  have "bytes_at m f n ! length nm = 0" using False cstr_end [OF assms(1)] by simp
  then have "bytes_at m a n \<noteq> bytes_at m f n" using assms(2) False by (metis length_bytes_at not_le nth_mem)
  moreover have "take n nm \<noteq> bytes_at m a n" using False by (metis length_bytes_at length_take min_def not_le order.strict_implies_order less_irrefl)
  ultimately show ?thesis by (simp add: strncmp_0 answers_def)
qed

lemma dir_scan_entries:
  assumes "cstr m f nm" "dir_inside m bs d r"
  shows "dir_scan m bs f d r = pick nm (dir_entries m bs d r)"
  using assms
proof (induction m bs f d r rule: dir_scan.induct)
  case (1 m bs f d r)
  let ?sz = "ld16 m (d + 4)" and ?nl = "ld8 m (d + 6)"
  show ?case
  proof (cases "r < bs")
    case True
    have in1: "0 \<notin> set (bytes_at m (d + 8) ?nl)"
      and in2: "?sz = 0 \<or> ?nl = 0 \<or> dir_inside m bs (d + ?sz) (r + ?sz)"
      using "1.prems"(2) True by (auto simp: dir_inside.simps [of m bs d r] split: if_splits)
    note cmp = strncmp_answers [OF "1.prems"(1) in1]
    have rec: "dir_scan m bs f (d + ?sz) (r + ?sz) = pick nm (dir_entries m bs (d + ?sz) (r + ?sz))"
      if "strncmp m (d + 7 + 1) f ?nl \<noteq> 0" "\<not> (?sz = 0 \<or> ?nl = 0)"
      using "1.IH" [OF True that] "1.prems"(1) in2 that(2) by blast
    have a: "d + 7 + 1 = d + 8" by simp
    show ?thesis
      using True rec unfolding dir_scan.simps [of m bs f d r] dir_entries.simps [of m bs d r] a cmp
      by (auto simp: pick_def)
  next
    case False
    then show ?thesis by (simp add: dir_scan.simps [of m bs f d r] dir_entries.simps [of m bs d r] pick_def)
  qed
qed

text \<open>In a buffer that was filled from the disk stand the entries of the disk.\<close>

lemma filled_loads:
  assumes "filled buf n D pos m m'" "i + 8 \<le> n"
  shows "ld32 m' (buf + i) = ld32 D (pos + i)" "ld16 m' (buf + i + 4) = ld16 D (pos + i + 4)" "ld8 m' (buf + i + 6) = ld8 D (pos + i + 6)"
  using filled_ld32 [OF assms(1), of i] filled_at [OF assms(1), of "i + 4"] filled_at [OF assms(1), of "i + 5"]
    filled_at [OF assms(1), of "i + 6"] assms(2) by (simp_all add: ld16_def ld8_def ac_simps)

lemma filled_bytes:
  assumes "filled buf n D pos m m'" "i + k \<le> n"
  shows "bytes_at m' (buf + i) k = bytes_at D (pos + i) k"
proof (rule nth_equalityI)
  fix j assume "j < length (bytes_at m' (buf + i) k)"
  then show "bytes_at m' (buf + i) k ! j = bytes_at D (pos + i) k ! j"
    using filled_at [OF assms(1), of "i + j"] assms(2) by (simp add: add.assoc)
qed simp

lemma dir_entries_filled:
  assumes "filled buf bs D pos m m'" "dir_inside D bs (pos + r) r"
  shows "dir_entries m' bs (buf + r) r = dir_entries D bs (pos + r) r \<and> dir_inside m' bs (buf + r) r"
  using assms(2)
proof (induction "bs - r" arbitrary: r rule: less_induct)
  case less
  show ?case
  proof (cases "r < bs")
    case True
    let ?sz = "ld16 D (pos + r + 4)" and ?nl = "ld8 D (pos + r + 6)"
    have ins: "r + 8 + ?nl \<le> bs" "0 \<notin> set (bytes_at D (pos + r + 8) ?nl)"
      "?sz = 0 \<or> ?nl = 0 \<or> dir_inside D bs (pos + r + ?sz) (r + ?sz)"
      using less.prems True by (auto simp: dir_inside.simps [of D bs "pos + r"] split: if_splits)
    have "r + 8 \<le> bs" using ins(1) by simp
    note ld = filled_loads [OF assms(1) this]
    have nm: "bytes_at m' (buf + r + 8) ?nl = bytes_at D (pos + r + 8) ?nl"
      using filled_bytes [OF assms(1), of "r + 8" ?nl] ins(1) by (simp add: add.assoc)
    have rec: "dir_entries m' bs (buf + r + ?sz) (r + ?sz) = dir_entries D bs (pos + r + ?sz) (r + ?sz) \<and>
        dir_inside m' bs (buf + r + ?sz) (r + ?sz)" if "?sz \<noteq> 0" "?nl \<noteq> 0"
    proof -
      have "dir_inside D bs (pos + (r + ?sz)) (r + ?sz)" using ins(3) that by (simp add: add.assoc)
      then show ?thesis using less.hyps [of "r + ?sz"] that True by (simp add: add.assoc)
    qed
    show ?thesis
      using True rec ins ld nm
      by (simp add: dir_entries.simps [of m' bs "buf + r"] dir_entries.simps [of D bs "pos + r"] dir_inside.simps [of m' bs "buf + r"])
  next
    case False
    then show ?thesis
      by (simp add: dir_entries.simps [of m' bs "buf + r"] dir_entries.simps [of D bs "pos + r"] dir_inside.simps [of m' bs "buf + r"])
  qed
qed

section \<open>Directories\<close>

definition dir_block_ok :: "geo \<Rightarrow> mem \<Rightarrow> nat \<Rightarrow> bool" where
  "dir_block_ok G D b \<longleftrightarrow> blk_ok G b \<and> dir_inside D (g_bs G) (g_bs G * b) 0"

definition dir_block_empty :: "geo \<Rightarrow> mem \<Rightarrow> nat \<Rightarrow> bool" where
  "dir_block_empty G D b \<longleftrightarrow> ld16 D (g_bs G * b + d_size) = 0 \<or> ld8 D (g_bs G * b + d_namelength) = 0"

definition dir_data :: "geo \<Rightarrow> mem \<Rightarrow> nat \<Rightarrow> nat list" where
  "dir_data G D n = map (\<lambda>i. ld32 D (inode_addr G D n + i_dbp + 4 * i)) [0..<12]"

primrec find_in :: "geo \<Rightarrow> mem \<Rightarrow> u8 list \<Rightarrow> nat list \<Rightarrow> int" where
  "find_in G D nm [] = - ENOENT"
| "find_in G D nm (b # bs) =
     (if dir_block_empty G D b then - ENOENT
      else case pick nm (dir_entries D (g_bs G) (g_bs G * b) 0) of Some k \<Rightarrow> k | None \<Rightarrow> find_in G D nm bs)"

definition dir_find :: "geo \<Rightarrow> mem \<Rightarrow> nat \<Rightarrow> u8 list \<Rightarrow> int" where
  "dir_find G D n nm = find_in G D nm (dir_data G D n)"

definition dir_ok :: "geo \<Rightarrow> mem \<Rightarrow> nat \<Rightarrow> bool" where
  "dir_ok G D n \<longleftrightarrow> inode_ok G D n \<and> (\<forall>b\<in>set (dir_data G D n). dir_block_ok G D b)"

lemma copied_ld32:
  assumes "\<forall>j<n. m (a + j) = D (b + j)" "i + 4 \<le> n"
  shows "ld32 m (a + i) = ld32 D (b + i)"
proof -
  have "m (a + i + j) = D (b + i + j)" if "j < 4" for j
    using assms(1) [rule_format, of "i + j"] assms(2) that by (simp add: add.assoc)
  from this [of 0] this [of 1] this [of 2] this [of 3] show ?thesis by (simp add: ld32_def ld8_def)
qed

lemma geo_bs: "geo_ok G \<Longrightarrow> 512 \<le> g_bs G"
  by (auto simp: geo_ok_def dest: dvd_imp_le)

lemma keeps_cstr: "cstr m f s \<Longrightarrow> keeps L m m' \<Longrightarrow> (q, k) \<in> L \<Longrightarrow> q \<le> f \<Longrightarrow> f + length s < q + k \<Longrightarrow> cstr m' f s"
  by (erule cstr_frame) (auto simp: keeps_def region_def same_on_def)

lemma runs_dir_blocks:
  assumes K: "kern_ok K C" and i: "inv C s (insert (bb, g_bs G) L) r" and sb: "sep L bb (g_bs G)" and m: "mounted C L fs G D s"
    and f: "cstr (ram s) f nm" "(q, k) \<in> L" "q \<le> f" "f + length nm < q + k"
    and ino: "(ib, 128) \<in> L" "\<forall>j<128. ram s (ib + j) = D (inode_addr G D n + j)"
    and len: "a + c = 12" and ok: "\<forall>b\<in>set (drop a (dir_data G D n)). dir_block_ok G D b"
    and P: "\<And>s'. inv C s' L r \<Longrightarrow> kept s s' \<Longrightarrow> keeps L (ram s) (ram s') \<Longrightarrow> P (find_in G D nm (drop a (dir_data G D n)), s')"
  shows "runs (stuck C) P (dir_blocks K fs ib bb f a c s)"
proof -
  have g: "geo_ok G" using m by (simp add: mounted_def)
  have nb: "(bb, g_bs G) \<notin> L" using sb geo_bs [OF g] by (intro sep_notin) simp_all
  show ?thesis
    using i m f(1) ino(2) len ok P
  proof (induction c arbitrary: s a)
    case 0
    show ?case unfolding dir_blocks.simps
    proof (rule runs_free [OF K "0.prems"(1) nb], goal_cases freed)
      case (freed s')
      then show ?case using "0.prems"(5) "0.prems"(7) [of s'] by (simp add: dir_data_def)
    qed
  next
    case (Suc c)
    have a: "a < 12" using Suc.prems(5) by simp
    define b where "b = dir_data G D n ! a"
    have dr: "drop a (dir_data G D n) = b # drop (Suc a) (dir_data G D n)"
      using a Cons_nth_drop_Suc [of a "dir_data G D n"] by (simp add: b_def dir_data_def)
    have bok: "blk_ok G b" "dir_inside D (g_bs G) (g_bs G * b) 0" using Suc.prems(6) by (simp_all add: dr dir_block_ok_def)
    have "ld32 (ram s) (ib + (40 + 4 * a)) = ld32 D (inode_addr G D n + (40 + 4 * a))"
      using copied_ld32 [OF Suc.prems(4), of "40 + 4 * a"] a by simp
    then have fb: "field ib (40 + 4 * a) s = b" using a by (simp add: b_def dir_data_def field_def add.assoc)
    show ?case unfolding dir_blocks.simps fb
    proof (rule runs_read_block [OF K Suc.prems(1) sb Suc.prems(2) bok(1)], goal_cases low high read)
      case (read rc s1)
      note fl = read(3)
      have M1: "mounted C L fs G D s1" by (rule mounted_keeps [OF Suc.prems(2) read(4)]) simp
      have f1: "cstr (ram s1) f nm" by (rule keeps_cstr [OF Suc.prems(3) read(4) f(2,3,4)])
      have I1: "\<forall>j<128. ram s1 (ib + j) = D (inode_addr G D n + j)"
        using read(4) ino(1) Suc.prems(4) by (auto simp: keeps_def region_def same_on_def)
      have bs: "priv_field fs p_blocksize s1 = g_bs G" using M1 by (simp add: mounted_def)
      have e: "ld16 (ram s1) (bb + 4) = ld16 D (g_bs G * b + 4)" "ld8 (ram s1) (bb + 6) = ld8 D (g_bs G * b + 6)"
        using filled_loads(2,3) [OF fl, of 0] geo_bs [OF g] by simp_all
      have es: "dir_entries (ram s1) (g_bs G) bb 0 = dir_entries D (g_bs G) (g_bs G * b) 0" "dir_inside (ram s1) (g_bs G) bb 0"
        using dir_entries_filled [OF fl, of 0] bok(2) by simp_all
      have sc: "dir_scan (ram s1) (g_bs G) f bb 0 = pick nm (dir_entries D (g_bs G) (g_bs G * b) 0)"
        by (simp add: dir_scan_entries [OF f1 es(2)] es(1))
      note frd = runs_free [OF K read(1) nb]
      have fin: "runs (stuck C) P (bindR (k_free K bb s1) (\<lambda>s2. Inr (v, s2)))" if v: "v = find_in G D nm (drop a (dir_data G D n))" for v
      proof (rule frd, goal_cases freed)
        case (freed s2)
        have "P (v, s2)" unfolding v
          by (rule Suc.prems(7) [OF freed(1)]) (use read freed in \<open>auto intro: kept_trans keeps_trans\<close>)
        then show ?case by simp
      qed
      show ?case
      proof (cases "dir_block_empty G D b")
        case True
        then show ?thesis using e fin [of "- ENOENT"] by (simp add: dir_block_empty_def dr)
      next
        case ne: False
        show ?thesis
        proof (cases "pick nm (dir_entries D (g_bs G) (g_bs G * b) 0)")
          case (Some v)
          then show ?thesis using ne e sc bs fin [of v] by (simp add: dir_block_empty_def dr)
        next
          case None
          have rest: "find_in G D nm (drop a (dir_data G D n)) = find_in G D nm (drop (Suc a) (dir_data G D n))"
            using None ne by (simp add: dr)
          have "runs (stuck C) P (dir_blocks K fs ib bb f (Suc a) c s1)"
          proof (rule Suc.IH [OF read(1) M1 f1 I1], goal_cases len ok post)
            case (post s')
            then show ?case
              using Suc.prems(7) [of s'] read(2,4) unfolding rest by (blast intro: kept_trans keeps_trans)
          qed (use Suc.prems(5,6) in \<open>auto simp: dr\<close>)
          then show ?thesis using None ne e sc bs by (simp add: dir_block_empty_def)
        qed
      qed
    qed simp_all
  qed
qed

text \<open>
  \<open>ext2_read_directory\<close> yields what the name finds in the directory on the disk. It never gives back the
  buffer of the inode.
\<close>

lemma runs_read_directory:
  assumes K: "kern_ok K C" and i: "inv C s L (128 + (g_bs G + (g_bs G + r)))" and m: "mounted C L fs G D s"
    and f: "cstr (ram s) f nm" "(q, k) \<in> L" "q \<le> f" "f + length nm < q + k" and d: "dir_ok G D n"
    and P: "\<And>ib s'. inv C s' (insert (ib, 128) L) r \<Longrightarrow> kept s s' \<Longrightarrow> keeps L (ram s) (ram s') \<Longrightarrow> sep L ib 128 \<Longrightarrow>
      P (dir_find G D n nm, s')"
  shows "runs (stuck C) P (ext2_read_directory K fs (int n) f s)"
  unfolding ext2_read_directory_def
proof (rule runs_malloc [OF K i], goal_cases found)
  case (found ib s1)
  note s1 = fresh_sep [OF found(1)]
  have M1: "mounted C L fs G D s1" by (rule mounted_keeps [OF m found(4)]) simp
  have dok: "inode_ok G D n" "\<forall>b\<in>set (drop 0 (dir_data G D n)). dir_block_ok G D b" using d by (simp_all add: dir_ok_def)
  show ?case unfolding case_prod_conv
  proof (rule runs_read_inode [OF K found(2) s1 M1 dok(1)], goal_cases inode)
    case (inode s2)
    let ?L = "insert (ib, 128) L"
    have M2: "mounted C ?L fs G D s2" by (rule mounted_keeps [OF M1 inode(3)]) auto
    have bs: "priv_field fs p_blocksize s2 = g_bs G" using M2 by (simp add: mounted_def)
    have z: "(ld16 (ram s2) (ib + i_type) AND of_bool ((0x4000 :: nat) = 0) \<noteq> 0) = False" by simp
    show ?case unfolding case_prod_conv z if_False bs
    proof (rule runs_malloc [OF K inode(1)], goal_cases buffer)
      case (buffer bb s3)
      have M3: "mounted C ?L fs G D s3" by (rule mounted_keeps [OF M2 buffer(4)]) simp
      have k3: "keeps L (ram s) (ram s3)" using found(4) inode(3) buffer(4) by (auto intro: keeps_trans)
      have f3: "cstr (ram s3) f nm" by (rule keeps_cstr [OF f(1) k3 f(2,3,4)])
      have f2: "(q, k) \<in> ?L" using f(2) by simp
      have I3: "\<forall>j<128. ram s3 (ib + j) = D (inode_addr G D n + j)"
        using buffer(4) inode(4) by (auto simp: same_on_def region_def)
      show ?case unfolding case_prod_conv
      proof (rule runs_dir_blocks [OF K buffer(2) fresh_sep [OF buffer(1)] M3 f3 f2 f(3,4) insertI1 I3 _ dok(2)], goal_cases len post)
        case (post s4)
        then show ?case using P [OF post(1)] found(3) inode(2) buffer(3) k3 s1
          unfolding dir_find_def by (auto intro: kept_trans keeps_trans)
      qed simp
    qed
  qed
qed

end
