(* ===== verification/Ext2Path.thy ===== *)
theory Ext2Path
  imports Ext2Lookup
begin

text \<open>
  Paths: \<open>ext2_find_file_inode\<close> cuts a copy of the path with \<open>strtok\<close> and looks up one component after the
  other. The cursor of \<open>strtok\<close> is shared by all walks, so a walk that fails leaves it in the middle of its copy.
\<close>

section \<open>The walk on the disk\<close>

primrec path_walk :: "geo \<Rightarrow> mem \<Rightarrow> nat \<Rightarrow> u8 list list \<Rightarrow> int" where
  "path_walk G D n [] = int n"
| "path_walk G D n (t # ts) = (if dir_find G D n t < 0 then - ENOENT else path_walk G D (nat (dir_find G D n t)) ts)"

primrec path_ok :: "geo \<Rightarrow> mem \<Rightarrow> nat \<Rightarrow> u8 list list \<Rightarrow> bool" where
  "path_ok G D n [] = True"
| "path_ok G D n (t # ts) = (dir_ok G D n \<and> (0 \<le> dir_find G D n t \<longrightarrow> path_ok G D (nat (dir_find G D n t)) ts))"

text \<open>The number of directories that are read, and the components that are left over when one is not found.\<close>

primrec dirs_read :: "geo \<Rightarrow> mem \<Rightarrow> nat \<Rightarrow> u8 list list \<Rightarrow> nat" where
  "dirs_read G D n [] = 0"
| "dirs_read G D n (t # ts) = Suc (if dir_find G D n t < 0 then 0 else dirs_read G D (nat (dir_find G D n t)) ts)"

primrec missed :: "geo \<Rightarrow> mem \<Rightarrow> nat \<Rightarrow> u8 list list \<Rightarrow> u8 list list" where
  "missed G D n [] = []"
| "missed G D n (t # ts) = (if dir_find G D n t < 0 then ts else missed G D (nat (dir_find G D n t)) ts)"

definition dir_cost :: "geo \<Rightarrow> nat" where
  "dir_cost G = 128 + (g_bs G + g_bs G)"

section \<open>The cursor\<close>

definition kept_sp :: "'a vfs_state_scheme \<Rightarrow> 'a vfs_state_scheme \<Rightarrow> bool" where
  "kept_sp s s' \<longleftrightarrow> kept (s\<lparr>strtok_sp := 0\<rparr>) (s'\<lparr>strtok_sp := 0\<rparr>)"

lemma kept_sp_trans: "kept_sp s s' \<Longrightarrow> kept_sp s' s'' \<Longrightarrow> kept_sp s s''"
  unfolding kept_sp_def by (rule kept_trans)

lemma kept_sp_of: "kept s s' \<Longrightarrow> kept_sp s s'"
  by (auto simp: kept_sp_def kept_def vfs_state.defs)

lemma kept_sp_strtok [simp]: "kept_sp s (s\<lparr>strtok_sp := p, ram := m\<rparr>)"
  by (simp add: kept_sp_def kept_def vfs_state.defs)

text \<open>The string \<open>str\<close> that \<open>strtok\<close> goes on with lies at \<open>p\<close> in the region at \<open>cb\<close>; \<open>"/"\<close> is a static string.\<close>

definition cut_at :: "nat \<Rightarrow> nat \<Rightarrow> mem \<Rightarrow> nat \<Rightarrow> u8 list \<Rightarrow> bool" where
  "cut_at cb ck m p str \<longleftrightarrow> p \<noteq> 0 \<and> cstr m p str \<and> cb \<le> p \<and> p + length str < cb + ck"

definition slash_ok :: "'a vfs_state_scheme kern \<Rightarrow> regions \<Rightarrow> mem \<Rightarrow> bool" where
  "slash_ok K L m \<longleftrightarrow> (k_sym K Slash, 2) \<in> L \<and> cstr m (k_sym K Slash) [47]"

lemma slash_keeps: "slash_ok K L m \<Longrightarrow> keeps L m m' \<Longrightarrow> L \<subseteq> L' \<Longrightarrow> slash_ok K L' m'"
  unfolding slash_ok_def using keeps_cstr [of m "k_sym K Slash" "[47]" L m' "k_sym K Slash" 2] by (simp del: cstr.simps) blast

lemma cut_keeps: "cut_at cb ck m p str \<Longrightarrow> same_on (region (cb, ck)) m m' \<Longrightarrow> cut_at cb ck m' p str"
  unfolding cut_at_def using keeps_cstr [of m p str "{(cb, ck)}" m' cb ck] by (simp add: keeps_def)

definition cursor :: "nat \<Rightarrow> 'a vfs_state_scheme \<Rightarrow> nat" where
  "cursor str s = (if str \<noteq> 0 \<and> strtok_sp s = 0 then str else strtok_sp s)"

text \<open>One call of \<open>strtok\<close>: the next component, or the end, which clears the cursor.\<close>

lemma strtok_st_end:
  assumes "slash_ok K L (ram s)" "cut_at cb ck (ram s) (cursor p s) str" "tokens [47] str = []"
  shows "strtok_st K p s = Inr (0, s\<lparr>strtok_sp := 0\<rparr>)"
  using strtok_none [of "ram s" "k_sym K Slash" "[47]" p "strtok_sp s" "cursor p s" str] assms
  by (simp add: strtok_st_def cursor_def cut_at_def slash_ok_def)

lemma strtok_st_next:
  assumes K: "kern_ok K C" and i: "inv C s (insert (cb, ck) L) r" and sl: "slash_ok K L (ram s)"
    and c: "cut_at cb ck (ram s) (cursor p s) str" and sp: "sep L cb ck" and t: "tokens [47] str = t # ts"
  obtains q s' rest where "strtok_st K p s = Inr (q, s')" "inv C s' (insert (cb, ck) L) r" "kept_sp s s'" "keeps L (ram s) (ram s')"
    "cut_at cb ck (ram s') q t" "cut_at cb ck (ram s') (strtok_sp s') rest" "tokens [47] rest = ts"
proof -
  have d: "cstr (ram s) (k_sym K Slash) [47]" and c': "cursor p s \<noteq> 0" "cstr (ram s) (cursor p s) str"
    "cb \<le> cursor p s" "cursor p s + length str < cb + ck"
    using sl c by (simp_all add: slash_ok_def cut_at_def)
  obtain q sp' rest m' where st: "strtok (ram s) (strtok_sp s) p (k_sym K Slash) = Some (q, sp', m')" and nz: "q \<noteq> 0" "sp' \<noteq> 0"
    and ct: "cstr m' q t" and cs: "cstr m' sp' rest" and ts: "tokens [47] rest = ts"
    and pos: "cursor p s \<le> sp'" "sp' + length rest = cursor p s + length str"
    and fr: "same_on (- {cursor p s..<cursor p s + length str}) (ram s) m'"
    and q: "cursor p s \<le> q" "q + length t \<le> cursor p s + length str"
    by (rule strtok_token [OF d _ _ c'(1,2) t, of p "strtok_sp s"]) (auto simp: cursor_def)
  define s' where "s' = s\<lparr>strtok_sp := sp', ram := m'\<rparr>"
  have code: "strtok_st K p s = Inr (q, s')" by (simp add: strtok_st_def st s'_def)
  have out: "m' y = ram s y" if "y < cb \<or> cb + ck \<le> y" for y
    using fr c'(3,4) that by (auto simp: same_on_def)
  have inv': "inv C s' (insert (cb, ck) L) r"
  proof (rule inv_write [OF K i])
    show "same_on (- (\<Union>r\<in>insert (cb, ck) L. region r)) (ram s) (ram s')"
      using out unfolding same_on_def s'_def by (auto simp: region_def)
  qed (simp_all add: s'_def)
  have keep: "keeps L (ram s) (ram s')"
    unfolding keeps_def region_def same_on_def s'_def using sp out by (fastforce simp: sep_def apart_def)
  show thesis
    by (rule that [OF code inv' _ keep _ _ ts]) (use nz ct cs pos q c' in \<open>auto simp: s'_def cut_at_def\<close>)
qed

section \<open>The walk\<close>

text \<open>
  What a walk along the components \<open>ts\<close> from directory \<open>n\<close> leaves behind: its result, the inode buffers
  \<open>qs\<close> that are never freed, and the cursor: clear after success, on the rest of the string after a miss.
\<close>

definition walked :: "'a vfs_state_scheme contract \<Rightarrow> regions \<Rightarrow> nat \<Rightarrow> nat \<Rightarrow> nat \<Rightarrow> geo \<Rightarrow> mem \<Rightarrow> nat \<Rightarrow> u8 list list \<Rightarrow>
    'a vfs_state_scheme \<Rightarrow> int \<times> 'a vfs_state_scheme \<Rightarrow> bool" where
  "walked C L cb ck r G D n ts s = (\<lambda>(rc, s').
     rc = path_walk G D n ts \<and> kept_sp s s' \<and> keeps L (ram s) (ram s') \<and>
     (\<exists>qs. map snd qs = replicate (dirs_read G D n ts) 128 \<and> inv C s' (set qs \<union> insert (cb, ck) L) r \<and>
        (\<forall>(q, k)\<in>set qs. sep (insert (cb, ck) L) q k)) \<and>
     (if 0 \<le> path_walk G D n ts then strtok_sp s' = 0
      else \<exists>rest. cut_at cb ck (ram s') (strtok_sp s') rest \<and> tokens [47] rest = missed G D n ts))"

lemma walked_step:
  assumes "walked C (insert (ib, 128) L) cb ck r G D k ts s2 x" "kept_sp s s2" "keeps L (ram s) (ram s2)" "sep (insert (cb, ck) L) ib 128"
    "dir_find G D n t = int k"
  shows "walked C L cb ck r G D n (t # ts) s x"
proof -
  obtain rc s' where x: "x = (rc, s')" by (cases x)
  from assms(1) obtain qs where q: "map snd qs = replicate (dirs_read G D k ts) 128" "inv C s' (set qs \<union> insert (cb, ck) (insert (ib, 128) L)) r"
    "\<forall>(q, j)\<in>set qs. sep (insert (cb, ck) (insert (ib, 128) L)) q j" unfolding x walked_def by blast
  have 1: "map snd ((ib, 128) # qs) = replicate (dirs_read G D n (t # ts)) 128" using q(1) assms(5) by simp
  have 2: "inv C s' (set ((ib, 128) # qs) \<union> insert (cb, ck) L) r" using q(2) by (simp add: insert_commute)
  have 3: "\<forall>(q, j)\<in>set ((ib, 128) # qs). sep (insert (cb, ck) L) q j" using q(3) assms(4) by (auto simp: sep_def)
  have pw: "path_walk G D n (t # ts) = path_walk G D k ts" "missed G D n (t # ts) = missed G D k ts" using assms(5) by simp_all
  have "\<exists>qs. map snd qs = replicate (dirs_read G D n (t # ts)) 128 \<and> inv C s' (set qs \<union> insert (cb, ck) L) r \<and>
      (\<forall>(q, j)\<in>set qs. sep (insert (cb, ck) L) q j)" using 1 2 3 by blast
  moreover have "kept_sp s s'" "keeps L (ram s) (ram s')"
    using assms(1-3) by (auto simp: walked_def x intro: kept_sp_trans keeps_trans)
  ultimately show ?thesis using assms(1) unfolding x walked_def pw by simp
qed

lemma walked_from:
  assumes "walked C L cb ck r G D n ts s2 x" "kept_sp s s2" "keeps L (ram s) (ram s2)"
  shows "walked C L cb ck r G D n ts s x"
proof (cases x)
  case (Pair rc s')
  have "kept_sp s s'" "keeps L (ram s) (ram s')"
    using assms by (simp_all add: walked_def Pair kept_sp_trans [OF assms(2)] keeps_trans [OF assms(3)])
  then show ?thesis using assms(1) unfolding walked_def Pair case_prod_conv by blast
qed

text \<open>One directory: its result, and the buffer that is lost.\<close>

lemma runs_path_dir:
  assumes K: "kern_ok K C" and i: "inv C s (insert (cb, ck) L) (dir_cost G + r)" and m: "mounted C L fs G D s" and d: "dir_ok G D n"
    and c: "cut_at cb ck (ram s) pch t"
  shows "runs (stuck C) (\<lambda>(v, s1). v = dir_find G D n t \<and> kept s s1 \<and> keeps (insert (cb, ck) L) (ram s) (ram s1) \<and>
      (\<exists>ib. sep (insert (cb, ck) L) ib 128 \<and> inv C s1 (insert (ib, 128) (insert (cb, ck) L)) r)) (ext2_read_directory K fs (int n) pch s)"
proof (rule runs_read_directory [OF K, where r = r and L = "insert (cb, ck) L" and q = cb and k = ck and G = G and D = D and nm = t])
  show "mounted C (insert (cb, ck) L) fs G D s" by (rule mounted_ram [OF m]) auto
  show "inv C s (insert (cb, ck) L) (128 + (g_bs G + (g_bs G + r)))" using i by (simp add: dir_cost_def add.assoc)
qed (use c d in \<open>auto simp: cut_at_def\<close>)

lemma path_loop_walked:
  assumes K: "kern_ok K C" and "inv C s (insert (cb, ck) L) (length (t # ts) * dir_cost G + r)" "sep L cb ck" "slash_ok K L (ram s)"
    "mounted C L fs G D s" "path_ok G D n (t # ts)" "cut_at cb ck (ram s) pch t"
    "cut_at cb ck (ram s) (strtok_sp s) str" "tokens [47] str = ts"
  shows "\<exists>x. path_loop K fs (int n) pch s = Some x \<and> runs (stuck C) (walked C L cb ck r G D n (t # ts) s) x"
  using assms(2-)
proof (induction ts arbitrary: t n s pch str L rule: length_induct)
  case (1 ts)
  note i = "1.prems"(1) and sp = "1.prems"(2) and sl = "1.prems"(3) and m = "1.prems"(4) and pok = "1.prems"(5)
    and pc = "1.prems"(6) and cu = "1.prems"(7) and tk = "1.prems"(8)
  have i': "inv C s (insert (cb, ck) L) (dir_cost G + (length ts * dir_cost G + r))" using i by (simp add: add.assoc)
  have "dir_ok G D n" using pok by simp
  note R = runs_path_dir [OF K i' m this pc]
  have pch: "pch \<noteq> 0" using pc by (simp add: cut_at_def)
  show ?case
  proof (cases "ext2_read_directory K fs (int n) pch s")
    case (Inl h)
    then show ?thesis using R pch by (simp add: path_loop.simps [of K fs _ pch])
  next
    case (Inr vs)
    obtain v s1 where vs: "vs = (v, s1)" by (cases vs)
    obtain ib where v: "v = dir_find G D n t" and k1: "kept s s1" and ks1: "keeps (insert (cb, ck) L) (ram s) (ram s1)"
      and sib: "sep (insert (cb, ck) L) ib 128" and i1: "inv C s1 (insert (ib, 128) (insert (cb, ck) L)) (length ts * dir_cost G + r)"
      using R unfolding Inr vs runs_simps case_prod_conv by blast
    let ?L = "insert (ib, 128) L"
    have sp1: "strtok_sp s1 = strtok_sp s" using kept_sel(1) [OF k1] .
    have cu1: "cut_at cb ck (ram s1) (strtok_sp s1) str" unfolding sp1 using cut_keeps [OF cu] ks1 by simp
    have i1': "inv C s1 (insert (cb, ck) ?L) (length ts * dir_cost G + r)" using i1 by (simp add: insert_commute)
    have sp': "sep ?L cb ck" using sp sib by (auto simp: sep_def intro: apart_sym)
    have ksL: "keeps L (ram s) (ram s1)" using ks1 by simp
    have sl1: "slash_ok K ?L (ram s1)" by (rule slash_keeps [OF sl ksL]) auto
    have m1: "mounted C ?L fs G D s1" by (rule mounted_keeps [OF m ksL]) auto
    show ?thesis
    proof (cases "dir_find G D n t < 0")
      case True
      have "\<exists>qs. map snd qs = replicate (dirs_read G D n (t # ts)) 128 \<and> inv C s1 (set qs \<union> insert (cb, ck) L) r \<and>
          (\<forall>(q, k)\<in>set qs. sep (insert (cb, ck) L) q k)"
        using inv_less [OF K i1', of r] sib True by (intro exI [of _ "[(ib, 128)]"]) simp
      moreover have "\<exists>rest. cut_at cb ck (ram s1) (strtok_sp s1) rest \<and> tokens [47] rest = missed G D n (t # ts)"
        using True cu1 tk by auto
      ultimately have "walked C L cb ck r G D n (t # ts) s (- ENOENT, s1)"
        using True kept_sp_of [OF k1] ksL unfolding walked_def by simp
      then show ?thesis using True Inr vs v pch by (simp add: path_loop.simps [of K fs _ pch])
    next
      case False
      then obtain k where k: "dir_find G D n t = int k" by (metis nonneg_int_cases not_less)
      have step: "path_loop K fs (int n) pch s = (case strtok_st K 0 s1 of Inl h \<Rightarrow> Some (Inl h) | Inr (pch', st2) \<Rightarrow> path_loop K fs (int k) pch' st2)"
        using Inr vs v pch k by (simp add: path_loop.simps [of K fs _ pch])
      have cur: "cursor 0 s1 = strtok_sp s1" by (simp add: cursor_def)
      have pokk: "path_ok G D k ts" using pok k by simp
      show ?thesis
      proof (cases ts)
        case Nil
        have "tokens [47] str = []" using tk Nil by simp
        from strtok_st_end [OF sl1 cu1 [folded cur] this] have "strtok_st K 0 s1 = Inr (0, s1\<lparr>strtok_sp := 0\<rparr>)" .
        then have run: "path_loop K fs (int n) pch s = Some (Inr (int k, s1\<lparr>strtok_sp := 0\<rparr>))"
          using step by (simp add: path_loop.simps [of K fs _ 0])
        have "inv C (s1\<lparr>strtok_sp := 0\<rparr>) (insert (cb, ck) ?L) r"
          by (rule inv_write [OF K inv_less [OF K i1']]) (auto simp: same_on_def)
        then have "walked C ?L cb ck r G D k [] s1 (int k, s1\<lparr>strtok_sp := 0\<rparr>)"
          unfolding walked_def by (auto simp: kept_sp_def)
        from walked_step [OF this kept_sp_of [OF k1] ksL sib k] show ?thesis using Nil run by simp
      next
        case (Cons u us)
        have "tokens [47] str = u # us" using tk Cons by simp
        then obtain q s2 rest where s2: "strtok_st K 0 s1 = Inr (q, s2)" "inv C s2 (insert (cb, ck) ?L) (length ts * dir_cost G + r)"
          "kept_sp s1 s2" "keeps ?L (ram s1) (ram s2)" "cut_at cb ck (ram s2) q u" "cut_at cb ck (ram s2) (strtok_sp s2) rest" "tokens [47] rest = us"
          by (rule strtok_st_next [OF K i1' sl1 cu1 [folded cur] sp'])
        have sl2: "slash_ok K ?L (ram s2)" by (rule slash_keeps [OF sl1 s2(4)]) simp
        have m2: "mounted C ?L fs G D s2" by (rule mounted_keeps [OF m1 s2(4)]) simp
        have "length us < length ts" using Cons by simp
        from "1.IH" [rule_format, OF this s2(2) [unfolded Cons] sp' sl2 m2 pokk [unfolded Cons] s2(5,6,7)]
        obtain x where x: "path_loop K fs (int k) q s2 = Some x" "runs (stuck C) (walked C ?L cb ck r G D k ts s2) x" unfolding Cons by blast
        have kss: "kept_sp s s2" "keeps L (ram s) (ram s2)"
          using kept_sp_of [OF k1] s2(3,4) ksL by (auto intro: kept_sp_trans keeps_trans)
        have "runs (stuck C) (walked C L cb ck r G D n (t # ts) s) x"
          by (rule runs_mono [OF x(2)]) (simp_all add: walked_step [OF _ kss sib k])
        then show ?thesis using step s2(1) x(1) by simp
      qed
    qed
  qed
qed

lemma runs_walk:
  assumes K: "kern_ok K C" and i: "inv C s (insert (cb, ck) L) (length ts * dir_cost G + r)" and sp: "sep L cb ck" and sl: "slash_ok K L (ram s)"
    and m: "mounted C L fs G D s" and pok: "path_ok G D 2 ts" and cu: "cut_at cb ck (ram s) (cursor p s) str" and tk: "tokens [47] str = ts"
  shows "runs (stuck C) (walked C L cb ck r G D 2 ts s) (bindR (strtok_st K p s) (\<lambda>(pch, st3).
    if pch = 0 then Inr (2, st3) else case path_loop K fs 2 pch st3 of None \<Rightarrow> Inl Hang | Some r \<Rightarrow> r))"
proof (cases ts)
  case Nil
  have "inv C (s\<lparr>strtok_sp := 0\<rparr>) (insert (cb, ck) L) r"
    by (rule inv_write [OF K inv_less [OF K i]]) (auto simp: same_on_def)
  then show ?thesis
    using strtok_st_end [OF sl cu] tk Nil by (simp add: walked_def kept_sp_def)
next
  case (Cons t us)
  have "tokens [47] str = t # us" using tk Cons by simp
  then obtain q s2 rest where s2: "strtok_st K p s = Inr (q, s2)" "inv C s2 (insert (cb, ck) L) (length ts * dir_cost G + r)"
    "kept_sp s s2" "keeps L (ram s) (ram s2)" "cut_at cb ck (ram s2) q t" "cut_at cb ck (ram s2) (strtok_sp s2) rest" "tokens [47] rest = us"
    by (rule strtok_st_next [OF K i sl cu sp])
  have sl2: "slash_ok K L (ram s2)" by (rule slash_keeps [OF sl s2(4)]) simp
  have m2: "mounted C L fs G D s2" by (rule mounted_keeps [OF m s2(4)]) simp
  obtain x where x: "path_loop K fs (int 2) q s2 = Some x" "runs (stuck C) (walked C L cb ck r G D 2 (t # us) s2) x"
    using path_loop_walked [OF K s2(2) [unfolded Cons] sp sl2 m2 pok [unfolded Cons] s2(5,6,7)] by blast
  have "walked C L cb ck r G D 2 (t # us) s y" if "walked C L cb ck r G D 2 (t # us) s2 y" for y
    using that s2(3,4) by (rule walked_from)
  then have "runs (stuck C) (walked C L cb ck r G D 2 (t # us) s) x"
    by (intro runs_mono [OF x(2)])
  moreover have "q \<noteq> 0" using s2(5) by (simp add: cut_at_def)
  ultimately show ?thesis using s2(1) x(1) Cons by simp
qed

text \<open>The copy of the path.\<close>

lemma runs_find_copy:
  assumes K: "kern_ok K C" and i: "inv C s L (Suc (length str) + r)" and f: "cstr (ram s) path str" "(q, k) \<in> L" "q \<le> path" "path + length str < q + k"
    and b: "length str < 2147483647"
    and P: "\<And>fn s'. inv C s' (insert (fn, Suc (length str)) L) r \<Longrightarrow> kept s s' \<Longrightarrow> keeps L (ram s) (ram s') \<Longrightarrow> sep L fn (Suc (length str)) \<Longrightarrow>
      fn \<noteq> 0 \<Longrightarrow> cstr (ram s') fn str \<Longrightarrow>
      runs (stuck C) P (bindR (strtok_st K fn s') (\<lambda>(pch, st3). if pch = 0 then Inr (2, st3)
        else case path_loop K fs 2 pch st3 of None \<Rightarrow> Inl Hang | Some r \<Rightarrow> r))"
  shows "runs (stuck C) P (ext2_find_file_inode K fs path s)"
proof -
  have n: "add32 (length str) 1 = Suc (length str)" using b by (simp add: add32_small)
  show ?thesis
    unfolding ext2_find_file_inode_def strlen_cstr [OF f(1)] hang_simps bindR_simps n
  proof (rule runs_malloc [OF K i], goal_cases copy)
    case (copy fn s1)
    have fs: "sep L fn (Suc (length str))" by (rule fresh_sep [OF copy(1)])
    have f1: "cstr (ram s1) path str" by (rule keeps_cstr [OF f(1) copy(4) f(2,3,4)])
    define m where "m = memcpy fn path (Suc (length str)) (ram s1)"
    have dis: "fn \<le> path \<or> path + length str + 1 \<le> fn" using fs f(2,3,4) by (auto simp: sep_def apart_def)
    have cp: "cstr m fn str" using memcpy_cstr [OF f1 dis] by (simp add: m_def)
    have out: "m y = ram s1 y" if "y < fn \<or> fn + Suc (length str) \<le> y" for y
      using that dis by (auto simp: m_def memcpy_apply)
    have i2: "inv C (s1\<lparr>ram := m\<rparr>) (insert (fn, Suc (length str)) L) r"
      by (rule inv_cell [OF K copy(2), of fn "Suc (length str)"]) (use out in auto)
    have k2: "keeps L (ram s1) m"
      unfolding keeps_def region_def same_on_def using fs out by (fastforce simp: sep_def apart_def)
    have "fn \<noteq> 0" using copy(1) by (simp add: fresh_def)
    moreover have "kept s (s1\<lparr>ram := m\<rparr>)" by (rule kept_trans [OF copy(3) kept_ram])
    moreover have "keeps L (ram s) (ram (s1\<lparr>ram := m\<rparr>))" using copy(4) k2 by (auto intro: keeps_trans)
    ultimately show ?case
      using P [OF i2 _ _ fs] cp by (simp add: strlen_cstr [OF f1] n [simplified] m_def)
  qed
qed

text \<open>
  Looking up a path walks its components, the maximal runs without a slash, from the root inode 2 through
  the directories on the disk, and leaves the memory in use alone; this is so if the cursor of
  \<open>strtok\<close> is clear at the start. It loses the copy of the path and one inode buffer for each directory. A
  directory entry answers to every name that it is a prefix of.
\<close>

lemma runs_find_file:
  assumes "kern_ok K C" "inv C s L (Suc (length str) + (length (tokens [47] str) * dir_cost G + r))" "mounted C L fs G D s" "slash_ok K L (ram s)"
    "cstr (ram s) path str" "(q, k) \<in> L" "q \<le> path" "path + length str < q + k" "length str < 2147483647"
    "path_ok G D 2 (tokens [47] str)" "strtok_sp s = 0"
  shows "runs (stuck C) (\<lambda>(ino, s'). \<exists>fn. sep L fn (Suc (length str)) \<and>
    walked C L fn (Suc (length str)) r G D 2 (tokens [47] str) s (ino, s')) (ext2_find_file_inode K fs path s)"
proof (rule runs_find_copy [OF assms(1,2,5,6,7,8,9)], goal_cases walk)
  case (walk fn s1)
  have cu: "cut_at fn (Suc (length str)) (ram s1) (cursor fn s1) str"
    using walk(5,6) kept_sel(1) [OF walk(2)] assms(11) by (simp add: cursor_def cut_at_def)
  have sl: "slash_ok K L (ram s1)" by (rule slash_keeps [OF assms(4) walk(3)]) simp
  have m: "mounted C L fs G D s1" by (rule mounted_keeps [OF assms(3) walk(3)]) simp
  show ?case
  proof (rule runs_mono [OF runs_walk [OF assms(1) walk(1,4) sl m assms(10) cu refl]])
    fix x assume "walked C L fn (Suc (length str)) r G D 2 (tokens [47] str) s1 x"
    then have "walked C L fn (Suc (length str)) r G D 2 (tokens [47] str) s x"
      using kept_sp_of [OF walk(2)] walk(3) by (rule walked_from)
    then show "case x of (ino, s') \<Rightarrow> \<exists>fn. sep L fn (Suc (length str)) \<and>
        walked C L fn (Suc (length str)) r G D 2 (tokens [47] str) s (ino, s')"
      using walk(4) by (cases x) auto
  qed auto
qed

text \<open>
  After a lookup that failed, the cursor of \<open>strtok\<close> still stands in the copy of the old path, and the next lookup ignores its
  own path: it walks the components that were left over, and gives the root directory if there are none.
\<close>

lemma runs_find_file_stale:
  assumes "kern_ok K C" "inv C s (insert (cb, ck) L) (Suc (length str) + (length (tokens [47] old) * dir_cost G + r))"
    "sep L cb ck" "mounted C L fs G D s" "slash_ok K L (ram s)"
    "cstr (ram s) path str" "(q, k) \<in> L" "q \<le> path" "path + length str < q + k" "length str < 2147483647"
    "cut_at cb ck (ram s) (strtok_sp s) old" "path_ok G D 2 (tokens [47] old)"
  shows "runs (stuck C) (\<lambda>(ino, s'). ino = path_walk G D 2 (tokens [47] old)) (ext2_find_file_inode K fs path s)"
proof (rule runs_find_copy [OF assms(1,2,6) insertI2 [OF assms(7)] assms(8,9,10)], goal_cases walk)
  case (walk fn s1)
  let ?L = "insert (fn, Suc (length str)) L"
  have ks: "keeps L (ram s) (ram s1)" "same_on (region (cb, ck)) (ram s) (ram s1)" using walk(3) by simp_all
  have sp1: "strtok_sp s1 = strtok_sp s" by (rule kept_sel(1) [OF walk(2)])
  have "strtok_sp s \<noteq> 0" using assms(11) by (simp add: cut_at_def)
  then have cu: "cut_at cb ck (ram s1) (cursor fn s1) old"
    using cut_keeps [OF assms(11) ks(2)] by (simp add: cursor_def sp1)
  have sl: "slash_ok K ?L (ram s1)" by (rule slash_keeps [OF assms(5) ks(1)]) auto
  have m: "mounted C ?L fs G D s1" by (rule mounted_keeps [OF assms(4) ks(1)]) auto
  have sp: "sep ?L cb ck" using assms(3) walk(4) by (auto simp: sep_def intro: apart_sym)
  have i1: "inv C s1 (insert (cb, ck) ?L) (length (tokens [47] old) * dir_cost G + r)" using walk(1) by (simp add: insert_commute)
  show ?case
    by (rule runs_mono [OF runs_walk [OF assms(1) i1 sp sl m assms(12) cu refl]]) (auto simp: walked_def)
qed

text \<open>A lookup that fails, and the next one, of any path, right after it.\<close>

lemma path_walk_neg: "path_walk G D n ts < 0 \<Longrightarrow> path_walk G D n ts = - ENOENT"
  by (induction ts arbitrary: n) (auto split: if_splits)

lemma runs_find_file_twice:
  fixes s :: "'a vfs_state_scheme"
  assumes K: "kern_ok K C" and m: "mounted C L fs G D s" and sl: "slash_ok K L (ram s)" and z: "strtok_sp s = 0"
    and i: "inv C s L (Suc (length str) + (length (tokens [47] str) * dir_cost G +
      (Suc (length str') + (length (missed G D 2 (tokens [47] str)) * dir_cost G + r))))"
    and p: "cstr (ram s) path str" "(q, k) \<in> L" "q \<le> path" "path + length str < q + k" "length str < 2147483647"
    and p': "cstr (ram s) path' str'" "(q', k') \<in> L" "q' \<le> path'" "path' + length str' < q' + k'" "length str' < 2147483647"
    and ok: "path_ok G D 2 (tokens [47] str)" "path_ok G D 2 (missed G D 2 (tokens [47] str))" and neg: "path_walk G D 2 (tokens [47] str) < 0"
  shows "runs (stuck C) (\<lambda>((ino, ino'), _). ino = - ENOENT \<and> ino' = path_walk G D 2 (missed G D 2 (tokens [47] str)))
    (bindR (ext2_find_file_inode K fs path s) (\<lambda>(ino, s1).
     bindR (ext2_find_file_inode K fs path' s1) (\<lambda>(ino', s2). Inr ((ino, ino'), s2))))"
proof (rule runs_bind_mono [OF runs_find_file [OF K i m sl p ok(1) z]], goal_cases first)
  case (first x)
  obtain ino s1 where x: "x = (ino, s1)" by (cases x)
  let ?r = "Suc (length str') + (length (missed G D 2 (tokens [47] str)) * dir_cost G + r)"
  from first obtain fn where sep: "sep L fn (Suc (length str))"
    and w: "walked C L fn (Suc (length str)) ?r G D 2 (tokens [47] str) s (ino, s1)" unfolding x by auto
  from w have ino: "ino = - ENOENT" and ks: "keeps L (ram s) (ram s1)" using path_walk_neg [OF neg] by (simp_all add: walked_def)
  from w obtain qs where qs: "inv C s1 (set qs \<union> insert (fn, Suc (length str)) L) ?r"
    "\<forall>(q, k)\<in>set qs. sep (insert (fn, Suc (length str)) L) q k" by (auto simp: walked_def)
  from w neg obtain rest where cut: "cut_at fn (Suc (length str)) (ram s1) (strtok_sp s1) rest"
    and rest: "tokens [47] rest = missed G D 2 (tokens [47] str)" by (auto simp: walked_def)
  let ?L = "set qs \<union> L"
  have i1: "inv C s1 (insert (fn, Suc (length str)) ?L) (Suc (length str') + (length (tokens [47] rest) * dir_cost G + r))"
    using qs(1) unfolding rest by simp
  have sep1: "sep ?L fn (Suc (length str))" using sep qs(2) by (auto simp: sep_def intro: apart_sym)
  have sl1: "slash_ok K ?L (ram s1)" by (rule slash_keeps [OF sl ks]) simp
  have m1: "mounted C ?L fs G D s1" by (rule mounted_keeps [OF m ks]) simp
  have c1: "cstr (ram s1) path' str'" by (rule keeps_cstr [OF p'(1) ks p'(2-4)])
  have "(q', k') \<in> ?L" using p'(2) by simp
  from runs_find_file_stale [OF K i1 sep1 m1 sl1 c1 this p'(3-5) cut ok(2) [folded rest]]
  show ?case
    unfolding x case_prod_conv rest by (rule runs_bind_mono) (auto simp: ino)
qed

end
