(* ===== verification/Ext2File.thy ===== *)
theory Ext2File
  imports Ext2Path
begin

text \<open>
  Reading files: which block of the disk holds a block of the file, and the bytes that
  \<open>ext2_read_file\<close> delivers.
\<close>

section \<open>Files on the disk\<close>

definition file_blk :: "geo \<Rightarrow> mem \<Rightarrow> nat \<Rightarrow> nat \<Rightarrow> nat" where
  "file_blk G D n b = ld32 D (inode_addr G D n + (i_dbp + 4 * b))"

definition file_blk_ok :: "geo \<Rightarrow> mem \<Rightarrow> nat \<Rightarrow> nat \<Rightarrow> bool" where
  "file_blk_ok G D n b \<longleftrightarrow> b < 12 \<and> blk_ok G (file_blk G D n b)"

definition file_byte :: "geo \<Rightarrow> mem \<Rightarrow> nat \<Rightarrow> nat \<Rightarrow> u8" where
  "file_byte G D n i = D (g_bs G * file_blk G D n (i div g_bs G) + i mod g_bs G)"

section \<open>Open files\<close>

text \<open>
  \<open>f\<close> is an open file of the file system at \<open>fs\<close>, whose path has the text \<open>str\<close> and names inode \<open>n\<close>; \<open>r\<close> bytes are left when
  the path has been looked up once.
\<close>

definition open_file :: "'a vfs_state_scheme kern \<Rightarrow> 'a vfs_state_scheme contract \<Rightarrow> regions \<Rightarrow> nat \<Rightarrow> nat \<Rightarrow> geo \<Rightarrow> mem \<Rightarrow> u8 list \<Rightarrow> nat \<Rightarrow>
    'a vfs_state_scheme \<Rightarrow> bool" where
  "open_file K C L f fs G D str n s \<longleftrightarrow>
     (f, sizeof_filesystem) \<in> L \<and> field f f_fs s = fs \<and> mounted C L fs G D s \<and> slash_ok K L (ram s) \<and>
     (\<exists>q k. cstr (ram s) (field f f_respath s) str \<and> (q, k) \<in> L \<and> q \<le> field f f_respath s \<and> field f f_respath s + length str < q + k) \<and>
     length str < 2147483647 \<and> path_ok G D 2 (tokens [47] str) \<and> path_walk G D 2 (tokens [47] str) = int n \<and> inode_ok G D n"

definition find_cost :: "geo \<Rightarrow> u8 list \<Rightarrow> nat" where
  "find_cost G str = Suc (length str) + length (tokens [47] str) * dir_cost G"

lemma open_file_keeps:
  assumes "open_file K C L f fs G D str n s" "keeps L (ram s) (ram s')" "L \<subseteq> L'"
  shows "open_file K C L' f fs G D str n s'"
proof -
  have f: "field f off s' = field f off s" if "off + 4 \<le> sizeof_filesystem" for off
    using assms(1,2) that by (auto simp: open_file_def intro: field_keeps)
  obtain q k where q: "cstr (ram s) (field f f_respath s) str" "(q, k) \<in> L" "q \<le> field f f_respath s" "field f f_respath s + length str < q + k"
    using assms(1) by (auto simp: open_file_def)
  have "\<exists>q k. cstr (ram s') (field f f_respath s') str \<and> (q, k) \<in> L' \<and> q \<le> field f f_respath s' \<and> field f f_respath s' + length str < q + k"
    using keeps_cstr [OF q(1) assms(2) q(2,3,4)] q assms(3) by (auto simp: f)
  then show ?thesis
    using assms mounted_keeps [of C L fs G D s s' L'] slash_keeps [of K L "ram s" "ram s'" L'] unfolding open_file_def by (auto simp: f)
qed

text \<open>More memory is in use afterwards: \<open>X\<close> is what was lost on the way.\<close>

definition lost :: "regions \<Rightarrow> regions \<Rightarrow> bool" where
  "lost L X \<longleftrightarrow> (\<forall>(q, k)\<in>X. sep L q k)"

lemma lost_empty [simp]: "lost L {}"
  by (simp add: lost_def)

lemma lost_Un: "lost L X \<Longrightarrow> lost L Y \<Longrightarrow> lost L (X \<union> Y)"
  by (auto simp: lost_def)

lemma lost_sub: "lost L X \<Longrightarrow> L' \<subseteq> L \<Longrightarrow> lost L' X"
  by (fastforce simp: lost_def sep_def)

lemma lost_notin: "lost L X \<Longrightarrow> (p, n) \<in> L \<Longrightarrow> 0 < n \<Longrightarrow> (p, n) \<notin> X"
  by (fastforce simp: lost_def sep_def apart_def)

text \<open>The lookup of an open file's path, as the file routines use it.\<close>

lemma runs_find_open:
  assumes K: "kern_ok K C" and i: "inv C s L (find_cost G str + r)" and o: "open_file K C L f fs G D str n s" and z: "strtok_sp s = 0"
    and P: "\<And>s' X. inv C s' (X \<union> L) r \<Longrightarrow> lost L X \<Longrightarrow> kept_sp s s' \<Longrightarrow> keeps L (ram s) (ram s') \<Longrightarrow> strtok_sp s' = 0 \<Longrightarrow>
      runs (stuck C) P (g (int n, s'))"
  shows "runs (stuck C) P (bindR (ext2_find_file_inode K fs (field f f_respath s) s) g)"
proof -
  obtain q k where q: "cstr (ram s) (field f f_respath s) str" "(q, k) \<in> L" "q \<le> field f f_respath s" "field f f_respath s + length str < q + k"
    and b: "length str < 2147483647" and m: "mounted C L fs G D s" and sl: "slash_ok K L (ram s)" and pok: "path_ok G D 2 (tokens [47] str)"
    and w: "path_walk G D 2 (tokens [47] str) = int n"
    using o by (auto simp: open_file_def)
  have i': "inv C s L (Suc (length str) + (length (tokens [47] str) * dir_cost G + r))" using i by (simp add: find_cost_def add.assoc)
  show ?thesis
  proof (rule runs_bind_mono [OF runs_find_file [OF K i' m sl q b pok z]], clarify)
    fix ino s' fn assume fn: "sep L fn (Suc (length str))" and "walked C L fn (Suc (length str)) r G D 2 (tokens [47] str) s (ino, s')"
    then obtain qs where r: "ino = int n" "kept_sp s s'" "keeps L (ram s) (ram s')" "strtok_sp s' = 0"
      "inv C s' (set qs \<union> insert (fn, Suc (length str)) L) r" "\<forall>(q, k)\<in>set qs. sep (insert (fn, Suc (length str)) L) q k"
      unfolding walked_def w by auto
    have "lost L (insert (fn, Suc (length str)) (set qs))" using fn r(6) by (auto simp: lost_def sep_def)
    moreover have "inv C s' (insert (fn, Suc (length str)) (set qs) \<union> L) r" using r(5) by (simp add: Un_insert_right)
    ultimately have "runs (stuck C) P (g (int n, s'))" by (rule P [OF _ _ r(2,3,4), rotated])
    then show "runs (stuck C) P (g (ino, s'))" using r(1) by simp
  qed
qed

section \<open>One block\<close>

definition block_cost :: "geo \<Rightarrow> u8 list \<Rightarrow> nat" where
  "block_cost G str = 128 + (find_cost G str + g_bs G)"

text \<open>The region at \<open>b\<close> after block \<open>j\<close> of the file was read to \<open>buf\<close>.\<close>

definition block_at :: "geo \<Rightarrow> mem \<Rightarrow> nat \<Rightarrow> nat \<Rightarrow> nat \<Rightarrow> nat \<Rightarrow> nat \<Rightarrow> mem \<Rightarrow> mem \<Rightarrow> bool" where
  "block_at G D n b k buf j m m' \<longleftrightarrow>
     (\<forall>x\<in>region (b, k). m' x = (if buf \<le> x \<and> x < buf + g_bs G then D (g_bs G * file_blk G D n j + (x - buf)) else m x))"

lemma kept_hw: "kept s s' \<Longrightarrow> strtok_sp s = 0 \<Longrightarrow> strtok_sp s' = 0"
  by (simp add: kept_sel)

text \<open>\<open>ext2_file_read_block\<close> up to the point where the inode of the file is in its buffer \<open>ib\<close>.\<close>

lemma runs_file_inode:
  fixes s :: "'a vfs_state_scheme"
  assumes K: "kern_ok K C" and i: "inv C s (insert (b, k) L) (block_cost G str + r)" and sb: "sep L b k" and o: "open_file K C L f fs G D str n s"
    and z: "strtok_sp s = 0"
    and P: "\<And>ib s3 X. inv C s3 (insert (ib, 128) (X \<union> insert (b, k) L)) r \<Longrightarrow> sep (X \<union> insert (b, k) L) ib 128 \<Longrightarrow>
      lost (insert (b, k) L) X \<Longrightarrow> kept_sp s s3 \<Longrightarrow> keeps (insert (b, k) L) (ram s) (ram s3) \<Longrightarrow> strtok_sp s3 = 0 \<Longrightarrow>
      \<forall>y<128. ram s3 (ib + y) = D (inode_addr G D n + y) \<Longrightarrow>
      runs (stuck C) P (bindR
        (if j < 12
         then bindR (ext2_read_block K fs buf (field ib (i_dbp + 4 * j) s3) s3) (\<lambda>(_, s4). bindR (k_free K ib s4) (\<lambda>s5. Inr (0, s5)))
         else if j < g_bs G div 4
         then bindR (k_malloc K (g_bs G) s3) (\<lambda>(bb, s4).
              bindR (ext2_read_block K (field f f_fs s4) bb (field ib i_singly_block s4) s4) (\<lambda>(_, s5).
              bindR (ext2_read_block K (field f f_fs s5) buf (ld32 (ram s5) (add32 bb (mul32 4 (sub32 (k_indet K) 12)))) s5) (\<lambda>(_, s6).
              bindR (k_free K bb s6) (\<lambda>s7. bindR (k_free K ib s7) (\<lambda>s8. Inr (0, s8))))))
         else Inr (- ENOSYS, say ''File blocks >+%d arent supported'' [int (g_bs G div 4)] s3)) g)"
  shows "runs (stuck C) P (bindR (ext2_file_read_block K f buf j s) g)"
proof -
  let ?L1 = "insert (b, k) L"
  have fs: "field f f_fs s = fs" using o by (simp add: open_file_def)
  show ?thesis
    unfolding ext2_file_read_block_def Let_def fs bindR_assoc
  proof (rule runs_malloc [OF K, where n = 128 and r = "find_cost G str + (g_bs G + r)" and L = ?L1], goal_cases inv found)
    case inv
    then show ?case using i by (simp add: block_cost_def add.assoc)
  next
    case (found ib s1)
    let ?L2 = "insert (ib, 128) ?L1"
    have sib: "sep ?L1 ib 128" by (rule fresh_sep [OF found(1)])
    have o1: "open_file K C ?L2 f fs G D str n s1" by (rule open_file_keeps [OF o]) (use found(4) in auto)
    have z1: "strtok_sp s1 = 0" by (rule kept_hw [OF found(3) z])
    show ?case
      unfolding case_prod_conv bindR_assoc
    proof (rule runs_find_open [OF K found(2) o1 z1], goal_cases look)
      case (look s2 X)
      have i2: "inv C s2 (insert (ib, 128) (X \<union> ?L1)) (g_bs G + r)" using look(1) by simp
      have sib2: "sep (X \<union> ?L1) ib 128" using sib look(2) by (auto simp: lost_def sep_def intro: apart_sym)
      have ks2: "keeps ?L1 (ram s) (ram s2)" by (rule keeps_trans [OF found(4)]) (use look(4) in auto)
      have o2: "open_file K C (X \<union> ?L1) f fs G D str n s2" by (rule open_file_keeps [OF o]) (use ks2 in auto)
      have m2: "mounted C (X \<union> ?L1) fs G D s2" and nok: "inode_ok G D n" using o2 by (simp_all add: open_file_def)
      have bs: "priv_field fs p_blocksize s2 = g_bs G" using m2 by (simp add: mounted_def)
      have pos: "\<not> int n < 0" by simp
      show ?case
        unfolding case_prod_conv bs if_not_P [OF pos] bindR_assoc
      proof (rule runs_read_inode [OF K i2 sib2 m2 nok], goal_cases inode)
        case (inode s3)
        have ks3: "keeps ?L1 (ram s) (ram s3)" using ks2 inode(3) by (auto simp: keeps_def intro: same_on_trans)
        have z3: "strtok_sp s3 = 0" by (rule kept_hw [OF inode(2) look(5)])
        have kp3: "kept_sp s s3" by (rule kept_sp_trans [OF kept_sp_trans [OF kept_sp_of [OF found(3)] look(3)] kept_sp_of [OF inode(2)]])
        have Xl: "lost ?L1 X" by (rule lost_sub [OF look(2)]) auto
        from P [OF inode(1) sib2 Xl kp3 ks3 z3 inode(4)] show ?case unfolding case_prod_conv .
      qed
    qed
  qed
qed

lemma runs_file_read_block:
  fixes s :: "'a vfs_state_scheme"
  assumes K: "kern_ok K C" and i: "inv C s (insert (b, k) L) (block_cost G str + r)" and sb: "sep L b k" and o: "open_file K C L f fs G D str n s"
    and z: "strtok_sp s = 0" and ok: "file_blk_ok G D n j" and bb: "b \<le> buf" "buf + g_bs G \<le> b + k"
    and P: "\<And>s' X. inv C s' (X \<union> insert (b, k) L) r \<Longrightarrow> lost (insert (b, k) L) X \<Longrightarrow> kept_sp s s' \<Longrightarrow> keeps L (ram s) (ram s') \<Longrightarrow>
      strtok_sp s' = 0 \<Longrightarrow> block_at G D n b k buf j (ram s) (ram s') \<Longrightarrow> runs (stuck C) P (g (0, s'))"
  shows "runs (stuck C) P (bindR (ext2_file_read_block K f buf j s) g)"
proof (rule runs_file_inode [OF K i sb o z], goal_cases inode)
  case (inode ib s3 X)
  let ?L1 = "insert (b, k) L" and ?Ly = "X \<union> insert (ib, 128) L"
  have L3: "insert (ib, 128) (X \<union> ?L1) = insert (b, k) ?Ly" by auto
  have sy: "sep ?Ly b k" using sb inode(2,3) by (auto simp: lost_def sep_def intro: apart_sym)
  have m3: "mounted C ?Ly fs G D s3" using open_file_keeps [OF o, of s3 ?Ly] inode(5) by (auto simp: open_file_def)
  have j: "j < 12" and bok: "blk_ok G (file_blk G D n j)" using ok by (simp_all add: file_blk_ok_def)
  have blk: "field ib (i_dbp + 4 * j) s3 = file_blk G D n j"
    using copied_ld32 [OF inode(7), of "40 + 4 * j"] j by (simp add: field_def file_blk_def)
  have i3: "inv C s3 (insert (b, k) ?Ly) r" using inode(1) unfolding L3 .
  have ibn: "(ib, 128) \<notin> X \<union> ?L1" by (rule sep_notin [OF inode(2)]) simp
  show ?case
    unfolding if_P [OF j] blk bindR_assoc
  proof (rule runs_read_block [OF K i3 sy m3 bok bb], goal_cases read)
    case (read rc s5)
    have i5: "inv C s5 (insert (ib, 128) (X \<union> ?L1)) r" using read(1) unfolding L3 .
    show ?case unfolding case_prod_conv bindR_assoc
    proof (rule runs_free [OF K i5 ibn], goal_cases freed)
      case (freed s6)
      have "block_at G D n b k buf j (ram s) (ram s6)"
        using read(3) freed(3) inode(5) by (auto simp: block_at_def filled_def keeps_def same_on_def)
      moreover have "keeps L (ram s) (ram s6)"
        by (rule keeps_trans [OF keeps_trans [of L "ram s" "ram s3" "ram s5"]]) (use inode(5) read(4) freed(3) in auto)
      moreover have "kept_sp s s6" by (rule kept_sp_trans [OF kept_sp_trans [OF inode(4) kept_sp_of [OF read(2)]] kept_sp_of [OF freed(2)]])
      moreover have "strtok_sp s6 = 0" by (rule kept_hw [OF freed(2) kept_hw [OF read(2) inode(6)]])
      ultimately show ?case using P [OF freed(1) inode(3)] by simp
    qed
  qed
qed

text \<open>
  Blocks 12 and up: the number of the block is taken from the indirect block at the index \<open>t\<close> that a variable
  without a value gives, the same one for every \<open>j\<close>.
\<close>

definition far_block :: "geo \<Rightarrow> mem \<Rightarrow> nat \<Rightarrow> nat \<Rightarrow> nat" where
  "far_block G D n t = ld32 D (g_bs G * ld32 D (inode_addr G D n + i_singly_block) + 4 * t)"

definition far_read :: "'a vfs_state_scheme contract \<Rightarrow> regions \<Rightarrow> nat \<Rightarrow> nat \<Rightarrow> nat \<Rightarrow> nat \<Rightarrow> geo \<Rightarrow> mem \<Rightarrow> nat \<Rightarrow> nat \<Rightarrow> nat \<Rightarrow>
    'a vfs_state_scheme \<Rightarrow> int \<times> 'a vfs_state_scheme \<Rightarrow> bool" where
  "far_read C L b k buf r G D n t j s = (\<lambda>(rc, s').
     (\<exists>X. lost (insert (b, k) L) X \<and> inv C s' (X \<union> insert (b, k) L) r) \<and> keeps L (ram s) (ram s') \<and> strtok_sp s' = 0 \<and>
     (if j < g_bs G div 4
      then rc = 0 \<and> (\<forall>x\<in>region (b, k). ram s' x =
        (if buf \<le> x \<and> x < buf + g_bs G then D (g_bs G * far_block G D n t + (x - buf)) else ram s x))
      else rc = - ENOSYS \<and> same_on (region (b, k)) (ram s) (ram s')))"

lemma runs_file_read_far:
  fixes s :: "'a vfs_state_scheme"
  assumes K: "kern_ok K C" and i: "inv C s (insert (b, k) L) (block_cost G str + (g_bs G + r))" and sb: "sep L b k"
    and o: "open_file K C L f fs G D str n s" and z: "strtok_sp s = 0" and j: "12 \<le> j"
    and bb: "b \<le> buf" "buf + g_bs G \<le> b + k" and t: "t = sub32 (k_indet K) 12"
    and near: "j < g_bs G div 4 \<Longrightarrow> t < g_bs G div 4 \<and> blk_ok G (ld32 D (inode_addr G D n + i_singly_block)) \<and> blk_ok G (far_block G D n t)"
  shows "runs (stuck C) (far_read C L b k buf r G D n t j s) (ext2_file_read_block K f buf j s)"
proof -
  let ?P = "far_read C L b k buf r G D n t j s"
  have "runs (stuck C) ?P (bindR (ext2_file_read_block K f buf j s) Inr)"
  proof (rule runs_file_inode [OF K i sb o z], goal_cases inode)
    case (inode ib s3 X)
    let ?L1 = "insert (b, k) L" and ?sing = "ld32 D (inode_addr G D n + i_singly_block)"
    let ?Lz = "insert (ib, 128) (X \<union> ?L1)" and ?Ly = "insert (ib, 128) (X \<union> L)"
    have j12: "\<not> j < 12" using j by simp
    have ibn: "(ib, 128) \<notin> X \<union> ?L1" by (rule sep_notin [OF inode(2)]) simp
    have sy: "sep ?Ly b k" using sb inode(2,3) by (auto simp: lost_def sep_def intro: apart_sym)
    have k3: "keeps L (ram s) (ram s3)" using inode(5) by (auto simp: keeps_def)
    show ?case
    proof (cases "j < g_bs G div 4")
      case False
      let ?s4 = "say ''File blocks >+%d arent supported'' [int (g_bs G div 4)] s3"
      have "lost ?L1 (insert (ib, 128) X)" using inode(2,3) by (auto simp: lost_def sep_def)
      moreover have "inv C ?s4 (insert (ib, 128) X \<union> ?L1) (g_bs G + r)"
        by (rule inv_write [OF K, of s3]) (use inode(1) in \<open>simp_all add: say_def same_on_refl insert_commute\<close>)
      then have "inv C ?s4 (insert (ib, 128) X \<union> ?L1) r" by (rule inv_less [OF K]) simp
      ultimately show ?thesis
        unfolding if_not_P [OF j12] if_not_P [OF False] far_read_def bindR_simps runs_simps case_prod_conv
        using inode(5,6) k3 by (auto simp: say_def keeps_def intro!: exI [of _ "insert (ib, 128) X"])
    next
      case True
      note ok = near [OF True]
      show ?thesis
        unfolding if_not_P [OF j12] if_P [OF True] bindR_assoc
      proof (rule runs_malloc [OF K inode(1)], goal_cases indirect)
        case (indirect b2 s4)
        have s2b: "sep ?Lz b2 (g_bs G)" by (rule fresh_sep [OF indirect(1)])
        have k4: "keeps ?L1 (ram s) (ram s4)" using inode(5) indirect(4) by (auto simp: keeps_def intro: same_on_trans)
        have o4: "open_file K C ?Lz f fs G D str n s4" by (rule open_file_keeps [OF o]) (use k4 in \<open>auto simp: keeps_def\<close>)
        have m4: "mounted C ?Lz fs G D s4" and ff: "field f f_fs s4 = fs" and g: "geo_ok G" using o4 by (simp_all add: open_file_def mounted_def)
        have "\<forall>y<128. ram s4 (ib + y) = D (inode_addr G D n + y)"
          using indirect(4) inode(7) by (auto simp: same_on_def region_def)
        then have sing: "field ib i_singly_block s4 = ?sing" using copied_ld32 [of 128 "ram s4" ib D] by (simp add: field_def)
        show ?case
          unfolding case_prod_conv ff sing bindR_assoc
        proof (rule runs_read_block [OF K indirect(2) s2b m4], goal_cases sing_ok lo hi one)
          case (one rc5 s5)
          have k5: "keeps ?L1 (ram s) (ram s5)" by (rule keeps_trans [OF k4]) (use one(4) in \<open>auto simp: keeps_def\<close>)
          let ?Lw = "insert (b2, g_bs G) ?Ly"
          have o5: "open_file K C ?Lw f fs G D str n s5" by (rule open_file_keeps [OF o]) (use k5 in \<open>auto simp: keeps_def\<close>)
          have m5: "mounted C ?Lw fs G D s5" and f5: "field f f_fs s5 = fs" using o5 by (simp_all add: open_file_def)
          have "Suc t \<le> g_bs G div 4" using ok by simp
          then have "4 * t + 4 \<le> g_bs G" by (simp add: less_eq_div_iff_mult_less_eq)
          moreover have "b2 + g_bs G < 2147483648" using indirect(1) by (simp add: fresh_def)
          ultimately have num: "ld32 (ram s5) (add32 b2 (mul32 4 (sub32 (k_indet K) 12))) = far_block G D n t"
            using filled_ld32 [OF one(3), of "4 * t"] by (simp add: arith32 flip: t) (simp add: far_block_def)
          have L5: "insert (b2, g_bs G) ?Lz = insert (b, k) ?Lw" by auto
          have s5: "sep ?Lw b k" using sy s2b by (auto simp: sep_def intro: apart_sym)
          show ?case
            unfolding case_prod_conv f5 num bindR_assoc
          proof (rule runs_read_block [OF K one(1) [unfolded L5] s5 m5 _ bb], goal_cases far_ok two)
            case (two rc6 s6)
            have b2n: "(b2, g_bs G) \<notin> ?Lz" by (rule sep_notin [OF s2b]) (use geo_bs [OF g] in simp)
            show ?case
              unfolding case_prod_conv bindR_assoc
            proof (rule runs_free [OF K two(1) [folded L5] b2n], goal_cases freed)
              case (freed s7)
              show ?case
                unfolding bindR_assoc
              proof (rule runs_free [OF K freed(1) ibn], goal_cases freed')
                case (freed' s8)
                have k8: "keeps ?L1 (ram s6) (ram s8)" by (rule keeps_trans [of _ _ "ram s7"]) (use freed(3) freed'(3) in \<open>auto simp: keeps_def\<close>)
                have "keeps L (ram s) (ram s8)"
                  by (rule keeps_trans [OF keeps_trans [of L _ "ram s5" "ram s6"]]) (use k5 two(4) k8 in \<open>auto simp: keeps_def\<close>)
                moreover have "strtok_sp s8 = 0"
                  by (rule kept_hw [OF freed'(2) kept_hw [OF freed(2) kept_hw [OF two(2) kept_hw [OF one(2) kept_hw [OF indirect(3) inode(6)]]]]])
                moreover have "\<forall>x\<in>region (b, k). ram s8 x =
                    (if buf \<le> x \<and> x < buf + g_bs G then D (g_bs G * far_block G D n t + (x - buf)) else ram s x)"
                  using two(3) k5 k8 by (auto simp: filled_def keeps_def same_on_def)
                ultimately show ?case
                  using freed'(1) inode(3) True by (auto simp: far_read_def)
              qed
            qed
          qed (use ok in simp)
        qed (use ok in simp_all)
      qed
    qed
  qed
  then show ?thesis by simp
qed

section \<open>Many blocks\<close>

text \<open>The first \<open>i\<close> blocks of the buffer at \<open>b\<close> hold the blocks of the file from \<open>c\<close> on.\<close>

definition have_blocks :: "geo \<Rightarrow> mem \<Rightarrow> nat \<Rightarrow> nat \<Rightarrow> nat \<Rightarrow> nat \<Rightarrow> mem \<Rightarrow> bool" where
  "have_blocks G D n b c i m \<longleftrightarrow> (\<forall>t<i. \<forall>y<g_bs G. m (b + t * g_bs G + y) = D (g_bs G * file_blk G D n (c + t) + y))"

lemma have_blocks_step:
  assumes "have_blocks G D n b c i m" "block_at G D n b k (b + i * g_bs G) (c + i) m m'" "b + Suc i * g_bs G \<le> b + k"
  shows "have_blocks G D n b c (Suc i) m'"
  unfolding have_blocks_def
proof (intro allI impI)
  fix t y assume t: "t < Suc i" and y: "y < g_bs G"
  have "(t + 1) * g_bs G \<le> Suc i * g_bs G" using t by (intro mult_le_mono1) simp
  then have le: "t * g_bs G + g_bs G \<le> Suc i * g_bs G" by simp
  then have r: "b + t * g_bs G + y \<in> region (b, k)"
    using y assms(3) unfolding region_def fst_conv snd_conv atLeastLessThan_iff by linarith
  show "m' (b + t * g_bs G + y) = D (g_bs G * file_blk G D n (c + t) + y)"
  proof (cases "t = i")
    case True
    then show ?thesis using assms(2) r y by (simp add: block_at_def)
  next
    case False
    then have "(t + 1) * g_bs G \<le> i * g_bs G" using t by (intro mult_le_mono1) simp
    then have "b + t * g_bs G + y < b + i * g_bs G" using y by simp
    then show ?thesis using assms(1,2) r y t False by (auto simp: block_at_def have_blocks_def)
  qed
qed

lemma runs_read_blocks:
  fixes s :: "'a vfs_state_scheme"
  assumes K: "kern_ok K C" and "inv C s (insert (b, k) L) (m * block_cost G str + r)" "sep L b k" "open_file K C L f fs G D str n s"
    "strtok_sp s = 0" "\<forall>j\<in>{c + i<..c + i + m}. file_blk_ok G D n j" "have_blocks G D n b c (Suc i) (ram s)" "(Suc i + m) * g_bs G \<le> k"
    "b + k < 2147483648" "c + i + m < 2147483648"
    and "\<And>s' X. inv C s' (X \<union> insert (b, k) L) r \<Longrightarrow> lost (insert (b, k) L) X \<Longrightarrow> kept_sp s s' \<Longrightarrow> keeps L (ram s) (ram s') \<Longrightarrow>
      strtok_sp s' = 0 \<Longrightarrow> have_blocks G D n b c (Suc i + m) (ram s') \<Longrightarrow> runs (stuck C) P (g s')"
  shows "runs (stuck C) P (bindR (read_blocks K f b (g_bs G) c i m s) g)"
  using assms(2-)
proof (induction m arbitrary: s L i)
  case 0
  have "kept_sp s s" by (simp add: kept_sp_def)
  then show ?case using "0.prems"(10) [of s "{}"] "0.prems" by simp
next
  case (Suc m)
  note o = Suc.prems(3) and sb = Suc.prems(2)
  have g: "geo_ok G" using o by (simp add: open_file_def mounted_def)
  have le: "Suc i * g_bs G + g_bs G \<le> k"
  proof -
    have "(Suc i + 1) * g_bs G \<le> (Suc i + Suc m) * g_bs G" by (intro mult_le_mono1) simp
    also have "\<dots> \<le> k" by (rule Suc.prems(7))
    finally show ?thesis by (simp add: algebra_simps)
  qed
  then have "mul32 (i + 1) (g_bs G) = Suc i * g_bs G" using Suc.prems(8) mul32_small [of "i + 1" "g_bs G"] by simp
  moreover have "add32 b (Suc i * g_bs G) = b + Suc i * g_bs G" using le Suc.prems(8) by (intro add32_small) linarith
  ultimately have buf: "add32 b (mul32 (i + 1) (g_bs G)) = b + Suc i * g_bs G" by simp
  have blk: "add32 (add32 c i) 1 = c + Suc i" using Suc.prems(9) by (simp add: add32_small)
  have i1: "inv C s (insert (b, k) L) (block_cost G str + (m * block_cost G str + r))" using Suc.prems(1) by (simp add: add.assoc)
  have ok: "file_blk_ok G D n (c + Suc i)" using Suc.prems(5) by simp
  show ?case
    unfolding read_blocks.simps buf blk bindR_assoc
  proof (rule runs_file_read_block [OF K i1 sb o Suc.prems(4) ok], goal_cases low high read)
    case high
    then show ?case using le by simp
  next
    case (read s1 X)
    let ?L = "X \<union> L"
    have i2: "inv C s1 (insert (b, k) ?L) (m * block_cost G str + r)" using read(1) by simp
    have sb2: "sep ?L b k" using sb read(2) by (auto simp: lost_def sep_def intro: apart_sym)
    have o2: "open_file K C ?L f fs G D str n s1" by (rule open_file_keeps [OF o read(4)]) simp
    have hb: "have_blocks G D n b c (Suc (Suc i)) (ram s1)"
      by (rule have_blocks_step [OF Suc.prems(6) read(6)]) (use le in simp)
    show ?case
      unfolding case_prod_conv
    proof (rule Suc.IH [OF i2 sb2 o2 read(5) _ hb], goal_cases blks size bound count post)
      case (post s2 Y)
      have 1: "inv C s2 ((Y \<union> X) \<union> insert (b, k) L) r" using post(1) by (simp add: Un_assoc)
      have 2: "lost (insert (b, k) L) (Y \<union> X)" using read(2) lost_sub [OF post(2)] by (intro lost_Un) auto
      have 3: "keeps L (ram s) (ram s2)" by (rule keeps_trans [OF read(4)]) (use post(4) in simp)
      show ?case
        using Suc.prems(10) [OF 1 2 kept_sp_trans [OF read(3) post(3)] 3 post(5)] post(6) by simp
    qed (use Suc.prems(5,7,8,9) in \<open>auto simp: algebra_simps\<close>)
  qed simp
qed

text \<open>The last copy, and the bytes that it delivers.\<close>

lemma have_blocks_bytes:
  assumes "have_blocks G D n b (pos div g_bs G) N m" "pos mod g_bs G + count \<le> N * g_bs G" "i < count" "0 < g_bs G"
  shows "m (b + (pos mod g_bs G + i)) = file_byte G D n (pos + i)"
proof -
  define bs where "bs = g_bs G"
  define x where "x = pos mod bs + i"
  have "x < N * bs" using assms(2,3) by (simp add: x_def bs_def)
  then have t: "x div bs < N" using assms(4) by (simp add: bs_def div_less_iff_less_mult)
  have p: "pos + i = pos div bs * bs + x" by (simp add: x_def)
  have d: "(pos + i) div bs = pos div bs + x div bs" "(pos + i) mod bs = x mod bs"
    using assms(4) unfolding p by (simp_all add: bs_def)
  have "m (b + x div bs * bs + x mod bs) = D (bs * file_blk G D n (pos div bs + x div bs) + x mod bs)"
    using assms(1) [unfolded have_blocks_def, folded bs_def, rule_format, OF t, of "x mod bs"] assms(4) by (simp add: bs_def)
  moreover have "b + x div bs * bs + x mod bs = b + x" by simp
  ultimately show ?thesis by (simp only: file_byte_def bs_def [symmetric] d x_def [symmetric])
qed

lemma sdiv_nat: "int a sdiv int b = int (a div b)"
  by (cases "a = 0"; cases "b = 0") (simp_all add: signed_divide_int_def zdiv_int)

section \<open>Reading\<close>

text \<open>The blocks that a read of \<open>count\<close> bytes fetches, and the memory it takes.\<close>

definition read_span :: "geo \<Rightarrow> nat \<Rightarrow> nat" where
  "read_span G count = Suc (count div g_bs G)"

definition read_cost :: "geo \<Rightarrow> u8 list \<Rightarrow> nat \<Rightarrow> nat" where
  "read_cost G str count = find_cost G str + (g_bs G * read_span G count + read_span G count * block_cost G str)"

definition delivered :: "'a vfs_state_scheme contract \<Rightarrow> regions \<Rightarrow> nat \<Rightarrow> nat \<Rightarrow> nat \<Rightarrow> nat \<Rightarrow> geo \<Rightarrow> mem \<Rightarrow> nat \<Rightarrow> nat \<Rightarrow>
    'a vfs_state_scheme \<Rightarrow> int \<times> 'a vfs_state_scheme \<Rightarrow> bool" where
  "delivered C L f buf count r G D n pos s = (\<lambda>(rc, s'). rc = int count \<and>
     (\<forall>i<count. ram s' (buf + i) = file_byte G D n (pos + i)) \<and> field f f_pos s' = pos + count \<and> strtok_sp s' = 0 \<and> kept_sp s s' \<and>
     (\<exists>X. lost L X \<and> inv C s' (X \<union> L) r) \<and>
     (\<forall>x\<in>\<Union>r\<in>L. region r. x \<notin> {buf..<buf + count} \<longrightarrow> x \<notin> {f + f_pos..<f + f_pos + 4} \<longrightarrow> ram s' x = ram s x))"

lemma runs_deliver:
  fixes s :: "'a vfs_state_scheme"
  assumes K: "kern_ok K C" and i: "inv C s (insert (b, k) L) r" and sb: "sep L b k" and f: "(f, sizeof_filesystem) \<in> L"
    and u: "(ub, uk) \<in> L" "ub \<le> buf" "buf + count \<le> ub + uk" "apart buf count f sizeof_file"
    and hb: "have_blocks G D n b (pos div g_bs G) (read_span G count) (ram s)" and fit: "pos mod g_bs G + count \<le> read_span G count * g_bs G"
    and k: "k = g_bs G * read_span G count" "b + k < 2147483648" and pos: "field f f_pos s = pos" "pos + count < 2147483648"
    and bs: "0 < g_bs G" "0 < k" and z: "strtok_sp s = 0"
    and same: "\<forall>x\<in>\<Union>r\<in>L. region r. ram s x = ram s0 x" and kp: "kept_sp s0 s" and X: "lost L0 X" "L = X \<union> L0"
    and u0: "(ub, uk) \<in> L0" "(f, sizeof_filesystem) \<in> L0"
  shows "runs (stuck C) (delivered C L0 f buf count r G D n pos s0)
    (let off = sub32 (field f f_pos s) (mul32 (pos div g_bs G) (g_bs G));
         st5 = s\<lparr>ram := memcpy buf (add32 b off) count (ram s)\<rparr>;
         st6 = set_field f f_pos (add32 (field f f_pos st5) count) st5
     in bindR (k_free K b st6) (\<lambda>st7. Inr (sint32 count, st7)))"
proof -
  have "pos div g_bs G * g_bs G \<le> pos" using div_times_less_eq_dividend by blast
  then have "mul32 (pos div g_bs G) (g_bs G) = pos div g_bs G * g_bs G" using pos by (intro mul32_small) linarith
  moreover have "pos - pos div g_bs G * g_bs G = pos mod g_bs G" by (simp add: minus_div_mult_eq_mod)
  moreover have "sub32 pos (pos div g_bs G * g_bs G) = pos - pos div g_bs G * g_bs G"
    using \<open>pos div g_bs G * g_bs G \<le> pos\<close> pos(2) by (intro sub32_small) simp_all
  ultimately have off: "sub32 (field f f_pos s) (mul32 (pos div g_bs G) (g_bs G)) = pos mod g_bs G" using pos(1) by simp
  have fit': "pos mod g_bs G + count \<le> k" using fit k(1) by (simp add: mult.commute)
  have src: "add32 b (pos mod g_bs G) = b + pos mod g_bs G" using fit' k(2) by (intro add32_small) linarith
  have ap: "apart b k ub uk" using sb u(1) by (auto simp: sep_def)
  define m where "m = memcpy buf (b + pos mod g_bs G) count (ram s)"
  have dis: "buf \<le> b + pos mod g_bs G \<or> b + pos mod g_bs G + count \<le> buf"
    using ap(1) u(2,3) fit' by (auto simp: apart_def)
  have mv: "m x = (if buf \<le> x \<and> x < buf + count then file_byte G D n (pos + (x - buf)) else ram s x)" for x
    unfolding m_def memcpy_apply [OF dis]
    using have_blocks_bytes [OF hb fit _ bs(1), of "x - buf"] by (auto simp: add.assoc)
  have "same_on {f + 16..<f + 16 + 4} (ram s) m" using u(4) by (auto simp: same_on_def mv apart_def)
  then have fp: "field f f_pos (s\<lparr>ram := m\<rparr>) = pos" using pos(1) ld32_frame by (simp add: field_def)
  have np: "add32 pos count = pos + count" using pos(2) by (simp add: add32_small)
  define s6 where "s6 = set_field f f_pos (pos + count) (s\<lparr>ram := m\<rparr>)"
  have r6: "ram s6 = st32 m (f + 16) (pos + count)" by (simp add: s6_def set_field_def)
  have out6: "ram s6 x = m x" if "x \<notin> {f + f_pos..<f + f_pos + 4}" for x
    using that unfolding r6 by (intro st32_other) auto
  have i6: "inv C s6 (insert (b, k) L) r"
  proof (rule inv_write [OF K i])
    show "same_on (- (\<Union>r\<in>insert (b, k) L. region r)) (ram s) (ram s6)"
      unfolding same_on_def
    proof (rule ballI)
      fix x assume x: "x \<in> - (\<Union>r\<in>insert (b, k) L. region r)"
      then have "x \<notin> region (ub, uk)" "x \<notin> region (f, sizeof_filesystem)" using u(1) f by auto
      then show "ram s6 x = ram s x" using out6 [of x] mv [of x] u(2,3) by (auto simp: region_def)
    qed
  qed (simp_all add: s6_def set_field_def)
  have z6: "strtok_sp s6 = 0" using z by (simp add: s6_def set_field_def)
  have nb: "(b, k) \<notin> L" by (rule sep_notin [OF sb bs(2)])
  have c: "sint32 count = int count" using pos(2) by (simp add: sint32_def)
  have "runs (stuck C) (delivered C L0 f buf count r G D n pos s0) (bindR (k_free K b s6) (\<lambda>st7. Inr (sint32 count, st7)))"
  proof (rule runs_free [OF K i6 nb], goal_cases freed)
    case (freed s7)
    have L: "keeps L0 (ram s6) (ram s7)" using freed(3) X(2) by simp
    have same7: "ram s7 x = ram s6 x" if "x \<in> region q" "q \<in> L0" for x q
      using L that by (auto simp: keeps_def same_on_def)
    have b7: "ram s7 (buf + i) = file_byte G D n (pos + i)" if "i < count" for i
    proof -
      have "buf + i \<in> region (ub, uk)" "buf + i \<notin> {f + f_pos..<f + f_pos + 4}"
        using that u(2,3,4) by (auto simp: region_def apart_def)
      then show ?thesis using same7 u0(1) out6 mv that by simp
    qed
    have p7: "field f f_pos s7 = pos + count"
    proof -
      have "field f f_pos s7 = field f f_pos s6" by (rule field_keeps [OF L u0(2)]) simp
      then show ?thesis using pos(2) by (simp add: field_def r6 mem_simps)
    qed
    have o7: "ram s7 x = ram s0 x" if "x \<in> region q" "q \<in> L0" "x \<notin> {buf..<buf + count}" "x \<notin> {f + f_pos..<f + f_pos + 4}" for x q
      using same7 [OF that(1,2)] out6 [OF that(4)] mv [of x] that same X(2) by auto
    have "strtok_sp s7 = 0" using kept_sel(1) [OF freed(2)] z6 by simp
    moreover have "\<exists>X. lost L0 X \<and> inv C s7 (X \<union> L0) r" using freed(1) X by blast
    moreover have "kept_sp s0 s7"
      by (rule kept_sp_trans [OF kept_sp_trans [OF kp, of s6] kept_sp_of [OF freed(2)]])
        (simp add: s6_def set_field_def kept_sp_of [OF kept_ram])
    ultimately show ?case using b7 p7 o7 c unfolding delivered_def by auto
  qed
  then show ?thesis
    unfolding Let_def off src m_def [symmetric] fp np s6_def [symmetric] .
qed

text \<open>
  \<open>ext2_read_file\<close> delivers the bytes of the file from its position on, as the inode's twelve direct
  blocks give them, moves the position behind them and changes no other memory in use. This is so
  if the bytes lie in the \<open>count / blocksize + 1\<close> blocks from the one that holds the position: the code
  fetches no more. Every call loses the copies of the path and the inode buffers of its lookups.
\<close>

lemma runs_read_file:
  fixes s :: "'a vfs_state_scheme"
  assumes K: "kern_ok K C" and i: "inv C s L (read_cost G str count + r)" and o: "open_file K C L f fs G D str n s" and z: "strtok_sp s = 0"
    and nz: "0 < count" "f \<noteq> 0" "buf \<noteq> 0" and pos: "field f f_pos s = pos" "pos + count < 2147483648"
    and u: "(ub, uk) \<in> L" "ub \<le> buf" "buf + count \<le> ub + uk" "apart buf count f sizeof_file"
    and blks: "\<forall>j\<in>{pos div g_bs G..pos div g_bs G + count div g_bs G}. file_blk_ok G D n j"
    and fit: "pos mod g_bs G + count \<le> read_span G count * g_bs G"
  shows "runs (stuck C) (delivered C L f buf count r G D n pos s) (ext2_read_file K f buf count s)"
proof -
  define bs where "bs = g_bs G"
  have fs: "field f f_fs s = fs" and fL: "(f, sizeof_filesystem) \<in> L" and g: "geo_ok G" using o by (simp_all add: open_file_def mounted_def)
  have bs: "0 < bs" "bs \<le> 65536" using g by (simp_all add: geo_ok_def bs_def)
  have cb: "count div bs * bs \<le> count" "count div bs \<le> count" "pos div bs \<le> pos" by simp_all
  have cbW: "count div bs < 2147483648" "pos div bs < 2147483648" "count < 2147483648" "pos div bs + count div bs < 2147483648"
    using cb(2,3) pos(2) by linarith+
  have cond: "\<not> (f = 0 \<or> buf = 0)" "count \<noteq> 0" using nz by simp_all
  have i1: "inv C s L (find_cost G str + (bs * read_span G count + (read_span G count * block_cost G str + r)))"
    using i by (simp add: read_cost_def bs_def add.assoc)
  show ?thesis
    unfolding ext2_read_file_def if_not_P [OF cond(1)] if_not_P [OF cond(2)] fs
  proof (rule runs_find_open [OF K i1 o z], goal_cases look)
    case (look s1 X)
    have o1: "open_file K C (X \<union> L) f fs G D str n s1" by (rule open_file_keeps [OF o look(4)]) simp
    have fs1: "field f f_fs s1 = fs" "priv_field fs p_blocksize s1 = bs" using o1 by (simp_all add: open_file_def mounted_def bs_def)
    have p1: "field f f_pos s1 = pos" using field_keeps [OF look(4) fL] pos(1) by simp
    have "sint32 pos = int pos" "sint32 bs = int bs" "sint32 (count div bs) = int (count div bs)"
      using pos(2) bs(2) cbW by (simp_all add: sint32_def)
    then have c: "nat ((sint32 pos sdiv sint32 bs) mod int W32) = pos div bs" "nat (sint32 (count div bs)) = count div bs"
      using cbW by (simp_all add: sdiv_nat)
    have a: "add32 (count div bs) 1 = read_span G count" using cbW by (simp add: add32_small read_span_def bs_def)
    have "bs * read_span G count \<le> count + bs" using cb(1) unfolding read_span_def bs_def [symmetric] by (simp add: mult.commute)
    then have m: "mul32 bs (read_span G count) = bs * read_span G count" using pos(2) bs(2) by (intro mul32_small) linarith
    have neg: "\<not> int n < 0" by simp
    have ud: "udiv count bs = Inr (count div bs)" using bs by simp
    show ?case
      unfolding case_prod_conv fs1 Let_def if_not_P [OF neg] ud bindR_simps p1 c a m
    proof (rule runs_malloc [OF K look(1)], goal_cases buffer)
      case (buffer b s2)
      let ?k = "bs * read_span G count"
      have bk: "b + ?k < 2147483648" "b \<noteq> 0" using buffer(1) by (simp_all add: fresh_def)
      have sb: "sep (X \<union> L) b ?k" by (rule fresh_sep [OF buffer(1)])
      have i2: "inv C s2 (insert (b, ?k) (X \<union> L)) (block_cost G str + (count div bs * block_cost G str + r))"
        using buffer(2) by (simp add: read_span_def bs_def add.assoc)
      have o2: "open_file K C (X \<union> L) f fs G D str n s2" by (rule open_file_keeps [OF o1 buffer(4)]) simp
      have z2: "strtok_sp s2 = 0" by (rule kept_hw [OF buffer(3) look(5)])
      have first: "file_blk_ok G D n (pos div bs)" using blks by (simp add: bs_def)
      have big: "b + g_bs G \<le> b + ?k" using bs(1) by (simp add: read_span_def bs_def)
      show ?case
        unfolding case_prod_conv if_not_P [OF bk(2)]
      proof (rule runs_file_read_block [OF K i2 sb o2 z2 first order_refl big], goal_cases block)
        case (block s3 Y)
        let ?L3 = "Y \<union> (X \<union> L)"
        have i3: "inv C s3 (insert (b, ?k) ?L3) (count div bs * block_cost G str + r)" using block(1) by simp
        have sb3: "sep ?L3 b ?k" using sb block(2) by (auto simp: lost_def sep_def intro: apart_sym)
        have o3: "open_file K C ?L3 f fs G D str n s3" by (rule open_file_keeps [OF o2 block(4)]) simp
        have hb: "have_blocks G D n b (pos div bs) (Suc 0) (ram s3)"
          by (rule have_blocks_step [where k = ?k and i = 0]) (use block(6) big in \<open>simp_all add: have_blocks_def\<close>)
        show ?case
          unfolding case_prod_conv bs_def
        proof (rule runs_read_blocks [OF K i3 [unfolded bs_def] sb3 [unfolded bs_def] o3 block(5) _ hb [unfolded bs_def]], goal_cases blks size bound count rest)
          case (rest s4 Z)
          let ?L4 = "Z \<union> ?L3"
          have i4: "inv C s4 (insert (b, ?k) ?L4) r" using rest(1) by (simp add: bs_def)
          have sb4: "sep ?L4 b ?k" using sb3 rest(2) by (auto simp: lost_def sep_def bs_def intro: apart_sym)
          have L4: "?L4 = (Z \<union> Y \<union> X) \<union> L" by auto
          have lost4: "lost L (Z \<union> Y \<union> X)"
            by (intro lost_Un lost_sub [OF look(2)] lost_sub [OF block(2)] lost_sub [OF rest(2)]) auto
          have ks4: "keeps L (ram s) (ram s4)"
            by (rule keeps_trans [OF keeps_trans [OF keeps_trans [OF look(4), of "ram s2"], of "ram s3"]])
              (use buffer(4) block(4) rest(4) in simp_all)
          have same: "\<forall>x\<in>\<Union>r\<in>?L4. region r. ram s4 x = ram s4 x" by simp
          have p4: "field f f_pos s4 = pos" using field_keeps [OF ks4 fL] pos(1) by simp
          have hb4: "have_blocks G D n b (pos div g_bs G) (read_span G count) (ram s4)"
            using rest(6) by (simp add: read_span_def bs_def)
          have fL4: "(f, sizeof_filesystem) \<in> ?L4" "(ub, uk) \<in> ?L4" using fL u(1) by auto
          have k0: "0 < ?k" using bs(1) by (simp add: read_span_def)
          have "runs (stuck C) (delivered C L f buf count r G D n pos s4)
              (let off = sub32 (field f f_pos s4) (mul32 (pos div g_bs G) (g_bs G));
                   st5 = s4\<lparr>ram := memcpy buf (add32 b off) count (ram s4)\<rparr>;
                   st6 = set_field f f_pos (add32 (field f f_pos st5) count) st5
               in bindR (k_free K b st6) (\<lambda>st7. Inr (sint32 count, st7)))"
            by (rule runs_deliver [OF K i4 sb4 fL4(1) fL4(2) u(2,3,4) hb4 fit _ bk(1) p4 pos(2) bs(1) [unfolded bs_def] k0 rest(5) same kept_sp_of [OF kept_refl] lost4 L4 u(1) fL])
              (simp add: bs_def)
          then have "runs (stuck C) (delivered C L f buf count r G D n pos s)
              (let off = sub32 (field f f_pos s4) (mul32 (pos div g_bs G) (g_bs G));
                   st5 = s4\<lparr>ram := memcpy buf (add32 b off) count (ram s4)\<rparr>;
                   st6 = set_field f f_pos (add32 (field f f_pos st5) count) st5
               in bindR (k_free K b st6) (\<lambda>st7. Inr (sint32 count, st7)))"
          proof (rule runs_mono)
            fix x assume "delivered C L f buf count r G D n pos s4 x"
            moreover have "\<forall>x\<in>\<Union>r\<in>L. region r. ram s4 x = ram s x" using ks4 by (auto simp: keeps_def same_on_def)
            moreover have "kept_sp s s4"
              by (rule kept_sp_trans [OF kept_sp_trans [OF kept_sp_trans [OF look(3) kept_sp_of [OF buffer(3)]] block(3)] rest(3)])
            ultimately show "delivered C L f buf count r G D n pos s x"
              unfolding delivered_def by (auto split: prod.splits intro: kept_sp_trans)
          qed
          then show ?case unfolding Let_def .
        qed (use blks cbW bk in \<open>auto simp: bs_def read_span_def mult.commute\<close>)
      qed
    qed
  qed
qed

end
