(* ===== verification/Ext2Props.thy ===== *)
theory Ext2Props
  imports Ata Ext2File SchedProps
begin

text \<open>
  What fs/ext2 promises, with a small kernel to try it on: an allocator that only hands out new memory, and
  the ATA driver on a drive with a small file system.
\<close>

section \<open>A small kernel\<close>

record small_state = vfs_state +
  brk :: nat

definition small_malloc :: "nat \<Rightarrow> small_state \<Rightarrow> (nat \<times> small_state) outcome" where
  "small_malloc n s = (if brk s + n < 2147483648 then Inr (brk s, s\<lparr>brk := brk s + n\<rparr>) else Inl Hang)"

fun small_sym :: "symbol \<Rightarrow> nat" where
  "small_sym Slash = 0x100"
| "small_sym Sda = 0x110"
| "small_sym Ext2_fs = 0x120"
| "small_sym Ext2_fops = 0x140"
| "small_sym Ext2_read_file = 0x210"
| "small_sym Ext2_write_file = 0x220"
| "small_sym Ext2_open = 0x230"
| "small_sym Ext2_stat = 0x240"
| "small_sym Ext2_mount = 0x250"
| "small_sym Devfs = 0x160"
| "small_sym Devfs_open = 0x260"
| "small_sym Devfs_mount = 0x270"
| "small_sym Ata_read = 0x280"
| "small_sym Ata_write = 0x290"
| "small_sym Ata_sync = 0x2A0"
| "small_sym Console_file = 0x180"
| "small_sym Console_write = 0x2B0"
| "small_sym Pit_irq = 0x2C0"
| "small_sym Ide_irq = 0x2D0"
| "small_sym Kbd_irq = 0x2E0"
| "small_sym Syscall_hub = 0x2F0"
| "small_sym Idt_noop = 0x300"
| "small_sym Post_schedule = 0x310"

definition small_kern :: "small_state kern" where
  "small_kern = \<lparr>k_malloc = small_malloc, k_free = (\<lambda>p s. Inr s), k_read = ata_read, k_sym = small_sym, k_indet = 12\<rparr>"

abbreviation (input) small_dev :: nat where "small_dev \<equiv> 0x1C00"

definition small_contract :: "mem \<Rightarrow> small_state contract" where
  "small_contract D = \<lparr>inv = (\<lambda>s L r. 0 < brk s \<and> brk s + r < 2147483648 \<and> (\<forall>(q, k)\<in>L. q + k \<le> brk s) \<and> hw s = drive D),
     stuck = (\<lambda>_. False), disk = (\<lambda>d. if d = small_dev then Some D else None)\<rparr>"

lemma small_stuck [simp]: "stuck (small_contract D) = (\<lambda>_. False)"
  by (simp add: small_contract_def)

lemma small_kern_ok: "kern_ok small_kern (small_contract D)"
proof -
  have "malloc_ok small_kern (small_contract D)"
    by (auto simp: malloc_ok_def small_kern_def small_contract_def small_malloc_def fresh_def apart_def kept_def vfs_state.defs)
  moreover have "free_ok small_kern (small_contract D)"
    by (auto simp: free_ok_def small_kern_def small_contract_def)
  moreover have "read_ok small_kern (small_contract D)"
    unfolding read_ok_def
  proof (intro allI impI)
    fix s :: small_state and L r d E b k and buf n pos :: nat
    assume i: "inv (small_contract D) s L r" and d: "disk (small_contract D) d = Some E" and le: "pos + n \<le> 268435456"
    have h: "serves (hw s) D" "E = D" using i d drive_serves by (auto simp: small_contract_def split: if_splits)
    obtain log where r: "ata_read_loop d buf pos 0 n s = Inr (s\<lparr>port_log := log, ram := overlay buf (512 * n) D (512 * (pos + 0)) (ram s)\<rparr>)"
      using ata_read_loop_data [OF h(1), of pos 0 n] le by auto
    show "runs (stuck (small_contract D)) (\<lambda>(rc, s'). inv (small_contract D) s' L r \<and> kept s s' \<and>
         (\<forall>x. ram s' x = (if buf \<le> x \<and> x < buf + 512 * n then E (512 * pos + (x - buf)) else ram s x)))
       (k_read small_kern d buf n pos s)"
      using i h(2) by (simp add: small_kern_def ata_read_def r small_contract_def overlay_def kept_def vfs_state.defs)
  qed
  moreover have "write_ok (small_contract D)"
    unfolding write_ok_def
  proof (intro allI impI)
    fix s s' :: small_state and L r r'
    assume "inv (small_contract D) s L r" "r' \<le> r" "vfs_state.more s' = vfs_state.more s" "hw s' = hw s"
    moreover from this(3) have "brk s' = brk s" by (cases s; cases s') simp
    ultimately show "inv (small_contract D) s' L r'" by (simp add: small_contract_def)
  qed
  ultimately show ?thesis by (simp add: kern_ok_def)
qed

text \<open>
  The drive: 1024-byte blocks; the descriptor table in block 2, the inodes in blocks 5 and 6; inode 2 is a directory whose
  only entry is ab, inode 3, a file with data in block 8 and an indirect block 9.
\<close>

definition small_disk :: mem where
  "small_disk = (\<lambda>_. 0)(1028 := 16, 1044 := 1, 1057 := 32, 1064 := 16, 1080 := 0x53, 1081 := 0xEF, 2056 := 5, 5288 := 7, 5416 := 8, 5464 := 9,
     7168 := 3, 7173 := 4, 7174 := 2, 7176 := 97, 7177 := 98, 8192 := 72, 8193 := 105, 9216 := 8)"

abbreviation (input) small_geo :: geo where "small_geo \<equiv> \<lparr>g_bs = 1024, g_ipg = 16, g_bgd = 2\<rparr>"

lemma small_inodes:
  "inode_addr small_geo small_disk 2 = 5248" "inode_addr small_geo small_disk 3 = 5376"
  "inode_ok small_geo small_disk 2" "inode_ok small_geo small_disk 3"
  by (simp_all add: inode_addr_def inode_ok_def inode_block_def blk_ok_def small_disk_def ld32_def ld8_def)

lemma small_dir_data: "dir_data small_geo small_disk 2 = 7 # 0 # replicate 10 0"
proof -
  have z: "replicate 10 (0 :: nat) = [0, 0, 0, 0, 0, 0, 0, 0, 0, 0]" by (simp add: numeral_eq_Suc)
  show ?thesis unfolding dir_data_def small_inodes z by (simp add: upt_rec small_disk_def ld32_def ld8_def)
qed

lemma small_loads [simp]:
  "ld32 small_disk 7168 = 3" "ld16 small_disk 7172 = 1024" "ld8 small_disk 7174 = 2" "bytes_at small_disk 7176 2 = [97, 98]"
  "ld16 small_disk 4 = 0" "ld8 small_disk 6 = 0" "bytes_at small_disk 8 0 = []"
  by (simp_all add: small_disk_def ld32_def ld16_def ld8_def bytes_at_def upt_rec)

lemma small_dir_entries: "dir_entries small_disk 1024 7168 0 = [(3, [97, 98])]" "dir_inside small_disk 1024 7168 0"
  "dir_inside small_disk 1024 0 0"
  by (simp_all add: dir_entries.simps [of small_disk 1024 7168 0] dir_entries.simps [of small_disk 1024 8192 1024]
      dir_inside.simps [of small_disk 1024 7168 0] dir_inside.simps [of small_disk 1024 8192 1024] dir_inside.simps [of small_disk 1024 0 0])

lemma small_dir_ok: "dir_ok small_geo small_disk 2"
  using small_dir_entries(2,3) by (simp add: dir_ok_def small_inodes small_dir_data dir_block_ok_def blk_ok_def)

lemma small_find: "dir_find small_geo small_disk 2 [97, 98] = 3" "dir_find small_geo small_disk 2 [97] = - ENOENT"
  "dir_find small_geo small_disk 2 [120] = - ENOENT"
  by (simp_all add: dir_find_def small_dir_data dir_block_empty_def small_dir_entries pick_def answers_def sint32_def)

text \<open>
  The memory: the mounted file system at 0x1000, its private data at 0x1100, an open file at 0x2000, whose path, at 0x2100, is
  /ab, and a buffer at 0x2200, with the string /x/ab at 0x2210.
\<close>

definition small_ram :: mem where
  "small_ram =
     st32 (st32 (st32 (st32 (st32 (st32 (st32 (st32 (st32 (st32 ((\<lambda>_. 0)(0x100 := 47, 0x2100 := 47, 0x2101 := 97, 0x2102 := 98,
         0x2210 := 47, 0x2211 := 120, 0x2212 := 47, 0x2213 := 97, 0x2214 := 98))
       0x1004 0x1100) 0x1008 small_dev) (0x1100 + 40) 16) (0x1100 + 1024) 2) (0x1100 + 1028) 1) (0x1100 + 1032) 1024)
       (0x1100 + 1036) 2) (0x1100 + 1040) 8) 0x2004 0x1000) 0x2008 0x2100"

definition small_start :: "mem \<Rightarrow> small_state" where
  "small_start m = vfs_state.extend (sched_state.extend (small_sched\<lparr>hw := drive small_disk, ram := m\<rparr>)
     (vfs_state.fields 0 (replicate 256 0) 0 0 (replicate 8 0) 0 0)) (small_state.fields 0x10000)"

lemma small_start_sel [simp]:
  "ram (small_start m) = m" "hw (small_start m) = drive small_disk" "strtok_sp (small_start m) = 0" "brk (small_start m) = 0x10000"
  "mounts (small_start m) = replicate 256 0" "nmounts (small_start m) = 0" "root_mount (small_start m) = 0"
  "filesystems (small_start m) = replicate 8 0" "nfilesystems (small_start m) = 0" "last_ext2 (small_start m) = 0"
  "threads (small_start m) = threads small_sched" "procs (small_start m) = procs small_sched" "current (small_start m) = 0x100"
  by (simp_all add: small_start_def vfs_state.extend_def sched_state.extend_def vfs_state.fields_def small_state.fields_def small_sched_sel)

definition small_regions :: regions where
  "small_regions = {(0x1000, 28), (0x1100, 1044), (0x100, 2), (0x2000, 28), (0x2100, 4), (0x2200, 64)}"

abbreviation (input) small_fs_state :: small_state where "small_fs_state \<equiv> small_start small_ram"

lemma small_fields:
  "ld32 small_ram 0x1004 = 0x1100" "ld32 small_ram 0x1008 = small_dev" "ld32 small_ram (0x1100 + 40) = 16" "ld32 small_ram (0x1100 + 1024) = 2"
  "ld32 small_ram (0x1100 + 1032) = 1024" "ld32 small_ram (0x1100 + 1036) = 2" "ld32 small_ram (0x1100 + 1040) = 8"
  "ld32 small_ram 0x2004 = 0x1000" "ld32 small_ram 0x2008 = 0x2100" "ld32 small_ram 0x2010 = 0"
  by (simp_all add: small_ram_def mem_simps) (simp_all add: ld32_def ld8_def)

lemma small_strings: "cstr small_ram 0x100 [47]" "cstr small_ram 0x2100 [47, 97, 98]" "cstr small_ram 0x2210 [47, 120, 47, 97, 98]"
  by (simp_all add: small_ram_def st32_other)

lemma small_mounted: "mounted (small_contract small_disk) small_regions 0x1000 small_geo small_disk small_fs_state"
  by (simp add: mounted_def EXT2_PRIV_def priv_field_def field_def small_fields [simplified] geo_ok_def small_regions_def small_contract_def)

lemma small_inv: "r < 0x70000000 \<Longrightarrow> inv (small_contract small_disk) small_fs_state small_regions r"
  by (simp add: small_contract_def small_regions_def)

lemma small_slash: "slash_ok small_kern small_regions (ram small_fs_state)"
  using small_strings(1) by (simp add: slash_ok_def small_kern_def small_regions_def)

lemma small_tokens: "tokens [47] [47, 97, 98 :: u8] = [[97, 98]]"
  by (simp add: tokens.simps)

lemma small_path: "path_ok small_geo small_disk 2 [[97, 98]]" "path_walk small_geo small_disk 2 [[97, 98]] = 3"
  by (simp_all add: small_dir_ok small_find)

section \<open>Lookup\<close>

text \<open>
  C7. Looking up a path walks its components, the maximal runs without a slash, from the root inode 2 through
  the directories on the disk, and leaves the memory in use alone; this is so if the cursor of
  \<open>strtok\<close> is clear at the start. It loses the copy of the path and one inode buffer for each directory. A
  directory entry answers to every name that it is a prefix of.
\<close>

theorem ext2_find_file_inode_walks:
  assumes "kern_ok K C" "inv C s L (Suc (length str) + (length (tokens [47] str) * dir_cost G + r))" "mounted C L fs G D s" "slash_ok K L (ram s)"
    "cstr (ram s) path str" "(q, k) \<in> L" "q \<le> path" "path + length str < q + k" "length str < 2147483647"
    "path_ok G D 2 (tokens [47] str)" "strtok_sp s = 0"
  shows "runs (stuck C) (\<lambda>(ino, s'). \<exists>fn. sep L fn (Suc (length str)) \<and>
    walked C L fn (Suc (length str)) r G D 2 (tokens [47] str) s (ino, s')) (ext2_find_file_inode K fs path s)"
  by (rule runs_find_file [OF assms])

theorem ext2_find_file_inode_walks_witness:
  "\<exists>s'. ext2_find_file_inode small_kern 0x1000 0x2100 small_fs_state = Inr (3, s') \<and> strtok_sp s' = 0 \<and>
     keeps small_regions small_ram (ram s')"
proof -
  have "runs (stuck (small_contract small_disk)) (\<lambda>(ino, s'). \<exists>fn. sep small_regions fn (Suc (length [47, 97, 98 :: u8])) \<and>
      walked (small_contract small_disk) small_regions fn (Suc (length [47, 97, 98 :: u8])) 0 small_geo small_disk 2 (tokens [47] [47, 97, 98]) small_fs_state (ino, s'))
      (ext2_find_file_inode small_kern 0x1000 0x2100 small_fs_state)"
  proof (rule ext2_find_file_inode_walks [OF small_kern_ok small_inv small_mounted small_slash, where q = "0x2100" and k = 4])
    show "cstr (ram small_fs_state) 0x2100 [47, 97, 98]" using small_strings(2) by simp
  qed (simp_all only: small_tokens small_path, simp_all add: dir_cost_def small_regions_def)
  then obtain rc s' fn where e: "ext2_find_file_inode small_kern 0x1000 0x2100 small_fs_state = Inr (rc, s')"
    and w: "walked (small_contract small_disk) small_regions fn (Suc (length [47, 97, 98 :: u8])) 0 small_geo small_disk 2 [[97, 98]] small_fs_state (rc, s')"
    unfolding small_stuck small_tokens runs_total by blast
  then have "rc = 3" "strtok_sp s' = 0" "keeps small_regions small_ram (ram s')"
    unfolding walked_def small_path by auto
  then show ?thesis using e by blast
qed

text \<open>
  C38. After a lookup that failed the next one ignores its own path: two calls in a row, the first of a path with a component
  that does not exist, give first -ENOENT and then what the components behind the missing one name from the root on, whatever
  the second path is (the root directory itself if there are none left). The first call leaves the cursor of \<open>strtok\<close> in the
  copy of its path, where the second goes on.
\<close>

theorem ext2_find_file_inode_stale:
  fixes s :: "'a vfs_state_scheme"
  assumes "kern_ok K C" "mounted C L fs G D s" "slash_ok K L (ram s)" "strtok_sp s = 0"
    "inv C s L (Suc (length str) + (length (tokens [47] str) * dir_cost G +
      (Suc (length str') + (length (missed G D 2 (tokens [47] str)) * dir_cost G + r))))"
    "cstr (ram s) path str" "(q, k) \<in> L" "q \<le> path" "path + length str < q + k" "length str < 2147483647"
    "cstr (ram s) path' str'" "(q', k') \<in> L" "q' \<le> path'" "path' + length str' < q' + k'" "length str' < 2147483647"
    "path_ok G D 2 (tokens [47] str)" "path_ok G D 2 (missed G D 2 (tokens [47] str))" "path_walk G D 2 (tokens [47] str) < 0"
  shows "runs (stuck C) (\<lambda>((ino, ino'), _). ino = - ENOENT \<and> ino' = path_walk G D 2 (missed G D 2 (tokens [47] str)))
    (bindR (ext2_find_file_inode K fs path s) (\<lambda>(ino, s1).
     bindR (ext2_find_file_inode K fs path' s1) (\<lambda>(ino', s2). Inr ((ino, ino'), s2))))"
  by (rule runs_find_file_twice [OF assms])

text \<open>The lookup of /x/ab fails, and then the lookup of / gives inode 3, that of /ab, in place of the root's.\<close>

theorem ext2_find_file_inode_stale_witness:
  "\<exists>s1 s2. ext2_find_file_inode small_kern 0x1000 0x2210 small_fs_state = Inr (- ENOENT, s1) \<and>
     ext2_find_file_inode small_kern 0x1000 0x100 s1 = Inr (3, s2)"
proof -
  have t: "tokens [47] [47, 120, 47, 97, 98 :: u8] = [[120], [97, 98]]" by (simp add: tokens.simps)
  have w: "path_ok small_geo small_disk 2 [[120], [97, 98]]" "missed small_geo small_disk 2 [[120], [97, 98]] = [[97, 98]]"
    "path_walk small_geo small_disk 2 [[120], [97, 98]] = - ENOENT"
    by (simp_all add: small_dir_ok small_find)
  let ?run = "bindR (ext2_find_file_inode small_kern 0x1000 0x2210 small_fs_state) (\<lambda>(ino, s1).
     bindR (ext2_find_file_inode small_kern 0x1000 0x100 s1) (\<lambda>(ino', s2). Inr ((ino, ino'), s2)))"
  have "runs (stuck (small_contract small_disk)) (\<lambda>((ino, ino'), _). ino = - ENOENT \<and>
      ino' = path_walk small_geo small_disk 2 (missed small_geo small_disk 2 (tokens [47] [47, 120, 47, 97, 98]))) ?run"
  proof (rule ext2_find_file_inode_stale [OF small_kern_ok small_mounted small_slash, where q = "0x2200" and k = 64 and
      q' = "0x100" and k' = 2 and str' = "[47]" and r = 0])
    show "cstr (ram small_fs_state) 0x2210 [47, 120, 47, 97, 98]" "cstr (ram small_fs_state) 0x100 [47]" using small_strings by simp_all
    show "inv (small_contract small_disk) small_fs_state small_regions
      (Suc (length [47, 120, 47, 97, 98 :: u8]) + (length (tokens [47] [47, 120, 47, 97, 98 :: u8]) * dir_cost small_geo +
       (Suc (length [47 :: u8]) + (length (missed small_geo small_disk 2 (tokens [47] [47, 120, 47, 97, 98])) * dir_cost small_geo + 0))))"
      by (rule small_inv) (simp add: t w(2) dir_cost_def)
  qed (simp_all only: t w small_path, simp_all add: small_regions_def)
  then obtain ino ino' s2 where r: "?run = Inr ((ino, ino'), s2)" and i: "ino = - ENOENT" "ino' = 3"
    unfolding small_stuck runs_total t w small_path by auto
  from r show ?thesis
    unfolding i by (cases "ext2_find_file_inode small_kern 0x1000 0x2210 small_fs_state")
      (auto simp: bindR_def split: sum.splits)
qed

section \<open>Reading\<close>

text \<open>
  C6. \<open>ext2_read_file\<close> delivers the bytes of the file from its position on, as the inode's twelve direct
  blocks give them, moves the position behind them and changes no other memory in use. This is so
  if the bytes lie in the \<open>count / blocksize + 1\<close> blocks from the one that holds the position: the code
  fetches no more. Every call loses the copies of the path and the inode buffers of its lookups.
\<close>

theorem ext2_read_file_reads:
  assumes "kern_ok K C" "inv C s L (read_cost G str cnt + r)" "open_file K C L f fs G D str n s" "strtok_sp s = 0"
    "0 < cnt" "f \<noteq> 0" "buf \<noteq> 0" "field f f_pos s = pos" "pos + cnt < 2147483648"
    "(ub, uk) \<in> L" "ub \<le> buf" "buf + cnt \<le> ub + uk" "apart buf cnt f sizeof_file"
    "\<forall>j\<in>{pos div g_bs G..pos div g_bs G + cnt div g_bs G}. file_blk_ok G D n j"
    "pos mod g_bs G + cnt \<le> read_span G cnt * g_bs G"
  shows "runs (stuck C) (delivered C L f buf cnt r G D n pos s) (ext2_read_file K f buf cnt s)"
  by (rule runs_read_file [OF assms])

lemma small_open: "open_file small_kern (small_contract small_disk) small_regions 0x2000 0x1000 small_geo small_disk [47, 97, 98] 3 small_fs_state"
proof -
  have "\<exists>q k. (q, k) \<in> small_regions \<and> q \<le> 0x2100 \<and> 0x2100 + 3 < q + k"
    by (rule exI [of _ "0x2100"], rule exI [of _ 4]) (simp add: small_regions_def)
  moreover have "(0x2000, 28) \<in> small_regions" by (simp add: small_regions_def)
  ultimately show ?thesis
    using small_mounted small_slash small_strings(2) small_path small_inodes(4)
    by (simp add: open_file_def field_def small_fields small_tokens)
qed

lemma small_file: "file_blk small_geo small_disk 3 0 = 8" "file_byte small_geo small_disk 3 0 = 72" "file_byte small_geo small_disk 3 1 = 105"
  by (simp_all add: file_byte_def file_blk_def small_inodes) (simp_all add: small_disk_def ld32_def ld8_def)

theorem ext2_read_file_reads_witness:
  "\<exists>s'. ext2_read_file small_kern 0x2000 0x2200 2 small_fs_state = Inr (2, s') \<and> ram s' 0x2200 = 72 \<and> ram s' 0x2201 = 105 \<and> field 0x2000 f_pos s' = 2"
proof -
  have "runs (stuck (small_contract small_disk)) (delivered (small_contract small_disk) small_regions 0x2000 0x2200 2 0 small_geo small_disk 3 0 small_fs_state)
      (ext2_read_file small_kern 0x2000 0x2200 2 small_fs_state)"
  proof (rule ext2_read_file_reads [OF small_kern_ok _ small_open, where ub = "0x2200" and uk = 64])
    show "inv (small_contract small_disk) small_fs_state small_regions (read_cost small_geo [47, 97, 98] 2 + 0)"
      by (rule small_inv) (simp add: read_cost_def find_cost_def read_span_def block_cost_def dir_cost_def small_tokens)
    show "\<forall>j\<in>{0 div g_bs small_geo..0 div g_bs small_geo + 2 div g_bs small_geo}. file_blk_ok small_geo small_disk 3 j"
      by (simp add: file_blk_ok_def small_file blk_ok_def)
  qed (simp_all add: field_def small_fields small_regions_def apart_def read_span_def)
  then obtain rc s' where e: "ext2_read_file small_kern 0x2000 0x2200 2 small_fs_state = Inr (rc, s')"
    and d: "delivered (small_contract small_disk) small_regions 0x2000 0x2200 2 0 small_geo small_disk 3 0 small_fs_state (rc, s')"
    unfolding small_stuck runs_total by auto
  have b: "\<forall>i<2. ram s' (0x2200 + i) = file_byte small_geo small_disk 3 (0 + i)" and r: "rc = int 2" "field 0x2000 f_pos s' = 0 + 2"
    using d unfolding delivered_def case_prod_conv by blast+
  then show ?thesis using e small_file b [rule_format, of 0] b [rule_format, of 1] by auto
qed



end
