(* ===== verification/VfsProps.thy ===== *)
theory VfsProps
  imports Vfs Ext2Props
begin

text \<open>
  The mount table as a list of texts and mounts, what \<open>find_mount\<close> finds in it, and what mounting adds.
\<close>

section \<open>The table\<close>

definition text_in :: "regions \<Rightarrow> mem \<Rightarrow> nat \<Rightarrow> u8 list \<Rightarrow> bool" where
  "text_in L m p t \<longleftrightarrow> cstr m p t \<and> (\<exists>q k. (q, k) \<in> L \<and> q \<le> p \<and> p + length t < q + k)"

lemma text_in_keeps: "text_in L m p t \<Longrightarrow> keeps L m m' \<Longrightarrow> L \<subseteq> L' \<Longrightarrow> text_in L' m' p t"
  unfolding text_in_def using keeps_cstr by blast

definition mount_table :: "regions \<Rightarrow> (u8 list \<times> nat) list \<Rightarrow> 'a vfs_state_scheme \<Rightarrow> bool" where
  "mount_table L ms st \<longleftrightarrow> length (mounts st) = MAX_MOUNTS \<and> nmounts st = length ms \<and> length ms \<le> MAX_MOUNTS \<and>
     (\<forall>i<length ms. mounts st ! i = snd (ms ! i) \<and> snd (ms ! i) \<noteq> 0 \<and> (snd (ms ! i), sizeof_mount) \<in> L \<and>
        text_in L (ram st) (field (snd (ms ! i)) m_point st) (fst (ms ! i)))"

definition mount_at :: "(u8 list \<times> nat) list \<Rightarrow> u8 list \<Rightarrow> nat" where
  "mount_at ms t = (case find (\<lambda>(p, m). p = t) ms of None \<Rightarrow> 0 | Some (p, m) \<Rightarrow> m)"

text \<open>The mount of the longest prefix of the text that is mounted, of two characters at least; else the root.\<close>

definition longest_mount :: "(u8 list \<times> nat) list \<Rightarrow> nat \<Rightarrow> u8 list \<Rightarrow> nat \<Rightarrow> bool" where
  "longest_mount ms root t m \<longleftrightarrow>
     (\<exists>n>1. n \<le> length t \<and> m = mount_at ms (take n t) \<and> m \<noteq> 0 \<and> (\<forall>j. n < j \<and> j \<le> length t \<longrightarrow> mount_at ms (take j t) = 0)) \<or>
     (m = root \<and> (\<forall>j>1. j \<le> length t \<longrightarrow> mount_at ms (take j t) = 0))"

lemma mount_table_keeps:
  assumes "mount_table L ms s" "kept s s'" "keeps L (ram s) (ram s')" "L \<subseteq> L'"
  shows "mount_table L' ms s'"
proof -
  have f: "field p m_point s' = field p m_point s" if "(p, sizeof_mount) \<in> L" for p
    by (rule field_keeps [OF assms(3) that]) simp
  show ?thesis
    using assms(1,4) f kept_sel(2,3) [OF assms(2)] text_in_keeps [OF _ assms(3,4)] unfolding mount_table_def by auto
qed

lemma check_loop_at:
  assumes "mount_table L ms s" "cstr (ram s) str t" "i + n = length ms"
  shows "check_loop str i n s = Inr (mount_at (drop i ms) t)"
  using assms(3)
proof (induction n arbitrary: i)
  case 0
  then show ?case by (simp add: mount_at_def)
next
  case (Suc n)
  then have i: "i < length ms" by simp
  obtain p m where pm: "ms ! i = (p, m)" by (cases "ms ! i")
  have e: "mounts s ! i = m" "cstr (ram s) (field m m_point s) p" using assms(1) i pm by (auto simp: mount_table_def text_in_def)
  have z: "0 \<notin> set p" "0 \<notin> set t" using e(2) assms(2) by (simp_all add: cstr_iff)
  have "strcmp (ram s) (field m m_point s) str = Some (cmp_spec p t)" by (rule strcmp_cstr [OF e(2) assms(2)])
  moreover have "drop i ms = (p, m) # drop (Suc i) ms" using i pm by (metis Cons_nth_drop_Suc)
  ultimately show ?case using Suc.IH [of "Suc i"] Suc.prems e(1) cmp_spec_eq_0 [OF z] by (auto simp: mount_at_def)
qed

lemma check_mounts_at: "mount_table L ms s \<Longrightarrow> cstr (ram s) str t \<Longrightarrow> check_mounts str s = Inr (mount_at ms t)"
  using check_loop_at [of L ms s str t 0 "length ms"] by (simp add: check_mounts_def mount_table_def)

lemma find_loop_longest:
  assumes K: "kern_ok K C" and "inv C s (insert (str, k) L) r" "sep L str k" "mount_table L ms s" "cstr (ram s) str (take n t)"
    "n \<le> length t" "length t < k" "\<forall>j. n < j \<and> j \<le> length t \<longrightarrow> j > 1 \<longrightarrow> mount_at ms (take j t) = 0"
  shows "\<exists>m s'. find_loop str s = Some (Inr (m, s')) \<and> longest_mount ms (root_mount s) t m \<and> inv C s' (insert (str, k) L) r \<and> kept s s' \<and>
    keeps L (ram s) (ram s')"
  using assms(2-)
proof (induction n arbitrary: s)
  case 0
  have "find_loop str s = Some (Inr (root_mount s, s))"
    using strlen_cstr [OF "0.prems"(4)] by (simp add: find_loop.simps [of str s])
  moreover have "longest_mount ms (root_mount s) t (root_mount s)" using "0.prems"(7) by (auto simp: longest_mount_def)
  ultimately show ?case using "0.prems"(1) by auto
next
  case (Suc n)
  have len: "length (take (Suc n) t) = Suc n" using Suc.prems(5) by simp
  note sl = strlen_cstr [OF Suc.prems(4), unfolded len]
  note ck = check_mounts_at [OF Suc.prems(3,4)]
  show ?case
  proof (cases "n = 0 \<or> mount_at ms (take (Suc n) t) \<noteq> 0")
    case True
    let ?m = "if n = 0 then root_mount s else mount_at ms (take (Suc n) t)"
    have "find_loop str s = Some (Inr (?m, s))"
      using True by (auto simp: find_loop.simps [of str s] sl ck)
    moreover have "longest_mount ms (root_mount s) t ?m"
    proof (cases "n = 0")
      case True
      then show ?thesis using Suc.prems(7) by (auto simp: longest_mount_def)
    next
      case False
      then have "1 < Suc n \<and> Suc n \<le> length t \<and> mount_at ms (take (Suc n) t) \<noteq> 0 \<and>
          (\<forall>j. Suc n < j \<and> j \<le> length t \<longrightarrow> mount_at ms (take j t) = 0)"
        using Suc.prems(5,7) True by auto
      then show ?thesis using False unfolding longest_mount_def by auto
    qed
    ultimately show ?thesis using Suc.prems(1) by auto
  next
    case False
    define s1 where "s1 = s\<lparr>ram := (ram s)(str + n := 0)\<rparr>"
    have step: "find_loop str s = find_loop str s1"
      using False by (simp add: find_loop.simps [of str s] sl ck s1_def)
    have i1: "inv C s1 (insert (str, k) L) r"
      unfolding s1_def by (rule inv_cell [OF K Suc.prems(1), of str k]) (use Suc.prems(5,6) in auto)
    have k1: "keeps L (ram s) (ram s1)"
      using Suc.prems(2,5,6) by (fastforce simp: s1_def keeps_def region_def same_on_def sep_def apart_def)
    have kp: "kept s s1" by (simp add: s1_def)
    have m1: "mount_table L ms s1" by (rule mount_table_keeps [OF Suc.prems(3) kp k1]) simp
    have "cstr ((ram s)(str + n := 0)) str (take n (take (Suc n) t))"
      using cstr_nul_cut(1) [OF Suc.prems(4), of n] len by simp
    then have c1: "cstr (ram s1) str (take n t)" by (simp add: s1_def min_def)
    have j: "\<forall>j. n < j \<and> j \<le> length t \<longrightarrow> j > 1 \<longrightarrow> mount_at ms (take j t) = 0"
      using Suc.prems(7) False by (metis Suc_lessI)
    obtain m s' where r: "find_loop str s1 = Some (Inr (m, s'))" "longest_mount ms (root_mount s1) t m" "inv C s' (insert (str, k) L) r"
      "kept s1 s'" "keeps L (ram s1) (ram s')"
      using Suc.IH [OF i1 Suc.prems(2) m1 c1 _ Suc.prems(6) j] Suc.prems(5) by auto
    then show ?thesis
      using step kept_trans [OF kp r(4)] keeps_trans [OF k1 r(5)] kept_sel(4) [OF kp] by auto
  qed
qed

lemma runs_find_mount:
  assumes K: "kern_ok K C" and i: "inv C s L (Suc (length t) + r)" and ms: "mount_table L ms s" and sl: "slash_ok K L (ram s)"
    and p: "text_in L (ram s) path t" and b: "length t < 2147483647"
  shows "runs (stuck C) (\<lambda>(m, s'). longest_mount ms (root_mount s) t m \<and> inv C s' L r \<and> kept s s' \<and> keeps L (ram s) (ram s'))
    (find_mount K path s)"
proof -
  obtain q k where pq: "cstr (ram s) path t" "(q, k) \<in> L" "q \<le> path" "path + length t < q + k" using p by (auto simp: text_in_def)
  have n: "add32 (length t) 1 = Suc (length t)" using b by (simp add: add32_small)
  show ?thesis
    unfolding find_mount_def strlen_cstr [OF pq(1)] hang_simps bindR_simps n
  proof (rule runs_malloc [OF K i], goal_cases copy)
    case (copy str s1)
    let ?k = "Suc (length t)"
    have fs: "sep L str ?k" by (rule fresh_sep [OF copy(1)])
    have f1: "cstr (ram s1) path t" by (rule keeps_cstr [OF pq(1) copy(4) pq(2,3,4)])
    define m where "m = memcpy str path ?k (ram s1)"
    define s2 where "s2 = s1\<lparr>ram := m\<rparr>"
    have dis: "str \<le> path \<or> path + length t + 1 \<le> str" using fs pq(2,3,4) by (auto simp: sep_def apart_def)
    have cp: "cstr (ram s2) str t" using memcpy_cstr [OF f1 dis] by (simp add: m_def s2_def)
    have out: "m y = ram s1 y" if "y < str \<or> str + ?k \<le> y" for y
      using that dis by (auto simp: m_def memcpy_apply)
    have i2: "inv C s2 (insert (str, ?k) L) r"
      unfolding s2_def by (rule inv_cell [OF K copy(2), of str ?k]) (use out in auto)
    have k2: "keeps L (ram s) (ram s2)"
      using copy(4) out fs by (fastforce simp: s2_def keeps_def region_def same_on_def sep_def apart_def)
    have kp2: "kept s s2" unfolding s2_def by (rule kept_trans [OF copy(3) kept_ram])
    have m2: "mount_table L ms s2" by (rule mount_table_keeps [OF ms kp2 k2]) simp
    have sl2: "cstr (ram s2) (k_sym K Slash) [47]" using slash_keeps [OF sl k2 subset_refl] by (simp add: slash_ok_def)
    have z: "0 \<notin> set t" using pq(1) by (simp add: cstr_iff)
    have cmp: "strcmp (ram s2) str (k_sym K Slash) = Some (cmp_spec t [47])" "(cmp_spec t [47] = 0) = (t = [47])"
      using strcmp_cstr [OF cp sl2] cmp_spec_eq_0 [OF z, of "[47]"] by simp_all
    have root: "root_mount s2 = root_mount s" by (rule kept_sel(4) [OF kp2])
    have "\<exists>x s3. (if t = [47] then Inr (root_mount s2, s2) else case find_loop str s2 of None \<Rightarrow> Inl Hang | Some r \<Rightarrow> r) = Inr (x, s3) \<and>
        longest_mount ms (root_mount s) t x \<and> inv C s3 (insert (str, ?k) L) r \<and> kept s2 s3 \<and> keeps L (ram s2) (ram s3)"
    proof (cases "t = [47]")
      case True
      then show ?thesis using i2 root by (auto simp: longest_mount_def)
    next
      case False
      then show ?thesis
        using find_loop_longest [OF K i2 fs m2, of "length t" t] cp root by auto
    qed
    then obtain x s3 where x: "(if t = [47] then Inr (root_mount s2, s2) else case find_loop str s2 of None \<Rightarrow> Inl Hang | Some r \<Rightarrow> r) = Inr (x, s3)"
      "longest_mount ms (root_mount s) t x" "inv C s3 (insert (str, ?k) L) r" "kept s2 s3" "keeps L (ram s2) (ram s3)" by blast
    have nb: "(str, ?k) \<notin> L" by (rule sep_notin [OF fs]) simp
    have "runs (stuck C) (\<lambda>(m, s'). longest_mount ms (root_mount s) t m \<and> inv C s' L r \<and> kept s s' \<and> keeps L (ram s) (ram s'))
        (bindR (k_free K str s3) (\<lambda>s4. Inr (x, s4)))"
      by (rule runs_free [OF K x(3) nb]) (use x(2,4,5) kp2 k2 in \<open>auto intro: kept_trans keeps_trans\<close>)
    then show ?case
      unfolding case_prod_conv strlen_cstr [OF f1] hang_simps bindR_simps n Let_def m_def [symmetric] s2_def [symmetric] cmp x(1) .
  qed
qed

text \<open>
  C8. \<open>find_mount\<close> gives the mount whose mount point is the longest prefix of the path, character by character and not
  component by component, or the root mount if there is none of at least two characters; it changes nothing that is in use
  and frees its copy of the path.
\<close>

theorem find_mount_longest:
  assumes "kern_ok K C" "inv C s L (Suc (length t) + r)" "mount_table L ms s" "slash_ok K L (ram s)" "text_in L (ram s) path t" "length t < 2147483647"
  shows "runs (stuck C) (\<lambda>(m, s'). longest_mount ms (root_mount s) t m \<and> inv C s' L r \<and> kept s s' \<and> keeps L (ram s) (ram s'))
    (find_mount K path s)"
  by (rule runs_find_mount [OF assms])

text \<open>Mounts at / and at /a; the path is /ab.\<close>

definition small_mounts :: small_state where
  "small_mounts = (small_start (st32 (st32 (small_ram(0x2300 := 47, 0x2301 := 97)) 0x2400 0x100) 0x2410 0x2300))
     \<lparr>mounts := (replicate 256 0)[0 := 0x2400, 1 := 0x2410], nmounts := 2, root_mount := 0x2400\<rparr>"

lemma small_mount_table:
  "mount_table (small_regions \<union> {(0x2300, 3), (0x2400, 12), (0x2410, 12)}) [([47], 0x2400), ([47, 97], 0x2410)] small_mounts"
proof -
  let ?L = "small_regions \<union> {(0x2300, 3), (0x2400, 12), (0x2410, 12)}"
  have w: "field 0x2400 m_point small_mounts = 0x100" "field 0x2410 m_point small_mounts = 0x2300"
    by (simp_all add: field_def small_mounts_def mem_simps)
  have c: "cstr (ram small_mounts) 0x100 [47]" "cstr (ram small_mounts) 0x2300 [47, 97]"
    by (simp_all add: small_mounts_def st32_other small_ram_def)
  have "text_in ?L (ram small_mounts) 0x100 [47]" unfolding text_in_def
    by (rule conjI [OF c(1)], rule exI [of _ "0x100"], rule exI [of _ 2]) (simp add: small_regions_def)
  moreover have "text_in ?L (ram small_mounts) 0x2300 [47, 97]" unfolding text_in_def
    by (rule conjI [OF c(2)], rule exI [of _ "0x2300"], rule exI [of _ 3]) simp
  ultimately show ?thesis
    using w by (auto simp: mount_table_def small_mounts_def less_Suc_eq)
qed

theorem find_mount_longest_witness:
  "\<exists>s'. find_mount small_kern 0x2100 small_mounts = Inr (0x2410, s')"
proof -
  let ?L = "small_regions \<union> {(0x2300, 3), (0x2400, 12), (0x2410, 12)}" and ?ms = "[([47], 0x2400), ([47, 97], 0x2410)] :: (u8 list \<times> nat) list"
  have "runs (stuck (small_contract small_disk)) (\<lambda>(m, s'). longest_mount ?ms (root_mount small_mounts) [47, 97, 98] m \<and>
      inv (small_contract small_disk) s' ?L 0 \<and> kept small_mounts s' \<and> keeps ?L (ram small_mounts) (ram s')) (find_mount small_kern 0x2100 small_mounts)"
  proof (rule find_mount_longest [OF small_kern_ok _ small_mount_table])
    show "inv (small_contract small_disk) small_mounts ?L (Suc (length [47, 97, 98 :: u8]) + 0)"
      by (auto simp: small_contract_def small_mounts_def small_regions_def)
    show "slash_ok small_kern ?L (ram small_mounts)"
      by (simp add: slash_ok_def small_kern_def small_regions_def small_mounts_def st32_other small_ram_def)
    have "cstr (ram small_mounts) 0x2100 [47, 97, 98]" by (simp add: small_mounts_def st32_other small_ram_def)
    then show "text_in ?L (ram small_mounts) 0x2100 [47, 97, 98]" unfolding text_in_def
      by (intro conjI exI [of _ "0x2100"] exI [of _ 4]) (simp_all add: small_regions_def)
  qed simp
  then obtain m s' where e: "find_mount small_kern 0x2100 small_mounts = Inr (m, s')" and l: "longest_mount ?ms (root_mount small_mounts) [47, 97, 98] m"
    unfolding small_stuck runs_total by auto
  have a: "mount_at ?ms [47, 97] = 0x2410" "mount_at ?ms [47, 97, 98] = 0" by (simp_all add: mount_at_def)
  have t: "take 2 [47, 97, 98 :: u8] = [47, 97]" "take 3 [47, 97, 98 :: u8] = [47, 97, 98]" by simp_all
  have "n = 2 \<or> n = 3" if "1 < n" "n \<le> length [47, 97, 98 :: u8]" for n using that by auto
  then have "m = 0x2410" using l a t unfolding longest_mount_def by fastforce
  then show ?thesis using e by blast
qed

end
