(* ===== verification/Ext2Mount.thy ===== *)
theory Ext2Mount
  imports VfsProps
begin

text \<open>
  Mounting: what \<open>ext2_mount\<close> reads from the superblock, and that the file system it sets up is one that the
  lookup and read routines accept.
\<close>

section \<open>Fields\<close>

lemma ld32_st32_sep: "apart p n q k \<Longrightarrow> i + 4 \<le> n \<Longrightarrow> j + 4 \<le> k \<Longrightarrow> ld32 (st32 m (p + i) v) (q + j) = ld32 m (q + j)"
  by (rule ld32_st32_apart) (auto simp: apart_def)

lemma field_set_other: "apart p n q k \<Longrightarrow> i + 4 \<le> n \<Longrightarrow> j + 4 \<le> k \<Longrightarrow> field q j (set_field p i v s) = field q j s"
  by (simp add: field_def set_field_def ld32_st32_sep)

lemma field_set_same: "v < W32 \<Longrightarrow> field p i (set_field p i v s) = v"
  by (simp add: field_def set_field_def mem_simps)

lemma field_set_off: "i + 4 \<le> j \<or> j + 4 \<le> i \<Longrightarrow> field p j (set_field p i v s) = field p j s"
  by (auto simp: field_def set_field_def intro!: ld32_st32_other)

lemma field_say [simp]: "field p i (say f as s) = field p i s"
  by (simp add: field_def say_def)

lemma apart_region: "apart a n b k \<Longrightarrow> region (a, n) \<inter> region (b, k) = {}"
  by (auto simp: apart_def region_def)

text \<open>A copied struct.\<close>

lemma memcpy_field:
  assumes "apart d n q n" "i + 4 \<le> n"
  shows "ld32 (memcpy d q n m) (d + i) = ld32 m (q + i)"
proof -
  have "d \<le> q \<or> q + n \<le> d" using assms(1) by (auto simp: apart_def)
  from memcpy_apply [OF this] assms(2) show ?thesis by (simp add: ld32_def ld8_def add.assoc)
qed

lemma memcpy_out:
  assumes "apart d n q n" "x < d \<or> d + n \<le> x"
  shows "memcpy d q n m x = m x"
proof -
  have "d \<le> q \<or> q + n \<le> d" using assms(1) by (auto simp: apart_def)
  from memcpy_apply [OF this] assms(2) show ?thesis by auto
qed

section \<open>The private data\<close>

text \<open>The geometry that the code takes from a superblock.\<close>

definition sb_geo :: "mem \<Rightarrow> geo" where
  "sb_geo D = (let bs = 1024 * 2 ^ ld32 D (1024 + sb_blocksize_hint) in
     \<lparr>g_bs = bs, g_ipg = ld32 D (1024 + sb_inodes_in_blockgroup), g_bgd = ld32 D (1024 + sb_superblock_id) + 1024 div bs\<rparr>)"

definition sb_ok :: "mem \<Rightarrow> bool" where
  "sb_ok D \<longleftrightarrow> ld16 D (1024 + sb_ext2_sig) = EXT2_SIGNATURE \<and> ld32 D (1024 + sb_blocksize_hint) \<le> 6 \<and>
     ld32 D (1024 + sb_superblock_id) \<le> 1 \<and> ld32 D (1024 + sb_blocks_in_blockgroup) \<noteq> 0 \<and>
     0 < ld32 D (1024 + sb_inodes_in_blockgroup) \<and> ld32 D (1024 + sb_inodes_in_blockgroup) \<le> 8 * g_bs (sb_geo D)"

lemma sb_geo_ok: "sb_ok D \<Longrightarrow> geo_ok (sb_geo D)"
proof -
  assume sb: "sb_ok D"
  define h where "h = ld32 D (1024 + sb_blocksize_hint)"
  have "h \<le> 6" using sb by (simp add: sb_ok_def h_def)
  then have "(2::nat) ^ h \<le> 2 ^ 6" by (intro power_increasing) simp_all
  moreover have "(512::nat) dvd 1024 * 2 ^ h" by simp
  ultimately show ?thesis using sb by (simp add: geo_ok_def sb_ok_def sb_geo_def h_def Let_def)
qed

text \<open>
  The steps after the last allocation, on the memory: \<open>sb\<close> is the buffer with the superblock, \<open>p\<close> the private
  data, \<open>src\<close> the static struct.
\<close>

definition fill_priv :: "nat \<Rightarrow> nat \<Rightarrow> nat \<Rightarrow> nat \<Rightarrow> nat \<Rightarrow> mem \<Rightarrow> mem \<Rightarrow> bool" where
  "fill_priv sb p fs dev src m m' \<longleftrightarrow>
     (\<forall>x. x \<notin> region (p, sizeof_priv_data) \<longrightarrow> x \<notin> region (fs, sizeof_filesystem) \<longrightarrow> x \<notin> region (dev + dev_fs, 4) \<longrightarrow> m' x = m x) \<and>
     ld32 m' (fs + fs_priv_data) = p \<and> ld32 m' (fs + fs_dev) = dev \<and>
     (\<forall>off\<in>{fs_stat, fs_open, fs_mount}. ld32 m' (fs + off) = ld32 m (src + off)) \<and>
     ld32 m' (p + sb_inodes_in_blockgroup) = ld32 m (sb + sb_inodes_in_blockgroup) \<and>
     (let bs = 1024 * 2 ^ ld32 m (sb + sb_blocksize_hint) in
        ld32 m' (p + p_blocksize) = bs \<and> ld32 m' (p + p_sectors_per_block) = bs div 512 \<and> ld32 m' (p + p_inodes_per_block) = bs div 128 \<and>
        ld32 m' (p + p_first_bgd) = ld32 m (sb + sb_superblock_id) + 1024 div bs)"

lemma ext2_setup_ok:
  fixes s :: "'a vfs_state_scheme" and K :: "'a vfs_state_scheme kern"
  assumes h: "field sb sb_blocksize_hint s \<le> 6" "field sb sb_blocks_in_blockgroup s \<noteq> 0" "field sb sb_superblock_id s \<le> 1"
    and ap: "apart p 1044 sb 1024" "apart fs 28 sb 1024" "apart p 1044 fs 28" "apart p 1044 dev 28" "apart fs 28 dev 28" "apart dev 28 sb 1024"
      "apart p 1044 (k_sym K Ext2_fs) 28" "apart fs 28 (k_sym K Ext2_fs) 28" "apart dev 28 (k_sym K Ext2_fs) 28"
    and b: "p < W32" "dev < W32"
  shows "\<exists>s'. ext2_setup K sb p fs dev s = Inr (fs, s') \<and> fill_priv sb p fs dev (k_sym K Ext2_fs) (ram s) (ram s') \<and> last_ext2 s' = fs \<and>
    port_log s' = port_log s \<and> hw s' = hw s \<and> vfs_state.more s' = vfs_state.more s \<and> strtok_sp s' = strtok_sp s \<and>
    mounts s' = mounts s \<and> nmounts s' = nmounts s \<and> root_mount s' = root_mount s"
proof -
  define hint where "hint = field sb sb_blocksize_hint s"
  define bs where "bs = 1024 * (2::nat) ^ hint"
  have hint: "hint \<le> 6" using h by (simp add: hint_def)
  then have "(2::nat) ^ hint \<le> 2 ^ 6" by (intro power_increasing) simp_all
  then have bs: "bs \<le> 65536" "0 < bs" by (simp_all add: bs_def)
  have sh: "push_bit (hint mod 32) 1024 = bs" using hint by (simp add: push_bit_eq_mult bs_def)
  define s5 where "s5 = set_field p p_blocksize bs s"
  define s6 where "s6 = set_field p p_inodes_per_block (bs div 128) s5"
  define s7 where "s7 = set_field p p_sectors_per_block (bs div 512) s6"
  define s8 where "s8 = say ''ext2: %s: volume size: %d bytes'' [int (field dev dev_name s7), int (mul32 bs (field sb sb_blocks s7))] s7"
  define n where "n = field sb sb_blocks s8 div field sb sb_blocks_in_blockgroup s8"
  define s9 where "s9 = set_field p p_number_of_bgs (if n = 0 then 1 else n) s8"
  define s10 where "s10 = set_field p p_first_bgd (field sb sb_superblock_id s + 1024 div bs) s9"
  define s11 where "s11 = s10\<lparr>ram := memcpy p sb sizeof_superblock (ram s10)\<rparr>"
  define s12 where "s12 = set_field dev dev_fs fs s11"
  define s13 where "s13 = s12\<lparr>ram := memcpy fs (k_sym K Ext2_fs) sizeof_filesystem (ram s12)\<rparr>"
  define s14 where "s14 = set_field fs fs_dev dev (set_field fs fs_priv_data p s13)"
  note so = field_set_other [OF ap(1)]
  have sbf: "field sb i s7 = field sb i s" "field sb i s8 = field sb i s" "field sb i s9 = field sb i s" "field sb i s10 = field sb i s"
    if "i + 4 \<le> 1024" for i
    using that by (simp_all add: s10_def s9_def s8_def s7_def s6_def s5_def so)
  have pf: "field p p_blocksize s5 = bs" "field p p_blocksize s9 = bs" "field p p_blocksize s10 = bs"
    "field p p_inodes_per_block s10 = bs div 128" "field p p_sectors_per_block s10 = bs div 512"
    "field p p_first_bgd s10 = field sb sb_superblock_id s + 1024 div bs"
  proof -
    have w: "bs < W32" "bs div 128 < W32" "bs div 512 < W32" "field sb sb_superblock_id s + 1024 div bs < W32"
      using bs h(3) div_le_dividend [of bs 128] div_le_dividend [of bs 512] div_le_dividend [of 1024 bs] by linarith+
    note f = field_set_off [of _ _ p] field_set_same
    show "field p p_blocksize s5 = bs" "field p p_blocksize s9 = bs" "field p p_blocksize s10 = bs"
      "field p p_inodes_per_block s10 = bs div 128" "field p p_sectors_per_block s10 = bs div 512"
      "field p p_first_bgd s10 = field sb sb_superblock_id s + 1024 div bs"
      using w by (simp_all add: s10_def s9_def s8_def s7_def s6_def s5_def f)
  qed
  have add: "add32 (field sb sb_superblock_id s9) (1024 div bs) = field sb sb_superblock_id s + 1024 div bs"
    using h(3) div_le_dividend [of 1024 bs] unfolding sbf(3) [of 20, simplified] by (intro add32_small) linarith
  have run: "ext2_setup K sb p fs dev s = Inr (fs, s14\<lparr>last_ext2 := fs\<rparr>)"
    unfolding ext2_setup_def Let_def hint_def [symmetric] sh s5_def [symmetric] pf s6_def [symmetric] s7_def [symmetric] s8_def [symmetric]
    using h(2) bs(2) by (simp add: sbf(2) udiv_def n_def [symmetric, simplified sbf(2)] flip: s9_def)
      (simp add: pf add s10_def [symmetric] s11_def [symmetric] s12_def [symmetric] s13_def [symmetric] s14_def [symmetric] add [simplified])
  have st: "ram (set_field a i v t) x = ram t x" if "x < a + i \<or> a + i + 4 \<le> x" for a i v x and t :: "'a vfs_state_scheme"
    using that by (simp add: set_field_def st32_other)
  have r10: "ram s10 x = ram s x" if "x \<notin> region (p, 1044)" for x
    using that unfolding s10_def s9_def s8_def s7_def s6_def s5_def by (auto simp: st say_def region_def)
  have ap1: "apart p 1024 sb 1024" using ap(1) by (auto simp: apart_def)
  have p11: "ram s11 x = ram s10 x" if "x < p \<or> p + 1024 \<le> x" for x
    using that by (simp add: s11_def memcpy_out [OF ap1])
  have r12: "ram s12 x = ram s11 x" if "x \<notin> region (dev + 24, 4)" for x
    using that unfolding s12_def by (auto simp: st region_def)
  have r13: "ram s13 x = ram s12 x" if "x \<notin> region (fs, 28)" for x
    using that ap(8) by (simp add: s13_def memcpy_out region_def not_le not_less)
  have r14: "ram s14 x = ram s13 x" if "x \<notin> region (fs, 28)" for x
    using that unfolding s14_def by (auto simp: st region_def)
  have dev4: "region (dev + 24, 4) \<subseteq> region (dev, 28)" by (auto simp: region_def)
  have pd: "region (p, 1044) \<inter> region (dev, 28) = {}" "region (p, 1044) \<inter> region (fs, 28) = {}" "region (p, 1044) \<inter> region (k_sym K Ext2_fs, 28) = {}"
    "region (dev, 28) \<inter> region (k_sym K Ext2_fs, 28) = {}"
    by (rule apart_region, fact ap)+
  have inp: "ram s14 x = ram s11 x" if "x \<in> region (p, 1044)" for x
  proof -
    have "x \<notin> region (dev + 24, 4)" "x \<notin> region (fs, 28)" using that pd dev4 by blast+
    then show ?thesis by (simp add: r12 r13 r14)
  qed
  have ldp: "ld32 (ram s14) (p + i) = ld32 (ram s11) (p + i)" if "i + 4 \<le> 1044" for i
    by (rule ld32_frame) (use that in \<open>auto simp: same_on_def region_def intro!: inp\<close>)
  have ldq: "ld32 (ram s14) (p + i) = field p i s10" if "1024 \<le> i" "i + 4 \<le> 1044" for i
    unfolding ldp [OF that(2)] field_def by (rule ld32_frame) (use that in \<open>auto simp: same_on_def intro!: p11\<close>)
  have sb40: "ld32 (ram s14) (p + 40) = field sb 40 s"
  proof -
    have "ld32 (ram s11) (p + 40) = field sb 40 s10" by (simp add: s11_def memcpy_field [OF ap1] field_def)
    then show ?thesis by (simp add: ldp sbf)
  qed
  have src: "ld32 (ram s14) (fs + off) = ld32 (ram s) (k_sym K Ext2_fs + off)" if "off \<in> {16, 20, 24}" for off
  proof -
    have "ld32 (ram s14) (fs + off) = ld32 (ram s13) (fs + off)"
      using that by (intro ld32_frame) (auto simp: same_on_def s14_def st)
    also have "\<dots> = ld32 (ram s12) (k_sym K Ext2_fs + off)" using that ap(8) by (simp add: s13_def) (auto intro: memcpy_field)
    also have "\<dots> = ld32 (ram s) (k_sym K Ext2_fs + off)"
    proof (rule ld32_frame, unfold same_on_def, rule ballI)
      fix x assume "x \<in> {k_sym K Ext2_fs + off..<k_sym K Ext2_fs + off + 4}"
      then have "x \<in> region (k_sym K Ext2_fs, 28)" using that by (auto simp: region_def)
      then have "x \<notin> region (dev + 24, 4)" "x \<notin> region (p, 1044)" using pd dev4 by blast+
      then show "ram s12 x = ram s x" using r12 [of x] p11 [of x] r10 [of x] by (auto simp: region_def)
    qed
    finally show ?thesis .
  qed
  have out: "ram s14 x = ram s x" if "x \<notin> region (p, 1044)" "x \<notin> region (fs, 28)" "x \<notin> region (dev + 24, 4)" for x
    using that r14 [of x] r13 [of x] r12 [of x] p11 [of x] r10 [of x] by (auto simp: region_def)
  have "ld32 (ram s14) (fs + 4) = p" "ld32 (ram s14) (fs + 8) = dev"
    using b by (simp_all add: s14_def set_field_def mem_simps)
  then have "fill_priv sb p fs dev (k_sym K Ext2_fs) (ram s) (ram s14)"
    using out src sb40 ldq pf(3,4,5,6) unfolding fill_priv_def Let_def field_def hint_def [symmetric] bs_def [symmetric]
    by (simp add: hint_def [unfolded field_def, symmetric] bs_def [symmetric])
  then show ?thesis
    using run by (simp add: s14_def s13_def s12_def s11_def s10_def s9_def s8_def s7_def s6_def s5_def set_field_def say_def)
qed

section \<open>Mounting\<close>

text \<open>What a successful \<open>ext2_mount\<close> leaves: the buffer of the superblock is never freed.\<close>

definition ext2_mounted :: "'a vfs_state_scheme kern \<Rightarrow> 'a vfs_state_scheme contract \<Rightarrow> regions \<Rightarrow> nat \<Rightarrow> mem \<Rightarrow> nat \<Rightarrow>
    'a vfs_state_scheme \<Rightarrow> nat \<Rightarrow> 'a vfs_state_scheme \<Rightarrow> bool" where
  "ext2_mounted K C L dev D r s fs s' \<longleftrightarrow>
     (\<exists>sb p. inv C s' ({(sb, 1024), (p, sizeof_priv_data), (fs, sizeof_filesystem)} \<union> L) r \<and>
        mounted C ({(sb, 1024), (p, sizeof_priv_data), (fs, sizeof_filesystem)} \<union> L) fs (sb_geo D) D s' \<and>
        lost L {(sb, 1024), (p, sizeof_priv_data), (fs, sizeof_filesystem)}) \<and>
     last_ext2 s' = fs \<and> 0 < fs \<and> fs < 2147483648 \<and> strtok_sp s' = strtok_sp s \<and> mounts s' = mounts s \<and> nmounts s' = nmounts s \<and> root_mount s' = root_mount s \<and>
     (\<forall>q\<in>L. same_on (region q - region (dev + dev_fs, 4)) (ram s) (ram s')) \<and>
     (\<forall>off\<in>{fs_stat, fs_open, fs_mount}. field fs off s' = field (k_sym K Ext2_fs) off s)"

lemma runs_ext2_mount:
  fixes s :: "'a vfs_state_scheme"
  assumes K: "kern_ok K C" and i: "inv C s L (1024 + (sizeof_priv_data + (sizeof_filesystem + r)))"
    and dev: "(dev, sizeof_device) \<in> L" "disk C dev = Some D" "field dev dev_type s = DEV_TYPE_BLK" "dev < W32"
    and st: "(k_sym K Ext2_fs, sizeof_filesystem) \<in> L" "apart dev sizeof_device (k_sym K Ext2_fs) sizeof_filesystem" and sb: "sb_ok D"
  shows "runs (stuck C) (\<lambda>(fs, s'). ext2_mounted K C L dev D r s fs s') (ext2_mount K dev s)"
proof -
  have ty: "\<not> field dev dev_type s \<noteq> DEV_TYPE_BLK" using dev(3) by simp
  show ?thesis
    unfolding ext2_mount_def if_not_P [OF ty]
  proof (rule runs_malloc [OF K i], goal_cases buffer)
    case (buffer b s1)
    have sb1: "sep L b 1024" by (rule fresh_sep [OF buffer(1)])
    show ?case
      unfolding case_prod_conv
    proof (rule runs_read [OF K buffer(2) dev(2) insertI1, where n = 2 and pos = 2], goal_cases low high pos read)
      case (read rc s2)
      let ?L1 = "insert (b, 1024) L"
      have fl: "filled b 1024 D 1024 (ram s1) (ram s2)" using read(3) by simp
      have sbf: "ld32 (ram s2) (b + i) = ld32 D (1024 + i)" if "i + 4 \<le> 1024" for i using filled_ld32 [OF fl that] .
      have "ld16 (ram s2) (b + sb_ext2_sig) = ld16 D (1024 + sb_ext2_sig)"
        using filled_at [OF fl, of 56] filled_at [OF fl, of 57] by (simp add: ld16_def ld8_def add.commute [of _ b])
      then have sig: "\<not> ld16 (ram s2) (b + sb_ext2_sig) \<noteq> EXT2_SIGNATURE" using sb by (simp add: sb_ok_def)
      have k2: "keeps L (ram s) (ram s2)"
        by (rule keeps_trans [OF buffer(4) sep_keeps [OF sb1 fl]]) simp_all
      show ?case
        unfolding case_prod_conv if_not_P [OF sig]
      proof (rule runs_malloc [OF K read(1)], goal_cases priv)
        case (priv p s3)
        show ?case
          unfolding case_prod_conv
        proof (rule runs_malloc [OF K priv(2)], goal_cases fsys)
          case (fsys fs s4)
          let ?X = "{(b, 1024), (p, sizeof_priv_data), (fs, sizeof_filesystem)}"
          have i4: "inv C s4 (?X \<union> L) r" using fsys(2) by (simp add: insert_commute)
          have sp: "sep ?L1 p 1044" "sep (insert (p, 1044) ?L1) fs 28" by (rule fresh_sep [OF priv(1)], rule fresh_sep [OF fsys(1)])
          have k4: "keeps L (ram s) (ram s4)" by (rule keeps_trans [OF keeps_trans [OF k2, of "ram s3"]]) (use priv(4) fsys(4) in simp_all)
          have sb4: "field b i s4 = ld32 D (1024 + i)" if "i + 4 \<le> 1024" for i
          proof -
            have "keeps {(b, 1024)} (ram s2) (ram s4)"
              by (rule keeps_trans [of _ "ram s2" "ram s3"]) (use priv(4) fsys(4) in \<open>simp_all add: keeps_def\<close>)
            then show ?thesis using field_keeps [of "{(b, 1024)}" s2 s4 b 1024 i] sbf that by (simp add: field_def)
          qed
          have ap: "apart p 1044 b 1024" "apart fs 28 b 1024" "apart p 1044 fs 28" "apart p 1044 dev 28" "apart fs 28 dev 28" "apart dev 28 b 1024"
            "apart p 1044 (k_sym K Ext2_fs) 28" "apart fs 28 (k_sym K Ext2_fs) 28" "apart dev 28 (k_sym K Ext2_fs) 28"
            using sp sb1 dev(1) st by (auto simp: sep_def intro: apart_sym)
          have h: "field b sb_blocksize_hint s4 \<le> 6" "field b sb_blocks_in_blockgroup s4 \<noteq> 0" "field b sb_superblock_id s4 \<le> 1"
            using sb by (simp_all add: sb4 sb_ok_def)
          have "p < W32" using priv(1) by (simp add: fresh_def)
          then obtain s5 where s5: "ext2_setup K b p fs dev s4 = Inr (fs, s5)" and fp: "fill_priv b p fs dev (k_sym K Ext2_fs) (ram s4) (ram s5)"
            and o: "last_ext2 s5 = fs" "port_log s5 = port_log s4" "hw s5 = hw s4" "vfs_state.more s5 = vfs_state.more s4" "strtok_sp s5 = strtok_sp s4"
              "mounts s5 = mounts s4" "nmounts s5 = nmounts s4" "root_mount s5 = root_mount s4"
            using ext2_setup_ok [OF h ap _ dev(4)] by blast
          have out: "ram s5 x = ram s4 x" if "x \<notin> region (p, 1044)" "x \<notin> region (fs, 28)" "x \<notin> region (dev + 24, 4)" for x
            using fp that unfolding fill_priv_def by blast
          have i5: "inv C s5 (?X \<union> L) r"
          proof (rule inv_write [OF K i4 o(4,2,3)])
            have "region (dev + 24, 4) \<subseteq> region (dev, 28)" by (auto simp: region_def)
            then show "same_on (- (\<Union>r\<in>?X \<union> L. region r)) (ram s4) (ram s5)"
              unfolding same_on_def using dev(1) by (auto intro!: out)
          qed
          have lost: "lost L ?X" using sb1 sp by (auto simp: lost_def sep_def)
          have w: "ld32 (ram s5) (fs + 4) = p" "ld32 (ram s5) (fs + 8) = dev" "ld32 (ram s5) (p + 40) = g_ipg (sb_geo D)"
            "ld32 (ram s5) (p + 1032) = g_bs (sb_geo D)" "ld32 (ram s5) (p + 1036) = g_bs (sb_geo D) div 512"
            "ld32 (ram s5) (p + 1040) = g_bs (sb_geo D) div 128" "ld32 (ram s5) (p + 1024) = g_bgd (sb_geo D)"
            using fp sb4 [unfolded field_def] by (simp_all add: fill_priv_def sb_geo_def Let_def)
          have "mounted C (?X \<union> L) fs (sb_geo D) D s5"
            using w sb_geo_ok [OF sb] dev(2) by (simp add: mounted_def EXT2_PRIV_def priv_field_def field_def)
          moreover have "same_on (region q - region (dev + 24, 4)) (ram s) (ram s5)" if "q \<in> L" for q
            unfolding same_on_def
          proof (rule ballI)
            fix x assume x: "x \<in> region q - region (dev + 24, 4)"
            have "apart p 1044 (fst q) (snd q)" "apart fs 28 (fst q) (snd q)" using sp that by (auto simp: sep_def split: prod.splits)
            then have "region (p, 1044) \<inter> region q = {}" "region (fs, 28) \<inter> region q = {}" using apart_region [of _ _ "fst q" "snd q"] by simp_all
            then have "ram s5 x = ram s4 x" using x by (intro out) auto
            also have "\<dots> = ram s x" using k4 that x by (auto simp: keeps_def same_on_def)
            finally show "ram s5 x = ram s x" .
          qed
          moreover have "field fs off s5 = field (k_sym K Ext2_fs) off s" if "off \<in> {fs_stat, fs_open, fs_mount}" for off
          proof -
            have "field fs off s5 = field (k_sym K Ext2_fs) off s4" using fp that by (auto simp: fill_priv_def field_def)
            also have "\<dots> = field (k_sym K Ext2_fs) off s" by (rule field_keeps [OF k4 st(1)]) (use that in auto)
            finally show ?thesis .
          qed
          moreover have "0 < fs" "fs < 2147483648" using fsys(1) by (auto simp: fresh_def)
          moreover have "kept s s4" by (rule kept_trans [OF kept_trans [OF kept_trans [OF buffer(3) read(2)] priv(3)] fsys(3)])
          ultimately show ?case
            using s5 i5 lost o kept_sel(1-4) [OF \<open>kept s s4\<close>] unfolding ext2_mounted_def case_prod_conv by auto
        qed
      qed
    qed simp_all
  qed
qed

text \<open>
  \<open>ext2_mount\<close> of a block device whose superblock carries the signature sets up a file system with the block size,
  the inodes per group and the block of the group descriptors that the superblock gives, whose operations are those of the
  static \<open>ext2_fs\<close>, and records it as the last one mounted; it changes no memory in use but the file system
  pointer of the device. The superblock buffer is never freed.
\<close>

theorem ext2_mount_mounts:
  assumes "kern_ok K C" "inv C s L (1024 + (sizeof_priv_data + (sizeof_filesystem + r)))"
    "(dev, sizeof_device) \<in> L" "disk C dev = Some D" "field dev dev_type s = DEV_TYPE_BLK" "dev < W32"
    "(k_sym K Ext2_fs, sizeof_filesystem) \<in> L" "apart dev sizeof_device (k_sym K Ext2_fs) sizeof_filesystem" "sb_ok D"
  shows "runs (stuck C) (\<lambda>(fs, s'). ext2_mounted K C L dev D r s fs s') (ext2_mount K dev s)"
  by (rule runs_ext2_mount [OF assms])

text \<open>The small disk, on the drive behind the device struct at 0x1C00.\<close>

abbreviation (input) small_mount_ram :: mem where
  "small_mount_ram \<equiv> st32 (st32 (st32 (st32 (small_ram(0x160 := 0)) 0x1C04 4) 0x130 0x240) 0x134 0x230) 0x138 0x250"

lemma small_sb: "sb_ok small_disk" "sb_geo small_disk = small_geo"
  by (simp_all add: sb_ok_def sb_geo_def Let_def small_disk_def ld32_def ld16_def ld8_def)

theorem ext2_mount_mounts_witness:
  "\<exists>fs s'. ext2_mount small_kern small_dev (small_start small_mount_ram) = Inr (fs, s') \<and> last_ext2 s' = fs \<and>
     priv_field fs p_first_bgd s' = 2 \<and> priv_field fs p_blocksize s' = 1024"
proof -
  let ?L = "{(small_dev, 28), (0x120, 28)} :: regions" and ?C = "small_contract small_disk" and ?s = "small_start small_mount_ram"
  have sym: "k_sym small_kern Ext2_fs = 0x120" by (simp add: small_kern_def)
  have "runs (stuck ?C) (\<lambda>(fs, s'). ext2_mounted small_kern ?C ?L small_dev small_disk 0 ?s fs s') (ext2_mount small_kern small_dev ?s)"
  proof (rule ext2_mount_mounts [OF small_kern_ok])
    show "inv ?C ?s ?L (1024 + (sizeof_priv_data + (sizeof_filesystem + 0)))" by (simp add: small_contract_def)
    show "field small_dev dev_type ?s = DEV_TYPE_BLK" by (simp add: field_def mem_simps)
  qed (simp_all add: small_contract_def sym small_sb apart_def)
  then obtain fs s' where e: "ext2_mount small_kern small_dev ?s = Inr (fs, s')" and m: "ext2_mounted small_kern ?C ?L small_dev small_disk 0 ?s fs s'"
    unfolding small_stuck runs_total by auto
  then show ?thesis unfolding ext2_mounted_def mounted_def small_sb(2) by auto
qed

end
