(* ===== verification/VfsRoot.thy ===== *)
theory VfsRoot
  imports Ext2Mount
begin

text \<open>
  Mounting the root and opening files: \<open>vfs_mount\<close> with the two file systems that the kernel registers, and
  \<open>vfs_open\<close> on an ext2 mount.
\<close>

section \<open>Mounts of ext2\<close>

definition ext2_at :: "'a vfs_state_scheme kern \<Rightarrow> 'a vfs_state_scheme contract \<Rightarrow> regions \<Rightarrow> nat \<Rightarrow> nat \<Rightarrow> geo \<Rightarrow> mem \<Rightarrow> 'a vfs_state_scheme \<Rightarrow> bool" where
  "ext2_at K C L m fs G D s \<longleftrightarrow> m \<noteq> 0 \<and> (m, sizeof_mount) \<in> L \<and> field m m_fs s = fs \<and> fs \<noteq> 0 \<and> mounted C L fs G D s \<and>
     field fs fs_open s = k_sym K Ext2_open \<and> field fs fs_stat s = k_sym K Ext2_stat"

lemma ext2_at_keeps:
  assumes "ext2_at K C L m fs G D s" "keeps L (ram s) (ram s')" "L \<subseteq> L'"
  shows "ext2_at K C L' m fs G D s'"
proof -
  have "(fs, sizeof_filesystem) \<in> L" "(m, sizeof_mount) \<in> L" using assms(1) by (simp_all add: ext2_at_def mounted_def)
  then have "field fs fs_open s' = field fs fs_open s" "field fs fs_stat s' = field fs fs_stat s" "field m m_fs s' = field m m_fs s"
    using field_keeps [OF assms(2)] by simp_all
  then show ?thesis using assms mounted_keeps unfolding ext2_at_def by auto
qed

section \<open>Opening\<close>

text \<open>A file that was just opened: nothing says that there is a file of that name.\<close>

definition opened :: "'a vfs_state_scheme kern \<Rightarrow> 'a vfs_state_scheme contract \<Rightarrow> regions \<Rightarrow> nat \<Rightarrow> nat \<Rightarrow> nat \<Rightarrow> 'a vfs_state_scheme \<Rightarrow> nat \<Rightarrow>
    'a vfs_state_scheme \<Rightarrow> bool" where
  "opened K C L r fs path s f s' \<longleftrightarrow> fresh L f sizeof_filesystem \<and> inv C s' (insert (f, sizeof_filesystem) L) r \<and> kept s s' \<and>
     keeps L (ram s) (ram s') \<and> field f f_fops s' = k_sym K Ext2_fops \<and> field f f_fs s' = fs \<and> field f f_respath s' = path \<and> field f f_pos s' = 0"

lemma runs_ext2_open:
  assumes K: "kern_ok K C" and i: "inv C s L (sizeof_filesystem + r)" and nz: "fs \<noteq> 0" "path \<noteq> 0"
    and w: "fs < W32" "path < W32" "k_sym K Ext2_fops < W32"
  shows "runs (stuck C) (\<lambda>(f, s'). opened K C L r fs path s f s') (ext2_open K fs path s)"
proof -
  have c: "\<not> (fs = 0 \<or> path = 0)" using nz by simp
  show ?thesis
    unfolding ext2_open_def if_not_P [OF c]
  proof (rule runs_malloc [OF K i], goal_cases alloc)
    case (alloc f s1)
    have f0: "f \<noteq> 0" using alloc(1) by (simp add: fresh_def)
    let ?s2 = "set_field f f_pos 0 (set_field f f_isdir (err_ptr (- 1)) (set_field f f_respath path
      (set_field f f_fs fs (set_field f f_fops (k_sym K Ext2_fops) s1))))"
    have out: "ram ?s2 x = ram s1 x" if "x \<notin> region (f, 28)" for x
      using that by (cases "x < f") (simp_all add: set_field_def st32_other region_def)
    have e: "?s2 = s1\<lparr>ram := ram ?s2\<rparr>" by (simp add: set_field_def)
    have i2: "inv C ?s2 (insert (f, 28) L) r"
      by (subst e, rule inv_cell [OF K alloc(2), of f 28]) (use out in \<open>auto simp: region_def\<close>)
    have k2: "keeps L (ram s) (ram ?s2)"
    proof (rule keeps_trans [OF alloc(4)])
      show "keeps L (ram s1) (ram ?s2)"
        unfolding keeps_def same_on_def
      proof (intro ballI)
        fix q x assume "q \<in> L" "x \<in> region q"
        moreover from this(1) have "apart f 28 (fst q) (snd q)" using alloc(1) by (auto simp: fresh_def)
        ultimately have "x \<notin> region (f, 28)" using apart_region [of f 28 "fst q" "snd q"] by auto
        then show "ram ?s2 x = ram s1 x" by (rule out)
      qed
    qed
    have kp: "kept s ?s2" by (subst e, rule kept_trans [OF alloc(3) kept_ram])
    have "opened K C L r fs path s f ?s2"
      unfolding opened_def using alloc(1) i2 k2 kp w by (simp add: field_def set_field_def mem_simps)
    then show ?case unfolding case_prod_conv if_not_P [OF f0] by simp
  qed
qed

lemma opened_file:
  assumes o: "opened K C L r fs path s f s'" and m: "mounted C L fs G D s" and sl: "slash_ok K L (ram s)" and p: "text_in L (ram s) path t"
    and len: "length t < 2147483647" and w: "path_ok G D 2 (tokens [47] t)" "path_walk G D 2 (tokens [47] t) = int n" "inode_ok G D n"
  shows "open_file K C (insert (f, sizeof_filesystem) L) f fs G D t n s'"
proof -
  let ?L = "insert (f, sizeof_filesystem) L"
  have k: "keeps L (ram s) (ram s')" and f: "field f f_fs s' = fs" "field f f_respath s' = path" using o by (simp_all add: opened_def)
  have "text_in ?L (ram s') path t" by (rule text_in_keeps [OF p k]) auto
  moreover have "mounted C ?L fs G D s'" by (rule mounted_keeps [OF m k]) auto
  moreover have "slash_ok K ?L (ram s')" by (rule slash_keeps [OF sl k]) auto
  ultimately show ?thesis unfolding open_file_def text_in_def using f len w by simp
qed

lemma longest_mount_unique:
  assumes "longest_mount ms root t a" "longest_mount ms root t b"
  shows "a = b"
proof (cases "\<exists>n>1. n \<le> length t \<and> mount_at ms (take n t) \<noteq> 0")
  case False
  then have "c = root" if "longest_mount ms root t c" for c using that unfolding longest_mount_def by auto
  then show ?thesis using assms by blast
next
  case True
  then obtain n where n: "1 < n" "n \<le> length t" "mount_at ms (take n t) \<noteq> 0" by blast
  define hit where "hit c k \<longleftrightarrow> 1 < k \<and> k \<le> length t \<and> c = mount_at ms (take k t) \<and> c \<noteq> 0 \<and>
    (\<forall>j. k < j \<and> j \<le> length t \<longrightarrow> mount_at ms (take j t) = 0)" for c k
  have ex: "\<exists>k. hit c k" if "longest_mount ms root t c" for c
    using that unfolding longest_mount_def
  proof (elim disjE)
    assume "c = root \<and> (\<forall>j>1. j \<le> length t \<longrightarrow> mount_at ms (take j t) = 0)"
    then have "mount_at ms (take n t) = 0" using n(1,2) by simp
    then show ?thesis using n(3) by simp
  qed (auto simp: hit_def)
  have le: "\<not> k < l" if "hit c k" "hit d l" for c d k l using that unfolding hit_def by (metis neq0_conv)
  obtain k l where kl: "hit a k" "hit b l" using ex [OF assms(1)] ex [OF assms(2)] by blast
  then have "k = l" using le [OF kl] le [OF kl(2,1)] by simp
  then show ?thesis using kl by (simp add: hit_def)
qed

lemma runs_vfs_open:
  assumes K: "kern_ok K C" and i: "inv C s L (Suc (length t) + (sizeof_filesystem + r))" and ms: "mount_table L ms s" and sl: "slash_ok K L (ram s)"
    and p: "text_in L (ram s) path t" "path \<noteq> 0" "path < W32" and len: "length t < 2147483647" and sy: "k_sym K Ext2_fops < W32"
    and lm: "longest_mount ms (root_mount s) t m" and at: "ext2_at K C L m fs G D s"
    and P: "\<And>f s' s1. opened K C L r fs path s1 f s' \<Longrightarrow> kept s s1 \<Longrightarrow> keeps L (ram s) (ram s1) \<Longrightarrow> runs (stuck C) P (g (f, s'))"
  shows "runs (stuck C) P (bindR (vfs_open K path s) g)"
proof -
  have "runs (stuck C) (\<lambda>(m', s'). longest_mount ms (root_mount s) t m' \<and> inv C s' L (sizeof_filesystem + r) \<and> kept s s' \<and> keeps L (ram s) (ram s'))
      (find_mount K path s)"
    by (rule runs_find_mount [OF K i ms sl p(1) len])
  then show ?thesis
    unfolding vfs_open_def bindR_assoc
  proof (rule runs_bind_mono)
    fix x assume x: "case x of (m', s') \<Rightarrow> longest_mount ms (root_mount s) t m' \<and> inv C s' L (sizeof_filesystem + r) \<and> kept s s' \<and> keeps L (ram s) (ram s')"
    then obtain s1 where s1: "x = (m, s1)" "inv C s1 L (sizeof_filesystem + r)" "kept s s1" "keeps L (ram s) (ram s1)"
      using longest_mount_unique [OF lm] by (cases x) auto
    have a1: "ext2_at K C L m fs G D s1" by (rule ext2_at_keeps [OF at s1(4)]) simp
    then have a: "m \<noteq> 0" "field m m_fs s1 = fs" "fs \<noteq> 0" "field fs fs_open s1 = k_sym K Ext2_open" by (simp_all add: ext2_at_def)
    have "fs < W32" using a(2) by (auto simp: field_def intro: ld32_bound)
    then have "runs (stuck C) (\<lambda>(f, s'). opened K C L r fs path s1 f s') (ext2_open K fs path s1)"
      using runs_ext2_open [OF K s1(2) a(3) p(2)] p(3) sy by simp
    then have "runs (stuck C) P (bindR (ext2_open K fs path s1) g)"
      by (rule runs_bind_mono) (auto intro: P s1(3,4))
    then show "runs (stuck C) P (bindR (case x of (m, st1) \<Rightarrow> if m = 0 then Inl (Undefined ''null mount'')
        else let fs = field m m_fs st1 in call_open K (field fs fs_open st1) fs path st1) g)"
      using a by (simp add: s1(1) call_open_def Let_def)
  qed
qed

text \<open>
  Opening a path on an ext2 mount gives a new file of that file system with the operations of ext2, at position 0, which keeps the
  caller's pointer to the path. It succeeds whether or not the path exists: the path is only looked up by the reads.
\<close>

theorem vfs_open_opens:
  assumes "kern_ok K C" "inv C s L (Suc (length t) + (sizeof_filesystem + r))" "mount_table L ms s" "slash_ok K L (ram s)"
    "text_in L (ram s) path t" "path \<noteq> 0" "path < W32" "length t < 2147483647" "k_sym K Ext2_fops < W32"
    "longest_mount ms (root_mount s) t m" "ext2_at K C L m fs G D s"
  shows "runs (stuck C) (\<lambda>(f, s'). opened K C L r fs path s f s') (vfs_open K path s)"
proof -
  have "runs (stuck C) (\<lambda>(f, s'). opened K C L r fs path s f s') (bindR (vfs_open K path s) Inr)"
    by (rule runs_vfs_open [OF assms]) (auto simp: opened_def intro: kept_trans keeps_trans)
  then show ?thesis by simp
qed

section \<open>Mounting\<close>

lemma mount_table_mono: "mount_table L ms s \<Longrightarrow> L \<subseteq> L' \<Longrightarrow> mount_table L' ms s"
  unfolding mount_table_def text_in_def by blast

text \<open>The table with one more mount, \<open>m\<close>, of file system \<open>fs\<close> at the text \<open>t\<close>.\<close>

definition mount_added :: "'a vfs_state_scheme contract \<Rightarrow> regions \<Rightarrow> nat \<Rightarrow> (u8 list \<times> nat) list \<Rightarrow> u8 list \<Rightarrow> nat \<Rightarrow> 'a vfs_state_scheme \<Rightarrow> nat \<Rightarrow>
    'a vfs_state_scheme \<Rightarrow> bool" where
  "mount_added C L r ms t fs s m s' \<longleftrightarrow> fresh L m sizeof_mount \<and> inv C s' (insert (m, sizeof_mount) L) r \<and> keeps L (ram s) (ram s') \<and>
     mount_table (insert (m, sizeof_mount) L) (ms @ [(t, m)]) s' \<and> field m m_fs s' = fs \<and>
     root_mount s' = (if t = [47] then m else root_mount s) \<and> strtok_sp s' = strtok_sp s"

lemma mount_table_add:
  assumes "mount_table L ms s" "length ms < MAX_MOUNTS" "keeps L (ram s) (ram s')" "text_in L (ram s') path t" "m \<noteq> 0"
    "mounts s' = (mounts s)[nmounts s := m]" "nmounts s' = nmounts s + 1" "field m m_point s' = path"
  shows "mount_table (insert (m, sizeof_mount) L) (ms @ [(t, m)]) s'"
proof -
  let ?L = "insert (m, sizeof_mount) L"
  have n: "nmounts s = length ms" "length (mounts s) = MAX_MOUNTS" using assms(1) by (simp_all add: mount_table_def)
  have old: "mounts s' ! i = snd (ms ! i) \<and> snd (ms ! i) \<noteq> 0 \<and> (snd (ms ! i), sizeof_mount) \<in> ?L \<and>
      text_in ?L (ram s') (field (snd (ms ! i)) m_point s') (fst (ms ! i))" if i: "i < length ms" for i
  proof -
    have e: "mounts s ! i = snd (ms ! i)" "snd (ms ! i) \<noteq> 0" "(snd (ms ! i), sizeof_mount) \<in> L"
      "text_in L (ram s) (field (snd (ms ! i)) m_point s) (fst (ms ! i))" using assms(1) i by (auto simp: mount_table_def)
    have "field (snd (ms ! i)) m_point s' = field (snd (ms ! i)) m_point s" by (rule field_keeps [OF assms(3) e(3)]) simp
    moreover have "text_in ?L (ram s') (field (snd (ms ! i)) m_point s) (fst (ms ! i))" by (rule text_in_keeps [OF e(4) assms(3)]) auto
    ultimately show ?thesis using e i n assms(6) by simp
  qed
  have new: "text_in ?L (ram s') path t" using assms(4) by (auto simp: text_in_def)
  show ?thesis
    unfolding mount_table_def using old new n assms(2,5-8) by (auto simp: nth_append less_Suc_eq)
qed

lemma runs_vfs_set_mount:
  assumes K: "kern_ok K C" and i: "inv C s L (sizeof_mount + r)" and ms: "mount_table L ms s" "length ms < MAX_MOUNTS" and sl: "slash_ok K L (ram s)"
    and p: "text_in L (ram s) path t" and w: "path < W32" "fs < W32"
  shows "runs (stuck C) (\<lambda>(rc, s'). rc = 0 \<and> (\<exists>m. mount_added C L r ms t fs s m s')) (vfs_set_mount K path dev fs s)"
  unfolding vfs_set_mount_def
proof (rule runs_malloc [OF K i], goal_cases alloc)
  case (alloc m s1)
  have m0: "m \<noteq> 0" using alloc(1) by (simp add: fresh_def)
  define s2 where "s2 = set_field m m_dev dev (set_field m m_fs fs (set_field m m_point path s1))"
  have s2: "mounts s2 = mounts s" "nmounts s2 = nmounts s" "root_mount s2 = root_mount s" "strtok_sp s2 = strtok_sp s"
    using kept_sel [OF alloc(3)] by (simp_all add: s2_def set_field_def)
  have n: "nmounts s = length ms" "length (mounts s) = MAX_MOUNTS" using ms by (simp_all add: mount_table_def)
  have out: "ram s2 x = ram s1 x" if "x \<notin> region (m, 12)" for x
    using that by (cases "x < m") (simp_all add: s2_def set_field_def st32_other region_def)
  have k2: "keeps L (ram s) (ram s2)"
  proof (rule keeps_trans [OF alloc(4)])
    show "keeps L (ram s1) (ram s2)"
      unfolding keeps_def same_on_def
    proof (intro ballI)
      fix q x assume "q \<in> L" "x \<in> region q"
      moreover from this(1) have "apart m 12 (fst q) (snd q)" using alloc(1) by (auto simp: fresh_def)
      ultimately have "x \<notin> region (m, 12)" using apart_region [of m 12 "fst q" "snd q"] by auto
      then show "ram s2 x = ram s1 x" by (rule out)
    qed
  qed
  define s4 where "s4 = say ''vfs: mounted %x on %x to %x'' [int (field fs fs_fsname (s2\<lparr>mounts := (mounts s2)[nmounts s2 := m], nmounts := nmounts s2 + 1\<rparr>)),
    int (field dev dev_name (s2\<lparr>mounts := (mounts s2)[nmounts s2 := m], nmounts := nmounts s2 + 1\<rparr>)), int path]
    (s2\<lparr>mounts := (mounts s2)[nmounts s2 := m], nmounts := nmounts s2 + 1\<rparr>)"
  have r4: "ram s4 = ram s2" by (simp add: s4_def say_def)
  have tp: "text_in L (ram s4) path t" using text_in_keeps [OF p k2] r4 by simp
  have sl4: "slash_ok K L (ram s4)" using slash_keeps [OF sl k2] r4 by simp
  have c: "cstr (ram s4) path t" "cstr (ram s4) (k_sym K Slash) [47]" using tp sl4 by (simp_all add: text_in_def slash_ok_def)
  have "0 \<notin> set t" using c(1) by (simp add: cstr_iff)
  then have cmp: "strcmp (ram s4) path (k_sym K Slash) = Some (cmp_spec t [47])" "(cmp_spec t [47] = 0) = (t = [47])"
    using strcmp_cstr [OF c] cmp_spec_eq_0 [of t "[47]"] by simp_all
  define s5 where "s5 = (if t = [47] then s4\<lparr>root_mount := m\<rparr> else s4)"
  have r5: "ram s5 = ram s2" by (simp add: s5_def r4)
  have "inv C s5 (insert (m, 12) L) r"
  proof (rule inv_write [OF K alloc(2)])
    show "same_on (- (\<Union>q\<in>insert (m, 12) L. region q)) (ram s1) (ram s5)" using out by (auto simp: r5 same_on_def)
  qed (simp_all add: s5_def s4_def s2_def say_def set_field_def)
  moreover have "mount_table (insert (m, 12) L) (ms @ [(t, m)]) s5"
  proof (rule mount_table_add [OF ms, where path = path])
    show "field m m_point s5 = path" using w by (simp add: field_def r5 s2_def set_field_def mem_simps)
    show "text_in L (ram s5) path t" using tp by (simp add: r5 r4)
  qed (use m0 k2 s2 in \<open>simp_all add: r5, simp_all add: s5_def s4_def say_def\<close>)
  moreover have "field m m_fs s5 = fs" using w by (simp add: field_def r5 s2_def set_field_def mem_simps)
  moreover have "root_mount s5 = (if t = [47] then m else root_mount s)" "strtok_sp s5 = strtok_sp s"
    using s2 by (simp_all add: s5_def s4_def say_def)
  ultimately have "mount_added C L r ms t fs s m s5" using alloc(1) k2 by (simp add: mount_added_def r5)
  moreover have "\<not> MAX_MOUNTS \<le> nmounts s2" using ms(2) n s2 by simp
  ultimately show ?case
    unfolding case_prod_conv if_not_P [OF m0] Let_def s2_def [symmetric] s4_def [symmetric]
    by (auto simp: cmp s5_def [symmetric])
qed

text \<open>The file systems that \<open>vfs_init\<close> registers: devfs, which never mounts anything, and a copy of the static ext2 struct.\<close>

definition boot_filesystems :: "'a vfs_state_scheme kern \<Rightarrow> regions \<Rightarrow> 'a vfs_state_scheme \<Rightarrow> bool" where
  "boot_filesystems K L s \<longleftrightarrow> nfilesystems s = 2 \<and> k_sym K Devfs_mount \<noteq> 0 \<and> k_sym K Ext2_mount \<noteq> 0 \<and>
     k_sym K Ext2_mount \<noteq> k_sym K Devfs_mount \<and> (k_sym K Ext2_fs, sizeof_filesystem) \<in> L \<and>
     field (filesystems s ! 0) fs_mount s = k_sym K Devfs_mount \<and> field (filesystems s ! 1) fs_mount s = k_sym K Ext2_mount \<and>
     field (k_sym K Ext2_fs) fs_open s = k_sym K Ext2_open \<and> field (k_sym K Ext2_fs) fs_stat s = k_sym K Ext2_stat"

lemma sint32_err: "sint32 (err_ptr (- ENODEV)) \<le> 0"
  by (simp add: sint32_def err_ptr_def)

lemma mount_fs_boot:
  assumes "boot_filesystems K L s"
  shows "vfs_mount_fs K dev s = bindR (ext2_mount K dev s) (\<lambda>(fs, s1). Inr (if sint32 fs > 0 then fs else 0, s1))"
proof -
  have n: "nfilesystems s = Suc (Suc 0)" using assms by (simp add: boot_filesystems_def)
  have "\<not> 0 < sint32 (err_ptr (- ENODEV))" using sint32_err by simp
  then show ?thesis
    using assms unfolding vfs_mount_fs_def n boot_filesystems_def
    by (cases "ext2_mount K dev s") (auto simp: call_mount_def devfs_mount_def Let_def)
qed

definition root_mounted :: "'a vfs_state_scheme kern \<Rightarrow> 'a vfs_state_scheme contract \<Rightarrow> regions \<Rightarrow> mem \<Rightarrow> nat \<Rightarrow> (u8 list \<times> nat) list \<Rightarrow>
    'a vfs_state_scheme \<Rightarrow> 'a vfs_state_scheme \<Rightarrow> bool" where
  "root_mounted K C L D r ms s s' \<longleftrightarrow> strtok_sp s' = strtok_sp s \<and> keeps L (ram s) (ram s') \<and>
     (\<exists>L' fs. L \<subseteq> L' \<and> inv C s' L' r \<and> ext2_at K C L' (root_mount s') fs (sb_geo D) D s' \<and>
        mount_table L' (ms @ [([47], root_mount s')]) s')"

text \<open>
  C9. Mounting a block device with an ext2 file system on / makes it the root: the mount is added to the
  table and recorded as the root mount, its file system has the geometry of the superblock and the operations of ext2, and all memory in
  use but the device struct is as before.
\<close>

theorem vfs_mount_root:
  assumes K: "kern_ok K C" and i: "inv C s (insert (dev, sizeof_device) L) (1024 + (sizeof_priv_data + (sizeof_filesystem + (sizeof_mount + r))))"
    and dev: "sep L dev sizeof_device" "disk C dev = Some D" "field dev dev_type s = DEV_TYPE_BLK" "dev < W32" and sb: "sb_ok D"
    and fss: "boot_filesystems K L s" and ms: "mount_table L ms s" "length ms < MAX_MOUNTS" and sl: "slash_ok K L (ram s)"
    and p: "text_in L (ram s) path [47]" "path < W32"
  shows "runs (stuck C) (\<lambda>(rc, s'). rc = 0 \<and> root_mounted K C L D r ms s s') (vfs_mount K path dev s)"
proof -
  let ?L = "insert (dev, sizeof_device) L" and ?e = "k_sym K Ext2_fs"
  have e: "(?e, sizeof_filesystem) \<in> ?L" "apart dev sizeof_device ?e sizeof_filesystem"
    using fss dev(1) by (auto simp: boot_filesystems_def sep_def)
  have c: "cstr (ram s) path [47]" "cstr (ram s) (k_sym K Slash) [47]" using p sl by (simp_all add: text_in_def slash_ok_def)
  have same: "(if root_mount s = 0 then hang (strcmp (ram s) (k_sym K Slash) path) else Inr 0) = Inr 0"
    using strcmp_cstr [OF c(2,1)] cmp_spec_eq_0 [of "[47]" "[47]"] by simp
  have go: "\<not> (root_mount s = 0 \<and> (0 :: nat) \<noteq> 0)" by simp
  show ?thesis
    unfolding vfs_mount_def same bindR_simps if_not_P [OF go] mount_fs_boot [OF fss] bindR_assoc
  proof (rule runs_bind_mono [OF runs_ext2_mount [OF K i _ dev(2,3,4) e sb]], goal_cases device step)
    case (step x)
    obtain fs s1 where x: "x = (fs, s1)" by (cases x)
    have em: "ext2_mounted K C ?L dev D (sizeof_mount + r) s fs s1" using step(2) by (simp add: x)
    then obtain b q where q: "inv C s1 ({(b, 1024), (q, sizeof_priv_data), (fs, sizeof_filesystem)} \<union> ?L) (sizeof_mount + r)"
      "mounted C ({(b, 1024), (q, sizeof_priv_data), (fs, sizeof_filesystem)} \<union> ?L) fs (sb_geo D) D s1"
      and o: "0 < fs" "fs < 2147483648" "strtok_sp s1 = strtok_sp s" "mounts s1 = mounts s" "nmounts s1 = nmounts s" "root_mount s1 = root_mount s"
      and m: "\<forall>q\<in>?L. same_on (region q - region (dev + dev_fs, 4)) (ram s) (ram s1)"
      and f: "\<forall>off\<in>{fs_stat, fs_open, fs_mount}. field fs off s1 = field ?e off s"
      unfolding ext2_mounted_def by blast
    let ?L1 = "{(b, 1024), (q, sizeof_priv_data), (fs, sizeof_filesystem)} \<union> ?L"
    have k1: "keeps L (ram s) (ram s1)"
      unfolding keeps_def
    proof
      fix z assume z: "z \<in> L"
      then have "apart dev 28 (fst z) (snd z)" using dev(1) by (auto simp: sep_def)
      then have "region z - region (dev + 24, 4) = region z" by (auto simp: region_def apart_def)
      then show "same_on (region z) (ram s) (ram s1)" using m z by auto
    qed
    have ms1: "mount_table ?L1 ms s1"
    proof -
      have "mount_table L ms (s\<lparr>ram := ram s1\<rparr>)" by (rule mount_table_keeps [OF ms(1) kept_ram]) (use k1 in simp_all)
      then have "mount_table L ms s1" by (simp add: mount_table_def o field_def)
      then show ?thesis by (rule mount_table_mono) auto
    qed
    have sl1: "slash_ok K ?L1 (ram s1)" and p1: "text_in ?L1 (ram s1) path [47]"
      by (rule slash_keeps [OF sl k1] text_in_keeps [OF p(1) k1], blast)+
    have fsW: "fs < W32" using o(2) by simp
    have pos: "0 < sint32 fs" using o(1,2) by (simp add: sint32_def)
    have "runs (stuck C) (\<lambda>(rc, s'). rc = 0 \<and> root_mounted K C L D r ms s s') (vfs_set_mount K path dev fs s1)"
    proof (rule runs_mono [OF runs_vfs_set_mount [OF K q(1) ms1 ms(2) sl1 p1 p(2) fsW, of dev]], goal_cases result halt)
      case (result y)
      then obtain s2 mt where y: "y = (0, s2)" and a: "mount_added C ?L1 r ms [47] fs s1 mt s2" by (cases y) auto
      let ?L2 = "insert (mt, sizeof_mount) ?L1"
      have k2: "keeps ?L1 (ram s1) (ram s2)" and rt: "root_mount s2 = mt" using a by (simp_all add: mount_added_def)
      have "field fs fs_open s2 = field fs fs_open s1" "field fs fs_stat s2 = field fs fs_stat s1"
        using field_keeps [OF k2, of fs sizeof_filesystem] by simp_all
      then have "ext2_at K C ?L2 mt fs (sb_geo D) D s2"
        using a f fss o(1) mounted_keeps [OF q(2) k2, of ?L2] by (auto simp: ext2_at_def mount_added_def fresh_def boot_filesystems_def)
      moreover have "keeps L (ram s) (ram s2)" by (rule keeps_trans [OF k1 keeps_mono [OF k2]]) auto
      moreover have "L \<subseteq> ?L2" by auto
      ultimately have "root_mounted K C L D r ms s s2"
        unfolding root_mounted_def using a o(3) rt by (auto simp: mount_added_def)
      then show ?case by (simp add: y)
    qed
    then show ?case using pos o(1) by (simp add: x)
  qed simp
qed

text \<open>The small disk again, with devfs at 0x160 and ext2 at 0x120 registered.\<close>

definition small_unmounted :: small_state where
  "small_unmounted = (small_start (st32 small_mount_ram 0x178 0x270))\<lparr>filesystems := [0x160, 0x120, 0, 0, 0, 0, 0, 0], nfilesystems := 2\<rparr>"

abbreviation (input) unmounted_regions :: regions where "unmounted_regions \<equiv> insert (0x120, 28) small_regions"

lemma unmounted_fields:
  "field 0x1C00 dev_type small_unmounted = DEV_TYPE_BLK" "field 0x160 fs_mount small_unmounted = 0x270" "field 0x120 fs_mount small_unmounted = 0x250"
  "field 0x120 fs_open small_unmounted = 0x230" "field 0x120 fs_stat small_unmounted = 0x240"
  by (simp_all add: field_def small_unmounted_def mem_simps)

lemma unmounted_strings: "cstr (ram small_unmounted) 0x100 [47]"
  by (simp add: small_unmounted_def st32_other small_ram_def)

theorem vfs_mount_root_witness:
  "\<exists>s'. vfs_mount small_kern 0x100 small_dev small_unmounted = Inr (0, s') \<and> root_mount s' \<noteq> 0 \<and> nmounts s' = 1"
proof -
  let ?C = "small_contract small_disk"
  have sym: "k_sym small_kern Slash = 0x100" "k_sym small_kern Ext2_fs = 0x120" "k_sym small_kern Ext2_mount = 0x250"
    "k_sym small_kern Devfs_mount = 0x270" "k_sym small_kern Ext2_open = 0x230" "k_sym small_kern Ext2_stat = 0x240" by (simp_all add: small_kern_def)
  have fl: "filesystems small_unmounted = [0x160, 0x120, 0, 0, 0, 0, 0, 0]" "nfilesystems small_unmounted = 2" "mounts small_unmounted = replicate 256 0"
    "nmounts small_unmounted = 0" by (simp_all add: small_unmounted_def)
  have "runs (stuck ?C) (\<lambda>(rc, s'). rc = 0 \<and> root_mounted small_kern ?C unmounted_regions small_disk 0 [] small_unmounted s')
      (vfs_mount small_kern 0x100 small_dev small_unmounted)"
  proof (rule vfs_mount_root [OF small_kern_ok])
    show "inv ?C small_unmounted (insert (small_dev, sizeof_device) unmounted_regions)
        (1024 + (sizeof_priv_data + (sizeof_filesystem + (sizeof_mount + 0))))"
      by (simp add: small_contract_def small_regions_def small_unmounted_def)
    show "boot_filesystems small_kern unmounted_regions small_unmounted"
      by (simp add: boot_filesystems_def sym fl unmounted_fields [simplified])
    show "mount_table unmounted_regions [] small_unmounted" by (simp add: mount_table_def fl)
    show "text_in unmounted_regions (ram small_unmounted) 0x100 [47]"
      unfolding text_in_def by (rule conjI [OF unmounted_strings], rule exI [of _ "0x100"], rule exI [of _ 2]) (simp add: small_regions_def)
    show "slash_ok small_kern unmounted_regions (ram small_unmounted)"
      using unmounted_strings by (simp add: slash_ok_def sym small_regions_def)
  qed (simp_all add: small_sb unmounted_fields [simplified], simp_all add: small_contract_def small_regions_def sep_def apart_def)
  then obtain s' where e: "vfs_mount small_kern 0x100 small_dev small_unmounted = Inr (0, s')"
    and m: "root_mounted small_kern ?C unmounted_regions small_disk 0 [] small_unmounted s'"
    unfolding small_stuck runs_total by auto
  then show ?thesis by (auto simp: root_mounted_def ext2_at_def mount_table_def)
qed

text \<open>The mounted file system at 0x1000 as the root, with the mount struct at 0x2400.\<close>

definition small_rooted :: small_state where
  "small_rooted = (small_start (st32 (st32 (st32 (st32 (st32 small_ram 0x140 0x210) 0x1014 0x230) 0x1010 0x240) 0x2400 0x100) 0x2404 0x1000))
     \<lparr>mounts := (replicate 256 0)[0 := 0x2400], nmounts := 1, root_mount := 0x2400\<rparr>"

abbreviation (input) rooted_regions :: regions where "rooted_regions \<equiv> insert (0x140, 8) (insert (0x2400, 12) small_regions)"

lemma small_frame:
  assumes "\<And>x. x < 0x140 \<or> (0x144 \<le> x \<and> x < 0x1010) \<or> (0x1018 \<le> x \<and> x < 0x2400) \<Longrightarrow> m x = small_ram x"
  shows "ld32 m 0x1004 = 0x1100" "ld32 m 0x1008 = small_dev" "ld32 m (0x1100 + 40) = 16" "ld32 m (0x1100 + 1024) = 2"
    "ld32 m (0x1100 + 1032) = 1024" "ld32 m (0x1100 + 1036) = 2" "ld32 m (0x1100 + 1040) = 8" "ld32 m 0x2004 = 0x1000"
    "ld32 m 0x2008 = 0x2100" "ld32 m 0x2010 = 0" "cstr m 0x100 [47]" "cstr m 0x2100 [47, 97, 98]"
proof -
  have l: "ld32 m a = ld32 small_ram a" if "a + 4 \<le> 0x140 \<or> (0x144 \<le> a \<and> a + 4 \<le> 0x1010) \<or> (0x1018 \<le> a \<and> a + 4 \<le> 0x2400)" for a
    by (rule ld32_frame) (use that in \<open>auto simp: same_on_def intro!: assms\<close>)
  show "ld32 m 0x1004 = 0x1100" "ld32 m 0x1008 = small_dev" "ld32 m (0x1100 + 40) = 16" "ld32 m (0x1100 + 1024) = 2"
    "ld32 m (0x1100 + 1032) = 1024" "ld32 m (0x1100 + 1036) = 2" "ld32 m (0x1100 + 1040) = 8" "ld32 m 0x2004 = 0x1000"
    "ld32 m 0x2008 = 0x2100" "ld32 m 0x2010 = 0"
    using small_fields [simplified] by (simp_all add: l)
  show "cstr m 0x100 [47]" "cstr m 0x2100 [47, 97, 98]" using small_strings by (simp_all add: assms)
qed

lemma rooted_frame: "x < 0x140 \<or> (0x144 \<le> x \<and> x < 0x1010) \<or> (0x1018 \<le> x \<and> x < 0x2400) \<Longrightarrow> ram small_rooted x = small_ram x"
  by (auto simp: small_rooted_def st32_other)

lemma rooted_strings: "cstr (ram small_rooted) 0x100 [47]" "cstr (ram small_rooted) 0x2100 [47, 97, 98]"
  by (rule small_frame [OF rooted_frame], simp)+

lemma rooted_mounted: "mounted (small_contract small_disk) rooted_regions 0x1000 small_geo small_disk small_rooted"
  using small_frame [OF rooted_frame, simplified]
  by (simp add: mounted_def EXT2_PRIV_def priv_field_def field_def geo_ok_def small_regions_def small_contract_def)

lemma rooted_at: "ext2_at small_kern (small_contract small_disk) rooted_regions 0x2400 0x1000 small_geo small_disk small_rooted"
  using rooted_mounted by (simp add: ext2_at_def field_def small_rooted_def mem_simps small_kern_def)

lemma rooted_slash: "slash_ok small_kern rooted_regions (ram small_rooted)"
  using rooted_strings by (simp add: slash_ok_def small_kern_def small_regions_def)

lemma rooted_path: "text_in rooted_regions (ram small_rooted) 0x2100 [47, 97, 98]"
  unfolding text_in_def by (rule conjI [OF rooted_strings(2)], rule exI [of _ "0x2100"], rule exI [of _ 4]) (simp add: small_regions_def)

lemma rooted_table: "mount_table rooted_regions [([47], 0x2400)] small_rooted"
proof -
  have "field 0x2400 m_point small_rooted = 0x100" by (simp add: field_def small_rooted_def mem_simps)
  moreover have "text_in rooted_regions (ram small_rooted) 0x100 [47]"
    unfolding text_in_def by (rule conjI [OF rooted_strings(1)], rule exI [of _ "0x100"], rule exI [of _ 2]) (simp add: small_regions_def)
  ultimately show ?thesis by (simp add: mount_table_def small_rooted_def)
qed

lemma rooted_longest: "longest_mount [([47], 0x2400)] (root_mount small_rooted) [47, 97, 98] 0x2400"
proof -
  have "mount_at [([47], 0x2400)] (take j [47, 97, 98 :: u8]) = 0" if "1 < j" for j
    using that by (cases j rule: nat.exhaust; cases "j - 1") (auto simp: mount_at_def)
  then show ?thesis by (auto simp: longest_mount_def small_rooted_def)
qed

lemma rooted_inv: "r < 0x70000000 \<Longrightarrow> inv (small_contract small_disk) small_rooted rooted_regions r"
  by (simp add: small_contract_def small_regions_def small_rooted_def)

theorem vfs_open_opens_witness:
  "\<exists>f s'. vfs_open small_kern 0x2100 small_rooted = Inr (f, s') \<and> field f f_fs s' = 0x1000 \<and> field f f_respath s' = 0x2100"
proof -
  have "runs (stuck (small_contract small_disk)) (\<lambda>(f, s'). opened small_kern (small_contract small_disk) rooted_regions 0 0x1000 0x2100 small_rooted f s')
      (vfs_open small_kern 0x2100 small_rooted)"
  proof (rule vfs_open_opens [OF small_kern_ok _ rooted_table rooted_slash rooted_path _ _ _ _ rooted_longest rooted_at])
    show "inv (small_contract small_disk) small_rooted rooted_regions (Suc (length [47, 97, 98 :: u8]) + (sizeof_filesystem + 0))"
      by (rule rooted_inv) simp
  qed (simp_all add: small_kern_def)
  then show ?thesis unfolding small_stuck runs_total by (auto simp: opened_def)
qed

end
