(* ===== verification/SyscallProps.thy ===== *)
theory SyscallProps
  imports Syscall VfsRoot
begin

text \<open>
  System calls as the caller sees them: the registers come back with the result in eax, and the calls on files do to
  the file table and to the caller's memory what they promise.
\<close>

section \<open>Entry and return\<close>

lemma syscalls_simps:
  "length (syscalls K cw) = 256" "syscalls K cw ! 1 = Some syscall_exit" "syscalls K cw ! 3 = Some (syscall_read K)"
  "syscalls K cw ! 4 = Some (syscall_write K cw)" "syscalls K cw ! 5 = Some (syscall_open K)" "syscalls K cw ! 6 = Some syscall_close"
  "syscalls K cw ! 18 = Some (syscall_stat K)"
  by (simp_all add: syscalls_def)

lemma syscalls_none: "n < 256 \<Longrightarrow> n \<notin> {1, 3, 4, 5, 6, 18} \<Longrightarrow> syscalls K cw ! n = None"
  by (auto simp: syscalls_def nth_append nth_Cons' split: if_splits)

text \<open>The variables of the file systems and what lies beyond are the same.\<close>

definition same_files :: "'a vfs_state_scheme \<Rightarrow> 'a vfs_state_scheme \<Rightarrow> bool" where
  "same_files s s' \<longleftrightarrow> vfs_state.more s' = vfs_state.more s \<and> port_log s' = port_log s \<and> hw s' = hw s \<and> strtok_sp s' = strtok_sp s \<and>
     mounts s' = mounts s \<and> nmounts s' = nmounts s \<and> root_mount s' = root_mount s \<and> filesystems s' = filesystems s \<and>
     nfilesystems s' = nfilesystems s \<and> last_ext2 s' = last_ext2 s \<and> procs s' = procs s \<and> current s' = current s"

text \<open>
  \<open>entered\<close>: thread \<open>t\<close> has made the call, its registers are saved and the frame lies below its stack pointer.
  \<open>returned\<close>: it goes on with the result \<open>v\<close>.
\<close>

definition entered :: "nat \<Rightarrow> thread \<Rightarrow> 'a vfs_state_scheme \<Rightarrow> 'a vfs_state_scheme \<Rightarrow> bool" where
  "entered t th s s1 \<longleftrightarrow> same_files s s1 \<and> same_on (- {r_esp (cpu s) - 52..<r_esp (cpu s)}) (ram s) (ram s1) \<and>
     threads s1 = (threads s)(t \<mapsto> th\<lparr>t_regs := (cpu s)\<lparr>r_magic := 0x13371337\<rparr>\<rparr>)"

definition returned :: "nat \<Rightarrow> int \<Rightarrow> 'a vfs_state_scheme \<Rightarrow> 'a vfs_state_scheme \<Rightarrow> 'a vfs_state_scheme \<Rightarrow> bool" where
  "returned t v s s2 s3 \<longleftrightarrow> same_files s2 s3 \<and> same_on (- {r_esp (cpu s) - 44..<r_esp (cpu s)}) (ram s2) (ram s3) \<and>
     (cpu s3)\<lparr>r_magic := r_magic (cpu s)\<rparr> = (cpu s)\<lparr>r_eax := nat (v mod int W32)\<rparr>"

lemma irq_entry_form:
  "irq_entry n st = Inr st' \<Longrightarrow> st' = st\<lparr>pre_pushal_esp := pre_pushal_esp st', ram := ram st', pre_irq_esp := pre_irq_esp st',
     pre_irq_regs := pre_irq_regs st', current_irq := n\<rparr>"
  by (auto simp: irq_entry_def save_pre_irq_regs_def Let_def split: if_splits)

definition caller :: "nat \<Rightarrow> thread \<Rightarrow> process \<Rightarrow> 'a vfs_state_scheme \<Rightarrow> bool" where
  "caller t th pr s \<longleftrightarrow> current s = t \<and> t \<noteq> 0 \<and> threads s t = Some th \<and> procs s (t_owner th) = Some pr \<and> regs_ok (cpu s) \<and> 52 \<le> r_esp (cpu s)"

definition still_called :: "nat \<Rightarrow> 'a vfs_state_scheme \<Rightarrow> 'a vfs_state_scheme \<Rightarrow> bool" where
  "still_called t s s2 \<longleftrightarrow> current s2 = t \<and> (\<exists>th. threads s2 t = Some th \<and> t_regs th = (cpu s)\<lparr>r_magic := 0x13371337\<rparr>)"

lemma sched_irq_enter:
  fixes s :: "'a vfs_state_scheme"
  assumes "caller t th pr s"
  obtains s1 where "entered t th s s1" "sched_irq 0x80 body s = bindR (body s1) (\<lambda>(sw, st3). if sw then Inr (True, st3) else bindR (send_eoi st3) (\<lambda>st4. Inr (False, st4)))"
proof -
  have c: "current s = t" "t \<noteq> 0" "threads s t = Some th" "regs_ok (cpu s)" "52 \<le> r_esp (cpu s)" using assms by (simp_all add: caller_def)
  obtain s1 where e: "irq_entry 0x80 s = Inr s1" "pre_irq_regs s1 = (cpu s)\<lparr>r_magic := 0x13371337\<rparr>"
    "same_on (- {r_esp (cpu s) - 52..<r_esp (cpu s)}) (ram s) (ram s1)"
    using irq_entry_saves [OF c(4,5)] by blast
  define a where "a = pre_pushal_esp s1"
  define b where "b = pre_irq_esp s1"
  define m where "m = ram s1"
  define g where "g = pre_irq_regs s1"
  have f: "s1 = s\<lparr>pre_pushal_esp := a, ram := m, pre_irq_esp := b, pre_irq_regs := g, current_irq := 0x80\<rparr>"
    using irq_entry_form [OF e(1)] by (simp add: a_def b_def m_def g_def)
  let ?s2 = "set_thread t (th\<lparr>t_regs := pre_irq_regs s1\<rparr>) s1"
  have cur: "current s1 = t" "threads s1 t = Some th" using c by (simp_all add: f)
  have "entered t th s ?s2" using e(2,3) unfolding entered_def same_files_def m_def [symmetric] by (simp add: f set_thread_def)
  moreover have "sched_irq 0x80 body s = bindR (body ?s2) (\<lambda>(sw, st3). if sw then Inr (True, st3) else bindR (send_eoi st3) (\<lambda>st4. Inr (False, st4)))"
    using c(2) cur by (simp add: sched_irq_def e(1) with_thread_def)
  ultimately show ?thesis by (rule that)
qed

lemma entered_say: "entered t th s s1 \<Longrightarrow> entered t th s (say f as s1)"
  by (simp add: entered_def same_files_def say_def)

lemma runs_syscall:
  fixes s :: "'a vfs_state_scheme"
  assumes c: "caller t th pr s" and n: "r_eax (cpu s) < 256"
    and h: "h = (case syscalls K cw ! r_eax (cpu s) of None \<Rightarrow> syscall_null | Some f \<Rightarrow> f)"
    and body: "\<And>s1. entered t th s s1 \<Longrightarrow>
      runs E (\<lambda>(rc, s2). \<exists>v. rc = Some v \<and> still_called t s s2 \<and> Q v s2) (h ((cpu s)\<lparr>r_magic := 0x13371337\<rparr>) s1)"
    and fin: "\<And>v s2 s3. Q v s2 \<Longrightarrow> current s2 = t \<Longrightarrow> returned t v s s2 s3 \<Longrightarrow> P (True, s3)"
  shows "runs E P (sched_irq 0x80 (syscall_hub K cw) s)"
proof -
  obtain s1 where s1: "entered t th s s1"
    and irq: "sched_irq 0x80 (syscall_hub K cw) s = bindR (syscall_hub K cw s1) (\<lambda>(sw, st3). if sw then Inr (True, st3) else bindR (send_eoi st3) (\<lambda>st4. Inr (False, st4)))"
    using sched_irq_enter [OF c] by blast
  let ?r = "(cpu s)\<lparr>r_magic := 0x13371337\<rparr>"
  have cc: "current s1 = t" "threads s1 t = Some (th\<lparr>t_regs := ?r\<rparr>)" "procs s1 (t_owner th) = Some pr"
    using s1 c by (simp_all add: entered_def same_files_def caller_def)
  define s1' where "s1' = say ''Process \"%s\" called system call %d'' [int (p_comm pr), sint32 (r_eax (cpu s))] s1"
  have e1: "entered t th s s1'" unfolding s1'_def by (rule entered_say [OF s1])
  have n': "\<not> 256 \<le> r_eax (cpu s)" using n by simp
  have hub: "syscall_hub K cw s1 = bindR (h ?r s1') (\<lambda>(rc, st2).
      case rc of None \<Rightarrow> Inr (True, st2)
      | Some v \<Rightarrow> with_thread t st2 (\<lambda>th2.
          let r = (t_regs th2)\<lparr>r_eax := nat (v mod int W32)\<rparr>;
              st3 = set_thread t (th2\<lparr>t_regs := r\<rparr>) st2 in
          with_thread (current st3) st3 (\<lambda>th3.
            let (r', m) = arch_sched_setup_stack r (ram st3);
                st4 = set_thread (current st3) (th3\<lparr>t_regs := r'\<rparr>) (st3\<lparr>ram := m\<rparr>)
            in Inr (True, ARCH_SWITCH_CONTEXT r' st4))))"
    unfolding syscall_hub_def Let_def cc(1) using n' cc(2,3) by (simp add: with_thread_def [of t s1] with_proc_def h s1'_def)
  have "runs E P (sched_irq 0x80 (syscall_hub K cw) s)"
    unfolding irq hub bindR_assoc
  proof (rule runs_bind_mono [OF body [OF e1]], goal_cases)
    case (1 x)
    then obtain v s2 th2 where x: "x = (Some v, s2)" "current s2 = t" "threads s2 t = Some th2" "t_regs th2 = ?r" and q: "Q v s2"
      by (cases x) (auto simp: still_called_def)
    define r where "r = ?r\<lparr>r_eax := nat (v mod int W32)\<rparr>"
    define s3 where "s3 = set_thread t (th2\<lparr>t_regs := r\<rparr>) s2"
    obtain r' m where m: "arch_sched_setup_stack r (ram s3) = (r', m)" by fastforce
    define s4 where "s4 = set_thread t (th2\<lparr>t_regs := r\<rparr>\<lparr>t_regs := r'\<rparr>) (s3\<lparr>ram := m\<rparr>)"
    define s5 where "s5 = ARCH_SWITCH_CONTEXT r' s4"
    have "nat (v mod int W32) < W32" by (simp add: nat_less_iff)
    then have rr: "regs_ok r" "44 \<le> r_esp r" "r_esp r = r_esp (cpu s)" using c by (simp_all add: r_def caller_def regs_ok_def)
    have r4: "ram s4 = m" by (simp add: s4_def set_thread_def)
    have "cpu s5 = r\<lparr>r_magic := r_magic (cpu s4)\<rparr> \<and> same_on (- {r_esp r - 44..<r_esp r}) (ram s3) m"
      unfolding s5_def using setup_switch [OF rr(1,2) m r4] by blast
    then have "returned t v s s2 s5"
      unfolding returned_def same_files_def using rr(3)
      by (simp add: s5_def s4_def s3_def ARCH_SWITCH_CONTEXT_def set_thread_def r_def)
    then have "P (True, s5)" by (rule fin [OF q x(2)])
    then show ?case
      unfolding x(1) using x(2-4) m
      by (simp add: with_thread_def Let_def r_def s3_def s4_def s5_def set_thread_def)
  qed
  then show ?thesis .
qed

text \<open>
  C15. A system call number without a handler gives -ENOSYS in eax: the interrupt returns to the same thread, with all its
  other registers as they were, every process keeps its descriptor table and its other fields, and the mounts, the file system
  types and the cursor of strtok are as before. Nothing is said of memory: the line that \<open>syscall_hub\<close> prints first goes to buffers
  that the model of printing does not show here.
\<close>

theorem syscall_unknown:
  assumes "caller t th pr s" "r_eax (cpu s) < 256" "r_eax (cpu s) \<notin> {1, 3, 4, 5, 6, 18}"
  shows "\<exists>s'. sched_irq 0x80 (syscall_hub K cw) s = Inr (True, s') \<and> current s' = t \<and> procs s' = procs s \<and>
    mounts s' = mounts s \<and> filesystems s' = filesystems s \<and> strtok_sp s' = strtok_sp s \<and>
    (cpu s')\<lparr>r_magic := r_magic (cpu s)\<rparr> = (cpu s)\<lparr>r_eax := W32 - nat ENOSYS\<rparr>"
proof -
  let ?P = "\<lambda>(sw, s'). sw \<and> current s' = t \<and> procs s' = procs s \<and>
      mounts s' = mounts s \<and> filesystems s' = filesystems s \<and> strtok_sp s' = strtok_sp s \<and>
      (cpu s')\<lparr>r_magic := r_magic (cpu s)\<rparr> = (cpu s)\<lparr>r_eax := W32 - nat ENOSYS\<rparr>"
  have h: "syscall_null = (case syscalls K cw ! r_eax (cpu s) of None \<Rightarrow> syscall_null | Some f \<Rightarrow> f)"
    using syscalls_none [OF assms(2,3), of K cw] by simp
  have "runs (\<lambda>_. False) ?P (sched_irq 0x80 (syscall_hub K cw) s)"
  proof (rule runs_syscall [OF assms(1,2) h, where Q = "\<lambda>v s2. v = - ENOSYS \<and> entered t th s s2"], goal_cases body fin)
    case (body s1)
    then show ?case
      using assms(1) by (simp add: syscall_null_def still_called_def entered_def same_files_def caller_def)
  next
    case (fin v s2 s3)
    then show ?case by (simp add: returned_def entered_def same_files_def)
  qed
  then show ?thesis unfolding runs_total by auto
qed

section \<open>Files\<close>

text \<open>The stack of the caller is memory in use of its own: the frame changes nothing else.\<close>

lemma entered_inv:
  fixes s :: "'a vfs_state_scheme"
  assumes K: "kern_ok K C" and i: "inv C s (insert (stk, sn) L) r" and e: "entered t th s s1" and st: "sep L stk sn"
    "stk + 52 \<le> r_esp (cpu s)" "r_esp (cpu s) \<le> stk + sn"
  shows "inv C s1 (insert (stk, sn) L) r" "keeps L (ram s) (ram s1)"
proof -
  have sub: "{r_esp (cpu s) - 52..<r_esp (cpu s)} \<subseteq> region (stk, sn)" using st(2,3) by (auto simp: region_def)
  have so: "same_on (- {r_esp (cpu s) - 52..<r_esp (cpu s)}) (ram s) (ram s1)" and sf: "same_files s s1" using e by (simp_all add: entered_def)
  show "inv C s1 (insert (stk, sn) L) r"
  proof (rule inv_write [OF K i])
    show "same_on (- (\<Union>r\<in>insert (stk, sn) L. region r)) (ram s) (ram s1)" using so sub by (auto simp: same_on_def)
  qed (use sf in \<open>simp_all add: same_files_def\<close>)
  show "keeps L (ram s) (ram s1)"
    unfolding keeps_def same_on_def
  proof (intro ballI)
    fix q x assume "q \<in> L" "x \<in> region q"
    moreover from this(1) have "apart stk sn (fst q) (snd q)" using st(1) by (auto simp: sep_def)
    ultimately have "x \<notin> region (stk, sn)" using apart_region [of stk sn "fst q" "snd q"] by auto
    then show "ram s1 x = ram s x" using so sub by (auto simp: same_on_def)
  qed
qed

lemma entered_current:
  assumes "caller t th pr s" "entered t th s s1"
  shows "with_current s1 f = f (t_owner th) pr"
  using assms by (simp add: with_current_def with_thread_def with_proc_def caller_def entered_def same_files_def)

lemma kept_sp_called:
  assumes "entered t th s s1" "kept_sp s1 s2" "current s = t"
  shows "still_called t s s2"
proof -
  have "threads s2 = threads s1" "current s2 = current s1" using kept_sel(10,11) [OF assms(2) [unfolded kept_sp_def]] by simp_all
  then show ?thesis using assms(1,3) by (simp add: still_called_def entered_def same_files_def)
qed

text \<open>
  C4. The system call read on an open ext2 file gives the caller the bytes of the file from its position on and their number in
  eax; the position moves on, and the caller resumes with all its other registers as they were.
\<close>

theorem syscall_read_reads:
  assumes K: "kern_ok K C" and i: "inv C s (insert (stk, sn) L) (read_cost G str cnt + r)"
    and c: "caller t th pr s" "sep L stk sn" "stk + 52 \<le> r_esp (cpu s)" "r_esp (cpu s) \<le> stk + sn"
    and regs: "r_eax (cpu s) = 3" "r_ebx (cpu s) = fd" "r_ecx (cpu s) = buf" "r_edx (cpu s) = cnt"
    and fd: "fd < length (file_table pr)" "fd < 2147483648" "file_table pr ! fd = f"
    and ops: "(k_sym K Ext2_fops, 8) \<in> L" "field f f_fops s = k_sym K Ext2_fops" "field (k_sym K Ext2_fops) fops_read s = k_sym K Ext2_read_file"
    and o: "open_file K C L f fs G D str n s" and z: "strtok_sp s = 0"
    and nz: "0 < cnt" "f \<noteq> 0" "buf \<noteq> 0" and pos: "field f f_pos s = pos" "pos + cnt < 2147483648"
    and u: "(ub, uk) \<in> L" "ub \<le> buf" "buf + cnt \<le> ub + uk" "apart buf cnt f sizeof_file"
    and blks: "\<forall>j\<in>{pos div g_bs G..pos div g_bs G + cnt div g_bs G}. file_blk_ok G D n j"
    and fit: "pos mod g_bs G + cnt \<le> read_span G cnt * g_bs G"
  shows "runs (stuck C) (\<lambda>(_, s'). current s' = t \<and> (cpu s')\<lparr>r_magic := r_magic (cpu s)\<rparr> = (cpu s)\<lparr>r_eax := cnt\<rparr> \<and>
      (\<forall>i<cnt. ram s' (buf + i) = file_byte G D n (pos + i)) \<and> field f f_pos s' = pos + cnt) (sched_irq 0x80 (syscall_hub K cw) s)"
proof -
  let ?L = "insert (stk, sn) L" and ?r = "(cpu s)\<lparr>r_magic := 0x13371337\<rparr>"
  have n: "r_eax (cpu s) < 256" using regs(1) by simp
  have h: "syscall_read K = (case syscalls K cw ! r_eax (cpu s) of None \<Rightarrow> syscall_null | Some f \<Rightarrow> f)" by (simp add: regs(1) syscalls_simps)
  have fL: "(f, sizeof_filesystem) \<in> L" using o by (simp add: open_file_def)
  have sfd: "sint32 fd = int fd" using fd(2) by (simp add: sint32_def)
  have en: "fd_entry (int fd) pr = Inr f" using fd by (simp add: fd_entry_def)
  show ?thesis
  proof (rule runs_syscall [OF c(1) n h, where Q = "\<lambda>v s2. v = int cnt \<and> (\<forall>i<cnt. ram s2 (buf + i) = file_byte G D n (pos + i)) \<and> field f f_pos s2 = pos + cnt"],
      goal_cases body fin)
    case (body s1)
    have e: "inv C s1 ?L (read_cost G str cnt + r)" "keeps L (ram s) (ram s1)" by (rule entered_inv [OF K i body c(2-4)])+
    have f1: "field f off s1 = field f off s" if "off + 4 \<le> 28" for off using field_keeps [OF e(2) fL] that by simp
    have o1: "open_file K C ?L f fs G D str n s1" by (rule open_file_keeps [OF o e(2)]) auto
    have z1: "strtok_sp s1 = 0" using body z by (simp add: entered_def same_files_def)
    have op1: "field (k_sym K Ext2_fops) fops_read s1 = k_sym K Ext2_read_file" using field_keeps [OF e(2) ops(1), of fops_read] ops(3) by simp
    have run: "syscall_read K ?r s1 = bindR (ext2_read_file K f buf cnt s1) (\<lambda>(rc, st'). Inr (Some rc, st'))"
      using nz(2) by (simp add: syscall_read_def regs sfd entered_current [OF c(1) body] en call_read_def f1 ops(2) op1 Let_def)
    have "runs (stuck C) (delivered C ?L f buf cnt r G D n pos s1) (ext2_read_file K f buf cnt s1)"
      by (rule runs_read_file [OF K e(1) o1 z1 nz _ pos(2) _ u(2,3,4) blks fit]) (use f1 pos(1) u(1) in auto)
    then show ?case
      unfolding run
      by (rule runs_bind_mono) (use kept_sp_called [OF body] c(1) in \<open>auto simp: delivered_def caller_def\<close>)
  next
    case (fin v s2 s3)
    have so: "same_on (- {r_esp (cpu s) - 44..<r_esp (cpu s)}) (ram s2) (ram s3)" using fin(3) by (simp add: returned_def)
    have out: "ram s3 x = ram s2 x" if "x \<in> region q" "q \<in> L" for x q
    proof -
      have "apart stk sn (fst q) (snd q)" using c(2) that(2) by (auto simp: sep_def)
      then have "x \<notin> region (stk, sn)" using apart_region [of stk sn "fst q" "snd q"] that(1) by auto
      then show ?thesis using so c(3,4) by (auto simp: same_on_def region_def)
    qed
    have "ram s3 (buf + i) = ram s2 (buf + i)" if "i < cnt" for i
      by (rule out [OF _ u(1)]) (use that u in \<open>auto simp: region_def\<close>)
    moreover have "keeps L (ram s2) (ram s3)" using out by (auto simp: keeps_def same_on_def)
    then have "field f f_pos s3 = field f f_pos s2" by (rule field_keeps [OF _ fL]) simp
    moreover have "cnt < W32" using pos(2) by simp
    ultimately show ?case using fin by (auto simp: returned_def same_files_def)
  qed
qed

text \<open>Thread 0x100 reads two bytes of /ab through descriptor 3.\<close>

definition small_calling :: small_state where
  "small_calling = (small_start (st32 (st32 small_ram 0x2000 0x140) 0x140 0x210))
     \<lparr>cpu := (cpu small_cpu)\<lparr>r_eax := 3, r_ebx := 3, r_ecx := 0x2200, r_edx := 2\<rparr>,
      procs := [0x10 \<mapsto> (small_proc 0 0x100)\<lparr>file_table := (replicate 128 0)[3 := 0x2000]\<rparr>]\<rparr>"

abbreviation (input) calling_regions :: regions where "calling_regions \<equiv> insert (0x140, 8) small_regions"

lemma calling_ram: "ram small_calling = st32 (st32 small_ram 0x2000 0x140) 0x140 0x210"
  by (simp add: small_calling_def)

lemma calling_strings: "cstr (ram small_calling) 0x100 [47]" "cstr (ram small_calling) 0x2100 [47, 97, 98]"
  using small_strings by (simp_all add: calling_ram st32_other)

lemma calling_mounted: "mounted (small_contract small_disk) calling_regions 0x1000 small_geo small_disk small_calling"
  using small_fields
  by (simp add: mounted_def EXT2_PRIV_def priv_field_def field_def calling_ram ld32_st32_other geo_ok_def)
    (simp add: small_regions_def small_contract_def)

lemma calling_open: "open_file small_kern (small_contract small_disk) calling_regions 0x2000 0x1000 small_geo small_disk [47, 97, 98] 3 small_calling"
proof -
  have "\<exists>q k. (q, k) \<in> calling_regions \<and> q \<le> 0x2100 \<and> 0x2100 + 3 < q + k"
    by (rule exI [of _ "0x2100"], rule exI [of _ 4]) (simp add: small_regions_def)
  moreover have "(0x2000, 28) \<in> calling_regions" by (simp add: small_regions_def)
  moreover have "slash_ok small_kern calling_regions (ram small_calling)"
    using calling_strings(1) by (simp add: slash_ok_def small_kern_def small_regions_def)
  moreover have "field 0x2000 f_fs small_calling = 0x1000" "field 0x2000 f_respath small_calling = 0x2100"
    using small_fields by (simp_all add: field_def calling_ram ld32_st32_other)
  ultimately show ?thesis
    using calling_mounted calling_strings(2) small_path small_inodes(4) by (simp add: open_file_def small_tokens)
qed

theorem syscall_read_reads_witness:
  "\<exists>sw s'. sched_irq 0x80 (syscall_hub small_kern (\<lambda>f buf n s. Inr (int n, s))) small_calling = Inr (sw, s') \<and>
     r_eax (cpu s') = 2 \<and> ram s' 0x2200 = 72 \<and> ram s' 0x2201 = 105"
proof -
  let ?C = "small_contract small_disk" and ?irq = "sched_irq 0x80 (syscall_hub small_kern (\<lambda>f buf n s. Inr (int n, s))) small_calling"
  let ?th = "small_thread THREAD_RUNNING 0x10" and ?pr = "(small_proc 0 0x100)\<lparr>file_table := (replicate 128 0)[3 := 0x2000]\<rparr>"
  have w: "field 0x2000 f_fops small_calling = 0x140" "field 0x140 fops_read small_calling = 0x210" "field 0x2000 f_pos small_calling = 0"
    using small_fields(10) by (simp_all add: field_def calling_ram mem_simps)
  have "runs (stuck ?C) (\<lambda>(_, s'). current s' = 0x100 \<and>
      (cpu s')\<lparr>r_magic := r_magic (cpu small_calling)\<rparr> = (cpu small_calling)\<lparr>r_eax := 2\<rparr> \<and>
      (\<forall>i<2. ram s' (0x2200 + i) = file_byte small_geo small_disk 3 (0 + i)) \<and> field 0x2000 f_pos s' = 0 + 2) ?irq"
  proof (rule syscall_read_reads [OF small_kern_ok, where L = calling_regions and stk = "0x8F00" and sn = "0x200" and r = 0 and th = ?th and pr = ?pr
        and fd = 3 and fs = "0x1000" and ub = "0x2200" and uk = 64])
    show "inv ?C small_calling (insert (0x8F00, 0x200) calling_regions) (read_cost small_geo [47, 97, 98] 2 + 0)"
      by (simp add: small_contract_def small_regions_def small_calling_def read_cost_def find_cost_def read_span_def block_cost_def dir_cost_def small_tokens)
    show "caller 0x100 ?th ?pr small_calling"
      using small_cpu_ok by (simp add: caller_def small_calling_def small_sched_sel small_thread_def regs_ok_def)
    show "open_file small_kern ?C calling_regions 0x2000 0x1000 small_geo small_disk [47, 97, 98] 3 small_calling" by (rule calling_open)
    show "\<forall>j\<in>{0 div g_bs small_geo..0 div g_bs small_geo + 2 div g_bs small_geo}. file_blk_ok small_geo small_disk 3 j"
      by (simp add: file_blk_ok_def small_file blk_ok_def)
    show "sep calling_regions 0x8F00 0x200" by (simp add: small_regions_def sep_def apart_def)
    show "0x8F00 + 52 \<le> r_esp (cpu small_calling)" "r_esp (cpu small_calling) \<le> 0x8F00 + 0x200"
      by (simp_all add: small_calling_def small_cpu_ok)
    show "field 0x2000 f_fops small_calling = k_sym small_kern Ext2_fops" "field (k_sym small_kern Ext2_fops) fops_read small_calling = k_sym small_kern Ext2_read_file"
      "field 0x2000 f_pos small_calling = 0"
      using w by (simp_all add: small_kern_def)
  qed (simp_all add: small_calling_def small_kern_def small_regions_def apart_def read_span_def)
  then obtain sw s' where e: "?irq = Inr (sw, s')"
    and q: "(cpu s')\<lparr>r_magic := r_magic (cpu small_calling)\<rparr> = (cpu small_calling)\<lparr>r_eax := 2\<rparr>"
      "\<forall>i<2. ram s' (0x2200 + i) = file_byte small_geo small_disk 3 (0 + i)"
    unfolding small_stuck runs_total by auto
  have "r_eax (cpu s') = r_eax ((cpu s')\<lparr>r_magic := r_magic (cpu small_calling)\<rparr>)" by simp
  then have "r_eax (cpu s') = 2" unfolding q(1) by simp
  then show ?thesis using e small_file q(2) [rule_format, of 0] q(2) [rule_format, of 1] by auto
qed

theorem syscall_unknown_witness:
  "\<exists>s'. sched_irq 0x80 (syscall_hub small_kern (\<lambda>f buf n s. Inr (int n, s))) (small_calling\<lparr>cpu := cpu small_cpu\<rparr>) = Inr (True, s') \<and>
    current s' = 0x100 \<and> sint32 (r_eax (cpu s')) = - ENOSYS \<and> r_ebx (cpu s') = r_ebx (cpu small_cpu)"
proof -
  let ?s = "small_calling\<lparr>cpu := cpu small_cpu\<rparr>"
  have c: "caller 0x100 (small_thread THREAD_RUNNING 0x10) ((small_proc 0 0x100)\<lparr>file_table := (replicate 128 0)[3 := 0x2000]\<rparr>) ?s"
    using small_cpu_ok by (simp add: caller_def small_calling_def small_sched_sel small_thread_def)
  have "r_eax (cpu small_cpu) = 7" by (simp add: small_cpu_def dev_state.extend_def cpu_state.fields_def)
  then obtain s' where e: "sched_irq 0x80 (syscall_hub small_kern (\<lambda>f buf n s. Inr (int n, s))) ?s = Inr (True, s')" "current s' = 0x100"
    and r: "(cpu s')\<lparr>r_magic := r_magic (cpu ?s)\<rparr> = (cpu ?s)\<lparr>r_eax := W32 - nat ENOSYS\<rparr>"
    using syscall_unknown [OF c, of small_kern "\<lambda>f buf n s. Inr (int n, s)"] by auto
  have "r_eax (cpu s') = r_eax ((cpu s')\<lparr>r_magic := r_magic (cpu ?s)\<rparr>)" "r_ebx (cpu s') = r_ebx ((cpu s')\<lparr>r_magic := r_magic (cpu ?s)\<rparr>)" by simp_all
  then show ?thesis using e unfolding r by (simp add: sint32_def)
qed

section \<open>Opening and reading\<close>

text \<open>The first free descriptor from 3 on.\<close>

definition free_fd :: "process \<Rightarrow> nat option" where
  "free_fd pr = scan (\<lambda>i. file_table pr ! i = 0) 3 128"

lemma free_fd_iff: "free_fd pr = Some i \<longleftrightarrow> 3 \<le> i \<and> i < 128 \<and> file_table pr ! i = 0 \<and> (\<forall>k. 3 \<le> k \<and> k < i \<longrightarrow> file_table pr ! k \<noteq> 0)"
  by (simp add: free_fd_def scan_Some_iff)

definition running_in :: "process \<Rightarrow> 'a vfs_state_scheme \<Rightarrow> nat \<Rightarrow> bool" where
  "running_in pr s p \<longleftrightarrow> (\<exists>th. threads s (current s) = Some th \<and> t_owner th = p \<and> procs s p = Some pr)"

lemma running_in_with: "running_in pr s p \<Longrightarrow> with_current s f = f p pr"
  by (auto simp: running_in_def with_current_def with_thread_def with_proc_def)

lemma running_in_kept: "running_in pr s p \<Longrightarrow> kept s s' \<Longrightarrow> running_in pr s' p"
  by (simp add: running_in_def kept_sel)

text \<open>
  C10. The system call open puts a newly opened file in the first free descriptor from 3 on and returns that, the other
  descriptors staying as they were; without a free one it returns -EMFILE and the opened file is lost.
\<close>

theorem syscall_open_installs:
  assumes K: "kern_ok K C" and i: "inv C s L (Suc (length t) + (sizeof_filesystem + r))" and ms: "mount_table L ms s" and sl: "slash_ok K L (ram s)"
    and p: "text_in L (ram s) (r_ebx regs) t" "r_ebx regs \<noteq> 0" "r_ebx regs < W32" and len: "length t < 2147483647" and sy: "k_sym K Ext2_fops < W32"
    and lm: "longest_mount ms (root_mount s) t m" and at: "ext2_at K C L m fs G D s" and pr: "running_in pr s p"
  shows "runs (stuck C) (\<lambda>(rc, s'). \<exists>f s1. opened K C L r fs (r_ebx regs) s f s1 \<and>
      (case free_fd pr of
         Some fd \<Rightarrow> rc = Some (int fd) \<and> s' = s1\<lparr>procs := (procs s)(p \<mapsto> pr\<lparr>file_table := (file_table pr)[fd := f]\<rparr>)\<rparr>
       | None \<Rightarrow> rc = Some (- EMFILE) \<and> s' = s1)) (syscall_open K regs s)"
  unfolding syscall_open_def
proof (rule runs_vfs_open [OF K i ms sl p len sy lm at], goal_cases opn)
  case (opn f s2 s1)
  have o: "opened K C L r fs (r_ebx regs) s f s2" using opn by (auto simp: opened_def intro: kept_trans keeps_trans)
  then have "kept s s2" by (simp add: opened_def)
  then have "running_in pr s2 p" "procs s2 = procs s" using running_in_kept [OF pr] kept_sel(9) by auto
  then show ?case
    using o by (auto simp: running_in_with free_fd_def [symmetric] set_proc_def split: option.splits)
qed

theorem syscall_open_installs_witness:
  "\<exists>f s'. syscall_open small_kern ((cpu small_cpu)\<lparr>r_ebx := 0x2100\<rparr>) small_rooted = Inr (Some 3, s') \<and> f \<noteq> 0 \<and>
     procs s' 0x10 = Some ((small_proc 0 0x100)\<lparr>file_table := (replicate 128 0)[3 := f]\<rparr>)"
proof -
  let ?C = "small_contract small_disk" and ?r = "(cpu small_cpu)\<lparr>r_ebx := 0x2100\<rparr>" and ?pr = "small_proc 0 0x100"
  have fd: "free_fd ?pr = Some 3" by (simp add: free_fd_iff small_proc_def)
  have "runs (stuck ?C) (\<lambda>(rc, s'). \<exists>f s1. opened small_kern ?C rooted_regions 0 0x1000 (r_ebx ?r) small_rooted f s1 \<and>
      (case free_fd ?pr of
         Some fd \<Rightarrow> rc = Some (int fd) \<and> s' = s1\<lparr>procs := (procs small_rooted)(0x10 \<mapsto> ?pr\<lparr>file_table := (file_table ?pr)[fd := f]\<rparr>)\<rparr>
       | None \<Rightarrow> rc = Some (- EMFILE) \<and> s' = s1)) (syscall_open small_kern ?r small_rooted)"
  proof (rule syscall_open_installs [OF small_kern_ok _ rooted_table rooted_slash _ _ _ _ _ rooted_longest rooted_at])
    show "inv ?C small_rooted rooted_regions (Suc (length [47, 97, 98 :: u8]) + (sizeof_filesystem + 0))" by (rule rooted_inv) simp
    show "text_in rooted_regions (ram small_rooted) (r_ebx ?r) [47, 97, 98]" using rooted_path by simp
    show "running_in ?pr small_rooted 0x10" by (simp add: running_in_def small_rooted_def small_sched_sel small_thread_def)
  qed (simp_all add: small_kern_def)
  then obtain rc s' f s1 where "syscall_open small_kern ?r small_rooted = Inr (rc, s')"
    "opened small_kern ?C rooted_regions 0 0x1000 (r_ebx ?r) small_rooted f s1" "rc = Some 3"
    "s' = s1\<lparr>procs := (procs small_rooted)(0x10 \<mapsto> ?pr\<lparr>file_table := (file_table ?pr)[3 := f]\<rparr>)\<rparr>"
    unfolding small_stuck runs_total fd by auto
  then show ?thesis by (auto simp: opened_def fresh_def small_proc_def)
qed

text \<open>
  C5. Opening a path of an ext2 mount and reading from the descriptor delivers the first bytes of the file that the path names on
  the disk.
\<close>

theorem open_read_file:
  assumes K: "kern_ok K C" and i: "inv C s L (Suc (length t) + (sizeof_filesystem + (read_cost G t cnt + r)))" and ms: "mount_table L ms s"
    and sl: "slash_ok K L (ram s)" and p: "text_in L (ram s) (r_ebx regs) t" "r_ebx regs \<noteq> 0" "r_ebx regs < W32" and len: "length t < 2147483647"
    and sy: "k_sym K Ext2_fops < W32" and lm: "longest_mount ms (root_mount s) t m" and at: "ext2_at K C L m fs G D s"
    and pr: "running_in pr s p" "free_fd pr = Some fd" "length (file_table pr) = 128" and z: "strtok_sp s = 0"
    and path: "path_ok G D 2 (tokens [47] t)" "path_walk G D 2 (tokens [47] t) = int n" "inode_ok G D n"
    and ops: "(k_sym K Ext2_fops, 8) \<in> L" "field (k_sym K Ext2_fops) fops_read s = k_sym K Ext2_read_file"
    and buf: "0 < cnt" "cnt < 2147483648" "buf \<noteq> 0" "(ub, uk) \<in> L" "ub \<le> buf" "buf + cnt \<le> ub + uk"
    and blks: "\<forall>j\<in>{0..cnt div g_bs G}. file_blk_ok G D n j"
  shows "runs (stuck C) (\<lambda>(rc, s'). rc = Some (int cnt) \<and> (\<forall>i<cnt. ram s' (buf + i) = file_byte G D n i))
    (bindR (syscall_open K regs s) (\<lambda>(rc, s1).
       syscall_read K (regs\<lparr>r_ebx := nat (the rc), r_ecx := buf, r_edx := cnt\<rparr>) s1))"
proof (rule runs_bind_mono [OF syscall_open_installs [OF K i ms sl p len sy lm at pr(1)]], goal_cases)
  case (1 x)
  then obtain f s1 where o: "opened K C L (read_cost G t cnt + r) fs (r_ebx regs) s f s1"
    and x: "x = (Some (int fd), s1\<lparr>procs := (procs s)(p \<mapsto> pr\<lparr>file_table := (file_table pr)[fd := f]\<rparr>)\<rparr>)"
    unfolding pr(2) by (cases x) auto
  define s2 where "s2 = s1\<lparr>procs := (procs s)(p \<mapsto> pr\<lparr>file_table := (file_table pr)[fd := f]\<rparr>)\<rparr>"
  let ?L = "insert (f, sizeof_filesystem) L"
  have o1: "fresh L f 28" "inv C s1 ?L (read_cost G t cnt + r)" "keeps L (ram s) (ram s1)" "kept s s1" "field f f_fops s1 = k_sym K Ext2_fops" "field f f_pos s1 = 0"
    using o by (simp_all add: opened_def)
  have at': "mounted C L fs G D s" using at by (simp add: ext2_at_def)
  have of: "open_file K C ?L f fs G D t n s2"
    by (rule open_file_keeps [OF opened_file [OF o at' sl p(1) len path]]) (simp_all add: s2_def)
  have i2: "inv C s2 ?L (read_cost G t cnt + r)" by (rule inv_write [OF K o1(2)]) (simp_all add: s2_def)
  have z2: "strtok_sp s2 = 0" using z kept_sel(1) [OF o1(4)] by (simp add: s2_def)
  have fd: "fd < 128" using pr(2) by (simp add: free_fd_iff)
  have run2: "running_in (pr\<lparr>file_table := (file_table pr)[fd := f]\<rparr>) s2 p"
    using running_in_kept [OF pr(1) o1(4)] by (auto simp: running_in_def s2_def)
  have op2: "field (k_sym K Ext2_fops) fops_read s2 = k_sym K Ext2_read_file"
    using field_keeps [OF o1(3) ops(1), of fops_read] ops(2) by (simp add: s2_def field_def)
  have f0: "f \<noteq> 0" "field f f_fops s2 = k_sym K Ext2_fops" "field f f_pos s2 = 0" using o1 by (simp_all add: fresh_def s2_def field_def)
  have "sint32 fd = int fd" using fd by (simp add: sint32_def)
  then have run: "syscall_read K (regs\<lparr>r_ebx := fd, r_ecx := buf, r_edx := cnt\<rparr>) s2 =
      bindR (ext2_read_file K f buf cnt s2) (\<lambda>(rc, st'). Inr (Some rc, st'))"
    using fd pr(3) f0 op2 by (simp add: syscall_read_def running_in_with [OF run2] fd_entry_def call_read_def Let_def)
  have ap: "apart buf cnt f sizeof_file" using o1(1) buf(4-6) by (auto simp: fresh_def apart_def)
  have u2: "(ub, uk) \<in> ?L" using buf(4) by simp
  have g: "0 < g_bs G" using at' by (simp add: mounted_def geo_ok_def)
  have fit: "0 mod g_bs G + cnt \<le> read_span G cnt * g_bs G"
    using dividend_less_div_times [OF g, of cnt] by (simp add: read_span_def)
  have "runs (stuck C) (delivered C ?L f buf cnt r G D n 0 s2) (ext2_read_file K f buf cnt s2)"
    by (rule runs_read_file [OF K i2 of z2 buf(1) f0(1) buf(3) f0(3) _ u2 buf(5,6) ap _ fit]) (use buf(2) blks in simp_all)
  then show ?case
    unfolding x s2_def [symmetric] case_prod_conv option.sel nat_int run
    by (rule runs_bind_mono) (auto simp: delivered_def)
qed

theorem open_read_file_witness:
  "\<exists>s'. bindR (syscall_open small_kern ((cpu small_cpu)\<lparr>r_ebx := 0x2100\<rparr>) small_rooted) (\<lambda>(rc, s1).
       syscall_read small_kern ((cpu small_cpu)\<lparr>r_ebx := nat (the rc), r_ecx := 0x2200, r_edx := 2\<rparr>) s1) = Inr (Some 2, s') \<and>
     ram s' 0x2200 = 72 \<and> ram s' 0x2201 = 105"
proof -
  let ?C = "small_contract small_disk" and ?r = "(cpu small_cpu)\<lparr>r_ebx := 0x2100\<rparr>" and ?pr = "small_proc 0 0x100"
  let ?run = "bindR (syscall_open small_kern ?r small_rooted) (\<lambda>(rc, s1).
      syscall_read small_kern (?r\<lparr>r_ebx := nat (the rc), r_ecx := 0x2200, r_edx := 2\<rparr>) s1)"
  have "runs (stuck ?C) (\<lambda>(rc, s'). rc = Some (int 2) \<and> (\<forall>i<2. ram s' (0x2200 + i) = file_byte small_geo small_disk 3 i)) ?run"
  proof (rule open_read_file [OF small_kern_ok _ rooted_table rooted_slash _ _ _ _ _ rooted_longest rooted_at, where fd = 3 and p = "0x10" and pr = ?pr
        and r = 0 and ub = "0x2200" and uk = 64])
    show "inv ?C small_rooted rooted_regions (Suc (length [47, 97, 98 :: u8]) + (sizeof_filesystem + (read_cost small_geo [47, 97, 98] 2 + 0)))"
      by (rule rooted_inv) (simp add: read_cost_def find_cost_def read_span_def block_cost_def dir_cost_def small_tokens)
    show "text_in rooted_regions (ram small_rooted) (r_ebx ?r) [47, 97, 98]" using rooted_path by simp
    show "running_in ?pr small_rooted 0x10" by (simp add: running_in_def small_rooted_def small_sched_sel small_thread_def)
    show "free_fd ?pr = Some 3" "length (file_table ?pr) = 128" by (simp_all add: free_fd_iff small_proc_def)
    show "\<forall>j\<in>{0..2 div g_bs small_geo}. file_blk_ok small_geo small_disk 3 j" by (simp add: file_blk_ok_def small_file blk_ok_def)
    show "field (k_sym small_kern Ext2_fops) fops_read small_rooted = k_sym small_kern Ext2_read_file"
      by (simp add: small_kern_def field_def small_rooted_def mem_simps)
  qed (simp_all add: small_tokens small_dir_ok small_find small_inodes, simp_all add: small_kern_def small_rooted_def small_regions_def)
  then obtain s' where e: "?run = Inr (Some 2, s')" and q: "\<forall>i<2. ram s' (0x2200 + i) = file_byte small_geo small_disk 3 i"
    unfolding small_stuck runs_total by auto
  then show ?thesis using small_file q [rule_format, of 0] q [rule_format, of 1] by auto
qed

end
