(* ===== verification/VfsStat.thy ===== *)
theory VfsStat
  imports SyscallProps
begin

text \<open>
  The stat call: the path is looked up on the disk, and the inode's fields arrive in the caller's buffer.
\<close>

section \<open>The record\<close>

text \<open>struct stat at \<open>p\<close>: the inode \<open>n\<close>, which lies at \<open>a\<close> on the disk \<open>D\<close>. The inode number has 16 bits here.\<close>

definition stat_of :: "mem \<Rightarrow> nat \<Rightarrow> nat \<Rightarrow> mem \<Rightarrow> nat \<Rightarrow> bool" where
  "stat_of m p n D a \<longleftrightarrow> ld16 m p = 0 \<and> ld16 m (p + 2) = n mod 65536 \<and> ld32 m (p + 4) = ld16 D (a + i_type) \<and>
     ld16 m (p + 8) = ld16 D (a + i_hardlinks) \<and> ld16 m (p + 10) = ld16 D (a + i_uid) \<and> ld16 m (p + 12) = ld16 D (a + i_gid) \<and>
     ld16 m (p + 14) = 0 \<and> ld32 m (p + 16) = ld32 D (a + i_size)"

text \<open>The stores of \<open>ext2_stat\<close>, with the values read from the inode at \<open>ib\<close> in between.\<close>

definition stat_stores :: "nat \<Rightarrow> nat \<Rightarrow> nat \<Rightarrow> mem \<Rightarrow> mem" where
  "stat_stores buf ib n m =
     (let m5 = st16 (st16 m buf 0) (buf + 2) n; m6 = st32 m5 (buf + 4) (ld16 m5 (ib + i_type));
          m7 = st16 m6 (buf + 8) (ld16 m6 (ib + i_hardlinks)); m8 = st16 m7 (buf + 10) (ld16 m7 (ib + i_uid));
          m9 = st16 m8 (buf + 12) (ld16 m8 (ib + i_gid)); m10 = st16 m9 (buf + 14) 0
      in st32 m10 (buf + 16) (ld32 m10 (ib + i_size)))"

lemma st16_other: "x < a \<or> a + 2 \<le> x \<Longrightarrow> st16 m a v x = m x"
  by (auto simp: st16_def st8_def)

lemma stat_stores_out: "x < buf \<or> buf + 20 \<le> x \<Longrightarrow> stat_stores buf ib n m x = m x"
  unfolding stat_stores_def Let_def by (elim disjE) (simp_all add: st32_other st16_other)

lemma stat_stores_of:
  assumes ap: "apart buf 20 ib 128" and ino: "\<forall>k<128. m (ib + k) = D (a + k)"
  shows "stat_of (stat_stores buf ib n m) buf n D a"
proof -
  have i16: "ld16 m (ib + k) = ld16 D (a + k)" if "k + 2 \<le> 128" for k
    using ino[rule_format, of k] ino[rule_format, of "k + 1"] that by (simp add: ld16_def ld8_def add.assoc)
  have i32: "ld32 m (ib + k) = ld32 D (a + k)" if "k + 4 \<le> 128" for k
    using ino[rule_format, of k] ino[rule_format, of "k + 1"] ino[rule_format, of "k + 2"] ino[rule_format, of "k + 3"] that
    by (simp add: ld32_def ld8_def add.assoc)
  have i0: "ld16 m ib = ld16 D a" and w: "ld16 D a mod W32 = ld16 D a" using i16 [of 0] ld16_bound [of D a] by (simp_all del: ld16_bound)
  consider "buf + 20 \<le> ib" | "ib + 128 \<le> buf" using ap by (auto simp: apart_def)
  then show ?thesis
    unfolding stat_of_def stat_stores_def Let_def
    by cases (simp_all add: ld_st_apart apart_def i16 i32 i0 w mem_simps del: add_2_eq_Suc')
qed

section \<open>The call\<close>

definition stat_cost :: "geo \<Rightarrow> u8 list \<Rightarrow> nat" where
  "stat_cost G t = find_cost G t + (128 + g_bs G)"

text \<open>The buffer holds the inode's data, and the other memory in use is as it was.\<close>

definition stated :: "regions \<Rightarrow> nat \<Rightarrow> nat \<Rightarrow> geo \<Rightarrow> mem \<Rightarrow> 'a vfs_state_scheme \<Rightarrow> int \<times> 'a vfs_state_scheme \<Rightarrow> bool" where
  "stated L buf n G D s = (\<lambda>(rc, s'). rc = 0 \<and> stat_of (ram s') buf n D (inode_addr G D n) \<and> kept_sp s s' \<and> strtok_sp s' = 0 \<and>
     same_on ((\<Union>r\<in>L. region r) - {buf..<buf + 20}) (ram s) (ram s'))"

lemma runs_ext2_stat:
  assumes K: "kern_ok K C" and i: "inv C s L (stat_cost G t + r)" and m: "mounted C L fs G D s" and sl: "slash_ok K L (ram s)"
    and p: "text_in L (ram s) path t" "path \<noteq> 0" "length t < 2147483647" and z: "strtok_sp s = 0" and fs: "fs \<noteq> 0"
    and w: "path_ok G D 2 (tokens [47] t)" "path_walk G D 2 (tokens [47] t) = int n" "inode_ok G D n"
    and buf: "buf \<noteq> 0" "(ub, uk) \<in> L" "ub \<le> buf" "buf + 20 \<le> ub + uk"
  shows "runs (stuck C) (stated L buf n G D s) (ext2_stat K fs path buf s)"
proof -
  obtain q k where q: "cstr (ram s) path t" "(q, k) \<in> L" "q \<le> path" "path + length t < q + k" using p(1) by (auto simp: text_in_def)
  have i': "inv C s L (Suc (length t) + (length (tokens [47] t) * dir_cost G + (128 + (g_bs G + r))))"
    using i by (simp add: stat_cost_def find_cost_def add.assoc)
  have c: "\<not> (path = 0 \<or> buf = 0 \<or> fs = 0)" using p(2) buf(1) fs by simp
  show ?thesis
    unfolding ext2_stat_def if_not_P [OF c]
  proof (rule runs_bind_mono [OF runs_find_file [OF K i' m sl q p(3) w(1) z]], goal_cases found)
    case (found x)
    then obtain s1 fn qs where x: "x = (int n, s1)" and s1: "kept_sp s s1" "keeps L (ram s) (ram s1)" "strtok_sp s1 = 0"
      "inv C s1 (set qs \<union> insert (fn, Suc (length t)) L) (128 + (g_bs G + r))"
      by (cases x) (auto simp: walked_def w(2))
    let ?L1 = "set qs \<union> insert (fn, Suc (length t)) L"
    have M1: "mounted C ?L1 fs G D s1" by (rule mounted_keeps [OF m s1(2)]) auto
    show ?case
      unfolding x case_prod_conv if_not_P [OF of_nat_less_0_iff]
    proof (rule runs_malloc [OF K s1(4)], goal_cases alloc)
      case (alloc ib s2)
      have ib: "ib \<noteq> 0" using alloc(1) by (simp add: fresh_def)
      have sib: "sep ?L1 ib 128" by (rule fresh_sep [OF alloc(1)])
      have M2: "mounted C ?L1 fs G D s2" by (rule mounted_keeps [OF M1 alloc(4)]) simp
      show ?case
        unfolding case_prod_conv if_not_P [OF ib]
      proof (rule runs_read_inode [OF K alloc(2) sib M2 w(3)], goal_cases inode)
        case (inode s3)
        have "apart ib 128 ub uk" using sib buf(2) by (auto simp: sep_def)
        then have ap: "apart buf 20 ib 128" using buf(3,4) by (auto simp: apart_def)
        have k3: "keeps L (ram s) (ram s3)"
          using keeps_trans [OF s1(2) keeps_mono [OF keeps_trans [OF alloc(4) inode(3)]]] by blast
        have "kept_sp s s3" using kept_sp_trans [OF s1(1) kept_sp_of [OF kept_trans [OF alloc(3) inode(2)]]] .
        moreover have "kept_sp s3 (s3\<lparr>ram := stat_stores buf ib n (ram s3)\<rparr>)" by (rule kept_sp_of) simp
        moreover have "strtok_sp s3 = 0" using kept_sel(1) [OF kept_trans [OF alloc(3) inode(2)]] s1(3) by simp
        moreover have "same_on ((\<Union>r\<in>L. region r) - {buf..<buf + 20}) (ram s) (stat_stores buf ib n (ram s3))"
          using k3 stat_stores_out [of _ buf ib n "ram s3"] by (fastforce simp: keeps_def same_on_def)
        ultimately have "stated L buf n G D s (0, s3\<lparr>ram := stat_stores buf ib n (ram s3)\<rparr>)"
          using stat_stores_of [OF ap inode(4)] kept_sp_trans by (auto simp: stated_def)
        then show ?case
          by (simp add: st16_at_def set_field_def field_def stat_stores_def Let_def del: add_2_eq_Suc')
      qed
    qed
  qed
qed

text \<open>
  C11. The stat call on a path of an ext2 mount looks the path up on the disk and fills the caller's buffer with the data of its inode: number, mode, links,
  owner, group and size; it writes no other memory in use.
\<close>

theorem syscall_stat_fills:
  assumes K: "kern_ok K C" and i: "inv C s L (Suc (length t) + (stat_cost G t + r))" and ms: "mount_table L ms s" and sl: "slash_ok K L (ram s)"
    and p: "text_in L (ram s) (r_ebx regs) t" "r_ebx regs \<noteq> 0" "length t < 2147483647" and z: "strtok_sp s = 0"
    and lm: "longest_mount ms (root_mount s) t m" and at: "ext2_at K C L m fs G D s" and st: "k_sym K Ext2_stat \<noteq> 0"
    and w: "path_ok G D 2 (tokens [47] t)" "path_walk G D 2 (tokens [47] t) = int n" "inode_ok G D n"
    and buf: "r_ecx regs = buf" "buf \<noteq> 0" "(ub, uk) \<in> L" "ub \<le> buf" "buf + 20 \<le> ub + uk"
  shows "runs (stuck C) (\<lambda>(rc, s'). rc = Some 0 \<and> stat_of (ram s') buf n D (inode_addr G D n) \<and> kept_sp s s' \<and>
    same_on ((\<Union>r\<in>L. region r) - {buf..<buf + 20}) (ram s) (ram s')) (syscall_stat K regs s)"
  unfolding syscall_stat_def vfs_stat_def buf(1) bindR_assoc
proof (rule runs_bind_mono [OF runs_find_mount [OF K i ms sl p(1,3)]], goal_cases found)
  case (found x)
  then obtain s1 where x: "x = (m, s1)" and s1: "inv C s1 L (stat_cost G t + r)" "kept s s1" "keeps L (ram s) (ram s1)"
    using longest_mount_unique [OF lm] by (cases x) auto
  have a1: "ext2_at K C L m fs G D s1" by (rule ext2_at_keeps [OF at s1(3)]) simp
  then have a: "m \<noteq> 0" "field m m_fs s1 = fs" "fs \<noteq> 0" "field fs fs_stat s1 = k_sym K Ext2_stat" "mounted C L fs G D s1" by (simp_all add: ext2_at_def)
  have "runs (stuck C) (stated L buf n G D s1) (ext2_stat K fs (r_ebx regs) buf s1)"
    by (rule runs_ext2_stat [OF K s1(1) a(5) slash_keeps [OF sl s1(3)] text_in_keeps [OF p(1) s1(3)] p(2,3) _ a(3) w buf(2-5)])
      (use z kept_sel(1) [OF s1(2)] in auto)
  then have "runs (stuck C) (\<lambda>(rc, s'). rc = Some 0 \<and> stat_of (ram s') buf n D (inode_addr G D n) \<and> kept_sp s s' \<and>
      same_on ((\<Union>r\<in>L. region r) - {buf..<buf + 20}) (ram s) (ram s')) (bindR (ext2_stat K fs (r_ebx regs) buf s1) (\<lambda>(rc, st'). Inr (Some rc, st')))"
  proof (rule runs_bind_mono, goal_cases)
    case (1 y)
    have "same_on ((\<Union>r\<in>L. region r) - {buf..<buf + 20}) (ram s) (ram s1)" using s1(3) by (auto simp: keeps_def same_on_def)
    then show ?case using 1(2) kept_sp_trans [OF kept_sp_of [OF s1(2)]] same_on_trans by (fastforce simp: stated_def)
  qed
  then show ?case using a st by (simp add: x call_stat_def Let_def)
qed

text \<open>The file /ab of the small disk is inode 3.\<close>

theorem syscall_stat_fills_witness:
  "\<exists>s'. syscall_stat small_kern ((cpu small_cpu)\<lparr>r_ebx := 0x2100, r_ecx := 0x2200\<rparr>) small_rooted = Inr (Some 0, s') \<and> ld16 (ram s') 0x2202 = 3"
proof -
  let ?C = "small_contract small_disk" and ?r = "(cpu small_cpu)\<lparr>r_ebx := 0x2100, r_ecx := 0x2200\<rparr>"
  have "runs (stuck ?C) (\<lambda>(rc, s'). rc = Some 0 \<and> stat_of (ram s') 0x2200 3 small_disk (inode_addr small_geo small_disk 3) \<and> kept_sp small_rooted s' \<and>
      same_on ((\<Union>r\<in>rooted_regions. region r) - {0x2200..<0x2200 + 20}) (ram small_rooted) (ram s')) (syscall_stat small_kern ?r small_rooted)"
  proof (rule syscall_stat_fills [OF small_kern_ok _ rooted_table rooted_slash _ _ _ _ rooted_longest rooted_at, where r = 0 and ub = "0x2200" and uk = 64])
    show "inv ?C small_rooted rooted_regions (Suc (length [47, 97, 98 :: u8]) + (stat_cost small_geo [47, 97, 98] + 0))"
      by (rule rooted_inv) (simp add: stat_cost_def find_cost_def dir_cost_def small_tokens)
    show "text_in rooted_regions (ram small_rooted) (r_ebx ?r) [47, 97, 98]" using rooted_path by simp
  qed (simp_all add: small_tokens small_dir_ok small_find small_inodes, simp_all add: small_kern_def small_rooted_def small_regions_def)
  then show ?thesis unfolding small_stuck runs_total by (auto simp: stat_of_def)
qed

end
