(* ===== verification/Elf.thy ===== *)
theory Elf
  imports SyscallProps
begin

text \<open>
  kernel/bin/elf.c: recognising an ELF file and listing its segments. The buffers on the stack, \<open>magic\<close> and \<open>header\<close>, are
  addresses that the routines take as arguments.
\<close>

section \<open>The code\<close>

text \<open>include/levos/elf.h: the fields of the headers.\<close>

abbreviation (input) e_type :: nat where "e_type \<equiv> 16"
abbreviation (input) e_phoff :: nat where "e_phoff \<equiv> 28"
abbreviation (input) e_phnum :: nat where "e_phnum \<equiv> 44"
abbreviation (input) sizeof_elf_header :: nat where "sizeof_elf_header \<equiv> 52"
abbreviation (input) sizeof_elf_program_header :: nat where "sizeof_elf_program_header \<equiv> 32"

definition elf_type_as_string :: "nat \<Rightarrow> string" where
  "elf_type_as_string t = (let t' = t mod 256 in
     if t' = 1 then ''relocatable'' else if t' = 2 then ''executable'' else if t' = 3 then ''shared'' else if t' = 4 then ''core'' else ''unknown'')"

text \<open>include/levos/vfs.h, and \<open>filp->fops->read(filp, buf, n)\<close>.\<close>

definition file_set_position :: "nat \<Rightarrow> nat \<Rightarrow> 'a vfs_state_scheme \<Rightarrow> 'a vfs_state_scheme" where
  "file_set_position f p st = set_field f f_pos p st"

definition file_read :: "'a vfs_state_scheme kern \<Rightarrow> nat \<Rightarrow> nat \<Rightarrow> nat \<Rightarrow> 'a vfs_state_scheme \<Rightarrow> (int \<times> 'a vfs_state_scheme) outcome" where
  "file_read K f buf cnt st = call_read K (field (field f f_fops st) fops_read st) f buf cnt st"

definition elf_probe :: "'a vfs_state_scheme kern \<Rightarrow> nat \<Rightarrow> nat \<Rightarrow> 'a vfs_state_scheme \<Rightarrow> (int \<times> 'a vfs_state_scheme) outcome" where
  "elf_probe K magic filp st =
     bindR (file_read K filp magic 4 st) (\<lambda>(_, st1).
       Inr (if ram st1 magic = 0x7F \<and> ram st1 (magic + 1) = 69 \<and> ram st1 (magic + 2) = 76 \<and> ram st1 (magic + 3) = 70 then 1 else 0, st1))"

text \<open>The loop over \<open>n\<close> program headers from \<open>ph\<close> on.\<close>

primrec elf_segments :: "nat \<Rightarrow> nat \<Rightarrow> 'a vfs_state_scheme \<Rightarrow> 'a vfs_state_scheme" where
  "elf_segments 0 ph st = st"
| "elf_segments (Suc n) ph st =
     elf_segments n (ph + sizeof_elf_program_header)
       (if ld32 (ram st) ph = 1
        then say ''LOAD: offset 0x%x vaddr 0x%xpaddr 0x%x filesz 0x%x memsz 0x%x'' (map (\<lambda>off. int (ld32 (ram st) (ph + off))) [4, 8, 12, 16, 20]) st
        else st)"

definition elf_load :: "'a vfs_state_scheme kern \<Rightarrow> nat \<Rightarrow> nat \<Rightarrow> nat \<Rightarrow> 'a vfs_state_scheme \<Rightarrow> (int \<times> 'a vfs_state_scheme) outcome" where
  "elf_load K magic header filp st =
     bindR (elf_probe K magic filp (file_set_position filp 0 st)) (\<lambda>(ok, st1).
       if ok = 0 then Inr (- EBADF, st1)
       else bindR (file_read K filp header sizeof_elf_header st1) (\<lambda>(_, st2).
         let ty = ld16 (ram st2) (header + e_type) in
         if ty \<ge> 2 then Inr (- ENOEXEC, say ''%d'' [int ty] st2)
         else let pheaders_sz = sizeof_elf_program_header * ld16 (ram st2) (header + e_phnum) in
           bindR (k_malloc K pheaders_sz st2) (\<lambda>(ph, st3).
             if ph = 0 then Inr (- ENOMEM, st3)
             else bindR (file_read K filp ph pheaders_sz (file_set_position filp (ld32 (ram st3) (header + e_phoff)) st3)) (\<lambda>(_, st4).
               Inr (- ENOSYS, elf_segments (ld16 (ram st4) (header + e_phnum)) ph st4)))))"

section \<open>Reading from an open file\<close>

text \<open>
  \<open>f\<close> is an open file as before, apart from the regions \<open>L\<close> that its lookups need, so that its position may change.
\<close>

definition file_ready :: "'a vfs_state_scheme kern \<Rightarrow> 'a vfs_state_scheme contract \<Rightarrow> regions \<Rightarrow> nat \<Rightarrow> nat \<Rightarrow> geo \<Rightarrow> mem \<Rightarrow> u8 list \<Rightarrow> nat \<Rightarrow>
    'a vfs_state_scheme \<Rightarrow> bool" where
  "file_ready K C L f fs G D str n s \<longleftrightarrow>
     field f f_fs s = fs \<and> mounted C L fs G D s \<and> slash_ok K L (ram s) \<and> text_in L (ram s) (field f f_respath s) str \<and> length str < 2147483647 \<and>
     path_ok G D 2 (tokens [47] str) \<and> path_walk G D 2 (tokens [47] str) = int n \<and> inode_ok G D n \<and> f \<noteq> 0 \<and> sep L f sizeof_filesystem \<and>
     field f f_fops s = k_sym K Ext2_fops \<and> (k_sym K Ext2_fops, 8) \<in> L \<and> field (k_sym K Ext2_fops) fops_read s = k_sym K Ext2_read_file \<and>
     strtok_sp s = 0"

lemma file_ready_open:
  assumes "file_ready K C L f fs G D str n s" "insert (f, sizeof_filesystem) L \<subseteq> A"
  shows "open_file K C A f fs G D str n s"
proof -
  have "mounted C A fs G D s" "slash_ok K A (ram s)" "text_in A (ram s) (field f f_respath s) str"
    using assms mounted_keeps [of C L fs G D s s A] slash_keeps [of K L "ram s" "ram s" A] text_in_keeps [of L "ram s" "field f f_respath s" str "ram s" A]
    by (auto simp: file_ready_def)
  then show ?thesis using assms by (auto simp: file_ready_def open_file_def text_in_def)
qed

lemma file_ready_same:
  assumes "file_ready K C L f fs G D str n s" "keeps L (ram s) (ram s')" "same_on {f..<f + f_pos} (ram s) (ram s')" "strtok_sp s' = 0"
  shows "file_ready K C L f fs G D str n s'"
proof -
  have f: "field f off s' = field f off s" if "off + 4 \<le> f_pos" for off
    unfolding field_def using that by (intro ld32_sub_frame [OF assms(3)]) auto
  have "field (k_sym K Ext2_fops) fops_read s' = field (k_sym K Ext2_fops) fops_read s"
    using assms(1) by (intro field_keeps [OF assms(2), of _ 8]) (simp_all add: file_ready_def)
  then show ?thesis
    using assms(1,2,4) mounted_keeps [of C L fs G D s s' L] slash_keeps [of K L "ram s" "ram s'" L] text_in_keeps [of L "ram s" "field f f_respath s" str "ram s'" L]
    by (simp add: file_ready_def f)
qed

text \<open>Bytes that one read can fetch.\<close>

definition readable :: "geo \<Rightarrow> mem \<Rightarrow> nat \<Rightarrow> nat \<Rightarrow> nat \<Rightarrow> bool" where
  "readable G D n pos cnt \<longleftrightarrow> 0 < cnt \<and> pos + cnt < 2147483648 \<and>
     (\<forall>j\<in>{pos div g_bs G..pos div g_bs G + cnt div g_bs G}. file_blk_ok G D n j) \<and> pos mod g_bs G + cnt \<le> read_span G cnt * g_bs G"

lemma runs_fread:
  fixes s :: "'a vfs_state_scheme"
  assumes K: "kern_ok K C" and fr: "file_ready K C L f fs G D str n s" and i: "inv C s A (read_cost G str cnt + r)"
    and sub: "insert (f, sizeof_filesystem) L \<subseteq> A" and u: "(buf, cnt) \<in> A" "sep (insert (f, sizeof_filesystem) L) buf cnt" "buf \<noteq> 0"
    and pos: "field f f_pos s = pos" "readable G D n pos cnt"
    and go: "\<And>s' X. file_ready K C L f fs G D str n s' \<Longrightarrow> inv C s' (X \<union> A) r \<Longrightarrow> \<forall>i<cnt. ram s' (buf + i) = file_byte G D n (pos + i) \<Longrightarrow>
      field f f_pos s' = pos + cnt \<Longrightarrow> kept_sp s s' \<Longrightarrow>
      \<forall>x\<in>\<Union>r\<in>A. region r. x \<notin> {buf..<buf + cnt} \<longrightarrow> x \<notin> {f + f_pos..<f + f_pos + 4} \<longrightarrow> ram s' x = ram s x \<Longrightarrow>
      runs (stuck C) P (g (int cnt, s'))"
  shows "runs (stuck C) P (bindR (file_read K f buf cnt s) g)"
proof -
  have o: "open_file K C A f fs G D str n s" by (rule file_ready_open [OF fr sub])
  have ap: "apart buf cnt f sizeof_filesystem" using u(2) by (simp add: sep_def)
  then have ap': "apart buf cnt f sizeof_file" by (auto simp: apart_def)
  have run: "file_read K f buf cnt s = ext2_read_file K f buf cnt s" using fr by (simp add: file_read_def call_read_def file_ready_def)
  have rd: "0 < cnt" "pos + cnt < 2147483648" "\<forall>j\<in>{pos div g_bs G..pos div g_bs G + cnt div g_bs G}. file_blk_ok G D n j"
    "pos mod g_bs G + cnt \<le> read_span G cnt * g_bs G" using pos(2) by (simp_all add: readable_def)
  have z: "strtok_sp s = 0" "f \<noteq> 0" using fr by (simp_all add: file_ready_def)
  have "runs (stuck C) (delivered C A f buf cnt r G D n pos s) (ext2_read_file K f buf cnt s)"
    by (rule runs_read_file [OF K i o z(1) rd(1) z(2) u(3) pos(1) rd(2) u(1) order_refl order_refl ap' rd(3,4)])
  then show ?thesis
    unfolding run
  proof (rule runs_bind_mono, goal_cases step)
    case (step a)
    obtain rc s' where a: "a = (rc, s')" by (cases a)
    obtain X where d: "rc = int cnt" "\<forall>i<cnt. ram s' (buf + i) = file_byte G D n (pos + i)" "field f f_pos s' = pos + cnt" "strtok_sp s' = 0"
      "kept_sp s s'" "inv C s' (X \<union> A) r"
      "\<forall>x\<in>\<Union>r\<in>A. region r. x \<notin> {buf..<buf + cnt} \<longrightarrow> x \<notin> {f + f_pos..<f + f_pos + 4} \<longrightarrow> ram s' x = ram s x"
      using step(2) unfolding a delivered_def by auto
    have "keeps L (ram s) (ram s')"
    proof -
      have "ram s' x = ram s x" if q: "q \<in> L" "x \<in> region q" for q x
      proof -
        have "apart buf cnt (fst q) (snd q)" "apart f sizeof_filesystem (fst q) (snd q)"
          using u(2) fr q(1) by (auto simp: sep_def file_ready_def)
        then have "x \<notin> {buf..<buf + cnt}" "x \<notin> {f + f_pos..<f + f_pos + 4}" using q(2) by (auto simp: apart_def region_def)
        then show ?thesis using d(7) q sub by blast
      qed
      then show ?thesis by (auto simp: keeps_def same_on_def)
    qed
    moreover have "same_on {f..<f + f_pos} (ram s) (ram s')"
    proof -
      have "ram s' x = ram s x" if x: "f \<le> x" "x < f + f_pos" for x
      proof -
        have "x \<in> region (f, sizeof_filesystem)" using x by (simp add: region_def)
        moreover have "x \<notin> {buf..<buf + cnt}" "x \<notin> {f + f_pos..<f + f_pos + 4}" using ap x by (auto simp: apart_def)
        ultimately show ?thesis using d(7) sub by blast
      qed
      then show ?thesis by (simp add: same_on_def)
    qed
    ultimately have "file_ready K C L f fs G D str n s'" by (rule file_ready_same [OF fr _ _ d(4)])
    then show ?case unfolding a d(1) using d by (intro go) auto
  qed
qed

lemma set_position:
  assumes K: "kern_ok K C" and fr: "file_ready K C L f fs G D str n s" and i: "inv C s A r" and fA: "(f, sizeof_filesystem) \<in> A"
  shows "file_ready K C L f fs G D str n (file_set_position f p s)" "inv C (file_set_position f p s) A r"
    "field f f_pos (file_set_position f p s) = p mod W32" "klog (file_set_position f p s) = klog s"
    "\<And>x. x \<notin> {f + f_pos..<f + f_pos + 4} \<Longrightarrow> ram (file_set_position f p s) x = ram s x"
proof -
  let ?s = "file_set_position f p s"
  show out: "\<And>x. x \<notin> {f + f_pos..<f + f_pos + 4} \<Longrightarrow> ram ?s x = ram s x"
    by (auto simp: file_set_position_def set_field_def st32_other)
  show "field f f_pos ?s = p mod W32" "klog ?s = klog s" by (simp_all add: file_set_position_def set_field_def field_def mem_simps)
  have eq: "?s = s\<lparr>ram := ram ?s\<rparr>" by (simp add: file_set_position_def set_field_def)
  show "inv C ?s A r" by (subst eq, rule inv_cell [OF K i fA], rule out) auto
  have "ram ?s x = ram s x" if "q \<in> L" "x \<in> region q" for q x
  proof -
    have "apart f sizeof_filesystem (fst q) (snd q)" using fr that(1) by (auto simp: sep_def file_ready_def)
    then show ?thesis using that(2) by (intro out) (auto simp: apart_def region_def)
  qed
  then have "keeps L (ram s) (ram ?s)" by (auto simp: keeps_def same_on_def)
  moreover have "same_on {f..<f + f_pos} (ram s) (ram ?s)" by (simp add: same_on_def out)
  moreover have "strtok_sp ?s = 0" using fr by (simp add: file_set_position_def set_field_def file_ready_def)
  ultimately show "file_ready K C L f fs G D str n ?s" by (rule file_ready_same [OF fr])
qed

section \<open>What the loader makes of a file\<close>

text \<open>
  \<open>B\<close> are the bytes of the file. The header is read from offset 4 on, so that what the loader takes for the type, the table's offset
  and the number of its entries lies 4 bytes behind the fields of these names.
\<close>

definition is_elf :: "mem \<Rightarrow> bool" where
  "is_elf B \<longleftrightarrow> B 0 = 0x7F \<and> B 1 = 69 \<and> B 2 = 76 \<and> B 3 = 70"

abbreviation seen_type :: "mem \<Rightarrow> nat" where "seen_type B \<equiv> ld16 B (4 + e_type)"
abbreviation seen_phoff :: "mem \<Rightarrow> nat" where "seen_phoff B \<equiv> ld32 B (4 + e_phoff)"
abbreviation seen_phnum :: "mem \<Rightarrow> nat" where "seen_phnum B \<equiv> ld16 B (4 + e_phnum)"

definition load_result :: "mem \<Rightarrow> int" where
  "load_result B = (if \<not> is_elf B then - EBADF else if 2 \<le> seen_type B then - ENOEXEC else - ENOSYS)"

text \<open>The lines for the segments that are to be loaded.\<close>

definition segment_line :: "mem \<Rightarrow> nat \<Rightarrow> (string \<times> int list) list" where
  "segment_line B a = (if ld32 B a = 1
     then [(''LOAD: offset 0x%x vaddr 0x%xpaddr 0x%x filesz 0x%x memsz 0x%x'', map (\<lambda>off. int (ld32 B (a + off))) [4, 8, 12, 16, 20])] else [])"

primrec segment_lines :: "mem \<Rightarrow> nat \<Rightarrow> nat \<Rightarrow> (string \<times> int list) list" where
  "segment_lines B 0 a = []"
| "segment_lines B (Suc k) a = segment_line B a @ segment_lines B k (a + sizeof_elf_program_header)"

definition load_log :: "mem \<Rightarrow> (string \<times> int list) list" where
  "load_log B = (if \<not> is_elf B then [] else if 2 \<le> seen_type B then [(''%d'', [int (seen_type B)])]
     else segment_lines B (seen_phnum B) (seen_phoff B))"

lemma read_loads:
  assumes "\<forall>i<cnt. m (b + i) = B (p + i)"
  shows "j + 4 \<le> cnt \<Longrightarrow> ld32 m (b + j) = ld32 B (p + j)" "j + 2 \<le> cnt \<Longrightarrow> ld16 m (b + j) = ld16 B (p + j)"
  using assms [rule_format, of j] assms [rule_format, of "j + 1"] assms [rule_format, of "j + 2"] assms [rule_format, of "j + 3"]
  by (simp_all add: ld32_def ld16_def ld8_def add.assoc)

lemma elf_segments_log:
  "(\<forall>i<32 * k. ram s (ph + i) = B (a + i)) \<Longrightarrow>
    elf_segments k ph s = s\<lparr>klog := klog s @ segment_lines B k a\<rparr>"
proof (induction k arbitrary: ph a s)
  case (Suc k)
  note rd = read_loads(1) [OF Suc.prems]
  have e: "ld32 (ram s) ph = ld32 B a" using rd [of 0] by simp
  have e': "ld32 (ram s) (ph + off) = ld32 B (a + off)" if "off \<le> 20" for off using rd [of off] that by simp
  have "\<forall>i<32 * k. ram t (ph + 32 + i) = B (a + 32 + i)" if "ram t = ram s" for t :: "'a vfs_state_scheme"
  proof (intro allI impI)
    fix i assume "i < 32 * k"
    then show "ram t (ph + 32 + i) = B (a + 32 + i)" using Suc.prems [rule_format, of "32 + i"] that by (simp add: add.assoc)
  qed
  note IH = Suc.IH [OF this]
  show ?case by (simp add: e e' IH say_def segment_line_def)
qed simp

lemma runs_elf_probe:
  fixes s :: "'a vfs_state_scheme"
  assumes B: "B = file_byte G D n" and K: "kern_ok K C" and fr: "file_ready K C L f fs G D str n s" and i: "inv C s A (read_cost G str 4 + r)"
    and sub: "insert (f, sizeof_filesystem) L \<subseteq> A" and u: "(mg, 4) \<in> A" "sep (insert (f, sizeof_filesystem) L) mg 4" "mg \<noteq> 0"
    and pos: "field f f_pos s = 0" "readable G D n 0 4"
    and go: "\<And>s' X. file_ready K C L f fs G D str n s' \<Longrightarrow> inv C s' (X \<union> A) r \<Longrightarrow> field f f_pos s' = 4 \<Longrightarrow> kept_sp s s' \<Longrightarrow>
      runs (stuck C) P (g (if is_elf B then 1 else 0, s'))"
  shows "runs (stuck C) P (bindR (elf_probe K mg f s) g)"
  unfolding elf_probe_def bindR_assoc
proof (rule runs_fread [OF K fr i sub u pos], goal_cases rd)
  case (rd s' X)
  have "is_elf B \<longleftrightarrow> ram s' mg = 0x7F \<and> ram s' (mg + 1) = 69 \<and> ram s' (mg + 2) = 76 \<and> ram s' (mg + 3) = 70"
    using rd(3) [rule_format, of 0] rd(3) [rule_format, of 1] rd(3) [rule_format, of 2] rd(3) [rule_format, of 3]
    by (simp add: is_elf_def B numeral_2_eq_2)
  then show ?case using go [OF rd(1,2) _ rd(5)] rd(4) by simp
qed

lemma runs_elf_load:
  fixes s :: "'a vfs_state_scheme"
  assumes B: "B = file_byte G D n" and K: "kern_ok K C" and fr: "file_ready K C L f fs G D str n s"
    and i: "inv C s (insert (mg, 4) (insert (hb, 52) (insert (f, sizeof_filesystem) L)))
      (read_cost G str 4 + (read_cost G str 52 + (32 * seen_phnum B + (read_cost G str (32 * seen_phnum B) + r))))"
    and u: "sep (insert (f, sizeof_filesystem) L) mg 4" "sep (insert (f, sizeof_filesystem) L) hb 52" "mg \<noteq> 0" "hb \<noteq> 0"
    and rd: "readable G D n 0 4" "readable G D n 4 52"
    and tb: "is_elf B \<Longrightarrow> seen_type B < 2 \<Longrightarrow> readable G D n (seen_phoff B) (32 * seen_phnum B)"
  shows "runs (stuck C) (\<lambda>(rc, s'). rc = load_result B \<and> klog s' = klog s @ load_log B) (elf_load K mg hb f s)"
proof -
  let ?F = "(f, sizeof_filesystem)"
  let ?A = "insert (mg, 4) (insert (hb, 52) (insert ?F L))"
  let ?s0 = "file_set_position f 0 s"
  note p0 = set_position [OF K fr i, where p = 0]
  have i0: "inv C ?s0 ?A (read_cost G str 4 + (read_cost G str 52 + (32 * seen_phnum B + (read_cost G str (32 * seen_phnum B) + r))))"
    by (rule p0(2)) simp
  have fr0: "file_ready K C L f fs G D str n ?s0" and f0: "field f f_pos ?s0 = 0" "klog ?s0 = klog s" using p0(1,3,4) by simp_all
  have lg: "klog t = klog s'" if "kept_sp s' t" for s' t :: "'a vfs_state_scheme"
    using kept_sel(8) [OF that [unfolded kept_sp_def]] by simp
  show ?thesis
    unfolding elf_load_def
  proof (rule runs_elf_probe [OF B K fr0 i0 _ _ u(1,3) f0(1) rd(1)], goal_cases s1 s2 probe)
    case (probe s1 X)
    have l1: "klog s1 = klog s" using lg [OF probe(4)] f0(2) by simp
    show ?case
    proof (cases "is_elf B")
      case False
      then show ?thesis using l1 by (simp add: load_result_def load_log_def)
    next
      case elf: True
      then have ok: "\<not> (if is_elf B then 1 else 0) = (0 :: int)" by simp
      show ?thesis
        unfolding case_prod_conv if_not_P [OF ok]
      proof (rule runs_fread [OF K probe(1,2) _ _ u(2,4) probe(3) rd(2)], goal_cases s1 s2 header)
        case (header s2 Y)
        have l2: "klog s2 = klog s" using lg [OF header(5)] l1 by simp
        note hb = read_loads [OF header(3)]
        have e: "ld16 (ram s2) (hb + e_type) = seen_type B" "ld16 (ram s2) (hb + e_phnum) = seen_phnum B" "ld32 (ram s2) (hb + e_phoff) = seen_phoff B"
          using hb(2) [of e_type] hb(2) [of e_phnum] hb(1) [of e_phoff] by (simp_all add: B)
        show ?case
        proof (cases "2 \<le> seen_type B")
          case True
          then show ?thesis using l2 elf by (simp add: e Let_def load_result_def load_log_def say_def)
        next
          case ty: False
          let ?A2 = "Y \<union> (X \<union> ?A)" and ?n = "32 * seen_phnum B"
          have tb': "readable G D n (seen_phoff B) ?n" using tb elf ty by simp
          show ?thesis
            unfolding case_prod_conv e Let_def if_not_P [OF ty] bindR_assoc
          proof (rule runs_malloc [OF K header(2)], goal_cases alloc)
            case (alloc ph s3)
            have ph: "ph \<noteq> 0" "sep (insert ?F L) ph ?n" using alloc(1) by (auto simp: fresh_def sep_def)
            have mem3: "ram s3 x = ram s2 x" if "x \<in> region q" "q \<in> ?A2" for x q
              using alloc(4) that by (auto simp: keeps_def same_on_def)
            have fr3: "file_ready K C L f fs G D str n s3"
            proof (rule file_ready_same [OF header(1)])
              show "keeps L (ram s2) (ram s3)" by (rule keeps_mono [OF alloc(4)]) auto
              show "same_on {f..<f + f_pos} (ram s2) (ram s3)"
                using mem3 [of _ ?F] by (auto simp: same_on_def region_def)
              show "strtok_sp s3 = 0" using kept_sel(1) [OF alloc(3)] header(1) by (simp add: file_ready_def)
            qed
            have "ld32 (ram s3) (hb + e_phoff) = ld32 (ram s2) (hb + e_phoff)"
              by (rule ld32_frame) (auto simp: same_on_def region_def intro: mem3 [of _ "(hb, 52)"])
            then have po: "ld32 (ram s3) (hb + e_phoff) = seen_phoff B" using e(3) by simp
            let ?s4 = "file_set_position f (seen_phoff B) s3"
            note p4 = set_position [OF K fr3 alloc(2), where p = "seen_phoff B"]
            have i4: "inv C ?s4 (insert (ph, ?n) ?A2) (read_cost G str ?n + r)" by (rule p4(2)) simp
            have fp4: "field f f_pos ?s4 = seen_phoff B" using p4(3) tb' by (simp add: readable_def)
            have lg4: "klog ?s4 = klog s" using p4(4) l2 kept_sel(8) [OF alloc(3)] by simp
            show ?case
              unfolding case_prod_conv if_not_P [OF ph(1)] po
            proof (rule runs_fread [OF K p4(1) i4 _ _ ph(2,1) fp4 tb'], goal_cases a1 a2 a3 table)
              case (table s5 Z)
              have "ram s5 x = ram s2 x" if x: "hb \<le> x" "x < hb + 52" for x
              proof -
                have q: "x \<in> region (hb, 52)" using x by (simp add: region_def)
                have "apart ph ?n hb 52" using alloc(1) by (auto simp: fresh_def)
                then have a: "x \<notin> {ph..<ph + ?n}" using x by (auto simp: apart_def)
                have "apart hb 52 f sizeof_filesystem" using u(2) by (simp add: sep_def)
                then have b: "x \<notin> {f + f_pos..<f + f_pos + 4}" using x by (auto simp: apart_def)
                have "ram s5 x = ram ?s4 x" using table(6) q a b by blast
                also have "\<dots> = ram s3 x" using p4(5) [OF _ b] by simp
                also have "\<dots> = ram s2 x" by (rule mem3 [OF q]) simp
                finally show ?thesis .
              qed
              then have "ld16 (ram s5) (hb + e_phnum) = ld16 (ram s2) (hb + e_phnum)" by (simp add: ld16_def ld8_def)
              then have pn: "ld16 (ram s5) (hb + e_phnum) = seen_phnum B" using e(2) by simp
              have "\<forall>i<32 * seen_phnum B. ram s5 (ph + i) = B (seen_phoff B + i)" using table(3) by (simp add: B)
              note sg = elf_segments_log [OF this]
              have "klog s5 = klog s" using lg [OF table(5)] lg4 by simp
              then show ?case unfolding case_prod_conv pn sg using elf ty by (simp add: load_result_def load_log_def)
            qed auto
          qed
        qed
      qed auto
    qed
  qed auto
qed

text \<open>
  C12. Loading an open ext2 file always fails, and how depends on the bytes of the file on the disk alone: without the ELF
  magic it is -EBADF; otherwise the header is taken from offset 4 on, and what is seen there as the type gives -ENOEXEC from 2 on; else
  the segments of the table that is seen are listed, exactly the loadable ones, and the result is -ENOSYS.
\<close>

theorem elf_load_refuses:
  assumes "B = file_byte G D n" "kern_ok K C" "file_ready K C L f fs G D str n s"
    and "inv C s (insert (mg, 4) (insert (hb, 52) (insert (f, sizeof_filesystem) L)))
      (read_cost G str 4 + (read_cost G str 52 + (32 * seen_phnum B + (read_cost G str (32 * seen_phnum B) + r))))"
    and "sep (insert (f, sizeof_filesystem) L) mg 4" "sep (insert (f, sizeof_filesystem) L) hb 52" "mg \<noteq> 0" "hb \<noteq> 0"
    and "readable G D n 0 4" "readable G D n 4 52"
    and "is_elf B \<Longrightarrow> seen_type B < 2 \<Longrightarrow> readable G D n (seen_phoff B) (32 * seen_phnum B)"
  shows "runs (stuck C) (\<lambda>(rc, s'). rc = load_result B \<and> klog s' = klog s @ load_log B) (elf_load K mg hb f s)"
  by (rule runs_elf_load [OF assms])

text \<open>The small disk with an ELF file that has one loadable segment, found at the offset that the loader takes.\<close>

definition elf_disk :: mem where
  "elf_disk = small_disk(8192 := 0x7F, 8193 := 69, 8194 := 76, 8195 := 70, 8212 := 1, 8224 := 52, 8240 := 1, 8244 := 1, 8249 := 0x10)"

definition elf_start :: small_state where
  "elf_start = small_calling\<lparr>hw := drive elf_disk\<rparr>"

definition elf_regions :: regions where
  "elf_regions = {(0x1000, 28), (0x1100, 1044), (0x100, 2), (0x2100, 4), (0x140, 8)}"

lemma elf_inodes:
  "inode_addr small_geo elf_disk 2 = 5248" "inode_addr small_geo elf_disk 3 = 5376" "inode_ok small_geo elf_disk 2" "inode_ok small_geo elf_disk 3"
  by (simp_all add: inode_addr_def inode_ok_def inode_block_def blk_ok_def elf_disk_def small_disk_def ld32_def ld8_def)

lemma elf_dir_data: "dir_data small_geo elf_disk 2 = 7 # 0 # replicate 10 0"
proof -
  have z: "replicate 10 (0 :: nat) = [0, 0, 0, 0, 0, 0, 0, 0, 0, 0]" by (simp add: numeral_eq_Suc)
  show ?thesis unfolding dir_data_def elf_inodes z by (simp add: upt_rec elf_disk_def small_disk_def ld32_def ld8_def)
qed

lemma elf_loads:
  "ld32 elf_disk 7168 = 3" "ld16 elf_disk 7172 = 1024" "ld8 elf_disk 7174 = 2" "bytes_at elf_disk 7176 2 = [97, 98]"
  "ld16 elf_disk 4 = 0" "ld8 elf_disk 6 = 0" "bytes_at elf_disk 8 0 = []"
  by (simp_all add: elf_disk_def small_disk_def ld32_def ld16_def ld8_def bytes_at_def upt_rec)

lemma elf_dir_entries: "dir_entries elf_disk 1024 7168 0 = [(3, [97, 98])]" "dir_inside elf_disk 1024 7168 0" "dir_inside elf_disk 1024 0 0"
  by (simp_all add: elf_loads dir_entries.simps [of elf_disk 1024 7168 0] dir_entries.simps [of elf_disk 1024 8192 1024]
      dir_inside.simps [of elf_disk 1024 7168 0] dir_inside.simps [of elf_disk 1024 8192 1024] dir_inside.simps [of elf_disk 1024 0 0])

lemma elf_path: "path_ok small_geo elf_disk 2 [[97, 98]]" "path_walk small_geo elf_disk 2 [[97, 98]] = 3"
proof -
  have d: "dir_ok small_geo elf_disk 2"
    using elf_dir_entries(2,3) by (simp add: dir_ok_def elf_inodes elf_dir_data dir_block_ok_def blk_ok_def elf_loads)
  have f: "dir_find small_geo elf_disk 2 [97, 98] = 3"
    by (simp add: elf_loads dir_find_def elf_dir_data dir_block_empty_def elf_dir_entries pick_def answers_def sint32_def)
  show "path_ok small_geo elf_disk 2 [[97, 98]]" "path_walk small_geo elf_disk 2 [[97, 98]] = 3" by (simp_all add: d f elf_inodes)
qed

lemma elf_file: "file_blk small_geo elf_disk 3 0 = 8" "i < 1024 \<Longrightarrow> file_byte small_geo elf_disk 3 i = elf_disk (8192 + i)"
  by (simp_all add: file_byte_def file_blk_def elf_inodes) (simp_all add: elf_disk_def small_disk_def ld32_def ld8_def)

lemma elf_ready: "file_ready small_kern (small_contract elf_disk) elf_regions 0x2000 0x1000 small_geo elf_disk [47, 97, 98] 3 elf_start"
proof -
  have m: "mounted (small_contract elf_disk) elf_regions 0x1000 small_geo elf_disk elf_start"
    using small_fields
    by (simp add: mounted_def EXT2_PRIV_def priv_field_def field_def elf_start_def calling_ram ld32_st32_other geo_ok_def)
      (simp add: elf_regions_def small_contract_def)
  have "text_in elf_regions (ram small_calling) 0x2100 [47, 97, 98]"
    using calling_strings(2) unfolding text_in_def elf_regions_def
    by (intro conjI exI [of _ "0x2100"] exI [of _ 4]) simp_all
  moreover have "slash_ok small_kern elf_regions (ram small_calling)"
    using calling_strings(1) by (simp add: slash_ok_def small_kern_def elf_regions_def)
  moreover have "field 0x2000 f_fs small_calling = 0x1000" "field 0x2000 f_respath small_calling = 0x2100" "field 0x2000 f_fops small_calling = 0x140"
    "field 0x140 fops_read small_calling = 0x210"
    using small_fields by (simp_all add: field_def calling_ram ld32_st32_other mem_simps)
  moreover have "strtok_sp small_calling = 0" by (simp add: small_calling_def)
  moreover have "sep elf_regions 0x2000 28" by (simp add: elf_regions_def sep_def apart_def)
  moreover have "field p off elf_start = field p off small_calling" "ram elf_start = ram small_calling" "strtok_sp elf_start = strtok_sp small_calling" for p off
    by (simp_all add: elf_start_def field_def)
  ultimately show ?thesis
    using m elf_path elf_inodes(4) by (simp add: file_ready_def small_tokens small_kern_def elf_regions_def)
qed

theorem elf_load_refuses_witness:
  "\<exists>s'. elf_load small_kern 0x2200 0x2300 0x2000 elf_start = Inr (- ENOSYS, s') \<and>
     klog s' = klog elf_start @ [(''LOAD: offset 0x%x vaddr 0x%xpaddr 0x%x filesz 0x%x memsz 0x%x'', [0x1000, 0, 0, 0, 0])]"
proof -
  let ?B = "file_byte small_geo elf_disk 3" and ?C = "small_contract elf_disk"
  have b: "?B i = elf_disk (8192 + i)" if "i < 1024" for i by (rule elf_file(2) [OF that])
  have v: "is_elf ?B" "seen_type ?B = 1" "seen_phoff ?B = 52" "seen_phnum ?B = 1"
    by (simp_all add: is_elf_def ld16_def ld32_def ld8_def b) (simp_all add: elf_disk_def small_disk_def)
  have r: "load_result ?B = - ENOSYS"
    "load_log ?B = [(''LOAD: offset 0x%x vaddr 0x%xpaddr 0x%x filesz 0x%x memsz 0x%x'', [0x1000, 0, 0, 0, 0])]"
    by (simp_all add: load_result_def load_log_def v [simplified] segment_line_def)
      (simp add: ld32_def ld8_def b, simp add: elf_disk_def small_disk_def)
  have blk: "readable small_geo elf_disk 3 pos cnt" if "0 < cnt" "pos + cnt < 1024" for pos cnt
    using that by (simp add: readable_def file_blk_ok_def elf_file(1) blk_ok_def read_span_def)
  have "runs (stuck ?C) (\<lambda>(rc, s'). rc = load_result ?B \<and> klog s' = klog elf_start @ load_log ?B)
      (elf_load small_kern 0x2200 0x2300 0x2000 elf_start)"
  proof (rule elf_load_refuses [OF refl small_kern_ok elf_ready, where r = 0])
    show "inv ?C elf_start (insert (0x2200, 4) (insert (0x2300, 52) (insert (0x2000, sizeof_filesystem) elf_regions)))
      (read_cost small_geo [47, 97, 98] 4 + (read_cost small_geo [47, 97, 98] 52 +
        (32 * seen_phnum ?B + (read_cost small_geo [47, 97, 98] (32 * seen_phnum ?B) + 0))))"
      unfolding v by (simp add: small_contract_def elf_regions_def elf_start_def small_calling_def read_cost_def find_cost_def read_span_def block_cost_def
          dir_cost_def small_tokens)
    show "sep (insert (0x2000, sizeof_filesystem) elf_regions) 0x2200 4" "sep (insert (0x2000, sizeof_filesystem) elf_regions) 0x2300 52"
      by (simp_all add: elf_regions_def sep_def apart_def)
  qed (simp_all add: v [simplified] blk)
  then show ?thesis unfolding r small_stuck runs_total by auto
qed

end
