(* ===== verification/Shell.thy ===== *)
theory Shell
  imports Elf
begin

text \<open>
  kernel/shell.c: the commands of the debug shell and how a line of input chooses one; include/errno.h: the names of the errors. The
  commands work on the kernel's state by system calls and direct calls; what they print is recorded in the log.
\<close>

section \<open>Error names\<close>

definition errno_names :: "string list" where
  "errno_names = [''EPERM'', ''ENOENT'', ''ESRCH'', ''EINTR'', ''EIO'', ''ENXIO'', ''E2BIG'', ''ENOEXEC'', ''EBADF'', ''ECHILD'', ''EAGAIN'', ''ENOMEM'',
     ''EACCES'', ''EFAULT'', ''ENOTBLK'', ''EBUSY'', ''EEXIST'', ''EXDEV'', ''ENODEV'', ''ENOTDIR'', ''EISDIR'', ''EINVAL'', ''ENFILE'', ''EMFILE'',
     ''ENOTTY'', ''ETXTBSY'', ''EFBIG'', ''ENOSPC'', ''ESPIPE'', ''EROFS'', ''EMLINK'', ''EPIPE'', ''EDOM'', ''ERANGE'', ''ENOSYS'']"

definition errno_to_string :: "int \<Rightarrow> string" where
  "errno_to_string errno =
     (if errno = 0 then ''SUCCESS''
      else let e = (if errno < 0 then errno * -1 else errno)
           in if 1 \<le> e \<and> e \<le> 35 then errno_names ! nat (e - 1) else ''UNKNOWN'')"

section \<open>The commands\<close>

text \<open>
  What the linker and the compiler place: \<open>lit\<close> gives the addresses of the string literals, the \<open>loc\<close> fields are those of
  local variables; \<open>p1_ptrs\<close> and \<open>p2_ptrs\<close> are the results of the allocations of \<open>sched_mk_process\<close>, as in the scheduler.
\<close>

record shell_env =
  lit :: "string \<Rightarrow> nat"
  loc_stat :: nat
  loc_header :: nat
  loc_load_header :: nat
  loc_magic :: nat
  testmt_1 :: nat
  testmt_2 :: nat
  p1_ptrs :: mk_ptrs
  p2_ptrs :: mk_ptrs

abbreviation (input) st_size :: nat where "st_size \<equiv> 16"

text \<open>The result says whether the command comes back: a system call that does not leaves the shell where it is.\<close>

type_synonym 's command = "'s \<Rightarrow> (bool \<times> 's) outcome"

definition sys :: "'a vfs_state_scheme kern \<Rightarrow> 'a vfs_state_scheme write_fn \<Rightarrow> nat \<Rightarrow> nat \<Rightarrow> nat \<Rightarrow> nat \<Rightarrow>
    (int \<Rightarrow> 'a vfs_state_scheme command) \<Rightarrow> 'a vfs_state_scheme command" where
  "sys K cw n a1 a2 a3 k st =
     bindR (call_syscall K cw n a1 a2 a3 st) (\<lambda>(rc, st'). case rc of None \<Rightarrow> Inr (False, st') | Some v \<Rightarrow> k v st')"

primrec ps_loop :: "shell_env \<Rightarrow> nat list \<Rightarrow> 'a vfs_state_scheme \<Rightarrow> 'a vfs_state_scheme outcome" where
  "ps_loop E [] st = Inr st"
| "ps_loop E (t # ts) st =
     (if t = 0 then ps_loop E ts st
      else with_thread t st (\<lambda>th. with_proc (t_owner th) st (\<lambda>pr.
        ps_loop E ts (say ''%s [%d] %s'' [int (p_comm pr), p_pid pr, int (if current st = t then lit E ''[current]'' else lit E '''')] st))))"

definition cmd_ps :: "shell_env \<Rightarrow> 'a vfs_state_scheme command" where
  "cmd_ps E st = bindR (ps_loop E (thread_queue st) (say ''NAME [PID] extra'' [] st)) (\<lambda>st'. Inr (True, st'))"

definition dev_type_name :: "nat \<Rightarrow> string" where
  "dev_type_name ty = (if ty = 3 then ''[tty]'' else if ty = 0 then ''[pseudo]'' else if ty = 1 then ''[isa]'' else if ty = 2 then ''[pci]''
     else if ty = 4 then ''[blk]'' else if ty = 5 then ''[intty]'' else ''[unktype]'')"

text \<open>A null entry sends the loop to the same index again.\<close>

partial_function (option) lsdev_loop :: "shell_env \<Rightarrow> int \<Rightarrow> 'a vfs_state_scheme \<Rightarrow> 'a vfs_state_scheme outcome option" where
  "lsdev_loop E i st =
     (if i < int (get_num_of_devices st)
      then case device_get i st of
             Inl h \<Rightarrow> Some (Inl h)
           | Inr d \<Rightarrow> if d = 0 then lsdev_loop E (i - 1 + 1) st
                      else lsdev_loop E (i + 1) (say ''%s %s'' [int (field d dev_name st), int (lit E (dev_type_name (field d dev_type st)))] st)
      else Some (Inr st))"

definition cmd_lsdev :: "shell_env \<Rightarrow> 'a vfs_state_scheme command" where
  "cmd_lsdev E st = (case lsdev_loop E 0 (say ''NAME TYPE'' [] st) of None \<Rightarrow> Inl Hang | Some r \<Rightarrow> bindR r (\<lambda>st'. Inr (True, st')))"

definition cmd_ls :: "shell_env \<Rightarrow> 'a vfs_state_scheme kern \<Rightarrow> nat \<Rightarrow> 'a vfs_state_scheme command" where
  "cmd_ls E K arg st = bindR (vfs_open K arg st) (\<lambda>(file, st1).
     if field file f_isdir st1 = 0 then Inr (True, say ''%s'' [int (lit E (errno_to_string ENOTDIR))] st1) else Inr (True, st1))"

definition cmd_stat :: "shell_env \<Rightarrow> 'a vfs_state_scheme kern \<Rightarrow> 'a vfs_state_scheme write_fn \<Rightarrow> nat \<Rightarrow> 'a vfs_state_scheme command" where
  "cmd_stat E K cw arg = sys K cw 18 arg (loc_stat E) 0 (\<lambda>ret st1.
     if ret < 0 then Inr (True, say ''Error while stat: %d'' [ret] st1)
     else Inr (True, say ''Size: %d bytes'' [int (field (loc_stat E) st_size st1)] (say ''File: %s'' [int arg] st1)))"

definition cmd_cat :: "shell_env \<Rightarrow> 'a vfs_state_scheme kern \<Rightarrow> 'a vfs_state_scheme write_fn \<Rightarrow> nat \<Rightarrow> 'a vfs_state_scheme command" where
  "cmd_cat E K cw arg = sys K cw 18 arg (loc_stat E) 0 (\<lambda>ret st1.
     if ret < 0 then Inr (True, say ''Error while stat: %d'' [ret] st1)
     else bindR (k_malloc K (field (loc_stat E) st_size st1) st1) (\<lambda>(buf, st2).
       sys K cw 5 arg 0 0 (\<lambda>fd st3.
         if fd \<le> 0 then Inr (True, say ''open failed'' [] st3)
         else sys K cw 3 (nat fd) buf (field (loc_stat E) st_size st3) (\<lambda>ret st4.
           sys K cw 4 1 buf (field (loc_stat E) st_size st4) (\<lambda>_ st5. Inr (True, st5)) st4) st3) st2))"

definition cmd_exit :: "'a vfs_state_scheme kern \<Rightarrow> 'a vfs_state_scheme write_fn \<Rightarrow> 'a vfs_state_scheme command" where
  "cmd_exit K cw = sys K cw 1 0 0 0 (\<lambda>_ st. Inr (True, st))"

text \<open>
  The bodies of the two test threads, with the shared counter \<open>__i_\<close>. The first one subtracts the value of \<open>100 > 0\<close>, which is 1. \<open>yld\<close> is
  \<open>schedule_noirq\<close>, while which the other thread may change the counter.
\<close>

partial_function (option) cmd_testmt_1_loop :: "int \<Rightarrow> 'a vfs_state_scheme \<Rightarrow> (int \<times> 'a vfs_state_scheme) outcome option" where
  "cmd_testmt_1_loop i st =
     (if i = - 2147483648 then Some (Inl (Undefined ''overflow of __i_''))
      else let j = i - 1 in if j \<noteq> 0 then cmd_testmt_1_loop j (say ''%d'' [j] st) else Some (Inr (j, st)))"

definition cmd_testmt_1 :: "'a vfs_state_scheme kern \<Rightarrow> 'a vfs_state_scheme write_fn \<Rightarrow> int \<Rightarrow> 'a vfs_state_scheme command" where
  "cmd_testmt_1 K cw i st = bindR (case cmd_testmt_1_loop i st of None \<Rightarrow> Inl Hang | Some r \<Rightarrow> r) (\<lambda>(j, st1). cmd_exit K cw st1)"

partial_function (option) cmd_testmt_2_loop :: "(int \<times> 'a vfs_state_scheme \<Rightarrow> (int \<times> 'a vfs_state_scheme) outcome) \<Rightarrow> int \<Rightarrow> 'a vfs_state_scheme \<Rightarrow>
    (int \<times> 'a vfs_state_scheme) outcome option" where
  "cmd_testmt_2_loop yld i st =
     (if i = 2147483647 then Some (Inl (Undefined ''overflow of __i_''))
      else if i < 1000
      then (case (if (i + 1) mod 100 = 0 then yld (i + 1, say ''%d'' [i + 1] st) else Inr (i + 1, say ''%d'' [i + 1] st)) of
          Inl h \<Rightarrow> Some (Inl h) | Inr (j, st1) \<Rightarrow> cmd_testmt_2_loop yld j st1)
      else Some (Inr (i + 1, st)))"

definition cmd_testmt_2 :: "'a vfs_state_scheme kern \<Rightarrow> 'a vfs_state_scheme write_fn \<Rightarrow>
    (int \<times> 'a vfs_state_scheme \<Rightarrow> (int \<times> 'a vfs_state_scheme) outcome) \<Rightarrow> int \<Rightarrow> 'a vfs_state_scheme command" where
  "cmd_testmt_2 K cw yld i st = bindR (case cmd_testmt_2_loop yld i st of None \<Rightarrow> Inl Hang | Some r \<Rightarrow> r) (\<lambda>(j, st1). cmd_exit K cw st1)"

text \<open>Alone, the first thread counts down to zero one by one; with no number to count up to, the second one stops at once.\<close>

lemma cmd_testmt_1_counts: "\<exists>st'. cmd_testmt_1_loop (int (Suc n)) st = Some (Inr (0, st')) \<and> klog st' = klog st @ map (\<lambda>j. (''%d'', [int j])) (rev [1..<Suc n])"
proof (induction n arbitrary: st)
  case 0
  then show ?case by (subst cmd_testmt_1_loop.simps) simp
next
  case (Suc n)
  obtain st' where "cmd_testmt_1_loop (int (Suc n)) (say ''%d'' [int (Suc n)] st) = Some (Inr (0, st'))"
    "klog st' = klog (say ''%d'' [int (Suc n)] st) @ map (\<lambda>j. (''%d'', [int j])) (rev [1..<Suc n])" using Suc.IH by blast
  then show ?case by (subst cmd_testmt_1_loop.simps) (simp add: say_def Let_def)
qed

lemma cmd_testmt_2_stops: "1000 \<le> i \<Longrightarrow> i < 2147483647 \<Longrightarrow> cmd_testmt_2_loop yld i st = Some (Inr (i + 1, st))"
  by (subst cmd_testmt_2_loop.simps) simp

definition cmd_testmt :: "shell_env \<Rightarrow> 'a vfs_state_scheme kern \<Rightarrow> 'a vfs_state_scheme command" where
  "cmd_testmt E K st =
     bindR (sched_mk_process (k_sym K Console_file) (lit E ''p1'') (testmt_1 E) (p1_ptrs E) st) (\<lambda>(p1, st1).
     bindR (sched_mk_process (k_sym K Console_file) (lit E ''p2'') (testmt_2 E) (p2_ptrs E) st1) (\<lambda>(p2, st2).
     bindR (sched_add_process p1 st2) (\<lambda>(_, st3).
     bindR (sched_add_process p2 st3) (\<lambda>(_, st4). Inr (True, st4)))))"

definition cmd_elf :: "shell_env \<Rightarrow> 'a vfs_state_scheme kern \<Rightarrow> 'a vfs_state_scheme write_fn \<Rightarrow> nat \<Rightarrow> 'a vfs_state_scheme command" where
  "cmd_elf E K cw arg = sys K cw 5 arg 0 0 (\<lambda>fd st1.
     if fd \<le> 0 then Inr (True, say ''open failed: %d'' [fd] st1)
     else with_current st1 (\<lambda>_ pr. bindR (fd_entry fd pr) (\<lambda>fp.
       bindR (elf_probe K (loc_magic E) fp st1) (\<lambda>(isElf, st2).
         let st3 = say ''file(%d) is %sELF'' [fd, int (lit E (if isElf \<noteq> 0 then '''' else ''not ''))] st2 in
         if isElf = 0 then sys K cw 6 (nat fd) 0 0 (\<lambda>_ st4. Inr (True, st4)) st3
         else bindR (file_read K fp (loc_header E) sizeof_elf_header st3) (\<lambda>(_, st4).
           let st5 = say ''ELF Type: %s'' [int (lit E (elf_type_as_string (ld16 (ram st4) (loc_header E + e_type))))] st4;
               st6 = say ''Entry Point: 0x%x'' [int (ld32 (ram st5) (loc_header E + 24))] st5
           in bindR (elf_load K (loc_magic E) (loc_load_header E) fp st6) (\<lambda>(ret, st7).
             Inr (True, say ''ELF RET: %s'' [int (lit E (errno_to_string ret))] st7)))))))"

section \<open>The dispatcher\<close>

definition parse_input :: "shell_env \<Rightarrow> 'a vfs_state_scheme kern \<Rightarrow> 'a vfs_state_scheme write_fn \<Rightarrow> nat \<Rightarrow> 'a vfs_state_scheme command" where
  "parse_input E K cw cmd st =
     bindR (hang (strcmp (ram st) (lit E ''ps'') cmd)) (\<lambda>r. if r = 0 then cmd_ps E st
     else bindR (hang (strcmp (ram st) (lit E ''lsdev'') cmd)) (\<lambda>r. if r = 0 then cmd_lsdev E st
     else if strncmp (ram st) (lit E ''ls '') cmd 3 = 0 then cmd_ls E K (cmd + 3) st
     else bindR (hang (strcmp (ram st) (lit E ''exit'') cmd)) (\<lambda>r. if r = 0 then cmd_exit K cw st
     else bindR (hang (strcmp (ram st) (lit E ''testmt'') cmd)) (\<lambda>r. if r = 0 then cmd_testmt E K st
     else if strncmp (ram st) (lit E ''cat '') cmd 4 = 0 then cmd_cat E K cw (cmd + 4) st
     else if strncmp (ram st) (lit E ''stat '') cmd 5 = 0 then cmd_stat E K cw (cmd + 5) st
     else if strncmp (ram st) (lit E ''elf '') cmd 4 = 0 then cmd_elf E K cw (cmd + 4) st
     else Inr (True, st)))))"

text \<open>
  The loop of the shell; \<open>grab\<close> is \<open>grab_input\<close>, which reads a line from the terminal and returns where it is (ShellInput). The loop
  ends only with a halt, or when the shell does not come back from a command.
\<close>

definition show_prompt :: "'a vfs_state_scheme \<Rightarrow> 'a vfs_state_scheme" where
  "show_prompt st = say ''LevOS$ '' [] st"

partial_function (option) shell_loop :: "shell_env \<Rightarrow> 'a vfs_state_scheme kern \<Rightarrow> 'a vfs_state_scheme write_fn \<Rightarrow>
    ('a vfs_state_scheme \<Rightarrow> (nat \<times> 'a vfs_state_scheme) outcome) \<Rightarrow> 'a vfs_state_scheme \<Rightarrow> 'a vfs_state_scheme outcome option" where
  "shell_loop E K cw grab st =
     (case bindR (grab (show_prompt st)) (\<lambda>(inp, st1). parse_input E K cw inp st1) of
        Inl h \<Rightarrow> Some (Inl h)
      | Inr (back, st2) \<Rightarrow> if back then shell_loop E K cw grab st2 else Some (Inr st2))"

definition kernel_shell_start :: "shell_env \<Rightarrow> 'a vfs_state_scheme kern \<Rightarrow> 'a vfs_state_scheme write_fn \<Rightarrow>
    ('a vfs_state_scheme \<Rightarrow> (nat \<times> 'a vfs_state_scheme) outcome) \<Rightarrow> 'a vfs_state_scheme \<Rightarrow> 'a vfs_state_scheme outcome" where
  "kernel_shell_start E K cw grab st =
     (case shell_loop E K cw grab (say ''Starting LevOS debug shell...'' [] st) of None \<Rightarrow> Inl Hang | Some r \<Rightarrow> r)"

section \<open>What a line means\<close>

definition chars :: "string \<Rightarrow> u8 list" where
  "chars w = map of_char w"

text \<open>A command is a word, or a word and the rest of the line behind one space.\<close>

datatype command_word = Ps | Lsdev | Ls nat | Exit | Testmt | Cat nat | Stat nat | Elf_of nat | Nothing

definition command_of :: "u8 list \<Rightarrow> nat \<Rightarrow> command_word" where
  "command_of t cmd =
     (if t = chars ''ps'' then Ps else if t = chars ''lsdev'' then Lsdev else if take 3 t = chars ''ls '' then Ls (cmd + 3)
      else if t = chars ''exit'' then Exit else if t = chars ''testmt'' then Testmt else if take 4 t = chars ''cat '' then Cat (cmd + 4)
      else if take 5 t = chars ''stat '' then Stat (cmd + 5) else if take 4 t = chars ''elf '' then Elf_of (cmd + 4) else Nothing)"

definition run_command :: "shell_env \<Rightarrow> 'a vfs_state_scheme kern \<Rightarrow> 'a vfs_state_scheme write_fn \<Rightarrow> command_word \<Rightarrow> 'a vfs_state_scheme command" where
  "run_command E K cw c = (case c of Ps \<Rightarrow> cmd_ps E | Lsdev \<Rightarrow> cmd_lsdev E | Ls a \<Rightarrow> cmd_ls E K a | Exit \<Rightarrow> cmd_exit K cw | Testmt \<Rightarrow> cmd_testmt E K
     | Cat a \<Rightarrow> cmd_cat E K cw a | Stat a \<Rightarrow> cmd_stat E K cw a | Elf_of a \<Rightarrow> cmd_elf E K cw a | Nothing \<Rightarrow> (\<lambda>st. Inr (True, st)))"

text \<open>The literals lie where the linker puts them.\<close>

definition literals :: "shell_env \<Rightarrow> mem \<Rightarrow> bool" where
  "literals E m \<longleftrightarrow> (\<forall>w\<in>{''ps'', ''lsdev'', ''ls '', ''exit'', ''testmt'', ''cat '', ''stat '', ''elf ''}. cstr m (lit E w) (chars w))"

text \<open>
  C14. A line of input runs the command that its text means: the word as a whole for the commands without an argument, the prefix with a
  space for the others, with the address of what follows as the argument; every other line does nothing.
\<close>

theorem parse_input_command:
  assumes "literals E (ram st)" "cstr (ram st) cmd t"
  shows "parse_input E K cw cmd st = run_command E K cw (command_of t cmd) st"
proof -
  have nz: "0 \<notin> set t" using assms(2) by (auto simp: cstr_iff)
  have eq: "strcmp (ram st) (lit E w) cmd = Some (cmp_spec (chars w) t)" "cmp_spec (chars w) t = 0 \<longleftrightarrow> t = chars w"
    if "w \<in> {''ps'', ''lsdev'', ''exit'', ''testmt''}" for w
  proof -
    have c: "cstr (ram st) (lit E w) (chars w)" using assms(1) that by (auto simp: literals_def)
    show "strcmp (ram st) (lit E w) cmd = Some (cmp_spec (chars w) t)" by (rule strcmp_cstr [OF c assms(2)])
    have "0 \<notin> set (chars w)" using c by (auto simp: cstr_iff)
    then show "cmp_spec (chars w) t = 0 \<longleftrightarrow> t = chars w" using cmp_spec_eq_0 [OF _ nz] by auto
  qed
  have pre: "strncmp (ram st) (lit E w) cmd n = 0 \<longleftrightarrow> take n t = chars w"
    if "w \<in> {''ls '', ''cat '', ''stat '', ''elf ''}" "n = length w" for w n
  proof -
    have "cstr (ram st) (lit E w) (chars w)" using assms(1) that by (auto simp: literals_def)
    from strncmp_prefix [OF this assms(2)] show ?thesis using that(2) by (simp add: chars_def)
  qed
  show ?thesis
    unfolding parse_input_def command_of_def run_command_def
    by (simp add: eq pre)
qed

lemma errno_to_string_neg: "errno_to_string (- e) = errno_to_string e"
  by (simp add: errno_to_string_def Let_def)

text \<open>The line \<open>stat /a\<close> at 0x5000; the literals lie from 0x4000 on.\<close>

definition small_lit :: "string \<Rightarrow> nat" where
  "small_lit w = (if w = ''ps'' then 0x4000 else if w = ''lsdev'' then 0x4010 else if w = ''ls '' then 0x4020 else if w = ''exit'' then 0x4030
     else if w = ''testmt'' then 0x4040 else if w = ''cat '' then 0x4050 else if w = ''stat '' then 0x4060 else if w = ''elf '' then 0x4070 else 0x4080)"

theorem parse_input_command_witness:
  "\<exists>E (s :: small_state). literals E (ram s) \<and> cstr (ram s) 0x5000 (chars ''stat /a'') \<and>
     parse_input E small_kern (\<lambda>f buf n s. Inr (int n, s)) 0x5000 s = cmd_stat E small_kern (\<lambda>f buf n s. Inr (int n, s)) 0x5005 s"
proof -
  let ?E = "\<lparr>lit = small_lit, loc_stat = 0, loc_header = 0, loc_load_header = 0, loc_magic = 0, testmt_1 = 0, testmt_2 = 0, p1_ptrs = undefined, p2_ptrs = undefined\<rparr>"
  let ?m = "put 0x5000 (chars ''stat /a'') (put 0x4070 (chars ''elf '') (put 0x4060 (chars ''stat '') (put 0x4050 (chars ''cat '') (put 0x4040 (chars ''testmt'')
    (put 0x4030 (chars ''exit'') (put 0x4020 (chars ''ls '') (put 0x4010 (chars ''lsdev'') (put 0x4000 (chars ''ps'') (\<lambda>_. 0)))))))))"
  have l: "literals ?E ?m" by (simp add: literals_def small_lit_def chars_def)
  have c: "cstr ?m 0x5000 (chars ''stat /a'')" by (simp add: chars_def)
  have "command_of (chars ''stat /a'') 0x5000 = Stat 0x5005" by (simp add: command_of_def chars_def)
  then show ?thesis
    using parse_input_command [of ?E "small_start ?m" "0x5000" "chars ''stat /a''" small_kern "\<lambda>f buf n s. Inr (int n, s)"] l c
    by (intro exI [of _ ?E] exI [of _ "small_start ?m"]) (simp add: run_command_def)
qed

end
