(* ===== verification/Boot.thy ===== *)
theory Boot
  imports Shell
begin

text \<open>
  main.c: the self-test at boot, the start of the scheduler and the first process. \<open>do_mount\<close> is in Vfs, \<open>parse_multiboot\<close> in
  Multiboot; the order of the calls in \<open>main\<close>, \<open>drivers_init\<close> and \<open>arch_early_init\<close>, which go through the states of
  all components, is not modelled.
\<close>

section \<open>The code\<close>

definition main_init :: "shell_env \<Rightarrow> 'a vfs_state_scheme kern \<Rightarrow> 'a vfs_state_scheme write_fn \<Rightarrow>
    ('a vfs_state_scheme \<Rightarrow> (nat \<times> 'a vfs_state_scheme) outcome) \<Rightarrow> 'a vfs_state_scheme command" where
  "main_init E K cw grab = sys K cw 4 1 (lit E ''Hello, world!'') 14 (\<lambda>_ st.
     bindR (kernel_shell_start E K cw grab st) (\<lambda>st'. Inr (True, st')))"

text \<open>The self-test at boot: \<open>p\<close> is the address of the path, \<open>buf\<close> that of the local variable.\<close>

definition do_test :: "'a vfs_state_scheme kern \<Rightarrow> nat \<Rightarrow> nat \<Rightarrow> 'a vfs_state_scheme \<Rightarrow> 'a vfs_state_scheme outcome" where
  "do_test K p buf st =
     (let st0 = say ''test: trying to find inode of %s'' [int p] st in
      bindR (ext2_find_file_inode K (get_fs st0) p st0) (\<lambda>(i, st1).
        if i < 0 then Inr (say ''test: %s does not exist!'' [int p] st1)
        else bindR (vfs_stat K p buf (say ''test: inode of %s is %d'' [int p, i] st1)) (\<lambda>(rc, st2).
          if rc < 0 then Inr (say ''test: an error occured while stating'' [] st2)
          else bindR (vfs_open K p (say ''test: size of %s is %d bytes'' [int p, int (field buf st_size st2)] st2)) (\<lambda>(f, st3).
            if f = 0 then Inr (say ''test: failed to open %s'' [int p] st3)
            else bindR (k_malloc K (field buf st_size st3) st3) (\<lambda>(buffer, st4).
              bindR (file_read K f buffer (field buf st_size st4) st4) (\<lambda>(rc, st5).
                if rc < 0 then Inr (say ''test: failed to read from file %s'' [int p] st5)
                else Inr (say ''test: contents: %s'' [int buffer] st5)))))))"

definition start_sched :: "nat \<Rightarrow> nat \<Rightarrow> nat \<Rightarrow> nat \<Rightarrow> nat \<Rightarrow> mk_ptrs \<Rightarrow> mk_ptrs \<Rightarrow> 'a sched_state_scheme \<Rightarrow> 'a sched_state_scheme outcome" where
  "start_sched console_file idle_name idle_entry init_name init_entry ps qs st =
     (let (rc, st1) = sched_init st in
      if rc \<noteq> 0 then Inr st1 else sched_start_idle console_file idle_name idle_entry init_name init_entry ps qs st1)"

end
