(* ===== verification/X86.thy ===== *)
theory X86
  imports Sched
begin

text \<open>
  arch/x86: the descriptor tables, the interrupt controller, the timer and the exception handlers. The tables are
  lists of descriptors; the addresses of handlers are 32-bit words.
\<close>

unbundle bit_operations_syntax

section \<open>State\<close>

record gdt_e =
  limit_low :: u16
  base_low :: u16
  base_mid :: u8
  access :: u8
  gran :: u8
  base_high :: u8

record idt_e =
  gate_low :: u16
  gate_sel :: u16
  gate_nil :: u8
  gate_flags :: u8
  gate_high :: u16

text \<open>
  \<open>gdtr_t\<close> and \<open>_idtr\<close> are pairs of limit and base; \<open>gdtr\<close>, \<open>idtr\<close> and \<open>segments\<close> (cs and the data segments) are registers, \<open>irqs_on\<close> is
  the interrupt flag.
\<close>

record x86_state = sched_state +
  gdt :: "gdt_e list"
  gdtr_t :: "nat \<times> nat"
  gdtr :: "nat \<times> nat"
  segments :: "nat \<times> nat"
  idt :: "idt_e list"
  idtr_t :: "nat \<times> nat"
  idtr :: "nat \<times> nat"
  irqs_on :: bool
  pit_ticks :: nat

section \<open>gdt.c\<close>

definition gdt_set_desc :: "nat \<Rightarrow> u32 \<Rightarrow> u32 \<Rightarrow> u8 \<Rightarrow> u8 \<Rightarrow> 'a x86_state_scheme \<Rightarrow> 'a x86_state_scheme outcome" where
  "gdt_set_desc num base limit ac gr st =
     (if num \<ge> 6 then Inl (Undefined ''gdt'')
      else let e = (gdt st ! num)
             \<lparr>base_low := ucast (base AND 0xFFFF), base_mid := ucast (drop_bit 16 base AND 0xFF), base_high := ucast (drop_bit 24 base AND 0xFF),
              limit_low := ucast (limit AND 0xFFFF), gran := ucast (drop_bit 16 limit AND 0x0F)\<rparr>;
             e2 = e\<lparr>gran := gran e OR (gr AND 0xF0)\<rparr>;
             e3 = e2\<lparr>access := ac\<rparr>
        in Inr (say ''x86: gdt: write desc %d'' [int num] (st\<lparr>gdt := (gdt st)[num := e3]\<rparr>)))"

text \<open>gdt.S\<close>

definition set_gdtr :: "'a x86_state_scheme \<Rightarrow> 'a x86_state_scheme" where
  "set_gdtr st = st\<lparr>gdtr := gdtr_t st\<rparr>"

definition reload_segments :: "'a x86_state_scheme \<Rightarrow> 'a x86_state_scheme" where
  "reload_segments st = st\<lparr>segments := (0x8, 0x10)\<rparr>"

definition null_gdt_e :: gdt_e where
  "null_gdt_e = \<lparr>limit_low = 0, base_low = 0, base_mid = 0, access = 0, gran = 0, base_high = 0\<rparr>"

text \<open>\<open>addr\<close> is the address of the table.\<close>

definition gdt_init :: "nat \<Rightarrow> 'a x86_state_scheme \<Rightarrow> (int \<times> 'a x86_state_scheme) outcome" where
  "gdt_init addr st =
     (let st1 = st\<lparr>gdtr_t := (0, 0), gdt := replicate 6 null_gdt_e\<rparr>;
          st2 = st1\<lparr>gdtr_t := (8 * 6 - 1, addr)\<rparr> in
      bindR (gdt_set_desc 0 0 0 0 0 st2) (\<lambda>st3.
      bindR (gdt_set_desc 1 0 0xFFFFFFFF 0x9A 0xCF st3) (\<lambda>st4.
      bindR (gdt_set_desc 2 0 0xFFFFFFFF 0x92 0xCF st4) (\<lambda>st5.
      let st6 = say ''x86: gdt: gdtr was set, reloading segments'' [] (set_gdtr st5)
      in Inr (0, say ''x86: %s done'' [] (reload_segments st6))))))"

section \<open>idt.c\<close>

definition idt_set_int :: "nat \<Rightarrow> u32 \<Rightarrow> u16 \<Rightarrow> u8 \<Rightarrow> 'a x86_state_scheme \<Rightarrow> 'a x86_state_scheme" where
  "idt_set_int n base sel flags st =
     st\<lparr>idt := (idt st)[n mod 256 :=
        \<lparr>gate_low = ucast (base AND 0xFFFF), gate_sel = sel, gate_nil = 0, gate_flags = flags OR 0x60, gate_high = ucast (drop_bit 16 base AND 0xFFFF)\<rparr>]\<rparr>"

definition irq_set :: "nat \<Rightarrow> u32 \<Rightarrow> 'a x86_state_scheme \<Rightarrow> 'a x86_state_scheme" where
  "irq_set i h st = idt_set_int i h 0x08 0x8E st"

text \<open>idt.S\<close>

definition idt_load :: "'a x86_state_scheme \<Rightarrow> 'a x86_state_scheme" where
  "idt_load st = st\<lparr>idtr := idtr_t st\<rparr>"

text \<open>\<open>noop\<close> and \<open>post\<close> are the addresses of \<open>idt_noop_irq\<close> and \<open>post_schedule_noirq\<close>.\<close>

primrec idt_fill :: "nat \<Rightarrow> u32 \<Rightarrow> 'a x86_state_scheme \<Rightarrow> 'a x86_state_scheme" where
  "idt_fill 0 noop st = st"
| "idt_fill (Suc i) noop st = idt_set_int i noop 0x08 0x8E (idt_fill i noop st)"

definition idt_init :: "nat \<Rightarrow> u32 \<Rightarrow> u32 \<Rightarrow> 'a x86_state_scheme \<Rightarrow> int \<times> 'a x86_state_scheme" where
  "idt_init addr noop post st =
     (let st1 = st\<lparr>idtr_t := (8 * 256 - 1, addr)\<rparr>;
          st2 = idt_fill 256 noop st1;
          st3 = idt_set_int 0x2F post 0x08 0x8E st2;
          st4 = say ''x86: idt: %s done'' [] (idt_load st3);
          st5 = (say ''sys: enabling IRQs'' [] st4)\<lparr>irqs_on := True\<rparr>
      in (0, say ''sys: IRQs were enabled we seem to be OK'' [] st5))"

section \<open>irq.c\<close>

definition irq_remap :: "'a x86_state_scheme \<Rightarrow> 'a x86_state_scheme" where
  "irq_remap st =
     outportb 0xA1 0x0 (outportb 0x21 0x0 (outportb 0xA1 0x01 (outportb 0x21 0x01 (outportb 0xA1 0x02 (outportb 0x21 0x04
       (outportb 0xA1 0x28 (outportb 0x21 0x20 (outportb 0xA0 0x11 (outportb 0x20 0x11 st)))))))))"

definition irq_init :: "'a x86_state_scheme \<Rightarrow> int \<times> 'a x86_state_scheme" where
  "irq_init st = (0, irq_remap st)"

section \<open>pit.c\<close>

definition pit_send_cmd :: "u8 \<Rightarrow> 'a x86_state_scheme \<Rightarrow> 'a x86_state_scheme" where
  "pit_send_cmd cmd st = outportb 0x43 cmd st"

definition pit_port :: "nat \<Rightarrow> nat" where
  "pit_port counter = (if counter = 0 then 0x40 else if counter = 0x40 then 0x41 else 0x42)"

definition pit_send_data :: "u16 \<Rightarrow> nat \<Rightarrow> 'a x86_state_scheme \<Rightarrow> 'a x86_state_scheme" where
  "pit_send_data d counter st = outportb (pit_port counter) (ucast d) st"

definition pit_read_data :: "nat \<Rightarrow> 'a x86_state_scheme \<Rightarrow> u8 \<times> 'a x86_state_scheme" where
  "pit_read_data counter st = inportb (pit_port counter) st"

text \<open>The division is one of \<open>int\<close>s by the low half of the frequency.\<close>

definition pit_start_counter :: "nat \<Rightarrow> u8 \<Rightarrow> u8 \<Rightarrow> 'a x86_state_scheme \<Rightarrow> 'a x86_state_scheme outcome" where
  "pit_start_counter freq counter mode st =
     (if freq = 0 then Inr st
      else if freq mod 65536 = 0 then Inl (Trap ''divide error'')
      else let divisor = (of_nat (1193181 div (freq mod 65536)) :: u16);
               ocw0 = (0 :: u8);
               ocw1 = (ocw0 AND NOT 0xE) OR mode;
               ocw2 = (ocw1 AND NOT 0x30) OR 0x30;
               ocw3 = (ocw2 AND NOT 0xC0) OR counter;
               st1 = pit_send_cmd ocw3 st;
               st2 = pit_send_data (divisor AND 0xff) 0 st1
           in Inr (pit_send_data (drop_bit 8 divisor AND 0xff) 0 st2))"

definition arch_get_ticks :: "'a x86_state_scheme \<Rightarrow> nat" where
  "arch_get_ticks st = pit_ticks st"

definition pit_irq :: "'a x86_state_scheme \<Rightarrow> (bool \<times> 'a x86_state_scheme) outcome" where
  "pit_irq st = sched_irq 0 (\<lambda>s. sched_schedule (s\<lparr>pit_ticks := add32 (pit_ticks s) 1\<rparr>)) st"

text \<open>\<open>h\<close> is the address of \<open>pit_irq\<close>.\<close>

definition pit_init :: "u32 \<Rightarrow> 'a x86_state_scheme \<Rightarrow> (int \<times> 'a x86_state_scheme) outcome" where
  "pit_init h st = bindR (pit_start_counter 200 0 0x6 (irq_set 32 h st)) (\<lambda>st1. Inr (0, say ''x86: pit: clocksource registered'' [] st1))"

section \<open>exception.c\<close>

definition exc_divide_by_zero :: "'a outcome" where "exc_divide_by_zero = Inl (Panic ''Divide by zero!'')"
definition exc_debug :: "'a outcome" where "exc_debug = Inl (Panic ''Debug!'')"
definition exc_nmi :: "'a outcome" where "exc_nmi = Inl (Panic ''NMI'')"
definition exc_brp :: "'a outcome" where "exc_brp = Inl (Panic ''Breakpoint!'')"
definition exc_overflow :: "'a outcome" where "exc_overflow = Inl (Panic ''Overflow!'')"
definition exc_bound :: "'a outcome" where "exc_bound = Inl (Panic ''Bound range exceeded.'')"
definition exc_invopcode :: "'a outcome" where "exc_invopcode = Inl (Panic ''Invalid opcode.'')"
definition exc_device_not_avail :: "'a outcome" where "exc_device_not_avail = Inl (Panic ''Device not available.'')"
definition exc_double_fault :: "'a outcome" where "exc_double_fault = Inl (Panic ''Double fault, halting.'')"
definition exc_coproc :: "'a outcome" where "exc_coproc = Inl (Panic ''Coprocessor fault, halting.'')"
definition exc_invtss :: "'a outcome" where "exc_invtss = Inl (Panic ''TSS invalid.'')"
definition exc_segment_not_present :: "'a outcome" where "exc_segment_not_present = Inl (Panic ''Segment not present.'')"
definition exc_ssf :: "'a outcome" where "exc_ssf = Inl (Panic ''Stacksegment faulted.'')"
definition exc_gpf :: "'a outcome" where "exc_gpf = Inl (Panic ''General protection fault'')"
definition exc_reserved :: "'a outcome" where "exc_reserved = Inl (Panic ''This shouldn't happen. Halted.'')"

text \<open>\<open>cr0\<close> is what the variable named \<open>cr2\<close> is loaded with; the process is always called kernel, so nothing is ever resolved.\<close>

definition exc_pf :: "int \<Rightarrow> nat \<Rightarrow> 'a sched_state_scheme \<Rightarrow> 'a sched_state_scheme outcome" where
  "exc_pf errc cr0 st =
     (let comm = ''kernel'';
          st1 = say ''------[ Page fault ]------'' [] st;
          cr2 = cr0;
          st2 = say (''Process: '' @ comm) [] st1;
          st3 = say ''Linear address: 0x%x'' [errc] st2;
          st4 = say ''Error code: 0x%x'' [int cr2] st3;
          st5 = say ''------[ End  Trace ]------'' [] st4;
          resolved = (0 :: nat);
          resolved' = (if comm = ''kernel'' then 0 else resolved)
      in if resolved' = 0 then Inl (Panic ''Unable to handle kernel paging request'') else Inr st5)"

text \<open>\<open>hs\<close> are the addresses of the 16 handlers in the order of the calls.\<close>

definition exceptions_init :: "u32 list \<Rightarrow> 'a x86_state_scheme \<Rightarrow> int \<times> 'a x86_state_scheme" where
  "exceptions_init hs st =
     (0, fold (\<lambda>i s. irq_set i (hs ! i) s) [0..<16] (say ''x86: exceptions being loaded'' [] st))"

end
