(* ===== verification/X86Props.thy ===== *)
theory X86Props
  imports X86 SchedProps
begin

text \<open>
  The descriptors read back as what they were made from, the interrupt table is a map from vectors to handlers, and the
  timer is programmed with the divisor of its frequency.
\<close>

unbundle bit_operations_syntax

section \<open>Segments\<close>

definition null_idt_e :: idt_e where
  "null_idt_e = \<lparr>gate_low = 0, gate_sel = 0, gate_nil = 0, gate_flags = 0, gate_high = 0\<rparr>"

text \<open>How the processor reads a segment descriptor.\<close>

definition desc_base :: "gdt_e \<Rightarrow> u32" where
  "desc_base e = push_bit 24 (ucast (base_high e)) OR push_bit 16 (ucast (base_mid e)) OR ucast (base_low e)"

definition desc_limit :: "gdt_e \<Rightarrow> u32" where
  "desc_limit e = push_bit 16 (ucast (gran e AND 0x0F)) OR ucast (limit_low e)"

lemma split_base:
  "push_bit 24 (ucast (ucast (drop_bit 24 b AND 0xFF :: u32) :: u8)) OR push_bit 16 (ucast (ucast (drop_bit 16 b AND 0xFF) :: u8)) OR
   ucast (ucast (b AND 0xFFFF) :: u16) = (b :: u32)"
proof (rule bit_word_eqI)
  fix n assume n: "n < LENGTH(32)"
  have m: "(0xFF :: u32) = mask 8" "(0xFFFF :: u32) = mask 16" by (simp_all add: mask_eq_exp_minus_1)
  show "bit (push_bit 24 (ucast (ucast (drop_bit 24 b AND 0xFF) :: u8)) OR push_bit 16 (ucast (ucast (drop_bit 16 b AND 0xFF) :: u8)) OR
      ucast (ucast (b AND 0xFFFF) :: u16) :: u32) n = bit b n"
    using n unfolding m by (cases "n < 24") (auto simp: bit_simps)
qed

lemma split_limit:
  "push_bit 16 (ucast ((ucast (drop_bit 16 l AND 0x0F :: u32) OR (g AND 0xF0)) AND 0x0F :: u8)) OR ucast (ucast (l AND 0xFFFF) :: u16) =
   (l :: u32) AND 0xFFFFF"
proof (rule bit_word_eqI)
  fix n assume n: "n < LENGTH(32)"
  have m: "(0x0F :: u32) = mask 4" "(0xFFFF :: u32) = mask 16" "(0xFFFFF :: u32) = mask 20" "(0x0F :: u8) = mask 4" "(0xF0 :: u8) = push_bit 4 (mask 4)"
    by (simp_all add: mask_eq_exp_minus_1 push_bit_eq_mult)
  show "bit (push_bit 16 (ucast ((ucast (drop_bit 16 l AND 0x0F :: u32) OR (g AND 0xF0)) AND 0x0F :: u8)) OR ucast (ucast (l AND 0xFFFF) :: u16) :: u32) n =
      bit (l AND 0xFFFFF) n"
    using n unfolding m by (auto simp: bit_simps)
qed

lemma split_flags: "(ucast (l AND 0x0F :: u32) OR (g AND 0xF0)) AND 0xF0 = (g :: u8) AND 0xF0"
proof (rule bit_word_eqI)
  fix n assume n: "n < LENGTH(8)"
  have m: "(0x0F :: u32) = mask 4" "(0xF0 :: u8) = push_bit 4 (mask 4)" by (simp_all add: mask_eq_exp_minus_1 push_bit_eq_mult)
  show "bit ((ucast (l AND 0x0F :: u32) OR (g AND 0xF0)) AND 0xF0) n = bit (g AND 0xF0) n"
    using n unfolding m by (auto simp: bit_simps)
qed

text \<open>
  C17. A segment descriptor reads back, in the way of the processor, as the base, the low 20 bits of the limit, the access byte and the
  flags that it was made from, and the other descriptors stay as they were.
\<close>

theorem gdt_set_desc_roundtrip:
  assumes "num < 6" "length (gdt st) = 6"
  shows "\<exists>st'. gdt_set_desc num base limit ac gr st = Inr st' \<and>
    desc_base (gdt st' ! num) = base \<and> desc_limit (gdt st' ! num) = limit AND 0xFFFFF \<and> access (gdt st' ! num) = ac \<and>
    gran (gdt st' ! num) AND 0xF0 = gr AND 0xF0 \<and> length (gdt st') = 6 \<and> (\<forall>i. i \<noteq> num \<longrightarrow> gdt st' ! i = gdt st ! i)"
  using assms by (simp add: gdt_set_desc_def Let_def say_def desc_base_def desc_limit_def split_base split_limit split_flags)

definition small_x86 :: x86_state where
  "small_x86 = sched_state.extend small_sched (x86_state.fields (replicate 6 null_gdt_e) (0, 0) (0, 0) (0, 0) (replicate 256 null_idt_e) (0, 0) (0, 0) False 0)"

lemma small_x86_sel: "gdt small_x86 = replicate 6 null_gdt_e" "idt small_x86 = replicate 256 null_idt_e"
  by (simp_all add: small_x86_def sched_state.extend_def x86_state.fields_def)

theorem gdt_set_desc_roundtrip_witness:
  "\<exists>st'. gdt_set_desc 3 0x12345678 0xABCDE 0x9A 0xCF small_x86 =
     Inr st' \<and> desc_base (gdt st' ! 3) = 0x12345678"
  using gdt_set_desc_roundtrip [of 3 small_x86 "0x12345678" "0xABCDE" "0x9A" "0xCF"]
  by (auto simp: small_x86_sel)

text \<open>After \<open>gdt_init\<close>: a null descriptor, and code and data segments over all of memory.\<close>

definition desc_last :: "gdt_e \<Rightarrow> nat" where
  "desc_last e = (if bit (gran e) 7 then unat (desc_limit e) * 4096 + 4095 else unat (desc_limit e))"

lemma gdt_init_flat:
  "\<exists>st'. gdt_init addr st = Inr (0, st') \<and> gdtr st' = (47, addr) \<and> segments st' = (8, 16) \<and> gdt st' ! 0 = null_gdt_e \<and>
     map (\<lambda>i. (desc_base (gdt st' ! i), desc_last (gdt st' ! i), access (gdt st' ! i))) [1, 2] = [(0, W32 - 1, 0x9A), (0, W32 - 1, 0x92)]"
  by (simp add: gdt_init_def gdt_set_desc_def Let_def say_def set_gdtr_def reload_segments_def null_gdt_e_def desc_base_def desc_limit_def desc_last_def)

section \<open>Interrupt vectors\<close>

definition gate_base :: "idt_e \<Rightarrow> u32" where
  "gate_base e = push_bit 16 (ucast (gate_high e)) OR ucast (gate_low e)"

text \<open>A present 32-bit interrupt gate to the code segment that any ring may use.\<close>

definition gate_ok :: "idt_e \<Rightarrow> bool" where
  "gate_ok e \<longleftrightarrow> gate_sel e = 8 \<and> gate_nil e = 0 \<and> gate_flags e = 0xEE"

lemma split_gate: "push_bit 16 (ucast (ucast (drop_bit 16 b AND 0xFFFF :: u32) :: u16)) OR ucast (ucast (b AND 0xFFFF) :: u16) = (b :: u32)"
proof (rule bit_word_eqI)
  fix n assume n: "n < LENGTH(32)"
  have m: "(0xFFFF :: u32) = mask 16" by (simp add: mask_eq_exp_minus_1)
  show "bit (push_bit 16 (ucast (ucast (drop_bit 16 b AND 0xFFFF :: u32) :: u16)) OR ucast (ucast (b AND 0xFFFF) :: u16) :: u32) n = bit b n"
    using n unfolding m by (auto simp: bit_simps)
qed

definition vectors :: "idt_e list \<Rightarrow> (nat \<Rightarrow> u32) \<Rightarrow> bool" where
  "vectors t f \<longleftrightarrow> length t = 256 \<and> (\<forall>v<256. gate_ok (t ! v) \<and> gate_base (t ! v) = f v)"

lemma irq_set_gate: "idt (irq_set n h st) = (idt st)[n mod 256 := idt (irq_set n h st) ! (n mod 256)]" if "length (idt st) = 256"
  using that by (simp add: irq_set_def idt_set_int_def)

lemma irq_set_at:
  assumes "length (idt st) = 256"
  shows "length (idt (irq_set n h st)) = 256" "gate_ok (idt (irq_set n h st) ! (n mod 256))" "gate_base (idt (irq_set n h st) ! (n mod 256)) = h"
    "v \<noteq> n mod 256 \<Longrightarrow> idt (irq_set n h st) ! v = idt st ! v"
  using assms by (simp_all add: irq_set_def idt_set_int_def gate_ok_def gate_base_def split_gate)

lemma irq_set_vectors: "vectors (idt st) f \<Longrightarrow> vectors (idt (irq_set n h st)) (f(n mod 256 := h))"
  using irq_set_at [where st = st and n = n and h = h] unfolding vectors_def by (metis fun_upd_other fun_upd_same)

lemma idt_fill_at:
  "length (idt st) = 256 \<Longrightarrow> n \<le> 256 \<Longrightarrow> length (idt (idt_fill n h st)) = 256 \<and>
     (\<forall>v<n. gate_ok (idt (idt_fill n h st) ! v) \<and> gate_base (idt (idt_fill n h st) ! v) = h)"
proof (induction n)
  case (Suc n)
  have "idt_fill (Suc n) h st = irq_set n h (idt_fill n h st)" by (simp add: irq_set_def)
  then show ?case
    using Suc irq_set_at [where st = "idt_fill n h st" and n = n and h = h] by (auto simp: less_Suc_eq simp del: idt_fill.simps)
qed simp

lemma idt_init_vectors:
  assumes "length (idt st) = 256"
  shows "vectors (idt (snd (idt_init addr noop post st))) ((\<lambda>_. noop)(0x2F := post))"
proof -
  let ?s = "idt_fill 256 noop (st\<lparr>idtr_t := (8 * 256 - 1, addr)\<rparr>)"
  have "vectors (idt ?s) (\<lambda>_. noop)" using idt_fill_at [of "st\<lparr>idtr_t := (8 * 256 - 1, addr)\<rparr>" 256 noop] assms by (simp add: vectors_def)
  from irq_set_vectors [OF this, of "0x2F" post] show ?thesis
    by (simp add: idt_init_def Let_def irq_set_def idt_load_def say_def)
qed

text \<open>
  C16. After \<open>idt_init\<close> and any sequence of \<open>irq_set\<close>s the table is a map: every vector holds a well-formed gate to the handler that
  was set for it last (numbers count modulo 256), and else to \<open>idt_noop_irq\<close>, vector 0x2F to the scheduler.
\<close>

theorem idt_handlers:
  assumes "length (idt st) = 256"
  shows "vectors (idt (fold (\<lambda>(n, h). irq_set n h) hs (snd (idt_init addr noop post st))))
    (fold (\<lambda>(n, h) f. f(n mod 256 := h)) hs ((\<lambda>_. noop)(0x2F := post)))"
proof -
  have "vectors (idt (fold (\<lambda>(n, h). irq_set n h) hs s)) (fold (\<lambda>(n, h) f. f(n mod 256 := h)) hs f)" if "vectors (idt s) f" for s :: "'a x86_state_scheme" and f
    using that
  proof (induction hs arbitrary: s f)
    case (Cons x hs)
    obtain n h where x: "x = (n, h)" by (cases x)
    show ?case using Cons.IH [OF irq_set_vectors [OF Cons.prems, of n h]] by (simp add: x)
  qed simp
  then show ?thesis using idt_init_vectors [OF assms] by blast
qed

theorem idt_handlers_witness:
  "gate_base (idt (irq_set 0x80 0x1234 (snd (idt_init 0x5000 0x10 0x20 small_x86))) ! 0x80) = 0x1234"
  using idt_handlers [of small_x86 "[(0x80, 0x1234)]" "0x5000" "0x10" "0x20"] by (simp add: small_x86_sel vectors_def)

section \<open>The timer\<close>

lemma split_divisor: "unat (ucast (d AND 0xff :: u16) :: u8) + 256 * unat (ucast (drop_bit 8 d AND 0xff) :: u8) = unat d"
proof -
  have m: "(0xff :: u16) = mask 8" by (simp add: mask_eq_exp_minus_1)
  have "unat d < 65536" by (rule less_le_trans [OF unsigned_less]) simp
  then have "unat d div 256 < 256" by (simp add: div_less_iff_less_mult)
  then have "unat d mod 256 + 256 * (unat d div 256 mod 256) = unat d" by simp
  then show ?thesis
    unfolding m by (simp add: unat_mod_distrib unat_div_distrib unsigned_ucast_eq unat_drop_bit_eq drop_bit_eq_div take_bit_eq_mask [symmetric] unsigned_take_bit_eq take_bit_eq_mod)
qed

text \<open>
  C18. For a frequency of 19 Hz to 65535 Hz the timer gets the mode command and then, low byte first, the divisor that
  divides its clock down to the frequency: the rate is off by less than one step of the divisor.
\<close>

theorem pit_divisor:
  assumes "19 \<le> freq" "freq < 65536"
  shows "\<exists>st' lo hi. pit_start_counter freq 0 mode st = Inr st' \<and>
    port_log st' = port_log st @ [Out 0x43 ((mode OR 0x30) AND NOT 0xC0), Out 0x40 lo, Out 0x40 hi] \<and>
    unat lo + 256 * unat hi = 1193181 div freq \<and> (unat lo + 256 * unat hi) * freq \<le> 1193181 \<and> 1193181 < (unat lo + 256 * unat hi + 1) * freq"
proof -
  let ?d = "of_nat (1193181 div freq) :: u16"
  have "1193181 div freq \<le> 1193181 div 19" by (rule div_le_mono2) (use assms in auto)
  then have d: "unat ?d = 1193181 div freq" by (simp add: unat_of_nat take_bit_eq_mod)
  have f: "freq \<noteq> 0" "freq mod 65536 = freq" using assms by simp_all
  have "1193181 div freq * freq \<le> 1193181" by (rule div_times_less_eq_dividend)
  moreover have "1193181 < (1193181 div freq + 1) * freq"
    using dividend_less_div_times [of freq 1193181] f(1) by simp
  moreover have "((mode AND NOT 0x30) OR 0x30) AND NOT 0xC0 = (mode OR 0x30) AND NOT 0xC0"
    by (rule bit_word_eqI) (auto simp: bit_simps)
  ultimately show ?thesis
    using f split_divisor [of ?d] unfolding d
    by (simp add: pit_start_counter_def pit_send_cmd_def pit_send_data_def pit_port_def outportb_def Let_def)
qed

theorem pit_divisor_witness:
  "\<exists>st' lo hi. pit_start_counter 200 0 0x6 small_x86 = Inr st' \<and> port_log st' = port_log small_x86 @ [Out 0x43 0x36, Out 0x40 lo, Out 0x40 hi] \<and>
     unat lo + 256 * unat hi = 5965"
  using pit_divisor [of 200 "0x6" small_x86] by auto

end
