(* ===== verification/Spec2Isabelle.thy ===== *)
theory Spec2Isabelle
  imports CString Itoa HeapProps Multiboot ShellInput SchedReach Layout VfsStat Boot X86Props
begin

text \<open>
  A model of the LevOS 6 kernel: its memory management, drivers, scheduler, file system, system calls and debug shell, with the
  theorems that make them correct. The kernel is C for 32-bit x86; the model is a shallow embedding, one HOL function for each C
  function, with the C name where HOL has no constant of that name.
\<close>

section \<open>The program and how its parts interact\<close>

text \<open>
  At boot, \<open>parse_multiboot\<close> (arch/x86/multiboot.c) walks the memory map of the boot loader, initialises paging with the
  memory that there is (mm/page.c, mm/frame.c) and reserves the frames of the regions that are not free. Until the heap is
  online, \<open>kmalloc\<close> (mm/alloc.c) only moves a pointer; afterwards it leads to liballoc (mm/heap.c), which gets its blocks from
  \<open>mm_alloc_pages\<close> and returns them by \<open>mm_free_pages\<close>. The drivers talk to ports (arch/x86/hal.c) and register devices
  (kernel/device.c). Output goes from \<open>printk\<close> (kernel/printk.c) to a terminal (drivers/tty.c) or, before there is one, to the
  consoles (kernel/console.c), which are the kernel log, the serial line and the VGA screen; input comes from the keyboard
  interrupt (drivers/keyboard.c). The timer interrupt leads to the scheduler (kernel/sched.c), which switches between the threads of a queue of
  32 slots by restoring the registers that the interrupt entry saved (include/levos/x86.h, arch/x86/sched.c). Files are found through the
  mount table (fs/vfs.c) and the ext2 file system (fs/ext2), which reads the disk by the ATA driver (drivers/ata.c). Programs and the
  shell (kernel/shell.c) reach all this by interrupt 0x80 and the table of system calls (kernel/syscall.c, arch/x86/syscall.c).
\<close>

section \<open>How the code is represented\<close>

text \<open>
  \<^item> Memory is one function from addresses to bytes (\<open>mem\<close> in Prelude). Structs that the code shares by pointers, or that lie in the
    buffers of a disk, are read and written there with \<open>ld8\<close>, \<open>ld16\<close>, \<open>ld32\<close>, \<open>st8\<close>, \<open>st16\<close>, \<open>st32\<close> at the offsets of the headers;
    so aliasing, overruns and stale bytes are what they are in the code. Structs whose address does not matter are records.
  \<^item> Pointers and the integers that travel through memory are natural numbers below \<open>W32\<close>, with the wrap-around written out (\<open>add32\<close>, \<open>sub32\<close>,
    \<open>mod W32\<close>); bytes, descriptors and device registers are words (\<open>u8\<close>, \<open>u16\<close>, \<open>u32\<close>); \<open>int\<close> results are integers, negative for an errno.
  \<^item> Global variables are fields of records. Each component extends the record of what it builds on:
    \<open>mm_state\<close>, \<open>heap_state\<close> for memory management; \<open>port_state\<close>, \<open>dev_state\<close>, then \<open>kbd_state\<close>, \<open>io_state\<close>,
    \<open>tty_state\<close>, \<open>printk_state\<close> for input and output; and from \<open>dev_state\<close> also \<open>cpu_state\<close>, \<open>sched_state\<close>, then \<open>vfs_state\<close> for files,
    system calls and the shell, and \<open>x86_state\<close> for the tables of the processor. The operations are polymorphic in what an extension adds.
  \<^item> An operation that can stop the machine has the type \<open>outcome\<close>: \<open>Inl\<close> with a \<open>Panic\<close>, a \<open>Trap\<close> of the
    processor, \<open>Hang\<close> (a loop that never ends), \<open>Undefined\<close> (a read or call that C does not define) or
    \<open>Fuel\<close>; or \<open>Inr\<close> of the result and the new state. \<open>bindR\<close> is the sequence of two operations.
  \<^item> The hardware (\<open>hw\<close> in \<open>port_state\<close>) is an arbitrary function from all that was sent to the ports to what the next read returns,
    so a device may answer anything that depends on its past.
\<close>

subsection \<open>Loops, bounds and fuel\<close>

text \<open>
  Loops over a range or a buffer are primitive recursion or functions with a measure. A loop that the code cannot promise to end is a
  \<open>partial_function\<close> into \<open>option\<close>, and \<open>None\<close>, which becomes \<open>Hang\<close>, means that it does not: scans for a zero byte
  (\<open>strlen\<close>, \<open>strcmp\<close>, \<open>strtok\<close>), polling a device (\<open>wait_for\<close>, \<open>poll_busy\<close>, \<open>poll_drq\<close>), \<open>itoa\<close> (base 1), \<open>sched_select\<close> (no thread may
  run), the walks over paths, mounts and the memory map, and the shell. Theorems about them say that they return.

  Fuel is used where a bound is known. \<open>malloc_loop\<close> gets \<open>W32\<close>: each turn goes to another block, blocks are at least a page apart, and
  \<open>blocks_length\<close> shows that there are at most 1048576 of them; the walks over the chunks of a block get \<open>W32\<close> as well, chunks being 56 bytes
  apart. \<open>alloc_frame_rec\<close> gets 3: one turn takes a frame, one more is needed if that was frame 0, which reads as no frame at all, and the last
  sets the flags of the page.
  A terminal emits a character with fuel 2, because only a new line leads to one further character. The loops of \<open>vprintk\<close>
  and over a string get \<open>W32\<close>; a text in memory is shorter than that.
  The properties show results, so that none of these runs out.
\<close>

section \<open>The theories\<close>

subsection \<open>Foundations\<close>

text \<open>
  \<^item> Prelude: words and their sizes, \<open>outcome\<close>, bounded scans, loops over addresses.
  \<^item> Memory: loads and stores, C strings in memory (\<open>cstr\<close>), regions that are apart.
  \<^item> CMem (lib/memset.c): the copy loops, equal to a bytewise copy. CString (lib/string.c): \<open>strlen\<close>, comparison, and \<open>strtok\<close> with its static
    cursor, whose calls in a row give the maximal runs of characters that are no delimiters (\<open>tokens\<close>). Itoa (lib/itoa.c): numbers print
    and read back.
  \<^item> Layout (include/levos): the structs that are shared with the disk and the boot loader, and that the offsets used elsewhere are theirs.
\<close>

subsection \<open>Memory management\<close>

text \<open>
  \<^item> PageTable (include/levos/page.h), Alloc (mm/alloc.c), Frame (mm/frame.c): page entries, \<open>kmalloc\<close> before the heap, the frame bitmap and its searches; \<open>frame_set\<close>
    is the bitmap as a set.
  \<^item> Page (mm/page.c): building the directory, \<open>get_page\<close>, \<open>alloc_frame\<close>, \<open>mm_alloc_pages\<close>, \<open>mm_free_pages\<close>, \<open>paging_fini\<close>, with the invariant
    \<open>mm_layout\<close>. \<open>spent\<close> counts the frames that \<open>paging_fini\<close> takes, which bounds the free frames with which it can run out of them.
  \<^item> Heap (mm/heap.c): liballoc. DList is a locale of doubly linked lists in memory with a segment lemma; HeapInv uses it at two levels (\<open>chunks\<close>
    in a block, \<open>blocks\<close> in the heap) for the invariant \<open>heap_ok\<close>. HeapMalloc, HeapOps, Malloc and HeapFree show that the five cases of \<open>malloc\<close> and
    \<open>free\<close> keep it. Allocator is the interface: what a client may do with an allocator that keeps live buffers apart. HeapFree interprets it for
    the heap (\<open>kheap\<close>), and HeapProps states the results: \<open>malloc\<close> serves or fails cleanly, \<open>free\<close>, \<open>calloc\<close>, \<open>realloc\<close>.
  \<^item> Multiboot (arch/x86/multiboot.c): the frames of reserved regions are marked, and beside them only
    those whose bits were set in the part of the bitmap that is never cleared; none if that memory was zero.
\<close>

subsection \<open>Input and output\<close>

text \<open>
  \<^item> Ports (arch/x86/hal.c), Device (kernel/device.c), Keyboard (drivers/keyboard.c), where the buffer of the driver is an instance of the bounded
    queue of ByteQueue (\<open>kbdq\<close>).
  \<^item> CharDevice: the contract of a device that shows characters one by one. Kmsg, Serial, Textmode and Console interpret it for
    the log (kernel/kmsg.c), the line and the screen (arch/x86/serial.c, textmode.c), and all registered consoles together (kernel/console.c).
  \<^item> Tty (drivers/tty.c), Printk, PrintkProps (kernel/printk.c): the locale \<open>emitter\<close> extends the contract; in it \<open>vprintk\<close> shows the rendering of its
    format. It is interpreted for output before there is a terminal (\<open>notty\<close>) and on one (\<open>on_tty\<close>).
  \<^item> Ata (drivers/ata.c): the driver against any drive that holds a disk (\<open>drive_regs\<close> gives one that behaves).
\<close>

subsection \<open>Processor and scheduler\<close>

text \<open>
  \<^item> Context (include/levos/x86.h, arch/x86/sched.c, irq.c): the interrupt macros as pushes and pops on memory; a context that was saved and
    restored is the same.
  \<^item> Sched, SchedProps (kernel/sched.c): the queue and its invariant \<open>queue_ok\<close>, round robin selection, time slices, fairness, and what
    happens when processes come and go. SchedReach is the kernel over time: a step relation of timer interrupts, yields, processes made and left, and
    any other work, and the invariant of all states reachable from \<open>sched_start_idle\<close>, by which every timer interrupt returns.
  \<^item> X86, X86Props (gdt.c, gdt.S, idt.c, idt.S, irq.c, pit.c, exception.c in arch/x86): descriptors read back as what they were made from; the interrupt table is a
    map.
\<close>

subsection \<open>Files, system calls and the shell\<close>

text \<open>
  \<^item> Kern: the state of this layer and the kernel as it sees it: \<open>kmalloc\<close>, \<open>new_free\<close>, the read operation of devices, and the addresses that the
    linker gives to functions and objects; \<open>k_indet\<close> is what a variable holds that was never set. \<open>kern_ok\<close> is the contract that these keep: memory is fresh and other memory
    in use is left alone; devices deliver what is on the disk; both may also stop the machine (\<open>stuck\<close>). It has a budget: \<open>inv C s L r\<close> says that
    \<open>r\<close> more bytes can be had. The routines show how much they use and lose, which makes the leaks of the code explicit
    (\<open>block_cost\<close>, \<open>dir_cost\<close>). \<open>runs\<close> is a weakest precondition for outcomes with one rule for each call.
  \<^item> Ext2, Ext2Dir, Ext2Lookup, Ext2Path, Ext2File, Ext2Mount (fs/ext2): the code, then directories, path walks, reading and mounting, each against what
    the bytes of the disk mean (\<open>geo\<close>, \<open>dir_entries\<close>, \<open>path_walk\<close>). Ext2Props states the results and builds a small kernel with the ATA driver
    and a disk of a few blocks, for which \<open>kern_ok\<close> is proved, so that every theorem of this layer is tried on it.
  \<^item> Vfs, VfsProps, VfsRoot (fs/vfs.c, fs/devfs): the mount table, longest prefixes, mounting the root, opening.
  \<^item> Syscall, SyscallProps (kernel/syscall.c, arch/x86/syscall.c): the calls made by a running thread through the interrupt, from
    registers to registers: \<open>open\<close> and \<open>read\<close> deliver the bytes of the file that the path names on the disk. VfsStat:
    the stat call fills the buffer with the inode that the path names.
  \<^item> Elf (kernel/bin/elf.c): what loading a file reads and why it always refuses. Shell (kernel/shell.c, include/errno.h): commands, dispatch and
    the test threads. ShellInput: \<open>grab_input\<close>, the line that a user types, from the queue of the keyboard through the terminal to the consoles; it is beside the
    theories of input and output, because it works on their state. Boot
    (main.c): the self-test, the first process.
\<close>

section \<open>What the theorems show\<close>

text \<open>
  Safety of the heap and of paging: live buffers never overlap, frames are handed out once, reserved memory stays reserved. Functional
  behaviour of the file system from the bytes of the disk up to the registers of a caller, of the scheduler from the timer to the registers of the next
  thread, and of output from a format to the cells of the screen. Round trips for numbers, contexts, descriptors and frames. And, where
  the code goes wrong, what it does then: a lookup after one that failed walks the rest of the old path, all blocks behind the twelve direct ones are
  the same block, whose number is taken at an index that was never set, freeing the last chunk panics, removing a process other than the current one follows a null pointer.
  Each property has a text with its number; a property with hypotheses is followed by a witness at a concrete state.
\<close>

section \<open>Not modelled\<close>

text \<open>
  \<^item> What the scheduler, the file system and the shell print is only recorded, by \<open>say\<close> with the format and its arguments; they do not go
    through the model of \<open>printk\<close>, whose state is another extension of \<open>dev_state\<close>. So the memory and the ports that printing
    writes, the buffer of the terminal, the log, the screen and the serial line, do not show in these theories, nor does the stack that
    C functions use. Where a property of them says what else happens to memory, it speaks of regions in use
    (of the file system and its callers), which are apart from these; the property of unknown system calls says nothing of memory.
  \<^item> For the same reason some calls across are arguments: the write operation of the console file (\<open>cw\<close>, which is \<open>console_file_write\<close> of Console), the line
    input of the shell (\<open>grab\<close>, which is \<open>grab_input\<close> of ShellInput), \<open>schedule_noirq\<close> where a thread gives up the processor in the middle (\<open>yld\<close>), and the results of \<open>kmalloc\<close> in the scheduler, the terminals and the devices (\<open>mk_ptrs\<close>, \<open>tty_ptrs\<close>).
  \<^item> The heap of mm/heap.c is not connected to \<open>kern_ok\<close>. The contract has a budget in bytes; liballoc also needs free frames for
    each request, and panics when its last chunk is freed, so it keeps the contract only with a budget of frames besides. The contract
    is proved for the allocator of Ext2Props.
  \<^item> The order of the calls in \<open>main\<close>, \<open>drivers_init\<close>, \<open>arch_early_init\<close> and init.c, which goes through the states of all components. The
    calls themselves are modelled.
  \<^item> Assembly other than that of the context switch, interrupts, system calls and the loading of the tables (start.S); \<open>page_fault\<close>, which
    prints and panics; empty handlers and files; the arm stub.
  \<^item> Interrupts that arrive inside an operation. Handlers and system calls run behind interrupt gates, with interrupts off; at boot and in
    the shell they are on.
\<close>

end
